(* ===== verification/Prelude.thy ===== *)
theory Prelude
  imports Complex_Main "HOL-Library.Word" "HOL-Library.Signed_Division" "HOL-Library.Monad_Syntax"
begin

text \<open>
  The vocabulary that every part of the libfreenect model shares: the machine integer types,
  the byte order of the wire (src/freenect_internal.h), the byte-addressed memory in which the
  stream buffers live, C's truncating conversion of a floating point number, and the
  collections of simplification rules the components extend.

  A function that touches memory or loops on the outside world returns an \<open>option\<close>:
  \<open>None\<close> means that the C program has no defined continuation at this point (an access outside
  an object, a use of freed memory, a loop that never ends). A result \<open>Some\<close> therefore says
  that the code returned and that it stayed inside its objects.
\<close>

unbundle bit_operations_syntax

section \<open>Machine integers\<close>

type_synonym u8 = "8 word"
type_synonym u16 = "16 word"
type_synonym u32 = "32 word"
type_synonym u64 = "64 word"

named_theorems wire_simps \<open>encoding and decoding of little endian words\<close>
named_theorems heap_simps \<open>what the memory operations do to a block\<close>
named_theorems frame_simps \<open>the parts of the state an operation leaves alone\<close>

section \<open>Byte order (src/freenect_internal.h)\<close>

text \<open>
  The library is compiled for a little endian host unless FN_BIGENDIAN is set; there the
  macros fn_le16 and fn_le32 are the identity, and a word lies in memory least significant
  byte first. The big endian variants are the inline functions of the header.
\<close>

definition le16 :: "u16 \<Rightarrow> u8 list" where
  "le16 w = [ucast w, ucast (drop_bit 8 w)]"

definition le32 :: "u32 \<Rightarrow> u8 list" where
  "le32 w = [ucast w, ucast (drop_bit 8 w), ucast (drop_bit 16 w), ucast (drop_bit 24 w)]"

definition of_le16 :: "u8 \<Rightarrow> u8 \<Rightarrow> u16" where
  "of_le16 b0 b1 = ucast b0 OR push_bit 8 (ucast b1)"

definition of_le32 :: "u8 \<Rightarrow> u8 \<Rightarrow> u8 \<Rightarrow> u8 \<Rightarrow> u32" where
  "of_le32 b0 b1 b2 b3 =
     ucast b0 OR push_bit 8 (ucast b1) OR push_bit 16 (ucast b2) OR push_bit 24 (ucast b3)"

text \<open>Reading a word at a byte offset of a buffer that holds it.\<close>

definition get16 :: "u8 list \<Rightarrow> nat \<Rightarrow> u16" where
  "get16 bs i = of_le16 (bs ! i) (bs ! (i + 1))"

definition get32 :: "u8 list \<Rightarrow> nat \<Rightarrow> u32" where
  "get32 bs i = of_le32 (bs ! i) (bs ! (i + 1)) (bs ! (i + 2)) (bs ! (i + 3))"

definition fn_le16_be :: "u16 \<Rightarrow> u16" where
  "fn_le16_be d = push_bit 8 d OR drop_bit 8 d"

definition fn_le32_be :: "u32 \<Rightarrow> u32" where
  "fn_le32_be d = push_bit 24 d OR (push_bit 8 d AND 0xFF0000) OR (drop_bit 8 d AND 0xFF00)
     OR drop_bit 24 d"

text \<open>A C buffer of a given size whose first bytes were written and whose rest was not.\<close>

definition pad :: "nat \<Rightarrow> u8 \<Rightarrow> u8 list \<Rightarrow> u8 list" where
  "pad n fill bs = take n (bs @ replicate n fill)"

section \<open>Conversion of a floating point value to an integer\<close>

text \<open>
  A C cast from double to an integer type drops the fraction, towards zero. Floating point
  values are real numbers; the rounding of every single operation is a parameter of the
  functions that compute with them.
\<close>

definition ctrunc :: "real \<Rightarrow> int" where
  "ctrunc x = (if 0 \<le> x then \<lfloor>x\<rfloor> else \<lceil>x\<rceil>)"

section \<open>Memory\<close>

text \<open>
  A pointer to a buffer is an address or NULL. The allocator hands out a fresh address while
  the budget \<open>hp_avail\<close> lasts and NULL afterwards; a new block has the unspecified contents
  \<open>hp_fill\<close>. Freeing NULL does nothing, freeing a block twice has no defined continuation.
\<close>

type_synonym ptr = "nat option"

record heap =
  hp_blocks :: "nat \<rightharpoonup> u8 list"
  hp_next :: nat
  hp_avail :: nat
  hp_fill :: u8

definition heap_wf :: "heap \<Rightarrow> bool" where
  "heap_wf h \<longleftrightarrow> (\<forall>a. hp_blocks h a \<noteq> None \<longrightarrow> a < hp_next h)"

definition malloc :: "nat \<Rightarrow> heap \<Rightarrow> ptr \<times> heap" where
  "malloc n h =
     (if n \<le> hp_avail h
      then (Some (hp_next h),
            h\<lparr>hp_blocks := (hp_blocks h)(hp_next h \<mapsto> replicate n (hp_fill h)),
              hp_next := Suc (hp_next h), hp_avail := hp_avail h - n\<rparr>)
      else (None, h))"

definition mfree :: "ptr \<Rightarrow> heap \<Rightarrow> heap option" where
  "mfree p h =
     (case p of
        None \<Rightarrow> Some h
      | Some a \<Rightarrow>
          (case hp_blocks h a of
             None \<Rightarrow> None
           | Some b \<Rightarrow> Some (h\<lparr>hp_blocks := (hp_blocks h)(a := None),
                             hp_avail := hp_avail h + length b\<rparr>)))"

definition blit :: "nat \<Rightarrow> 'a list \<Rightarrow> 'a list \<Rightarrow> 'a list" where
  "blit off bs blk = take off blk @ bs @ drop (off + length bs) blk"

definition mem_block :: "ptr \<Rightarrow> heap \<Rightarrow> u8 list option" where
  "mem_block p h = (case p of None \<Rightarrow> None | Some a \<Rightarrow> hp_blocks h a)"

definition mem_write :: "ptr \<Rightarrow> int \<Rightarrow> u8 list \<Rightarrow> heap \<Rightarrow> heap option" where
  "mem_write p off bs h =
     (case p of
        None \<Rightarrow> None
      | Some a \<Rightarrow>
          (case hp_blocks h a of
             None \<Rightarrow> None
           | Some blk \<Rightarrow>
               if 0 \<le> off \<and> nat off + length bs \<le> length blk
               then Some (h\<lparr>hp_blocks := (hp_blocks h)(a \<mapsto> blit (nat off) bs blk)\<rparr>)
               else None))"

definition mem_read :: "ptr \<Rightarrow> nat \<Rightarrow> nat \<Rightarrow> heap \<Rightarrow> u8 list option" where
  "mem_read p off n h =
     (case mem_block p h of
        None \<Rightarrow> None
      | Some blk \<Rightarrow> if off + n \<le> length blk then Some (take n (drop off blk)) else None)"

text \<open>Reading an array, within its bounds.\<close>

definition lookup :: "'a list \<Rightarrow> nat \<Rightarrow> 'a option" where
  "lookup xs i = (if i < length xs then Some (xs ! i) else None)"

section \<open>Loops that may stop for good\<close>

text \<open>A for loop whose body has a defined continuation or not.\<close>

primrec fold_opt :: "('a \<Rightarrow> 's \<Rightarrow> 's option) \<Rightarrow> 'a list \<Rightarrow> 's \<Rightarrow> 's option" where
  "fold_opt f [] s = Some s"
| "fold_opt f (x # xs) s = Option.bind (f x s) (fold_opt f xs)"

lemma fold_opt_append: "fold_opt f (xs @ ys) s = Option.bind (fold_opt f xs s) (fold_opt f ys)"
  by (induction xs arbitrary: s) (auto simp: Option.bind_assoc split: Option.bind_split)

text \<open>An invariant that every iteration keeps, with progress, holds after the loop.\<close>

lemma fold_opt_invariant:
  assumes "I s" and "\<And>x s. x \<in> set xs \<Longrightarrow> I s \<Longrightarrow> \<exists>s'. f x s = Some s' \<and> I s'"
  shows "\<exists>s'. fold_opt f xs s = Some s' \<and> I s'"
  using assms
proof (induction xs arbitrary: s)
  case Nil
  then show ?case by simp
next
  case (Cons x xs)
  obtain s1 where s1: "f x s = Some s1" "I s1" using Cons.prems(1) Cons.prems(2) [of x s] by auto
  have "\<exists>s'. fold_opt f xs s1 = Some s' \<and> I s'"
    by (rule Cons.IH [OF s1(2)]) (use Cons.prems(2) in auto)
  with s1(1) show ?case by simp
qed

text \<open>The same with an invariant that counts the iterations.\<close>

lemma fold_opt_upt:
  assumes "I m s" and "m \<le> n"
    and "\<And>i s. m \<le> i \<Longrightarrow> i < n \<Longrightarrow> I i s \<Longrightarrow> \<exists>s'. f i s = Some s' \<and> I (Suc i) s'"
  shows "\<exists>s'. fold_opt f [m..<n] s = Some s' \<and> I n s'"
  using assms(2)
proof (induction n rule: dec_induct)
  case base
  then show ?case using assms(1) by simp
next
  case (step k)
  from step.IH assms obtain s' where "fold_opt f [m..<k] s = Some s'" "I k s'" by blast
  with assms(3) [of k s'] step.hyps show ?case by (auto simp: fold_opt_append)
qed

lemma fold_opt_None:
  assumes "x \<in> set xs" and "\<And>s. f x s = None"
  shows "fold_opt f xs s = None"
  using assms(1)
proof (induction xs arbitrary: s)
  case (Cons y ys)
  then show ?case using assms(2) by (cases "y = x"; cases "f y s") auto
qed simp

lemma fold_opt_Nil: "fold_opt f [] = Some"
  by (rule ext) simp

lemma fold_opt_single: "fold_opt f [x] = f x"
  by (rule ext) (simp add: fold_opt_Nil)

lemma fold_opt_map: "fold_opt f (map g xs) = fold_opt (\<lambda>x. f (g x)) xs"
proof (induction xs)
  case (Cons x xs)
  show ?case by (rule ext) (simp add: Cons.IH)
qed simp

lemma fold_opt_cong:
  "(\<And>x s. x \<in> set xs \<Longrightarrow> f x s = g x s) \<Longrightarrow> fold_opt f xs s = fold_opt g xs s"
proof (induction xs arbitrary: s)
  case (Cons x xs)
  have "fold_opt f xs = fold_opt g xs" using Cons by (intro ext) auto
  then show ?case using Cons.prems by simp
qed simp

text \<open>Two nested loops over the pixels of an image are one loop over their indices.\<close>

lemma fold_opt_nested:
  "fold_opt (\<lambda>y. fold_opt (\<lambda>x. f (y * w + x)) [0..<w]) [0..<h] s = fold_opt f [0..<h * w] s"
proof (induction h)
  case (Suc h)
  have split: "[0..<Suc h * w] = [0..<h * w] @ map (\<lambda>x. h * w + x) [0..<w]"
    using upt_add_eq_append [of 0 "h * w" w] map_add_upt [of "h * w" w]
    by (simp add: add.commute)
  show ?case unfolding split fold_opt_append fold_opt_map using Suc.IH
    by (simp add: fold_opt_append fold_opt_single)
qed simp

section \<open>Lemmas on bytes and words\<close>

lemma length_le16 [wire_simps, simp]: "length (le16 w) = 2"
  by (simp add: le16_def)

lemma length_le32 [wire_simps, simp]: "length (le32 w) = 4"
  by (simp add: le32_def)

lemma of_le16_le16 [wire_simps]: "of_le16 (ucast w) (ucast (drop_bit 8 w)) = w" for w :: u16
  unfolding of_le16_def
  by (rule bit_word_eqI) (auto simp: bit_simps)

lemma of_le32_le32 [wire_simps]:
  "of_le32 (ucast w) (ucast (drop_bit 8 w)) (ucast (drop_bit 16 w)) (ucast (drop_bit 24 w)) = w"
  for w :: u32
proof (rule bit_word_eqI)
  fix n
  assume "n < LENGTH(32)"
  then show "bit (of_le32 (ucast w) (ucast (drop_bit 8 w)) (ucast (drop_bit 16 w))
    (ucast (drop_bit 24 w))) n = bit w n"
    unfolding of_le32_def by (cases "n < 16"; cases "n < 24") (auto simp: bit_simps)
qed

lemma get16_le16 [wire_simps]: "get16 (xs @ le16 w @ ys) (length xs) = w"
  by (simp add: get16_def le16_def nth_append of_le16_le16)

lemma get32_le32 [wire_simps]: "get32 (xs @ le32 w @ ys) (length xs) = w"
  by (simp add: get32_def le32_def nth_append of_le32_le32)

lemma get16_le16_0 [wire_simps]: "get16 (le16 w @ ys) 0 = w"
  using get16_le16 [of "[]"] by simp

lemma length_pad [simp]: "length (pad n f bs) = n"
  by (simp add: pad_def)

lemma pad_nth: "i < length bs \<Longrightarrow> i < n \<Longrightarrow> pad n f bs ! i = bs ! i"
  by (simp add: pad_def nth_append)

lemma pad_exact [simp]: "length bs = n \<Longrightarrow> pad n f bs = bs"
  by (simp add: pad_def)

lemma ctrunc_of_int [simp]: "ctrunc (of_int i) = i"
  by (simp add: ctrunc_def)

lemma ctrunc_mono: "x \<le> y \<Longrightarrow> ctrunc x \<le> ctrunc y"
proof -
  assume le: "x \<le> y"
  show ?thesis
  proof (cases "0 \<le> x")
    case True
    with le show ?thesis by (simp add: ctrunc_def floor_mono)
  next
    case False
    then have x: "ctrunc x \<le> 0" by (simp add: ctrunc_def ceiling_le_zero)
    show ?thesis
    proof (cases "0 \<le> y")
      case True
      then have "0 \<le> ctrunc y" by (simp add: ctrunc_def)
      with x show ?thesis by simp
    next
      case False
      with le \<open>\<not> 0 \<le> x\<close> show ?thesis by (simp add: ctrunc_def ceiling_mono)
    qed
  qed
qed

lemma ctrunc_bounds:
  assumes "of_int a \<le> x" and "x \<le> of_int b"
  shows "a \<le> ctrunc x" and "ctrunc x \<le> b"
  using ctrunc_mono [OF assms(1)] ctrunc_mono [OF assms(2)] by simp_all

section \<open>Lemmas on memory\<close>

lemma length_blit [heap_simps]:
  "off + length bs \<le> length blk \<Longrightarrow> length (blit off bs blk) = length blk"
  by (simp add: blit_def)

lemma blit_take_snoc:
  "off + length bs \<le> length blk \<Longrightarrow> take (off + length bs) (blit off bs blk) = take off blk @ bs"
  by (simp add: blit_def)

lemma take_blit [heap_simps]:
  "n \<le> off \<Longrightarrow> off \<le> length blk \<Longrightarrow> take n (blit off bs blk) = take n blk"
  by (simp add: blit_def min_absorb1)

lemma nth_blit:
  "off + length bs \<le> length blk \<Longrightarrow> i < length blk \<Longrightarrow>
   blit off bs blk ! i = (if off \<le> i \<and> i < off + length bs then bs ! (i - off) else blk ! i)"
  by (auto simp: blit_def nth_append min_def)

lemma mem_block_Some [simp]: "mem_block (Some a) h = hp_blocks h a"
  by (simp add: mem_block_def)

lemma mem_block_None [simp]: "mem_block None h = None"
  by (simp add: mem_block_def)

lemma mem_write_ok:
  assumes "hp_blocks h a = Some blk" and "0 \<le> off" and "nat off + length bs \<le> length blk"
  shows "mem_write (Some a) off bs h =
    Some (h\<lparr>hp_blocks := (hp_blocks h)(a \<mapsto> blit (nat off) bs blk)\<rparr>)"
  using assms by (simp add: mem_write_def)

lemma mem_write_SomeD:
  assumes "mem_write p off bs h = Some h'"
  obtains a blk where "p = Some a" and "hp_blocks h a = Some blk" and "0 \<le> off"
    and "nat off + length bs \<le> length blk"
    and "h' = h\<lparr>hp_blocks := (hp_blocks h)(a \<mapsto> blit (nat off) bs blk)\<rparr>"
  using assms by (auto simp: mem_write_def split: option.splits if_splits)

lemma malloc_fresh:
  assumes "heap_wf h" and "malloc n h = (Some a, h')"
  shows "hp_blocks h a = None" and "hp_blocks h' a = Some (replicate n (hp_fill h))"
    and "heap_wf h'"
  using assms by (auto simp: malloc_def heap_wf_def less_Suc_eq split: if_splits)

lemma mfree_malloc:
  assumes "heap_wf h" and "malloc n h = (Some a, h')"
  shows "mfree (Some a) h' = Some (h'\<lparr>hp_blocks := hp_blocks h, hp_avail := hp_avail h\<rparr>)"
proof -
  from assms(1) have "hp_blocks h (hp_next h) = None"
    by (auto simp: heap_wf_def)
  then have "(hp_blocks h)(hp_next h := None) = hp_blocks h"
    by (simp add: fun_upd_idem)
  with assms show ?thesis by (auto simp: malloc_def mfree_def split: if_splits)
qed

lemma mem_write_wf: "mem_write p off bs h = Some h' \<Longrightarrow> heap_wf h \<Longrightarrow> heap_wf h'"
  by (erule mem_write_SomeD) (auto simp: heap_wf_def)

lemma mfree_wf: "mfree p h = Some h' \<Longrightarrow> heap_wf h \<Longrightarrow> heap_wf h'"
  by (auto simp: mfree_def heap_wf_def split: option.splits if_splits)

end
