(* ===== verification/Types.thy ===== *)
theory Types
  imports Prelude
begin

text \<open>
  The data model of the library: the enumerations of include/libfreenect.h, the structs of
  src/freenect_internal.h, src/usb_libusb10.h and include/libfreenect_registration.h, and the
  state on which every operation works.

  Pointers to devices, device handles, callbacks and user data are numbers (NULL is
  \<open>None\<close>); the devices of the context live in a store indexed by their address, so that a
  device that was freed is simply absent. libusb and the client are the environment: every
  call that leaves the library is an event of type \<open>io\<close>, and what the outside world answers
  is a function of the history of these events, newest first. Log messages are not events:
  they change nothing (the filter of fn_log is modelled in the theory Core).
\<close>

section \<open>Enumerations (include/libfreenect.h)\<close>

abbreviation FREENECT_DEVICE_MOTOR :: u32 where "FREENECT_DEVICE_MOTOR \<equiv> 0x01"
abbreviation FREENECT_DEVICE_CAMERA :: u32 where "FREENECT_DEVICE_CAMERA \<equiv> 0x02"
abbreviation FREENECT_DEVICE_AUDIO :: u32 where "FREENECT_DEVICE_AUDIO \<equiv> 0x04"

datatype freenect_resolution =
  FREENECT_RESOLUTION_LOW | FREENECT_RESOLUTION_MEDIUM | FREENECT_RESOLUTION_HIGH
| FREENECT_RESOLUTION_DUMMY

datatype freenect_video_format =
  FREENECT_VIDEO_RGB | FREENECT_VIDEO_BAYER | FREENECT_VIDEO_IR_8BIT | FREENECT_VIDEO_IR_10BIT
| FREENECT_VIDEO_IR_10BIT_PACKED | FREENECT_VIDEO_YUV_RGB | FREENECT_VIDEO_YUV_RAW
| FREENECT_VIDEO_DUMMY

datatype freenect_depth_format =
  FREENECT_DEPTH_11BIT | FREENECT_DEPTH_10BIT | FREENECT_DEPTH_11BIT_PACKED
| FREENECT_DEPTH_10BIT_PACKED | FREENECT_DEPTH_REGISTERED | FREENECT_DEPTH_MM
| FREENECT_DEPTH_DUMMY

fun resolution_val :: "freenect_resolution \<Rightarrow> u32" where
  "resolution_val FREENECT_RESOLUTION_LOW = 0"
| "resolution_val FREENECT_RESOLUTION_MEDIUM = 1"
| "resolution_val FREENECT_RESOLUTION_HIGH = 2"
| "resolution_val FREENECT_RESOLUTION_DUMMY = 2147483647"

fun video_format_val :: "freenect_video_format \<Rightarrow> u32" where
  "video_format_val FREENECT_VIDEO_RGB = 0"
| "video_format_val FREENECT_VIDEO_BAYER = 1"
| "video_format_val FREENECT_VIDEO_IR_8BIT = 2"
| "video_format_val FREENECT_VIDEO_IR_10BIT = 3"
| "video_format_val FREENECT_VIDEO_IR_10BIT_PACKED = 4"
| "video_format_val FREENECT_VIDEO_YUV_RGB = 5"
| "video_format_val FREENECT_VIDEO_YUV_RAW = 6"
| "video_format_val FREENECT_VIDEO_DUMMY = 2147483647"

fun depth_format_val :: "freenect_depth_format \<Rightarrow> u32" where
  "depth_format_val FREENECT_DEPTH_11BIT = 0"
| "depth_format_val FREENECT_DEPTH_10BIT = 1"
| "depth_format_val FREENECT_DEPTH_11BIT_PACKED = 2"
| "depth_format_val FREENECT_DEPTH_10BIT_PACKED = 3"
| "depth_format_val FREENECT_DEPTH_REGISTERED = 4"
| "depth_format_val FREENECT_DEPTH_MM = 5"
| "depth_format_val FREENECT_DEPTH_DUMMY = 2147483647"

text \<open>
  The casts (freenect_resolution), (freenect_video_format) and (freenect_depth_format) of an
  integer. A value that no enumerator has is \<open>None\<close>.
\<close>

definition resolution_of :: "u32 \<Rightarrow> freenect_resolution option" where
  "resolution_of v = find (\<lambda>r. resolution_val r = v)
     [FREENECT_RESOLUTION_LOW, FREENECT_RESOLUTION_MEDIUM, FREENECT_RESOLUTION_HIGH,
      FREENECT_RESOLUTION_DUMMY]"

definition video_format_of :: "u32 \<Rightarrow> freenect_video_format option" where
  "video_format_of v = find (\<lambda>f. video_format_val f = v)
     [FREENECT_VIDEO_RGB, FREENECT_VIDEO_BAYER, FREENECT_VIDEO_IR_8BIT, FREENECT_VIDEO_IR_10BIT,
      FREENECT_VIDEO_IR_10BIT_PACKED, FREENECT_VIDEO_YUV_RGB, FREENECT_VIDEO_YUV_RAW,
      FREENECT_VIDEO_DUMMY]"

definition depth_format_of :: "u32 \<Rightarrow> freenect_depth_format option" where
  "depth_format_of v = find (\<lambda>f. depth_format_val f = v)
     [FREENECT_DEPTH_11BIT, FREENECT_DEPTH_10BIT, FREENECT_DEPTH_11BIT_PACKED,
      FREENECT_DEPTH_10BIT_PACKED, FREENECT_DEPTH_REGISTERED, FREENECT_DEPTH_MM,
      FREENECT_DEPTH_DUMMY]"

abbreviation FREENECT_AUTO_EXPOSURE :: u32 where "FREENECT_AUTO_EXPOSURE \<equiv> 0x4000"
abbreviation FREENECT_AUTO_FLICKER :: u32 where "FREENECT_AUTO_FLICKER \<equiv> 0x80"
abbreviation FREENECT_AUTO_WHITE_BALANCE :: u32 where "FREENECT_AUTO_WHITE_BALANCE \<equiv> 0x02"
abbreviation FREENECT_RAW_COLOR :: u32 where "FREENECT_RAW_COLOR \<equiv> 0x10"
abbreviation FREENECT_MIRROR_DEPTH :: u32 where "FREENECT_MIRROR_DEPTH \<equiv> 0x10000"
abbreviation FREENECT_MIRROR_VIDEO :: u32 where "FREENECT_MIRROR_VIDEO \<equiv> 0x20000"
abbreviation FREENECT_NEAR_MODE :: u32 where "FREENECT_NEAR_MODE \<equiv> 0x40000"

datatype freenect_flag_value = FREENECT_OFF | FREENECT_ON

fun flag_value_val :: "freenect_flag_value \<Rightarrow> u16" where
  "flag_value_val FREENECT_OFF = 0"
| "flag_value_val FREENECT_ON = 1"

datatype freenect_led_options =
  LED_OFF | LED_GREEN | LED_RED | LED_YELLOW | LED_BLINK_GREEN | LED_BLINK_RED_YELLOW

fun led_val :: "freenect_led_options \<Rightarrow> u32" where
  "led_val LED_OFF = 0"
| "led_val LED_GREEN = 1"
| "led_val LED_RED = 2"
| "led_val LED_YELLOW = 3"
| "led_val LED_BLINK_GREEN = 4"
| "led_val LED_BLINK_RED_YELLOW = 6"

datatype freenect_loglevel =
  FREENECT_LOG_FATAL | FREENECT_LOG_ERROR | FREENECT_LOG_WARNING | FREENECT_LOG_NOTICE
| FREENECT_LOG_INFO | FREENECT_LOG_DEBUG | FREENECT_LOG_SPEW | FREENECT_LOG_FLOOD

fun loglevel_val :: "freenect_loglevel \<Rightarrow> nat" where
  "loglevel_val FREENECT_LOG_FATAL = 0"
| "loglevel_val FREENECT_LOG_ERROR = 1"
| "loglevel_val FREENECT_LOG_WARNING = 2"
| "loglevel_val FREENECT_LOG_NOTICE = 3"
| "loglevel_val FREENECT_LOG_INFO = 4"
| "loglevel_val FREENECT_LOG_DEBUG = 5"
| "loglevel_val FREENECT_LOG_SPEW = 6"
| "loglevel_val FREENECT_LOG_FLOOD = 7"

section \<open>Constants (src/freenect_internal.h, src/usb_libusb10.h)\<close>

abbreviation DEPTH_PKTDSIZE :: int where "DEPTH_PKTDSIZE \<equiv> 1748"
abbreviation VIDEO_PKTDSIZE :: int where "VIDEO_PKTDSIZE \<equiv> 1908"

abbreviation VID_MICROSOFT :: u16 where "VID_MICROSOFT \<equiv> 0x45e"
abbreviation PID_NUI_AUDIO :: u16 where "PID_NUI_AUDIO \<equiv> 0x02ad"
abbreviation PID_NUI_CAMERA :: u16 where "PID_NUI_CAMERA \<equiv> 0x02ae"
abbreviation PID_NUI_MOTOR :: u16 where "PID_NUI_MOTOR \<equiv> 0x02b0"
abbreviation PID_K4W_CAMERA :: u16 where "PID_K4W_CAMERA \<equiv> 0x02bf"
abbreviation PID_KV2_CAMERA :: u16 where "PID_KV2_CAMERA \<equiv> 0x02d9"
abbreviation PID_K4W_AUDIO :: u16 where "PID_K4W_AUDIO \<equiv> 0x02be"
abbreviation PID_K4W_AUDIO_ALT_1 :: u16 where "PID_K4W_AUDIO_ALT_1 \<equiv> 0x02c3"
abbreviation PID_K4W_AUDIO_ALT_2 :: u16 where "PID_K4W_AUDIO_ALT_2 \<equiv> 0x02bb"

text \<open>The Linux values of the transfer geometry.\<close>

abbreviation DEPTH_PKTBUF :: int where "DEPTH_PKTBUF \<equiv> 1920"
abbreviation VIDEO_PKTBUF :: int where "VIDEO_PKTBUF \<equiv> 1920"
abbreviation PKTS_PER_XFER :: int where "PKTS_PER_XFER \<equiv> 16"
abbreviation NUM_XFERS :: int where "NUM_XFERS \<equiv> 16"

section \<open>Streams (src/freenect_internal.h, src/usb_libusb10.h)\<close>

text \<open>
  The C flags that only hold 0 or 1 are booleans. The counters are C ints: their values stay
  far below the 32-bit bound in every state the invariants describe; \<open>ps_lost_pkts\<close> is
  unsigned and wraps.
\<close>

record packet_stream =
  ps_running :: bool
  ps_flag :: u8
  ps_synced :: bool
  ps_seq :: u8
  ps_got_pkts :: int
  ps_pkt_num :: int
  ps_pkts_per_frame :: int
  ps_pkt_size :: int
  ps_frame_size :: int
  ps_last_pkt_size :: int
  ps_valid_pkts :: int
  ps_lost_pkts :: u32
  ps_valid_frames :: int
  ps_variable_length :: bool
  ps_last_timestamp :: u32
  ps_timestamp :: u32
  ps_split_bufs :: bool
  ps_lib_buf :: ptr
  ps_usr_buf :: ptr
  ps_raw_buf :: ptr
  ps_proc_buf :: ptr

record audio_stream =
  au_running :: bool
  au_audio_out_ring :: ptr
  au_ring_reader_idx :: int
  au_ring_writer_idx :: int
  au_out_window :: u16
  au_out_seq :: u8
  au_out_counter_within_window :: u8
  au_out_weird_timestamp :: u16
  au_out_window_parity :: u8
  au_in_window :: u16
  au_last_seen_window :: "u16 list"
  au_in_counter :: u8
  au_mic_buffer :: "ptr list"
  au_cancelled_buffer :: ptr
  au_in_unknown :: ptr

text \<open>The functions that are passed to fnusb_start_iso.\<close>

datatype fnusb_iso_cb = Cb_depth_process | Cb_video_process | Cb_iso_in | Cb_iso_out

record fnusb_dev =
  ud_dev :: "nat option"
  ud_device_dead :: bool
  ud_VID :: u16
  ud_PID :: u16

record fnusb_isoc_stream =
  is_xfers :: "bool list"      \<comment> \<open>one entry per transfer: is the pointer non-NULL\<close>
  is_buffer :: ptr
  is_cb :: "fnusb_iso_cb option"
  is_num_xfers :: int
  is_pkts :: int
  is_len :: int
  is_dead :: bool
  is_dead_xfers :: int

section \<open>Registration data (include/libfreenect_registration.h)\<close>

text \<open>
  The fields of freenect_reg_info are the int32_t of the wire, kept as 32-bit words in the
  order of the struct; \<open>sint\<close> reads them. The tables are owned by the registration: \<open>None\<close>
  is the NULL pointer.
\<close>

record freenect_reg_info =
  ri_dx_center :: u32
  ri_ax :: u32
  ri_bx :: u32
  ri_cx :: u32
  ri_dx :: u32
  ri_dx_start :: u32
  ri_ay :: u32
  ri_by :: u32
  ri_cy :: u32
  ri_dy :: u32
  ri_dy_start :: u32
  ri_dx_beta_start :: u32
  ri_dy_beta_start :: u32
  ri_rollout_blank :: u32
  ri_rollout_size :: u32
  ri_dx_beta_inc :: u32
  ri_dy_beta_inc :: u32
  ri_dxdx_start :: u32
  ri_dxdy_start :: u32
  ri_dydx_start :: u32
  ri_dydy_start :: u32
  ri_dxdxdx_start :: u32
  ri_dydxdx_start :: u32
  ri_dxdxdy_start :: u32
  ri_dydxdy_start :: u32
  ri_back_comp1 :: u32
  ri_dydydx_start :: u32
  ri_back_comp2 :: u32
  ri_dydydy_start :: u32

record freenect_reg_pad_info =
  rp_start_lines :: u16
  rp_end_lines :: u16
  rp_cropping_lines :: u16

record freenect_zero_plane_info =
  zp_dcmos_emitter_dist :: real
  zp_dcmos_rcmos_dist :: real
  zp_reference_distance :: real
  zp_reference_pixel_size :: real

record freenect_registration =
  rg_reg_info :: freenect_reg_info
  rg_reg_pad_info :: freenect_reg_pad_info
  rg_zero_plane_info :: freenect_zero_plane_info
  rg_const_shift :: real
  rg_raw_to_mm_shift :: "u16 list option"
  rg_depth_to_rgb_shift :: "int list option"
  rg_registration_table :: "(int \<times> int) list option"

record freenect_raw_tilt_state =
  ts_accelerometer_x :: u16
  ts_accelerometer_y :: u16
  ts_accelerometer_z :: u16
  ts_tilt_angle :: u8
  ts_tilt_status :: u8

section \<open>Devices and the context (src/freenect_internal.h)\<close>

text \<open>
  \<open>dv_parent\<close> is not a field: there is one context, and every device of the store is its.
\<close>

record freenect_device =
  dv_next :: "nat option"
  dv_user_data :: "nat option"
  dv_usb_cam :: fnusb_dev
  dv_depth_isoc :: fnusb_isoc_stream
  dv_video_isoc :: fnusb_isoc_stream
  dv_depth_cb :: "nat option"
  dv_video_cb :: "nat option"
  dv_depth_chunk_cb :: "nat option"
  dv_video_chunk_cb :: "nat option"
  dv_video_format :: freenect_video_format
  dv_depth_format :: freenect_depth_format
  dv_video_resolution :: freenect_resolution
  dv_depth_resolution :: freenect_resolution
  dv_cam_tag :: u16
  dv_depth :: packet_stream
  dv_video :: packet_stream
  dv_registration :: freenect_registration
  dv_usb_audio :: fnusb_dev
  dv_audio_out_isoc :: fnusb_isoc_stream
  dv_audio_in_isoc :: fnusb_isoc_stream
  dv_audio_in_cb :: "nat option"
  dv_audio_out_cb :: "nat option"
  dv_audio :: audio_stream
  dv_audio_tag :: u32
  dv_usb_motor :: fnusb_dev
  dv_raw_state :: freenect_raw_tilt_state
  dv_device_does_motor_control_with_audio :: bool
  dv_motor_control_with_audio_enabled :: bool

record freenect_context =
  cx_log_level :: freenect_loglevel
  cx_log_cb :: "nat option"
  cx_usb_ctx :: "nat option"
  cx_should_free_ctx :: bool
  cx_enabled_subdevices :: u32
  cx_first :: "nat option"
  cx_zero_plane_res :: int
  cx_fn_fw_nui :: "u8 list option"     \<comment> \<open>the pointer and the size it points to\<close>
  cx_fn_fw_k4w :: "u8 list option"

section \<open>The outside world\<close>

record usb_desc =
  ds_idVendor :: u16
  ds_idProduct :: u16
  ds_bcdDevice :: u16
  ds_iSerialNumber :: u8

text \<open>The four isochronous streams of a device, and how libusb reports a finished transfer.\<close>

datatype iso_strm = Iso_depth | Iso_video | Iso_audio_in | Iso_audio_out

datatype xfer_status = Xfer_completed | Xfer_no_device | Xfer_cancelled | Xfer_other

record completion =
  cp_dev :: nat
  cp_strm :: iso_strm
  cp_xfer :: nat                 \<comment> \<open>which of the transfers of the stream\<close>
  cp_status :: xfer_status
  cp_packets :: "u8 list list"   \<comment> \<open>actual contents of the iso packets, one entry each\<close>

datatype io =
  \<comment> \<open>handle, bmRequestType, bRequest, wValue, wIndex, data sent, wLength\<close>
  IO_control "nat option" u8 u8 u16 u16 "u8 list" nat
  \<comment> \<open>handle, endpoint, data sent, length, timeout in ms\<close>
| IO_bulk "nat option" u8 "u8 list" nat nat
| IO_usleep nat
| IO_sleep nat
| IO_usb_init | IO_usb_exit "nat option"
| IO_get_device_list | IO_free_device_list
| IO_get_descriptor nat
| IO_bus_number nat | IO_parent nat
| IO_open nat | IO_close "nat option"
| IO_serial "nat option" u8
| IO_kernel_driver_active "nat option" | IO_detach "nat option" | IO_attach "nat option"
| IO_claim "nat option" | IO_release "nat option" | IO_set_alt "nat option"
| IO_reset "nat option"
| IO_num_interfaces "nat option"
| IO_max_iso_packet_size "nat option" u8
| IO_alloc_transfer nat
| IO_submit nat iso_strm nat
| IO_cancel nat iso_strm nat
| IO_free_transfer nat iso_strm nat
| IO_handle_events "nat option"
| IO_fopen string | IO_fread nat
  \<comment> \<open>calls into the client: function, device, data, ...\<close>
| IO_depth_cb nat nat ptr u32
| IO_video_cb nat nat ptr u32
| IO_chunk_cb nat ptr "u8 list" int int "nat option"
| IO_audio_in_cb nat nat int "ptr list" ptr ptr
  \<comment> \<open>an isochronous packet handed to libusb for sending\<close>
| IO_iso_out nat "u8 list"
  \<comment> \<open>pthread_create and pthread_join of the wrapper\<close>
| IO_thread_create | IO_thread_join

text \<open>
  The environment: what libusb and the file system answer to the request at the head of the
  history, the value of errno, and the rounding that the host applies to every double
  (\<open>e_rnd\<close>) and single (\<open>e_rndf\<close>) precision operation. The conversion of a floating
  point value that the integer type cannot hold is unspecified in C: \<open>e_conv\<close> is what the host
  makes of it.
\<close>

record env =
  e_int :: "io list \<Rightarrow> int"
  e_control :: "io list \<Rightarrow> int \<times> u8 list"
  e_bulk :: "io list \<Rightarrow> int \<times> nat \<times> u8 list"
  e_devlist :: "io list \<Rightarrow> int \<times> nat list"
  e_desc :: "io list \<Rightarrow> int \<times> usb_desc"
  e_open :: "io list \<Rightarrow> int \<times> nat option"
  e_serial :: "io list \<Rightarrow> int \<times> u8 list"
  e_parent :: "io list \<Rightarrow> nat option"
  e_alloc :: "io list \<Rightarrow> bool"
  e_events :: "io list \<Rightarrow> int \<times> completion list"
  e_file :: "io list \<Rightarrow> u8 list option"
  e_getenv :: "string \<Rightarrow> string option"
  e_errno :: "io list \<Rightarrow> int"
  e_rnd :: "real \<Rightarrow> real"
  e_rndf :: "real \<Rightarrow> real"
  e_conv :: "real \<Rightarrow> int"

text \<open>
  The state: the history, the memory, the context, the store of devices with the next unused
  address, and the two static variables of src/tilt.c.
\<close>

record st =
  st_io :: "io list"
  st_heap :: heap
  st_ctx :: freenect_context
  st_devs :: "nat \<rightharpoonup> freenect_device"
  st_next_dev :: nat
  st_tag_seq :: u32
  st_tag_next_ack :: u32

text \<open>The conversions of a double to int32_t and uint16_t.\<close>

definition to_int32 :: "env \<Rightarrow> real \<Rightarrow> int" where
  "to_int32 E x =
     (if - (2 ^ 31) \<le> ctrunc x \<and> ctrunc x < 2 ^ 31 then ctrunc x
      else sint (word_of_int (e_conv E x) :: u32))"

definition to_uint16 :: "env \<Rightarrow> real \<Rightarrow> u16" where
  "to_uint16 E x = word_of_int (if 0 \<le> ctrunc x \<and> ctrunc x < 2 ^ 16 then ctrunc x else e_conv E x)"

definition emit :: "io \<Rightarrow> st \<Rightarrow> st" where
  "emit ev s = s\<lparr>st_io := ev # st_io s\<rparr>"

definition set_dev :: "nat \<Rightarrow> freenect_device \<Rightarrow> st \<Rightarrow> st" where
  "set_dev d dv s = s\<lparr>st_devs := (st_devs s)(d \<mapsto> dv)\<rparr>"

text \<open>A call that returns an int, and the two USB transfer primitives of libusb.\<close>

definition io_int :: "env \<Rightarrow> io \<Rightarrow> st \<Rightarrow> int \<times> st" where
  "io_int E ev s = (let s' = emit ev s in (e_int E (st_io s'), s'))"

definition libusb_bulk_transfer ::
    "env \<Rightarrow> nat option \<Rightarrow> u8 \<Rightarrow> u8 list \<Rightarrow> nat \<Rightarrow> nat \<Rightarrow> st \<Rightarrow> (int \<times> nat \<times> u8 list) \<times> st" where
  "libusb_bulk_transfer E h ep data len timeout s =
     (let s' = emit (IO_bulk h ep data len timeout) s in (e_bulk E (st_io s'), s'))"

section \<open>The zeroed structs\<close>

text \<open>What memset leaves in a new device.\<close>

definition zero_reg_info :: freenect_reg_info where
  "zero_reg_info =
     \<lparr>ri_dx_center = 0, ri_ax = 0, ri_bx = 0, ri_cx = 0, ri_dx = 0, ri_dx_start = 0, ri_ay = 0,
      ri_by = 0, ri_cy = 0, ri_dy = 0, ri_dy_start = 0, ri_dx_beta_start = 0, ri_dy_beta_start = 0,
      ri_rollout_blank = 0, ri_rollout_size = 0, ri_dx_beta_inc = 0, ri_dy_beta_inc = 0,
      ri_dxdx_start = 0, ri_dxdy_start = 0, ri_dydx_start = 0, ri_dydy_start = 0,
      ri_dxdxdx_start = 0, ri_dydxdx_start = 0, ri_dxdxdy_start = 0, ri_dydxdy_start = 0,
      ri_back_comp1 = 0, ri_dydydx_start = 0, ri_back_comp2 = 0, ri_dydydy_start = 0\<rparr>"

definition zero_registration :: freenect_registration where
  "zero_registration =
     \<lparr>rg_reg_info = zero_reg_info,
      rg_reg_pad_info = \<lparr>rp_start_lines = 0, rp_end_lines = 0, rp_cropping_lines = 0\<rparr>,
      rg_zero_plane_info = \<lparr>zp_dcmos_emitter_dist = 0, zp_dcmos_rcmos_dist = 0,
        zp_reference_distance = 0, zp_reference_pixel_size = 0\<rparr>,
      rg_const_shift = 0, rg_raw_to_mm_shift = None, rg_depth_to_rgb_shift = None,
      rg_registration_table = None\<rparr>"

definition zero_packet_stream :: packet_stream where
  "zero_packet_stream =
     \<lparr>ps_running = False, ps_flag = 0, ps_synced = False, ps_seq = 0, ps_got_pkts = 0, ps_pkt_num = 0,
      ps_pkts_per_frame = 0, ps_pkt_size = 0, ps_frame_size = 0, ps_last_pkt_size = 0,
      ps_valid_pkts = 0, ps_lost_pkts = 0, ps_valid_frames = 0, ps_variable_length = False,
      ps_last_timestamp = 0, ps_timestamp = 0, ps_split_bufs = False, ps_lib_buf = None,
      ps_usr_buf = None, ps_raw_buf = None, ps_proc_buf = None\<rparr>"

definition zero_audio_stream :: audio_stream where
  "zero_audio_stream =
     \<lparr>au_running = False, au_audio_out_ring = None, au_ring_reader_idx = 0, au_ring_writer_idx = 0,
      au_out_window = 0, au_out_seq = 0, au_out_counter_within_window = 0, au_out_weird_timestamp = 0,
      au_out_window_parity = 0, au_in_window = 0, au_last_seen_window = replicate 10 0,
      au_in_counter = 0, au_mic_buffer = replicate 4 None, au_cancelled_buffer = None,
      au_in_unknown = None\<rparr>"

definition zero_fnusb_dev :: fnusb_dev where
  "zero_fnusb_dev = \<lparr>ud_dev = None, ud_device_dead = False, ud_VID = 0, ud_PID = 0\<rparr>"

definition zero_isoc_stream :: fnusb_isoc_stream where
  "zero_isoc_stream =
     \<lparr>is_xfers = [], is_buffer = None, is_cb = None, is_num_xfers = 0, is_pkts = 0, is_len = 0,
      is_dead = False, is_dead_xfers = 0\<rparr>"

definition zero_tilt_state :: freenect_raw_tilt_state where
  "zero_tilt_state =
     \<lparr>ts_accelerometer_x = 0, ts_accelerometer_y = 0, ts_accelerometer_z = 0, ts_tilt_angle = 0,
      ts_tilt_status = 0\<rparr>"

definition zero_device :: freenect_device where
  "zero_device =
     \<lparr>dv_next = None, dv_user_data = None, dv_usb_cam = zero_fnusb_dev,
      dv_depth_isoc = zero_isoc_stream, dv_video_isoc = zero_isoc_stream, dv_depth_cb = None,
      dv_video_cb = None, dv_depth_chunk_cb = None, dv_video_chunk_cb = None,
      dv_video_format = FREENECT_VIDEO_RGB, dv_depth_format = FREENECT_DEPTH_11BIT,
      dv_video_resolution = FREENECT_RESOLUTION_LOW, dv_depth_resolution = FREENECT_RESOLUTION_LOW,
      dv_cam_tag = 0, dv_depth = zero_packet_stream, dv_video = zero_packet_stream,
      dv_registration = zero_registration, dv_usb_audio = zero_fnusb_dev,
      dv_audio_out_isoc = zero_isoc_stream, dv_audio_in_isoc = zero_isoc_stream,
      dv_audio_in_cb = None, dv_audio_out_cb = None, dv_audio = zero_audio_stream, dv_audio_tag = 0,
      dv_usb_motor = zero_fnusb_dev, dv_raw_state = zero_tilt_state,
      dv_device_does_motor_control_with_audio = False, dv_motor_control_with_audio_enabled = False\<rparr>"

definition zero_context :: freenect_context where
  "zero_context =
     \<lparr>cx_log_level = FREENECT_LOG_FATAL, cx_log_cb = None, cx_usb_ctx = None,
      cx_should_free_ctx = False, cx_enabled_subdevices = 0, cx_first = None, cx_zero_plane_res = 0,
      cx_fn_fw_nui = None, cx_fn_fw_k4w = None\<rparr>"

text \<open>A state with one open device, for examples.\<close>

definition example_state :: st where
  "example_state =
     \<lparr>st_io = [], st_heap = \<lparr>hp_blocks = (\<lambda>_. None), hp_next = 0, hp_avail = 0, hp_fill = 0\<rparr>,
      st_ctx = zero_context,
      st_devs = [0 \<mapsto> zero_device\<lparr>dv_usb_cam := zero_fnusb_dev\<lparr>ud_dev := Some 1\<rparr>\<rparr>],
      st_next_dev = 1, st_tag_seq = 0, st_tag_next_ack = 0\<rparr>"

text \<open>An environment in which every call returns 0, for examples.\<close>

definition quiet_env :: env where
  "quiet_env =
     \<lparr>e_int = (\<lambda>_. 0), e_control = (\<lambda>_. (0, [])), e_bulk = (\<lambda>_. (0, 0, [])), e_devlist = (\<lambda>_. (0, [])),
      e_desc = (\<lambda>_. (0, \<lparr>ds_idVendor = 0, ds_idProduct = 0, ds_bcdDevice = 0, ds_iSerialNumber = 0\<rparr>)),
      e_open = (\<lambda>_. (0, Some 0)), e_serial = (\<lambda>_. (0, [])), e_parent = (\<lambda>_. None), e_alloc = (\<lambda>_. True),
      e_events = (\<lambda>_. (0, [])), e_file = (\<lambda>_. None), e_getenv = (\<lambda>_. None), e_errno = (\<lambda>_. 0),
      e_rnd = (\<lambda>x. x), e_rndf = (\<lambda>x. x), e_conv = (\<lambda>_. 0)\<rparr>"

section \<open>Lemmas\<close>

lemma set_dev_simps [simp]:
  "st_devs (set_dev d dv s) = (st_devs s)(d \<mapsto> dv)"
  "st_io (set_dev d dv s) = st_io s"
  "st_heap (set_dev d dv s) = st_heap s"
  "st_ctx (set_dev d dv s) = st_ctx s"
  "st_next_dev (set_dev d dv s) = st_next_dev s"
  "st_tag_seq (set_dev d dv s) = st_tag_seq s"
  "st_tag_next_ack (set_dev d dv s) = st_tag_next_ack s"
  by (simp_all add: set_dev_def)

lemma emit_simps [simp]:
  "st_devs (emit ev s) = st_devs s"
  "st_io (emit ev s) = ev # st_io s"
  "st_heap (emit ev s) = st_heap s"
  "st_ctx (emit ev s) = st_ctx s"
  "st_next_dev (emit ev s) = st_next_dev s"
  "st_tag_seq (emit ev s) = st_tag_seq s"
  "st_tag_next_ack (emit ev s) = st_tag_next_ack s"
  by (simp_all add: emit_def)

lemma io_int_simps [simp]:
  "fst (io_int E ev s) = e_int E (ev # st_io s)"
  "snd (io_int E ev s) = emit ev s"
  by (simp_all add: io_int_def Let_def)

lemma libusb_bulk_transfer_simps [simp]:
  "fst (libusb_bulk_transfer E h ep data len t s) = e_bulk E (IO_bulk h ep data len t # st_io s)"
  "snd (libusb_bulk_transfer E h ep data len t s) = emit (IO_bulk h ep data len t) s"
  by (simp_all add: libusb_bulk_transfer_def Let_def)

lemma set_dev_set_dev [simp]: "set_dev d dv (set_dev d dv' s) = set_dev d dv s"
  by (simp add: set_dev_def)

text \<open>An enumerator is found again from its value.\<close>

lemma resolution_of_val [simp]: "resolution_of (resolution_val r) = Some r"
  by (cases r) (simp_all add: resolution_of_def)

lemma video_format_of_val [simp]: "video_format_of (video_format_val f) = Some f"
  by (cases f) (simp_all add: video_format_of_def)

lemma depth_format_of_val [simp]: "depth_format_of (depth_format_val f) = Some f"
  by (cases f) (simp_all add: depth_format_of_def)

end
