(* ===== verification/AudioCb.thy ===== *)
theory AudioCb
  imports Types
begin

text \<open>
  The isochronous callbacks of src/audio.c. Outgoing: the header that every 76-byte packet to the
  device carries, a state machine of five counters. Incoming: the blocks of the microphone channels,
  which are put into the buffers of the device, and the call of the client when a window is
  complete.
\<close>

section \<open>Outgoing packets\<close>

text \<open>Byte 3 of the packet, a nibble of the time stamp or 1; the sum with 23 is that of ints.\<close>

definition out_weird_byte :: "audio_stream \<Rightarrow> u8" where
  "out_weird_byte stream =
     (let c = unat (au_out_counter_within_window stream);
          nibble = (\<lambda>ts k. push_bit 4 (ucast (drop_bit (4 * k) ts AND 0x000f)) OR 0x05 :: u8);
          ts = ucast (au_out_weird_timestamp stream) :: u32
      in if au_out_window_parity stream = 0
         then if c < 4 then nibble ts c
              else if c < 8 then nibble (ts + 23) (c - 4)
              else 0x01
         else if c < 4 then nibble ts c
              else 0x01)"

definition out_header :: "audio_stream \<Rightarrow> u8 list" where
  "out_header stream = le16 (au_out_window stream) @ [au_out_seq stream, out_weird_byte stream]"

text \<open>
  The update of the counters: the case 0x80 of the switch falls through to the two others.
\<close>

definition out_advance :: "audio_stream \<Rightarrow> audio_stream" where
  "out_advance stream =
     (let stream = stream\<lparr>au_out_seq := au_out_seq stream + 1,
            au_out_counter_within_window := au_out_counter_within_window stream + 1,
            au_out_weird_timestamp := au_out_weird_timestamp stream +
              (if au_out_window_parity stream = 1 then 6 else 5)\<rparr>;
          seq = au_out_seq stream;
          stream = (if seq = 0x80 then stream\<lparr>au_out_seq := 0\<rparr> else stream);
          stream = (if seq = 0x80 \<or> seq = 0x2b \<or> seq = 0x56
                    then stream\<lparr>au_out_counter_within_window := 0,
                                au_out_window := au_out_window stream + 1,
                                au_out_window_parity := au_out_window_parity stream + 1\<rparr>
                    else stream)
      in if au_out_window_parity stream = 3 then stream\<lparr>au_out_window_parity := 0\<rparr> else stream)"

definition prepare_iso_out_data :: "freenect_device \<Rightarrow> u8 list \<Rightarrow> freenect_device \<times> u8 list" where
  "prepare_iso_out_data dev buffer =
     (let stream = dv_audio dev;
          buffer = (if dv_audio_out_cb dev = None then blit 0 (replicate 76 0) buffer else buffer);
          buffer = blit 0 (out_header stream) buffer
      in (dev\<lparr>dv_audio := out_advance stream\<rparr>, buffer))"

text \<open>The packet goes back to libusb with its new contents.\<close>

definition iso_out_callback :: "nat \<Rightarrow> u8 list \<Rightarrow> st \<Rightarrow> st option" where
  "iso_out_callback d pkt s = do {
     dev \<leftarrow> st_devs s d;
     let (dev, pkt) = prepare_iso_out_data dev pkt;
     Some (emit (IO_iso_out d pkt) (set_dev d dev s))
   }"

section \<open>Incoming packets\<close>

record audio_in_block =
  ab_magic :: u32
  ab_channel :: u16
  ab_len :: u16
  ab_window :: u16
  ab_unknown :: u16
  ab_samples :: "u8 list"

definition read_audio_in_block :: "u8 list \<Rightarrow> audio_in_block" where
  "read_audio_in_block pkt =
     \<lparr>ab_magic = get32 pkt 0, ab_channel = get16 pkt 4, ab_len = get16 pkt 6,
      ab_window = get16 pkt 8, ab_unknown = get16 pkt 10, ab_samples = drop 12 pkt\<rparr>"

text \<open>
  The switch over the channel: 512 bytes into the buffer of the cancelled audio, or into one half of
  the buffer of a microphone. Any other channel is only logged.
\<close>

definition store_samples :: "audio_stream \<Rightarrow> audio_in_block \<Rightarrow> heap \<Rightarrow> heap option" where
  "store_samples au block h =
     (let ch = unat (ab_channel block); samples = take 512 (ab_samples block)
      in if ch = 1 then mem_write (au_cancelled_buffer au) 0 samples h
         else if 2 \<le> ch \<and> ch \<le> 9
         then if odd ch then mem_write (au_mic_buffer au ! ((ch - 2) div 2)) 512 samples h
              else mem_write (au_mic_buffer au ! ((ch - 2) div 2)) 0 samples h
         else Some h)"

text \<open>
  \<open>last_seen_window\<close> is indexed by the channel minus one without a check: outside its ten entries
  there is no defined continuation.
\<close>

definition iso_in_callback :: "nat \<Rightarrow> u8 list \<Rightarrow> st \<Rightarrow> st option" where
  "iso_in_callback d pkt s = do {
     dev \<leftarrow> st_devs s d;
     if length pkt = 524
     then let block = read_audio_in_block pkt; au = dv_audio dev
          in if ab_magic block \<noteq> 0x80000080 then Some s
             else do {
               let new_window = (ab_window block \<noteq> au_in_window au);
               let s = (if new_window
                        then case dv_audio_in_cb dev of
                               None \<Rightarrow> s
                             | Some cb \<Rightarrow> emit (IO_audio_in_cb cb d 256 (au_mic_buffer au)
                                 (au_cancelled_buffer au) (au_in_unknown au)) s
                        else s);
               let au = (if new_window then au\<lparr>au_in_window := ab_window block\<rparr> else au);
               h \<leftarrow> store_samples au block (st_heap s);
               let i = int (unat (ab_channel block)) - 1;
               if 0 \<le> i \<and> i < int (length (au_last_seen_window au))
               then Some (set_dev d (dev\<lparr>dv_audio := au\<lparr>au_last_seen_window :=
                      (au_last_seen_window au)[nat i := ab_window block]\<rparr>\<rparr>) (s\<lparr>st_heap := h\<rparr>))
               else None
             }
     else Some s
   }"

definition freenect_set_audio_in_callback :: "nat \<Rightarrow> nat option \<Rightarrow> st \<Rightarrow> st option" where
  "freenect_set_audio_in_callback d callback s =
     map_option (\<lambda>dev. set_dev d (dev\<lparr>dv_audio_in_cb := callback\<rparr>) s) (st_devs s d)"

definition freenect_set_audio_out_callback :: "nat \<Rightarrow> nat option \<Rightarrow> st \<Rightarrow> st option" where
  "freenect_set_audio_out_callback d callback s =
     map_option (\<lambda>dev. set_dev d (dev\<lparr>dv_audio_out_cb := callback\<rparr>) s) (st_devs s d)"

section \<open>The outgoing counters\<close>

text \<open>
  128 packets make a cycle of three windows of 43, 43 and 42 packets; the window of packet \<open>n\<close>
  within its cycle, the place in that window, and the packets sent in windows of parity 1.
\<close>

definition out_segment :: "nat \<Rightarrow> nat" where
  "out_segment r = (if r < 43 then 0 else if r < 86 then 1 else 2)"

definition out_place :: "nat \<Rightarrow> nat" where
  "out_place r = r - 43 * out_segment r"

definition odd_packets :: "nat \<Rightarrow> nat" where
  "odd_packets n = 43 * (n div 128) + (min (n mod 128) 86 - min (n mod 128) 43)"

definition out_state :: "nat \<Rightarrow> audio_stream \<Rightarrow> bool" where
  "out_state n au \<longleftrightarrow>
     au_out_seq au = of_nat (n mod 128) \<and>
     au_out_window_parity au = of_nat (out_segment (n mod 128)) \<and>
     au_out_counter_within_window au = of_nat (out_place (n mod 128)) \<and>
     au_out_window au = of_nat (3 * (n div 128) + out_segment (n mod 128)) \<and>
     au_out_weird_timestamp au = of_nat (5 * n + odd_packets n)"

lemma of_nat_u8_eq:
  assumes "r < 256" and "k < 256"
  shows "(of_nat r = (of_nat k :: u8)) \<longleftrightarrow> r = k"
proof
  assume "of_nat r = (of_nat k :: u8)"
  then have "unat (of_nat r :: u8) = unat (of_nat k :: u8)" by simp
  with assms show "r = k" by (simp add: unat_of_nat)
qed simp

lemma out_advance_state:
  assumes "out_state n au"
  shows "out_state (Suc n) (out_advance au)"
proof -
  define q where "q = n div 128"
  define r where "r = n mod 128"
  have r: "r < 128" by (simp add: r_def)
  have au: "au_out_seq au = of_nat r" "au_out_window_parity au = of_nat (out_segment r)"
    "au_out_counter_within_window au = of_nat (out_place r)"
    "au_out_window au = of_nat (3 * q + out_segment r)"
    "au_out_weird_timestamp au = of_nat (5 * n + odd_packets n)"
    using assms by (simp_all add: out_state_def q_def r_def)
  have p1: "(au_out_window_parity au = 1) = (out_segment r = 1)"
    using of_nat_u8_eq [of "out_segment r" 1] by (simp add: au out_segment_def)
  have ts: "au_out_weird_timestamp au + (if au_out_window_parity au = 1 then 6 else 5) =
      of_nat (5 * Suc n + odd_packets (Suc n))"
  proof -
    have "odd_packets (Suc n) = odd_packets n + (if out_segment r = 1 then 1 else 0)"
    proof (cases "r = 127")
      case True
      then have "Suc n mod 128 = 0" "Suc n div 128 = Suc q" by (simp_all add: r_def q_def mod_Suc div_Suc)
      with True show ?thesis by (simp add: odd_packets_def out_segment_def q_def r_def)
    next
      case False
      then have "Suc n mod 128 = Suc r" "Suc n div 128 = q" using r by (simp_all add: r_def q_def mod_Suc div_Suc)
      then show ?thesis by (simp add: odd_packets_def out_segment_def q_def [symmetric] r_def [symmetric])
    qed
    then show ?thesis using p1 by (cases "out_segment r = 1") (simp_all add: au)
  qed
  have seq: "(of_nat r + 1 = (0x80 :: u8)) = (r = 127)" "(of_nat r + 1 = (0x2b :: u8)) = (r = 42)"
    "(of_nat r + 1 = (0x56 :: u8)) = (r = 85)"
    using r of_nat_u8_eq [of "Suc r" 128] of_nat_u8_eq [of "Suc r" 43] of_nat_u8_eq [of "Suc r" 86]
    by (auto simp: add.commute)
  show ?thesis
  proof (cases "r = 127")
    case True
    then have "Suc n mod 128 = 0" "Suc n div 128 = Suc q" by (simp_all add: r_def q_def mod_Suc div_Suc)
    then show ?thesis using True au ts seq
      by (simp add: out_state_def out_advance_def Let_def out_segment_def out_place_def)
  next
    case False
    then have s: "Suc n mod 128 = Suc r" "Suc n div 128 = q" using r by (simp_all add: r_def q_def mod_Suc div_Suc)
    consider "r < 42" | "r = 42" | "42 < r" "r < 85" | "r = 85" | "85 < r" by linarith
    then show ?thesis
      by cases (use False au ts seq s r in
        \<open>simp_all add: out_state_def out_advance_def Let_def out_segment_def out_place_def of_nat_diff\<close>)
  qed
qed

text \<open>
  The counters of the outgoing audio packets. Started from zero, after \<open>n\<close> packets the sequence
  number is \<open>n\<close> modulo 128, the window counts three windows per cycle, the counter is the place in
  the window and the time stamp has grown by 5 per packet and 6 in windows of parity 1; no counter
  drifts, however long the stream runs.
\<close>

theorem out_counters_closed_form:
  assumes "out_state 0 au"
  shows "out_state n ((out_advance ^^ n) au)"
  using assms by (induction n) (simp_all add: out_advance_state)

theorem out_counters_closed_form_witness: "out_state 300 ((out_advance ^^ 300) zero_audio_stream)"
  by (rule out_counters_closed_form)
    (simp add: out_state_def zero_audio_stream_def out_segment_def out_place_def odd_packets_def)

section \<open>Incoming packets stay inside their buffers\<close>

definition audio_bufs_ok :: "audio_stream \<Rightarrow> heap \<Rightarrow> bool" where
  "audio_bufs_ok au h \<longleftrightarrow>
     length (au_last_seen_window au) = 10 \<and> length (au_mic_buffer au) = 4 \<and>
     map_option length (mem_block (au_cancelled_buffer au) h) = Some 512 \<and>
     (\<forall>i < 4. map_option length (mem_block (au_mic_buffer au ! i) h) = Some 1024)"

lemma mem_write_length:
  "mem_write p off bs h = Some h' \<Longrightarrow> map_option length (mem_block q h') = map_option length (mem_block q h)"
  by (erule mem_write_SomeD) (auto simp: mem_block_def heap_simps split: option.split)

lemma mem_write_room:
  assumes "map_option length (mem_block p h) = Some n" and "off + length bs \<le> n"
  shows "\<exists>h'. mem_write p (int off) bs h = Some h'"
  using assms by (auto simp: mem_block_def mem_write_def split: option.splits)

lemma store_samples_ok:
  assumes ok: "audio_bufs_ok au h"
  shows "\<exists>h'. store_samples au block h = Some h' \<and> audio_bufs_ok au h'"
proof -
  let ?ch = "unat (ab_channel block)" and ?smp = "take 512 (ab_samples block)"
  have keep: "audio_bufs_ok au h'" if "mem_write p off bs h = Some h'" for p off bs h'
    using ok mem_write_length [OF that] by (simp add: audio_bufs_ok_def)
  consider "?ch = 1" | "2 \<le> ?ch" "?ch \<le> 9" | "?ch \<noteq> 1" "\<not> (2 \<le> ?ch \<and> ?ch \<le> 9)" by blast
  then show ?thesis
  proof cases
    case 1
    have "\<exists>h'. mem_write (au_cancelled_buffer au) (int 0) ?smp h = Some h'"
      using ok by (intro mem_write_room [of _ _ 512]) (simp_all add: audio_bufs_ok_def)
    with 1 keep show ?thesis by (auto simp: store_samples_def)
  next
    case 2
    then have "(?ch - 2) div 2 < 4" by simp
    then have len: "map_option length (mem_block (au_mic_buffer au ! ((?ch - 2) div 2)) h) = Some 1024"
      using ok by (simp add: audio_bufs_ok_def)
    have "\<exists>h'. mem_write (au_mic_buffer au ! ((?ch - 2) div 2)) (int k) ?smp h = Some h'" if "k = 0 \<or> k = 512" for k
      by (rule mem_write_room [OF len]) (use that in auto)
    from this [of 0] this [of 512] 2 keep show ?thesis
      by (auto simp: store_samples_def Let_def)
  next
    case 3
    with ok show ?thesis by (auto simp: store_samples_def Let_def)
  qed
qed

text \<open>
  C32. Incoming audio stays inside the buffers as long as the device keeps to its channel numbers:
  a packet of any length and contents whose channel (when it is an audio block) is between 1 and 10
  is processed, and the buffers of the stream remain as freenect_start_audio allocated them.
\<close>

theorem iso_in_callback_safe:
  assumes dev: "st_devs s d = Some dev" and ok: "audio_bufs_ok (dv_audio dev) (st_heap s)"
    and ch: "1 \<le> get16 pkt 4" "get16 pkt 4 \<le> 10"
  shows "\<exists>s' dev'. iso_in_callback d pkt s = Some s' \<and> st_devs s' d = Some dev' \<and>
    audio_bufs_ok (dv_audio dev') (st_heap s')"
proof (cases "length pkt = 524 \<and> get32 pkt 0 = 0x80000080")
  case False
  then have "iso_in_callback d pkt s = Some s"
    using dev by (auto simp: iso_in_callback_def read_audio_in_block_def)
  with dev ok show ?thesis by blast
next
  case True
  let ?b = "read_audio_in_block pkt" and ?au = "dv_audio dev"
  let ?au1 = "if ab_window ?b \<noteq> au_in_window ?au then ?au\<lparr>au_in_window := ab_window ?b\<rparr> else ?au"
  have ok1: "audio_bufs_ok ?au1 (st_heap s)" using ok by (simp add: audio_bufs_ok_def)
  from store_samples_ok [OF ok1] obtain h' where h': "store_samples ?au1 ?b (st_heap s) = Some h'"
    and ok2: "audio_bufs_ok ?au1 h'" by blast
  have "1 \<le> uint (get16 pkt 4)" "uint (get16 pkt 4) \<le> 10"
    using ch unfolding word_le_def by simp_all
  then have i: "0 \<le> int (unat (ab_channel ?b)) - 1 \<and> int (unat (ab_channel ?b)) - 1 < int (length (au_last_seen_window ?au1))"
    using ok1 by (simp add: read_audio_in_block_def audio_bufs_ok_def)
  let ?au2 = "?au1\<lparr>au_last_seen_window := (au_last_seen_window ?au1)
      [nat (int (unat (ab_channel ?b)) - 1) := ab_window ?b]\<rparr>"
  let ?s1 = "if ab_window ?b \<noteq> au_in_window ?au
      then case dv_audio_in_cb dev of None \<Rightarrow> s
           | Some cb \<Rightarrow> emit (IO_audio_in_cb cb d 256 (au_mic_buffer ?au) (au_cancelled_buffer ?au) (au_in_unknown ?au)) s
      else s"
  have heap: "st_heap ?s1 = st_heap s" by (auto split: option.split)
  have "iso_in_callback d pkt s = Some (set_dev d (dev\<lparr>dv_audio := ?au2\<rparr>) (?s1\<lparr>st_heap := h'\<rparr>))"
    unfolding iso_in_callback_def Let_def
    using dev True h' i heap by (simp add: read_audio_in_block_def)
  moreover have "audio_bufs_ok ?au2 h'" using ok2 by (simp add: audio_bufs_ok_def)
  ultimately show ?thesis by simp
qed

text \<open>
  A channel number outside 1 to 10 is reported as invalid and then used as an index all the same:
  for an audio block of channel 0 or above 10, iso_in_callback writes outside last_seen_window.
\<close>

theorem iso_in_callback_bad_channel:
  assumes dev: "st_devs s d = Some dev" and ok: "audio_bufs_ok (dv_audio dev) (st_heap s)"
    and len: "length pkt = 524" and magic: "get32 pkt 0 = 0x80000080"
    and ch: "get16 pkt 4 = 0 \<or> 10 < get16 pkt 4"
  shows "iso_in_callback d pkt s = None"
proof -
  let ?b = "read_audio_in_block pkt"
  have "uint (get16 pkt 4) = 0 \<or> 10 < uint (get16 pkt 4)"
    using ch by (auto simp: word_less_def)
  then have i: "\<not> (0 \<le> int (unat (ab_channel ?b)) - 1 \<and> int (unat (ab_channel ?b)) - 1 < 10)"
    by (auto simp: read_audio_in_block_def)
  have l: "length (au_last_seen_window (dv_audio dev)) = 10" using ok by (simp add: audio_bufs_ok_def)
  have m: "ab_magic ?b = 0x80000080" using magic by (simp add: read_audio_in_block_def)
  show ?thesis
    unfolding iso_in_callback_def Let_def using dev len m l i
    by (auto simp del: of_nat_less_iff split: Option.bind_splits)
qed

text \<open>A device with the buffers of freenect_start_audio.\<close>

definition audio_device :: freenect_device where
  "audio_device = zero_device
     \<lparr>dv_audio := zero_audio_stream\<lparr>au_running := True, au_cancelled_buffer := Some 4,
        au_mic_buffer := [Some 0, Some 1, Some 2, Some 3]\<rparr>\<rparr>"

definition audio_state :: st where
  "audio_state = example_state
     \<lparr>st_heap := \<lparr>hp_blocks = (\<lambda>a. if a < 4 then Some (replicate 1024 0) else if a = 4 then Some (replicate 512 0) else None),
        hp_next = 5, hp_avail = 0, hp_fill = 0\<rparr>, st_devs := [0 \<mapsto> audio_device]\<rparr>"

lemma audio_state_ok:
  "st_devs audio_state 0 = Some audio_device" "audio_bufs_ok (dv_audio audio_device) (st_heap audio_state)"
proof -
  show "st_devs audio_state 0 = Some audio_device" by (simp add: audio_state_def)
  have "i < 4 \<Longrightarrow> i = 0 \<or> i = 1 \<or> i = 2 \<or> i = 3" for i :: nat by linarith
  then have "\<forall>i < 4. map_option length (mem_block ([Some 0, Some 1, Some 2, Some 3] ! i) (st_heap audio_state)) = Some 1024"
    by (fastforce simp: audio_state_def)
  then show "audio_bufs_ok (dv_audio audio_device) (st_heap audio_state)"
    by (simp add: audio_bufs_ok_def audio_device_def zero_device_def zero_audio_stream_def audio_state_def)
qed

definition audio_pkt :: "u8 \<Rightarrow> u8 list" where
  "audio_pkt ch = [0x80, 0, 0, 0x80, ch, 0, 0, 2, 5, 0, 0, 0] @ replicate 512 1"

lemma audio_pkt_fields: "length (audio_pkt ch) = 524" "get32 (audio_pkt ch) 0 = 0x80000080" "get16 (audio_pkt ch) 4 = ucast ch"
  by (simp_all add: audio_pkt_def get32_def of_le32_def get16_def of_le16_def)

theorem iso_in_callback_safe_witness:
  "\<exists>s' dev'. iso_in_callback 0 (audio_pkt 3) audio_state = Some s' \<and> st_devs s' 0 = Some dev' \<and>
    audio_bufs_ok (dv_audio dev') (st_heap s')"
  using iso_in_callback_safe [OF audio_state_ok, of "audio_pkt 3"] by (simp add: audio_pkt_fields)

theorem iso_in_callback_bad_channel_witness: "iso_in_callback 0 (audio_pkt 11) audio_state = None"
  by (rule iso_in_callback_bad_channel [OF audio_state_ok audio_pkt_fields(1,2)])
    (simp add: audio_pkt_fields)

end
