(* ===== verification/Stream.thy ===== *)
theory Stream
  imports Types
begin

text \<open>
  Packet streams (the first part of src/cameras.c): how the isochronous packets of a camera are
  assembled into frames. \<open>stream_process\<close> is the C function of that name, cut at its comments
  into the synchronisation, the accounting of lost packets, the header and length checks, and
  the copy of the payload. \<open>stream_init\<close>, \<open>stream_freebufs\<close> and \<open>stream_setbuf\<close> manage the
  buffers.

  The lemmas show that a stream which was initialised keeps \<open>wf_stream\<close> whatever arrives, that
  it never writes outside its raw buffer, that it delivers 0 or a whole frame, and that the
  packets of a frame sent in order are assembled to exactly the bytes that were cut up.
\<close>

section \<open>The packet header\<close>

record pkt_hdr =
  ph_magic0 :: u8
  ph_magic1 :: u8
  ph_pad :: u8
  ph_flag :: u8
  ph_unk1 :: u8
  ph_seq :: u8
  ph_unk2 :: u8
  ph_unk3 :: u8
  ph_timestamp :: u32

definition read_pkt_hdr :: "u8 list \<Rightarrow> pkt_hdr" where
  "read_pkt_hdr pkt =
     \<lparr>ph_magic0 = pkt ! 0, ph_magic1 = pkt ! 1, ph_pad = pkt ! 2, ph_flag = pkt ! 3,
      ph_unk1 = pkt ! 4, ph_seq = pkt ! 5, ph_unk2 = pkt ! 6, ph_unk3 = pkt ! 7,
      ph_timestamp = get32 pkt 8\<rparr>"

definition sof_flag :: "packet_stream \<Rightarrow> u8" where "sof_flag strm = ps_flag strm OR 1"
definition mof_flag :: "packet_stream \<Rightarrow> u8" where "mof_flag strm = ps_flag strm OR 2"
definition eof_flag :: "packet_stream \<Rightarrow> u8" where "eof_flag strm = ps_flag strm OR 5"

section \<open>stream_process\<close>

text \<open>Sync if required, dropping packets until the start of a frame (\<open>None\<close>: return 0).\<close>

definition stream_sync :: "packet_stream \<Rightarrow> pkt_hdr \<Rightarrow> packet_stream option" where
  "stream_sync strm hdr =
     (if \<not> ps_synced strm
      then if ph_flag hdr \<noteq> sof_flag strm then None
           else Some (strm\<lparr>ps_synced := True, ps_seq := ph_seq hdr, ps_pkt_num := 0,
                           ps_valid_pkts := 0, ps_got_pkts := 0\<rparr>)
      else Some strm)"

text \<open>
  Handle lost packets: \<open>Inl\<close> is the stream that gives up (return 0), \<open>Inr\<close> the stream that
  goes on and got_frame_size.
\<close>

definition stream_lost :: "packet_stream \<Rightarrow> pkt_hdr \<Rightarrow> packet_stream + packet_stream \<times> int" where
  "stream_lost strm hdr =
     (if ps_seq strm \<noteq> ph_seq hdr
      then let lost = ph_seq hdr - ps_seq strm;
               strm = strm\<lparr>ps_lost_pkts := ps_lost_pkts strm + ucast lost\<rparr>
           in if lost > 5 \<or> ps_variable_length strm
              then Inl (strm\<lparr>ps_synced := False\<rparr>)
              else let strm = strm\<lparr>ps_seq := ph_seq hdr\<rparr>;
                       left = ps_pkts_per_frame strm - ps_pkt_num strm
                   in if left \<le> uint lost
                      then Inr (strm\<lparr>ps_pkt_num := uint lost - left,
                                     ps_valid_pkts := ps_got_pkts strm,
                                     ps_got_pkts := 0,
                                     ps_timestamp := ps_last_timestamp strm,
                                     ps_valid_frames := ps_valid_frames strm + 1\<rparr>,
                                ps_frame_size strm)
                      else Inr (strm\<lparr>ps_pkt_num := ps_pkt_num strm + uint lost\<rparr>, 0)
      else Inr (strm, 0))"

definition expected_pkt_size :: "packet_stream \<Rightarrow> int" where
  "expected_pkt_size strm =
     (if ps_pkt_num strm = ps_pkts_per_frame strm - 1 then ps_last_pkt_size strm
      else ps_pkt_size strm)"

text \<open>
  The checks of the header flag and of the length. \<open>Some\<close> is the stream with which the
  function returns early, \<open>None\<close> means that the packet is accepted.
\<close>

definition stream_reject :: "packet_stream \<Rightarrow> pkt_hdr \<Rightarrow> int \<Rightarrow> packet_stream option" where
  "stream_reject strm hdr datalen =
     (let sof = sof_flag strm; mof = mof_flag strm; eof = eof_flag strm; f = ph_flag hdr;
          n = ps_pkt_num strm; ppf = ps_pkts_per_frame strm
      in if \<not> ps_variable_length strm
         then if \<not> (n = 0 \<and> f = sof) \<and> \<not> (n = ppf - 1 \<and> f = eof) \<and>
                 \<not> (n > 0 \<and> n < ppf - 1 \<and> f = mof)
              then Some (strm\<lparr>ps_synced := False\<rparr>)
              else if datalen > expected_pkt_size strm then Some strm
              else None
         else if \<not> (n = 0 \<and> f = sof) \<and> \<not> (n < ppf \<and> (f = eof \<or> f = mof))
              then Some (strm\<lparr>ps_synced := False\<rparr>)
              else if datalen > expected_pkt_size strm then Some (strm\<lparr>ps_synced := False\<rparr>)
              else if datalen < expected_pkt_size strm \<and> f \<noteq> eof
              then Some (strm\<lparr>ps_synced := False\<rparr>)
              else None)"

text \<open>The counters after an accepted packet, and got_frame_size.\<close>

definition stream_advance :: "packet_stream \<Rightarrow> pkt_hdr \<Rightarrow> int \<Rightarrow> int \<Rightarrow> int \<times> packet_stream" where
  "stream_advance strm hdr datalen got_frame_size =
     (let doff = ps_pkt_num strm * ps_pkt_size strm;
          strm = strm\<lparr>ps_pkt_num := ps_pkt_num strm + 1, ps_seq := ps_seq strm + 1,
                      ps_got_pkts := ps_got_pkts strm + 1,
                      ps_last_timestamp := ph_timestamp hdr\<rparr>
      in if ph_flag hdr = eof_flag strm
         then (if ps_variable_length strm then doff + datalen else doff + ps_last_pkt_size strm,
               strm\<lparr>ps_pkt_num := 0, ps_valid_pkts := ps_got_pkts strm, ps_got_pkts := 0,
                    ps_timestamp := ps_last_timestamp strm,
                    ps_valid_frames := ps_valid_frames strm + 1\<rparr>)
         else (got_frame_size, strm))"

text \<open>
  \<open>chunk\<close> is the registered chunk callback: when there is one the payload goes to the client
  instead of into the raw buffer. The result is the returned size, the stream, the memory and
  the chunk call that was made (its payload, packet number and length).
\<close>

type_synonym chunk_call = "ptr \<times> u8 list \<times> int \<times> int"

definition stream_process ::
    "packet_stream \<Rightarrow> u8 list \<Rightarrow> bool \<Rightarrow> heap
     \<Rightarrow> (int \<times> packet_stream \<times> heap \<times> chunk_call option) option" where
  "stream_process strm pkt chunk h =
     (if length pkt < 12 then Some (0, strm, h, None)
      else let hdr = read_pkt_hdr pkt; data = drop 12 pkt; datalen = int (length pkt) - 12
      in if ph_magic0 hdr \<noteq> 0x52 \<or> ph_magic1 hdr \<noteq> 0x42 then Some (0, strm, h, None)
      else case stream_sync strm hdr of
        None \<Rightarrow> Some (0, strm, h, None)
      | Some strm \<Rightarrow>
          (case stream_lost strm hdr of
             Inl strm \<Rightarrow> Some (0, strm, h, None)
           | Inr (strm, got_frame_size) \<Rightarrow>
               (case stream_reject strm hdr datalen of
                  Some strm \<Rightarrow> Some (got_frame_size, strm, h, None)
                | None \<Rightarrow>
                    (let (r, strm') = stream_advance strm hdr datalen got_frame_size
                     in if chunk
                        then Some (r, strm', h,
                               Some (ps_raw_buf strm, data, ps_pkt_num strm, datalen))
                        else do {
                          h' \<leftarrow> mem_write (ps_raw_buf strm) (ps_pkt_num strm * ps_pkt_size strm) data h;
                          Some (r, strm', h', None)
                        }))))"

section \<open>Buffers of a stream\<close>

text \<open>The division by pkt_size is C's; a zero pkt_size traps, which is \<open>None\<close>.\<close>

definition stream_init :: "packet_stream \<Rightarrow> int \<Rightarrow> int \<Rightarrow> heap \<Rightarrow> (packet_stream \<times> heap) option" where
  "stream_init strm rlen plen h =
     (let strm = strm\<lparr>ps_valid_frames := 0, ps_synced := False\<rparr>;
          (strm, h) =
            (if ps_usr_buf strm \<noteq> None
             then (strm\<lparr>ps_lib_buf := None, ps_proc_buf := ps_usr_buf strm\<rparr>, h)
             else let (p, h) = malloc (nat plen) h
                  in (strm\<lparr>ps_lib_buf := p, ps_proc_buf := p\<rparr>, h));
          (strm, h) =
            (if rlen = 0
             then (strm\<lparr>ps_split_bufs := False, ps_raw_buf := ps_proc_buf strm,
                        ps_frame_size := plen\<rparr>, h)
             else let (p, h) = malloc (nat rlen) h
                  in (strm\<lparr>ps_split_bufs := True, ps_raw_buf := p, ps_frame_size := rlen\<rparr>, h))
      in if ps_pkt_size strm = 0 then None
         else let lps = ps_frame_size strm smod ps_pkt_size strm
              in Some (strm\<lparr>ps_last_pkt_size := (if lps = 0 then ps_pkt_size strm else lps),
                            ps_pkts_per_frame :=
                              (ps_frame_size strm + ps_pkt_size strm - 1) sdiv ps_pkt_size strm\<rparr>, h))"

definition stream_freebufs :: "packet_stream \<Rightarrow> heap \<Rightarrow> (packet_stream \<times> heap) option" where
  "stream_freebufs strm h = do {
     h \<leftarrow> (if ps_split_bufs strm then mfree (ps_raw_buf strm) h else Some h);
     h \<leftarrow> (if ps_lib_buf strm \<noteq> None then mfree (ps_lib_buf strm) h else Some h);
     Some (strm\<lparr>ps_raw_buf := None, ps_proc_buf := None, ps_lib_buf := None\<rparr>, h)
   }"

definition stream_setbuf :: "packet_stream \<Rightarrow> ptr \<Rightarrow> int \<times> packet_stream" where
  "stream_setbuf strm pbuf =
     (if \<not> ps_running strm then (0, strm\<lparr>ps_usr_buf := pbuf\<rparr>)
      else if pbuf = None \<and> ps_lib_buf strm = None then (-1, strm)
      else let strm = strm\<lparr>ps_usr_buf := pbuf\<rparr>;
               strm = (if pbuf = None then strm\<lparr>ps_proc_buf := ps_lib_buf strm\<rparr>
                       else strm\<lparr>ps_proc_buf := pbuf\<rparr>);
               strm = (if \<not> ps_split_bufs strm then strm\<lparr>ps_raw_buf := ps_proc_buf strm\<rparr> else strm)
           in (0, strm))"

section \<open>Well-formed streams\<close>

text \<open>
  What stream_init establishes and stream_process keeps: the geometry of the frame, and a raw
  buffer that is large enough for it. The marks of the stream leave bit 2 clear, so that the
  three packet flags differ (the library uses 0x70 and 0x80).
\<close>

definition wf_geom :: "packet_stream \<Rightarrow> bool" where
  "wf_geom strm \<longleftrightarrow>
     0 < ps_pkt_size strm \<and> 0 < ps_frame_size strm \<and> 0 < ps_last_pkt_size strm \<and>
     ps_last_pkt_size strm \<le> ps_pkt_size strm \<and> 0 < ps_pkts_per_frame strm \<and>
     (ps_pkts_per_frame strm - 1) * ps_pkt_size strm + ps_last_pkt_size strm = ps_frame_size strm \<and>
     \<not> bit (ps_flag strm) 0 \<and> \<not> bit (ps_flag strm) 1 \<and> \<not> bit (ps_flag strm) 2"

definition wf_buf :: "packet_stream \<Rightarrow> heap \<Rightarrow> bool" where
  "wf_buf strm h \<longleftrightarrow>
     (\<exists>blk. mem_block (ps_raw_buf strm) h = Some blk \<and> ps_frame_size strm \<le> int (length blk))"

definition wf_stream :: "packet_stream \<Rightarrow> heap \<Rightarrow> bool" where
  "wf_stream strm h \<longleftrightarrow> wf_geom strm \<and> wf_buf strm h \<and> (ps_synced strm \<longrightarrow> 0 \<le> ps_pkt_num strm)"

text \<open>
  The sender's side, for the statement of the assembly: the packets into which a frame of a
  fixed-length stream is cut, with consecutive sequence numbers.
\<close>

definition pkt_flag :: "packet_stream \<Rightarrow> nat \<Rightarrow> u8" where
  "pkt_flag strm i =
     (if i = 0 then sof_flag strm
      else if int i = ps_pkts_per_frame strm - 1 then eof_flag strm else mof_flag strm)"

definition frame_pkt :: "packet_stream \<Rightarrow> u8 \<Rightarrow> u32 \<Rightarrow> u8 list \<Rightarrow> nat \<Rightarrow> u8 list" where
  "frame_pkt strm q ts payload i =
     [0x52, 0x42, 0, pkt_flag strm i, 0, q + of_nat i, 0, 0] @ le32 ts @
     take (nat (ps_pkt_size strm)) (drop (i * nat (ps_pkt_size strm)) payload)"

fun run_stream ::
    "packet_stream \<Rightarrow> u8 list list \<Rightarrow> heap \<Rightarrow> (int list \<times> packet_stream \<times> heap) option" where
  "run_stream strm [] h = Some ([], strm, h)"
| "run_stream strm (p # ps) h = do {
     (r, strm, h, c) \<leftarrow> stream_process strm p False h;
     (rs, strm, h) \<leftarrow> run_stream strm ps h;
     Some (r # rs, strm, h)
   }"

section \<open>Lemmas: the pieces of stream_process\<close>

text \<open>The fields that only stream_init and stream_setbuf write.\<close>

definition geom ::
    "packet_stream \<Rightarrow> bool \<times> u8 \<times> int \<times> int \<times> int \<times> int \<times> bool \<times> bool \<times> ptr \<times> ptr \<times> ptr \<times> ptr" where
  "geom strm =
     (ps_running strm, ps_flag strm, ps_pkts_per_frame strm, ps_pkt_size strm, ps_frame_size strm,
      ps_last_pkt_size strm, ps_variable_length strm, ps_split_bufs strm, ps_lib_buf strm,
      ps_usr_buf strm, ps_raw_buf strm, ps_proc_buf strm)"

lemma geom_wf_geom: "geom s = geom t \<Longrightarrow> wf_geom s = wf_geom t"
  by (simp add: geom_def wf_geom_def)

lemma geom_wf_buf: "geom s = geom t \<Longrightarrow> wf_buf s h = wf_buf t h"
  by (simp add: geom_def wf_buf_def)

lemma geom_wf_stream:
  assumes "geom s = geom t" and "wf_geom t" and "wf_buf t h"
    and "ps_synced s \<longrightarrow> 0 \<le> ps_pkt_num s"
  shows "wf_stream s h"
  using assms geom_wf_geom [OF assms(1)] geom_wf_buf [OF assms(1)] by (simp add: wf_stream_def)

lemma stream_sync_SomeD:
  assumes "stream_sync strm hdr = Some strm'"
  shows "geom strm' = geom strm" and "ps_synced strm'"
    and "(ps_synced strm \<longrightarrow> 0 \<le> ps_pkt_num strm) \<Longrightarrow> 0 \<le> ps_pkt_num strm'"
  using assms by (auto simp: stream_sync_def geom_def split: if_splits)

lemma stream_lost_InlD:
  "stream_lost strm hdr = Inl strm' \<Longrightarrow> geom strm' = geom strm \<and> \<not> ps_synced strm'"
  by (auto simp: stream_lost_def geom_def Let_def split: if_splits)

lemma stream_lost_InrD:
  assumes "stream_lost strm hdr = Inr (strm', g)"
  shows "geom strm' = geom strm" and "ps_synced strm' = ps_synced strm"
    and "0 \<le> ps_pkt_num strm \<Longrightarrow> 0 \<le> ps_pkt_num strm'" and "g = 0 \<or> g = ps_frame_size strm"
    and "ps_seq strm' = ph_seq hdr"
  using assms by (auto simp: stream_lost_def geom_def Let_def split: if_splits)

lemma stream_reject_SomeD:
  "stream_reject strm hdr n = Some strm' \<Longrightarrow>
   geom strm' = geom strm \<and> (ps_synced strm' \<longrightarrow> ps_synced strm) \<and> ps_pkt_num strm' = ps_pkt_num strm"
  by (auto simp: stream_reject_def geom_def Let_def split: if_splits)

lemma flags_distinct:
  assumes "wf_geom strm"
  shows "sof_flag strm \<noteq> mof_flag strm" and "sof_flag strm \<noteq> eof_flag strm"
    and "mof_flag strm \<noteq> eof_flag strm"
proof -
  have b: "bit (sof_flag strm) 0" "\<not> bit (sof_flag strm) 1" "\<not> bit (mof_flag strm) 0"
    "\<not> bit (sof_flag strm) 2" "bit (eof_flag strm) 2" "\<not> bit (mof_flag strm) 2"
    using assms by (simp_all add: wf_geom_def sof_flag_def mof_flag_def eof_flag_def bit_simps bit_1_iff)
  from b(1,3) show "sof_flag strm \<noteq> mof_flag strm" by metis
  from b(4,5) show "sof_flag strm \<noteq> eof_flag strm" by metis
  from b(5,6) show "mof_flag strm \<noteq> eof_flag strm" by metis
qed

text \<open>An accepted packet lies inside the frame.\<close>

lemma stream_reject_None_index:
  assumes "wf_geom strm" and "0 \<le> ps_pkt_num strm" and "stream_reject strm hdr n = None"
  shows "ps_pkt_num strm < ps_pkts_per_frame strm" and "n \<le> expected_pkt_size strm"
  using assms
  by (auto simp: stream_reject_def wf_geom_def expected_pkt_size_def Let_def split: if_splits)

lemma slot_in_frame:
  assumes "wf_geom strm" and "0 \<le> ps_pkt_num strm" and "ps_pkt_num strm < ps_pkts_per_frame strm"
    and "n \<le> expected_pkt_size strm"
  shows "ps_pkt_num strm * ps_pkt_size strm + n \<le> ps_frame_size strm"
proof (cases "ps_pkt_num strm = ps_pkts_per_frame strm - 1")
  case True
  with assms show ?thesis by (simp add: wf_geom_def expected_pkt_size_def)
next
  case False
  with assms(3) have "ps_pkt_num strm + 1 \<le> ps_pkts_per_frame strm - 1" by simp
  then have "(ps_pkt_num strm + 1) * ps_pkt_size strm \<le> (ps_pkts_per_frame strm - 1) * ps_pkt_size strm"
    using assms(1) by (intro mult_right_mono) (auto simp: wf_geom_def)
  with False assms(1,4) show ?thesis
    by (simp add: wf_geom_def expected_pkt_size_def algebra_simps)
qed

lemma stream_advance_props:
  assumes "stream_advance strm hdr n g = (r, strm')"
  shows "geom strm' = geom strm" and "ps_synced strm' = ps_synced strm"
    and "0 \<le> ps_pkt_num strm \<Longrightarrow> 0 \<le> ps_pkt_num strm'"
    and "r = (if ph_flag hdr = eof_flag strm
              then ps_pkt_num strm * ps_pkt_size strm +
                   (if ps_variable_length strm then n else ps_last_pkt_size strm) else g)"
    and "ps_seq strm' = ps_seq strm + 1"
  using assms
  by (auto simp: stream_advance_def geom_def eof_flag_def Let_def split: if_splits)

lemma stream_advance_range:
  assumes "wf_geom strm" and "0 \<le> ps_pkt_num strm" and "stream_reject strm hdr n = None"
    and "0 \<le> n" and "g = 0 \<or> g = ps_frame_size strm"
    and adv: "stream_advance strm hdr n g = (r, strm')"
  shows "0 \<le> r" and "r \<le> ps_frame_size strm"
    and "\<not> ps_variable_length strm \<Longrightarrow> r = 0 \<or> r = ps_frame_size strm"
proof -
  note idx = stream_reject_None_index [OF assms(1-3)]
  note slot = slot_in_frame [OF assms(1,2) idx]
  have fs: "0 < ps_frame_size strm" and ps: "0 < ps_pkt_size strm"
    using assms(1) by (simp_all add: wf_geom_def)
  have off: "0 \<le> ps_pkt_num strm * ps_pkt_size strm"
    using assms(2) ps by simp
  have fixed: "r = 0 \<or> r = ps_frame_size strm" if nv: "\<not> ps_variable_length strm"
  proof (cases "ph_flag hdr = eof_flag strm")
    case True
    with assms(3) nv flags_distinct [OF assms(1)]
    have "ps_pkt_num strm = ps_pkts_per_frame strm - 1"
      by (auto simp: stream_reject_def Let_def split: if_splits)
    with True nv assms(1) stream_advance_props(4) [OF adv] show ?thesis
      by (simp add: wf_geom_def)
  next
    case False
    with stream_advance_props(4) [OF adv] assms(5) show ?thesis by simp
  qed
  then show "\<not> ps_variable_length strm \<Longrightarrow> r = 0 \<or> r = ps_frame_size strm" .
  have both: "0 \<le> r \<and> r \<le> ps_frame_size strm"
  proof (cases "ps_variable_length strm")
    case True
    with stream_advance_props(4) [OF adv] off slot assms(4,5) fs show ?thesis by auto
  next
    case False
    with fixed fs show ?thesis by auto
  qed
  then show "0 \<le> r" and "r \<le> ps_frame_size strm" by simp_all
qed

section \<open>Memory safety of packet processing\<close>

text \<open>
  The memory after a packet: at most the raw buffer changed, and no block changed its length.
\<close>

definition same_blocks :: "ptr \<Rightarrow> heap \<Rightarrow> heap \<Rightarrow> bool" where
  "same_blocks p h h' \<longleftrightarrow>
     (\<forall>a. map_option length (hp_blocks h' a) = map_option length (hp_blocks h a)) \<and>
     (\<forall>a. p \<noteq> Some a \<longrightarrow> hp_blocks h' a = hp_blocks h a) \<and>
     hp_next h' = hp_next h \<and> hp_avail h' = hp_avail h \<and> hp_fill h' = hp_fill h"

lemma same_blocks_refl [simp]: "same_blocks p h h"
  by (simp add: same_blocks_def)

lemma mem_write_same_blocks: "mem_write p off bs h = Some h' \<Longrightarrow> same_blocks p h h'"
  by (erule mem_write_SomeD) (auto simp: same_blocks_def heap_simps)

lemma same_blocks_wf_buf: "same_blocks p h h' \<Longrightarrow> wf_buf strm h \<Longrightarrow> wf_buf strm h'"
proof -
  assume sb: "same_blocks p h h'" and "wf_buf strm h"
  then obtain a blk where a: "ps_raw_buf strm = Some a" "hp_blocks h a = Some blk"
    and len: "ps_frame_size strm \<le> int (length blk)"
    by (auto simp: wf_buf_def mem_block_def split: option.splits)
  from sb a(2) have "map_option length (hp_blocks h' a) = Some (length blk)"
    by (simp add: same_blocks_def)
  with a(1) len show "wf_buf strm h'" by (auto simp: wf_buf_def)
qed

lemma stream_write_ok:
  assumes "wf_geom strm" and "wf_buf strm h" and "0 \<le> ps_pkt_num strm"
    and "stream_reject strm hdr (int (length data)) = None"
  shows "\<exists>h'. mem_write (ps_raw_buf strm) (ps_pkt_num strm * ps_pkt_size strm) data h = Some h'"
proof -
  note idx = stream_reject_None_index [OF assms(1,3,4)]
  have slot: "ps_pkt_num strm * ps_pkt_size strm + int (length data) \<le> ps_frame_size strm"
    by (rule slot_in_frame [OF assms(1,3) idx])
  obtain a blk where a: "ps_raw_buf strm = Some a" "hp_blocks h a = Some blk"
    and len: "ps_frame_size strm \<le> int (length blk)"
    using assms(2) by (auto simp: wf_buf_def mem_block_def split: option.splits)
  have off: "0 \<le> ps_pkt_num strm * ps_pkt_size strm"
    using assms(1,3) by (simp add: wf_geom_def)
  with slot len have "nat (ps_pkt_num strm * ps_pkt_size strm) + length data \<le> length blk"
    by linarith
  with a off show ?thesis by (auto simp: mem_write_def)
qed

lemma stream_process_safe_aux:
  assumes wf: "wf_stream strm h"
  obtains r strm' h' c where "stream_process strm pkt chunk h = Some (r, strm', h', c)"
    and "wf_stream strm' h'" and "geom strm' = geom strm" and "0 \<le> r" and "r \<le> ps_frame_size strm"
    and "\<not> ps_variable_length strm \<Longrightarrow> r = 0 \<or> r = ps_frame_size strm"
    and "same_blocks (ps_raw_buf strm) h h'"
proof -
  have g: "wf_geom strm" and b: "wf_buf strm h" and n: "ps_synced strm \<longrightarrow> 0 \<le> ps_pkt_num strm"
    using wf by (simp_all add: wf_stream_def)
  have fs: "0 < ps_frame_size strm" using g by (simp add: wf_geom_def)
  define hdr where "hdr = read_pkt_hdr pkt"
  define data where "data = drop 12 pkt"
  show thesis
  proof (cases "length pkt < 12 \<or> ph_magic0 hdr \<noteq> 0x52 \<or> ph_magic1 hdr \<noteq> 0x42 \<or> stream_sync strm hdr = None")
    case True
    then have "stream_process strm pkt chunk h = Some (0, strm, h, None)"
      by (auto simp: stream_process_def hdr_def Let_def)
    from that [OF this] wf fs show thesis by simp
  next
    case False
    then obtain s1 where s1: "stream_sync strm hdr = Some s1" and len: "12 \<le> length pkt"
      by auto
    have hd: "ph_magic0 (read_pkt_hdr pkt) = 0x52" "ph_magic1 (read_pkt_hdr pkt) = 0x42"
      using False by (simp_all add: hdr_def)
    note sp = stream_process_def [of strm pkt chunk h]
    note S = stream_sync_SomeD [OF s1]
    have n1: "0 \<le> ps_pkt_num s1" using S(3) n by blast
    show thesis
    proof (cases "stream_lost s1 hdr")
      case (Inl s2)
      with hd len s1 have "stream_process strm pkt chunk h = Some (0, s2, h, None)"
        by (simp add: sp hdr_def Let_def)
      moreover from stream_lost_InlD [OF Inl] S(1) have "geom s2 = geom strm" "\<not> ps_synced s2"
        by auto
      moreover from this g b have "wf_stream s2 h"
        by (intro geom_wf_stream [of s2 strm]) simp_all
      ultimately show thesis using that fs by simp
    next
      case (Inr p)
      obtain s2 gfs where p: "p = (s2, gfs)" by (cases p)
      note L = stream_lost_InrD [OF Inr [unfolded p]]
      have gs2: "geom s2 = geom strm" using L(1) S(1) by simp
      have g2: "wf_geom s2" using gs2 g by (simp add: geom_wf_geom [of s2 strm])
      have b2: "wf_buf s2 h" using gs2 b by (simp add: geom_wf_buf [of s2 strm])
      have n2: "0 \<le> ps_pkt_num s2" using L(3) n1 by blast
      have fs12: "ps_frame_size s1 = ps_frame_size strm" "ps_frame_size s2 = ps_frame_size strm"
        "ps_raw_buf s2 = ps_raw_buf strm" "ps_variable_length s2 = ps_variable_length strm"
        using S(1) gs2 by (auto simp: geom_def)
      have gfs: "gfs = 0 \<or> gfs = ps_frame_size s2" using L(4) fs12 by simp
      show thesis
      proof (cases "stream_reject s2 hdr (int (length pkt) - 12)")
        case (Some s3)
        with hd len s1 Inr p have ret: "stream_process strm pkt chunk h = Some (gfs, s3, h, None)"
          by (simp add: sp hdr_def Let_def)
        from stream_reject_SomeD [OF Some] gs2 n2
        have g3: "geom s3 = geom strm" "0 \<le> ps_pkt_num s3" by auto
        from this g b have w3: "wf_stream s3 h"
          by (intro geom_wf_stream [of s3 strm]) simp_all
        have r3: "0 \<le> gfs" "gfs \<le> ps_frame_size strm" "gfs = 0 \<or> gfs = ps_frame_size strm"
          using gfs fs fs12 by auto
        show thesis by (rule that [OF ret w3 g3(1) r3 same_blocks_refl])
      next
        case None
        obtain r s3 where adv: "stream_advance s2 hdr (int (length pkt) - 12) gfs = (r, s3)"
          by (cases "stream_advance s2 hdr (int (length pkt) - 12) gfs")
        note A = stream_advance_props [OF adv]
        have gs3: "geom s3 = geom strm" using A(1) gs2 by simp
        have n3: "0 \<le> ps_pkt_num s3" using A(3) n2 by blast
        have dl: "0 \<le> int (length pkt) - 12" "int (length (drop 12 pkt)) = int (length pkt) - 12"
          using len by auto
        note R = stream_advance_range [OF g2 n2 None dl(1) gfs adv]
        obtain h1 where h1: "mem_write (ps_raw_buf s2) (ps_pkt_num s2 * ps_pkt_size s2) (drop 12 pkt) h = Some h1"
          using stream_write_ok [OF g2 b2 n2, of hdr "drop 12 pkt"] None dl(2) by auto
        define h' where "h' = (if chunk then h else h1)"
        have sb: "same_blocks (ps_raw_buf strm) h h'"
          using mem_write_same_blocks [OF h1] fs12 by (simp add: h'_def)
        have "wf_stream s3 h'"
          using g same_blocks_wf_buf [OF sb b] gs3 n3
          by (intro geom_wf_stream [of s3 strm]) simp_all
        moreover from hd len s1 Inr p None adv h1
        have "\<exists>c. stream_process strm pkt chunk h = Some (r, s3, h', c)"
          by (cases chunk) (simp_all add: stream_process_def hdr_def Let_def h'_def)
        then obtain c where "stream_process strm pkt chunk h = Some (r, s3, h', c)" ..
        ultimately show thesis using that gs3 R sb fs12 by simp
      qed
    qed
  qed
qed

text \<open>
  C13. Whatever bytes a packet holds, stream_process on an initialised stream returns, never
  writes outside the raw buffer, keeps the stream well formed, and reports either no frame or
  at most frame_size bytes; a fixed-length stream reports 0 or exactly frame_size.
\<close>

theorem stream_process_safe:
  assumes "wf_stream strm h"
  shows "\<exists>r strm' h' c. stream_process strm pkt chunk h = Some (r, strm', h', c) \<and>
    wf_stream strm' h' \<and> 0 \<le> r \<and> r \<le> ps_frame_size strm \<and>
    (\<not> ps_variable_length strm \<longrightarrow> r = 0 \<or> r = ps_frame_size strm) \<and>
    same_blocks (ps_raw_buf strm) h h'"
  by (rule stream_process_safe_aux [OF assms]) blast

section \<open>Assembly of a frame\<close>

lemma read_frame_pkt:
  "ph_magic0 (read_pkt_hdr (frame_pkt strm q ts payload i)) = 0x52"
  "ph_magic1 (read_pkt_hdr (frame_pkt strm q ts payload i)) = 0x42"
  "ph_flag (read_pkt_hdr (frame_pkt strm q ts payload i)) = pkt_flag strm i"
  "ph_seq (read_pkt_hdr (frame_pkt strm q ts payload i)) = q + of_nat i"
  "ph_timestamp (read_pkt_hdr (frame_pkt strm q ts payload i)) = ts"
proof -
  have "get32 (frame_pkt strm q ts payload i) 8 = ts"
    using get32_le32 [of "[0x52, 0x42, 0, pkt_flag strm i, 0, q + of_nat i, 0, 0]" ts]
    by (simp add: frame_pkt_def numeral_eq_Suc)
  then show "ph_timestamp (read_pkt_hdr (frame_pkt strm q ts payload i)) = ts"
    by (simp add: read_pkt_hdr_def)
qed (simp_all add: read_pkt_hdr_def frame_pkt_def)

lemma frame_pkt_data:
  "drop 12 (frame_pkt strm q ts payload i) =
     take (nat (ps_pkt_size strm)) (drop (i * nat (ps_pkt_size strm)) payload)"
  "12 \<le> length (frame_pkt strm q ts payload i)"
  by (simp_all add: frame_pkt_def le32_def)

text \<open>How many payload bytes packet \<open>i\<close> of a frame carries.\<close>

lemma frame_chunk_length:
  assumes g: "wf_geom strm" and len: "int (length payload) = ps_frame_size strm"
    and i: "int i < ps_pkts_per_frame strm"
  shows "int (length (take (nat (ps_pkt_size strm)) (drop (i * nat (ps_pkt_size strm)) payload))) =
    (if int i = ps_pkts_per_frame strm - 1 then ps_last_pkt_size strm else ps_pkt_size strm)"
proof -
  define k where "k = nat (ps_pkt_size strm)"
  have k: "int k = ps_pkt_size strm" and pos: "0 < ps_pkt_size strm"
    using g by (simp_all add: k_def wf_geom_def)
  have fs: "int (length payload) = (ps_pkts_per_frame strm - 1) * int k + ps_last_pkt_size strm"
    using g len k by (simp add: wf_geom_def)
  show ?thesis
  proof (cases "int i = ps_pkts_per_frame strm - 1")
    case True
    define m where "m = i * k"
    from True fs have "int (length payload) = int m + ps_last_pkt_size strm" by (simp add: m_def)
    moreover have "0 < ps_last_pkt_size strm" using g by (simp add: wf_geom_def)
    ultimately have "int (length payload - i * k) = ps_last_pkt_size strm"
      unfolding m_def [symmetric] by linarith
    moreover have "ps_last_pkt_size strm \<le> int k" using g k by (simp add: wf_geom_def)
    ultimately show ?thesis using True by (simp flip: k_def)
  next
    case False
    with i have "int i + 1 \<le> ps_pkts_per_frame strm - 1" by simp
    then have "(int i + 1) * int k \<le> (ps_pkts_per_frame strm - 1) * int k"
      by (rule mult_right_mono) simp
    with fs g have "int (i * k + k) < int (length payload)"
      by (simp add: wf_geom_def algebra_simps)
    then have "k \<le> length payload - i * k" by linarith
    with False k show ?thesis by (simp flip: k_def)
  qed
qed

lemma pkt_flag_accepted:
  assumes g: "wf_geom strm" and i: "int i < ps_pkts_per_frame strm" and two: "2 \<le> ps_pkts_per_frame strm"
    and n: "ps_pkt_num strm = int i" and fixed: "\<not> ps_variable_length strm"
    and fl: "ph_flag hdr = pkt_flag strm i" and dl: "dl = expected_pkt_size strm"
  shows "stream_reject strm hdr dl = None"
    and "ph_flag hdr = eof_flag strm \<longleftrightarrow> int i = ps_pkts_per_frame strm - 1"
  using assms flags_distinct [OF g]
  by (auto simp: stream_reject_def pkt_flag_def expected_pkt_size_def Let_def)

text \<open>The raw buffer after the first \<open>n\<close> bytes of a frame have arrived.\<close>

definition raw_holds :: "packet_stream \<Rightarrow> u8 list \<Rightarrow> heap \<Rightarrow> heap \<Rightarrow> bool" where
  "raw_holds strm bs h0 h \<longleftrightarrow>
     (\<exists>a blk. ps_raw_buf strm = Some a \<and> hp_blocks h0 a = Some blk \<and>
       ps_frame_size strm \<le> int (length blk) \<and> length bs \<le> length blk \<and>
       h = h0\<lparr>hp_blocks := (hp_blocks h0)(a \<mapsto> blit 0 bs blk)\<rparr>)"

lemma blit_append:
  "length xs + length ys \<le> length blk \<Longrightarrow> blit (length xs) ys (blit 0 xs blk) = blit 0 (xs @ ys) blk"
  by (simp add: blit_def add.commute)

lemma raw_holds_write:
  assumes "raw_holds strm bs h0 h" and "off = int (length bs)"
    and "int (length bs) + int (length ys) \<le> ps_frame_size strm"
  shows "\<exists>h'. mem_write (ps_raw_buf strm) off ys h = Some h' \<and> raw_holds strm (bs @ ys) h0 h'"
proof -
  obtain a blk where a: "ps_raw_buf strm = Some a" "hp_blocks h0 a = Some blk"
    "ps_frame_size strm \<le> int (length blk)" "length bs \<le> length blk"
    "h = h0\<lparr>hp_blocks := (hp_blocks h0)(a \<mapsto> blit 0 bs blk)\<rparr>"
    using assms(1) by (auto simp: raw_holds_def)
  have l: "length bs + length ys \<le> length blk" using a(3) assms(3) by linarith
  then have "mem_write (ps_raw_buf strm) off ys h =
      Some (h0\<lparr>hp_blocks := (hp_blocks h0)(a \<mapsto> blit 0 (bs @ ys) blk)\<rparr>)"
    using a assms(2) by (simp add: mem_write_def length_blit blit_append)
  with a l show ?thesis by (auto simp: raw_holds_def)
qed

lemma assemble_step:
  assumes g: "wf_geom t" and fixed: "\<not> ps_variable_length t" and two: "2 \<le> ps_pkts_per_frame t"
    and len: "int (length payload) = ps_frame_size t" and i: "int i < ps_pkts_per_frame t"
    and st: "ps_synced t" "ps_seq t = q + of_nat i" "ps_pkt_num t = int i"
    and raw: "raw_holds t (take (i * nat (ps_pkt_size t)) payload) h0 h"
    and adv: "stream_advance t (read_pkt_hdr (frame_pkt t q ts payload i)) (expected_pkt_size t) 0 = (r, t')"
  shows "\<exists>h'. stream_process t (frame_pkt t q ts payload i) False h = Some (r, t', h', None) \<and>
    raw_holds t (take ((i + 1) * nat (ps_pkt_size t)) payload) h0 h'"
proof -
  define k where "k = nat (ps_pkt_size t)"
  define p where "p = frame_pkt t q ts payload i"
  define c where "c = take k (drop (i * k) payload)"
  have k: "int k = ps_pkt_size t" using g by (simp add: k_def wf_geom_def)
  have cl: "int (length c) = expected_pkt_size t"
    using frame_chunk_length [OF g len i] st(3) by (simp add: c_def k_def expected_pkt_size_def)
  have dp: "drop 12 p = c" "12 \<le> length p"
    using frame_pkt_data [of t q ts payload i] by (simp_all add: p_def c_def k_def)
  then have lp: "int (length p) - 12 = expected_pkt_size t" using cl by auto
  have slot: "ps_pkt_num t * ps_pkt_size t + expected_pkt_size t \<le> ps_frame_size t"
    by (rule slot_in_frame [OF g]) (use st(3) i in simp_all)
  have "i * k \<le> length payload"
  proof -
    have "int i * int k \<le> int (length payload)"
      using slot cl st(3) k len by simp
    then show ?thesis by (simp flip: of_nat_mult)
  qed
  then have tk: "length (take (i * k) payload) = i * k" by simp
  have off: "ps_pkt_num t * ps_pkt_size t = int (length (take (i * k) payload))"
    using st(3) k tk by simp
  obtain h' where h': "mem_write (ps_raw_buf t) (ps_pkt_num t * ps_pkt_size t) c h = Some h'"
    and raw': "raw_holds t (take (i * k) payload @ c) h0 h'"
    using raw_holds_write [OF raw [folded k_def] off, of c] slot cl off by auto
  have "take (i * k) payload @ c = take ((i + 1) * k) payload"
    by (simp add: c_def add.commute [of k] take_add)
  moreover have "stream_process t p False h = Some (r, t', h', None)"
  proof -
    have acc: "stream_reject t (read_pkt_hdr p) (expected_pkt_size t) = None"
      by (rule pkt_flag_accepted(1) [OF g i two st(3) fixed _ refl]) (simp add: p_def read_frame_pkt)
    have lost: "stream_lost t (read_pkt_hdr p) = Inr (t, 0)"
      using st(2) by (simp add: stream_lost_def p_def read_frame_pkt)
    have sync: "stream_sync t (read_pkt_hdr p) = Some t"
      using st(1) by (simp add: stream_sync_def)
    have hd: "ph_magic0 (read_pkt_hdr p) = 0x52" "ph_magic1 (read_pkt_hdr p) = 0x42"
      by (simp_all add: p_def read_frame_pkt)
    show ?thesis
      using dp hd sync lost acc adv h' lp by (simp add: stream_process_def Let_def p_def)
  qed
  ultimately show ?thesis using raw' by (auto simp: p_def k_def)
qed

lemma frame_pkt_geom: "geom t = geom strm \<Longrightarrow> frame_pkt t = frame_pkt strm"
  by (intro ext) (simp add: frame_pkt_def pkt_flag_def sof_flag_def mof_flag_def eof_flag_def geom_def)

lemma raw_holds_geom: "geom t = geom strm \<Longrightarrow> raw_holds t = raw_holds strm"
  by (intro ext) (simp add: raw_holds_def geom_def)

text \<open>The stream after the rest of a frame, from packet \<open>i\<close> on.\<close>

definition frame_done :: "packet_stream \<Rightarrow> u8 \<Rightarrow> u32 \<Rightarrow> nat \<Rightarrow> packet_stream" where
  "frame_done t q ts i =
     t\<lparr>ps_seq := q + of_nat (nat (ps_pkts_per_frame t)), ps_pkt_num := 0, ps_got_pkts := 0,
       ps_valid_pkts := ps_got_pkts t + (ps_pkts_per_frame t - int i),
       ps_last_timestamp := ts, ps_timestamp := ts, ps_valid_frames := ps_valid_frames t + 1\<rparr>"

definition frame_mid :: "packet_stream \<Rightarrow> u8 \<Rightarrow> u32 \<Rightarrow> nat \<Rightarrow> packet_stream" where
  "frame_mid t q ts i =
     t\<lparr>ps_pkt_num := int (Suc i), ps_seq := q + of_nat (Suc i), ps_got_pkts := ps_got_pkts t + 1,
       ps_last_timestamp := ts\<rparr>"

lemma advance_frame_pkt:
  assumes g: "wf_geom t" and fixed: "\<not> ps_variable_length t" and two: "2 \<le> ps_pkts_per_frame t"
    and i: "int i < ps_pkts_per_frame t" and st: "ps_seq t = q + of_nat i" "ps_pkt_num t = int i"
  shows "stream_advance t (read_pkt_hdr (frame_pkt t q ts payload i)) n 0 =
    (if int i = ps_pkts_per_frame t - 1 then (ps_frame_size t, frame_done t q ts i)
     else (0, frame_mid t q ts i))"
proof -
  have "ph_flag (read_pkt_hdr (frame_pkt t q ts payload i)) = eof_flag t \<longleftrightarrow>
      int i = ps_pkts_per_frame t - 1"
    by (rule pkt_flag_accepted(2) [OF g i two st(2) fixed _ refl]) (simp add: read_frame_pkt)
  moreover have "int i = ps_pkts_per_frame t - 1 \<Longrightarrow> nat (ps_pkts_per_frame t) = Suc i" by simp
  ultimately show ?thesis
    using g fixed st
    by (auto simp: stream_advance_def frame_done_def frame_mid_def wf_geom_def read_frame_pkt
        eof_flag_def Let_def add.assoc)
qed

lemma last_packet_end:
  assumes "wf_geom t" and "int (length payload) = ps_frame_size t"
    and "int i = ps_pkts_per_frame t - 1"
  shows "length payload \<le> (i + 1) * nat (ps_pkt_size t)"
proof -
  have "int (length payload) = int i * ps_pkt_size t + ps_last_pkt_size t"
    using assms by (simp add: wf_geom_def)
  also have "\<dots> \<le> (int i + 1) * ps_pkt_size t"
    using assms(1) by (simp add: wf_geom_def algebra_simps)
  also have "\<dots> = int ((i + 1) * nat (ps_pkt_size t))"
    using assms(1) by (simp add: wf_geom_def algebra_simps)
  finally show ?thesis by linarith
qed

lemma geom_frame_mid: "geom (frame_mid t q ts i) = geom t"
  by (simp add: frame_mid_def geom_def)

lemma assemble_run:
  assumes "wf_geom t" and "\<not> ps_variable_length t" and "2 \<le> ps_pkts_per_frame t"
    and "int (length payload) = ps_frame_size t" and "i < nat (ps_pkts_per_frame t)"
    and "ps_synced t" "ps_seq t = q + of_nat i" "ps_pkt_num t = int i"
    and "raw_holds t (take (i * nat (ps_pkt_size t)) payload) h0 h"
  shows "\<exists>h'. run_stream t (map (frame_pkt t q ts payload) [i..<nat (ps_pkts_per_frame t)]) h =
      Some (replicate (nat (ps_pkts_per_frame t) - Suc i) 0 @ [ps_frame_size t],
            frame_done t q ts i, h') \<and> raw_holds t payload h0 h'"
  using assms
proof (induction "nat (ps_pkts_per_frame t) - i" arbitrary: i t h)
  case 0
  then show ?case by simp
next
  case (Suc m)
  define n where "n = nat (ps_pkts_per_frame t)"
  have i: "int i < ps_pkts_per_frame t" using Suc.prems(5) by simp
  note adv = advance_frame_pkt [OF Suc.prems(1-3) i Suc.prems(7,8), of ts payload "expected_pkt_size t"]
  have list: "[i..<n] = i # [Suc i..<n]"
    using Suc.prems(5) by (simp add: n_def upt_conv_Cons)
  show ?case
  proof (cases "int i = ps_pkts_per_frame t - 1")
    case True
    then have n: "n = Suc i" using Suc.prems(5) by (simp add: n_def)
    obtain h1 where "stream_process t (frame_pkt t q ts payload i) False h =
        Some (ps_frame_size t, frame_done t q ts i, h1, None)"
      and "raw_holds t (take ((i + 1) * nat (ps_pkt_size t)) payload) h0 h1"
      using assemble_step [OF Suc.prems(1-4) i Suc.prems(6-9) adv [unfolded if_P [OF True]]] by blast
    with last_packet_end [OF Suc.prems(1,4) True] n list show ?thesis
      by (simp flip: n_def)
  next
    case False
    define t' where "t' = frame_mid t q ts i"
    have gt: "geom t' = geom t" by (simp add: t'_def geom_frame_mid)
    obtain h1 where p1: "stream_process t (frame_pkt t q ts payload i) False h = Some (0, t', h1, None)"
      and raw1: "raw_holds t (take ((i + 1) * nat (ps_pkt_size t)) payload) h0 h1"
      using assemble_step [OF Suc.prems(1-4) i Suc.prems(6-9) adv [unfolded if_not_P [OF False]]]
      unfolding t'_def by blast
    have "\<exists>h'. run_stream t' (map (frame_pkt t' q ts payload) [Suc i..<nat (ps_pkts_per_frame t')]) h1 =
        Some (replicate (nat (ps_pkts_per_frame t') - Suc (Suc i)) 0 @ [ps_frame_size t'],
              frame_done t' q ts (Suc i), h') \<and> raw_holds t' payload h0 h'"
    proof (rule Suc.hyps(1))
      show "m = nat (ps_pkts_per_frame t') - Suc i" using Suc.hyps(2) by (simp add: t'_def frame_mid_def)
      show "wf_geom t'" using gt Suc.prems(1) geom_wf_geom by blast
      show "raw_holds t' (take (Suc i * nat (ps_pkt_size t')) payload) h0 h1"
        unfolding raw_holds_geom [OF gt] using raw1 by (simp add: t'_def frame_mid_def)
    qed (use Suc.prems i False in \<open>simp_all add: t'_def frame_mid_def\<close>)
    moreover have "frame_done t' q ts (Suc i) = frame_done t q ts i"
      by (simp add: t'_def frame_mid_def frame_done_def)
    ultimately have "\<exists>h'. run_stream t' (map (frame_pkt t q ts payload) [Suc i..<n]) h1 =
        Some (replicate (n - Suc (Suc i)) 0 @ [ps_frame_size t], frame_done t q ts i, h') \<and>
        raw_holds t payload h0 h'"
      unfolding frame_pkt_geom [OF gt] raw_holds_geom [OF gt]
      by (simp add: t'_def frame_mid_def n_def)
    moreover have "replicate (n - Suc i) (0 :: int) = 0 # replicate (n - Suc (Suc i)) 0"
      using i False by (simp add: n_def Suc_diff_Suc flip: replicate_Suc)
    ultimately show ?thesis
      using p1 list by (auto simp flip: n_def)
  qed
qed

text \<open>
  A stream that waits for the first packet of a frame numbered \<open>q\<close>: either it is out of sync, or
  it has just finished the frame before.
\<close>

definition at_frame_start :: "packet_stream \<Rightarrow> u8 \<Rightarrow> bool" where
  "at_frame_start strm q \<longleftrightarrow>
     (ps_synced strm \<longrightarrow> ps_seq strm = q \<and> ps_pkt_num strm = 0 \<and> ps_got_pkts strm = 0)"

text \<open>
  C1. Functional correctness of the assembly. The packets of one frame, sent in order to a
  fixed-length stream that waits for a frame, are assembled to exactly the bytes that were cut
  into packets: every packet but the last reports 0, the last reports frame_size, the frame lies
  at the start of the raw buffer and the rest of memory is unchanged, all packets are counted as
  valid, and the stream waits for the next frame.
\<close>

theorem stream_frame_assembly:
  assumes wf: "wf_stream strm h" and fixed: "\<not> ps_variable_length strm"
    and two: "2 \<le> ps_pkts_per_frame strm" and start: "at_frame_start strm q"
    and len: "int (length payload) = ps_frame_size strm"
  shows "\<exists>strm' h' a blk.
    run_stream strm (map (frame_pkt strm q ts payload) [0..<nat (ps_pkts_per_frame strm)]) h =
      Some (replicate (nat (ps_pkts_per_frame strm) - 1) 0 @ [ps_frame_size strm], strm', h') \<and>
    ps_raw_buf strm = Some a \<and> hp_blocks h a = Some blk \<and>
    h' = h\<lparr>hp_blocks := (hp_blocks h)(a \<mapsto> payload @ drop (length payload) blk)\<rparr> \<and>
    ps_valid_pkts strm' = ps_pkts_per_frame strm \<and> ps_timestamp strm' = ts \<and>
    wf_stream strm' h' \<and> ps_synced strm' \<and>
    at_frame_start strm' (q + of_nat (nat (ps_pkts_per_frame strm)))"
proof -
  define t where "t = (if ps_synced strm then strm else strm\<lparr>ps_synced := True, ps_seq := q,
      ps_pkt_num := 0, ps_valid_pkts := 0, ps_got_pkts := 0\<rparr>)"
  have g: "wf_geom strm" and b: "wf_buf strm h" using wf by (simp_all add: wf_stream_def)
  have gt: "geom t = geom strm" by (simp add: t_def geom_def)
  have st: "ps_synced t" "ps_seq t = q" "ps_pkt_num t = 0" "ps_got_pkts t = 0"
    using start by (auto simp: t_def at_frame_start_def)
  have tf: "ps_pkts_per_frame t = ps_pkts_per_frame strm" "ps_frame_size t = ps_frame_size strm"
    "ps_variable_length t = ps_variable_length strm" "ps_raw_buf t = ps_raw_buf strm"
    using gt by (simp_all add: geom_def)
  obtain a blk where a: "ps_raw_buf strm = Some a" "hp_blocks h a = Some blk"
    "ps_frame_size strm \<le> int (length blk)"
    using b by (auto simp: wf_buf_def mem_block_def split: option.splits)
  then have raw: "raw_holds t (take (0 * nat (ps_pkt_size t)) payload) h h"
    by (simp add: raw_holds_def tf blit_def fun_upd_idem)
  obtain h' where run: "run_stream t (map (frame_pkt t q ts payload) [0..<nat (ps_pkts_per_frame t)]) h =
      Some (replicate (nat (ps_pkts_per_frame t) - Suc 0) 0 @ [ps_frame_size t], frame_done t q ts 0, h')"
    and raw': "raw_holds t payload h h'"
    using assemble_run [of t payload 0 q h h ts] st raw two len fixed g geom_wf_geom [OF gt]
    by (auto simp: tf)
  have hd: "stream_process t (frame_pkt strm q ts payload 0) False h =
      stream_process strm (frame_pkt strm q ts payload 0) False h"
    using read_frame_pkt [of strm q ts payload 0] frame_pkt_data(2) [of strm q ts payload 0]
    by (simp add: stream_process_def stream_sync_def t_def pkt_flag_def sof_flag_def)
  have "[0..<nat (ps_pkts_per_frame strm)] = 0 # [1..<nat (ps_pkts_per_frame strm)]"
    using two by (simp add: upt_conv_Cons)
  with run hd have "run_stream strm (map (frame_pkt strm q ts payload) [0..<nat (ps_pkts_per_frame strm)]) h =
      Some (replicate (nat (ps_pkts_per_frame strm) - 1) 0 @ [ps_frame_size strm], frame_done t q ts 0, h')"
    unfolding frame_pkt_geom [OF gt] by (simp add: tf)
  moreover have mem: "h' = h\<lparr>hp_blocks := (hp_blocks h)(a \<mapsto> payload @ drop (length payload) blk)\<rparr>"
    using raw' a by (auto simp: raw_holds_def tf blit_def)
  moreover have "wf_stream (frame_done t q ts 0) h'"
  proof (rule geom_wf_stream [of _ strm])
    show "geom (frame_done t q ts 0) = geom strm"
      using gt by (simp add: frame_done_def geom_def)
    show "wf_buf strm h'" using a len by (auto simp: wf_buf_def mem)
  qed (simp_all add: g frame_done_def)
  ultimately show ?thesis
    using a st by (auto simp: frame_done_def at_frame_start_def tf)
qed

section \<open>Initialisation and release\<close>

lemma ceil_geom:
  fixes f k :: int
  assumes "0 < k" and "0 < f"
  defines "l \<equiv> (if f mod k = 0 then k else f mod k)"
  shows "0 < l" and "l \<le> k" and "0 < (f + k - 1) div k" and "((f + k - 1) div k - 1) * k + l = f"
proof -
  have m: "0 \<le> f mod k" "f mod k < k" using assms(1) by simp_all
  then show "0 < l" and "l \<le> k" by (auto simp: l_def)
  have eq: "f = (f div k) * k + f mod k" by simp
  have "(f + k - 1) div k = (if f mod k = 0 then f div k else f div k + 1)"
  proof (cases "f mod k = 0")
    case True
    then have "f + k - 1 = (k - 1) + (f div k) * k" using eq by simp
    then have "(f + k - 1) div k = f div k + (k - 1) div k"
      using assms(1) by (simp only: div_mult_self1)
    with True assms(1) show ?thesis by simp
  next
    case False
    have "f + k - 1 = (f mod k - 1) + (f div k + 1) * k" using eq by (simp add: algebra_simps)
    then have "(f + k - 1) div k = f div k + 1 + (f mod k - 1) div k"
      using assms(1) by (simp only: div_mult_self1)
    with False m show ?thesis by simp
  qed
  with eq show "((f + k - 1) div k - 1) * k + l = f"
    by (auto simp: l_def algebra_simps)
  show "0 < (f + k - 1) div k" using assms(1,2) by (simp add: pos_imp_zdiv_pos_iff)
qed

lemma sdiv_smod_pos:
  fixes a b :: int
  shows "0 \<le> a \<Longrightarrow> 0 < b \<Longrightarrow> a sdiv b = a div b" and "0 \<le> a \<Longrightarrow> 0 < b \<Longrightarrow> a smod b = a mod b"
  by (cases "a = 0"; simp add: signed_divide_int_def signed_modulo_int_def)+

text \<open>What the client must provide: a frame, and a user buffer that holds it if one is set.\<close>

definition init_ok :: "packet_stream \<Rightarrow> int \<Rightarrow> int \<Rightarrow> heap \<Rightarrow> bool" where
  "init_ok strm rlen plen h \<longleftrightarrow>
     0 < ps_pkt_size strm \<and> 0 < plen \<and> 0 \<le> rlen \<and>
     \<not> bit (ps_flag strm) 0 \<and> \<not> bit (ps_flag strm) 1 \<and> \<not> bit (ps_flag strm) 2 \<and> heap_wf h \<and>
     nat plen + nat rlen \<le> hp_avail h \<and>
     (ps_usr_buf strm \<noteq> None \<longrightarrow>
       (\<exists>blk. mem_block (ps_usr_buf strm) h = Some blk \<and> plen \<le> int (length blk)))"

lemma stream_init_wf_aux:
  assumes "init_ok strm rlen plen h"
  shows "\<exists>strm' h'. stream_init strm rlen plen h = Some (strm', h') \<and> wf_stream strm' h' \<and>
    \<not> ps_synced strm' \<and> ps_valid_frames strm' = 0 \<and>
    ps_frame_size strm' = (if rlen = 0 then plen else rlen) \<and>
    ps_pkts_per_frame strm' = (ps_frame_size strm' + ps_pkt_size strm - 1) div ps_pkt_size strm \<and>
    ps_split_bufs strm' = (rlen \<noteq> 0) \<and> ps_proc_buf strm' \<noteq> None"
proof -
  define f where "f = (if rlen = 0 then plen else rlen)"
  have pos: "0 < ps_pkt_size strm" "0 < f" using assms by (auto simp: init_ok_def f_def)
  note cg = ceil_geom [OF pos]
  have dm: "(f + ps_pkt_size strm - 1) sdiv ps_pkt_size strm = (f + ps_pkt_size strm - 1) div ps_pkt_size strm"
    "f smod ps_pkt_size strm = f mod ps_pkt_size strm"
    using pos by (simp_all add: sdiv_smod_pos)
  show ?thesis
    using assms cg dm pos
    by (auto simp: stream_init_def init_ok_def Let_def malloc_def wf_stream_def wf_geom_def wf_buf_def
        mem_block_def heap_wf_def f_def split: option.splits if_splits)
qed

text \<open>
  stream_init establishes the invariant: with a user buffer that holds a frame, or without
  one, the stream it leaves is well formed, out of sync, and its frame has rlen bytes (plen if
  rlen is 0) cut into as many packets as are needed.
\<close>

theorem stream_init_wf:
  assumes "init_ok strm rlen plen h"
  shows "\<exists>strm' h'. stream_init strm rlen plen h = Some (strm', h') \<and> wf_stream strm' h' \<and>
    \<not> ps_synced strm' \<and> ps_valid_frames strm' = 0 \<and>
    ps_frame_size strm' = (if rlen = 0 then plen else rlen) \<and>
    ps_pkts_per_frame strm' = (ps_frame_size strm' + ps_pkt_size strm - 1) div ps_pkt_size strm \<and>
    ps_split_bufs strm' = (rlen \<noteq> 0) \<and> ps_proc_buf strm' \<noteq> None"
  using assms by (rule stream_init_wf_aux)

text \<open>
  No leak and no double free: stopping the stream that stream_init set up gives back exactly
  the blocks it took. Afterwards the library holds no pointer to them.
\<close>

theorem stream_init_freebufs:
  assumes "init_ok strm rlen plen h" and "stream_init strm rlen plen h = Some (strm1, h1)"
  shows "\<exists>strm2 h2. stream_freebufs strm1 h1 = Some (strm2, h2) \<and>
    hp_blocks h2 = hp_blocks h \<and> hp_avail h2 = hp_avail h \<and>
    ps_raw_buf strm2 = None \<and> ps_proc_buf strm2 = None \<and> ps_lib_buf strm2 = None"
proof -
  have fresh: "hp_blocks h (hp_next h) = None" "hp_blocks h (Suc (hp_next h)) = None"
    using assms(1) by (auto simp: init_ok_def heap_wf_def)
  then have "(hp_blocks h)(hp_next h := None) = hp_blocks h"
    and "(hp_blocks h)(hp_next h := None, Suc (hp_next h) := None) = hp_blocks h"
    and "(hp_blocks h)(Suc (hp_next h) := None, hp_next h := None) = hp_blocks h"
    by (auto simp: fun_eq_iff)
  then show ?thesis
    using assms
    by (cases "ps_usr_buf strm = None"; cases "rlen = 0")
      (auto simp: stream_init_def stream_freebufs_def init_ok_def Let_def malloc_def mfree_def
        fun_upd_twist split: if_splits)
qed

text \<open>
  Replacing the frame buffer of a running stream: it is refused exactly when the stream would
  be left without any buffer, and otherwise the next frame is put into the new buffer (or into
  the internal one for NULL), the raw buffer following it when the two are not split.
\<close>

theorem stream_setbuf_running:
  assumes "ps_running strm" and "stream_setbuf strm pbuf = (res, strm')"
  shows "(res = -1 \<longleftrightarrow> pbuf = None \<and> ps_lib_buf strm = None) \<and> (res = -1 \<longrightarrow> strm' = strm) \<and>
    (res \<noteq> -1 \<longrightarrow> res = 0 \<and> ps_usr_buf strm' = pbuf \<and>
       ps_proc_buf strm' = (if pbuf = None then ps_lib_buf strm else pbuf) \<and> ps_proc_buf strm' \<noteq> None \<and>
       ps_raw_buf strm' = (if ps_split_bufs strm then ps_raw_buf strm else ps_proc_buf strm') \<and>
       ps_lib_buf strm' = ps_lib_buf strm)"
  using assms by (auto simp: stream_setbuf_def Let_def split: if_splits)

section \<open>Witnesses\<close>

text \<open>A stream of frames of three bytes in packets of two, with its buffer at address 0.\<close>

definition small_stream :: packet_stream where
  "small_stream = \<lparr>ps_running = True, ps_flag = 0x70, ps_synced = False, ps_seq = 0, ps_got_pkts = 0,
     ps_pkt_num = 0, ps_pkts_per_frame = 2, ps_pkt_size = 2, ps_frame_size = 3, ps_last_pkt_size = 1,
     ps_valid_pkts = 0, ps_lost_pkts = 0, ps_valid_frames = 0, ps_variable_length = False,
     ps_last_timestamp = 0, ps_timestamp = 0, ps_split_bufs = True, ps_lib_buf = None,
     ps_usr_buf = None, ps_raw_buf = Some 0, ps_proc_buf = None\<rparr>"

definition small_heap :: heap where
  "small_heap = \<lparr>hp_blocks = [0 \<mapsto> [0, 0, 0, 9]], hp_next = 1, hp_avail = 100, hp_fill = 0\<rparr>"

lemma small_stream_wf: "wf_stream small_stream small_heap"
  by (simp add: wf_stream_def wf_geom_def wf_buf_def small_stream_def small_heap_def)

theorem stream_process_safe_witness:
  "\<exists>r strm' h' c. stream_process small_stream [1, 2, 3] False small_heap = Some (r, strm', h', c) \<and>
    wf_stream strm' h' \<and> 0 \<le> r \<and> r \<le> 3"
  using stream_process_safe [OF small_stream_wf, of "[1, 2, 3]" False]
  by (auto simp: small_stream_def)

theorem stream_frame_assembly_witness:
  "\<exists>strm' h'. run_stream small_stream
     [[0x52, 0x42, 0, 0x71, 0, 7, 0, 0, 5, 0, 0, 0, 10, 20],
      [0x52, 0x42, 0, 0x75, 0, 8, 0, 0, 5, 0, 0, 0, 30]] small_heap = Some ([0, 3], strm', h') \<and>
     hp_blocks h' 0 = Some [10, 20, 30, 9] \<and> ps_valid_pkts strm' = 2"
proof -
  have pk: "map (frame_pkt small_stream 7 5 [10, 20, 30]) [0..<2] =
      [[0x52, 0x42, 0, 0x71, 0, 7, 0, 0, 5, 0, 0, 0, 10, 20],
       [0x52, 0x42, 0, 0x75, 0, 8, 0, 0, 5, 0, 0, 0, 30]]"
    by (simp add: frame_pkt_def pkt_flag_def sof_flag_def eof_flag_def small_stream_def le32_def upt_rec)
  have "replicate (nat (ps_pkts_per_frame small_stream) - 1) 0 @ [ps_frame_size small_stream] = [0, 3]"
    by (simp add: small_stream_def)
  with stream_frame_assembly [OF small_stream_wf, of 7 "[10, 20, 30]" 5] pk show ?thesis
    by (auto simp: small_stream_def small_heap_def at_frame_start_def)
qed

theorem stream_init_wf_witness:
  "\<exists>strm' h'. stream_init (small_stream\<lparr>ps_pkt_size := 2\<rparr>) 3 6 small_heap = Some (strm', h') \<and>
    wf_stream strm' h' \<and> ps_pkts_per_frame strm' = 2"
proof -
  have "init_ok (small_stream\<lparr>ps_pkt_size := 2\<rparr>) 3 6 small_heap"
    by (simp add: init_ok_def small_stream_def small_heap_def heap_wf_def)
  from stream_init_wf [OF this] show ?thesis by (auto simp: small_stream_def)
qed

theorem stream_init_freebufs_witness:
  "\<exists>strm1 h1 strm2 h2. stream_init small_stream 3 6 small_heap = Some (strm1, h1) \<and>
    stream_freebufs strm1 h1 = Some (strm2, h2) \<and> hp_blocks h2 = hp_blocks small_heap \<and> hp_avail h2 = 100"
proof -
  have ok: "init_ok small_stream 3 6 small_heap"
    by (simp add: init_ok_def small_stream_def small_heap_def heap_wf_def)
  obtain strm1 h1 where i: "stream_init small_stream 3 6 small_heap = Some (strm1, h1)"
    by (simp add: stream_init_def small_stream_def small_heap_def malloc_def Let_def)
  obtain strm2 h2 where "stream_freebufs strm1 h1 = Some (strm2, h2)"
    and "hp_blocks h2 = hp_blocks small_heap" and "hp_avail h2 = hp_avail small_heap"
    using stream_init_freebufs [OF ok i] by blast
  moreover have "hp_avail small_heap = 100" by (simp add: small_heap_def)
  ultimately show ?thesis using i by metis
qed

theorem stream_setbuf_running_witness:
  "\<exists>strm'. stream_setbuf small_stream (Some 4) = (0, strm') \<and> ps_proc_buf strm' = Some 4"
proof -
  have r: "ps_running small_stream" by (simp add: small_stream_def)
  obtain strm' where e: "stream_setbuf small_stream (Some 4) = (0, strm')"
    by (simp add: stream_setbuf_def small_stream_def Let_def)
  have "ps_proc_buf strm' = Some 4" using stream_setbuf_running [OF r e] by simp
  with e show ?thesis by blast
qed

end
