(* ===== verification/Color.thy ===== *)
theory Color
  imports Types
begin

text \<open>
  The colour conversions of src/cameras.c: UYVY to RGB and the demosaicing of the Bayer image.
  Both work on a raw buffer of bytes and a frame of a given width and height.

  The Bayer conversion is written, as in the source, with two 32-bit shift buffers and three line
  pointers; it is shown to compute for every pixel the average of its neighbours that the comment
  of the source describes, with the border mirrored.
\<close>

section \<open>UYVY\<close>

definition CLAMP :: "int \<Rightarrow> int" where
  "CLAMP x = (let x = (if x < 0 then 0 else x) in if x > 255 then 255 else x)"

text \<open>The three channels of one pixel, with C's division towards zero.\<close>

definition yuv_r :: "int \<Rightarrow> int \<Rightarrow> int \<Rightarrow> int" where
  "yuv_r y u v = ((y - 16) * 1164) sdiv 1000 + ((v - 128) * 1596) sdiv 1000"

definition yuv_g :: "int \<Rightarrow> int \<Rightarrow> int \<Rightarrow> int" where
  "yuv_g y u v =
     ((y - 16) * 1164) sdiv 1000 - ((v - 128) * 813) sdiv 1000 - ((u - 128) * 391) sdiv 1000"

definition yuv_b :: "int \<Rightarrow> int \<Rightarrow> int \<Rightarrow> int" where
  "yuv_b y u v = ((y - 16) * 1164) sdiv 1000 + ((u - 128) * 2018) sdiv 1000"

definition yuv_pixel :: "u8 \<Rightarrow> u8 \<Rightarrow> u8 \<Rightarrow> u8 list" where
  "yuv_pixel y u v =
     [word_of_int (CLAMP (yuv_r (uint y) (uint u) (uint v))),
      word_of_int (CLAMP (yuv_g (uint y) (uint u) (uint v))),
      word_of_int (CLAMP (yuv_b (uint y) (uint u) (uint v)))]"

text \<open>The loop body for the pixel pair that starts at pixel \<open>i\<close>.\<close>

definition uyvy_pair :: "u8 list \<Rightarrow> nat \<Rightarrow> u8 list \<Rightarrow> u8 list option" where
  "uyvy_pair raw_buf i proc_buf =
     (if 2 * i + 3 < length raw_buf \<and> 3 * i + 5 < length proc_buf
      then let u = raw_buf ! (2 * i); y1 = raw_buf ! (2 * i + 1);
               v = raw_buf ! (2 * i + 2); y2 = raw_buf ! (2 * i + 3)
           in Some (blit (3 * i) (yuv_pixel y1 u v @ yuv_pixel y2 u v) proc_buf)
      else None)"

definition convert_uyvy_to_rgb :: "nat \<Rightarrow> nat \<Rightarrow> u8 list \<Rightarrow> u8 list \<Rightarrow> u8 list option" where
  "convert_uyvy_to_rgb width height raw_buf proc_buf =
     fold_opt (\<lambda>y. fold_opt (\<lambda>k. uyvy_pair raw_buf (width * y + 2 * k)) [0..<(width + 1) div 2])
       [0..<height] proc_buf"

section \<open>Bayer\<close>

definition avg2 :: "u8 \<Rightarrow> u8 \<Rightarrow> u8" where
  "avg2 a b = word_of_nat ((unat a + unat b) div 2)"

text \<open>The sum of two bytes, as the int it is promoted to.\<close>

definition sum2 :: "u8 \<Rightarrow> u8 \<Rightarrow> u32" where
  "sum2 a b = ucast a + ucast b"

abbreviation byte0 :: "u32 \<Rightarrow> u8" where "byte0 w \<equiv> ucast w"
abbreviation byte1 :: "u32 \<Rightarrow> u8" where "byte1 w \<equiv> ucast (drop_bit 8 w)"
abbreviation byte2 :: "u32 \<Rightarrow> u8" where "byte2 w \<equiv> ucast (drop_bit 16 w)"

text \<open>The four configurations of the inner loop, and those of the right column.\<close>

definition bayer_rgb :: "bool \<Rightarrow> bool \<Rightarrow> u32 \<Rightarrow> u32 \<Rightarrow> u8 list" where
  "bayer_rgb yOdd xOdd hVals vSums =
     (let hSum = avg2 (byte2 hVals) (byte0 hVals)
      in if \<not> yOdd
         then if \<not> xOdd then [hSum, byte1 hVals, byte1 vSums]
              else [byte1 hVals, avg2 hSum (byte1 vSums), avg2 (byte2 vSums) (byte0 vSums)]
         else if \<not> xOdd
              then [avg2 (byte2 vSums) (byte0 vSums), avg2 hSum (byte1 vSums), byte1 hVals]
              else [byte1 vSums, byte1 hVals, hSum])"

definition bayer_rgb_right :: "bool \<Rightarrow> bool \<Rightarrow> u32 \<Rightarrow> u32 \<Rightarrow> u8 list" where
  "bayer_rgb_right yOdd xOdd hVals vSums =
     (let hSum = byte0 hVals
      in if \<not> yOdd
         then if \<not> xOdd then [hSum, byte1 hVals, byte1 vSums]
              else [byte1 hVals, avg2 hSum (byte1 vSums), byte0 vSums]
         else if \<not> xOdd then [byte0 vSums, avg2 hSum (byte1 vSums), byte1 hVals]
              else [byte1 vSums, byte1 hVals, hSum])"

text \<open>
  One row. \<open>cur\<close>, \<open>prev\<close> and \<open>next\<close> are the offsets of the three line pointers at the start of
  the row; in iteration \<open>x\<close> they have advanced by \<open>x + 1\<close>. The state of the inner loop is the
  pair of shift buffers and the bytes written through dst.
\<close>

definition bayer_init :: "u8 list \<Rightarrow> nat \<Rightarrow> nat \<Rightarrow> nat \<Rightarrow> u32 \<times> u32" where
  "bayer_init raw cur prev next =
     (push_bit 8 (ucast (raw ! cur)) OR push_bit 16 (ucast (raw ! (cur + 1))),
      (push_bit 7 (sum2 (raw ! prev) (raw ! next)) AND 0xFF00) OR
      (push_bit 15 (sum2 (raw ! (prev + 1)) (raw ! (next + 1))) AND 0xFF0000))"

definition bayer_col ::
    "u8 list \<Rightarrow> bool \<Rightarrow> nat \<Rightarrow> nat \<Rightarrow> nat \<Rightarrow> nat \<Rightarrow> u32 \<times> u32 \<times> u8 list \<Rightarrow> u32 \<times> u32 \<times> u8 list" where
  "bayer_col raw yOdd cur prev next x st =
     (let (hVals, vSums, dst) = st;
          hVals = hVals OR ucast (raw ! (cur + 1 + x));
          vSums = vSums OR drop_bit 1 (sum2 (raw ! (prev + 1 + x)) (raw ! (next + 1 + x)));
          dst = dst @ bayer_rgb yOdd (odd x) hVals vSums
      in (push_bit 8 hVals, push_bit 8 vSums, dst))"

definition bayer_row :: "nat \<Rightarrow> u8 list \<Rightarrow> bool \<Rightarrow> nat \<Rightarrow> nat \<Rightarrow> nat \<Rightarrow> u8 list" where
  "bayer_row width raw yOdd cur prev next =
     (let (hVals, vSums) = bayer_init raw cur prev next;
          (hVals, vSums, dst) =
            fold (bayer_col raw yOdd cur prev next) [0..<width - 1] (hVals, vSums, []);
          hVals = hVals OR ucast (byte2 hVals);
          vSums = vSums OR ucast (byte2 vSums)
      in dst @ bayer_rgb_right yOdd (odd (width - 1)) hVals vSums)"

text \<open>
  The rows. The state is curLine, prevLine, nextLine and the output; every row advances the three
  pointers by the width. A row reads \<open>width\<close> bytes through every pointer, and at least the two
  that initialise the shift buffers; if that leaves the raw buffer the result is \<open>None\<close>.
\<close>

definition bayer_step ::
    "nat \<Rightarrow> nat \<Rightarrow> u8 list \<Rightarrow> nat \<Rightarrow> nat \<times> nat \<times> nat \<times> u8 list \<Rightarrow> (nat \<times> nat \<times> nat \<times> u8 list) option" where
  "bayer_step width height raw y st =
     (let (cur, prev, next, dst) = st;
          (prev, next) = (if 0 < y \<and> y < height - 1 then (cur - width, next)
                          else if y = 0 then (next, next)
                          else (prev, prev))
      in if cur + max width 2 \<le> length raw \<and> prev + max width 2 \<le> length raw
            \<and> next + max width 2 \<le> length raw
         then Some (cur + width, prev + width, next + width,
                    dst @ bayer_row width raw (odd y) cur prev next)
         else None)"

definition convert_bayer_to_rgb :: "nat \<Rightarrow> nat \<Rightarrow> u8 list \<Rightarrow> u8 list option" where
  "convert_bayer_to_rgb width height raw_buf =
     map_option (\<lambda>(cur, prev, next, dst). dst)
       (fold_opt (bayer_step width height raw_buf) [0..<height] (0, 0, width, []))"

section \<open>The reference demosaicing\<close>

text \<open>Rows and columns outside the image are the mirrored second ones.\<close>

definition before :: "nat \<Rightarrow> nat" where "before i = (if i = 0 then 1 else i - 1)"
definition after :: "nat \<Rightarrow> nat \<Rightarrow> nat" where "after n i = (if i = n - 1 then n - 2 else i + 1)"

definition px :: "nat \<Rightarrow> u8 list \<Rightarrow> nat \<Rightarrow> nat \<Rightarrow> u8" where
  "px w raw y x = raw ! (w * y + x)"

definition vavg :: "nat \<Rightarrow> nat \<Rightarrow> u8 list \<Rightarrow> nat \<Rightarrow> nat \<Rightarrow> u8" where
  "vavg w h raw y x = avg2 (px w raw (before y) x) (px w raw (after h y) x)"

definition havg :: "nat \<Rightarrow> u8 list \<Rightarrow> nat \<Rightarrow> nat \<Rightarrow> u8" where
  "havg w raw y x = avg2 (px w raw y (before x)) (px w raw y (after w x))"

text \<open>
  Green where the pixel is green; else the average of the row and the column average. The colour
  of the row is averaged in the row, that of the other rows in the column, and the one of the
  opposite diagonal over the four corners.
\<close>

definition demosaic :: "nat \<Rightarrow> nat \<Rightarrow> u8 list \<Rightarrow> nat \<Rightarrow> nat \<Rightarrow> u8 list" where
  "demosaic w h raw y x =
     (let c = px w raw y x; hs = havg w raw y x; vs = vavg w h raw y x;
          corners = avg2 (vavg w h raw y (before x)) (vavg w h raw y (after w x))
      in if even y \<and> even x then [hs, c, vs]
         else if even y then [c, avg2 hs vs, corners]
         else if even x then [corners, avg2 hs vs, c]
         else [vs, c, hs])"

section \<open>Lemmas on UYVY\<close>

lemma CLAMP_range: "0 \<le> CLAMP x" "CLAMP x \<le> 255"
  by (simp_all add: CLAMP_def Let_def)

lemma length_yuv_pixel [simp]: "length (yuv_pixel y u v) = 3"
  by (simp add: yuv_pixel_def)

text \<open>What pixel \<open>p\<close> becomes: its own luma, and the chroma of the pair it belongs to.\<close>

definition uyvy_rgb :: "u8 list \<Rightarrow> nat \<Rightarrow> u8 list" where
  "uyvy_rgb raw p = yuv_pixel (raw ! (2 * p + 1)) (raw ! (4 * (p div 2))) (raw ! (4 * (p div 2) + 2))"

definition rgb_upto :: "u8 list \<Rightarrow> nat \<Rightarrow> u8 list \<Rightarrow> u8 list \<Rightarrow> bool" where
  "rgb_upto raw n proc0 proc \<longleftrightarrow>
     3 * n \<le> length proc0 \<and> proc = concat (map (uyvy_rgb raw) [0..<n]) @ drop (3 * n) proc0"

lemma length_uyvy_prefix: "length (concat (map (uyvy_rgb raw) [0..<n])) = 3 * n"
  by (induction n) (simp_all add: uyvy_rgb_def)

lemma uyvy_pair_step:
  assumes "rgb_upto raw i proc0 proc" and "even i" and "2 * i + 3 < length raw"
    and "3 * i + 6 \<le> length proc0"
  shows "\<exists>proc'. uyvy_pair raw i proc = Some proc' \<and> rgb_upto raw (i + 2) proc0 proc'"
proof -
  have p: "proc = concat (map (uyvy_rgb raw) [0..<i]) @ drop (3 * i) proc0"
    using assms(1) by (simp add: rgb_upto_def)
  obtain k where k: "i = 2 * k" using assms(2) by (elim evenE)
  have two: "uyvy_rgb raw i = yuv_pixel (raw ! (2 * i + 1)) (raw ! (2 * i)) (raw ! (2 * i + 2))"
    "uyvy_rgb raw (Suc i) = yuv_pixel (raw ! (2 * i + 3)) (raw ! (2 * i)) (raw ! (2 * i + 2))"
  proof -
    have e: "4 * (i div 2) = 2 * i" "4 * (Suc i div 2) = 2 * i" "2 * Suc i + 1 = 2 * i + 3"
      by (simp_all add: k)
    show "uyvy_rgb raw i = yuv_pixel (raw ! (2 * i + 1)) (raw ! (2 * i)) (raw ! (2 * i + 2))"
      and "uyvy_rgb raw (Suc i) = yuv_pixel (raw ! (2 * i + 3)) (raw ! (2 * i)) (raw ! (2 * i + 2))"
      by (simp_all only: uyvy_rgb_def e)
  qed
  have len: "length proc = length proc0"
    using assms(1) by (simp add: p length_uyvy_prefix rgb_upto_def)
  have "blit (3 * i) (uyvy_rgb raw i @ uyvy_rgb raw (Suc i)) proc =
      concat (map (uyvy_rgb raw) [0..<i + 2]) @ drop (3 * (i + 2)) proc0"
    by (simp add: blit_def p length_uyvy_prefix uyvy_rgb_def algebra_simps)
  with assms two len show ?thesis by (simp add: uyvy_pair_def rgb_upto_def Let_def)
qed

lemma convert_uyvy_to_rgb_correct_aux:
  assumes "even width" and "length raw = 2 * (width * height)" and "3 * (width * height) \<le> length proc"
  shows "convert_uyvy_to_rgb width height raw proc =
    Some (concat (map (uyvy_rgb raw) [0..<width * height]) @ drop (3 * (width * height)) proc)"
proof -
  obtain m where m: "width = 2 * m" using assms(1) by (elim evenE)
  have row: "\<exists>p2. fold_opt (\<lambda>k. uyvy_pair raw (width * y + 2 * k)) [0..<(width + 1) div 2] p1 = Some p2
      \<and> rgb_upto raw (width * Suc y) proc p2"
    if y: "y < height" and p1: "rgb_upto raw (width * y) proc p1" for y p1
  proof -
    have b: "width * Suc y \<le> width * height" using y by (intro mult_le_mono) simp_all
    have "\<exists>p2. fold_opt (\<lambda>k. uyvy_pair raw (width * y + 2 * k)) [0..<m] p1 = Some p2
        \<and> rgb_upto raw (width * y + 2 * m) proc p2"
    proof (rule fold_opt_upt [where I = "\<lambda>k. rgb_upto raw (width * y + 2 * k) proc"])
      fix k p assume k: "k < m" and I: "rgb_upto raw (width * y + 2 * k) proc p"
      have "width * y + 2 * k + 2 \<le> width * height" using k b m by simp
      then show "\<exists>p'. uyvy_pair raw (width * y + 2 * k) p = Some p' \<and>
          rgb_upto raw (width * y + 2 * Suc k) proc p'"
        using uyvy_pair_step [OF I] assms by simp
    qed (use p1 in simp_all)
    with m show ?thesis by (simp add: algebra_simps)
  qed
  have "\<exists>p. convert_uyvy_to_rgb width height raw proc = Some p \<and> rgb_upto raw (width * height) proc p"
    unfolding convert_uyvy_to_rgb_def
    by (rule fold_opt_upt [where I = "\<lambda>y. rgb_upto raw (width * y) proc"])
      (use row in \<open>simp_all add: rgb_upto_def\<close>)
  with assms(3) show ?thesis by (auto simp: rgb_upto_def)
qed

text \<open>
  The UYVY conversion. For an even width, a raw buffer of two bytes per pixel and a target of
  at least three, the conversion stays inside both buffers and pixel \<open>p\<close> of the result is
  computed from its own luma and the chroma of its pair, whatever the target held before.
\<close>

theorem convert_uyvy_to_rgb_correct:
  assumes "even width" and "length raw = 2 * (width * height)" and "3 * (width * height) \<le> length proc"
  shows "convert_uyvy_to_rgb width height raw proc =
    Some (concat (map (uyvy_rgb raw) [0..<width * height]) @ drop (3 * (width * height)) proc)"
  using assms by (rule convert_uyvy_to_rgb_correct_aux)

section \<open>Lemmas on the shift buffers\<close>

lemma or_low_byte:
  assumes "byte0 w = 0"
  shows "byte0 (w OR ucast b) = b" and "byte1 (w OR ucast b) = byte1 w"
    and "byte2 (w OR ucast b) = byte2 w"
proof -
  have low: "\<not> bit w n" if "n < 8" for n
  proof -
    have "bit (byte0 w) n = bit w n" using that by (simp add: bit_simps)
    with assms show ?thesis by simp
  qed
  have high: "\<not> bit b n" if "8 \<le> n" for n
    using bit_imp_le_length [of b n] that by auto
  show "byte0 (w OR ucast b) = b"
    by (rule bit_word_eqI) (auto simp: bit_simps low)
  show "byte1 (w OR ucast b) = byte1 w" and "byte2 (w OR ucast b) = byte2 w"
    by (rule bit_word_eqI, auto simp: bit_simps high)+
qed

lemma shift_bytes:
  "byte0 (push_bit 8 w) = 0" "byte1 (push_bit 8 w) = byte0 w" "byte2 (push_bit 8 w) = byte1 w"
  by (rule bit_word_eqI; simp add: bit_simps)+

lemma init_bytes:
  "byte0 (push_bit 8 (ucast a) OR push_bit 16 (ucast b) :: u32) = 0"
  "byte1 (push_bit 8 (ucast a) OR push_bit 16 (ucast b) :: u32) = a"
  "byte2 (push_bit 8 (ucast a) OR push_bit 16 (ucast b) :: u32) = b"
proof -
  have high: "\<not> bit (v :: u8) n" if "8 \<le> n" for v n
    using bit_imp_le_length [of v n] that by auto
  show "byte0 (push_bit 8 (ucast a) OR push_bit 16 (ucast b) :: u32) = 0"
    and "byte1 (push_bit 8 (ucast a) OR push_bit 16 (ucast b) :: u32) = a"
    and "byte2 (push_bit 8 (ucast a) OR push_bit 16 (ucast b) :: u32) = b"
    by (rule bit_word_eqI, auto simp: bit_simps high)+
qed

lemma unat_u8: "unat (a :: u8) < 256"
  using unsigned_less [of a] by simp

lemma unat_ucast_u32: "unat (ucast (a :: u8) :: u32) = unat a"
  by (simp add: unsigned_ucast_eq take_bit_nat_eq_self [OF order.strict_trans2 [OF unat_u8]])

lemma unat_sum2: "unat (sum2 a b) = unat a + unat b"
proof -
  have "unat a < 256" "unat b < 256" by (rule unat_u8)+
  then show ?thesis by (simp add: sum2_def unat_word_ariths unat_ucast_u32)
qed

lemma sum2_half: "drop_bit 1 (sum2 a b) = ucast (avg2 a b)"
proof -
  have "unat a < 256" "unat b < 256" by (rule unat_u8)+
  then have lt: "(unat a + unat b) div 2 < 256" by simp
  have "unat (drop_bit 1 (sum2 a b)) = drop_bit 1 (unat (sum2 a b))"
    by (rule unat_drop_bit_eq)
  then have "unat (drop_bit 1 (sum2 a b)) = (unat a + unat b) div 2"
    by (simp only: unat_sum2 drop_bit_eq_div power_one_right)
  moreover have "unat (ucast (avg2 a b) :: u32) = (unat a + unat b) div 2"
    using lt by (simp add: avg2_def unat_ucast_u32 unat_of_nat)
  ultimately show ?thesis by (metis word_unat_eq_iff)
qed

lemma sum2_init:
  "(push_bit 7 (sum2 a b) AND 0xFF00) = push_bit 8 (ucast (avg2 a b))"
  "(push_bit 15 (sum2 a b) AND 0xFF0000) = push_bit 16 (ucast (avg2 a b))"
proof -
  have m: "(0xFF00 :: u32) = push_bit 8 (mask 8)" "(0xFF0000 :: u32) = push_bit 16 (mask 8)"
    by (simp_all add: mask_eq_exp_minus_1)
  have b: "bit (ucast (avg2 a b) :: u32) n \<longleftrightarrow> n < 8 \<and> bit (sum2 a b) (Suc n)" for n
  proof -
    have "bit (ucast (avg2 a b) :: u32) n \<longrightarrow> n < 8"
      using bit_imp_le_length [of "avg2 a b" n] by (auto simp: bit_simps)
    moreover have "bit (ucast (avg2 a b) :: u32) n = bit (sum2 a b) (Suc n)"
      by (simp add: bit_simps flip: sum2_half)
    ultimately show ?thesis by blast
  qed
  have e: "Suc (n - 8) = n - 7" if "8 \<le> n" for n using that by simp
  have e': "Suc (n - 16) = n - 15" if "16 \<le> n" for n using that by simp
  show "(push_bit 7 (sum2 a b) AND 0xFF00) = push_bit 8 (ucast (avg2 a b))"
    unfolding m by (rule bit_word_eqI) (auto simp: bit_push_bit_iff bit_and_iff bit_mask_iff b e)
  show "(push_bit 15 (sum2 a b) AND 0xFF0000) = push_bit 16 (ucast (avg2 a b))"
    unfolding m by (rule bit_word_eqI) (auto simp: bit_push_bit_iff bit_and_iff bit_mask_iff b e')
qed

lemma avg2_same [simp]: "avg2 a a = a"
  by (simp add: avg2_def)

section \<open>Lemmas on the rows\<close>

text \<open>What the shift buffers hold before column \<open>x\<close> is read.\<close>

definition shift_inv :: "nat \<Rightarrow> nat \<Rightarrow> u8 list \<Rightarrow> nat \<Rightarrow> nat \<Rightarrow> u32 \<Rightarrow> u32 \<Rightarrow> bool" where
  "shift_inv w h raw y x hv vs \<longleftrightarrow>
     byte0 hv = 0 \<and> byte1 hv = px w raw y x \<and> byte2 hv = px w raw y (before x) \<and>
     byte0 vs = 0 \<and> byte1 vs = vavg w h raw y x \<and> byte2 vs = vavg w h raw y (before x)"

lemma bayer_init_inv:
  assumes "bayer_init raw (w * y) (w * before y) (w * after h y) = (hv, vs)"
  shows "shift_inv w h raw y 0 hv vs"
proof -
  have b: "before 0 = 1" by (simp add: before_def)
  have hv: "hv = push_bit 8 (ucast (px w raw y 0)) OR push_bit 16 (ucast (px w raw y 1))"
    and vs: "vs = push_bit 8 (ucast (vavg w h raw y 0)) OR push_bit 16 (ucast (vavg w h raw y 1))"
    using assms by (auto simp: bayer_init_def sum2_init px_def vavg_def)
  show ?thesis unfolding shift_inv_def b hv vs by (simp only: init_bytes simp_thms)
qed

lemma bayer_col_inv:
  assumes inv: "shift_inv w h raw y x hv vs" and x: "x < w - 1"
    and step: "bayer_col raw (odd y) (w * y) (w * before y) (w * after h y) x (hv, vs, dst)
      = (hv', vs', dst')"
  shows "shift_inv w h raw y (Suc x) hv' vs'" and "dst' = dst @ demosaic w h raw y x"
proof -
  let ?h = "hv OR ucast (px w raw y (Suc x))" and ?v = "vs OR ucast (vavg w h raw y (Suc x))"
  have aft: "after w x = Suc x" and bef: "before (Suc x) = x"
    using x by (auto simp: after_def before_def)
  have res: "hv' = push_bit 8 ?h" "vs' = push_bit 8 ?v"
    "dst' = dst @ bayer_rgb (odd y) (odd x) ?h ?v"
    using step by (auto simp: bayer_col_def Let_def sum2_half [unfolded One_nat_def] px_def vavg_def)
  have z: "byte0 hv = 0" "byte0 vs = 0" using inv by (simp_all add: shift_inv_def)
  have b: "byte0 ?h = px w raw y (Suc x)" "byte1 ?h = px w raw y x" "byte2 ?h = px w raw y (before x)"
    "byte0 ?v = vavg w h raw y (Suc x)" "byte1 ?v = vavg w h raw y x"
    "byte2 ?v = vavg w h raw y (before x)"
    using inv by (simp_all only: or_low_byte [OF z(1)] or_low_byte [OF z(2)] shift_inv_def)
  show "shift_inv w h raw y (Suc x) hv' vs'"
    by (simp only: shift_inv_def res shift_bytes b bef simp_thms)
  show "dst' = dst @ demosaic w h raw y x"
    by (simp only: res bayer_rgb_def demosaic_def Let_def b havg_def aft)
      (simp split: if_splits)
qed

lemma bayer_right:
  assumes inv: "shift_inv w h raw y (w - 1) hv vs" and w: "2 \<le> w"
  shows "bayer_rgb_right (odd y) (odd (w - 1)) (hv OR ucast (byte2 hv)) (vs OR ucast (byte2 vs))
    = demosaic w h raw y (w - 1)"
proof -
  have aft: "after w (w - 1) = before (w - 1)"
    using w by (auto simp: after_def before_def)
  have z: "byte0 hv = 0" "byte0 vs = 0" using inv by (simp_all add: shift_inv_def)
  have i: "byte1 hv = px w raw y (w - 1)" "byte2 hv = px w raw y (before (w - 1))"
    "byte1 vs = vavg w h raw y (w - 1)" "byte2 vs = vavg w h raw y (before (w - 1))"
    using inv by (simp_all only: shift_inv_def)
  show ?thesis
    by (simp only: bayer_rgb_right_def demosaic_def Let_def or_low_byte [OF z(1)]
        or_low_byte [OF z(2)] i havg_def aft avg2_same) (simp split: if_splits)
qed

lemma bayer_row_correct:
  assumes w: "2 \<le> w"
  shows "bayer_row w raw (odd y) (w * y) (w * before y) (w * after h y) =
    concat (map (demosaic w h raw y) [0..<w])"
proof -
  let ?col = "bayer_col raw (odd y) (w * y) (w * before y) (w * after h y)"
  obtain hv0 vs0 where i: "bayer_init raw (w * y) (w * before y) (w * after h y) = (hv0, vs0)"
    by (cases "bayer_init raw (w * y) (w * before y) (w * after h y)")
  have "\<exists>hv vs. fold ?col [0..<k] (hv0, vs0, []) = (hv, vs, concat (map (demosaic w h raw y) [0..<k]))
      \<and> shift_inv w h raw y k hv vs" if "k \<le> w - 1" for k
    using that
  proof (induction k)
    case 0
    then show ?case using bayer_init_inv [OF i] by simp
  next
    case (Suc k)
    then obtain hv vs where f: "fold ?col [0..<k] (hv0, vs0, []) =
        (hv, vs, concat (map (demosaic w h raw y) [0..<k]))" and inv: "shift_inv w h raw y k hv vs"
      by auto
    obtain hv' vs' d' where
      c: "?col k (hv, vs, concat (map (demosaic w h raw y) [0..<k])) = (hv', vs', d')"
      by (cases "?col k (hv, vs, concat (map (demosaic w h raw y) [0..<k]))")
    from bayer_col_inv [OF inv _ c] Suc.prems f c show ?case by simp
  qed
  then obtain hv vs where f: "fold ?col [0..<w - 1] (hv0, vs0, []) =
      (hv, vs, concat (map (demosaic w h raw y) [0..<w - 1]))" and inv: "shift_inv w h raw y (w - 1) hv vs"
    by blast
  have up: "[0..<w] = [0..<w - 1] @ [w - 1]"
    using w by (metis Suc_diff_1 less_le_trans pos2 upt_Suc_append zero_le)
  show ?thesis
    by (simp only: bayer_row_def i f Let_def split_conv bayer_right [OF inv w])
      (simp add: up)
qed

definition demosaic_rows :: "nat \<Rightarrow> nat \<Rightarrow> u8 list \<Rightarrow> nat \<Rightarrow> u8 list" where
  "demosaic_rows w h raw n = concat (map (\<lambda>y. concat (map (demosaic w h raw y) [0..<w])) [0..<n])"

text \<open>The line pointers before row \<open>y\<close>.\<close>

definition lines_inv :: "nat \<Rightarrow> nat \<Rightarrow> u8 list \<Rightarrow> nat \<Rightarrow> nat \<times> nat \<times> nat \<times> u8 list \<Rightarrow> bool" where
  "lines_inv w h raw y st \<longleftrightarrow>
     (\<exists>p. st = (w * y, p, w * Suc y, demosaic_rows w h raw y) \<and> (2 \<le> y \<longrightarrow> p = w * (y - 1))
       \<or> (y = h \<and> (\<exists>c q n. st = (c, q, n, demosaic_rows w h raw h))))"

lemma bayer_step_inv:
  assumes "2 \<le> w" and "3 \<le> h" and "length raw = w * h" and "y < h" and "lines_inv w h raw y st"
  shows "\<exists>st'. bayer_step w h raw y st = Some st' \<and> lines_inv w h raw (Suc y) st'"
proof -
  from assms obtain p where st: "st = (w * y, p, w * Suc y, demosaic_rows w h raw y)"
    and p: "2 \<le> y \<longrightarrow> p = w * (y - 1)"
    by (auto simp: lines_inv_def)
  let ?prev = "w * before y" and ?next = "w * after h y"
  have choice: "(if 0 < y \<and> y < h - 1 then (w * y - w, w * Suc y)
      else if y = 0 then (w * Suc y, w * Suc y) else (p, p)) = (?prev, ?next)"
    using p assms by (auto simp: before_def after_def diff_mult_distrib2)
  have bound: "w * i + w \<le> length raw" if "i < h" for i
  proof -
    have "w * Suc i \<le> w * h" using that by (intro mult_le_mono) simp_all
    then show ?thesis by (simp add: assms(3))
  qed
  have "before y < h" "after h y < h"
    using assms by (auto simp: before_def after_def)
  then have safe: "w * y + max w 2 \<le> length raw" "?prev + max w 2 \<le> length raw"
    "?next + max w 2 \<le> length raw"
    using bound assms(1,4) by (simp_all add: max_absorb1)
  have "bayer_step w h raw y st = Some (w * y + w, ?prev + w, ?next + w,
      demosaic_rows w h raw y @ concat (map (demosaic w h raw y) [0..<w]))"
    by (simp only: st bayer_step_def Let_def split_conv choice safe simp_thms if_True
        bayer_row_correct [OF assms(1)])
  moreover have "lines_inv w h raw (Suc y) (w * y + w, ?prev + w, ?next + w,
      demosaic_rows w h raw y @ concat (map (demosaic w h raw y) [0..<w]))"
  proof (cases "y = h - 1")
    case True
    then have "Suc y = h" using assms(2) by simp
    then show ?thesis by (auto simp: lines_inv_def demosaic_rows_def)
  next
    case False
    then have "after h y = Suc y" by (simp add: after_def)
    then show ?thesis by (auto simp: lines_inv_def demosaic_rows_def before_def algebra_simps)
  qed
  ultimately show ?thesis by blast
qed

lemma convert_bayer_to_rgb_correct_aux:
  assumes "2 \<le> width" and "3 \<le> height" and "length raw = width * height"
  shows "convert_bayer_to_rgb width height raw = Some (demosaic_rows width height raw height)"
proof -
  have "\<exists>s. fold_opt (bayer_step width height raw) [0..<height] (0, 0, width, []) = Some s
      \<and> lines_inv width height raw height s"
    by (rule fold_opt_upt [where I = "lines_inv width height raw"])
      (use bayer_step_inv [OF assms] in \<open>simp_all add: lines_inv_def demosaic_rows_def\<close>)
  then show ?thesis by (auto simp: convert_bayer_to_rgb_def lines_inv_def)
qed

text \<open>
  The demosaicing as the comment of the code has it, in whole numbers: the averages of two and of four
  neighbours, each divided once.
\<close>

definition comment_rgb :: "nat \<Rightarrow> nat \<Rightarrow> u8 list \<Rightarrow> nat \<Rightarrow> nat \<Rightarrow> nat list" where
  "comment_rgb w h raw y x =
     (let p = \<lambda>i j. unat (px w raw i j); u = before y; d = after h y; l = before x; r = after w x;
          row = (p y l + p y r) div 2; col = (p u x + p d x) div 2;
          cross = (p u x + p d x + p y l + p y r) div 4; corners = (p u l + p d l + p u r + p d r) div 4
      in if even y \<and> even x then [row, p y x, col]
         else if even y then [p y x, cross, corners]
         else if even x then [corners, cross, p y x]
         else [col, p y x, row])"

definition comment_rows :: "nat \<Rightarrow> nat \<Rightarrow> u8 list \<Rightarrow> nat list" where
  "comment_rows w h raw = concat (map (\<lambda>y. concat (map (comment_rgb w h raw y) [0..<w])) [0..<h])"

text \<open>A byte that is the value of the comment or one less.\<close>

definition at_most_one_less :: "u8 \<Rightarrow> nat \<Rightarrow> bool" where
  "at_most_one_less b n \<longleftrightarrow> unat b \<le> n \<and> n \<le> unat b + 1"

lemma unat_avg2: "unat (avg2 a b) = (unat a + unat b) div 2"
proof -
  have "unat a < 256" "unat b < 256" using unsigned_less [of a, where 'a = nat] unsigned_less [of b, where 'a = nat] by simp_all
  then show ?thesis by (simp add: avg2_def unat_of_nat)
qed

lemma nested_halves: "(x div 2 + y div 2) div 2 \<le> (x + y) div (4 :: nat) \<and> (x + y) div 4 \<le> (x div 2 + y div 2) div 2 + 1"
proof -
  have "x div 2 + y div 2 \<le> (x + y) div 2" "(x + y) div 2 \<le> x div 2 + y div 2 + 1" by linarith+
  moreover have "(x + y) div 4 = (x + y) div 2 div 2" by (simp add: div_mult2_eq [symmetric])
  ultimately show ?thesis by linarith
qed

lemma average_of_four: "at_most_one_less (avg2 (avg2 a b) (avg2 c d)) ((unat a + unat b + unat c + unat d) div 4)"
  using nested_halves [of "unat a + unat b" "unat c + unat d"] by (simp add: at_most_one_less_def unat_avg2 add.assoc)

lemma at_most_one_less_refl: "at_most_one_less a (unat a)" "at_most_one_less (avg2 a b) ((unat a + unat b) div 2)"
  by (simp_all add: at_most_one_less_def unat_avg2)

lemma demosaic_comment: "list_all2 at_most_one_less (demosaic w h raw y x) (comment_rgb w h raw y x)"
proof -
  have swap: "at_most_one_less (avg2 (avg2 c d) (avg2 a b)) ((unat a + unat b + unat c + unat d) div 4)" for a b c d
    using average_of_four [of c d a b] by (simp add: add.commute add.left_commute)
  show ?thesis
    unfolding demosaic_def comment_rgb_def Let_def havg_def vavg_def
    by (cases "even y"; cases "even x") (simp_all only: swap average_of_four at_most_one_less_refl if_True if_False simp_thms list.rel_inject list.rel_intros)
qed

lemma list_all2_concat_map:
  "\<forall>x \<in> set xs. list_all2 P (f x) (g x) \<Longrightarrow> list_all2 P (concat (map f xs)) (concat (map g xs))"
  by (induction xs) (auto intro: list_all2_appendI)

text \<open>
  C21. The Bayer conversion. For an image of at least two columns and three rows, with one byte per
  pixel, it never reads outside the image and returns for every pixel, row by row, the averages of its
  neighbours, the border mirrored; an average of four is taken as the average of two averages, each
  rounded down. So every byte is the one of the formulas in the comment of the code, or one less.
\<close>

theorem convert_bayer_to_rgb_correct:
  assumes "2 \<le> width" and "3 \<le> height" and "length raw = width * height"
  shows "convert_bayer_to_rgb width height raw = Some (demosaic_rows width height raw height) \<and>
    list_all2 at_most_one_less (demosaic_rows width height raw height) (comment_rows width height raw)"
  using convert_bayer_to_rgb_correct_aux [OF assms]
  by (simp add: demosaic_rows_def comment_rows_def list_all2_concat_map demosaic_comment)

text \<open>
  The two differ: a red pixel with the greens 1 and 2 above and below it and 1 and 0 beside it has the
  green 1 in the comment and 0 in the code.
\<close>

lemma demosaic_differs:
  "demosaic 3 5 [0, 0, 0, 0, 1, 0, 1, 9, 0, 0, 2, 0, 0, 0, 0] 2 1 ! 1 = 0 \<and>
   comment_rgb 3 5 [0, 0, 0, 0, 1, 0, 1, 9, 0, 0, 2, 0, 0, 0, 0] 2 1 ! 1 = 1"
  by (simp add: demosaic_def comment_rgb_def Let_def havg_def vavg_def px_def before_def after_def avg2_def)

lemma convert_bayer_to_rgb_correct_witness:
  "convert_bayer_to_rgb 2 3 [10, 20, 30, 40, 50, 60] = Some (demosaic_rows 2 3 [10, 20, 30, 40, 50, 60] 3) \<and>
   list_all2 at_most_one_less (demosaic_rows 2 3 [10, 20, 30, 40, 50, 60] 3) (comment_rows 2 3 [10, 20, 30, 40, 50, 60])"
  by (rule convert_bayer_to_rgb_correct) simp_all

lemma convert_uyvy_to_rgb_correct_witness:
  "convert_uyvy_to_rgb 2 1 [128, 16, 128, 235] [0, 0, 0, 0, 0, 0] =
     Some (concat (map (uyvy_rgb [128, 16, 128, 235]) [0..<2]))"
  using convert_uyvy_to_rgb_correct [of 2 "[128, 16, 128, 235]" 1 "[0, 0, 0, 0, 0, 0]"] by simp

text \<open>An image of two rows is read out of bounds: the second row finds its line pointers past the end.\<close>

lemma convert_bayer_two_rows: "convert_bayer_to_rgb 2 2 [1, 2, 3, 4] = None"
  by (simp add: convert_bayer_to_rgb_def bayer_step_def upt_rec)

end
