(* ===== verification/Modes.thy ===== *)
theory Modes
  imports Types
begin

text \<open>
  The frame modes of src/cameras.c: the tables of supported video and depth modes, the packing
  of resolution and format into the reserved word, and the look-up functions. The interface
  \<open>mode_table\<close> states what the look-up of either table promises; it is interpreted on both.
\<close>

section \<open>The tables\<close>

text \<open>
  The struct of include/libfreenect.h; the union of the formats is its int. The look-up functions
  return a struct of which only is_valid is set when nothing is found: that is \<open>None\<close> here, so
  that no definition can read the other, indeterminate fields.
\<close>

record freenect_frame_mode =
  fm_reserved :: u32
  fm_resolution :: freenect_resolution
  fm_format :: u32
  fm_bytes :: int
  fm_width :: int
  fm_height :: int
  fm_data_bits_per_pixel :: int
  fm_padding_bits_per_pixel :: int
  fm_framerate :: int
  fm_is_valid :: bool

definition MAKE_RESERVED :: "u32 \<Rightarrow> u32 \<Rightarrow> u32" where
  "MAKE_RESERVED res fmt = push_bit 8 (res AND 0xff) OR (fmt AND 0xff)"

definition RESERVED_TO_RESOLUTION :: "u32 \<Rightarrow> u32" where
  "RESERVED_TO_RESOLUTION reserved = drop_bit 8 reserved AND 0xff"

definition RESERVED_TO_FORMAT :: "u32 \<Rightarrow> u32" where
  "RESERVED_TO_FORMAT reserved = reserved AND 0xff"

text \<open>One line of a table: resolution, format, bytes, width, height, bits, padding, frame rate.\<close>

definition mode_row ::
    "freenect_resolution \<Rightarrow> u32 \<Rightarrow> int \<Rightarrow> int \<Rightarrow> int \<Rightarrow> int \<Rightarrow> int \<Rightarrow> int \<Rightarrow> freenect_frame_mode" where
  "mode_row res fmt bytes width height data_bits padding fps =
     \<lparr>fm_reserved = MAKE_RESERVED (resolution_val res) fmt, fm_resolution = res, fm_format = fmt,
      fm_bytes = bytes, fm_width = width, fm_height = height, fm_data_bits_per_pixel = data_bits,
      fm_padding_bits_per_pixel = padding, fm_framerate = fps, fm_is_valid = True\<rparr>"

definition supported_video_modes :: "freenect_frame_mode list" where
  "supported_video_modes =
     [mode_row FREENECT_RESOLUTION_HIGH (video_format_val FREENECT_VIDEO_RGB) (1280*1024*3) 1280 1024 24 0 10,
      mode_row FREENECT_RESOLUTION_MEDIUM (video_format_val FREENECT_VIDEO_RGB) (640*480*3) 640 480 24 0 30,
      mode_row FREENECT_RESOLUTION_HIGH (video_format_val FREENECT_VIDEO_BAYER) (1280*1024) 1280 1024 8 0 10,
      mode_row FREENECT_RESOLUTION_MEDIUM (video_format_val FREENECT_VIDEO_BAYER) (640*480) 640 480 8 0 30,
      mode_row FREENECT_RESOLUTION_HIGH (video_format_val FREENECT_VIDEO_IR_8BIT) (1280*1024) 1280 1024 8 0 10,
      mode_row FREENECT_RESOLUTION_MEDIUM (video_format_val FREENECT_VIDEO_IR_8BIT) (640*488) 640 488 8 0 30,
      mode_row FREENECT_RESOLUTION_HIGH (video_format_val FREENECT_VIDEO_IR_10BIT) (1280*1024*2) 1280 1024 10 6 10,
      mode_row FREENECT_RESOLUTION_MEDIUM (video_format_val FREENECT_VIDEO_IR_10BIT) (640*488*2) 640 488 10 6 30,
      mode_row FREENECT_RESOLUTION_HIGH (video_format_val FREENECT_VIDEO_IR_10BIT_PACKED)
        (1280*1024*10 div 8) 1280 1024 10 0 10,
      mode_row FREENECT_RESOLUTION_MEDIUM (video_format_val FREENECT_VIDEO_IR_10BIT_PACKED)
        (640*488*10 div 8) 640 488 10 0 30,
      mode_row FREENECT_RESOLUTION_MEDIUM (video_format_val FREENECT_VIDEO_YUV_RGB) (640*480*3) 640 480 24 0 15,
      mode_row FREENECT_RESOLUTION_MEDIUM (video_format_val FREENECT_VIDEO_YUV_RAW) (640*480*2) 640 480 16 0 15]"

definition supported_depth_modes :: "freenect_frame_mode list" where
  "supported_depth_modes =
     [mode_row FREENECT_RESOLUTION_MEDIUM (depth_format_val FREENECT_DEPTH_11BIT) (640*480*2) 640 480 11 5 30,
      mode_row FREENECT_RESOLUTION_MEDIUM (depth_format_val FREENECT_DEPTH_10BIT) (640*480*2) 640 480 10 6 30,
      mode_row FREENECT_RESOLUTION_MEDIUM (depth_format_val FREENECT_DEPTH_11BIT_PACKED)
        (640*480*11 div 8) 640 480 11 0 30,
      mode_row FREENECT_RESOLUTION_MEDIUM (depth_format_val FREENECT_DEPTH_10BIT_PACKED)
        (640*480*10 div 8) 640 480 10 0 30,
      mode_row FREENECT_RESOLUTION_MEDIUM (depth_format_val FREENECT_DEPTH_REGISTERED) (640*480*2) 640 480 16 0 30,
      mode_row FREENECT_RESOLUTION_MEDIUM (depth_format_val FREENECT_DEPTH_MM) (640*480*2) 640 480 16 0 30]"

section \<open>Operations\<close>

definition freenect_get_video_mode_count :: int where
  "freenect_get_video_mode_count = 12"

definition freenect_get_video_mode :: "int \<Rightarrow> freenect_frame_mode option" where
  "freenect_get_video_mode mode_num =
     (if mode_num \<ge> 0 \<and> mode_num < freenect_get_video_mode_count
      then Some (supported_video_modes ! nat mode_num) else None)"

definition freenect_find_video_mode ::
    "freenect_resolution \<Rightarrow> freenect_video_format \<Rightarrow> freenect_frame_mode option" where
  "freenect_find_video_mode res fmt =
     (let unique_id = MAKE_RESERVED (resolution_val res) (video_format_val fmt)
      in find (\<lambda>m. fm_reserved m = unique_id) supported_video_modes)"

definition freenect_get_current_video_mode :: "freenect_device \<Rightarrow> freenect_frame_mode option" where
  "freenect_get_current_video_mode dev =
     freenect_find_video_mode (dv_video_resolution dev) (dv_video_format dev)"

definition freenect_get_depth_mode_count :: int where
  "freenect_get_depth_mode_count = 6"

definition freenect_get_depth_mode :: "int \<Rightarrow> freenect_frame_mode option" where
  "freenect_get_depth_mode mode_num =
     (if mode_num \<ge> 0 \<and> mode_num < freenect_get_depth_mode_count
      then Some (supported_depth_modes ! nat mode_num) else None)"

definition freenect_find_depth_mode ::
    "freenect_resolution \<Rightarrow> freenect_depth_format \<Rightarrow> freenect_frame_mode option" where
  "freenect_find_depth_mode res fmt =
     (let unique_id = MAKE_RESERVED (resolution_val res) (depth_format_val fmt)
      in find (\<lambda>m. fm_reserved m = unique_id) supported_depth_modes)"

definition freenect_get_current_depth_mode :: "freenect_device \<Rightarrow> freenect_frame_mode option" where
  "freenect_get_current_depth_mode dev =
     freenect_find_depth_mode (dv_depth_resolution dev) (dv_depth_format dev)"

text \<open>
  The loop of freenect_set_video_mode and freenect_set_depth_mode that accepts a mode, and the
  two casts of its reserved word. Only the reserved word of the argument is looked at.
\<close>

definition set_video_mode_check ::
    "freenect_frame_mode \<Rightarrow> (freenect_resolution \<times> freenect_video_format) option" where
  "set_video_mode_check mode =
     (if \<exists>m \<in> set supported_video_modes. fm_reserved m = fm_reserved mode
      then do { res \<leftarrow> resolution_of (RESERVED_TO_RESOLUTION (fm_reserved mode));
                fmt \<leftarrow> video_format_of (RESERVED_TO_FORMAT (fm_reserved mode));
                Some (res, fmt) }
      else None)"

definition set_depth_mode_check ::
    "freenect_frame_mode \<Rightarrow> (freenect_resolution \<times> freenect_depth_format) option" where
  "set_depth_mode_check mode =
     (if \<exists>m \<in> set supported_depth_modes. fm_reserved m = fm_reserved mode
      then do { res \<leftarrow> resolution_of (RESERVED_TO_RESOLUTION (fm_reserved mode));
                fmt \<leftarrow> depth_format_of (RESERVED_TO_FORMAT (fm_reserved mode));
                Some (res, fmt) }
      else None)"

section \<open>What a table promises\<close>

text \<open>A mode describes itself: the reserved word names it, and its size follows from its geometry.\<close>

definition mode_ok :: "freenect_frame_mode \<Rightarrow> bool" where
  "mode_ok m \<longleftrightarrow>
     fm_is_valid m \<and> fm_reserved m = MAKE_RESERVED (resolution_val (fm_resolution m)) (fm_format m) \<and>
     fm_format m < 255 \<and> fm_resolution m \<noteq> FREENECT_RESOLUTION_DUMMY \<and>
     fm_bytes m * 8 =
       fm_width m * fm_height m * (fm_data_bits_per_pixel m + fm_padding_bits_per_pixel m) \<and>
     0 < fm_width m \<and> fm_width m < 2 ^ 15 \<and> 0 < fm_height m \<and> fm_height m < 2 ^ 15 \<and>
     0 < fm_framerate m"

locale mode_table =
  fixes modes :: "freenect_frame_mode list"
    and fmt_val :: "'f \<Rightarrow> u32"
    and fmt_of :: "u32 \<Rightarrow> 'f option"
    and find_mode :: "freenect_resolution \<Rightarrow> 'f \<Rightarrow> freenect_frame_mode option"
    and get_mode :: "int \<Rightarrow> freenect_frame_mode option"
    and check :: "freenect_frame_mode \<Rightarrow> (freenect_resolution \<times> 'f) option"
  assumes rows_ok: "\<And>m. m \<in> set modes \<Longrightarrow> mode_ok m"
    and keys_distinct: "distinct (map fm_reserved modes)"
    and formats: "\<And>m. m \<in> set modes \<Longrightarrow> \<exists>f. fm_format m = fmt_val f"
    and fmt_of_val: "\<And>f. fmt_of (fmt_val f) = Some f"
    and fmt_range: "\<And>f. fmt_val f < 255 \<or> fmt_val f AND 0xff = 255"
    and find_mode_find: "\<And>r f. find_mode r f =
      find (\<lambda>m. fm_reserved m = MAKE_RESERVED (resolution_val r) (fmt_val f)) modes"
    and get_mode_nth: "\<And>i. get_mode i = (if 0 \<le> i \<and> i < int (length modes) then Some (modes ! nat i) else None)"
    and check_scan: "\<And>m. check m =
      (if \<exists>m' \<in> set modes. fm_reserved m' = fm_reserved m
       then do { r \<leftarrow> resolution_of (RESERVED_TO_RESOLUTION (fm_reserved m));
                 f \<leftarrow> fmt_of (RESERVED_TO_FORMAT (fm_reserved m)); Some (r, f) }
       else None)"

section \<open>Packing the reserved word\<close>

lemma mask8_less: "(x :: u32) < 256 \<Longrightarrow> x AND 0xff = x"
proof -
  assume "x < 256"
  then have "unat x < 2 ^ 8" by (simp add: word_less_nat_alt)
  then have "unat (take_bit 8 x) = unat x" by (simp add: unsigned_take_bit_eq take_bit_nat_eq_self)
  then have "take_bit 8 x = x" by (metis word_unat_eq_iff)
  then show ?thesis by (simp add: take_bit_eq_mask mask_eq_exp_minus_1)
qed

lemma reserved_roundtrip:
  "RESERVED_TO_RESOLUTION (MAKE_RESERVED r f) = r AND 0xff"
  "RESERVED_TO_FORMAT (MAKE_RESERVED r f) = f AND 0xff"
proof -
  have m: "(0xff :: u32) = mask 8" by (simp add: mask_eq_exp_minus_1)
  show "RESERVED_TO_RESOLUTION (MAKE_RESERVED r f) = r AND 0xff"
    unfolding RESERVED_TO_RESOLUTION_def MAKE_RESERVED_def m
    by (rule bit_word_eqI) (auto simp: bit_simps)
  show "RESERVED_TO_FORMAT (MAKE_RESERVED r f) = f AND 0xff"
    unfolding RESERVED_TO_FORMAT_def MAKE_RESERVED_def m
    by (rule bit_word_eqI) (auto simp: bit_simps)
qed

lemma resolution_mask:
  "r \<noteq> FREENECT_RESOLUTION_DUMMY \<Longrightarrow> resolution_val r AND 0xff = resolution_val r"
  "resolution_val FREENECT_RESOLUTION_DUMMY AND 0xff = 255"
  by (cases r) simp_all

lemma resolution_mask_inj:
  "resolution_val r AND 0xff = resolution_val r' AND 0xff \<Longrightarrow> r = r'"
  by (cases r; cases r') simp_all

section \<open>Consequences\<close>

context mode_table
begin

lemma mode_format: "m \<in> set modes \<Longrightarrow> fm_format m = fmt_val f \<Longrightarrow> fmt_val f AND 0xff = fmt_val f"
proof -
  assume m: "m \<in> set modes" and f: "fm_format m = fmt_val f"
  have "fm_format m < 255" using rows_ok [OF m] by (simp add: mode_ok_def)
  then have "fmt_val f < 256" using f by (simp add: word_less_nat_alt)
  then show ?thesis by (rule mask8_less)
qed

text \<open>The reserved word of a row is that of one pair of enumerators only.\<close>

lemma reserved_inj:
  assumes m: "m \<in> set modes" and eq: "fm_reserved m = MAKE_RESERVED (resolution_val r) (fmt_val f)"
  shows "fm_resolution m = r" and "fm_format m = fmt_val f"
proof -
  from m rows_ok have ok: "fm_reserved m = MAKE_RESERVED (resolution_val (fm_resolution m)) (fm_format m)"
    "fm_format m < 255" by (simp_all add: mode_ok_def)
  from m formats obtain g where g: "fm_format m = fmt_val g" by blast
  from ok(1) eq have e: "MAKE_RESERVED (resolution_val r) (fmt_val f) =
      MAKE_RESERVED (resolution_val (fm_resolution m)) (fmt_val g)" by (simp add: g)
  have "resolution_val r AND 0xff = resolution_val (fm_resolution m) AND 0xff"
    using arg_cong [OF e, of RESERVED_TO_RESOLUTION] by (simp only: reserved_roundtrip)
  then show "fm_resolution m = r" by (rule resolution_mask_inj [symmetric])
  have fe: "fmt_val f AND 0xff = fmt_val g"
    using arg_cong [OF e, of RESERVED_TO_FORMAT] mode_format [OF m g] by (simp only: reserved_roundtrip)
  have "fmt_val f < 255"
    using fmt_range [of f] fe ok(2) g by auto
  then have "fmt_val f < 256" by (simp add: word_less_nat_alt)
  then have "fmt_val f AND 0xff = fmt_val f" by (rule mask8_less)
  with fe g show "fm_format m = fmt_val f" by simp
qed

lemma find_mode_SomeD:
  assumes "find_mode r f = Some m"
  shows "m \<in> set modes" and "mode_ok m" and "fm_resolution m = r" and "fm_format m = fmt_val f"
proof -
  from assms have m: "m \<in> set modes" and e: "fm_reserved m = MAKE_RESERVED (resolution_val r) (fmt_val f)"
    by (auto simp: find_mode_find find_Some_iff)
  show "m \<in> set modes" by (rule m)
  show "mode_ok m" by (rule rows_ok [OF m])
  show "fm_resolution m = r" and "fm_format m = fmt_val f"
    by (rule reserved_inj [OF m e])+
qed

lemma find_mode_row:
  assumes m: "m \<in> set modes" and f: "fm_format m = fmt_val f"
  shows "find_mode (fm_resolution m) f = Some m"
proof -
  have key: "fm_reserved m = MAKE_RESERVED (resolution_val (fm_resolution m)) (fmt_val f)"
    using rows_ok [OF m] f by (simp add: mode_ok_def)
  have "\<exists>m'. find_mode (fm_resolution m) f = Some m'"
    using m key by (auto simp: find_mode_find find_None_iff simp flip: not_None_eq)
  then obtain m' where m': "find_mode (fm_resolution m) f = Some m'" by blast
  then have "m' \<in> set modes" "fm_reserved m' = fm_reserved m"
    using key by (auto simp: find_mode_find find_Some_iff)
  with m keys_distinct have "m' = m" by (auto simp: distinct_map inj_on_def)
  with m' show ?thesis by simp
qed

lemma find_mode_None_iff:
  "find_mode r f = None \<longleftrightarrow> (\<forall>m \<in> set modes. \<not> (fm_resolution m = r \<and> fm_format m = fmt_val f))"
proof
  assume "find_mode r f = None"
  then show "\<forall>m \<in> set modes. \<not> (fm_resolution m = r \<and> fm_format m = fmt_val f)"
    using find_mode_row by fastforce
next
  assume none: "\<forall>m \<in> set modes. \<not> (fm_resolution m = r \<and> fm_format m = fmt_val f)"
  show "find_mode r f = None"
  proof (cases "find_mode r f")
    case (Some m)
    with none find_mode_SomeD show ?thesis by blast
  qed
qed

text \<open>Every number of an enumeration gives a mode that is found again from its own names.\<close>

lemma get_mode_find:
  assumes "0 \<le> i" and "i < int (length modes)"
  shows "\<exists>m f. get_mode i = Some m \<and> mode_ok m \<and> fm_format m = fmt_val f \<and>
    find_mode (fm_resolution m) f = Some m \<and> check m = Some (fm_resolution m, f)"
proof -
  let ?m = "modes ! nat i"
  have m: "?m \<in> set modes" using assms by simp
  from formats [OF m] obtain f where f: "fm_format ?m = fmt_val f" by blast
  have ok: "mode_ok ?m" by (rule rows_ok [OF m])
  have "RESERVED_TO_RESOLUTION (fm_reserved ?m) = resolution_val (fm_resolution ?m)"
    using ok by (simp add: mode_ok_def reserved_roundtrip resolution_mask)
  moreover have "RESERVED_TO_FORMAT (fm_reserved ?m) = fmt_val f"
    using ok mode_format [OF m f] by (simp add: mode_ok_def reserved_roundtrip f)
  ultimately have "check ?m = Some (fm_resolution ?m, f)"
    using m by (auto simp: check_scan fmt_of_val)
  then show ?thesis using assms ok f find_mode_row [OF m f] get_mode_nth by auto
qed

lemma check_SomeD:
  assumes "check m = Some (r, f)"
  shows "\<exists>m' \<in> set modes. fm_reserved m' = fm_reserved m \<and> find_mode r f = Some m'"
proof -
  from assms obtain m' where m': "m' \<in> set modes" "fm_reserved m' = fm_reserved m"
    and r: "resolution_of (RESERVED_TO_RESOLUTION (fm_reserved m)) = Some r"
    and f: "fmt_of (RESERVED_TO_FORMAT (fm_reserved m)) = Some f"
    by (auto simp: check_scan split: if_splits Option.bind_splits)
  from formats m'(1) obtain g where g: "fm_format m' = fmt_val g" by blast
  have ok: "mode_ok m'" by (rule rows_ok [OF m'(1)])
  have "RESERVED_TO_RESOLUTION (fm_reserved m') = resolution_val (fm_resolution m')"
    using ok by (simp add: mode_ok_def reserved_roundtrip resolution_mask)
  with r m'(2) have re: "r = fm_resolution m'" by simp
  have "RESERVED_TO_FORMAT (fm_reserved m') = fmt_val g"
    using ok mode_format [OF m'(1) g] by (simp add: mode_ok_def reserved_roundtrip g)
  with f m'(2) have "f = g" by (simp add: fmt_of_val)
  with re find_mode_row [OF m'(1) g] m' show ?thesis by auto
qed

lemma check_None_iff: "check m = None \<longleftrightarrow> (\<forall>m' \<in> set modes. fm_reserved m' \<noteq> fm_reserved m)"
proof
  assume none: "check m = None"
  show "\<forall>m' \<in> set modes. fm_reserved m' \<noteq> fm_reserved m"
  proof
    fix m' assume m': "m' \<in> set modes"
    from formats m' obtain g where g: "fm_format m' = fmt_val g" by blast
    have ok: "mode_ok m'" by (rule rows_ok [OF m'])
    have "RESERVED_TO_RESOLUTION (fm_reserved m') = resolution_val (fm_resolution m')"
      "RESERVED_TO_FORMAT (fm_reserved m') = fmt_val g"
      using ok mode_format [OF m' g] by (simp_all add: mode_ok_def reserved_roundtrip resolution_mask g)
    with none m' show "fm_reserved m' \<noteq> fm_reserved m" by (auto simp: check_scan fmt_of_val split: if_splits)
  qed
qed (auto simp: check_scan)

end

section \<open>Both tables keep the promise\<close>

lemma video_rows_ok: "m \<in> set supported_video_modes \<Longrightarrow> mode_ok m"
  by (auto simp: supported_video_modes_def mode_row_def mode_ok_def)

lemma depth_rows_ok: "m \<in> set supported_depth_modes \<Longrightarrow> mode_ok m"
  by (auto simp: supported_depth_modes_def mode_row_def mode_ok_def)

text \<open>The formats of the rows, as the enumerators in their order.\<close>

lemma video_format_rows:
  "map fm_format supported_video_modes = map video_format_val
     [FREENECT_VIDEO_RGB, FREENECT_VIDEO_RGB, FREENECT_VIDEO_BAYER, FREENECT_VIDEO_BAYER,
      FREENECT_VIDEO_IR_8BIT, FREENECT_VIDEO_IR_8BIT, FREENECT_VIDEO_IR_10BIT, FREENECT_VIDEO_IR_10BIT,
      FREENECT_VIDEO_IR_10BIT_PACKED, FREENECT_VIDEO_IR_10BIT_PACKED, FREENECT_VIDEO_YUV_RGB,
      FREENECT_VIDEO_YUV_RAW]"
  by (simp add: supported_video_modes_def mode_row_def)

lemma depth_format_rows:
  "map fm_format supported_depth_modes = map depth_format_val
     [FREENECT_DEPTH_11BIT, FREENECT_DEPTH_10BIT, FREENECT_DEPTH_11BIT_PACKED,
      FREENECT_DEPTH_10BIT_PACKED, FREENECT_DEPTH_REGISTERED, FREENECT_DEPTH_MM]"
  by (simp add: supported_depth_modes_def mode_row_def)

lemma format_of_rows:
  assumes "map g xs = map val fs" and "x \<in> set xs"
  shows "\<exists>f. g x = val f"
proof -
  have "g x \<in> set (map g xs)" using assms(2) by simp
  then show ?thesis unfolding assms(1) by auto
qed

interpretation vid: mode_table supported_video_modes video_format_val video_format_of
  freenect_find_video_mode freenect_get_video_mode set_video_mode_check
proof (unfold_locales, goal_cases)
  case (1 m) then show ?case by (rule video_rows_ok)
next
  case 2 show ?case by (simp add: supported_video_modes_def mode_row_def MAKE_RESERVED_def)
next
  case (3 m) then show ?case by (rule format_of_rows [OF video_format_rows])
next
  case (5 f) show ?case by (cases f) simp_all
qed (simp_all add: freenect_find_video_mode_def freenect_get_video_mode_def
    freenect_get_video_mode_count_def set_video_mode_check_def supported_video_modes_def)

interpretation dep: mode_table supported_depth_modes depth_format_val depth_format_of
  freenect_find_depth_mode freenect_get_depth_mode set_depth_mode_check
proof (unfold_locales, goal_cases)
  case (1 m) then show ?case by (rule depth_rows_ok)
next
  case 2 show ?case by (simp add: supported_depth_modes_def mode_row_def MAKE_RESERVED_def)
next
  case (3 m) then show ?case by (rule format_of_rows [OF depth_format_rows])
next
  case (5 f) show ?case by (cases f) simp_all
qed (simp_all add: freenect_find_depth_mode_def freenect_get_depth_mode_def
    freenect_get_depth_mode_count_def set_depth_mode_check_def supported_depth_modes_def)

section \<open>Properties\<close>

text \<open>
  Video mode look-up. A mode that freenect_find_video_mode returns has the resolution and the
  format asked for, is valid, and its byte count is exactly width times height times the bits per
  pixel; nothing is found exactly for the pairs that no line of the table names.
\<close>

theorem freenect_find_video_mode_correct:
  "(case freenect_find_video_mode r f of
      Some m \<Rightarrow> fm_resolution m = r \<and> fm_format m = video_format_val f \<and> mode_ok m
    | None \<Rightarrow> \<not> (\<exists>m \<in> set supported_video_modes.
        fm_resolution m = r \<and> fm_format m = video_format_val f))"
  using vid.find_mode_SomeD [of r f] vid.find_mode_None_iff [of r f]
  by (auto split: option.split)

text \<open>
  Enumerating the video modes: every number below the count gives a well-formed mode, which
  freenect_find_video_mode finds again and freenect_set_video_mode accepts as its own resolution
  and format.
\<close>

theorem freenect_get_video_mode_roundtrip:
  assumes "0 \<le> i" and "i < freenect_get_video_mode_count"
  shows "\<exists>m f. freenect_get_video_mode i = Some m \<and> mode_ok m \<and> fm_format m = video_format_val f \<and>
    freenect_find_video_mode (fm_resolution m) f = Some m \<and>
    set_video_mode_check m = Some (fm_resolution m, f)"
  by (rule vid.get_mode_find)
    (use assms in \<open>simp_all add: freenect_get_video_mode_count_def supported_video_modes_def\<close>)

lemma freenect_get_video_mode_roundtrip_witness:
  "\<exists>m f. freenect_get_video_mode 11 = Some m \<and> mode_ok m \<and> fm_format m = video_format_val f \<and>
    freenect_find_video_mode (fm_resolution m) f = Some m \<and>
    set_video_mode_check m = Some (fm_resolution m, f)"
  by (rule freenect_get_video_mode_roundtrip) (simp_all add: freenect_get_video_mode_count_def)

text \<open>
  A mode that freenect_set_depth_mode accepts names a line of the table: the resolution and the
  format it stores are ones that freenect_find_depth_mode finds, so the current depth mode is valid.
\<close>

theorem set_depth_mode_check_found:
  assumes "set_depth_mode_check m = Some (r, f)"
  shows "\<exists>m'. freenect_find_depth_mode r f = Some m' \<and> mode_ok m' \<and> fm_reserved m' = fm_reserved m"
  using dep.check_SomeD [OF assms] dep.rows_ok by blast

lemma set_depth_mode_check_found_witness:
  "\<exists>m'. freenect_find_depth_mode FREENECT_RESOLUTION_MEDIUM FREENECT_DEPTH_MM = Some m' \<and> mode_ok m' \<and>
    fm_reserved m' = fm_reserved (supported_depth_modes ! 5)"
  by (rule set_depth_mode_check_found)
    (simp add: set_depth_mode_check_def supported_depth_modes_def mode_row_def MAKE_RESERVED_def
      RESERVED_TO_RESOLUTION_def RESERVED_TO_FORMAT_def resolution_of_def depth_format_of_def)

end
