(* ===== verification/Unpack.thy ===== *)
theory Unpack
  imports Types
begin

text \<open>
  The unpackers of src/cameras.c and src/registration.c: arrays of 10 or 11 bit values, packed
  most significant bit first, are expanded to one 16 bit (or 8 bit) element each. The C functions
  take pointers; here they take the bytes from the source pointer on, and a read behind the last
  byte is \<open>None\<close>.

  All of them are shown to compute the same reference: element \<open>i\<close> consists of the bits
  \<open>i * vw, ..., i * vw + vw - 1\<close> of the bit stream. In particular the loop-unrolled 11-bit
  version agrees with the generic one.
\<close>

section \<open>The generic unpackers\<close>

text \<open>The inner loop \<^verbatim>\<open>while (bitsIn < vw)\<close>: the remaining source, buffer and bitsIn.\<close>

fun refill :: "nat \<Rightarrow> u8 list \<Rightarrow> u32 \<Rightarrow> nat \<Rightarrow> (u8 list \<times> u32 \<times> nat) option" where
  "refill vw [] buffer bitsIn = (if bitsIn < vw then None else Some ([], buffer, bitsIn))"
| "refill vw (b # src) buffer bitsIn =
     (if bitsIn < vw then refill vw src (push_bit 8 buffer OR ucast b) (bitsIn + 8)
      else Some (b # src, buffer, bitsIn))"

primrec packed_to_16bit_loop :: "nat \<Rightarrow> nat \<Rightarrow> u8 list \<Rightarrow> u32 \<Rightarrow> nat \<Rightarrow> u16 list option" where
  "packed_to_16bit_loop vw 0 src buffer bitsIn = Some []"
| "packed_to_16bit_loop vw (Suc n) src buffer bitsIn = do {
     (src, buffer, bitsIn) \<leftarrow> refill vw src buffer bitsIn;
     let bitsIn = bitsIn - vw;
     dest \<leftarrow> packed_to_16bit_loop vw n src buffer bitsIn;
     Some (ucast (drop_bit bitsIn buffer AND (push_bit vw 1 - 1)) # dest)
   }"

definition convert_packed_to_16bit :: "u8 list \<Rightarrow> nat \<Rightarrow> nat \<Rightarrow> u16 list option" where
  "convert_packed_to_16bit src vw n = packed_to_16bit_loop vw n src 0 0"

primrec packed_to_8bit_loop :: "nat \<Rightarrow> nat \<Rightarrow> u8 list \<Rightarrow> u32 \<Rightarrow> nat \<Rightarrow> u8 list option" where
  "packed_to_8bit_loop vw 0 src buffer bitsIn = Some []"
| "packed_to_8bit_loop vw (Suc n) src buffer bitsIn = do {
     (src, buffer, bitsIn) \<leftarrow> refill vw src buffer bitsIn;
     let bitsIn = bitsIn - vw;
     dest \<leftarrow> packed_to_8bit_loop vw n src buffer bitsIn;
     Some (ucast (drop_bit (bitsIn + vw - 8) buffer) # dest)
   }"

definition convert_packed_to_8bit :: "u8 list \<Rightarrow> nat \<Rightarrow> nat \<Rightarrow> u8 list option" where
  "convert_packed_to_8bit src vw n = packed_to_8bit_loop vw n src 0 0"

section \<open>The unrolled 11-bit unpacker\<close>

text \<open>
  Bytes are promoted to int before the shifts; the results fit 18 bits, and the assignment to
  uint16_t keeps the low 16.
\<close>

definition unpack_8_pixels :: "u8 list \<Rightarrow> u16 list" where
  "unpack_8_pixels raw =
     (let baseMask = 0x7FF;
          r0 = ucast (raw ! 0); r1 = ucast (raw ! 1); r2 = ucast (raw ! 2); r3 = ucast (raw ! 3);
          r4 = ucast (raw ! 4); r5 = ucast (raw ! 5); r6 = ucast (raw ! 6); r7 = ucast (raw ! 7);
          r8 = ucast (raw ! 8); r9 = ucast (raw ! 9); r10 = ucast (raw ! 10)
      in map (\<lambda>w :: u32. ucast w)
         [ push_bit 3 r0 OR drop_bit 5 r1,
          (push_bit 6 r1 OR drop_bit 2 r2) AND baseMask,
          (push_bit 9 r2 OR push_bit 1 r3 OR drop_bit 7 r4) AND baseMask,
          (push_bit 4 r4 OR drop_bit 4 r5) AND baseMask,
          (push_bit 7 r5 OR drop_bit 1 r6) AND baseMask,
          (push_bit 10 r6 OR push_bit 2 r7 OR drop_bit 6 r8) AND baseMask,
          (push_bit 5 r8 OR drop_bit 3 r9) AND baseMask,
          (push_bit 8 r9 OR r10) AND baseMask])"

text \<open>convert_packed11_to_16bit has the same eight lines in its loop.\<close>

fun convert_packed11_to_16bit :: "u8 list \<Rightarrow> nat \<Rightarrow> u16 list option" where
  "convert_packed11_to_16bit raw n =
     (if n \<ge> 8
      then if length raw < 11 then None
           else do {
             rest \<leftarrow> convert_packed11_to_16bit (drop 11 raw) (n - 8);
             Some (unpack_8_pixels raw @ rest)
           }
      else Some [])"

declare convert_packed11_to_16bit.simps [simp del]

section \<open>The reference: slices of the bit stream\<close>

definition stream_bit :: "u8 list \<Rightarrow> nat \<Rightarrow> bool" where
  "stream_bit src p = bit (src ! (p div 8)) (7 - p mod 8)"

definition packed_elem :: "nat \<Rightarrow> u8 list \<Rightarrow> nat \<Rightarrow> 'a::len word" where
  "packed_elem vw src i =
     horner_sum of_bool 2 (map (\<lambda>t. stream_bit src (i * vw + (vw - 1 - t))) [0..<vw])"

lemma bit_packed_elem:
  "bit (packed_elem vw src i :: 'a::len word) t \<longleftrightarrow>
     t < LENGTH('a) \<and> t < vw \<and> stream_bit src (i * vw + (vw - 1 - t))"
  by (auto simp: packed_elem_def bit_horner_sum_bit_word_iff)

section \<open>The generic loop\<close>

text \<open>After \<open>k\<close> bytes were shifted in, bit \<open>t\<close> of the buffer is the stream bit \<open>8 k - 1 - t\<close>.\<close>

definition buffer_ok :: "u8 list \<Rightarrow> nat \<Rightarrow> u32 \<Rightarrow> bool" where
  "buffer_ok src k buffer \<longleftrightarrow>
     (\<forall>t < 32. t < 8 * k \<longrightarrow> bit buffer t = stream_bit src (8 * k - 1 - t))"

lemma buffer_ok_0 [simp]: "buffer_ok src 0 b"
  by (simp add: buffer_ok_def)

lemma buffer_ok_shift:
  assumes "buffer_ok src k buffer" and "k < length src"
  shows "buffer_ok src (Suc k) (push_bit 8 buffer OR ucast (src ! k))"
  unfolding buffer_ok_def
proof (intro allI impI)
  fix t :: nat
  assume t: "t < 32" "t < 8 * Suc k"
  show "bit (push_bit 8 buffer OR ucast (src ! k)) t = stream_bit src (8 * Suc k - 1 - t)"
  proof (cases "t < 8")
    case True
    then have "8 * Suc k - 1 - t = 8 * k + (7 - t)" by simp
    moreover have "(8 * k + (7 - t)) div 8 = k" "(8 * k + (7 - t)) mod 8 = 7 - t" by simp_all
    ultimately show ?thesis using True by (simp add: stream_bit_def bit_simps)
  next
    case False
    then have "8 * Suc k - 1 - t = 8 * k - 1 - (t - 8)" by simp
    moreover have "\<not> bit (ucast (src ! k) :: u32) t"
      using False bit_imp_le_length [of "src ! k" t] by (auto simp: bit_simps)
    ultimately show ?thesis
      using False t assms(1) unfolding buffer_ok_def by (simp add: bit_simps)
  qed
qed

lemma refill_spec:
  assumes "buffer_ok src k buffer" and "vw \<le> 8 * (length src - k) + bitsIn" and "k \<le> length src"
    and "bitsIn \<le> vw + 7"
  shows "\<exists>k' buffer'. refill vw (drop k src) buffer bitsIn =
      Some (drop k' src, buffer', bitsIn + 8 * (k' - k)) \<and> buffer_ok src k' buffer' \<and>
      k \<le> k' \<and> k' \<le> length src \<and> vw \<le> bitsIn + 8 * (k' - k) \<and> bitsIn + 8 * (k' - k) \<le> vw + 7"
  using assms
proof (induction "length src - k" arbitrary: k buffer bitsIn)
  case 0
  then have k: "drop k src = []" by simp
  have "vw \<le> bitsIn" using 0 by simp
  with 0 k show ?case by (intro exI [of _ k] exI [of _ buffer]) simp
next
  case (Suc m)
  then have lt: "k < length src" by simp
  show ?case
  proof (cases "bitsIn < vw")
    case False
    then show ?thesis using Suc lt
      by (intro exI [of _ k] exI [of _ buffer]) (simp add: Cons_nth_drop_Suc [symmetric])
  next
    case True
    let ?b = "push_bit 8 buffer OR ucast (src ! k)"
    have "\<exists>k' buffer'. refill vw (drop (Suc k) src) ?b (bitsIn + 8) =
        Some (drop k' src, buffer', bitsIn + 8 + 8 * (k' - Suc k)) \<and> buffer_ok src k' buffer' \<and>
        Suc k \<le> k' \<and> k' \<le> length src \<and> vw \<le> bitsIn + 8 + 8 * (k' - Suc k) \<and>
        bitsIn + 8 + 8 * (k' - Suc k) \<le> vw + 7"
      using Suc.prems Suc.hyps(2) True lt buffer_ok_shift [OF Suc.prems(1) lt]
      by (intro Suc.hyps(1)) simp_all
    then obtain k' buffer' where r: "refill vw (drop (Suc k) src) ?b (bitsIn + 8) =
        Some (drop k' src, buffer', bitsIn + 8 + 8 * (k' - Suc k))"
      and p: "buffer_ok src k' buffer'" "Suc k \<le> k'" "k' \<le> length src"
        "vw \<le> bitsIn + 8 + 8 * (k' - Suc k)" "bitsIn + 8 + 8 * (k' - Suc k) \<le> vw + 7"
      by blast
    have "bitsIn + 8 + 8 * (k' - Suc k) = bitsIn + 8 * (k' - k)" using p(2) by simp
    with r p True lt show ?thesis
      by (intro exI [of _ k'] exI [of _ buffer']) (simp add: Cons_nth_drop_Suc [symmetric])
  qed
qed

text \<open>Reading \<open>w\<close> bits that start \<open>b\<close> bits above the end of the buffer.\<close>

lemma buffer_slice:
  assumes "buffer_ok src k buffer" and "8 * k = (i + 1) * vw + b" and "vw + b \<le> 32" and "t < vw"
  shows "bit buffer (t + b) = stream_bit src (i * vw + (vw - 1 - t))"
proof -
  have "t + b < 32" using assms(3,4) by simp
  moreover have "t + b < 8 * k" using assms(2,4) by simp
  moreover have "8 * k - 1 - (t + b) = i * vw + (vw - 1 - t)" using assms(2,4) by simp
  ultimately show ?thesis using assms(1) by (simp add: buffer_ok_def)
qed

text \<open>One refill before element \<open>i\<close>: it never runs out of source, and leaves less than a byte.\<close>

lemma refill_next:
  assumes "buffer_ok src k buffer" and "k \<le> length src" and "8 * k = i * vw + bitsIn"
    and "bitsIn \<le> 7" and "(i + Suc n) * vw \<le> 8 * length src"
  obtains k' buffer' b where "refill vw (drop k src) buffer bitsIn = Some (drop k' src, buffer', b + vw)"
    and "buffer_ok src k' buffer'" and "k' \<le> length src" and "8 * k' = (i + 1) * vw + b" and "b \<le> 7"
proof -
  have "vw + i * vw \<le> 8 * length src"
    using assms(5) by (simp add: algebra_simps)
  then have "vw \<le> 8 * (length src - k) + bitsIn"
    using assms(2,3) by (simp add: diff_mult_distrib2)
  then obtain k' buffer' where r: "refill vw (drop k src) buffer bitsIn =
      Some (drop k' src, buffer', bitsIn + 8 * (k' - k))"
    and p: "buffer_ok src k' buffer'" "k \<le> k'" "k' \<le> length src"
      "vw \<le> bitsIn + 8 * (k' - k)" "bitsIn + 8 * (k' - k) \<le> vw + 7"
    using refill_spec [OF assms(1) _ assms(2), of vw bitsIn] assms(4) by auto
  define b where "b = bitsIn + 8 * (k' - k) - vw"
  show thesis
  proof (rule that [of k' buffer' b])
    show "8 * k' = (i + 1) * vw + b"
      using p(2,4) assms(3) by (simp add: b_def diff_mult_distrib2)
  qed (use r p in \<open>simp_all add: b_def\<close>)
qed

lemma packed_to_16bit_loop_spec:
  assumes "0 < vw" and "vw \<le> 16" and "buffer_ok src k buffer" and "k \<le> length src"
    and "8 * k = i * vw + bitsIn" and "bitsIn \<le> 7" and "(i + n) * vw \<le> 8 * length src"
  shows "packed_to_16bit_loop vw n (drop k src) buffer bitsIn =
    Some (map (packed_elem vw src) [i..<i + n])"
  using assms
proof (induction n arbitrary: k i buffer bitsIn)
  case 0
  then show ?case by simp
next
  case (Suc n)
  obtain k' buffer' b where r: "refill vw (drop k src) buffer bitsIn = Some (drop k' src, buffer', b + vw)"
    and p: "buffer_ok src k' buffer'" "k' \<le> length src"
    and k': "8 * k' = (i + 1) * vw + b" and b7: "b \<le> 7"
    by (rule refill_next [OF Suc.prems(3-7)])
  have "ucast (drop_bit b buffer' AND (push_bit vw 1 - 1)) = (packed_elem vw src i :: u16)"
  proof (rule bit_word_eqI)
    fix t assume t: "t < LENGTH(16)"
    have m: "bit (push_bit vw 1 - 1 :: u32) t \<longleftrightarrow> t < vw"
      using t Suc.prems(2) by (simp add: push_bit_of_1 bit_mask_iff flip: mask_eq_exp_minus_1)
    show "bit (ucast (drop_bit b buffer' AND (push_bit vw 1 - 1)) :: u16) t =
        bit (packed_elem vw src i :: u16) t"
      using t m buffer_slice [OF p(1) k', of t] b7 Suc.prems(2)
      by (auto simp: bit_simps bit_packed_elem add.commute)
  qed
  moreover have "packed_to_16bit_loop vw n (drop k' src) buffer' b =
      Some (map (packed_elem vw src) [i + 1..<i + 1 + n])"
    using Suc.prems k' p b7 by (intro Suc.IH) (simp_all add: algebra_simps)
  moreover have "[i..<i + Suc n] = i # [i + 1..<i + 1 + n]"
    by (simp add: upt_conv_Cons)
  ultimately show ?case using r by simp
qed

lemma packed_to_8bit_loop_spec:
  assumes "8 \<le> vw" and "vw \<le> 16" and "buffer_ok src k buffer" and "k \<le> length src"
    and "8 * k = i * vw + bitsIn" and "bitsIn \<le> 7" and "(i + n) * vw \<le> 8 * length src"
  shows "packed_to_8bit_loop vw n (drop k src) buffer bitsIn =
    Some (map (\<lambda>j. ucast (drop_bit (vw - 8) (packed_elem vw src j :: u16))) [i..<i + n])"
  using assms
proof (induction n arbitrary: k i buffer bitsIn)
  case 0
  then show ?case by simp
next
  case (Suc n)
  obtain k' buffer' b where r: "refill vw (drop k src) buffer bitsIn = Some (drop k' src, buffer', b + vw)"
    and p: "buffer_ok src k' buffer'" "k' \<le> length src"
    and k': "8 * k' = (i + 1) * vw + b" and b7: "b \<le> 7"
    by (rule refill_next [OF Suc.prems(3-7)])
  have "ucast (drop_bit (b + vw - 8) buffer') =
      (ucast (drop_bit (vw - 8) (packed_elem vw src i :: u16)) :: u8)"
  proof (rule bit_word_eqI)
    fix t assume t: "t < LENGTH(8)"
    have "b + vw - 8 + t = t + (vw - 8) + b" using Suc.prems(1) by simp
    with t buffer_slice [OF p(1) k', of "t + (vw - 8)"] b7 Suc.prems(1,2)
    show "bit (ucast (drop_bit (b + vw - 8) buffer') :: u8) t =
        bit (ucast (drop_bit (vw - 8) (packed_elem vw src i :: u16)) :: u8) t"
      by (auto simp: bit_simps bit_packed_elem add.commute)
  qed
  moreover have "packed_to_8bit_loop vw n (drop k' src) buffer' b =
      Some (map (\<lambda>j. ucast (drop_bit (vw - 8) (packed_elem vw src j :: u16))) [i + 1..<i + 1 + n])"
    using Suc.prems k' p b7 by (intro Suc.IH) (simp_all add: algebra_simps)
  moreover have "[i..<i + Suc n] = i # [i + 1..<i + 1 + n]"
    by (simp add: upt_conv_Cons)
  ultimately show ?case using r by simp
qed

text \<open>
  C20. The generic unpacker computes the slices of the bit stream: for a width of at most 16 and a
  source of at least n * vw bits, element \<open>i\<close> of the result consists of the vw bits from bit
  i * vw on, most significant first, and nothing outside the source is read.
\<close>

theorem convert_packed_to_16bit_correct:
  assumes "0 < vw" and "vw \<le> 16" and "n * vw \<le> 8 * length src"
  shows "convert_packed_to_16bit src vw n = Some (map (packed_elem vw src) [0..<n])"
  using packed_to_16bit_loop_spec [of vw src 0 0 0 0 n] assms
  by (simp add: convert_packed_to_16bit_def)

text \<open>
  The 8-bit unpacker of the infrared image drops the least significant bits of the same
  elements: each result is the 16-bit element shifted right by vw - 8.
\<close>

theorem convert_packed_to_8bit_correct:
  assumes "8 \<le> vw" and "vw \<le> 16" and "n * vw \<le> 8 * length src"
  shows "convert_packed_to_8bit src vw n =
    map_option (map (\<lambda>w. ucast (drop_bit (vw - 8) w))) (convert_packed_to_16bit src vw n)"
  using packed_to_8bit_loop_spec [of vw src 0 0 0 0 n] packed_to_16bit_loop_spec [of vw src 0 0 0 0 n] assms
  by (simp add: convert_packed_to_8bit_def convert_packed_to_16bit_def)

section \<open>The unrolled loop\<close>

lemma less_11_cases:
  "n < 11 \<longleftrightarrow> (n :: nat) \<in> {10, 9, 8, 7, 6, 5, 4, 3, 2, 1, 0}"
  unfolding insert_iff empty_iff by presburger

lemma u8_high_bits: "8 \<le> n \<Longrightarrow> \<not> bit (w :: u8) n"
  using bit_imp_le_length [of w n] by auto

lemma mask_11: "(0x7FF :: u32) = mask 11"
  by (simp add: mask_eq_exp_minus_1)

text \<open>Two 16-bit words of 11 significant bits are equal when these bits are.\<close>

lemma u11_eqI:
  fixes v w :: u16
  assumes "\<And>t. t < 11 \<Longrightarrow> bit v t = bit w t" and "\<And>t. 11 \<le> t \<Longrightarrow> \<not> bit v t"
    and "\<And>t. 11 \<le> t \<Longrightarrow> \<not> bit w t"
  shows "v = w"
  by (rule bit_word_eqI) (metis assms not_le)

lemma packed_elem_high: "11 \<le> t \<Longrightarrow> \<not> bit (packed_elem 11 raw j :: u16) t"
  by (simp add: bit_packed_elem)

lemma bit_times_2: "bit (w * 2 :: u32) n \<longleftrightarrow> 0 < n \<and> n < 32 \<and> bit w (n - 1)"
proof -
  have "w * 2 = push_bit 1 w" by (simp only: push_bit_eq_mult power_one_right)
  then show ?thesis by (simp only: bit_simps) auto
qed

lemmas pixel_simps = bit_times_2 bit_packed_elem stream_bit_def bit_simps u8_high_bits less_11_cases
  numeral_2_eq_2 [symmetric]

text \<open>The eight lines of the unrolled loop, one lemma each.\<close>

lemma pixel_0:
  "ucast (push_bit 3 (ucast (raw ! 0)) OR drop_bit 5 (ucast (raw ! 1)) :: u32) =
     (packed_elem 11 raw 0 :: u16)"
  by (rule u11_eqI) (auto simp: pixel_simps)

lemma pixel_1:
  "ucast ((push_bit 6 (ucast (raw ! 1)) OR drop_bit 2 (ucast (raw ! 2))) AND 0x7FF :: u32) =
     (packed_elem 11 raw 1 :: u16)"
  unfolding mask_11 by (rule u11_eqI) (auto simp: pixel_simps)

lemma pixel_2:
  "ucast ((push_bit 9 (ucast (raw ! 2)) OR push_bit 1 (ucast (raw ! 3)) OR drop_bit 7 (ucast (raw ! 4))) AND 0x7FF :: u32) =
     (packed_elem 11 raw 2 :: u16)"
  unfolding mask_11 by (rule u11_eqI) (auto simp: pixel_simps)

lemma pixel_3:
  "ucast ((push_bit 4 (ucast (raw ! 4)) OR drop_bit 4 (ucast (raw ! 5))) AND 0x7FF :: u32) =
     (packed_elem 11 raw 3 :: u16)"
  unfolding mask_11 by (rule u11_eqI) (auto simp: pixel_simps)

lemma pixel_4:
  "ucast ((push_bit 7 (ucast (raw ! 5)) OR drop_bit 1 (ucast (raw ! 6))) AND 0x7FF :: u32) =
     (packed_elem 11 raw 4 :: u16)"
  unfolding mask_11 by (rule u11_eqI) (auto simp: pixel_simps)

lemma pixel_5:
  "ucast ((push_bit 10 (ucast (raw ! 6)) OR push_bit 2 (ucast (raw ! 7)) OR drop_bit 6 (ucast (raw ! 8))) AND 0x7FF :: u32) =
     (packed_elem 11 raw 5 :: u16)"
  unfolding mask_11 by (rule u11_eqI) (auto simp: pixel_simps)

lemma pixel_6:
  "ucast ((push_bit 5 (ucast (raw ! 8)) OR drop_bit 3 (ucast (raw ! 9))) AND 0x7FF :: u32) =
     (packed_elem 11 raw 6 :: u16)"
  unfolding mask_11 by (rule u11_eqI) (auto simp: pixel_simps)

lemma pixel_7:
  "ucast ((push_bit 8 (ucast (raw ! 9)) OR ucast (raw ! 10)) AND 0x7FF :: u32) =
     (packed_elem 11 raw 7 :: u16)"
  unfolding mask_11 by (rule u11_eqI) (auto simp: pixel_simps)

lemma unpack_8_pixels_slices: "unpack_8_pixels raw = map (packed_elem 11 raw) [0..<8]"
proof -
  have "[0..<8] = [0, 1, 2, 3, 4, 5, 6, 7 :: nat]" by (simp add: upt_rec)
  then show ?thesis
    by (simp only: unpack_8_pixels_def Let_def list.map pixel_0 pixel_1 pixel_2 pixel_3 pixel_4
        pixel_5 pixel_6 pixel_7)
qed

lemma packed_elem_drop: "packed_elem 11 (drop (11 * m) src) i = packed_elem 11 src (8 * m + i)"
  if "11 * m \<le> length src"
proof -
  have eq: "stream_bit (drop (11 * m) src) p = stream_bit src (88 * m + p)" for p
  proof -
    have dv: "(8 * q + p) div 8 = q + p div 8" "(8 * q + p) mod 8 = p mod 8" for q :: nat
      by simp_all
    have "88 * m + p = 8 * (11 * m) + p" by simp
    then have "(88 * m + p) div 8 = 11 * m + p div 8" and "(88 * m + p) mod 8 = p mod 8"
      using dv [of "11 * m"] by metis+
    with that show ?thesis by (simp add: stream_bit_def)
  qed
  have "(8 * m + i) * 11 + c = 88 * m + (i * 11 + c)" for c by simp
  then show ?thesis by (simp only: packed_elem_def eq)
qed

lemma convert_packed11_slices:
  assumes "11 * m \<le> length raw"
  shows "convert_packed11_to_16bit raw (8 * m) = Some (map (packed_elem 11 raw) [0..<8 * m])"
  using assms
proof (induction m arbitrary: raw)
  case 0
  then show ?case by (simp add: convert_packed11_to_16bit.simps)
next
  case (Suc m)
  have "convert_packed11_to_16bit (drop 11 raw) (8 * m) =
      Some (map (packed_elem 11 (drop 11 raw)) [0..<8 * m])"
    using Suc.prems by (intro Suc.IH) simp
  moreover have "map (packed_elem 11 (drop 11 raw)) [0..<8 * m] =
      map (packed_elem 11 raw :: nat \<Rightarrow> u16) [8..<8 * Suc m]"
  proof -
    have "map (packed_elem 11 (drop 11 raw)) [0..<8 * m] =
        map (\<lambda>i. packed_elem 11 raw (8 + i) :: u16) [0..<8 * m]"
      using packed_elem_drop [of 1 raw, where 'a = 16] Suc.prems by simp
    also have "\<dots> = map (packed_elem 11 raw) [8..<8 * Suc m]"
      by (rule nth_equalityI) simp_all
    finally show ?thesis .
  qed
  moreover have "[0..<8 * Suc m] = [0..<8] @ [8..<8 * Suc m]"
    using upt_add_eq_append [of 0 8 "8 * m"] by simp
  ultimately show ?case
    using Suc.prems
    by (simp add: convert_packed11_to_16bit.simps [of raw] unpack_8_pixels_slices)
qed

text \<open>
  C30. The loop-unrolled 11-bit unpacker is equivalent to the generic one on every source that
  holds the pixels, for a number of pixels that is a multiple of eight.
\<close>

theorem convert_packed11_equivalent:
  assumes "8 dvd n" and "n * 11 \<le> 8 * length raw"
  shows "convert_packed11_to_16bit raw n = convert_packed_to_16bit raw 11 n"
proof -
  obtain m where m: "n = 8 * m" using assms(1) by blast
  with assms(2) have "11 * m \<le> length raw" by simp
  with m convert_packed11_slices [of m raw] convert_packed_to_16bit_correct [of 11 n raw] assms(2)
  show ?thesis by simp
qed

section \<open>Witnesses\<close>

theorem convert_packed_to_16bit_correct_witness:
  "(5 :: nat) * 10 \<le> 8 * 7 \<and>
   convert_packed_to_16bit [0xFF, 0xC0, 0x08, 0x03, 0x01, 0x00, 0] 10 5 =
     Some (map (packed_elem 10 [0xFF, 0xC0, 0x08, 0x03, 0x01, 0x00, 0]) [0..<5])"
  using convert_packed_to_16bit_correct [of 10 5 "[0xFF, 0xC0, 0x08, 0x03, 0x01, 0x00, 0]"] by simp

theorem convert_packed_to_8bit_correct_witness:
  "convert_packed_to_8bit [0xFF, 0xC0, 0x08] 10 2 =
     map_option (map (\<lambda>w. ucast (drop_bit 2 w))) (convert_packed_to_16bit [0xFF, 0xC0, 0x08] 10 2)"
  using convert_packed_to_8bit_correct [of 10 2 "[0xFF, 0xC0, 0x08]"] by simp

theorem convert_packed11_equivalent_witness:
  "convert_packed11_to_16bit [1, 2, 3, 4, 5, 6, 7, 8, 9, 10, 11] 8 =
   convert_packed_to_16bit [1, 2, 3, 4, 5, 6, 7, 8, 9, 10, 11] 11 8"
  using convert_packed11_equivalent [of 8 "[1, 2, 3, 4, 5, 6, 7, 8, 9, 10, 11]"] by simp

end
