(* ===== verification/Registration.thy ===== *)
theory Registration
  imports Unpack
begin

text \<open>
  src/registration.c: the tables that take a raw depth value to millimetres and a depth pixel to
  the RGB image, the conversions of a depth frame that use them, and the inverse mapping.

  Doubles and floats are real numbers; every operation is followed by the rounding of the host.
  A quotient by zero is infinite in C and has no real value: where it would be converted to an
  integer, the result is the unspecified one. The allocations of the tables, whose result the
  code does not test, are taken to succeed.
\<close>

abbreviation DEPTH_X_RES :: nat where "DEPTH_X_RES \<equiv> 640"
abbreviation DEPTH_Y_RES :: nat where "DEPTH_Y_RES \<equiv> 480"
abbreviation DEPTH_MAX_METRIC_VALUE :: nat where "DEPTH_MAX_METRIC_VALUE \<equiv> 10000"
abbreviation DEPTH_NO_MM_VALUE :: u16 where "DEPTH_NO_MM_VALUE \<equiv> 0"
abbreviation DEPTH_MAX_RAW_VALUE :: nat where "DEPTH_MAX_RAW_VALUE \<equiv> 2048"
abbreviation DEPTH_NO_RAW_VALUE :: nat where "DEPTH_NO_RAW_VALUE \<equiv> 2047"
abbreviation REG_X_VAL_SCALE :: int where "REG_X_VAL_SCALE \<equiv> 256"

section \<open>The tables\<close>

text \<open>Horizontal shift for a metric depth \<open>i\<close>; the quotient for depth 0 is infinite.\<close>

definition depth_to_rgb_entry :: "env \<Rightarrow> freenect_zero_plane_info \<Rightarrow> nat \<Rightarrow> int" where
  "depth_to_rgb_entry E zpi i =
     (let rnd = e_rnd E; rndf = e_rndf E;
          x_scale = 2;
          pixel_size = rnd (1 / rndf (rndf (zp_reference_pixel_size zpi * x_scale) * 10));
          pixels_between_rgb_and_ir_cmos = rnd (rnd (zp_dcmos_rcmos_dist zpi * pixel_size) * 10);
          reference_distance_in_pixels = rnd (rnd (zp_reference_distance zpi * pixel_size) * 10);
          current_depth_in_pixels = rnd (real i * pixel_size)
      in if current_depth_in_pixels = 0 then sint (word_of_int (e_conv E 0) :: u32)
         else to_int32 E (rnd (rnd (rnd (rnd (pixels_between_rgb_and_ir_cmos *
                rnd (current_depth_in_pixels - reference_distance_in_pixels)) / current_depth_in_pixels)
                + 0.375) * 256)))"

definition freenect_init_depth_to_rgb :: "env \<Rightarrow> freenect_zero_plane_info \<Rightarrow> int list" where
  "freenect_init_depth_to_rgb E zpi = map (depth_to_rgb_entry E zpi) [0..<DEPTH_MAX_METRIC_VALUE]"

text \<open>
  The temporary shift tables. The products of the wire format are extracted with 32-bit shifts
  and accumulated in 64-bit integers; the state of the row loop is the twelve accumulators, that
  of the column loop the six column copies and the entries written so far.
\<close>

definition ext64 :: "u32 \<Rightarrow> nat \<Rightarrow> nat \<Rightarrow> u64" where
  "ext64 w l r = scast (signed_drop_bit r (push_bit l w))"

definition ext64_left :: "u32 \<Rightarrow> u64" where
  "ext64_left w = scast (push_bit 3 (push_bit 5 w))"

record dxdy_row =
  dr_dXdXdX0 :: u64
  dr_dXdX0 :: u64
  dr_dYdXdX0 :: u64
  dr_dX0 :: u64
  dr_dYdX0 :: u64
  dr_dYdYdX0 :: u64
  dr_dXdXdY0 :: u64
  dr_dXdY0 :: u64
  dr_dYdXdY0 :: u64
  dr_dY0 :: u64
  dr_dYdY0 :: u64
  dr_dYdYdY0 :: u64

definition dxdy_start :: "freenect_reg_info \<Rightarrow> dxdy_row" where
  "dxdy_start regdata =
     \<lparr>dr_dXdXdX0 = ext64_left (ri_dxdxdx_start regdata),
      dr_dXdX0 = ext64 (ri_dxdx_start regdata) 11 3,
      dr_dYdXdX0 = ext64_left (ri_dydxdx_start regdata),
      dr_dX0 = ext64 (ri_dx_start regdata) 13 4,
      dr_dYdX0 = ext64 (ri_dydx_start regdata) 11 3,
      dr_dYdYdX0 = ext64_left (ri_dydydx_start regdata),
      dr_dXdXdY0 = ext64_left (ri_dxdxdy_start regdata),
      dr_dXdY0 = ext64 (ri_dxdy_start regdata) 11 3,
      dr_dYdXdY0 = ext64_left (ri_dydxdy_start regdata),
      dr_dY0 = ext64 (ri_dy_start regdata) 13 4,
      dr_dYdY0 = ext64 (ri_dydy_start regdata) 11 3,
      dr_dYdYdY0 = ext64_left (ri_dydydy_start regdata)\<rparr>"

definition dxdy_row_step :: "freenect_reg_info \<Rightarrow> dxdy_row \<Rightarrow> dxdy_row" where
  "dxdy_row_step regdata r =
     (let CX2 = scast (ri_cx regdata); DX2 = scast (ri_dx regdata); BX6 = scast (ri_bx regdata);
          CY2 = scast (ri_cy regdata); DY2 = scast (ri_dy regdata); BY6 = scast (ri_by regdata);
          r = r\<lparr>dr_dXdXdX0 := dr_dXdXdX0 r + CX2\<rparr>;
          r = r\<lparr>dr_dXdX0 := dr_dXdX0 r + signed_drop_bit 8 (dr_dYdXdX0 r)\<rparr>;
          r = r\<lparr>dr_dYdXdX0 := dr_dYdXdX0 r + DX2\<rparr>;
          r = r\<lparr>dr_dX0 := dr_dX0 r + signed_drop_bit 6 (dr_dYdX0 r)\<rparr>;
          r = r\<lparr>dr_dYdX0 := dr_dYdX0 r + signed_drop_bit 8 (dr_dYdYdX0 r)\<rparr>;
          r = r\<lparr>dr_dYdYdX0 := dr_dYdYdX0 r + BX6\<rparr>;
          r = r\<lparr>dr_dXdXdY0 := dr_dXdXdY0 r + CY2\<rparr>;
          r = r\<lparr>dr_dXdY0 := dr_dXdY0 r + signed_drop_bit 8 (dr_dYdXdY0 r)\<rparr>;
          r = r\<lparr>dr_dYdXdY0 := dr_dYdXdY0 r + DY2\<rparr>;
          r = r\<lparr>dr_dY0 := dr_dY0 r + signed_drop_bit 6 (dr_dYdY0 r)\<rparr>;
          r = r\<lparr>dr_dYdY0 := dr_dYdY0 r + signed_drop_bit 8 (dr_dYdYdY0 r)\<rparr>
      in r\<lparr>dr_dYdYdY0 := dr_dYdYdY0 r + BY6\<rparr>)"

text \<open>The columns of one row: \<open>n\<close> are left; the entries are pairs of the x and the y table.\<close>

primrec dxdy_cols ::
    "env \<Rightarrow> u64 \<Rightarrow> u64 \<Rightarrow> nat \<Rightarrow> u64 \<times> u64 \<times> u64 \<Rightarrow> u64 \<times> u64 \<times> u64 \<Rightarrow> (real \<times> real) list" where
  "dxdy_cols E AX6 AY6 0 xs ys = []"
| "dxdy_cols E AX6 AY6 (Suc n) xs ys =
     (let (cX, cdX, cddX) = xs; (cY, cdY, cddY) = ys
      in (e_rnd E (real_of_int (sint cX) / 2 ^ 17), e_rnd E (real_of_int (sint cY) / 2 ^ 17)) #
         dxdy_cols E AX6 AY6 n
           (cX + signed_drop_bit 6 cdX, cdX + signed_drop_bit 8 cddX, cddX + AX6)
           (cY + signed_drop_bit 6 cdY, cdY + signed_drop_bit 8 cddY, cddY + AY6))"

primrec dxdy_rows :: "env \<Rightarrow> freenect_reg_info \<Rightarrow> nat \<Rightarrow> nat \<Rightarrow> dxdy_row \<Rightarrow> (real \<times> real) list" where
  "dxdy_rows E regdata resolution_x 0 r = []"
| "dxdy_rows E regdata resolution_x (Suc n) r =
     (let r = dxdy_row_step regdata r
      in dxdy_cols E (scast (ri_ax regdata)) (scast (ri_ay regdata)) resolution_x
           (dr_dX0 r, dr_dXdX0 r, dr_dXdXdX0 r) (dr_dY0 r, dr_dXdY0 r, dr_dXdXdY0 r) @
         dxdy_rows E regdata resolution_x n r)"

definition freenect_create_dxdy_tables ::
    "env \<Rightarrow> nat \<Rightarrow> nat \<Rightarrow> freenect_reg_info \<Rightarrow> (real \<times> real) list" where
  "freenect_create_dxdy_tables E resolution_x resolution_y regdata =
     dxdy_rows E regdata resolution_x resolution_y (dxdy_start regdata)"

definition registration_entry :: "env \<Rightarrow> (real \<times> real) list \<Rightarrow> nat \<Rightarrow> nat \<Rightarrow> int \<times> int" where
  "registration_entry E regtable y x =
     (let rnd = e_rnd E; (dx, dy) = regtable ! (y * DEPTH_X_RES + x);
          new_x = rnd (rnd (real x + dx) + 1);
          new_y = rnd (rnd (real y + dy) + 1);
          new_x = (if new_x < 0 \<or> new_y < 0 \<or> new_x \<ge> 640 \<or> new_y \<ge> 480 then 2 * 640 else new_x)
      in (to_int32 E (rnd (new_x * 256)), to_int32 E new_y))"

definition freenect_init_registration_table :: "env \<Rightarrow> freenect_reg_info \<Rightarrow> (int \<times> int) list" where
  "freenect_init_registration_table E reg_info =
     (let regtable = freenect_create_dxdy_tables E DEPTH_X_RES DEPTH_Y_RES reg_info
      in concat (map (\<lambda>y. map (registration_entry E regtable y) [0..<DEPTH_X_RES]) [0..<DEPTH_Y_RES]))"

text \<open>parameter_coefficient is 4, shift_scale 10 and pixel_size_factor 1.\<close>

definition freenect_raw_to_mm :: "env \<Rightarrow> nat \<Rightarrow> freenect_registration \<Rightarrow> u16" where
  "freenect_raw_to_mm E raw reg =
     (let rnd = e_rnd E; zpi = rg_zero_plane_info reg;
          fixed_ref_x = rnd (rnd (rnd (real raw - rnd (rnd (4 * rg_const_shift reg) / 1)) / 4) - 0.375);
          metric = rnd (rnd (fixed_ref_x * zp_reference_pixel_size zpi) * 1);
          den = rnd (zp_dcmos_emitter_dist zpi - metric)
      in if den = 0 then word_of_int (e_conv E 0)
         else to_uint16 E (rnd (10 * rnd (rnd (rnd (metric * zp_reference_distance zpi) / den)
                + zp_reference_distance zpi))))"

definition raw_to_mm_table :: "env \<Rightarrow> freenect_registration \<Rightarrow> u16 list" where
  "raw_to_mm_table E reg =
     (map (\<lambda>i. freenect_raw_to_mm E i reg) [0..<DEPTH_MAX_RAW_VALUE])[DEPTH_NO_RAW_VALUE := DEPTH_NO_MM_VALUE]"

definition complete_tables :: "env \<Rightarrow> freenect_registration \<Rightarrow> freenect_registration" where
  "complete_tables E reg =
     reg\<lparr>rg_raw_to_mm_shift := Some (raw_to_mm_table E reg),
         rg_depth_to_rgb_shift := Some (freenect_init_depth_to_rgb E (rg_zero_plane_info reg)),
         rg_registration_table := Some (freenect_init_registration_table E (rg_reg_info reg))\<rparr>"

definition freenect_destroy_registration :: "freenect_registration \<Rightarrow> freenect_registration" where
  "freenect_destroy_registration reg =
     reg\<lparr>rg_raw_to_mm_shift := None, rg_depth_to_rgb_shift := None, rg_registration_table := None\<rparr>"

definition freenect_init_registration :: "env \<Rightarrow> freenect_device \<Rightarrow> freenect_device" where
  "freenect_init_registration E dev =
     dev\<lparr>dv_registration := complete_tables E (freenect_destroy_registration (dv_registration dev))\<rparr>"

definition freenect_copy_registration :: "env \<Rightarrow> freenect_device \<Rightarrow> freenect_registration" where
  "freenect_copy_registration E dev =
     (let r = dv_registration dev
      in complete_tables E
           \<lparr>rg_reg_info = rg_reg_info r, rg_reg_pad_info = rg_reg_pad_info r,
            rg_zero_plane_info = rg_zero_plane_info r, rg_const_shift = rg_const_shift r,
            rg_raw_to_mm_shift = None, rg_depth_to_rgb_shift = None, rg_registration_table = None\<rparr>)"

section \<open>Converting a depth frame\<close>

text \<open>
  Reading the next pixel of a packed frame. The state is the offset of the input pointer,
  source_index and the eight unpacked pixels.
\<close>

type_synonym feed = "nat \<times> nat \<times> u16 list"

definition next_packed :: "u8 list \<Rightarrow> feed \<Rightarrow> (u16 \<times> feed) option" where
  "next_packed input st =
     (let (off, source_index, unpack) = st
      in if source_index = 8
         then if off + 11 \<le> length input
              then let unpack = unpack_8_pixels (drop off input)
                   in Some (unpack ! 0, (off + 11, 1, unpack))
              else None
         else Some (unpack ! source_index, (off, source_index + 1, unpack)))"

definition feed_start :: feed where "feed_start = (0, 8, replicate 8 0)"

text \<open>
  The column of the RGB image: the 32-bit sum of the table entry and the shift (taken modulo
  \<open>2 ^ 32\<close> where C leaves an overflow undefined), divided towards zero, and then unsigned.
\<close>

definition reg_nx :: "int \<Rightarrow> int \<Rightarrow> u32" where
  "reg_nx tx s = word_of_int (sint (word_of_int (tx + s) :: u32) sdiv REG_X_VAL_SCALE)"

text \<open>Where pixel \<open>reg_index\<close> lands in the output: \<open>Some None\<close> is one of the three \<open>continue\<close>s.\<close>

definition reg_target ::
    "u32 \<Rightarrow> (int \<times> int) list \<Rightarrow> int list \<Rightarrow> nat \<Rightarrow> u16 \<Rightarrow> nat option option" where
  "reg_target target_offset table shift reg_index metric_depth =
     (if metric_depth = DEPTH_NO_MM_VALUE then Some None
      else if unat metric_depth \<ge> DEPTH_MAX_METRIC_VALUE then Some None
      else do {
        (tx, ty) \<leftarrow> lookup table reg_index;
        s \<leftarrow> lookup shift (unat metric_depth);
        (let nx = reg_nx tx s; ny = word_of_int ty :: u32
         in if nx \<ge> 640 then Some None
            else Some (Some (unat (ny * 640 + nx - target_offset))))
      })"

definition reg_store :: "nat option \<Rightarrow> u16 \<Rightarrow> u16 list \<Rightarrow> u16 list option" where
  "reg_store target metric_depth output_mm =
     (case target of
        None \<Rightarrow> Some output_mm
      | Some target_index \<Rightarrow>
          if target_index < length output_mm
          then let current_depth = output_mm ! target_index
               in if current_depth = DEPTH_NO_MM_VALUE \<or> current_depth > metric_depth
                  then Some (output_mm[target_index := metric_depth]) else Some output_mm
          else None)"

text \<open>
  The loop of freenect_apply_registration over a packed frame, and over an unpacked one (the
  input is then an array of 16-bit values). DENSE_REGISTRATION is not defined.
\<close>

definition reg_target_offset :: "freenect_registration \<Rightarrow> u32" where
  "reg_target_offset reg = of_nat (DEPTH_Y_RES * unat (rp_start_lines (rg_reg_pad_info reg)))"

definition freenect_apply_registration_packed ::
    "freenect_registration \<Rightarrow> u8 list \<Rightarrow> u16 list option" where
  "freenect_apply_registration_packed reg input = do {
     raw_to_mm \<leftarrow> rg_raw_to_mm_shift reg;
     shift \<leftarrow> rg_depth_to_rgb_shift reg;
     table \<leftarrow> rg_registration_table reg;
     (_, output_mm) \<leftarrow>
       fold_opt (\<lambda>y. fold_opt (\<lambda>x (fd, output_mm). do {
           (raw, fd) \<leftarrow> next_packed input fd;
           metric_depth \<leftarrow> lookup raw_to_mm (unat raw);
           target \<leftarrow> reg_target (reg_target_offset reg) table shift (y * DEPTH_X_RES + x) metric_depth;
           output_mm \<leftarrow> reg_store target metric_depth output_mm;
           Some (fd, output_mm)
         }) [0..<DEPTH_X_RES]) [0..<DEPTH_Y_RES]
         (feed_start, replicate (DEPTH_X_RES * DEPTH_Y_RES) DEPTH_NO_MM_VALUE);
     Some output_mm
   }"

definition freenect_apply_registration_unpacked ::
    "freenect_registration \<Rightarrow> u16 list \<Rightarrow> u16 list option" where
  "freenect_apply_registration_unpacked reg input = do {
     raw_to_mm \<leftarrow> rg_raw_to_mm_shift reg;
     shift \<leftarrow> rg_depth_to_rgb_shift reg;
     table \<leftarrow> rg_registration_table reg;
     fold_opt (\<lambda>y. fold_opt (\<lambda>x output_mm. do {
         raw \<leftarrow> lookup input (y * DEPTH_X_RES + x);
         metric_depth \<leftarrow> lookup raw_to_mm (unat raw);
         target \<leftarrow> reg_target (reg_target_offset reg) table shift (y * DEPTH_X_RES + x) metric_depth;
         reg_store target metric_depth output_mm
       }) [0..<DEPTH_X_RES]) [0..<DEPTH_Y_RES]
       (replicate (DEPTH_X_RES * DEPTH_Y_RES) DEPTH_NO_MM_VALUE)
   }"

definition clamp_mm :: "u16 \<Rightarrow> u16" where
  "clamp_mm metric_depth =
     (if unat metric_depth < DEPTH_MAX_METRIC_VALUE then metric_depth else of_nat DEPTH_MAX_METRIC_VALUE)"

definition freenect_apply_depth_to_mm :: "freenect_registration \<Rightarrow> u8 list \<Rightarrow> u16 list option" where
  "freenect_apply_depth_to_mm reg input_packed = do {
     raw_to_mm \<leftarrow> rg_raw_to_mm_shift reg;
     (_, output_mm) \<leftarrow>
       fold_opt (\<lambda>y. fold_opt (\<lambda>x (fd, output_mm). do {
           (raw, fd) \<leftarrow> next_packed input_packed fd;
           metric_depth \<leftarrow> lookup raw_to_mm (unat raw);
           Some (fd, output_mm @ [clamp_mm metric_depth])
         }) [0..<DEPTH_X_RES]) [0..<DEPTH_Y_RES] (feed_start, []);
     Some output_mm
   }"

definition freenect_apply_depth_unpacked_to_mm ::
    "freenect_registration \<Rightarrow> u16 list \<Rightarrow> u16 list option" where
  "freenect_apply_depth_unpacked_to_mm reg input = do {
     raw_to_mm \<leftarrow> rg_raw_to_mm_shift reg;
     fold_opt (\<lambda>y. fold_opt (\<lambda>x output_mm. do {
         raw \<leftarrow> lookup input (y * DEPTH_X_RES + x);
         metric_depth \<leftarrow> lookup raw_to_mm (unat raw);
         Some (output_mm @ [clamp_mm metric_depth])
       }) [0..<DEPTH_X_RES]) [0..<DEPTH_Y_RES] []
   }"

section \<open>Coordinates, and the inverse mapping\<close>

text \<open>For a reference distance of 0 the quotient is not a real number: \<open>None\<close>.\<close>

definition freenect_camera_to_world ::
    "env \<Rightarrow> freenect_device \<Rightarrow> int \<Rightarrow> int \<Rightarrow> int \<Rightarrow> (real \<times> real) option" where
  "freenect_camera_to_world E dev cx cy wz =
     (let rnd = e_rnd E; zpi = rg_zero_plane_info (dv_registration dev);
          ref_pix_size = zp_reference_pixel_size zpi; ref_distance = zp_reference_distance zpi;
          factor = rnd (rnd (rnd (2 * ref_pix_size) * real_of_int wz) / ref_distance)
      in if ref_distance = 0 then None
         else Some (rnd (real_of_int (cx - 320) * factor), rnd (real_of_int (cy - 240) * factor)))"

text \<open>
  The first loop: the map of every depth pixel to an RGB pixel (-1 is \<open>None\<close>), and the z-buffer.
  All reads are of arrays whose length is checked here.
\<close>

definition map_target ::
    "u32 \<Rightarrow> (int \<times> int) list \<Rightarrow> int list \<Rightarrow> nat \<Rightarrow> u16 \<Rightarrow> nat option option" where
  "map_target target_offset table shift index wz =
     (if wz = DEPTH_NO_MM_VALUE then Some None
      else do {
        (tx, ty) \<leftarrow> lookup table index;
        s \<leftarrow> lookup shift (unat wz);
        (let cx = reg_nx tx s; cy = (word_of_int ty :: u32) - target_offset
         in if cx \<ge> 640 then Some None else Some (Some (unat (cy * 640 + cx))))
      })"

definition map_first_pixel ::
    "u32 \<Rightarrow> (int \<times> int) list \<Rightarrow> int list \<Rightarrow> u16 list \<Rightarrow> nat
     \<Rightarrow> nat option list \<times> u16 list \<Rightarrow> (nat option list \<times> u16 list) option" where
  "map_first_pixel target_offset table shift depth_mm index st = do {
     let (mp, zBuffer) = st;
     wz \<leftarrow> lookup depth_mm index;
     target \<leftarrow> map_target target_offset table shift index wz;
     (case target of
        None \<Rightarrow> Some (mp @ [None], zBuffer)
      | Some cindex \<Rightarrow> do {
          z \<leftarrow> lookup zBuffer cindex;
          Some (mp @ [Some cindex],
                if z = DEPTH_NO_MM_VALUE \<or> z > wz then zBuffer[cindex := wz] else zBuffer)
        })
   }"

definition map_second_pixel ::
    "nat option list \<Rightarrow> u16 list \<Rightarrow> u16 list \<Rightarrow> u8 list \<Rightarrow> nat \<Rightarrow> u8 list \<Rightarrow> u8 list option" where
  "map_second_pixel mp zBuffer depth_mm rgb_raw index rgb_registered =
     (if 3 * index + 3 \<le> length rgb_registered
      then case mp ! index of
        None \<Rightarrow> Some (blit (3 * index) [0, 0, 0] rgb_registered)
      | Some cindex \<Rightarrow> do {
          currentDepth \<leftarrow> lookup depth_mm index;
          minDepth \<leftarrow> lookup zBuffer cindex;
          if currentDepth \<le> minDepth
          then if 3 * cindex + 3 \<le> length rgb_raw
               then Some (blit (3 * index) (take 3 (drop (3 * cindex) rgb_raw)) rgb_registered)
               else None
          else Some rgb_registered
        }
      else None)"

definition freenect_map_rgb_to_depth ::
    "freenect_registration \<Rightarrow> u16 list \<Rightarrow> u8 list \<Rightarrow> u8 list \<Rightarrow> u8 list option" where
  "freenect_map_rgb_to_depth reg depth_mm rgb_raw rgb_registered = do {
     table \<leftarrow> rg_registration_table reg;
     shift \<leftarrow> rg_depth_to_rgb_shift reg;
     (mp, zBuffer) \<leftarrow>
       fold_opt (\<lambda>y. fold_opt (\<lambda>x.
           map_first_pixel (reg_target_offset reg) table shift depth_mm (y * DEPTH_X_RES + x))
         [0..<DEPTH_X_RES]) [0..<DEPTH_Y_RES]
         ([], replicate (DEPTH_Y_RES * DEPTH_X_RES) DEPTH_NO_MM_VALUE);
     fold_opt (\<lambda>y. fold_opt (\<lambda>x.
         map_second_pixel mp zBuffer depth_mm rgb_raw (y * DEPTH_X_RES + x))
       [0..<DEPTH_X_RES]) [0..<DEPTH_Y_RES] rgb_registered
   }"

section \<open>Lemmas: reading a packed frame\<close>

definition feed_ok :: "u8 list \<Rightarrow> nat \<Rightarrow> feed \<Rightarrow> bool" where
  "feed_ok input p fd \<longleftrightarrow>
     (let (off, si, unp) = fd
      in if p mod 8 = 0 then si = 8 \<and> off = 11 * (p div 8)
         else si = p mod 8 \<and> off = 11 * (p div 8 + 1) \<and>
              unp = unpack_8_pixels (drop (11 * (p div 8)) input))"

lemma feed_start_ok: "feed_ok input 0 feed_start"
  by (simp add: feed_ok_def feed_start_def)

lemma unpack_nth:
  assumes "11 * (p div 8) \<le> length input"
  shows "unpack_8_pixels (drop (11 * (p div 8)) input) ! (p mod 8) = packed_elem 11 input p"
proof -
  have "p mod 8 < 8" by simp
  then have "map (packed_elem 11 (drop (11 * (p div 8)) input)) [0..<8] ! (p mod 8) =
      (packed_elem 11 (drop (11 * (p div 8)) input) (p mod 8) :: u16)"
    by (subst nth_map) (simp_all del: upt_rec_numeral)
  then show ?thesis
    using packed_elem_drop [OF assms, of "p mod 8"] by (simp add: unpack_8_pixels_slices)
qed

lemma next_packed_ok:
  assumes ok: "feed_ok input p fd" and p: "p < 8 * m" and len: "11 * m \<le> length input"
  shows "\<exists>fd'. next_packed input fd = Some (packed_elem 11 input p, fd') \<and> feed_ok input (Suc p) fd'"
proof -
  obtain off si unp where fd: "fd = (off, si, unp)" by (cases fd)
  define q where "q = p div 8"
  have "q < m" using p by (simp add: q_def less_mult_imp_div_less mult.commute)
  then have "Suc q \<le> m" by simp
  then have "11 * Suc q \<le> 11 * m" by (rule mult_le_mono2)
  then have block: "11 * q + 11 \<le> length input" using len by simp
  have val: "unpack_8_pixels (drop (11 * q) input) ! (p mod 8) = packed_elem 11 input p"
    using unpack_nth [of p input] block by (simp add: q_def)
  show ?thesis
  proof (cases "p mod 8 = 0")
    case True
    then have "Suc p mod 8 = 1" "Suc p div 8 = q" by (simp_all add: mod_Suc div_Suc q_def)
    with True ok block val show ?thesis
      by (auto simp: feed_ok_def fd next_packed_def q_def)
  next
    case False
    then have st: "si = p mod 8" "off = 11 * (q + 1)" "unp = unpack_8_pixels (drop (11 * q) input)"
      using ok by (simp_all add: feed_ok_def fd q_def)
    have "p mod 8 \<noteq> 8" by (metis less_irrefl mod_less_divisor zero_less_numeral)
    then have stp: "next_packed input fd = Some (packed_elem 11 input p, (off, Suc (p mod 8), unp))"
      using val by (simp add: next_packed_def fd st)
    have "feed_ok input (Suc p) (off, Suc (p mod 8), unp)"
    proof (cases "Suc (p mod 8) = 8")
      case True
      then have "Suc p mod 8 = 0" "Suc p div 8 = q + 1" by (simp_all add: mod_Suc div_Suc q_def)
      with True st show ?thesis by (simp add: feed_ok_def)
    next
      case f: False
      then have "Suc p mod 8 = Suc (p mod 8)" "Suc p div 8 = q" by (simp_all add: mod_Suc div_Suc q_def)
      with st show ?thesis by (simp add: feed_ok_def)
    qed
    with stp show ?thesis by blast
  qed
qed

lemma packed_elem_less: "unat (packed_elem 11 input p :: u16) < 2048"
proof -
  have "take_bit 11 (packed_elem 11 input p :: u16) = packed_elem 11 input p"
    by (rule bit_word_eqI) (auto simp: bit_take_bit_iff bit_packed_elem)
  then have "unat (packed_elem 11 input p :: u16) = take_bit 11 (unat (packed_elem 11 input p :: u16))"
    by (metis unsigned_take_bit_eq)
  moreover have "take_bit 11 (unat (packed_elem 11 input p :: u16)) < 2 ^ 11"
    by (rule take_bit_nat_less_exp)
  ultimately show ?thesis by simp
qed

section \<open>Lemmas: the nearest pixel wins\<close>

definition nearest :: "u16 list \<Rightarrow> u16" where
  "nearest ms = (if ms = [] then DEPTH_NO_MM_VALUE else Min (set ms))"

lemma nearest_snoc:
  assumes "0 \<notin> set ms"
  shows "nearest (ms @ [m]) = (if nearest ms = 0 \<or> nearest ms > m then m else nearest ms)"
proof (cases "ms = []")
  case False
  then have "Min (set ms) \<in> set ms" by simp
  with assms have nz: "Min (set ms) \<noteq> 0" by metis
  have "nearest (ms @ [m]) = min m (Min (set ms))" using False by (simp add: nearest_def)
  moreover have "nearest ms = Min (set ms)" using False by (simp add: nearest_def)
  ultimately show ?thesis using nz by (simp only: simp_thms min_def if_False) (metis not_less order.order_iff_strict)
qed (simp add: nearest_def)

text \<open>The depths of the pixels below \<open>n\<close> that land at \<open>t\<close>.\<close>

definition hits :: "(nat \<Rightarrow> nat option) \<Rightarrow> (nat \<Rightarrow> u16) \<Rightarrow> nat \<Rightarrow> nat \<Rightarrow> u16 list" where
  "hits land md n t = map md (filter (\<lambda>i. land i = Some t) [0..<n])"

definition zbuffer :: "(nat \<Rightarrow> nat option) \<Rightarrow> (nat \<Rightarrow> u16) \<Rightarrow> nat \<Rightarrow> nat \<Rightarrow> u16 list" where
  "zbuffer land md n sz = map (\<lambda>t. nearest (hits land md n t)) [0..<sz]"

lemma length_zbuffer [simp]: "length (zbuffer land md n sz) = sz"
  by (simp add: zbuffer_def)

lemma zbuffer_0: "zbuffer land md 0 sz = replicate sz 0"
  by (simp add: zbuffer_def hits_def nearest_def map_replicate_trivial)

lemma zbuffer_Suc_None: "land n = None \<Longrightarrow> zbuffer land md (Suc n) sz = zbuffer land md n sz"
  by (simp add: zbuffer_def hits_def)

lemma zbuffer_Suc_Some:
  assumes t: "land n = Some t" "t < sz" and nz: "\<And>i. land i \<noteq> None \<Longrightarrow> md i \<noteq> 0"
  shows "zbuffer land md (Suc n) sz =
    (if zbuffer land md n sz ! t = 0 \<or> zbuffer land md n sz ! t > md n
     then (zbuffer land md n sz)[t := md n] else zbuffer land md n sz)"
proof (rule nth_equalityI)
  have z: "0 \<notin> set (hits land md n t)" using nz by (force simp: hits_def)
  fix i assume "i < length (zbuffer land md (Suc n) sz)"
  then have i: "i < sz" by simp
  have same: "hits land md (Suc n) i = hits land md n i @ (if t = i then [md n] else [])"
    using t(1) by (simp add: hits_def)
  show "zbuffer land md (Suc n) sz ! i =
    (if zbuffer land md n sz ! t = 0 \<or> zbuffer land md n sz ! t > md n
     then (zbuffer land md n sz)[t := md n] else zbuffer land md n sz) ! i"
  proof (cases "t = i")
    case True
    then show ?thesis
      using i nearest_snoc [OF z, of "md n"] same by (simp add: zbuffer_def del: upt_Suc)
  next
    case False
    then show ?thesis using i same by (simp add: zbuffer_def del: upt_Suc)
  qed
qed simp

lemma reg_store_zbuffer:
  assumes "\<And>t. land n = Some t \<Longrightarrow> t < sz" and "\<And>i. land i \<noteq> None \<Longrightarrow> md i \<noteq> 0"
  shows "reg_store (land n) (md n) (zbuffer land md n sz) = Some (zbuffer land md (Suc n) sz)"
proof (cases "land n")
  case None
  then show ?thesis by (simp add: reg_store_def zbuffer_Suc_None)
next
  case (Some t)
  then have t: "t < sz" by (rule assms(1))
  show ?thesis
    using zbuffer_Suc_Some [where land = land, OF Some t assms(2)] t by (simp add: reg_store_def Some Let_def)
qed

section \<open>Lemmas: well-formed tables\<close>

definition tables_ok :: "freenect_registration \<Rightarrow> bool" where
  "tables_ok reg \<longleftrightarrow>
     (\<exists>a b c. rg_raw_to_mm_shift reg = Some a \<and> length a = DEPTH_MAX_RAW_VALUE \<and>
        rg_depth_to_rgb_shift reg = Some b \<and> length b = DEPTH_MAX_METRIC_VALUE \<and>
        rg_registration_table reg = Some c \<and> length c = DEPTH_X_RES * DEPTH_Y_RES)"

text \<open>The metric depth of a raw value, and where a pixel lands.\<close>

definition mm_of :: "freenect_registration \<Rightarrow> u16 \<Rightarrow> u16" where
  "mm_of reg raw = the (rg_raw_to_mm_shift reg) ! unat raw"

definition lands :: "freenect_registration \<Rightarrow> (nat \<Rightarrow> u16) \<Rightarrow> nat \<Rightarrow> nat option" where
  "lands reg md i =
     (case reg_target (reg_target_offset reg) (the (rg_registration_table reg))
        (the (rg_depth_to_rgb_shift reg)) i (md i) of Some r \<Rightarrow> r | None \<Rightarrow> None)"

lemma lands_nonzero: "lands reg md i \<noteq> None \<Longrightarrow> md i \<noteq> 0"
  by (auto simp: lands_def reg_target_def)

lemma reg_target_lands:
  assumes "tables_ok reg" and "rg_registration_table reg = Some c" and "rg_depth_to_rgb_shift reg = Some b"
    and "i < DEPTH_X_RES * DEPTH_Y_RES"
  shows "reg_target (reg_target_offset reg) c b i (md i) = Some (lands reg md i)"
proof -
  obtain tx ty where "c ! i = (tx, ty)" by (cases "c ! i")
  then show ?thesis
    using assms by (auto simp: tables_ok_def lands_def reg_target_def lookup_def Let_def)
qed

section \<open>Properties of the depth conversions\<close>

lemma freenect_apply_registration_packed_correct_aux:
  assumes tabs: "tables_ok reg" and len: "length input = 422400"
    and md: "md = (\<lambda>i. mm_of reg (packed_elem 11 input i))"
    and inside: "\<And>i t. i < 307200 \<Longrightarrow> lands reg md i = Some t \<Longrightarrow> t < 307200"
  shows "freenect_apply_registration_packed reg input = Some (zbuffer (lands reg md) md 307200 307200)"
proof -
  obtain a b c where abc: "rg_raw_to_mm_shift reg = Some a" "length a = 2048"
    "rg_depth_to_rgb_shift reg = Some b" "rg_registration_table reg = Some c"
    using tabs by (auto simp: tables_ok_def)
  let ?step = "\<lambda>i (fd, output_mm). do {
      (raw, fd) \<leftarrow> next_packed input fd;
      metric_depth \<leftarrow> lookup a (unat raw);
      target \<leftarrow> reg_target (reg_target_offset reg) c b i metric_depth;
      output_mm \<leftarrow> reg_store target metric_depth output_mm;
      Some (fd, output_mm) }"
  have "\<exists>s. fold_opt ?step [0..<480 * 640] (feed_start, replicate 307200 0) = Some s \<and>
      feed_ok input (480 * 640) (fst s) \<and> snd s = zbuffer (lands reg md) md (480 * 640) 307200"
  proof (rule fold_opt_upt [where I = "\<lambda>i s. feed_ok input i (fst s) \<and>
        snd s = zbuffer (lands reg md) md i 307200"])
    fix i s
    assume i: "i < 480 * 640" and I: "feed_ok input i (fst s) \<and> snd s = zbuffer (lands reg md) md i 307200"
    obtain fd' where fd': "next_packed input (fst s) = Some (packed_elem 11 input i, fd')"
      "feed_ok input (Suc i) fd'"
      using next_packed_ok [of input i "fst s" 38400] I i len by auto
    have m: "lookup a (unat (packed_elem 11 input i :: u16)) = Some (md i)"
      using packed_elem_less [of input i] abc by (simp add: lookup_def md mm_of_def)
    have t: "reg_target (reg_target_offset reg) c b i (md i) = Some (lands reg md i)"
      by (rule reg_target_lands [OF tabs abc(4,3)]) (use i in simp)
    have z: "reg_store (lands reg md i) (md i) (zbuffer (lands reg md) md i 307200) =
        Some (zbuffer (lands reg md) md (Suc i) 307200)"
      by (rule reg_store_zbuffer) (use inside i lands_nonzero in auto)
    show "\<exists>s'. ?step i s = Some s' \<and> feed_ok input (Suc i) (fst s') \<and>
        snd s' = zbuffer (lands reg md) md (Suc i) 307200"
      using I fd' m t z by (cases s) auto
  qed (simp_all add: feed_start_ok zbuffer_0)
  moreover have "fold_opt (\<lambda>y. fold_opt (\<lambda>x. ?step (y * 640 + x)) [0..<640]) [0..<480] s =
      fold_opt ?step [0..<480 * 640] s" for s
    by (rule fold_opt_nested)
  ultimately show ?thesis
    by (auto simp: freenect_apply_registration_packed_def abc)
qed

text \<open>
  C11. Registration of a packed depth frame. With complete tables and a full frame of 422400 bytes,
  if every pixel that lands anywhere lands inside the image, freenect_apply_registration returns
  the z-buffer of the frame: every output pixel is the smallest of the depths that land there and
  no depth where none does, whatever the order of the pixels.
\<close>

theorem freenect_apply_registration_packed_correct:
  assumes tabs: "tables_ok reg" and len: "length input = 422400"
    and md: "md = (\<lambda>i. mm_of reg (packed_elem 11 input i))"
    and inside: "\<And>i t. i < 307200 \<Longrightarrow> lands reg md i = Some t \<Longrightarrow> t < 307200"
  shows "freenect_apply_registration_packed reg input = Some (zbuffer (lands reg md) md 307200 307200)"
  using assms by (rule freenect_apply_registration_packed_correct_aux)

text \<open>The same for a frame of unpacked values below 2048.\<close>

lemma freenect_apply_registration_unpacked_correct:
  assumes tabs: "tables_ok reg" and len: "length input = 307200"
    and raw: "\<And>i. i < 307200 \<Longrightarrow> unat (input ! i) < 2048"
    and md: "md = (\<lambda>i. mm_of reg (input ! i))"
    and inside: "\<And>i t. i < 307200 \<Longrightarrow> lands reg md i = Some t \<Longrightarrow> t < 307200"
  shows "freenect_apply_registration_unpacked reg input = Some (zbuffer (lands reg md) md 307200 307200)"
proof -
  obtain a b c where abc: "rg_raw_to_mm_shift reg = Some a" "length a = 2048"
    "rg_depth_to_rgb_shift reg = Some b" "rg_registration_table reg = Some c"
    using tabs by (auto simp: tables_ok_def)
  let ?step = "\<lambda>i output_mm. do {
      raw \<leftarrow> lookup input i;
      metric_depth \<leftarrow> lookup a (unat raw);
      target \<leftarrow> reg_target (reg_target_offset reg) c b i metric_depth;
      reg_store target metric_depth output_mm }"
  have "\<exists>s. fold_opt ?step [0..<480 * 640] (replicate 307200 0) = Some s \<and>
      s = zbuffer (lands reg md) md (480 * 640) 307200"
  proof (rule fold_opt_upt [where I = "\<lambda>i s. s = zbuffer (lands reg md) md i 307200"])
    fix i s
    assume i: "i < 480 * 640" and I: "s = zbuffer (lands reg md) md i 307200"
    have r: "lookup input i = Some (input ! i)" using i len by (simp add: lookup_def)
    have m: "lookup a (unat (input ! i)) = Some (md i)"
      using raw [of i] i abc by (simp add: lookup_def md mm_of_def)
    have t: "reg_target (reg_target_offset reg) c b i (md i) = Some (lands reg md i)"
      by (rule reg_target_lands [OF tabs abc(4,3)]) (use i in simp)
    have z: "reg_store (lands reg md i) (md i) (zbuffer (lands reg md) md i 307200) =
        Some (zbuffer (lands reg md) md (Suc i) 307200)"
      by (rule reg_store_zbuffer) (use inside i lands_nonzero in auto)
    show "\<exists>s'. ?step i s = Some s' \<and> s' = zbuffer (lands reg md) md (Suc i) 307200"
      by (simp add: I r m t z)
  qed (simp_all add: zbuffer_0)
  moreover have "fold_opt (\<lambda>y. fold_opt (\<lambda>x. ?step (y * 640 + x)) [0..<640]) [0..<480] s =
      fold_opt ?step [0..<480 * 640] s" for s
    by (rule fold_opt_nested)
  ultimately show ?thesis
    by (auto simp: freenect_apply_registration_unpacked_def abc)
qed

lemma freenect_apply_depth_to_mm_correct_aux:
  assumes tab: "rg_raw_to_mm_shift reg = Some a" "length a = 2048" and len: "length input = 422400"
  shows "freenect_apply_depth_to_mm reg input =
    Some (map (\<lambda>i. clamp_mm (mm_of reg (packed_elem 11 input i))) [0..<307200])"
proof -
  let ?out = "\<lambda>n. map (\<lambda>i. clamp_mm (mm_of reg (packed_elem 11 input i))) [0..<n]"
  let ?step = "\<lambda>i (fd, output_mm). do {
      (raw, fd) \<leftarrow> next_packed input fd;
      metric_depth \<leftarrow> lookup a (unat raw);
      Some (fd, output_mm @ [clamp_mm metric_depth]) }"
  have "\<exists>s. fold_opt ?step [0..<480 * 640] (feed_start, []) = Some s \<and>
      feed_ok input (480 * 640) (fst s) \<and> snd s = ?out (480 * 640)"
  proof (rule fold_opt_upt [where I = "\<lambda>i s. feed_ok input i (fst s) \<and> snd s = ?out i"])
    fix i s
    assume i: "i < 480 * 640" and I: "feed_ok input i (fst s) \<and> snd s = ?out i"
    obtain fd' where fd': "next_packed input (fst s) = Some (packed_elem 11 input i, fd')"
      "feed_ok input (Suc i) fd'"
      using next_packed_ok [of input i "fst s" 38400] I i len by auto
    have m: "lookup a (unat (packed_elem 11 input i :: u16)) = Some (mm_of reg (packed_elem 11 input i))"
      using packed_elem_less [of input i] tab by (simp add: lookup_def mm_of_def)
    show "\<exists>s'. ?step i s = Some s' \<and> feed_ok input (Suc i) (fst s') \<and> snd s' = ?out (Suc i)"
      using I fd' m by (cases s) auto
  qed (simp_all add: feed_start_ok)
  moreover have "fold_opt (\<lambda>y. fold_opt (\<lambda>x. ?step (y * 640 + x)) [0..<640]) [0..<480] s =
      fold_opt ?step [0..<480 * 640] s" for s
    by (rule fold_opt_nested)
  ultimately show ?thesis
    by (auto simp: freenect_apply_depth_to_mm_def tab)
qed

text \<open>
  Depth in millimetres: on a full packed frame freenect_apply_depth_to_mm returns for every
  pixel the table value of its 11 bits, clamped at 10000, and never reads outside the frame or
  the table.
\<close>

theorem freenect_apply_depth_to_mm_correct:
  assumes tab: "rg_raw_to_mm_shift reg = Some a" "length a = 2048" and len: "length input = 422400"
  shows "freenect_apply_depth_to_mm reg input =
    Some (map (\<lambda>i. clamp_mm (mm_of reg (packed_elem 11 input i))) [0..<307200])"
  using assms by (rule freenect_apply_depth_to_mm_correct_aux)

text \<open>A registration whose tables send every pixel to the origin.\<close>

definition flat_registration :: freenect_registration where
  "flat_registration = zero_registration
     \<lparr>rg_raw_to_mm_shift := Some (replicate 2048 1000),
      rg_depth_to_rgb_shift := Some (replicate 10000 0),
      rg_registration_table := Some (replicate 307200 (0, 0))\<rparr>"

lemma flat_tables_ok: "tables_ok flat_registration"
  by (simp add: tables_ok_def flat_registration_def)

lemma flat_mm_of: "unat raw < 2048 \<Longrightarrow> mm_of flat_registration raw = 1000"
  by (simp add: mm_of_def flat_registration_def)

lemma flat_lands: "i < 307200 \<Longrightarrow> md i = 1000 \<Longrightarrow> lands flat_registration md i = Some 0"
  by (simp add: lands_def flat_registration_def zero_registration_def reg_target_def lookup_def
      reg_nx_def reg_target_offset_def)

theorem freenect_apply_registration_packed_correct_witness:
  "\<exists>md. freenect_apply_registration_packed flat_registration (replicate 422400 0) =
     Some (zbuffer (lands flat_registration md) md 307200 307200)"
proof -
  let ?md = "\<lambda>i. mm_of flat_registration (packed_elem 11 (replicate 422400 0) i)"
  have "?md i = 1000" for i by (rule flat_mm_of [OF packed_elem_less])
  then have "freenect_apply_registration_packed flat_registration (replicate 422400 0) =
      Some (zbuffer (lands flat_registration ?md) ?md 307200 307200)"
    by (intro freenect_apply_registration_packed_correct [OF flat_tables_ok])
      (simp_all add: flat_lands)
  then show ?thesis by blast
qed

theorem freenect_apply_depth_to_mm_correct_witness:
  "freenect_apply_depth_to_mm flat_registration (replicate 422400 0) =
    Some (map (\<lambda>i. clamp_mm (mm_of flat_registration (packed_elem 11 (replicate 422400 0) i))) [0..<307200])"
  by (rule freenect_apply_depth_to_mm_correct [of _ "replicate 2048 1000"])
    (simp_all add: flat_registration_def)

section \<open>The tables that complete_tables fills\<close>

text \<open>The rounding of a host: monotone, and exact on the integers the tables use.\<close>

definition rounding :: "(real \<Rightarrow> real) \<Rightarrow> bool" where
  "rounding r \<longleftrightarrow> mono r \<and> (\<forall>n. \<bar>n\<bar> \<le> 2 ^ 24 \<longrightarrow> r (of_int n) = of_int n)"

lemma roundingD:
  assumes "rounding r"
  shows "x \<le> y \<Longrightarrow> r x \<le> r y" and "\<bar>n\<bar> \<le> 2 ^ 24 \<Longrightarrow> r (of_int n) = of_int n"
  using assms by (auto simp: rounding_def dest: monoD)

lemma rounding_range:
  assumes "rounding r" and "of_int a \<le> x" and "x \<le> of_int b" and "\<bar>a\<bar> \<le> 2 ^ 24" and "\<bar>b\<bar> \<le> 2 ^ 24"
  shows "of_int a \<le> r x" and "r x \<le> of_int b"
  using roundingD(1) [OF assms(1,2)] roundingD(1) [OF assms(1,3)]
    roundingD(2) [OF assms(1,4)] roundingD(2) [OF assms(1,5)] by simp_all

lemma length_dxdy_cols: "length (dxdy_cols E a b n xs ys) = n"
  by (induction n arbitrary: xs ys) (simp_all add: Let_def case_prod_beta)

lemma length_dxdy_rows: "length (dxdy_rows E rd w n r) = n * w"
  by (induction n arbitrary: r) (simp_all add: Let_def length_dxdy_cols)

text \<open>An entry is an RGB pixel of the image, or its column is out of the image.\<close>

definition entry_ok :: "int \<times> int \<Rightarrow> bool" where
  "entry_ok e \<longleftrightarrow> fst e = 2 * 640 * 256 \<or> (0 \<le> fst e \<and> fst e \<le> 640 * 256 \<and> 0 \<le> snd e \<and> snd e < 480)"

lemma registration_entry_ok:
  assumes r: "rounding (e_rnd E)"
  shows "entry_ok (registration_entry E tab y x)"
proof -
  obtain dx dy where d: "tab ! (y * 640 + x) = (dx, dy)" by (cases "tab ! (y * 640 + x)")
  define nx where "nx = e_rnd E (e_rnd E (real x + dx) + 1)"
  define ny where "ny = e_rnd E (e_rnd E (real y + dy) + 1)"
  have e: "registration_entry E tab y x =
      (to_int32 E (e_rnd E ((if nx < 0 \<or> ny < 0 \<or> nx \<ge> 640 \<or> ny \<ge> 480 then 2 * 640 else nx) * 256)),
       to_int32 E ny)"
    by (simp add: registration_entry_def d nx_def ny_def Let_def)
  show ?thesis
  proof (cases "nx < 0 \<or> ny < 0 \<or> nx \<ge> 640 \<or> ny \<ge> 480")
    case True
    have "e_rnd E (of_int 327680) = of_int 327680" by (rule roundingD(2) [OF r]) simp
    then have "to_int32 E (e_rnd E (2 * 640 * 256)) = 327680"
      using ctrunc_of_int [of 327680] by (simp add: to_int32_def)
    with True show ?thesis unfolding e by (simp add: entry_ok_def)
  next
    case False
    have b: "of_int 0 \<le> e_rnd E (nx * 256)" "e_rnd E (nx * 256) \<le> of_int 163840"
      using rounding_range [OF r, of 0 "nx * 256" 163840] False by simp_all
    have "0 \<le> ctrunc (e_rnd E (nx * 256))" "ctrunc (e_rnd E (nx * 256)) \<le> 163840"
      by (rule ctrunc_bounds [OF b])+
    then have x: "0 \<le> to_int32 E (e_rnd E (nx * 256))" "to_int32 E (e_rnd E (nx * 256)) \<le> 163840"
      by (simp_all add: to_int32_def)
    have "0 \<le> ctrunc ny" "ctrunc ny < 480"
      using False by (simp_all add: ctrunc_def floor_less_iff)
    then have y: "0 \<le> to_int32 E ny" "to_int32 E ny < 480" by (simp_all add: to_int32_def)
    show ?thesis unfolding e using False x y by (simp add: entry_ok_def)
  qed
qed

lemma complete_tables_ok: "tables_ok (complete_tables E reg)"
proof -
  have "length (concat (map (\<lambda>y. map (f y) [0..<w]) [0..<h])) = h * w" for f :: "nat \<Rightarrow> nat \<Rightarrow> int \<times> int" and w h
    by (induction h) simp_all
  then show ?thesis
    by (simp add: tables_ok_def complete_tables_def raw_to_mm_table_def freenect_init_depth_to_rgb_def
        freenect_init_registration_table_def Let_def)
qed

text \<open>
  C19. The registration tables. Whatever the calibration of the device, freenect_init_registration
  leaves three tables of the allocated sizes, the value for \<open>no data\<close> maps to no depth, and (with
  a sane rounding) every entry of the registration table is either a pixel of the RGB image or
  marked by a column outside of it.
\<close>

theorem freenect_init_registration_tables:
  assumes "rounding (e_rnd E)" and "reg = dv_registration (freenect_init_registration E dev)"
  shows "tables_ok reg \<and> mm_of reg 2047 = 0 \<and> (\<forall>e \<in> set (the (rg_registration_table reg)). entry_ok e)"
proof -
  have reg: "reg = complete_tables E (freenect_destroy_registration (dv_registration dev))"
    using assms(2) by (simp add: freenect_init_registration_def)
  have "mm_of reg 2047 = 0"
    by (simp add: reg mm_of_def complete_tables_def raw_to_mm_table_def)
  moreover have "\<forall>e \<in> set (the (rg_registration_table reg)). entry_ok e"
    using registration_entry_ok [OF assms(1)]
    by (auto simp: reg complete_tables_def freenect_init_registration_table_def Let_def)
  ultimately show ?thesis using complete_tables_ok by (simp add: reg)
qed

lemma sdiv_256:
  "0 \<le> k \<Longrightarrow> k sdiv 256 = k div (256 :: int)"
  "k < 0 \<Longrightarrow> k sdiv 256 = - ((- k) div (256 :: int))"
  by (cases "k = 0"; simp add: signed_divide_int_def sgn_if)+

lemma reg_nx_inside:
  assumes "- (2 ^ 31) \<le> tx + s" and "tx + s < 2 ^ 31" and "reg_nx tx s < 640"
  shows "uint (reg_nx tx s) = (tx + s) sdiv 256" and "tx + s < 640 * 256"
proof -
  let ?q = "(tx + s) sdiv 256"
  have "sint (word_of_int (tx + s) :: u32) = tx + s"
    using assms(1,2) unfolding int_word_sint by simp
  then have nx: "reg_nx tx s = word_of_int ?q" by (simp add: reg_nx_def)
  have q: "- (2 ^ 23) \<le> ?q" "?q \<le> 2 ^ 23"
    using assms(1,2) sdiv_256 [of "tx + s"] by (cases "0 \<le> tx + s"; simp)+
  have u: "uint (reg_nx tx s) < 640" using assms(3) by (simp add: word_less_def)
  have "uint (reg_nx tx s) = ?q mod 2 ^ 32" by (simp add: nx uint_word_of_int)
  moreover have "?q mod 2 ^ 32 = (if 0 \<le> ?q then ?q else ?q + 2 ^ 32)"
  proof (cases "0 \<le> ?q")
    case False
    have "?q mod 2 ^ 32 = (?q + 2 ^ 32) mod 2 ^ 32" by simp
    also have "\<dots> = ?q + 2 ^ 32" using False q by (intro mod_pos_pos_trivial) simp_all
    finally show ?thesis using False by simp
  qed (use q in simp)
  ultimately have e: "uint (reg_nx tx s) = ?q" "0 \<le> ?q" "?q < 640" using u q by (auto split: if_splits)
  show "uint (reg_nx tx s) = ?q" by (rule e)
  show "tx + s < 640 * 256"
    using e(3) sdiv_256(1) [of "tx + s"] by (cases "0 \<le> tx + s") simp_all
qed

lemma lands_inside_image_aux:
  assumes tabs: "tables_ok reg" and e: "\<forall>e \<in> set (the (rg_registration_table reg)). entry_ok e"
    and s: "\<forall>s \<in> set (the (rg_depth_to_rgb_shift reg)). - 163840 \<le> s \<and> s < 2 ^ 30"
    and lines: "rp_start_lines (rg_reg_pad_info reg) = 0"
    and i: "i < 307200" and land: "lands reg md i = Some t"
  shows "t < 307200"
proof -
  obtain b c where bc: "rg_depth_to_rgb_shift reg = Some b" "length b = 10000"
    "rg_registration_table reg = Some c" "length c = 307200"
    using tabs by (auto simp: tables_ok_def)
  obtain tx ty where xy: "c ! i = (tx, ty)" by (cases "c ! i")
  have m: "unat (md i) < 10000" and nx: "reg_nx tx (b ! unat (md i)) < 640"
    and t: "t = unat ((word_of_int ty :: u32) * 640 + reg_nx tx (b ! unat (md i)))"
    using land bc i lines
    by (auto simp: lands_def reg_target_def lookup_def xy Let_def reg_target_offset_def
        split: if_splits)
  let ?s = "b ! unat (md i)"
  have sb: "- 163840 \<le> ?s" "?s < 2 ^ 30" using s bc m by auto
  have ok: "entry_ok (tx, ty)" using e bc i xy by (metis nth_mem option.sel)
  then have txb: "0 \<le> tx" "tx \<le> 327680" by (auto simp: entry_ok_def)
  have bnd: "- (2 ^ 31) \<le> tx + ?s" "tx + ?s < 2 ^ 31" using sb txb by simp_all
  have "tx + ?s < 640 * 256" by (rule reg_nx_inside(2) [OF bnd nx])
  then have ty: "0 \<le> ty" "ty < 480" using ok sb by (auto simp: entry_ok_def)
  have "unat (reg_nx tx ?s) < 640" using nx by (simp add: word_less_nat_alt)
  moreover have "unat (word_of_int ty :: u32) = nat ty"
    using ty by (simp add: unat_eq_nat_uint uint_word_of_int)
  ultimately show ?thesis
    using ty by (simp add: t unat_word_ariths)
qed

text \<open>
  Registration never leaves the image. When every entry of the registration table is as
  freenect_init_registration leaves it, the shifts are at least minus one image width and the
  device reports no start lines, every pixel that lands anywhere lands inside the image.
\<close>

theorem lands_inside_image:
  assumes tabs: "tables_ok reg" and e: "\<forall>e \<in> set (the (rg_registration_table reg)). entry_ok e"
    and s: "\<forall>s \<in> set (the (rg_depth_to_rgb_shift reg)). - 163840 \<le> s \<and> s < 2 ^ 30"
    and lines: "rp_start_lines (rg_reg_pad_info reg) = 0"
    and i: "i < 307200" and land: "lands reg md i = Some t"
  shows "t < 307200"
  using assms by (rule lands_inside_image_aux)

theorem lands_inside_image_witness:
  "lands flat_registration (\<lambda>i. 1000) 0 = Some 0 \<and> (0 :: nat) < 307200"
proof -
  have e: "\<forall>e \<in> set (the (rg_registration_table flat_registration)). entry_ok e"
    by (simp add: flat_registration_def entry_ok_def)
  have s: "\<forall>s \<in> set (the (rg_depth_to_rgb_shift flat_registration)). - 163840 \<le> s \<and> s < 2 ^ 30"
    by (simp add: flat_registration_def)
  have l: "rp_start_lines (rg_reg_pad_info flat_registration) = 0"
    by (simp add: flat_registration_def zero_registration_def)
  have land: "lands flat_registration (\<lambda>i. 1000) 0 = Some 0" by (rule flat_lands) simp_all
  from lands_inside_image [OF flat_tables_ok e s l _ land] land show ?thesis by simp
qed

theorem freenect_init_registration_tables_witness:
  "rounding (e_rnd quiet_env) \<and>
   tables_ok (dv_registration (freenect_init_registration quiet_env zero_device)) \<and>
   mm_of (dv_registration (freenect_init_registration quiet_env zero_device)) 2047 = 0"
proof -
  have r: "rounding (e_rnd quiet_env)" by (simp add: rounding_def quiet_env_def mono_def)
  with freenect_init_registration_tables [OF r refl] show ?thesis by blast
qed

text \<open>
  The conversion of a raw value, in exact arithmetic: with \<open>m\<close> the position on the zero plane
  in units of the sensor, the metric depth is ten times \<open>r * e / (e - m)\<close>, truncated, as long as
  it fits 16 bits; \<open>e\<close> is the distance of camera and emitter and \<open>r\<close> the reference distance.
\<close>

theorem freenect_raw_to_mm_exact:
  assumes id: "e_rnd E = (\<lambda>x. x)"
    and m: "m = ((real raw - 4 * rg_const_shift reg) / 4 - 0.375) * zp_reference_pixel_size (rg_zero_plane_info reg)"
    and e: "e = zp_dcmos_emitter_dist (rg_zero_plane_info reg)" and r: "r = zp_reference_distance (rg_zero_plane_info reg)"
    and dist: "e \<noteq> m" and range: "0 \<le> r * e / (e - m)" "10 * (r * e / (e - m)) < 65536"
  shows "freenect_raw_to_mm E raw reg = word_of_int \<lfloor>10 * (r * e / (e - m))\<rfloor>"
proof -
  let ?z = "r * e / (e - m)"
  have q: "m * r / (e - m) + r = ?z" using dist by (simp add: field_simps)
  have "freenect_raw_to_mm E raw reg = to_uint16 E (10 * (m * r / (e - m) + r))"
    using dist unfolding freenect_raw_to_mm_def Let_def id m e r by simp
  moreover have "ctrunc (10 * ?z) = \<lfloor>10 * ?z\<rfloor>"
    using range(1) unfolding ctrunc_def by (intro if_P) (rule mult_nonneg_nonneg, simp_all)
  moreover have "\<lfloor>10 * ?z\<rfloor> < 65536" using range(2) unfolding floor_less_iff by simp
  moreover have "0 \<le> \<lfloor>10 * ?z\<rfloor>" using range(1) unfolding zero_le_floor by (intro mult_nonneg_nonneg) simp_all
  ultimately show ?thesis by (simp only: q to_uint16_def) simp
qed

theorem freenect_raw_to_mm_exact_witness:
  "freenect_raw_to_mm quiet_env 2 (zero_registration\<lparr>rg_zero_plane_info :=
     \<lparr>zp_dcmos_emitter_dist = 1, zp_dcmos_rcmos_dist = 0, zp_reference_distance = 7,
      zp_reference_pixel_size = 4\<rparr>\<rparr>) = 140"
  using freenect_raw_to_mm_exact [of quiet_env "1 / 2" 2 "zero_registration\<lparr>rg_zero_plane_info :=
     \<lparr>zp_dcmos_emitter_dist = 1, zp_dcmos_rcmos_dist = 0, zp_reference_distance = 7,
      zp_reference_pixel_size = 4\<rparr>\<rparr>" 1 7]
  by (simp add: quiet_env_def zero_registration_def)

section \<open>The inverse mapping\<close>

definition rgb_lands :: "freenect_registration \<Rightarrow> u16 list \<Rightarrow> nat \<Rightarrow> nat option" where
  "rgb_lands reg depth_mm i =
     (case map_target (reg_target_offset reg) (the (rg_registration_table reg))
        (the (rg_depth_to_rgb_shift reg)) i (depth_mm ! i) of Some r \<Rightarrow> r | None \<Rightarrow> None)"

text \<open>The colour of depth pixel \<open>i\<close>: black without depth, untouched behind a nearer pixel.\<close>

definition rgb_pixel ::
    "freenect_registration \<Rightarrow> u16 list \<Rightarrow> u8 list \<Rightarrow> u8 list \<Rightarrow> nat \<Rightarrow> u8 list" where
  "rgb_pixel reg depth_mm rgb_raw old i =
     (case rgb_lands reg depth_mm i of
        None \<Rightarrow> [0, 0, 0]
      | Some c \<Rightarrow>
          if depth_mm ! i \<le> nearest (hits (rgb_lands reg depth_mm) ((!) depth_mm) 307200 c)
          then take 3 (drop (3 * c) rgb_raw) else take 3 (drop (3 * i) old))"

lemma map_first_pixel_ok:
  assumes tabs: "tables_ok reg" and d: "length depth_mm = 307200"
    and b: "rg_depth_to_rgb_shift reg = Some b" and c: "rg_registration_table reg = Some c"
    and lt: "unat (depth_mm ! i) < 10000" and i: "i < 307200"
    and inside: "\<And>t. rgb_lands reg depth_mm i = Some t \<Longrightarrow> t < 307200"
  shows "map_first_pixel (reg_target_offset reg) c b depth_mm i
      (map (rgb_lands reg depth_mm) [0..<i], zbuffer (rgb_lands reg depth_mm) ((!) depth_mm) i 307200) =
    Some (map (rgb_lands reg depth_mm) [0..<Suc i],
          zbuffer (rgb_lands reg depth_mm) ((!) depth_mm) (Suc i) 307200)"
proof -
  obtain tx ty where xy: "c ! i = (tx, ty)" by (cases "c ! i")
  have t: "map_target (reg_target_offset reg) c b i (depth_mm ! i) = Some (rgb_lands reg depth_mm i)"
    using tabs b c lt i by (auto simp: tables_ok_def rgb_lands_def map_target_def lookup_def xy Let_def)
  have nz: "rgb_lands reg depth_mm k \<noteq> None \<Longrightarrow> depth_mm ! k \<noteq> 0" for k
    by (auto simp: rgb_lands_def map_target_def)
  have dl: "lookup depth_mm i = Some (depth_mm ! i)" using i d by (simp add: lookup_def)
  show ?thesis
  proof (cases "rgb_lands reg depth_mm i")
    case None
    then show ?thesis using t dl by (simp add: map_first_pixel_def zbuffer_Suc_None)
  next
    case (Some u)
    then have u: "u < 307200" by (rule inside)
    show ?thesis
      using t dl u zbuffer_Suc_Some [where land = "rgb_lands reg depth_mm", OF Some u nz]
      by (simp add: map_first_pixel_def Some lookup_def)
  qed
qed

definition rgb_upto ::
    "freenect_registration \<Rightarrow> u16 list \<Rightarrow> u8 list \<Rightarrow> u8 list \<Rightarrow> nat \<Rightarrow> u8 list" where
  "rgb_upto reg depth_mm rgb_raw old n =
     concat (map (rgb_pixel reg depth_mm rgb_raw old) [0..<n]) @ drop (3 * n) old"

lemma map_second_pixel_ok:
  assumes d: "length depth_mm = 307200" and raw: "length rgb_raw = 921600" and old: "length old = 921600"
    and i: "i < 307200"
    and inside: "\<And>k t. k < 307200 \<Longrightarrow> rgb_lands reg depth_mm k = Some t \<Longrightarrow> t < 307200"
  shows "map_second_pixel (map (rgb_lands reg depth_mm) [0..<307200])
      (zbuffer (rgb_lands reg depth_mm) ((!) depth_mm) 307200 307200) depth_mm rgb_raw i
      (rgb_upto reg depth_mm rgb_raw old i) = Some (rgb_upto reg depth_mm rgb_raw old (Suc i))"
proof -
  have len3: "length (rgb_pixel reg depth_mm rgb_raw old k) = 3" if "k < 307200" for k
    using raw old that inside [OF that] by (auto simp: rgb_pixel_def split: option.split)
  have pre: "length (concat (map (rgb_pixel reg depth_mm rgb_raw old) [0..<n])) = 3 * n" if "n \<le> 307200" for n
    using that by (induction n) (simp_all add: len3)
  have len: "length (rgb_upto reg depth_mm rgb_raw old i) = 921600"
    using i old by (simp add: rgb_upto_def pre)
  have blit: "blit (3 * i) (rgb_pixel reg depth_mm rgb_raw old i) (rgb_upto reg depth_mm rgb_raw old i) =
      rgb_upto reg depth_mm rgb_raw old (Suc i)"
    using i by (simp add: blit_def rgb_upto_def pre len3)
  have keep: "rgb_upto reg depth_mm rgb_raw old (Suc i) = rgb_upto reg depth_mm rgb_raw old i"
    if "rgb_pixel reg depth_mm rgb_raw old i = take 3 (drop (3 * i) old)"
    using that by (simp add: rgb_upto_def) (metis add.commute append_take_drop_id drop_drop)
  have mp: "map (rgb_lands reg depth_mm) [0..<307200] ! i = rgb_lands reg depth_mm i"
    using i by simp
  have b3: "3 * i + 3 \<le> 921600" using i by simp
  have dl: "lookup depth_mm i = Some (depth_mm ! i)" using i d by (simp add: lookup_def)
  show ?thesis
  proof (cases "rgb_lands reg depth_mm i")
    case None
    then have "rgb_pixel reg depth_mm rgb_raw old i = [0, 0, 0]" by (simp add: rgb_pixel_def)
    with blit None show ?thesis by (simp add: map_second_pixel_def len b3 mp)
  next
    case (Some c)
    then have c: "c < 307200" by (rule inside [OF i])
    then have z: "lookup (zbuffer (rgb_lands reg depth_mm) ((!) depth_mm) 307200 307200) c =
        Some (nearest (hits (rgb_lands reg depth_mm) ((!) depth_mm) 307200 c))"
      by (simp add: lookup_def zbuffer_def)
    show ?thesis
    proof (cases "depth_mm ! i \<le> nearest (hits (rgb_lands reg depth_mm) ((!) depth_mm) 307200 c)")
      case True
      then have "rgb_pixel reg depth_mm rgb_raw old i = take 3 (drop (3 * c) rgb_raw)"
        by (simp add: rgb_pixel_def Some)
      with blit True show ?thesis
        using c raw by (simp add: map_second_pixel_def len b3 mp Some z dl)
    next
      case False
      then have "rgb_pixel reg depth_mm rgb_raw old i = take 3 (drop (3 * i) old)"
        by (simp add: rgb_pixel_def Some)
      with keep False show ?thesis
        by (simp add: map_second_pixel_def len b3 mp Some z dl)
    qed
  qed
qed

text \<open>
  C18. The inverse mapping. For a depth image whose values are below 10000 and whose pixels land
  inside the RGB image, freenect_map_rgb_to_depth stays inside all its buffers and colours every
  depth pixel: black without depth or outside the RGB image, the RGB pixel it lands on when no
  nearer pixel lands there, and unchanged when it is occluded.
\<close>

theorem freenect_map_rgb_to_depth_correct:
  assumes tabs: "tables_ok reg" and d: "length depth_mm = 307200"
    and lt: "\<And>i. i < 307200 \<Longrightarrow> unat (depth_mm ! i) < 10000"
    and raw: "length rgb_raw = 921600" and old: "length rgb_registered = 921600"
    and inside: "\<And>i t. i < 307200 \<Longrightarrow> rgb_lands reg depth_mm i = Some t \<Longrightarrow> t < 307200"
  shows "freenect_map_rgb_to_depth reg depth_mm rgb_raw rgb_registered =
    Some (concat (map (rgb_pixel reg depth_mm rgb_raw rgb_registered) [0..<307200]))"
proof -
  obtain b c where bc: "rg_depth_to_rgb_shift reg = Some b" "rg_registration_table reg = Some c"
    using tabs by (auto simp: tables_ok_def)
  let ?mp = "\<lambda>n. map (rgb_lands reg depth_mm) [0..<n]"
  let ?z = "\<lambda>n. zbuffer (rgb_lands reg depth_mm) ((!) depth_mm) n 307200"
  let ?first = "map_first_pixel (reg_target_offset reg) c b depth_mm"
  let ?second = "map_second_pixel (?mp 307200) (?z 307200) depth_mm rgb_raw"
  have "\<exists>s. fold_opt ?first [0..<480 * 640] ([], replicate 307200 0) = Some s \<and>
      s = (?mp (480 * 640), ?z (480 * 640))"
    by (rule fold_opt_upt [where I = "\<lambda>i s. s = (?mp i, ?z i)"])
      (use map_first_pixel_ok [OF tabs d bc] lt inside in \<open>simp_all add: zbuffer_0 del: upt_Suc\<close>)
  then have f1: "fold_opt (\<lambda>y. fold_opt (\<lambda>x. ?first (y * 640 + x)) [0..<640]) [0..<480] ([], replicate 307200 0) =
      Some (?mp 307200, ?z 307200)"
    by (simp add: fold_opt_nested)
  have "\<exists>s. fold_opt ?second [0..<480 * 640] rgb_registered = Some s \<and>
      s = rgb_upto reg depth_mm rgb_raw rgb_registered (480 * 640)"
    by (rule fold_opt_upt [where I = "\<lambda>i s. s = rgb_upto reg depth_mm rgb_raw rgb_registered i"])
      (use map_second_pixel_ok [OF d raw old _ inside] in \<open>simp_all add: rgb_upto_def [of _ _ _ _ 0]\<close>)
  then have f2: "fold_opt (\<lambda>y. fold_opt (\<lambda>x. ?second (y * 640 + x)) [0..<640]) [0..<480] rgb_registered =
      Some (rgb_upto reg depth_mm rgb_raw rgb_registered 307200)"
    by (simp add: fold_opt_nested)
  show ?thesis
    using f1 f2 old by (simp add: freenect_map_rgb_to_depth_def bc rgb_upto_def)
qed

lemma flat_rgb_lands:
  "i < 307200 \<Longrightarrow> rgb_lands flat_registration (replicate 307200 1000) i = Some 0"
  by (simp add: rgb_lands_def flat_registration_def zero_registration_def map_target_def lookup_def
      reg_nx_def reg_target_offset_def)

theorem freenect_map_rgb_to_depth_correct_witness:
  "freenect_map_rgb_to_depth flat_registration (replicate 307200 1000) (replicate 921600 7) (replicate 921600 0) =
    Some (concat (map (rgb_pixel flat_registration (replicate 307200 1000) (replicate 921600 7)
      (replicate 921600 0)) [0..<307200]))"
  by (rule freenect_map_rgb_to_depth_correct [OF flat_tables_ok]) (simp_all add: flat_rgb_lands)

text \<open>
  C40. A clamped pixel is read out of bounds. freenect_apply_depth_to_mm stores 10000 for every
  pixel that is farther away; freenect_map_rgb_to_depth uses that value as an index into the
  shift table, which has 10000 entries, and so has no defined result for an image with such a pixel.
\<close>

theorem freenect_map_rgb_to_depth_clamped:
  assumes tabs: "tables_ok reg" and i: "i < 307200" and mm: "depth_mm ! i = clamp_mm d"
    and far: "10000 \<le> unat d"
  shows "freenect_map_rgb_to_depth reg depth_mm rgb_raw rgb_registered = None"
proof -
  obtain b c where bc: "rg_depth_to_rgb_shift reg = Some b" "length b = 10000" "rg_registration_table reg = Some c"
    using tabs by (auto simp: tables_ok_def)
  have v: "depth_mm ! i = 10000" using mm far by (simp add: clamp_mm_def)
  have "map_first_pixel (reg_target_offset reg) c b depth_mm i s = None" for s
  proof -
    have "map_target (reg_target_offset reg) c b i (depth_mm ! i) = None"
      using bc(2) v by (cases "lookup c i") (auto simp: map_target_def lookup_def)
    then show ?thesis
      by (cases s) (simp add: map_first_pixel_def lookup_def)
  qed
  then have "fold_opt (map_first_pixel (reg_target_offset reg) c b depth_mm) [0..<480 * 640]
      ([], replicate 307200 0) = None"
    by (rule fold_opt_None [rotated]) (use i in simp)
  then show ?thesis
    by (simp add: freenect_map_rgb_to_depth_def bc fold_opt_nested)
qed

theorem freenect_map_rgb_to_depth_clamped_witness:
  "freenect_map_rgb_to_depth flat_registration (replicate 307200 10000) [] [] = None"
  by (rule freenect_map_rgb_to_depth_clamped [OF flat_tables_ok, of 0 _ 12000]) (simp_all add: clamp_mm_def)

end
