(* ===== verification/Frames.thy ===== *)
theory Frames
  imports Stream Color Modes Registration
begin

text \<open>
  What the isochronous callbacks of the two cameras do with a packet (depth_process and
  video_process of src/cameras.c): assemble it into the stream, and when a frame is complete
  convert the raw buffer into the client's format and call the client.

  The lemmas show that on a stream which was started for its format no packet, whatever it holds,
  makes the library read or write outside its buffers.
\<close>

section \<open>depth_process\<close>

definition u16_bytes :: "u16 list \<Rightarrow> u8 list" where
  "u16_bytes ws = concat (map le16 ws)"

text \<open>
  The switch over the depth format. The raw and the processed buffer are different blocks in all
  formats that convert.
\<close>

definition depth_convert :: "freenect_device \<Rightarrow> heap \<Rightarrow> heap option" where
  "depth_convert dev h =
     (let strm = dv_depth dev
      in case dv_depth_format dev of
        FREENECT_DEPTH_11BIT \<Rightarrow> do {
          raw \<leftarrow> mem_block (ps_raw_buf strm) h;
          ws \<leftarrow> convert_packed11_to_16bit raw (640 * 480);
          mem_write (ps_proc_buf strm) 0 (u16_bytes ws) h
        }
      | FREENECT_DEPTH_REGISTERED \<Rightarrow> do {
          raw \<leftarrow> mem_block (ps_raw_buf strm) h;
          ws \<leftarrow> freenect_apply_registration_packed (dv_registration dev) raw;
          mem_write (ps_proc_buf strm) 0 (u16_bytes ws) h
        }
      | FREENECT_DEPTH_MM \<Rightarrow> do {
          raw \<leftarrow> mem_block (ps_raw_buf strm) h;
          ws \<leftarrow> freenect_apply_depth_to_mm (dv_registration dev) raw;
          mem_write (ps_proc_buf strm) 0 (u16_bytes ws) h
        }
      | FREENECT_DEPTH_10BIT \<Rightarrow> do {
          raw \<leftarrow> mem_block (ps_raw_buf strm) h;
          ws \<leftarrow> convert_packed_to_16bit raw 10 (640 * 480);
          mem_write (ps_proc_buf strm) 0 (u16_bytes ws) h
        }
      | FREENECT_DEPTH_10BIT_PACKED \<Rightarrow> Some h
      | FREENECT_DEPTH_11BIT_PACKED \<Rightarrow> Some h
      | FREENECT_DEPTH_DUMMY \<Rightarrow> Some h)"

definition chunk_event :: "nat option \<Rightarrow> nat option \<Rightarrow> chunk_call option \<Rightarrow> st \<Rightarrow> st" where
  "chunk_event cb user_data call s =
     (case (cb, call) of
        (Some c, Some (raw, data, pkt_num, datalen)) \<Rightarrow> emit (IO_chunk_cb c raw data pkt_num datalen user_data) s
      | _ \<Rightarrow> s)"

definition depth_process :: "nat \<Rightarrow> u8 list \<Rightarrow> st \<Rightarrow> st option" where
  "depth_process d pkt s = do {
     dev \<leftarrow> st_devs s d;
     if pkt = [] then Some s
     else if \<not> ps_running (dv_depth dev) then Some s
     else do {
       (got_frame_size, strm, h, chunk) \<leftarrow>
         stream_process (dv_depth dev) pkt (dv_depth_chunk_cb dev \<noteq> None) (st_heap s);
       let dev = dev\<lparr>dv_depth := strm\<rparr>;
       let s = chunk_event (dv_depth_chunk_cb dev) (dv_user_data dev) chunk (set_dev d dev (s\<lparr>st_heap := h\<rparr>));
       if got_frame_size = 0 then Some s
       else do {
         h \<leftarrow> depth_convert dev (st_heap s);
         let s = s\<lparr>st_heap := h\<rparr>;
         Some (case dv_depth_cb dev of
                 None \<Rightarrow> s
               | Some cb \<Rightarrow> emit (IO_depth_cb cb d (ps_proc_buf strm) (ps_timestamp strm)) s)
       }
     }
   }"

section \<open>video_process\<close>

definition video_convert :: "freenect_device \<Rightarrow> heap \<Rightarrow> heap option" where
  "video_convert dev h =
     (let strm = dv_video dev
      in case dv_video_format dev of
        FREENECT_VIDEO_RGB \<Rightarrow> do {
          m \<leftarrow> freenect_get_current_video_mode dev;
          raw \<leftarrow> mem_block (ps_raw_buf strm) h;
          bs \<leftarrow> convert_bayer_to_rgb (nat (fm_width m)) (nat (fm_height m)) raw;
          mem_write (ps_proc_buf strm) 0 bs h
        }
      | FREENECT_VIDEO_BAYER \<Rightarrow> Some h
      | FREENECT_VIDEO_IR_10BIT \<Rightarrow> do {
          m \<leftarrow> freenect_get_current_video_mode dev;
          raw \<leftarrow> mem_block (ps_raw_buf strm) h;
          ws \<leftarrow> convert_packed_to_16bit raw 10 (nat (fm_width m * fm_height m));
          mem_write (ps_proc_buf strm) 0 (u16_bytes ws) h
        }
      | FREENECT_VIDEO_IR_10BIT_PACKED \<Rightarrow> Some h
      | FREENECT_VIDEO_IR_8BIT \<Rightarrow> do {
          m \<leftarrow> freenect_get_current_video_mode dev;
          raw \<leftarrow> mem_block (ps_raw_buf strm) h;
          bs \<leftarrow> convert_packed_to_8bit raw 10 (nat (fm_width m * fm_height m));
          mem_write (ps_proc_buf strm) 0 bs h
        }
      | FREENECT_VIDEO_YUV_RGB \<Rightarrow> do {
          m \<leftarrow> freenect_get_current_video_mode dev;
          raw \<leftarrow> mem_block (ps_raw_buf strm) h;
          proc \<leftarrow> mem_block (ps_proc_buf strm) h;
          bs \<leftarrow> convert_uyvy_to_rgb (nat (fm_width m)) (nat (fm_height m)) raw proc;
          mem_write (ps_proc_buf strm) 0 bs h
        }
      | FREENECT_VIDEO_YUV_RAW \<Rightarrow> Some h
      | FREENECT_VIDEO_DUMMY \<Rightarrow> Some h)"

definition video_process :: "nat \<Rightarrow> u8 list \<Rightarrow> st \<Rightarrow> st option" where
  "video_process d pkt s = do {
     dev \<leftarrow> st_devs s d;
     if pkt = [] then Some s
     else if \<not> ps_running (dv_video dev) then Some s
     else do {
       (got_frame_size, strm, h, chunk) \<leftarrow>
         stream_process (dv_video dev) pkt (dv_video_chunk_cb dev \<noteq> None) (st_heap s);
       let dev = dev\<lparr>dv_video := strm\<rparr>;
       let s = chunk_event (dv_video_chunk_cb dev) (dv_user_data dev) chunk (set_dev d dev (s\<lparr>st_heap := h\<rparr>));
       if got_frame_size = 0 then Some s
       else do {
         h \<leftarrow> video_convert dev (st_heap s);
         let s = s\<lparr>st_heap := h\<rparr>;
         Some (case dv_video_cb dev of
                 None \<Rightarrow> s
               | Some cb \<Rightarrow> emit (IO_video_cb cb d (ps_proc_buf strm) (ps_timestamp strm)) s)
       }
     }
   }"

section \<open>Streams that were started for their format\<close>

text \<open>The raw buffer holds exactly one frame, and the processed frame has room in another block.\<close>

definition bufs_ok :: "packet_stream \<Rightarrow> nat \<Rightarrow> nat \<Rightarrow> heap \<Rightarrow> bool" where
  "bufs_ok strm rlen plen h \<longleftrightarrow>
     wf_stream strm h \<and> ps_raw_buf strm \<noteq> ps_proc_buf strm \<and>
     map_option length (mem_block (ps_raw_buf strm) h) = Some rlen \<and>
     (\<exists>n. map_option length (mem_block (ps_proc_buf strm) h) = Some n \<and> plen \<le> n)"

definition registration_ok :: "freenect_registration \<Rightarrow> bool" where
  "registration_ok reg \<longleftrightarrow>
     tables_ok reg \<and> (\<forall>e \<in> set (the (rg_registration_table reg)). entry_ok e) \<and>
     (\<forall>s \<in> set (the (rg_depth_to_rgb_shift reg)). - 163840 \<le> s \<and> s < 2 ^ 30) \<and>
     rp_start_lines (rg_reg_pad_info reg) = 0"

definition depth_inv :: "freenect_device \<Rightarrow> heap \<Rightarrow> bool" where
  "depth_inv dev h =
     (case dv_depth_format dev of
        FREENECT_DEPTH_11BIT \<Rightarrow> bufs_ok (dv_depth dev) 422400 614400 h
      | FREENECT_DEPTH_10BIT \<Rightarrow> bufs_ok (dv_depth dev) 384000 614400 h
      | FREENECT_DEPTH_MM \<Rightarrow> bufs_ok (dv_depth dev) 422400 614400 h \<and> tables_ok (dv_registration dev)
      | FREENECT_DEPTH_REGISTERED \<Rightarrow>
          bufs_ok (dv_depth dev) 422400 614400 h \<and> registration_ok (dv_registration dev)
      | _ \<Rightarrow> wf_stream (dv_depth dev) h)"

definition video_inv :: "freenect_device \<Rightarrow> heap \<Rightarrow> bool" where
  "video_inv dev h =
     (case freenect_get_current_video_mode dev of
        None \<Rightarrow> False
      | Some m \<Rightarrow>
          let n = nat (fm_width m * fm_height m)
          in case dv_video_format dev of
               FREENECT_VIDEO_RGB \<Rightarrow> bufs_ok (dv_video dev) n (3 * n) h
             | FREENECT_VIDEO_IR_10BIT \<Rightarrow> bufs_ok (dv_video dev) (n * 10 div 8) (2 * n) h
             | FREENECT_VIDEO_IR_8BIT \<Rightarrow> bufs_ok (dv_video dev) (n * 10 div 8) n h
             | FREENECT_VIDEO_YUV_RGB \<Rightarrow> bufs_ok (dv_video dev) (2 * n) (3 * n) h
             | _ \<Rightarrow> wf_stream (dv_video dev) h)"

section \<open>Lemmas\<close>

lemma length_u16_bytes [simp]: "length (u16_bytes ws) = 2 * length ws"
  by (induction ws) (simp_all add: u16_bytes_def)

lemma bufs_okE:
  assumes "bufs_ok strm rlen plen h"
  obtains a b raw proc where "ps_raw_buf strm = Some a" "ps_proc_buf strm = Some b" "a \<noteq> b"
    "hp_blocks h a = Some raw" "length raw = rlen" "hp_blocks h b = Some proc" "plen \<le> length proc"
  using assms by (auto simp: bufs_ok_def mem_block_def split: option.splits)

text \<open>A stream keeps its buffers when a packet is processed, and when a frame is converted.\<close>

lemma bufs_ok_same:
  assumes "bufs_ok strm rlen plen h" and "wf_stream strm' h'" and "geom strm' = geom strm"
    and sb: "same_blocks p h h'"
  shows "bufs_ok strm' rlen plen h'"
proof -
  have len: "map_option length (mem_block q h') = map_option length (mem_block q h)" for q
    using sb by (auto simp: same_blocks_def mem_block_def split: option.split)
  have "ps_raw_buf strm' = ps_raw_buf strm" "ps_proc_buf strm' = ps_proc_buf strm"
    using assms(3) by (simp_all add: geom_def)
  with assms(1,2) len show ?thesis by (simp add: bufs_ok_def)
qed

lemma wf_stream_same:
  assumes "wf_stream strm h" and sb: "same_blocks p h h'"
  shows "wf_stream strm h'"
proof -
  obtain blk where blk: "mem_block (ps_raw_buf strm) h = Some blk" "ps_frame_size strm \<le> int (length blk)"
    using assms(1) by (auto simp: wf_stream_def wf_buf_def)
  have "map_option length (mem_block (ps_raw_buf strm) h') = map_option length (mem_block (ps_raw_buf strm) h)"
    using sb by (auto simp: same_blocks_def mem_block_def split: option.split)
  with blk have "wf_buf strm h'" by (auto simp: wf_buf_def)
  with assms(1) show ?thesis by (simp add: wf_stream_def)
qed

lemma depth_inv_same:
  assumes "depth_inv dev h" and "same_blocks p h h'" and "wf_stream strm h'" and "geom strm = geom (dv_depth dev)"
  shows "depth_inv (dev\<lparr>dv_depth := strm\<rparr>) h'"
  using assms bufs_ok_same [OF _ assms(3,4,2)]
  by (auto simp: depth_inv_def split: freenect_depth_format.splits)

lemma video_inv_same:
  assumes "video_inv dev h" and "same_blocks p h h'" and "wf_stream strm h'" and "geom strm = geom (dv_video dev)"
  shows "video_inv (dev\<lparr>dv_video := strm\<rparr>) h'"
  using assms bufs_ok_same [OF _ assms(3,4,2)]
  by (auto simp: video_inv_def Let_def freenect_get_current_video_mode_def
      split: freenect_video_format.splits option.splits)

text \<open>Writing a converted frame.\<close>

lemma write_frame:
  assumes "bufs_ok strm rlen plen h" and "length bs \<le> plen"
  obtains h' where "mem_write (ps_proc_buf strm) 0 bs h = Some h'" and "same_blocks (ps_proc_buf strm) h h'"
proof -
  from assms(1) obtain b proc where b: "ps_proc_buf strm = Some b" "hp_blocks h b = Some proc" "plen \<le> length proc"
    by (rule bufs_okE)
  with assms(2) have "mem_write (ps_proc_buf strm) 0 bs h =
      Some (h\<lparr>hp_blocks := (hp_blocks h)(b \<mapsto> blit 0 bs proc)\<rparr>)"
    by (simp add: mem_write_ok)
  with that mem_write_same_blocks show thesis by blast
qed

text \<open>
  One conversion that reads the raw buffer: if the converter accepts every raw buffer of the right
  length and produces no more than the room, the write succeeds.
\<close>

lemma convert_write_ok:
  assumes "bufs_ok strm rlen plen h"
    and "\<And>raw. length raw = rlen \<Longrightarrow> \<exists>bs. conv raw = Some bs \<and> length bs \<le> plen"
  shows "\<exists>h'. do { raw \<leftarrow> mem_block (ps_raw_buf strm) h; bs \<leftarrow> conv raw; mem_write (ps_proc_buf strm) 0 bs h } = Some h' \<and>
    same_blocks (ps_proc_buf strm) h h'"
proof -
  obtain raw where raw: "mem_block (ps_raw_buf strm) h = Some raw" "length raw = rlen"
    using assms(1) by (auto elim: bufs_okE)
  from assms(2) [OF raw(2)] obtain bs where bs: "conv raw = Some bs" "length bs \<le> plen" by blast
  from write_frame [OF assms(1) bs(2)] obtain h' where "mem_write (ps_proc_buf strm) 0 bs h = Some h'"
    and "same_blocks (ps_proc_buf strm) h h'" .
  with raw bs show ?thesis by simp
qed

text \<open>The same for a converter to 16-bit values.\<close>

lemma convert_words_ok:
  assumes b: "bufs_ok strm rlen plen h" and "2 * n \<le> plen"
    and conv: "\<And>raw. length raw = rlen \<Longrightarrow> \<exists>ws. conv raw = Some ws \<and> length ws = n"
  shows "\<exists>h'. do { raw \<leftarrow> mem_block (ps_raw_buf strm) h; ws \<leftarrow> conv raw;
      mem_write (ps_proc_buf strm) 0 (u16_bytes ws) h } = Some h' \<and> same_blocks (ps_proc_buf strm) h h'"
proof -
  have "do { raw \<leftarrow> mem_block (ps_raw_buf strm) h; ws \<leftarrow> conv raw; mem_write (ps_proc_buf strm) 0 (u16_bytes ws) h } =
      do { raw \<leftarrow> mem_block (ps_raw_buf strm) h; bs \<leftarrow> map_option u16_bytes (conv raw); mem_write (ps_proc_buf strm) 0 bs h }"
    by (cases "mem_block (ps_raw_buf strm) h"; cases "conv (the (mem_block (ps_raw_buf strm) h))") auto
  moreover have "\<exists>bs. map_option u16_bytes (conv raw) = Some bs \<and> length bs \<le> plen" if "length raw = rlen" for raw
    using conv [OF that] assms(2) by auto
  ultimately show ?thesis
    using convert_write_ok [OF b, of "\<lambda>raw. map_option u16_bytes (conv raw)"] by simp
qed

lemma depth_convert_ok:
  assumes inv: "depth_inv dev h"
  shows "\<exists>h' p. depth_convert dev h = Some h' \<and> same_blocks p h h'"
proof -
  let ?reg = "dv_registration dev"
  show ?thesis
  proof (cases "dv_depth_format dev")
    case FREENECT_DEPTH_11BIT
    have c: "\<exists>ws. convert_packed11_to_16bit raw (640 * 480) = Some ws \<and> length ws = 307200" if "length raw = 422400" for raw
      using convert_packed11_slices [of 38400 raw] that by simp
    have b: "bufs_ok (dv_depth dev) 422400 614400 h"
      using inv FREENECT_DEPTH_11BIT by (simp add: depth_inv_def)
    have "2 * 307200 \<le> (614400 :: nat)" by simp
    from convert_words_ok [where conv = "\<lambda>raw. convert_packed11_to_16bit raw (640 * 480)", OF b this c] show ?thesis
      unfolding depth_convert_def Let_def FREENECT_DEPTH_11BIT freenect_depth_format.case by blast
  next
    case FREENECT_DEPTH_10BIT
    have c: "\<exists>ws. convert_packed_to_16bit raw 10 (640 * 480) = Some ws \<and> length ws = 307200" if "length raw = 384000" for raw
      using packed_to_16bit_loop_spec [of 10 raw 0 0 0 0 "640 * 480"] that by (simp add: convert_packed_to_16bit_def)
    have b: "bufs_ok (dv_depth dev) 384000 614400 h"
      using inv FREENECT_DEPTH_10BIT by (simp add: depth_inv_def)
    have "2 * 307200 \<le> (614400 :: nat)" by simp
    from convert_words_ok [where conv = "\<lambda>raw. convert_packed_to_16bit raw 10 (640 * 480)", OF b this c] show ?thesis
      unfolding depth_convert_def Let_def FREENECT_DEPTH_10BIT freenect_depth_format.case by blast
  next
    case FREENECT_DEPTH_REGISTERED
    then have r: "registration_ok ?reg" and b: "bufs_ok (dv_depth dev) 422400 614400 h"
      using inv by (simp_all add: depth_inv_def)
    have c: "\<exists>ws. freenect_apply_registration_packed ?reg raw = Some ws \<and> length ws = 307200" if len: "length raw = 422400" for raw
    proof -
      have "freenect_apply_registration_packed ?reg raw =
          Some (zbuffer (lands ?reg (\<lambda>i. mm_of ?reg (packed_elem 11 raw i))) (\<lambda>i. mm_of ?reg (packed_elem 11 raw i)) 307200 307200)"
        using r by (intro freenect_apply_registration_packed_correct_aux [OF _ len refl])
          (auto simp: registration_ok_def intro: lands_inside_image_aux)
      then show ?thesis by simp
    qed
    have "2 * 307200 \<le> (614400 :: nat)" by simp
    from convert_words_ok [where conv = "freenect_apply_registration_packed ?reg", OF b this c] show ?thesis
      unfolding depth_convert_def Let_def FREENECT_DEPTH_REGISTERED freenect_depth_format.case by blast
  next
    case FREENECT_DEPTH_MM
    then obtain a where a: "rg_raw_to_mm_shift ?reg = Some a" "length a = 2048"
      and b: "bufs_ok (dv_depth dev) 422400 614400 h"
      using inv by (auto simp: depth_inv_def tables_ok_def)
    have c: "\<exists>ws. freenect_apply_depth_to_mm ?reg raw = Some ws \<and> length ws = 307200" if "length raw = 422400" for raw
      using freenect_apply_depth_to_mm_correct_aux [OF a that] by simp
    have "2 * 307200 \<le> (614400 :: nat)" by simp
    from convert_words_ok [where conv = "freenect_apply_depth_to_mm ?reg", OF b this c] show ?thesis
      unfolding depth_convert_def Let_def FREENECT_DEPTH_MM freenect_depth_format.case by blast
  qed (auto simp: depth_convert_def intro: same_blocks_refl)
qed

lemma length_concat_3: "(\<And>i. i < n \<Longrightarrow> length (f i) = 3) \<Longrightarrow> length (concat (map f [0..<n])) = 3 * n"
  by (induction n) simp_all

lemma length_demosaic_rows: "length (demosaic_rows w h raw n) = 3 * (w * n)"
proof -
  have "length (demosaic w h raw y x) = 3" for y x by (simp add: demosaic_def Let_def)
  then have "length (concat (map (demosaic w h raw y) [0..<w])) = 3 * w" for y
    by (intro length_concat_3)
  then show ?thesis by (induction n) (simp_all add: demosaic_rows_def)
qed

lemma video_mode_even:
  assumes "freenect_get_current_video_mode dev = Some m"
  shows "even (nat (fm_width m))" and "2 \<le> nat (fm_width m)" and "3 \<le> nat (fm_height m)"
    and "8 dvd nat (fm_width m * fm_height m)"
    and "nat (fm_width m * fm_height m) = nat (fm_width m) * nat (fm_height m)"
proof -
  have "m \<in> set supported_video_modes"
    using assms by (auto simp: freenect_get_current_video_mode_def freenect_find_video_mode_def Let_def find_Some_iff)
  then show "even (nat (fm_width m))" and "2 \<le> nat (fm_width m)" and "3 \<le> nat (fm_height m)"
    and "8 dvd nat (fm_width m * fm_height m)"
    and "nat (fm_width m * fm_height m) = nat (fm_width m) * nat (fm_height m)"
    by (auto simp: supported_video_modes_def mode_row_def)
qed

lemma video_convert_ok:
  assumes inv: "video_inv dev h"
  shows "\<exists>h' p. video_convert dev h = Some h' \<and> same_blocks p h h'"
proof -
  obtain m where m: "freenect_get_current_video_mode dev = Some m"
    using inv by (auto simp: video_inv_def split: option.splits)
  define w where "w = nat (fm_width m)"
  define hh where "hh = nat (fm_height m)"
  have dims: "even w" "2 \<le> w" "3 \<le> hh" "8 dvd w * hh" "nat (fm_width m * fm_height m) = w * hh"
    using video_mode_even [OF m] by (simp_all add: w_def hh_def)
  have n: "nat (fm_width m) = w" "nat (fm_height m) = hh" by (simp_all add: w_def hh_def)
  have ten: "8 * (w * hh * 10 div 8) = w * hh * 10" using dims(4) by (elim dvdE) simp
  show ?thesis
  proof (cases "dv_video_format dev")
    case FREENECT_VIDEO_RGB
    have c: "\<exists>bs. convert_bayer_to_rgb w hh raw = Some bs \<and> length bs \<le> 3 * (w * hh)" if "length raw = w * hh" for raw
      using convert_bayer_to_rgb_correct_aux [OF dims(2,3) that] by (simp add: length_demosaic_rows)
    have b: "bufs_ok (dv_video dev) (w * hh) (3 * (w * hh)) h"
      using inv m FREENECT_VIDEO_RGB dims(5) by (simp add: video_inv_def Let_def)
    from convert_write_ok [where conv = "convert_bayer_to_rgb w hh", OF b c] show ?thesis
      unfolding video_convert_def Let_def FREENECT_VIDEO_RGB freenect_video_format.case m n bind.bind_lunit by blast
  next
    case FREENECT_VIDEO_IR_10BIT
    have c: "\<exists>ws. convert_packed_to_16bit raw 10 (w * hh) = Some ws \<and> length ws = w * hh"
      if "length raw = w * hh * 10 div 8" for raw
      using packed_to_16bit_loop_spec [of 10 raw 0 0 0 0 "w * hh"] that ten by (simp add: convert_packed_to_16bit_def)
    have b: "bufs_ok (dv_video dev) (w * hh * 10 div 8) (2 * (w * hh)) h"
      using inv by (simp only: video_inv_def Let_def m FREENECT_VIDEO_IR_10BIT dims(5) option.case freenect_video_format.case)
    from convert_words_ok [where conv = "\<lambda>raw. convert_packed_to_16bit raw 10 (w * hh)", OF b le_refl c] show ?thesis
      unfolding video_convert_def Let_def FREENECT_VIDEO_IR_10BIT freenect_video_format.case m dims(5) bind.bind_lunit by blast
  next
    case FREENECT_VIDEO_IR_8BIT
    have c: "\<exists>bs. convert_packed_to_8bit raw 10 (w * hh) = Some bs \<and> length bs \<le> w * hh"
      if "length raw = w * hh * 10 div 8" for raw
      using packed_to_8bit_loop_spec [of 10 raw 0 0 0 0 "w * hh"] that ten by (simp add: convert_packed_to_8bit_def)
    have b: "bufs_ok (dv_video dev) (w * hh * 10 div 8) (w * hh) h"
      using inv by (simp only: video_inv_def Let_def m FREENECT_VIDEO_IR_8BIT dims(5) option.case freenect_video_format.case)
    from convert_write_ok [where conv = "\<lambda>raw. convert_packed_to_8bit raw 10 (w * hh)", OF b c] show ?thesis
      unfolding video_convert_def Let_def FREENECT_VIDEO_IR_8BIT freenect_video_format.case m dims(5) bind.bind_lunit by blast
  next
    case FREENECT_VIDEO_YUV_RGB
    then have b: "bufs_ok (dv_video dev) (2 * (w * hh)) (3 * (w * hh)) h"
      using inv m dims(5) by (simp add: video_inv_def Let_def)
    then obtain a b raw proc where ab: "ps_raw_buf (dv_video dev) = Some a" "ps_proc_buf (dv_video dev) = Some b"
      "hp_blocks h a = Some raw" "length raw = 2 * (w * hh)" "hp_blocks h b = Some proc" "3 * (w * hh) \<le> length proc"
      by (rule bufs_okE)
    have conv: "convert_uyvy_to_rgb w hh raw proc =
        Some (concat (map (uyvy_rgb raw) [0..<w * hh]) @ drop (3 * (w * hh)) proc)"
      by (rule convert_uyvy_to_rgb_correct_aux [OF dims(1) ab(4,6)])
    have "length (concat (map (uyvy_rgb raw) [0..<w * hh]) @ drop (3 * (w * hh)) proc) \<le> length proc"
      using ab(6) by (simp add: length_uyvy_prefix)
    then have "mem_write (Some b) 0 (concat (map (uyvy_rgb raw) [0..<w * hh]) @ drop (3 * (w * hh)) proc) h =
        Some (h\<lparr>hp_blocks := (hp_blocks h)(b \<mapsto> blit 0 (concat (map (uyvy_rgb raw) [0..<w * hh]) @ drop (3 * (w * hh)) proc) proc)\<rparr>)"
      using ab(5) by (intro mem_write_ok [THEN trans]) simp_all
    with mem_write_same_blocks [OF this] show ?thesis
      using m n ab conv by (auto simp: video_convert_def FREENECT_VIDEO_YUV_RGB)
  qed (auto simp: video_convert_def intro: same_blocks_refl)
qed

lemma chunk_event_simps [simp]:
  "st_heap (chunk_event cb u c s) = st_heap s" "st_devs (chunk_event cb u c s) = st_devs s"
  "st_ctx (chunk_event cb u c s) = st_ctx s" "st_next_dev (chunk_event cb u c s) = st_next_dev s"
  by (simp_all add: chunk_event_def split: option.splits prod.splits)

text \<open>
  What a packet may change: the memory keeps its blocks and their sizes, and of the devices only
  the stream of this one is touched.
\<close>

definition same_lengths :: "heap \<Rightarrow> heap \<Rightarrow> bool" where
  "same_lengths h h' \<longleftrightarrow>
     (\<forall>a. map_option length (hp_blocks h' a) = map_option length (hp_blocks h a)) \<and>
     hp_next h' = hp_next h \<and> hp_avail h' = hp_avail h \<and> hp_fill h' = hp_fill h"

lemma same_blocks_lengths: "same_blocks p h h' \<Longrightarrow> same_lengths h h'"
  by (simp add: same_blocks_def same_lengths_def)

lemma same_lengths_refl [simp]: "same_lengths h h"
  by (simp add: same_lengths_def)

lemma same_lengths_trans: "same_lengths h h' \<Longrightarrow> same_lengths h' h'' \<Longrightarrow> same_lengths h h''"
  by (simp add: same_lengths_def)

lemma geom_raw: "geom s = geom t \<Longrightarrow> ps_raw_buf s = ps_raw_buf t"
  by (simp add: geom_def)

lemma depth_inv_wf: "depth_inv dev h \<Longrightarrow> wf_stream (dv_depth dev) h"
  by (cases "dv_depth_format dev") (auto simp: depth_inv_def bufs_ok_def)

lemma video_inv_wf: "video_inv dev h \<Longrightarrow> wf_stream (dv_video dev) h"
  by (cases "dv_video_format dev") (auto simp: video_inv_def bufs_ok_def Let_def split: option.splits)

lemma dv_depth_update_same [simp]: "dev\<lparr>dv_depth := dv_depth dev\<rparr> = dev"
  by simp

lemma depth_process_ok:
  assumes dev: "st_devs s d = Some dev" and inv: "depth_inv dev (st_heap s)"
  shows "\<exists>s' strm. depth_process d pkt s = Some s' \<and> st_devs s' = (st_devs s)(d \<mapsto> dev\<lparr>dv_depth := strm\<rparr>) \<and>
    geom strm = geom (dv_depth dev) \<and> depth_inv (dev\<lparr>dv_depth := strm\<rparr>) (st_heap s') \<and>
    same_lengths (st_heap s) (st_heap s') \<and> st_ctx s' = st_ctx s \<and> st_next_dev s' = st_next_dev s"
proof (cases "pkt = [] \<or> \<not> ps_running (dv_depth dev)")
  case True
  then have "depth_process d pkt s = Some s" using dev by (auto simp: depth_process_def)
  then show ?thesis using dev inv by (intro exI [of _ s] exI [of _ "dv_depth dev"]) (auto simp: fun_upd_idem)
next
  case False
  obtain r strm h1 c where p: "stream_process (dv_depth dev) pkt (dv_depth_chunk_cb dev \<noteq> None) (st_heap s) = Some (r, strm, h1, c)"
    and wf: "wf_stream strm h1" and g: "geom strm = geom (dv_depth dev)"
    and sb: "same_blocks (ps_raw_buf (dv_depth dev)) (st_heap s) h1"
    by (rule stream_process_safe_aux [OF depth_inv_wf [OF inv]])
  let ?dev = "dev\<lparr>dv_depth := strm\<rparr>"
  let ?s1 = "chunk_event (dv_depth_chunk_cb dev) (dv_user_data dev) c (set_dev d ?dev (s\<lparr>st_heap := h1\<rparr>))"
  have inv1: "depth_inv ?dev h1" by (rule depth_inv_same [OF inv sb wf g])
  show ?thesis
  proof (cases "r = 0")
    case True
    then have "depth_process d pkt s = Some ?s1" using dev False p by (simp add: depth_process_def)
    then show ?thesis using inv1 g same_blocks_lengths [OF sb]
      by (intro exI [of _ ?s1] exI [of _ strm]) simp
  next
    case r: False
    from depth_convert_ok [OF inv1] obtain h2 q where h2: "depth_convert ?dev h1 = Some h2" "same_blocks q h1 h2"
      by blast
    let ?s2 = "?s1\<lparr>st_heap := h2\<rparr>"
    let ?s3 = "case dv_depth_cb dev of None \<Rightarrow> ?s2
      | Some cb \<Rightarrow> emit (IO_depth_cb cb d (ps_proc_buf strm) (ps_timestamp strm)) ?s2"
    have "depth_process d pkt s = Some ?s3" using dev False p r h2 by (simp add: depth_process_def Let_def)
    moreover have "depth_inv ?dev h2"
      using depth_inv_same [OF inv1 h2(2) wf_stream_same [OF wf h2(2)]] by simp
    moreover have "same_lengths (st_heap s) h2"
      using same_lengths_trans same_blocks_lengths sb h2(2) by blast
    ultimately show ?thesis using g
      by (intro exI [of _ ?s3] exI [of _ strm]) (simp split: option.split)
  qed
qed

lemma video_process_ok:
  assumes dev: "st_devs s d = Some dev" and inv: "video_inv dev (st_heap s)"
  shows "\<exists>s' strm. video_process d pkt s = Some s' \<and> st_devs s' = (st_devs s)(d \<mapsto> dev\<lparr>dv_video := strm\<rparr>) \<and>
    geom strm = geom (dv_video dev) \<and> video_inv (dev\<lparr>dv_video := strm\<rparr>) (st_heap s') \<and>
    same_lengths (st_heap s) (st_heap s') \<and> st_ctx s' = st_ctx s \<and> st_next_dev s' = st_next_dev s"
proof (cases "pkt = [] \<or> \<not> ps_running (dv_video dev)")
  case True
  then have "video_process d pkt s = Some s" using dev by (auto simp: video_process_def)
  then show ?thesis using dev inv by (intro exI [of _ s] exI [of _ "dv_video dev"]) (auto simp: fun_upd_idem)
next
  case False
  obtain r strm h1 c where p: "stream_process (dv_video dev) pkt (dv_video_chunk_cb dev \<noteq> None) (st_heap s) = Some (r, strm, h1, c)"
    and wf: "wf_stream strm h1" and g: "geom strm = geom (dv_video dev)"
    and sb: "same_blocks (ps_raw_buf (dv_video dev)) (st_heap s) h1"
    by (rule stream_process_safe_aux [OF video_inv_wf [OF inv]])
  let ?dev = "dev\<lparr>dv_video := strm\<rparr>"
  let ?s1 = "chunk_event (dv_video_chunk_cb dev) (dv_user_data dev) c (set_dev d ?dev (s\<lparr>st_heap := h1\<rparr>))"
  have inv1: "video_inv ?dev h1" by (rule video_inv_same [OF inv sb wf g])
  show ?thesis
  proof (cases "r = 0")
    case True
    then have "video_process d pkt s = Some ?s1" using dev False p by (simp add: video_process_def)
    then show ?thesis using inv1 g same_blocks_lengths [OF sb]
      by (intro exI [of _ ?s1] exI [of _ strm]) simp
  next
    case r: False
    from video_convert_ok [OF inv1] obtain h2 q where h2: "video_convert ?dev h1 = Some h2" "same_blocks q h1 h2"
      by blast
    let ?s2 = "?s1\<lparr>st_heap := h2\<rparr>"
    let ?s3 = "case dv_video_cb dev of None \<Rightarrow> ?s2
      | Some cb \<Rightarrow> emit (IO_video_cb cb d (ps_proc_buf strm) (ps_timestamp strm)) ?s2"
    have "video_process d pkt s = Some ?s3" using dev False p r h2 by (simp add: video_process_def Let_def)
    moreover have "video_inv ?dev h2"
      using video_inv_same [OF inv1 h2(2) wf_stream_same [OF wf h2(2)]] by simp
    moreover have "same_lengths (st_heap s) h2"
      using same_lengths_trans same_blocks_lengths sb h2(2) by blast
    ultimately show ?thesis using g
      by (intro exI [of _ ?s3] exI [of _ strm]) (simp split: option.split)
  qed
qed

section \<open>Properties\<close>

text \<open>
  C9. No packet of the depth camera leaves the buffers. When the stream has the buffers that
  its format needs (\<open>depth_inv\<close>), depth_process accepts every packet whatever it holds: it returns,
  keeps the invariant of the stream, frees and allocates nothing and changes no other device. For
  millimetres the invariant also asks for registration tables of their sizes; for registered depth it
  asks for a calibration that can be used (\<open>registration_ok\<close>): every entry of the table a pixel of the
  image or marked as outside, shifts of at least -163840 and below 2^30, and no start_lines. These
  numbers come from the camera, and the code does not check them.
\<close>

theorem depth_process_safe:
  assumes "st_devs s d = Some dev" and "depth_inv dev (st_heap s)"
  shows "\<exists>s' dev'. depth_process d pkt s = Some s' \<and> st_devs s' d = Some dev' \<and>
    depth_inv dev' (st_heap s') \<and> same_lengths (st_heap s) (st_heap s') \<and>
    (\<forall>x. x \<noteq> d \<longrightarrow> st_devs s' x = st_devs s x)"
  using depth_process_ok [OF assms] by fastforce

text \<open>
  No packet of the video camera leaves the buffers, in any of the twelve video modes; the
  statement is that of depth_process.
\<close>

theorem video_process_safe:
  assumes "st_devs s d = Some dev" and "video_inv dev (st_heap s)"
  shows "\<exists>s' dev'. video_process d pkt s = Some s' \<and> st_devs s' d = Some dev' \<and>
    video_inv dev' (st_heap s') \<and> same_lengths (st_heap s) (st_heap s') \<and>
    (\<forall>x. x \<noteq> d \<longrightarrow> st_devs s' x = st_devs s x)"
  using video_process_ok [OF assms] by fastforce

text \<open>
  A stream that was stopped is silent. Once the running flag is cleared, the packets that are
  still in flight change nothing and the client is not called.
\<close>

theorem process_stopped_silent:
  assumes "st_devs s d = Some dev"
  shows "(\<not> ps_running (dv_depth dev) \<longrightarrow> depth_process d pkt s = Some s) \<and>
    (\<not> ps_running (dv_video dev) \<longrightarrow> video_process d pkt s = Some s)"
  using assms by (auto simp: depth_process_def video_process_def)

section \<open>Witnesses\<close>

text \<open>A device whose two cameras stream in the default modes, with the buffers of stream_init.\<close>

definition live_stream :: "u8 \<Rightarrow> int \<Rightarrow> int \<Rightarrow> int \<Rightarrow> int \<Rightarrow> nat \<Rightarrow> nat \<Rightarrow> packet_stream" where
  "live_stream flag ppf psz fsz lps raw proc = zero_packet_stream
     \<lparr>ps_running := True, ps_flag := flag, ps_pkts_per_frame := ppf, ps_pkt_size := psz,
      ps_frame_size := fsz, ps_last_pkt_size := lps, ps_split_bufs := True,
      ps_lib_buf := Some proc, ps_raw_buf := Some raw, ps_proc_buf := Some proc\<rparr>"

definition live_device :: freenect_device where
  "live_device = zero_device
     \<lparr>dv_usb_cam := zero_fnusb_dev\<lparr>ud_dev := Some 1\<rparr>, dv_video_resolution := FREENECT_RESOLUTION_MEDIUM,
      dv_depth_resolution := FREENECT_RESOLUTION_MEDIUM, dv_depth_cb := Some 77,
      dv_depth := live_stream 0x70 242 1748 422400 1132 0 1, dv_video := live_stream 0x80 162 1908 307200 12 2 3\<rparr>"

definition live_state :: st where
  "live_state = example_state
     \<lparr>st_heap := \<lparr>hp_blocks = [0 \<mapsto> replicate 422400 0, 1 \<mapsto> replicate 614400 0,
        2 \<mapsto> replicate 307200 0, 3 \<mapsto> replicate 921600 0], hp_next = 4, hp_avail = 10000000, hp_fill = 0\<rparr>,
      st_devs := [0 \<mapsto> live_device]\<rparr>"

lemma live_state_dev: "st_devs live_state 0 = Some live_device"
  by (simp add: live_state_def)

lemma live_depth_inv: "depth_inv live_device (st_heap live_state)"
  by (simp add: depth_inv_def live_device_def zero_device_def live_state_def bufs_ok_def wf_stream_def
      wf_geom_def wf_buf_def live_stream_def zero_packet_stream_def)

lemma live_video_inv: "video_inv live_device (st_heap live_state)"
proof -
  have m: "freenect_get_current_video_mode live_device = Some (supported_video_modes ! 1)"
    by (simp add: freenect_get_current_video_mode_def live_device_def zero_device_def
        freenect_find_video_mode_def supported_video_modes_def mode_row_def MAKE_RESERVED_def)
  have wh: "nat (fm_width (supported_video_modes ! 1) * fm_height (supported_video_modes ! 1)) = 307200"
    by (simp add: supported_video_modes_def mode_row_def)
  have f: "dv_video_format live_device = FREENECT_VIDEO_RGB" by (simp add: live_device_def zero_device_def)
  have "bufs_ok (dv_video live_device) 307200 (3 * 307200) (st_heap live_state)"
    by (simp add: live_device_def zero_device_def live_state_def bufs_ok_def wf_stream_def
        wf_geom_def wf_buf_def live_stream_def zero_packet_stream_def)
  then show ?thesis by (simp only: video_inv_def m f wh Let_def option.case freenect_video_format.case)
qed

theorem depth_process_safe_witness:
  "\<exists>s' dev'. depth_process 0 [0x52, 0x42, 0, 0x71] live_state = Some s' \<and> st_devs s' 0 = Some dev' \<and>
    depth_inv dev' (st_heap s')"
  using depth_process_safe [OF live_state_dev live_depth_inv, of "[0x52, 0x42, 0, 0x71]"] by blast

theorem video_process_safe_witness:
  "\<exists>s' dev'. video_process 0 [0x52, 0x42, 0, 0x81] live_state = Some s' \<and> st_devs s' 0 = Some dev' \<and>
    video_inv dev' (st_heap s')"
  using video_process_safe [OF live_state_dev live_video_inv, of "[0x52, 0x42, 0, 0x81]"] by blast

theorem process_stopped_silent_witness:
  "depth_process 0 [1, 2, 3] example_state = Some example_state \<and>
   video_process 0 [1, 2, 3] example_state = Some example_state"
proof -
  have d: "st_devs example_state 0 = Some (zero_device\<lparr>dv_usb_cam := zero_fnusb_dev\<lparr>ud_dev := Some 1\<rparr>\<rparr>)"
    by (simp add: example_state_def)
  show ?thesis
    using process_stopped_silent [OF d, of "[1, 2, 3]"] by (simp add: zero_device_def zero_packet_stream_def)
qed

end
