(* ===== verification/Control.thy ===== *)
theory Control
  imports Types
begin

text \<open>
  The USB transfer wrappers at the end of src/usb_libusb10.c, and the camera command protocol of
  src/flags.c: \<open>send_cmd\<close> with the polling loop for its reply, the register accesses built on
  it, and the flags, exposure and brightness settings of the interface.

  A buffer on the stack starts with unspecified contents (the fill byte of the memory); a USB
  transfer overwrites a prefix of it.
\<close>

section \<open>USB transfers (src/usb_libusb10.c)\<close>

text \<open>A NULL device handle is dereferenced by libusb: \<open>None\<close>.\<close>

definition fnusb_control ::
    "env \<Rightarrow> fnusb_dev \<Rightarrow> u8 \<Rightarrow> u8 \<Rightarrow> u16 \<Rightarrow> u16 \<Rightarrow> u8 list \<Rightarrow> nat \<Rightarrow> st \<Rightarrow> ((int \<times> u8 list) \<times> st) option" where
  "fnusb_control E dev bmRequestType bRequest wValue wIndex data wLength s =
     (if ud_dev dev = None then None
      else let s' = emit (IO_control (ud_dev dev) bmRequestType bRequest wValue wIndex data wLength) s
           in Some (e_control E (st_io s'), s'))"

definition fnusb_bulk ::
    "env \<Rightarrow> fnusb_dev \<Rightarrow> u8 \<Rightarrow> u8 list \<Rightarrow> nat \<Rightarrow> st \<Rightarrow> ((int \<times> nat \<times> u8 list) \<times> st) option" where
  "fnusb_bulk E dev endpoint data len s =
     (if ud_dev dev = None then None
      else Some (libusb_bulk_transfer E (ud_dev dev) endpoint data len 0 s))"

definition fnusb_num_interfaces :: "env \<Rightarrow> fnusb_dev \<Rightarrow> st \<Rightarrow> int \<times> st" where
  "fnusb_num_interfaces E dev s = io_int E (IO_num_interfaces (ud_dev dev)) s"

definition fnusb_get_max_iso_packet_size :: "env \<Rightarrow> fnusb_dev \<Rightarrow> u8 \<Rightarrow> int \<Rightarrow> st \<Rightarrow> int \<times> st" where
  "fnusb_get_max_iso_packet_size E dev endpoint default_size s =
     (let (sz, s) = io_int E (IO_max_iso_packet_size (ud_dev dev) endpoint) s
      in (if sz \<le> 0 then default_size else sz, s))"

section \<open>send_cmd (src/flags.c)\<close>

text \<open>
  The header: magic, length in words, command, tag. The camera tag of the device counts the
  commands that were answered.
\<close>

definition cam_hdr :: "u16 \<Rightarrow> u16 \<Rightarrow> nat \<Rightarrow> u8 list" where
  "cam_hdr cmd tag cmd_len = [0x47, 0x4d] @ le16 (of_nat (cmd_len div 2)) @ le16 cmd @ le16 tag"

text \<open>
  The do-while loop that waits for the reply: it ends with the first answer that is neither empty
  nor a full buffer. A device that never gives one keeps the C program here for ever (\<open>None\<close>).
\<close>

partial_function (option) await_reply ::
    "env \<Rightarrow> fnusb_dev \<Rightarrow> st \<Rightarrow> ((int \<times> u8 list) \<times> st) option" where
  "await_reply E cam s = do {
     ((actual_len, bytes), s) \<leftarrow> fnusb_control E cam 0xc0 0 0 0 [] 0x200 s;
     let s = emit (IO_usleep 1) s;
     if actual_len = 0 \<or> actual_len = 0x200 then await_reply E cam s
     else Some ((actual_len, bytes), s)
   }"

text \<open>
  The checks of the reply header in the order of the code; the result is the payload length, or
  \<open>None\<close> for the error return -1. \<open>ibuf\<close> is the input buffer.
\<close>

definition check_reply :: "u8 list \<Rightarrow> u16 \<Rightarrow> u16 \<Rightarrow> int \<Rightarrow> int option" where
  "check_reply ibuf cmd tag actual_len =
     (let actual_len = actual_len - 8
      in if ibuf ! 0 \<noteq> 0x52 \<or> ibuf ! 1 \<noteq> 0x42 then None
         else if get16 ibuf 4 \<noteq> cmd then None
         else if get16 ibuf 6 \<noteq> tag then None
         else if uint (get16 ibuf 2) \<noteq> actual_len div 2 then None
         else Some actual_len)"

text \<open>The result of send_cmd is its return value and the bytes copied to the reply buffer.\<close>

definition send_cmd ::
    "env \<Rightarrow> nat \<Rightarrow> u16 \<Rightarrow> u8 list \<Rightarrow> int \<Rightarrow> st \<Rightarrow> ((int \<times> u8 list) \<times> st) option" where
  "send_cmd E d cmd cmdbuf reply_len s = do {
     dev \<leftarrow> st_devs s d;
     let cmd_len = length cmdbuf;
     if odd cmd_len \<or> cmd_len > 0x400 - 8 then Some ((-1, []), s)
     else do {
       let obuf = cam_hdr cmd (dv_cam_tag dev) cmd_len @ cmdbuf;
       ((res, _), s) \<leftarrow> fnusb_control E (dv_usb_cam dev) 0x40 0 0 0 obuf (cmd_len + 8) s;
       if res < 0 then Some ((res, []), s)
       else do {
         ((actual_len, bytes), s) \<leftarrow> await_reply E (dv_usb_cam dev) s;
         if actual_len < 8 then Some ((res, []), s)
         else do {
           let ibuf = pad 0x200 (hp_fill (st_heap s)) (take (nat actual_len) bytes);
           case check_reply ibuf cmd (dv_cam_tag dev) actual_len of
             None \<Rightarrow> Some ((-1, []), s)
           | Some actual_len \<Rightarrow>
               Some ((actual_len, take (nat (if actual_len > reply_len then reply_len else actual_len)) (drop 8 ibuf)),
                     set_dev d (dev\<lparr>dv_cam_tag := dv_cam_tag dev + 1\<rparr>) s)
         }
       }
     }
   }"

section \<open>Registers (src/flags.c)\<close>

text \<open>The second word of the reply, unspecified where the reply was shorter.\<close>

definition read_register :: "env \<Rightarrow> nat \<Rightarrow> u16 \<Rightarrow> st \<Rightarrow> (u16 \<times> st) option" where
  "read_register E d reg s = do {
     ((res, reply), s) \<leftarrow> send_cmd E d 0x02 (le16 reg) 4 s;
     if res < 0 then Some (0xFFFF, s)
     else Some (get16 (pad 4 (hp_fill (st_heap s)) reply) 2, s)
   }"

definition write_register :: "env \<Rightarrow> nat \<Rightarrow> u16 \<Rightarrow> u16 \<Rightarrow> st \<Rightarrow> (int \<times> st) option" where
  "write_register E d reg data s = do {
     ((res, _), s) \<leftarrow> send_cmd E d 0x03 (le16 reg @ le16 data) 4 s;
     if res < 0 then Some (res, s) else Some (0, s)
   }"

definition read_cmos_register :: "env \<Rightarrow> nat \<Rightarrow> u16 \<Rightarrow> st \<Rightarrow> (u16 \<times> st) option" where
  "read_cmos_register E d reg s = do {
     ((res, reply), s) \<leftarrow> send_cmd E d 0x95 (le16 1 @ le16 (reg AND 0x7fff) @ le16 0) 6 s;
     if res < 0 then Some (0xFFFF, s)
     else Some (get16 (pad 0x400 (hp_fill (st_heap s)) reply) 4, s)
   }"

definition write_cmos_register :: "env \<Rightarrow> nat \<Rightarrow> u16 \<Rightarrow> u16 \<Rightarrow> st \<Rightarrow> (int \<times> st) option" where
  "write_cmos_register E d reg value s = do {
     ((res, _), s) \<leftarrow> send_cmd E d 0x95 (le16 1 @ le16 (reg OR 0x8000) @ le16 value) 6 s;
     Some (res, s)
   }"

section \<open>Flags, exposure, brightness (src/flags.c)\<close>

definition register_for_flag :: "u32 \<Rightarrow> int" where
  "register_for_flag flag =
     (if flag = FREENECT_MIRROR_DEPTH then 0x17
      else if flag = FREENECT_MIRROR_VIDEO then 0x47 else -1)"

definition set_near_mode :: "env \<Rightarrow> nat \<Rightarrow> u16 \<Rightarrow> u16 \<Rightarrow> st \<Rightarrow> (int \<times> st) option" where
  "set_near_mode E d gain thresh s = do {
     (ret, s) \<leftarrow> write_register E d 0x0015 gain s;
     if ret < 0 then Some (ret, s)
     else write_register E d 0x02EF thresh (emit (IO_usleep 100000) s)
   }"

definition freenect_set_flag :: "env \<Rightarrow> nat \<Rightarrow> u32 \<Rightarrow> freenect_flag_value \<Rightarrow> st \<Rightarrow> (int \<times> st) option" where
  "freenect_set_flag E d flag val s = do {
     dev \<leftarrow> st_devs s d;
     if flag = FREENECT_NEAR_MODE
     then if ud_PID (dv_usb_cam dev) \<noteq> PID_K4W_CAMERA then Some (-1, s)
          else if val = FREENECT_ON then set_near_mode E d 0x0007 0x0000 s
          else set_near_mode E d 0x001E 0x0190 s
     else if flag \<ge> push_bit 16 1
     then let reg = register_for_flag flag
          in if reg < 0 then Some (reg, s)
             else write_register E d (word_of_int reg) (flag_value_val val) s
     else do {
       (cmos_value, s) \<leftarrow> read_cmos_register E d 0x0106 s;
       if cmos_value = 0xFFFF then Some (-1, s)
       else write_cmos_register E d 0x0106
              (if val = FREENECT_ON then cmos_value OR ucast flag else cmos_value AND ucast (NOT flag)) s
     }
   }"

text \<open>The conversion factor of the shutter width: 54.21 or 63.25 microseconds.\<close>

definition shutter_factor :: "freenect_video_format \<Rightarrow> real option" where
  "shutter_factor fmt =
     (case fmt of
        FREENECT_VIDEO_RGB \<Rightarrow> Some 54.21 | FREENECT_VIDEO_BAYER \<Rightarrow> Some 54.21
      | FREENECT_VIDEO_YUV_RGB \<Rightarrow> Some 63.25 | FREENECT_VIDEO_YUV_RAW \<Rightarrow> Some 63.25
      | _ \<Rightarrow> None)"

text \<open>The time written through the pointer is \<open>None\<close> when the function fails.\<close>

definition freenect_get_exposure :: "env \<Rightarrow> nat \<Rightarrow> st \<Rightarrow> ((int \<times> int option) \<times> st) option" where
  "freenect_get_exposure E d s = do {
     (shutter_width, s) \<leftarrow> read_cmos_register E d 0x0009 s;
     if shutter_width = 0xFFFF then Some ((-1, None), s)
     else do {
       dev \<leftarrow> st_devs s d;
       case shutter_factor (dv_video_format dev) of
         None \<Rightarrow> Some ((-1, None), s)
       | Some f \<Rightarrow> Some ((0, Some (ctrunc (e_rnd E (real_of_int (uint shutter_width) * f)))), s)
     }
   }"

definition freenect_set_exposure :: "env \<Rightarrow> nat \<Rightarrow> int \<Rightarrow> st \<Rightarrow> (int \<times> st) option" where
  "freenect_set_exposure E d time_us s = do {
     dev \<leftarrow> st_devs s d;
     case shutter_factor (dv_video_format dev) of
       None \<Rightarrow> Some (-1, s)
     | Some f \<Rightarrow>
         (let q = ctrunc (e_rnd E (real_of_int time_us / f));
              cmos_value = (if 0 \<le> q \<and> q < 2 ^ 16 then word_of_int q
                            else word_of_int (e_conv E (e_rnd E (real_of_int time_us / f))))
          in write_cmos_register E d 0x0009 cmos_value s)
   }"

definition freenect_get_ir_brightness :: "env \<Rightarrow> nat \<Rightarrow> st \<Rightarrow> (int \<times> st) option" where
  "freenect_get_ir_brightness E d s = do {
     (brightness, s) \<leftarrow> read_register E d 0x15 s;
     if brightness = 0xFFFF then Some (-1, s) else Some (uint brightness, s)
   }"

definition clamp_brightness :: "u16 \<Rightarrow> u16" where
  "clamp_brightness brightness =
     (let brightness = (if brightness < 1 then 1 else brightness)
      in if brightness > 50 then 50 else brightness)"

definition freenect_set_ir_brightness :: "env \<Rightarrow> nat \<Rightarrow> u16 \<Rightarrow> st \<Rightarrow> (int \<times> st) option" where
  "freenect_set_ir_brightness E d brightness s = write_register E d 0x15 (clamp_brightness brightness) s"

section \<open>Lemmas: the polling loop\<close>

abbreviation poll_req :: "fnusb_dev \<Rightarrow> io" where
  "poll_req cam \<equiv> IO_control (ud_dev cam) 0xc0 0 0 0 [] 0x200"

primrec after_polls :: "fnusb_dev \<Rightarrow> nat \<Rightarrow> st \<Rightarrow> st" where
  "after_polls cam 0 s = s"
| "after_polls cam (Suc n) s = after_polls cam n (emit (IO_usleep 1) (emit (poll_req cam) s))"

definition poll_answer :: "env \<Rightarrow> fnusb_dev \<Rightarrow> st \<Rightarrow> int \<times> u8 list" where
  "poll_answer E cam s = e_control E (poll_req cam # st_io s)"

definition no_answer :: "int \<Rightarrow> bool" where
  "no_answer r \<longleftrightarrow> r = 0 \<or> r = 0x200"

lemma await_reply_unfold:
  assumes "ud_dev cam \<noteq> None"
  shows "await_reply E cam s =
    (if no_answer (fst (poll_answer E cam s)) then await_reply E cam (after_polls cam 1 s)
     else Some (poll_answer E cam s, after_polls cam 1 s))"
proof -
  obtain h where h: "ud_dev cam = Some h" using assms by auto
  obtain len bytes where r: "e_control E (poll_req cam # st_io s) = (len, bytes)"
    by (cases "e_control E (poll_req cam # st_io s)")
  show ?thesis
    by (subst await_reply.simps)
      (use r h in \<open>simp add: fnusb_control_def Let_def no_answer_def poll_answer_def\<close>)
qed

lemma await_reply_Some:
  assumes "ud_dev cam \<noteq> None" and "\<And>k. k < n \<Longrightarrow> no_answer (fst (poll_answer E cam (after_polls cam k s)))"
    and "\<not> no_answer (fst (poll_answer E cam (after_polls cam n s)))"
  shows "await_reply E cam s = Some (poll_answer E cam (after_polls cam n s), after_polls cam (Suc n) s)"
  using assms(2,3)
proof (induction n arbitrary: s)
  case 0
  then show ?case using await_reply_unfold [OF assms(1)] by simp
next
  case (Suc n)
  have "no_answer (fst (poll_answer E cam s))" using Suc.prems(1) [of 0] by simp
  moreover have "await_reply E cam (after_polls cam 1 s) =
      Some (poll_answer E cam (after_polls cam n (after_polls cam 1 s)), after_polls cam (Suc n) (after_polls cam 1 s))"
    using Suc.prems(1) [of "Suc k" for k] Suc.prems(2) by (intro Suc.IH) auto
  ultimately show ?case using await_reply_unfold [OF assms(1), of E s] by simp
qed

lemma await_reply_SomeD:
  assumes "await_reply E cam s = Some (r, s')"
  shows "\<exists>n. (\<forall>k < n. no_answer (fst (poll_answer E cam (after_polls cam k s)))) \<and>
    \<not> no_answer (fst (poll_answer E cam (after_polls cam n s))) \<and>
    r = poll_answer E cam (after_polls cam n s) \<and> s' = after_polls cam (Suc n) s"
    (is "\<exists>n. ?P n s r s'")
proof -
  have "\<exists>n. ?P n s (fst y) (snd y)" if "await_reply E cam s = Some y" for y s
    using that
  proof (rule await_reply.raw_induct [where P = "\<lambda>E cam s y. \<exists>n.
      (\<forall>k < n. no_answer (fst (poll_answer E cam (after_polls cam k s)))) \<and>
      \<not> no_answer (fst (poll_answer E cam (after_polls cam n s))) \<and>
      fst y = poll_answer E cam (after_polls cam n s) \<and> snd y = after_polls cam (Suc n) s", rotated])
    fix rec E cam s y
    assume IH: "\<And>E cam s y. rec E cam s = Some y \<Longrightarrow> \<exists>n.
        (\<forall>k < n. no_answer (fst (poll_answer E cam (after_polls cam k s)))) \<and>
        \<not> no_answer (fst (poll_answer E cam (after_polls cam n s))) \<and>
        fst y = poll_answer E cam (after_polls cam n s) \<and> snd y = after_polls cam (Suc n) s"
      and body: "(do { ((actual_len, bytes), s) \<leftarrow> fnusb_control E cam 0xc0 0 0 0 [] 0x200 s;
          let s = emit (IO_usleep 1) s;
          if actual_len = 0 \<or> actual_len = 0x200 then rec E cam s else Some ((actual_len, bytes), s) }) = Some y"
    show "\<exists>n. (\<forall>k < n. no_answer (fst (poll_answer E cam (after_polls cam k s)))) \<and>
        \<not> no_answer (fst (poll_answer E cam (after_polls cam n s))) \<and>
        fst y = poll_answer E cam (after_polls cam n s) \<and> snd y = after_polls cam (Suc n) s"
    proof (cases "no_answer (fst (poll_answer E cam s))")
      case True
      with body have "rec E cam (after_polls cam 1 s) = Some y"
        by (auto simp: fnusb_control_def Let_def no_answer_def poll_answer_def split: if_splits prod.splits)
      from IH [OF this] obtain n where n:
        "\<forall>k < n. no_answer (fst (poll_answer E cam (after_polls cam (Suc k) s)))"
        "\<not> no_answer (fst (poll_answer E cam (after_polls cam (Suc n) s)))"
        "fst y = poll_answer E cam (after_polls cam (Suc n) s)"
        "snd y = after_polls cam (Suc (Suc n)) s" by auto
      have "\<forall>k < Suc n. no_answer (fst (poll_answer E cam (after_polls cam k s)))"
        using n(1) True by (metis after_polls.simps(1) less_Suc_eq_0_disj)
      with n show ?thesis by blast
    next
      case False
      with body have "y = (poll_answer E cam s, after_polls cam 1 s)"
        by (auto simp: fnusb_control_def Let_def no_answer_def poll_answer_def split: if_splits prod.splits)
      with False show ?thesis by (intro exI [of _ 0]) simp
    qed
  qed
  from this [OF assms] show ?thesis by simp
qed

lemma await_reply_returns_iff_aux:
  assumes "ud_dev cam \<noteq> None"
  shows "await_reply E cam s \<noteq> None \<longleftrightarrow>
    (\<exists>n. \<not> no_answer (fst (poll_answer E cam (after_polls cam n s))))"
proof
  assume "await_reply E cam s \<noteq> None"
  then obtain r s' where "await_reply E cam s = Some (r, s')" by auto
  from await_reply_SomeD [OF this] show "\<exists>n. \<not> no_answer (fst (poll_answer E cam (after_polls cam n s)))"
    by blast
next
  let ?P = "\<lambda>n. \<not> no_answer (fst (poll_answer E cam (after_polls cam n s)))"
  assume "\<exists>n. ?P n"
  then have "?P (LEAST n. ?P n)" by (rule LeastI_ex)
  moreover have "no_answer (fst (poll_answer E cam (after_polls cam k s)))" if "k < (LEAST n. ?P n)" for k
    using not_less_Least [OF that] by simp
  ultimately have "await_reply E cam s = Some (poll_answer E cam (after_polls cam (LEAST n. ?P n) s),
      after_polls cam (Suc (LEAST n. ?P n)) s)"
    by (intro await_reply_Some [OF assms])
  then show "await_reply E cam s \<noteq> None" by simp
qed

text \<open>
  C28. send_cmd waits for a reply exactly as long as the device gives none: with an open camera the
  loop returns if and only if some later poll is answered by something other than an empty or a
  full buffer, and it returns the first such answer.
\<close>

theorem await_reply_returns_iff:
  assumes "ud_dev cam \<noteq> None"
  shows "await_reply E cam s \<noteq> None \<longleftrightarrow>
    (\<exists>n. \<not> no_answer (fst (poll_answer E cam (after_polls cam n s))))"
  using assms by (rule await_reply_returns_iff_aux)

theorem await_reply_returns_iff_witness:
  "await_reply quiet_env (zero_fnusb_dev\<lparr>ud_dev := Some 1\<rparr>) example_state = None \<and>
   await_reply (quiet_env\<lparr>e_control := \<lambda>_. (-4, [])\<rparr>) (zero_fnusb_dev\<lparr>ud_dev := Some 1\<rparr>) example_state \<noteq> None"
proof -
  have h: "ud_dev (zero_fnusb_dev\<lparr>ud_dev := Some 1\<rparr>) \<noteq> None" by simp
  have "no_answer (fst (poll_answer quiet_env c x))" for c x
    by (simp add: poll_answer_def no_answer_def quiet_env_def)
  moreover have "\<not> no_answer (fst (poll_answer (quiet_env\<lparr>e_control := \<lambda>_. (-4, [])\<rparr>) c x))" for c x
    by (simp add: poll_answer_def no_answer_def)
  ultimately show ?thesis
    using await_reply_returns_iff [OF h, of quiet_env example_state]
      await_reply_returns_iff [OF h, of "quiet_env\<lparr>e_control := \<lambda>_. (-4, [])\<rparr>" example_state]
    by blast
qed

section \<open>Lemmas: what a command changes\<close>

text \<open>Only the history and the camera tag of the device.\<close>

definition cmd_step :: "nat \<Rightarrow> st \<Rightarrow> st \<Rightarrow> bool" where
  "cmd_step d s s' \<longleftrightarrow>
     (\<exists>evs dv t. st_devs s d = Some dv \<and>
       s' = s\<lparr>st_io := evs @ st_io s, st_devs := (st_devs s)(d \<mapsto> dv\<lparr>dv_cam_tag := t\<rparr>)\<rparr>)"

lemma cmd_step_refl: "st_devs s d = Some dv \<Longrightarrow> cmd_step d s s"
  unfolding cmd_step_def by (rule exI [of _ "[]"], rule exI [of _ dv], rule exI [of _ "dv_cam_tag dv"])
    (simp add: fun_upd_idem)

lemma cmd_stepI:
  assumes "st_devs s d = Some dv"
    and "s' = s\<lparr>st_io := evs @ st_io s, st_devs := (st_devs s)(d \<mapsto> dv\<lparr>dv_cam_tag := t\<rparr>)\<rparr>"
  shows "cmd_step d s s'"
  unfolding cmd_step_def using assms by blast

lemma cmd_step_emit: "cmd_step d s s' \<Longrightarrow> cmd_step d s (emit ev s')"
  unfolding cmd_step_def emit_def
proof (elim exE conjE)
  fix evs dv t
  assume "st_devs s d = Some dv"
    and "s' = s\<lparr>st_io := evs @ st_io s, st_devs := (st_devs s)(d \<mapsto> dv\<lparr>dv_cam_tag := t\<rparr>)\<rparr>"
  then show "\<exists>evs dv t. st_devs s d = Some dv \<and> s'\<lparr>st_io := ev # st_io s'\<rparr> =
      s\<lparr>st_io := evs @ st_io s, st_devs := (st_devs s)(d \<mapsto> dv\<lparr>dv_cam_tag := t\<rparr>)\<rparr>"
    by (intro exI [of _ "ev # evs"] exI [of _ dv] exI [of _ t]) simp
qed

lemma cmd_step_trans:
  assumes "cmd_step d s s'" and "cmd_step d s' s''"
  shows "cmd_step d s s''"
proof -
  from assms(1) obtain e1 dv t1 where 1: "st_devs s d = Some dv"
    "s' = s\<lparr>st_io := e1 @ st_io s, st_devs := (st_devs s)(d \<mapsto> dv\<lparr>dv_cam_tag := t1\<rparr>)\<rparr>"
    unfolding cmd_step_def by blast
  from assms(2) obtain e2 dv2 t2 where 2: "st_devs s' d = Some dv2"
    "s'' = s'\<lparr>st_io := e2 @ st_io s', st_devs := (st_devs s')(d \<mapsto> dv2\<lparr>dv_cam_tag := t2\<rparr>)\<rparr>"
    unfolding cmd_step_def by blast
  from 1 2(1) have "dv2 = dv\<lparr>dv_cam_tag := t1\<rparr>" by simp
  with 1 2(2) show ?thesis by (intro cmd_stepI [where dv = dv and evs = "e2 @ e1" and t = t2]) simp_all
qed

lemma cmd_stepD:
  assumes "cmd_step d s s'"
  obtains evs dv t where "st_devs s d = Some dv" and "st_devs s' d = Some (dv\<lparr>dv_cam_tag := t\<rparr>)"
    and "st_io s' = evs @ st_io s" and "st_heap s' = st_heap s" and "st_ctx s' = st_ctx s"
    and "\<And>x. x \<noteq> d \<Longrightarrow> st_devs s' x = st_devs s x"
proof -
  from assms obtain evs dv t where 1: "st_devs s d = Some dv"
    "s' = s\<lparr>st_io := evs @ st_io s, st_devs := (st_devs s)(d \<mapsto> dv\<lparr>dv_cam_tag := t\<rparr>)\<rparr>"
    unfolding cmd_step_def by blast
  show thesis by (rule that [of dv t evs]) (simp_all add: 1)
qed

lemma after_polls_io: "\<exists>evs. after_polls cam n s = s\<lparr>st_io := evs @ st_io s\<rparr>"
proof (induction n arbitrary: s)
  case 0
  show ?case by (rule exI [of _ "[]"]) simp
next
  case (Suc n)
  from Suc.IH [of "emit (IO_usleep 1) (emit (poll_req cam) s)"] obtain evs where
    "after_polls cam (Suc n) s = (emit (IO_usleep 1) (emit (poll_req cam) s))
      \<lparr>st_io := evs @ IO_usleep 1 # poll_req cam # st_io s\<rparr>" by auto
  then show ?case by (intro exI [of _ "evs @ [IO_usleep 1, poll_req cam]"]) (simp add: emit_def)
qed

lemma await_reply_io:
  assumes "await_reply E cam s = Some (r, s')"
  shows "\<exists>evs. s' = s\<lparr>st_io := evs @ st_io s\<rparr>"
  using await_reply_SomeD [OF assms] after_polls_io by metis

lemma fnusb_control_open:
  "ud_dev dev \<noteq> None \<Longrightarrow> fnusb_control E dev a b v i data n s =
     Some (e_control E (IO_control (ud_dev dev) a b v i data n # st_io s),
           emit (IO_control (ud_dev dev) a b v i data n) s)"
  by (simp add: fnusb_control_def Let_def)

text \<open>The exits of send_cmd.\<close>

lemma send_cmd_cases:
  assumes "send_cmd E d cmd buf n s = Some ((r, reply), s')"
  obtains (rejected) dv where "st_devs s d = Some dv" "r < 0 \<or> reply = []" "reply = []"
      "st_devs s' = st_devs s" "\<exists>evs. s' = s\<lparr>st_io := evs @ st_io s\<rparr>"
  | (answered) dv ibuf len where "st_devs s d = Some dv" "length ibuf = 0x200"
      "check_reply ibuf cmd (dv_cam_tag dv) len = Some r" "8 \<le> len"
      "reply = take (nat (min r n)) (drop 8 ibuf)"
      "\<exists>evs. s' = s\<lparr>st_io := evs @ st_io s, st_devs := (st_devs s)(d \<mapsto> dv\<lparr>dv_cam_tag := dv_cam_tag dv + 1\<rparr>)\<rparr>"
proof -
  from assms obtain dv where dv: "st_devs s d = Some dv"
    by (auto simp: send_cmd_def split: Option.bind_splits)
  show thesis
  proof (cases "odd (length buf) \<or> length buf > 0x400 - 8")
    case True
    with assms dv have "r = -1" "reply = []" "s' = s" by (auto simp: send_cmd_def)
    then show thesis using dv by (intro rejected [of dv]) (auto intro: exI [of _ "[]"])
  next
    case False
    let ?req = "IO_control (ud_dev (dv_usb_cam dv)) 0x40 0 0 0
      (cam_hdr cmd (dv_cam_tag dv) (length buf) @ buf) (length buf + 8)"
    obtain res bs where out: "e_control E (?req # st_io s) = (res, bs)"
      by (cases "e_control E (?req # st_io s)")
    have h: "ud_dev (dv_usb_cam dv) \<noteq> None"
      using assms dv False by (cases "ud_dev (dv_usb_cam dv)") (auto simp: send_cmd_def fnusb_control_def)
    have s1: "emit ?req s = s\<lparr>st_io := [?req] @ st_io s\<rparr>" by (simp add: emit_def)
    show thesis
    proof (cases "res < 0")
      case True
      with assms dv False out have "r = res" "reply = []" "s' = emit ?req s"
        by (auto simp: send_cmd_def fnusb_control_open [OF h] Let_def)
      then show thesis using dv True s1 by (intro rejected [of dv]) (auto intro: exI [of _ "[?req]"])
    next
      case res: False
      obtain len bytes s2 where poll: "await_reply E (dv_usb_cam dv) (emit ?req s) = Some ((len, bytes), s2)"
        using assms dv False out res
        by (auto simp: send_cmd_def fnusb_control_open [OF h] Let_def split: Option.bind_splits)
      from await_reply_io [OF poll] obtain evs where s2: "s2 = s\<lparr>st_io := (evs @ [?req]) @ st_io s\<rparr>"
        by (auto simp: emit_def)
      let ?ibuf = "pad 0x200 (hp_fill (st_heap s2)) (take (nat len) bytes)"
      show thesis
      proof (cases "len < 8")
        case True
        with assms dv False out res poll have "r = res" "reply = []" "s' = s2"
          by (auto simp: send_cmd_def fnusb_control_open [OF h] Let_def)
        then show thesis using dv s2 by (intro rejected [of dv]) (auto intro: exI [of _ "evs @ [?req]"])
      next
        case len: False
        have step: "(case check_reply ?ibuf cmd (dv_cam_tag dv) len of None \<Rightarrow> Some ((-1, []), s2)
            | Some actual_len \<Rightarrow>
               Some ((actual_len, take (nat (if actual_len > n then n else actual_len)) (drop 8 ?ibuf)),
                     set_dev d (dv\<lparr>dv_cam_tag := dv_cam_tag dv + 1\<rparr>) s2)) = Some ((r, reply), s')"
          using assms dv False out res poll len
          by (simp add: send_cmd_def fnusb_control_open [OF h] Let_def)
        show thesis
        proof (cases "check_reply ?ibuf cmd (dv_cam_tag dv) len")
          case None
          with step have "r = -1" "reply = []" "s' = s2" by auto
          then show thesis using dv s2 by (intro rejected [of dv]) (auto intro: exI [of _ "evs @ [?req]"])
        next
          case (Some a)
          with step have "r = a" "reply = take (nat (min r n)) (drop 8 ?ibuf)"
            "s' = set_dev d (dv\<lparr>dv_cam_tag := dv_cam_tag dv + 1\<rparr>) s2"
            by (auto simp: min_def)
          then show thesis using dv s2 Some len
            by (intro answered [of dv ?ibuf len]) (auto simp: set_dev_def intro: exI [of _ "evs @ [?req]"])
        qed
      qed
    qed
  qed
qed

lemma send_cmd_step:
  assumes "send_cmd E d cmd buf n s = Some (r, s')"
  shows "cmd_step d s s'"
proof -
  obtain a b where r: "r = (a, b)" by (cases r)
  from assms show ?thesis unfolding r
  proof (cases rule: send_cmd_cases)
    case (rejected dv)
    then obtain evs where "s' = s\<lparr>st_io := evs @ st_io s\<rparr>" by blast
    then show ?thesis using rejected(1) unfolding cmd_step_def
      by (intro exI [of _ evs] exI [of _ dv] exI [of _ "dv_cam_tag dv"]) (simp add: fun_upd_idem)
  next
    case (answered dv ibuf len)
    then show ?thesis unfolding cmd_step_def by blast
  qed
qed

lemma write_register_step: "write_register E d reg data s = Some (r, s') \<Longrightarrow> cmd_step d s s'"
  by (auto simp: write_register_def split: Option.bind_splits if_splits dest: send_cmd_step)

lemma read_register_step: "read_register E d reg s = Some (r, s') \<Longrightarrow> cmd_step d s s'"
  by (auto simp: read_register_def split: Option.bind_splits if_splits dest: send_cmd_step)

lemma read_cmos_register_step: "read_cmos_register E d reg s = Some (r, s') \<Longrightarrow> cmd_step d s s'"
  by (auto simp: read_cmos_register_def split: Option.bind_splits if_splits dest: send_cmd_step)

lemma write_cmos_register_step: "write_cmos_register E d reg v s = Some (r, s') \<Longrightarrow> cmd_step d s s'"
  by (auto simp: write_cmos_register_def split: Option.bind_splits if_splits dest: send_cmd_step)

lemma write_register_dev:
  assumes "write_register E d reg data s = Some (r, s')" and "st_devs s d = Some dv"
  shows "\<exists>t. st_devs s' d = Some (dv\<lparr>dv_cam_tag := t\<rparr>)"
  using cmd_stepD [OF write_register_step [OF assms(1)]] assms(2) by (metis option.inject)

section \<open>Properties\<close>

text \<open>The header that a reply of \<open>len\<close> bytes to a command has to start with.\<close>

definition reply_hdr :: "u16 \<Rightarrow> u16 \<Rightarrow> int \<Rightarrow> u8 list" where
  "reply_hdr cmd tag len = [0x52, 0x42] @ le16 (word_of_int ((len - 8) div 2)) @ le16 cmd @ le16 tag"

lemma le16_of_le16: "le16 (of_le16 a b) = [a, b]"
proof -
  have "ucast (of_le16 a b) = a" "ucast (drop_bit 8 (of_le16 a b)) = b"
    by (rule bit_word_eqI; auto simp: of_le16_def bit_simps dest: bit_imp_le_length)+
  then show ?thesis by (simp add: le16_def)
qed

lemma get16_eq_le16: "get16 bs i = w \<longleftrightarrow> [bs ! i, bs ! (i + 1)] = le16 w"
  using le16_of_le16 [of "bs ! i" "bs ! (i + 1)"] of_le16_le16 [of w] by (auto simp: get16_def le16_def)

lemma check_reply_hdr:
  assumes "8 \<le> length ibuf" and "8 \<le> len"
  shows "check_reply ibuf cmd tag len =
    (if take 8 ibuf = reply_hdr cmd tag len \<and> (len - 8) div 2 < 0x10000 then Some (len - 8) else None)"
proof -
  obtain a b c d e f g h rest where ibuf: "ibuf = a # b # c # d # e # f # g # h # rest"
    using assms(1) by (auto simp: Suc_le_length_iff numeral_eq_Suc)
  have w: "uint w = q \<longleftrightarrow> w = word_of_int q \<and> q < 0x10000" if "0 \<le> q" for w :: u16 and q
  proof
    assume "uint w = q"
    then show "w = word_of_int q \<and> q < 0x10000" using uint_lt2p [of w] by auto
  next
    assume "w = word_of_int q \<and> q < 0x10000"
    then show "uint w = q" using that by (simp add: uint_word_of_int take_bit_int_eq_self)
  qed
  have "uint (get16 ibuf 2) = (len - 8) div 2 \<longleftrightarrow>
      get16 ibuf 2 = word_of_int ((len - 8) div 2) \<and> (len - 8) div 2 < 0x10000"
    using assms(2) by (intro w) simp
  moreover have "le16 (word_of_int ((len - 8) div 2)) = [c, d] \<longleftrightarrow> get16 ibuf 2 = word_of_int ((len - 8) div 2)"
    "le16 cmd = [e, f] \<longleftrightarrow> get16 ibuf 4 = cmd" "le16 tag = [g, h] \<longleftrightarrow> get16 ibuf 6 = tag"
    unfolding get16_eq_le16 by (auto simp: ibuf)
  moreover have "take 8 ibuf = reply_hdr cmd tag len \<longleftrightarrow> a = 0x52 \<and> b = 0x42 \<and>
      le16 (word_of_int ((len - 8) div 2)) = [c, d] \<and> le16 cmd = [e, f] \<and> le16 tag = [g, h]"
    by (auto simp: reply_hdr_def ibuf le16_def)
  ultimately show ?thesis by (auto simp: check_reply_def Let_def ibuf)
qed

text \<open>
  C12. The command protocol. Whenever send_cmd returns for a command of an allowed length, this is what
  happened: the command was sent with its header and the tag of the device. When that failed, its
  result is returned. Otherwise the device was polled until the first answer that is neither empty nor
  a full buffer, and no more commands were sent. An answer without a whole header returns the result
  of the sending. An answer whose first eight bytes are exactly the header of a reply to this command,
  with its tag and with the length that was received, returns the length of the payload, gives the
  caller the payload as far as the buffer holds it, and advances the tag. Every other answer returns
  -1. Nothing else changes. (An answer longer than its 16-bit length field can say, which the 512
  bytes asked for exclude, is of the last kind.)
\<close>

theorem send_cmd_protocol:
  assumes run: "send_cmd E d cmd buf n s = Some ((r, reply), s')" and dv: "st_devs s d = Some dv"
    and buf: "even (length buf)" "length buf \<le> 0x400 - 8"
  shows "let cam = dv_usb_cam dv; tag = dv_cam_tag dv;
      req = IO_control (ud_dev cam) 0x40 0 0 0 (cam_hdr cmd tag (length buf) @ buf) (length buf + 8);
      sent = emit req s; out = fst (e_control E (st_io sent))
    in if out < 0 then r = out \<and> reply = [] \<and> s' = sent
       else \<exists>k len bytes. (\<forall>j < k. no_answer (fst (poll_answer E cam (after_polls cam j sent)))) \<and>
         poll_answer E cam (after_polls cam k sent) = (len, bytes) \<and> \<not> no_answer len \<and>
         (let polled = after_polls cam (Suc k) sent; ibuf = pad 0x200 (hp_fill (st_heap s)) (take (nat len) bytes)
          in if len < 8 then r = out \<and> reply = [] \<and> s' = polled
             else if take 8 ibuf = reply_hdr cmd tag len \<and> (len - 8) div 2 < 0x10000
             then r = len - 8 \<and> reply = take (nat (min r n)) (drop 8 ibuf) \<and> s' = set_dev d (dv\<lparr>dv_cam_tag := tag + 1\<rparr>) polled
             else r = -1 \<and> reply = [] \<and> s' = polled)"
proof -
  define cam where "cam = dv_usb_cam dv"
  define req where "req = IO_control (ud_dev cam) 0x40 0 0 0 (cam_hdr cmd (dv_cam_tag dv) (length buf) @ buf) (length buf + 8)"
  define sent where "sent = emit req s"
  have open_cam: "ud_dev cam \<noteq> None"
    using run dv buf by (cases "ud_dev cam") (auto simp: send_cmd_def fnusb_control_def cam_def)
  obtain out bs where out: "e_control E (req # st_io s) = (out, bs)" by fastforce
  have ctl: "fnusb_control E cam 0x40 0 0 0 (cam_hdr cmd (dv_cam_tag dv) (length buf) @ buf) (length buf + 8) s = Some ((out, bs), sent)"
    using fnusb_control_open [OF open_cam] out by (simp add: req_def sent_def)
  have rest: "\<exists>k len bytes. (\<forall>j < k. no_answer (fst (poll_answer E cam (after_polls cam j sent)))) \<and>
         poll_answer E cam (after_polls cam k sent) = (len, bytes) \<and> \<not> no_answer len \<and>
         (let polled = after_polls cam (Suc k) sent; ibuf = pad 0x200 (hp_fill (st_heap s)) (take (nat len) bytes)
          in if len < 8 then r = out \<and> reply = [] \<and> s' = polled
             else if take 8 ibuf = reply_hdr cmd (dv_cam_tag dv) len \<and> (len - 8) div 2 < 0x10000
             then r = len - 8 \<and> reply = take (nat (min r n)) (drop 8 ibuf) \<and>
               s' = set_dev d (dv\<lparr>dv_cam_tag := dv_cam_tag dv + 1\<rparr>) polled
             else r = -1 \<and> reply = [] \<and> s' = polled)" if ok: "\<not> out < 0"
  proof -
    obtain len bytes s2 where w: "await_reply E cam sent = Some ((len, bytes), s2)"
      using run dv buf ok ctl by (auto simp: send_cmd_def cam_def Let_def split: Option.bind_splits)
    from await_reply_SomeD [OF w] obtain k where
      k: "\<forall>j < k. no_answer (fst (poll_answer E cam (after_polls cam j sent)))"
        "\<not> no_answer (fst (poll_answer E cam (after_polls cam k sent)))"
        "(len, bytes) = poll_answer E cam (after_polls cam k sent)" "s2 = after_polls cam (Suc k) sent" by blast
    let ?ibuf = "pad 0x200 (hp_fill (st_heap s)) (take (nat len) bytes)"
    have heap: "st_heap s2 = st_heap s"
      using after_polls_io [of cam "Suc k" sent] k(4) by (auto simp: sent_def)
    have len_ok: "\<not> 0x400 - 8 < length buf" using buf by simp
    have step: "Some ((r, reply), s') = (if len < 8 then Some ((out, []), s2)
         else case check_reply ?ibuf cmd (dv_cam_tag dv) len of
             None \<Rightarrow> Some ((-1, []), s2)
           | Some actual_len \<Rightarrow>
               Some ((actual_len, take (nat (if actual_len > n then n else actual_len)) (drop 8 ?ibuf)),
                     set_dev d (dv\<lparr>dv_cam_tag := dv_cam_tag dv + 1\<rparr>) s2))"
      unfolding run [symmetric] send_cmd_def using buf(1) len_ok ok
      by (simp only: dv bind.bind_lunit Let_def cam_def [symmetric] ctl w heap prod.case if_False simp_thms)
    have hdr: "check_reply ?ibuf cmd (dv_cam_tag dv) len =
        (if take 8 ?ibuf = reply_hdr cmd (dv_cam_tag dv) len \<and> (len - 8) div 2 < 0x10000 then Some (len - 8) else None)"
      if "\<not> len < 8"
      by (rule check_reply_hdr) (use that in \<open>simp_all add: pad_def\<close>)
    have "(let polled = after_polls cam (Suc k) sent; ibuf = ?ibuf
          in if len < 8 then r = out \<and> reply = [] \<and> s' = polled
             else if take 8 ibuf = reply_hdr cmd (dv_cam_tag dv) len \<and> (len - 8) div 2 < 0x10000
             then r = len - 8 \<and> reply = take (nat (min r n)) (drop 8 ibuf) \<and>
               s' = set_dev d (dv\<lparr>dv_cam_tag := dv_cam_tag dv + 1\<rparr>) polled
             else r = -1 \<and> reply = [] \<and> s' = polled)"
      using step hdr unfolding k(4) [symmetric] Let_def by (auto simp: min_def split: if_splits)
    with k(1,2,3) show ?thesis by (metis fst_conv)
  qed
  have "out < 0 \<Longrightarrow> r = out \<and> reply = [] \<and> s' = sent"
    using run dv buf ctl by (auto simp: send_cmd_def cam_def)
  moreover have "fst (e_control E (st_io sent)) = out" using out by (simp add: sent_def)
  ultimately show ?thesis using rest unfolding cam_def [symmetric] req_def [symmetric] sent_def [symmetric] Let_def by presburger
qed

text \<open>A command of odd length, or one that is too long, is refused before anything is sent.\<close>

lemma send_cmd_refused:
  "st_devs s d = Some dv \<Longrightarrow> odd (length buf) \<or> length buf > 0x400 - 8 \<Longrightarrow> send_cmd E d cmd buf n s = Some ((-1, []), s)"
  by (simp add: send_cmd_def)

text \<open>
  A register write that was never acknowledged counts as done. When the output transfer of
  send_cmd succeeds and the input transfer that should bring the reply fails, send_cmd returns the
  result of the output transfer, so write_register returns 0; the camera tag stays as it was.
\<close>

theorem write_register_unacknowledged:
  assumes dv: "st_devs s d = Some dv" and h: "ud_dev (dv_usb_cam dv) \<noteq> None"
    and obuf: "req = IO_control (ud_dev (dv_usb_cam dv)) 0x40 0 0 0
      (cam_hdr 0x03 (dv_cam_tag dv) 4 @ le16 reg @ le16 data) 12"
    and out: "0 \<le> fst (e_control E (req # st_io s))"
    and inp: "fst (e_control E (poll_req (dv_usb_cam dv) # req # st_io s)) < 0"
  shows "\<exists>s'. write_register E d reg data s = Some (0, s') \<and> st_devs s' = st_devs s"
proof -
  obtain res bs where o: "e_control E (req # st_io s) = (res, bs)" by (cases "e_control E (req # st_io s)")
  obtain len bs' where i: "e_control E (poll_req (dv_usb_cam dv) # req # st_io s) = (len, bs')"
    by (cases "e_control E (poll_req (dv_usb_cam dv) # req # st_io s)")
  have lens: "0 \<le> res" "len < 0" using out inp o i by simp_all
  have "await_reply E (dv_usb_cam dv) (emit req s) = Some ((len, bs'), after_polls (dv_usb_cam dv) 1 (emit req s))"
    using await_reply_unfold [OF h, of E "emit req s"] i lens
    by (simp add: poll_answer_def no_answer_def)
  moreover have "fnusb_control E (dv_usb_cam dv) 0x40 0 0 0
      (cam_hdr 0x03 (dv_cam_tag dv) 4 @ le16 reg @ le16 data) (4 + 8) s = Some ((res, bs), emit req s)"
    using h o by (simp add: fnusb_control_def Let_def obuf [symmetric])
  ultimately have "send_cmd E d 0x03 (le16 reg @ le16 data) 4 s =
      Some ((res, []), after_polls (dv_usb_cam dv) 1 (emit req s))"
    using dv lens by (simp add: send_cmd_def)
  then show ?thesis using lens by (simp add: write_register_def)
qed

text \<open>A camera whose output transfers succeed and whose input transfers fail.\<close>

definition deaf_env :: env where
  "deaf_env = quiet_env\<lparr>e_control := \<lambda>h. (case h of IO_control _ t _ _ _ _ n # _ \<Rightarrow>
     (if t = 0x40 then (int n, []) else (-4, [])) | _ \<Rightarrow> (0, []))\<rparr>"

theorem write_register_unacknowledged_witness:
  "\<exists>s'. write_register deaf_env 0 0x06 0x02 example_state = Some (0, s') \<and>
     st_devs s' = st_devs example_state"
  by (rule write_register_unacknowledged [OF _ _ refl, of _ _ "zero_device\<lparr>dv_usb_cam := zero_fnusb_dev\<lparr>ud_dev := Some 1\<rparr>\<rparr>"])
    (simp_all add: example_state_def deaf_env_def)

text \<open>
  A camera flag below bit 16 is set by read-modify-write of CMOS register 0x106: the value
  written back has exactly the bits of the flag switched to the requested value and all others as
  they were read.
\<close>

theorem freenect_set_flag_cmos:
  assumes dv: "st_devs s d = Some dv" and flag: "flag < 0x10000"
    and rd: "read_cmos_register E d 0x0106 s = Some (old, s1)" and ok: "old \<noteq> 0xFFFF"
  shows "\<exists>w. freenect_set_flag E d flag v s = write_cmos_register E d 0x0106 w s1 \<and>
    (\<forall>n < 16. bit w n = (if bit flag n then v = FREENECT_ON else bit old n))"
proof -
  have n: "flag \<noteq> FREENECT_NEAR_MODE" "\<not> flag \<ge> push_bit 16 1"
    using flag by (auto simp: not_le)
  let ?w = "if v = FREENECT_ON then old OR ucast flag else old AND ucast (NOT flag)"
  have "freenect_set_flag E d flag v s = write_cmos_register E d 0x0106 ?w s1"
    using dv n rd ok by (simp add: freenect_set_flag_def Let_def)
  moreover have "\<forall>n < 16. bit ?w n = (if bit flag n then v = FREENECT_ON else bit old n)"
    by (auto simp: bit_simps)
  ultimately show ?thesis by blast
qed

text \<open>An environment in which every camera command is answered with its own header and no data.\<close>

definition echo_env :: "u8 list \<Rightarrow> env" where
  "echo_env payload = quiet_env\<lparr>e_control := \<lambda>h. (case h of
       IO_control _ t _ _ _ _ n # IO_control _ _ _ _ _ obuf _ # _ \<Rightarrow>
         (int (8 + length payload),
          [0x52, 0x42] @ le16 (of_nat (length payload div 2)) @ take 4 (drop 4 obuf) @ payload)
     | IO_control _ t _ _ _ _ n # _ \<Rightarrow> (int n, []) | _ \<Rightarrow> (0, []))\<rparr>"

text \<open>A command whose reply comes with the first poll.\<close>

lemma send_cmd_answered:
  assumes dv: "st_devs s d = Some dv" and cam: "cam = dv_usb_cam dv" and h: "ud_dev cam \<noteq> None"
    and buf: "even (length buf)" "length buf \<le> 0x400 - 8"
    and req: "req = IO_control (ud_dev cam) 0x40 0 0 0
      (cam_hdr cmd (dv_cam_tag dv) (length buf) @ buf) (length buf + 8)"
    and out: "e_control E (req # st_io s) = (res, x)" "0 \<le> res"
    and inp: "poll_answer E cam (emit req s) = (len, bytes)" "8 \<le> len" "len \<noteq> 0x200"
    and ibuf: "ibuf = pad 0x200 (hp_fill (st_heap s)) (take (nat len) bytes)"
    and chk: "check_reply ibuf cmd (dv_cam_tag dv) len = Some a"
  shows "send_cmd E d cmd buf n s = Some ((a, take (nat (min a n)) (drop 8 ibuf)),
    set_dev d (dv\<lparr>dv_cam_tag := dv_cam_tag dv + 1\<rparr>) (after_polls cam 1 (emit req s)))"
proof -
  have w: "await_reply E cam (emit req s) = Some ((len, bytes), after_polls cam 1 (emit req s))"
    using await_reply_unfold [OF h, of E "emit req s"] inp by (simp add: no_answer_def)
  have c: "fnusb_control E cam 0x40 0 0 0 (cam_hdr cmd (dv_cam_tag dv) (length buf) @ buf) (length buf + 8) s =
      Some ((res, x), emit req s)"
    using fnusb_control_open [OF h] out(1) by (simp add: req)
  have "st_heap (after_polls cam 1 (emit req s)) = st_heap s" by simp
  with ibuf have i: "pad 0x200 (hp_fill (st_heap (after_polls cam 1 (emit req s)))) (take (nat len) bytes) = ibuf"
    by simp
  show ?thesis
    unfolding send_cmd_def using dv buf out inp(2)
    by (simp only: bind.bind_lunit Let_def c w i chk cam [symmetric] prod.case option.case) (auto simp: min_def)
qed

abbreviation reply_10 :: "u8 list" where "reply_10 \<equiv> [0x52, 0x42, 3, 0, 0x95, 0, 0, 0, 1, 0, 6, 1, 0x10, 0]"

lemma echo_send_cmd:
  "\<exists>s1. send_cmd (echo_env [1, 0, 6, 1, 0x10, 0]) 0 0x95 (le16 1 @ le16 (0x0106 AND 0x7fff) @ le16 0) 6
     example_state = Some ((6, [1, 0, 6, 1, 0x10, 0]), s1)"
proof -
  let ?E = "echo_env [1, 0, 6, 1, 0x10, 0]" and ?cam = "zero_fnusb_dev\<lparr>ud_dev := Some 1\<rparr>"
  let ?dv = "zero_device\<lparr>dv_usb_cam := ?cam\<rparr>" and ?buf = "le16 1 @ le16 (0x0106 AND 0x7fff) @ le16 0"
  let ?req = "IO_control (ud_dev ?cam) 0x40 0 0 0 (cam_hdr 0x95 (dv_cam_tag ?dv) (length ?buf) @ ?buf) (length ?buf + 8)"
  let ?ibuf = "pad 0x200 (hp_fill (st_heap example_state)) (take (nat 14) reply_10)"
  have d: "st_devs example_state 0 = Some ?dv" by (simp add: example_state_def)
  have o: "e_control ?E (?req # st_io example_state) = (14, [])"
    by (simp add: echo_env_def example_state_def)
  have i: "poll_answer ?E ?cam (emit ?req example_state) = (14, reply_10)"
    by (simp add: poll_answer_def echo_env_def cam_hdr_def le16_def zero_device_def)
  have c: "check_reply ?ibuf 0x95 (dv_cam_tag ?dv) 14 = Some 6"
    by (simp add: check_reply_def get16_def of_le16_def pad_nth zero_device_def)
  have p: "take (nat (min 6 6)) (drop 8 ?ibuf) = [1, 0, 6, 1, 0x10, 0]"
    by (simp add: pad_def)
  show ?thesis
    using send_cmd_answered [OF d _ _ _ _ refl o _ i _ _ refl c, of 6] p by (auto simp: zero_device_def)
qed

lemma echo_read_cmos:
  "\<exists>s1. read_cmos_register (echo_env [1, 0, 6, 1, 0x10, 0]) 0 0x0106 example_state = Some (0x10, s1)"
  using echo_send_cmd by (auto simp: read_cmos_register_def get16_def of_le16_def pad_nth)

theorem freenect_set_flag_cmos_witness:
  "\<exists>s1 w. freenect_set_flag (echo_env [1, 0, 6, 1, 0x10, 0]) 0 FREENECT_AUTO_FLICKER FREENECT_ON example_state =
      write_cmos_register (echo_env [1, 0, 6, 1, 0x10, 0]) 0 0x0106 w s1 \<and> bit w 7 \<and> bit w 4 \<and> \<not> bit w 0"
proof -
  obtain s1 where r: "read_cmos_register (echo_env [1, 0, 6, 1, 0x10, 0]) 0 0x0106 example_state = Some (0x10, s1)"
    using echo_read_cmos by blast
  have d: "st_devs example_state 0 = Some (zero_device\<lparr>dv_usb_cam := zero_fnusb_dev\<lparr>ud_dev := Some 1\<rparr>\<rparr>)"
    by (simp add: example_state_def)
  have "FREENECT_AUTO_FLICKER < 0x10000" and "(0x10 :: u16) \<noteq> 0xFFFF" by simp_all
  from freenect_set_flag_cmos [OF d this(1) r this(2), of FREENECT_ON] obtain w where w:
    "freenect_set_flag (echo_env [1, 0, 6, 1, 0x10, 0]) 0 FREENECT_AUTO_FLICKER FREENECT_ON example_state =
      write_cmos_register (echo_env [1, 0, 6, 1, 0x10, 0]) 0 0x0106 w s1"
    "\<forall>n < 16. bit w n = (if bit FREENECT_AUTO_FLICKER n then FREENECT_ON = FREENECT_ON else bit (0x10 :: u16) n)" by blast
  have "bit w 7" "bit w 4" "\<not> bit w 0"
    using w(2) [rule_format, of 7] w(2) [rule_format, of 4] w(2) [rule_format, of 0] by (simp_all add: bit_numeral_simps)
  with w(1) show ?thesis by blast
qed

theorem send_cmd_protocol_witness:
  "\<exists>s' k len bytes. send_cmd (echo_env [1, 0, 6, 1, 0x10, 0]) 0 0x95
      (le16 1 @ le16 (0x0106 AND 0x7fff) @ le16 0) 6 example_state = Some ((6, [1, 0, 6, 1, 0x10, 0]), s') \<and>
    poll_answer (echo_env [1, 0, 6, 1, 0x10, 0]) (zero_fnusb_dev\<lparr>ud_dev := Some 1\<rparr>)
      (after_polls (zero_fnusb_dev\<lparr>ud_dev := Some 1\<rparr>) k (emit (IO_control (Some 1) 0x40 0 0 0
        (cam_hdr 0x95 0 6 @ le16 1 @ le16 (0x0106 AND 0x7fff) @ le16 0) 14) example_state)) = (len, bytes) \<and>
    take 8 (pad 0x200 (hp_fill (st_heap example_state)) (take (nat len) bytes)) = reply_hdr 0x95 0 len"
proof -
  let ?E = "echo_env [1, 0, 6, 1, 0x10, 0]" and ?buf = "le16 1 @ le16 (0x0106 AND 0x7fff) @ le16 0"
  obtain s' where c: "send_cmd ?E 0 0x95 ?buf 6 example_state = Some ((6, [1, 0, 6, 1, 0x10, 0]), s')"
    using echo_send_cmd by blast
  have d: "st_devs example_state 0 = Some (zero_device\<lparr>dv_usb_cam := zero_fnusb_dev\<lparr>ud_dev := Some 1\<rparr>\<rparr>)"
    by (simp add: example_state_def)
  have buf: "even (length ?buf)" "length ?buf \<le> 0x400 - 8" by simp_all
  have tag: "dv_cam_tag zero_device = 0" by (simp add: zero_device_def)
  obtain E where E: "E = ?E" by blast
  show ?thesis
    using send_cmd_protocol [OF c d buf] c unfolding E [symmetric]
    by - (rule exI [of _ s'], auto simp: Let_def tag split: if_splits)
qed

end
