(* ===== verification/Iso.thy ===== *)
theory Iso
  imports Frames AudioCb Control
begin

text \<open>
  Isochronous streams (src/usb_libusb10.c): starting and stopping the transfers of a stream, the
  completion callback iso_callback that feeds the packets to the camera and audio callbacks and
  resubmits the transfer, and libusb's event loop, which calls it.

  An abstract pool of transfers (some live, the others gone for good) says what the accounting in
  dead_xfers promises; iso_callback refines it, and every step of the pool tells what was submitted.
  The waiting loop of fnusb_stop_iso ends exactly when no transfer is live.
\<close>

section \<open>Access to the four streams of a device\<close>

fun dev_isoc :: "iso_strm \<Rightarrow> freenect_device \<Rightarrow> fnusb_isoc_stream" where
  "dev_isoc Iso_depth dev = dv_depth_isoc dev"
| "dev_isoc Iso_video dev = dv_video_isoc dev"
| "dev_isoc Iso_audio_in dev = dv_audio_in_isoc dev"
| "dev_isoc Iso_audio_out dev = dv_audio_out_isoc dev"

fun set_isoc :: "iso_strm \<Rightarrow> fnusb_isoc_stream \<Rightarrow> freenect_device \<Rightarrow> freenect_device" where
  "set_isoc Iso_depth strm dev = dev\<lparr>dv_depth_isoc := strm\<rparr>"
| "set_isoc Iso_video strm dev = dev\<lparr>dv_video_isoc := strm\<rparr>"
| "set_isoc Iso_audio_in strm dev = dev\<lparr>dv_audio_in_isoc := strm\<rparr>"
| "set_isoc Iso_audio_out strm dev = dev\<lparr>dv_audio_out_isoc := strm\<rparr>"

text \<open>The parent of a stream: the camera for the first two, the audio device for the others.\<close>

fun isoc_parent :: "iso_strm \<Rightarrow> freenect_device \<Rightarrow> fnusb_dev" where
  "isoc_parent Iso_depth dev = dv_usb_cam dev"
| "isoc_parent Iso_video dev = dv_usb_cam dev"
| "isoc_parent Iso_audio_in dev = dv_usb_audio dev"
| "isoc_parent Iso_audio_out dev = dv_usb_audio dev"

fun mark_parent_dead :: "iso_strm \<Rightarrow> freenect_device \<Rightarrow> freenect_device" where
  "mark_parent_dead Iso_depth dev = dev\<lparr>dv_usb_cam := (dv_usb_cam dev)\<lparr>ud_device_dead := True\<rparr>\<rparr>"
| "mark_parent_dead Iso_video dev = dev\<lparr>dv_usb_cam := (dv_usb_cam dev)\<lparr>ud_device_dead := True\<rparr>\<rparr>"
| "mark_parent_dead Iso_audio_in dev = dev\<lparr>dv_usb_audio := (dv_usb_audio dev)\<lparr>ud_device_dead := True\<rparr>\<rparr>"
| "mark_parent_dead Iso_audio_out dev = dev\<lparr>dv_usb_audio := (dv_usb_audio dev)\<lparr>ud_device_dead := True\<rparr>\<rparr>"

definition upd_isoc :: "nat \<Rightarrow> iso_strm \<Rightarrow> (fnusb_isoc_stream \<Rightarrow> fnusb_isoc_stream) \<Rightarrow> st \<Rightarrow> st option" where
  "upd_isoc d k f s = do {
     dev \<leftarrow> st_devs s d;
     Some (set_dev d (set_isoc k (f (dev_isoc k dev)) dev) s)
   }"

definition add_dead :: "fnusb_isoc_stream \<Rightarrow> fnusb_isoc_stream" where
  "add_dead strm = strm\<lparr>is_dead_xfers := is_dead_xfers strm + 1\<rparr>"

definition mark_dead :: "nat \<Rightarrow> iso_strm \<Rightarrow> st \<Rightarrow> st option" where
  "mark_dead d k s = do { dev \<leftarrow> st_devs s d; Some (set_dev d (mark_parent_dead k dev) s) }"

section \<open>The completion callback\<close>

definition run_iso_cb :: "fnusb_iso_cb \<Rightarrow> nat \<Rightarrow> u8 list \<Rightarrow> st \<Rightarrow> st option" where
  "run_iso_cb cb d pkt s =
     (case cb of
        Cb_depth_process \<Rightarrow> depth_process d pkt s
      | Cb_video_process \<Rightarrow> video_process d pkt s
      | Cb_iso_in \<Rightarrow> iso_in_callback d pkt s
      | Cb_iso_out \<Rightarrow> iso_out_callback d pkt s)"

text \<open>Resubmission; LIBUSB_ERROR_NO_DEVICE is -4.\<close>

definition resubmit :: "env \<Rightarrow> nat \<Rightarrow> iso_strm \<Rightarrow> nat \<Rightarrow> st \<Rightarrow> st option" where
  "resubmit E d k i s =
     (let (res, s) = io_int E (IO_submit d k i) s
      in if res \<noteq> 0
         then do {
           s \<leftarrow> upd_isoc d k add_dead s;
           if res = -4 then mark_dead d k s else Some s
         }
         else Some s)"

definition iso_callback :: "env \<Rightarrow> completion \<Rightarrow> st \<Rightarrow> st option" where
  "iso_callback E xfer s = do {
     let d = cp_dev xfer; let k = cp_strm xfer;
     dev \<leftarrow> st_devs s d;
     let strm = dev_isoc k dev;
     if is_dead strm then upd_isoc d k add_dead s
     else case cp_status xfer of
       Xfer_completed \<Rightarrow> do {
         cb \<leftarrow> is_cb strm;
         s \<leftarrow> fold_opt (run_iso_cb cb d) (take (nat (is_pkts strm)) (cp_packets xfer)) s;
         resubmit E d k (cp_xfer xfer) s
       }
     | Xfer_no_device \<Rightarrow> do { s \<leftarrow> upd_isoc d k add_dead s; mark_dead d k s }
     | Xfer_cancelled \<Rightarrow> do { s \<leftarrow> mark_dead d k s; upd_isoc d k add_dead s }
     | Xfer_other \<Rightarrow> resubmit E d k (cp_xfer xfer) s
   }"

text \<open>libusb_handle_events and its variant with a timeout call the callback of every completion.\<close>

definition libusb_handle_events :: "env \<Rightarrow> st \<Rightarrow> (int \<times> st) option" where
  "libusb_handle_events E s =
     (let s = emit (IO_handle_events (cx_usb_ctx (st_ctx s))) s;
          (res, xfers) = e_events E (st_io s)
      in do { s \<leftarrow> fold_opt (iso_callback E) xfers s; Some (res, s) })"

definition fnusb_process_events :: "env \<Rightarrow> st \<Rightarrow> (int \<times> st) option" where
  "fnusb_process_events E s = libusb_handle_events E s"

definition fnusb_process_events_timeout :: "env \<Rightarrow> st \<Rightarrow> (int \<times> st) option" where
  "fnusb_process_events_timeout E s = libusb_handle_events E s"

section \<open>Starting and stopping\<close>

text \<open>The body of the loop of fnusb_start_iso for transfer \<open>i\<close>.\<close>

definition start_xfer :: "env \<Rightarrow> nat \<Rightarrow> iso_strm \<Rightarrow> int \<Rightarrow> nat \<Rightarrow> st \<Rightarrow> st option" where
  "start_xfer E d k pkts i s = do {
     let s = emit (IO_alloc_transfer (nat pkts)) s;
     let allocated = e_alloc E (st_io s);
     s \<leftarrow> upd_isoc d k (\<lambda>strm. strm\<lparr>is_xfers := is_xfers strm @ [allocated]\<rparr>) s;
     if \<not> allocated then upd_isoc d k add_dead s
     else let (ret, s) = io_int E (IO_submit d k i) s
          in if ret < 0 then upd_isoc d k add_dead s else Some s
   }"

text \<open>The length of the stream's buffer is that of all packets; malloc may return NULL.\<close>

definition fnusb_start_iso ::
    "env \<Rightarrow> nat \<Rightarrow> iso_strm \<Rightarrow> fnusb_iso_cb \<Rightarrow> u8 \<Rightarrow> int \<Rightarrow> int \<Rightarrow> int \<Rightarrow> st \<Rightarrow> (int \<times> st) option" where
  "fnusb_start_iso E d k cb endpoint xfers pkts len s = do {
     let (buf, h) = malloc (nat (xfers * pkts * len)) (st_heap s);
     s \<leftarrow> upd_isoc d k (\<lambda>strm. \<lparr>is_xfers = [], is_buffer = buf, is_cb = Some cb, is_num_xfers = xfers,
            is_pkts = pkts, is_len = len, is_dead = False, is_dead_xfers = 0\<rparr>) (s\<lparr>st_heap := h\<rparr>);
     s \<leftarrow> fold_opt (start_xfer E d k pkts) [0..<nat xfers] s;
     Some (0, s)
   }"

text \<open>Cancelling dereferences the transfer; a NULL entry has no defined continuation.\<close>

definition cancel_xfer :: "nat \<Rightarrow> iso_strm \<Rightarrow> nat \<Rightarrow> st \<Rightarrow> st option" where
  "cancel_xfer d k i s = do {
     dev \<leftarrow> st_devs s d;
     ok \<leftarrow> lookup (is_xfers (dev_isoc k dev)) i;
     if ok then Some (emit (IO_cancel d k i) s) else None
   }"

text \<open>The loop that waits until every transfer came back.\<close>

partial_function (option) drain :: "env \<Rightarrow> nat \<Rightarrow> iso_strm \<Rightarrow> st \<Rightarrow> st option" where
  "drain E d k s = do {
     dev \<leftarrow> st_devs s d;
     let strm = dev_isoc k dev;
     if is_dead_xfers strm < is_num_xfers strm
     then do { (_, s) \<leftarrow> libusb_handle_events E s; drain E d k s }
     else Some s
   }"

definition fnusb_stop_iso :: "env \<Rightarrow> nat \<Rightarrow> iso_strm \<Rightarrow> st \<Rightarrow> (int \<times> st) option" where
  "fnusb_stop_iso E d k s = do {
     s \<leftarrow> upd_isoc d k (\<lambda>strm. strm\<lparr>is_dead := True\<rparr>) s;
     dev \<leftarrow> st_devs s d;
     s \<leftarrow> fold_opt (cancel_xfer d k) [0..<nat (is_num_xfers (dev_isoc k dev))] s;
     s \<leftarrow> drain E d k s;
     dev \<leftarrow> st_devs s d;
     let strm = dev_isoc k dev;
     let s = fold (\<lambda>i. emit (IO_free_transfer d k i)) [0..<nat (is_num_xfers strm)] s;
     h \<leftarrow> mfree (is_buffer strm) (st_heap s);
     Some (0, s\<lparr>st_heap := h\<rparr>)
   }"

section \<open>Lemmas: what the callbacks leave alone\<close>

lemma dev_isoc_set_isoc [simp]: "dev_isoc j (set_isoc k strm dev) = (if j = k then strm else dev_isoc j dev)"
  by (cases j; cases k) simp_all

lemma dev_isoc_mark [simp]: "dev_isoc j (mark_parent_dead k dev) = dev_isoc j dev"
  by (cases j; cases k) simp_all

lemma upd_isoc_Some: "st_devs s d = Some dev \<Longrightarrow>
   upd_isoc d k f s = Some (set_dev d (set_isoc k (f (dev_isoc k dev)) dev) s)"
  by (simp add: upd_isoc_def)

text \<open>The devices keep their transfers.\<close>

definition keeps_isoc :: "st \<Rightarrow> st \<Rightarrow> bool" where
  "keeps_isoc s s' \<longleftrightarrow>
     (\<forall>x. map_option (\<lambda>dev. \<lambda>k. dev_isoc k dev) (st_devs s' x) = map_option (\<lambda>dev. \<lambda>k. dev_isoc k dev) (st_devs s x))"

lemma keeps_isoc_refl [simp]: "keeps_isoc s s"
  by (simp add: keeps_isoc_def)

lemma keeps_isoc_trans: "keeps_isoc s s' \<Longrightarrow> keeps_isoc s' s'' \<Longrightarrow> keeps_isoc s s''"
  by (simp add: keeps_isoc_def)

lemma keeps_isocD:
  assumes "keeps_isoc s s'" and "st_devs s d = Some dev"
  shows "\<exists>dev'. st_devs s' d = Some dev' \<and> (\<forall>k. dev_isoc k dev' = dev_isoc k dev)"
proof -
  have "map_option (\<lambda>dev. \<lambda>k. dev_isoc k dev) (st_devs s' d) = Some (\<lambda>k. dev_isoc k dev)"
    using assms by (simp add: keeps_isoc_def)
  then show ?thesis by (auto dest: fun_cong)
qed

lemma keeps_isocI:
  assumes "st_devs s d = Some dev" and "st_devs s' = (st_devs s)(d \<mapsto> dev')"
    and "\<And>k. dev_isoc k dev' = dev_isoc k dev"
  shows "keeps_isoc s s'"
  using assms by (simp add: keeps_isoc_def)

lemma dev_isoc_other [simp]:
  "dev_isoc k (dev\<lparr>dv_depth := a\<rparr>) = dev_isoc k dev" "dev_isoc k (dev\<lparr>dv_video := b\<rparr>) = dev_isoc k dev"
  "dev_isoc k (dev\<lparr>dv_audio := c\<rparr>) = dev_isoc k dev" "dev_isoc k (dev\<lparr>dv_cam_tag := t\<rparr>) = dev_isoc k dev"
  by (cases k; simp)+

lemma depth_process_keeps: "depth_process d pkt s = Some s' \<Longrightarrow> keeps_isoc s s'"
  by (auto simp: depth_process_def Let_def keeps_isoc_def split: Option.bind_splits if_splits option.splits)

lemma video_process_keeps: "video_process d pkt s = Some s' \<Longrightarrow> keeps_isoc s s'"
  by (auto simp: video_process_def Let_def keeps_isoc_def split: Option.bind_splits if_splits option.splits)

lemma iso_out_keeps: "iso_out_callback d pkt s = Some s' \<Longrightarrow> keeps_isoc s s'"
  by (auto simp: iso_out_callback_def prepare_iso_out_data_def Let_def keeps_isoc_def split: Option.bind_splits)

lemma iso_in_keeps: "iso_in_callback d pkt s = Some s' \<Longrightarrow> keeps_isoc s s'"
  by (auto simp: iso_in_callback_def Let_def keeps_isoc_def split: Option.bind_splits if_splits option.splits)

lemma run_iso_cb_keeps: "run_iso_cb cb d pkt s = Some s' \<Longrightarrow> keeps_isoc s s'"
  by (cases cb) (auto simp: run_iso_cb_def depth_process_keeps video_process_keeps iso_in_keeps iso_out_keeps)

lemma fold_cb_keeps: "fold_opt (run_iso_cb cb d) pkts s = Some s' \<Longrightarrow> keeps_isoc s s'"
proof (induction pkts arbitrary: s)
  case (Cons p pkts)
  then show ?case by (auto split: Option.bind_splits intro: keeps_isoc_trans dest: run_iso_cb_keeps)
qed simp

section \<open>The pool of transfers\<close>

record iso_pool =
  pl_live :: nat
  pl_gone :: nat
  pl_dying :: bool

text \<open>
  What becomes of a live transfer that comes back: it is submitted again and accepted, it is
  submitted again and refused, or it is not submitted again. While the stream is dying only the
  last can happen.
\<close>

datatype pool_event = Kept | Refused | Retired

definition gone :: "iso_pool \<Rightarrow> iso_pool" where
  "gone p = p\<lparr>pl_live := pl_live p - 1, pl_gone := pl_gone p + 1\<rparr>"

inductive pool_step :: "iso_pool \<Rightarrow> pool_event \<Rightarrow> iso_pool \<Rightarrow> bool" where
  kept: "0 < pl_live p \<Longrightarrow> \<not> pl_dying p \<Longrightarrow> pool_step p Kept p"
| refused: "0 < pl_live p \<Longrightarrow> \<not> pl_dying p \<Longrightarrow> pool_step p Refused (gone p)"
| retired: "0 < pl_live p \<Longrightarrow> pool_step p Retired (gone p)"

inductive_cases pool_step_keptE: "pool_step p Kept q"
inductive_simps pool_step_simps: "pool_step p ev q"

definition pool_of :: "fnusb_isoc_stream \<Rightarrow> iso_pool" where
  "pool_of strm = \<lparr>pl_live = nat (is_num_xfers strm - is_dead_xfers strm), pl_gone = nat (is_dead_xfers strm),
     pl_dying = is_dead strm\<rparr>"

lemma pool_total: "pool_step p ev q \<Longrightarrow> pl_live q + pl_gone q = pl_live p + pl_gone p"
  by (auto simp: pool_step_simps gone_def)

text \<open>A dying pool only shrinks, by one transfer a step, and nothing is submitted from it.\<close>

lemma pool_dying_step:
  assumes "pool_step p ev q" and "pl_dying p"
  shows "ev = Retired \<and> pl_dying q \<and> pl_live p = Suc (pl_live q) \<and> pl_gone q = Suc (pl_gone p)"
  using assms by (auto simp: pool_step_simps gone_def)

text \<open>Of the accounting fields, only dead_xfers ever changes in a callback.\<close>

definition fixed_part :: "fnusb_isoc_stream \<Rightarrow> bool list \<times> ptr \<times> int \<times> bool \<times> fnusb_iso_cb option" where
  "fixed_part strm = (is_xfers strm, is_buffer strm, is_num_xfers strm, is_dead strm, is_cb strm)"

lemma add_dead_simps [simp]:
  "is_dead_xfers (add_dead strm) = is_dead_xfers strm + 1" "fixed_part (add_dead strm) = fixed_part strm"
  by (simp_all add: add_dead_def fixed_part_def)

lemma mark_dead_keeps: "mark_dead d k s = Some s' \<Longrightarrow> keeps_isoc s s'"
  by (auto simp: mark_dead_def keeps_isoc_def split: Option.bind_splits)

lemma resubmit_cases:
  assumes "resubmit E d k i s = Some s'" and "st_devs s d = Some dev"
  shows "\<exists>dev'. st_devs s' d = Some dev' \<and>
    (dev_isoc k dev' = dev_isoc k dev \<or> dev_isoc k dev' = add_dead (dev_isoc k dev)) \<and>
    (\<forall>j. j \<noteq> k \<longrightarrow> dev_isoc j dev' = dev_isoc j dev)"
  using assms
  by (auto simp: resubmit_def Let_def io_int_def upd_isoc_def mark_dead_def split: Option.bind_splits if_splits)

lemma iso_callback_cases:
  assumes "iso_callback E xfer s = Some s'" and "st_devs s (cp_dev xfer) = Some dev"
  shows "\<exists>dev'. st_devs s' (cp_dev xfer) = Some dev' \<and>
    (\<forall>j. j \<noteq> cp_strm xfer \<longrightarrow> dev_isoc j dev' = dev_isoc j dev) \<and>
    (dev_isoc (cp_strm xfer) dev' = add_dead (dev_isoc (cp_strm xfer) dev) \<or>
     \<not> is_dead (dev_isoc (cp_strm xfer) dev) \<and> dev_isoc (cp_strm xfer) dev' = dev_isoc (cp_strm xfer) dev)"
proof -
  let ?d = "cp_dev xfer" and ?k = "cp_strm xfer"
  let ?strm = "dev_isoc ?k dev"
  show ?thesis
  proof (cases "is_dead ?strm")
    case True
    with assms show ?thesis by (auto simp: iso_callback_def upd_isoc_def Let_def)
  next
    case False
    show ?thesis
    proof (cases "cp_status xfer")
      case Xfer_completed
      then obtain cb s1 where s1: "fold_opt (run_iso_cb cb ?d) (take (nat (is_pkts ?strm)) (cp_packets xfer)) s = Some s1"
        and r: "resubmit E ?d ?k (cp_xfer xfer) s1 = Some s'"
        using assms False by (auto simp: iso_callback_def Let_def split: Option.bind_splits)
      from keeps_isocD [OF fold_cb_keeps [OF s1] assms(2)] obtain dev1 where
        "st_devs s1 ?d = Some dev1" "\<forall>j. dev_isoc j dev1 = dev_isoc j dev" by blast
      with resubmit_cases [OF r] False show ?thesis by fastforce
    next
      case Xfer_no_device
      with assms False show ?thesis
        by (auto simp: iso_callback_def upd_isoc_def mark_dead_def Let_def split: Option.bind_splits)
    next
      case Xfer_cancelled
      with assms False show ?thesis
        by (auto simp: iso_callback_def upd_isoc_def mark_dead_def Let_def split: Option.bind_splits)
    next
      case Xfer_other
      with assms False have "resubmit E ?d ?k (cp_xfer xfer) s = Some s'"
        by (simp add: iso_callback_def Let_def)
      with resubmit_cases [OF this assms(2)] False show ?thesis by auto
    qed
  qed
qed

text \<open>The transfers that were handed to libusb, the last first.\<close>

fun submissions :: "io list \<Rightarrow> (nat \<times> iso_strm \<times> nat) list" where
  "submissions [] = []"
| "submissions (ev # h) = (case ev of IO_submit d k i \<Rightarrow> (d, k, i) # submissions h | _ \<Rightarrow> submissions h)"

lemma submissions_append [simp]: "submissions (xs @ ys) = submissions xs @ submissions ys"
  by (induction xs) (auto split: io.split)

text \<open>The history grows, and no transfer is submitted.\<close>

definition logs :: "io list \<Rightarrow> io list \<Rightarrow> bool" where
  "logs io io' \<longleftrightarrow> (\<exists>evs. io' = evs @ io \<and> submissions evs = [])"

lemma logs_refl [simp]: "logs io io"
  by (simp add: logs_def)

lemma logs_trans: "logs x y \<Longrightarrow> logs y z \<Longrightarrow> logs x z"
  by (auto simp: logs_def)

lemma logs_Cons [simp]: "submissions [ev] = [] \<Longrightarrow> logs io io' \<Longrightarrow> logs io (ev # io')"
  unfolding logs_def by (metis append_Cons append_Nil submissions_append)

lemma logs_submissions: "logs io io' \<Longrightarrow> submissions io' = submissions io"
  by (auto simp: logs_def)

lemma chunk_event_logs [simp]: "logs io (st_io s) \<Longrightarrow> logs io (st_io (chunk_event cb user c s))"
  by (simp add: chunk_event_def split: option.split prod.split)

lemma run_iso_cb_logs:
  assumes "run_iso_cb cb d pkt s = Some s'"
  shows "logs (st_io s) (st_io s')"
proof (cases cb)
  case Cb_depth_process
  with assms show ?thesis
    by (auto simp: run_iso_cb_def depth_process_def Let_def split: Option.bind_splits if_splits option.splits)
next
  case Cb_video_process
  with assms show ?thesis
    by (auto simp: run_iso_cb_def video_process_def Let_def split: Option.bind_splits if_splits option.splits)
next
  case Cb_iso_in
  with assms show ?thesis
    by (auto simp: run_iso_cb_def iso_in_callback_def Let_def split: Option.bind_splits if_splits option.splits)
next
  case Cb_iso_out
  with assms show ?thesis
    by (auto simp: run_iso_cb_def iso_out_callback_def Let_def split: Option.bind_splits prod.splits)
qed

lemma fold_cb_logs: "fold_opt (run_iso_cb cb d) pkts s = Some s' \<Longrightarrow> logs (st_io s) (st_io s')"
proof (induction pkts arbitrary: s)
  case (Cons p pkts)
  then show ?case by (auto split: Option.bind_splits intro: logs_trans dest: run_iso_cb_logs)
qed simp

text \<open>Submitting a transfer again: libusb takes it, or it is counted as dead.\<close>

lemma resubmit_SomeD:
  assumes "resubmit E d k i s = Some s'" and "st_devs s d = Some dev"
  shows "st_io s' = IO_submit d k i # st_io s \<and> (\<exists>dev'. st_devs s' d = Some dev' \<and>
    dev_isoc k dev' = (if e_int E (st_io s') = 0 then dev_isoc k dev else add_dead (dev_isoc k dev)) \<and>
    (\<forall>j. j \<noteq> k \<longrightarrow> dev_isoc j dev' = dev_isoc j dev))"
  using assms
  by (auto simp: resubmit_def Let_def io_int_def upd_isoc_def mark_dead_def split: Option.bind_splits if_splits)

text \<open>
  C7. The accounting of the transfers. While a transfer of a stream is outstanding, its completion
  callback makes one step of the abstract pool. The transfer is retired, that is counted as dead and
  not submitted again, exactly when the stream is being stopped or the completion says that the
  transfer was cancelled or the device is gone. Otherwise it is submitted again, after everything
  else the callback does, and it counts as dead exactly when libusb refuses it. No other transfer
  is ever submitted by the callback, and the other streams of the device keep their transfers.
\<close>

theorem iso_callback_refines:
  assumes "iso_callback E xfer s = Some s'" and "st_devs s (cp_dev xfer) = Some dev"
    and "0 \<le> is_dead_xfers (dev_isoc (cp_strm xfer) dev)"
    and "is_dead_xfers (dev_isoc (cp_strm xfer) dev) < is_num_xfers (dev_isoc (cp_strm xfer) dev)"
  shows "\<exists>dev' ev. st_devs s' (cp_dev xfer) = Some dev' \<and>
    pool_step (pool_of (dev_isoc (cp_strm xfer) dev)) ev (pool_of (dev_isoc (cp_strm xfer) dev')) \<and>
    (ev = Retired \<longleftrightarrow> is_dead (dev_isoc (cp_strm xfer) dev) \<or> cp_status xfer \<in> {Xfer_no_device, Xfer_cancelled}) \<and>
    submissions (st_io s') =
      (if ev = Retired then [] else [(cp_dev xfer, cp_strm xfer, cp_xfer xfer)]) @ submissions (st_io s) \<and>
    (ev \<noteq> Retired \<longrightarrow> hd (st_io s') = IO_submit (cp_dev xfer) (cp_strm xfer) (cp_xfer xfer) \<and>
      (ev = Kept \<longleftrightarrow> e_int E (st_io s') = 0)) \<and>
    (\<forall>j. j \<noteq> cp_strm xfer \<longrightarrow> dev_isoc j dev' = dev_isoc j dev)"
proof -
  let ?d = "cp_dev xfer" and ?k = "cp_strm xfer"
  let ?strm = "dev_isoc ?k dev"
  have gone: "pool_of (add_dead ?strm) = gone (pool_of ?strm)"
    using assms(3,4) by (simp add: gone_def pool_of_def add_dead_def nat_diff_distrib nat_add_distrib)
  have live: "0 < pl_live (pool_of ?strm)" using assms(4) by (simp add: pool_of_def)
  note retired = pool_step.retired [OF live]
  have again: ?thesis
    if io: "logs (st_io s) (st_io s1)" and d1: "st_devs s1 ?d = Some dev1" "\<forall>j. dev_isoc j dev1 = dev_isoc j dev"
      and alive: "\<not> is_dead ?strm" and st: "cp_status xfer \<notin> {Xfer_no_device, Xfer_cancelled}"
      and r: "resubmit E ?d ?k (cp_xfer xfer) s1 = Some s'" for s1 dev1
  proof -
    let ?ev = "if e_int E (st_io s') = 0 then Kept else Refused"
    from resubmit_SomeD [OF r d1(1)] obtain dev' where dev': "st_io s' = IO_submit ?d ?k (cp_xfer xfer) # st_io s1"
      "st_devs s' ?d = Some dev'" "\<forall>j. j \<noteq> ?k \<longrightarrow> dev_isoc j dev' = dev_isoc j dev"
      "dev_isoc ?k dev' = (if e_int E (st_io s') = 0 then ?strm else add_dead ?strm)" using d1(2) by metis
    have "\<not> pl_dying (pool_of ?strm)" using alive by (simp add: pool_of_def)
    then have "pool_step (pool_of ?strm) ?ev (pool_of (dev_isoc ?k dev'))"
      using pool_step.kept [OF live] pool_step.refused [OF live] gone dev'(4) by simp
    then show ?thesis
      using dev' alive st logs_submissions [OF io] by (intro exI [of _ dev'] exI [of _ ?ev]) simp
  qed
  show ?thesis
  proof (cases "is_dead ?strm")
    case True
    with assms(1,2) have "s' = set_dev ?d (set_isoc ?k (add_dead ?strm) dev) s"
      by (simp add: iso_callback_def upd_isoc_def Let_def)
    then show ?thesis
      using True retired gone by (intro exI [of _ "set_isoc ?k (add_dead ?strm) dev"] exI [of _ Retired]) simp
  next
    case False
    show ?thesis
    proof (cases "cp_status xfer")
      case Xfer_completed
      then obtain cb s1 where s1: "fold_opt (run_iso_cb cb ?d) (take (nat (is_pkts ?strm)) (cp_packets xfer)) s = Some s1"
        and r: "resubmit E ?d ?k (cp_xfer xfer) s1 = Some s'"
        using assms False by (auto simp: iso_callback_def Let_def split: Option.bind_splits)
      from keeps_isocD [OF fold_cb_keeps [OF s1] assms(2)] obtain dev1 where
        "st_devs s1 ?d = Some dev1" "\<forall>j. dev_isoc j dev1 = dev_isoc j dev" by blast
      from again [OF fold_cb_logs [OF s1] this False _ r] Xfer_completed show ?thesis by simp
    next
      case Xfer_no_device
      let ?dev' = "mark_parent_dead ?k (set_isoc ?k (add_dead ?strm) dev)"
      from Xfer_no_device assms False have "s' = set_dev ?d ?dev' s"
        by (simp add: iso_callback_def upd_isoc_def mark_dead_def Let_def)
      then show ?thesis
        using Xfer_no_device retired gone by (intro exI [of _ ?dev'] exI [of _ Retired]) simp
    next
      case Xfer_cancelled
      let ?dev' = "set_isoc ?k (add_dead ?strm) (mark_parent_dead ?k dev)"
      from Xfer_cancelled assms False have "s' = set_dev ?d ?dev' s"
        by (simp add: iso_callback_def upd_isoc_def mark_dead_def Let_def)
      then show ?thesis
        using Xfer_cancelled retired gone by (intro exI [of _ ?dev'] exI [of _ Retired]) simp
    next
      case Xfer_other
      with assms False have r: "resubmit E ?d ?k (cp_xfer xfer) s = Some s'"
        by (simp add: iso_callback_def Let_def)
      show ?thesis by (rule again [OF _ assms(2) _ False _ r]) (simp_all add: Xfer_other)
    qed
  qed
qed

section \<open>Stopping\<close>

text \<open>Whatever the event loop does, a device stays and its streams only lose transfers.\<close>

definition evolves :: "st \<Rightarrow> st \<Rightarrow> bool" where
  "evolves s s' \<longleftrightarrow>
     (\<forall>x dev. st_devs s x = Some dev \<longrightarrow>
       (\<exists>dev'. st_devs s' x = Some dev' \<and>
         (\<forall>k. fixed_part (dev_isoc k dev') = fixed_part (dev_isoc k dev) \<and>
              is_dead_xfers (dev_isoc k dev) \<le> is_dead_xfers (dev_isoc k dev'))))"

lemma evolves_refl [simp]: "evolves s s"
  by (simp add: evolves_def)

lemma evolves_trans:
  assumes "evolves s s'" and "evolves s' s''"
  shows "evolves s s''"
  unfolding evolves_def
proof (intro allI impI)
  fix x dev assume "st_devs s x = Some dev"
  with assms(1) obtain dev1 where 1: "st_devs s' x = Some dev1"
    "\<And>k. fixed_part (dev_isoc k dev1) = fixed_part (dev_isoc k dev)"
    "\<And>k. is_dead_xfers (dev_isoc k dev) \<le> is_dead_xfers (dev_isoc k dev1)"
    unfolding evolves_def by blast
  with assms(2) obtain dev2 where 2: "st_devs s'' x = Some dev2"
    "\<And>k. fixed_part (dev_isoc k dev2) = fixed_part (dev_isoc k dev1)"
    "\<And>k. is_dead_xfers (dev_isoc k dev1) \<le> is_dead_xfers (dev_isoc k dev2)"
    unfolding evolves_def by blast
  have "fixed_part (dev_isoc k dev2) = fixed_part (dev_isoc k dev) \<and>
      is_dead_xfers (dev_isoc k dev) \<le> is_dead_xfers (dev_isoc k dev2)" for k
    using 1(2,3) 2(2,3) order_trans by metis
  with 2(1) show "\<exists>dev'. st_devs s'' x = Some dev' \<and>
      (\<forall>k. fixed_part (dev_isoc k dev') = fixed_part (dev_isoc k dev) \<and>
        is_dead_xfers (dev_isoc k dev) \<le> is_dead_xfers (dev_isoc k dev'))" by blast
qed

lemma keeps_isoc_evolves: "keeps_isoc s s' \<Longrightarrow> evolves s s'"
  unfolding evolves_def using keeps_isocD by fastforce

lemma evolves_emit [simp]: "evolves s (emit ev s)"
  by (simp add: evolves_def)

lemma add_dead_evolves: "upd_isoc d k add_dead s = Some s' \<Longrightarrow> evolves s s'"
  by (auto simp: upd_isoc_def evolves_def split: Option.bind_splits)

lemma resubmit_evolves: "resubmit E d k i s = Some s' \<Longrightarrow> evolves s s'"
proof -
  assume "resubmit E d k i s = Some s'"
  then consider "s' = emit (IO_submit d k i) s"
    | s1 where "upd_isoc d k add_dead (emit (IO_submit d k i) s) = Some s1" "s' = s1 \<or> mark_dead d k s1 = Some s'"
    by (auto simp: resubmit_def Let_def io_int_def split: if_splits Option.bind_splits)
  then show ?thesis
  proof cases
    case 2
    have "evolves s s1" using add_dead_evolves [OF 2(1)] evolves_trans evolves_emit by blast
    with 2(2) show ?thesis
      using keeps_isoc_evolves mark_dead_keeps evolves_trans by blast
  qed simp
qed

lemma iso_callback_evolves:
  assumes "iso_callback E xfer s = Some s'"
  shows "evolves s s'"
proof -
  let ?d = "cp_dev xfer" and ?k = "cp_strm xfer"
  from assms consider "upd_isoc ?d ?k add_dead s = Some s'"
    | cb pkts s1 where "fold_opt (run_iso_cb cb ?d) pkts s = Some s1" "resubmit E ?d ?k (cp_xfer xfer) s1 = Some s'"
    | s1 where "upd_isoc ?d ?k add_dead s = Some s1" "mark_dead ?d ?k s1 = Some s'"
    | s1 where "mark_dead ?d ?k s = Some s1" "upd_isoc ?d ?k add_dead s1 = Some s'"
    | "resubmit E ?d ?k (cp_xfer xfer) s = Some s'"
    by (auto simp: iso_callback_def Let_def split: Option.bind_splits if_splits xfer_status.splits)
  then show ?thesis
  proof cases
    case 1 then show ?thesis by (rule add_dead_evolves)
  next
    case 2 then show ?thesis using keeps_isoc_evolves fold_cb_keeps resubmit_evolves evolves_trans by blast
  next
    case 3 then show ?thesis using add_dead_evolves keeps_isoc_evolves mark_dead_keeps evolves_trans by blast
  next
    case 4 then show ?thesis using add_dead_evolves keeps_isoc_evolves mark_dead_keeps evolves_trans by blast
  next
    case 5 then show ?thesis by (rule resubmit_evolves)
  qed
qed

lemma fold_callback_evolves: "fold_opt (iso_callback E) xs s = Some s' \<Longrightarrow> evolves s s'"
proof (induction xs arbitrary: s)
  case (Cons x xs)
  then show ?case by (auto split: Option.bind_splits intro: evolves_trans iso_callback_evolves)
qed simp

text \<open>The history only grows.\<close>

lemma upd_isoc_io: "upd_isoc d k f s = Some s' \<Longrightarrow> st_io s' = st_io s"
  by (auto simp: upd_isoc_def split: Option.bind_splits)

lemma mark_dead_io: "mark_dead d k s = Some s' \<Longrightarrow> st_io s' = st_io s"
  by (auto simp: mark_dead_def split: Option.bind_splits)

lemma resubmit_io: "resubmit E d k i s = Some s' \<Longrightarrow> st_io s' = IO_submit d k i # st_io s"
  by (auto simp: resubmit_def Let_def io_int_def dest!: upd_isoc_io mark_dead_io split: Option.bind_splits if_splits)

lemma iso_callback_io: "iso_callback E x s = Some s' \<Longrightarrow> \<exists>evs. st_io s' = evs @ st_io s"
  by (auto simp: iso_callback_def Let_def logs_def dest!: upd_isoc_io mark_dead_io resubmit_io fold_cb_logs
      split: Option.bind_splits if_splits xfer_status.splits)

lemma fold_callback_io: "fold_opt (iso_callback E) xs s = Some s' \<Longrightarrow> \<exists>evs. st_io s' = evs @ st_io s"
proof (induction xs arbitrary: s)
  case (Cons x xs)
  then obtain s1 where "iso_callback E x s = Some s1" "fold_opt (iso_callback E) xs s1 = Some s'"
    by (auto split: Option.bind_splits)
  then show ?case using iso_callback_io Cons.IH by (metis append.assoc)
qed simp

lemma handle_events_evolves: "libusb_handle_events E s = Some (r, s') \<Longrightarrow> evolves s s'"
  by (auto simp: libusb_handle_events_def Let_def split: prod.splits Option.bind_splits
      intro: evolves_trans [OF evolves_emit] fold_callback_evolves)

lemma drain_SomeD:
  assumes "drain E d k s = Some s'"
  shows "evolves s s' \<and> (\<exists>dev. st_devs s' d = Some dev \<and>
    is_num_xfers (dev_isoc k dev) \<le> is_dead_xfers (dev_isoc k dev))"
  using assms
proof (rule drain.raw_induct [where P = "\<lambda>E d k s s'. evolves s s' \<and> (\<exists>dev. st_devs s' d = Some dev \<and>
    is_num_xfers (dev_isoc k dev) \<le> is_dead_xfers (dev_isoc k dev))", rotated])
  fix rec E d k s s'
  assume IH: "\<And>E d k s s'. rec E d k s = Some s' \<Longrightarrow> evolves s s' \<and> (\<exists>dev. st_devs s' d = Some dev \<and>
      is_num_xfers (dev_isoc k dev) \<le> is_dead_xfers (dev_isoc k dev))"
    and body: "(do { dev \<leftarrow> st_devs s d; let strm = dev_isoc k dev;
        if is_dead_xfers strm < is_num_xfers strm
        then do { (_, s) \<leftarrow> libusb_handle_events E s; rec E d k s } else Some s }) = Some s'"
  show "evolves s s' \<and> (\<exists>dev. st_devs s' d = Some dev \<and>
      is_num_xfers (dev_isoc k dev) \<le> is_dead_xfers (dev_isoc k dev))"
    using body IH handle_events_evolves evolves_trans
    by (fastforce split: Option.bind_splits if_splits simp: Let_def)
qed

lemma cancel_fold:
  assumes "fold_opt (cancel_xfer d k) [0..<n] s = Some s'" and "st_devs s d = Some dev"
  shows "st_devs s' = st_devs s" and "st_heap s' = st_heap s" and "st_ctx s' = st_ctx s"
    and "\<forall>i < n. lookup (is_xfers (dev_isoc k dev)) i = Some True"
proof -
  have "st_devs s' = st_devs s \<and> st_heap s' = st_heap s \<and> st_ctx s' = st_ctx s \<and>
      (\<forall>i < n. lookup (is_xfers (dev_isoc k dev)) i = Some True)"
    using assms(1)
  proof (induction n arbitrary: s')
    case (Suc n)
    then obtain s1 where s1: "fold_opt (cancel_xfer d k) [0..<n] s = Some s1" "cancel_xfer d k n s1 = Some s'"
      by (auto simp: fold_opt_append fold_opt_single split: Option.bind_splits)
    with Suc.IH [OF s1(1)] assms(2) show ?case
      by (auto simp: cancel_xfer_def less_Suc_eq split: Option.bind_splits if_splits)
  qed simp
  then show "st_devs s' = st_devs s" and "st_heap s' = st_heap s" and "st_ctx s' = st_ctx s"
    and "\<forall>i < n. lookup (is_xfers (dev_isoc k dev)) i = Some True" by blast+
qed

lemma fold_emit_simps [simp]:
  "st_devs (fold (\<lambda>i. emit (f i)) xs s) = st_devs s" "st_heap (fold (\<lambda>i. emit (f i)) xs s) = st_heap s"
  "st_ctx (fold (\<lambda>i. emit (f i)) xs s) = st_ctx s"
  by (induction xs arbitrary: s) simp_all

lemma evolvesD:
  assumes "evolves s s'" and "st_devs s d = Some dev" and "st_devs s' d = Some dev'"
  shows "fixed_part (dev_isoc k dev') = fixed_part (dev_isoc k dev)"
  using assms unfolding evolves_def by fastforce

lemma mfree_frees: "mfree (Some a) h = Some h' \<Longrightarrow> hp_blocks h' a = None"
  by (auto simp: mfree_def split: option.splits)

lemma fnusb_stop_iso_SomeD:
  assumes "fnusb_stop_iso E d k s = Some (r, s')" and "st_devs s d = Some dev"
  shows "\<exists>dev' h. st_devs s' d = Some dev' \<and> r = 0 \<and>
    fixed_part (dev_isoc k dev') = fixed_part ((dev_isoc k dev)\<lparr>is_dead := True\<rparr>) \<and>
    is_num_xfers (dev_isoc k dev') \<le> is_dead_xfers (dev_isoc k dev') \<and>
    mfree (is_buffer (dev_isoc k dev)) h = Some (st_heap s') \<and>
    (\<forall>i < nat (is_num_xfers (dev_isoc k dev)). lookup (is_xfers (dev_isoc k dev)) i = Some True)"
proof -
  let ?strm = "(dev_isoc k dev)\<lparr>is_dead := True\<rparr>"
  let ?dev = "set_isoc k ?strm dev" and ?s1 = "set_dev d (set_isoc k ?strm dev) s"
  obtain s2 s3 dev3 h where c: "fold_opt (cancel_xfer d k) [0..<nat (is_num_xfers ?strm)] ?s1 = Some s2"
    and dr: "drain E d k s2 = Some s3" and dev3: "st_devs s3 d = Some dev3"
    and h: "mfree (is_buffer (dev_isoc k dev3)) (st_heap s3) = Some h"
    and fin: "r = 0" "st_devs s' = st_devs s3" "st_heap s' = h"
    using assms by (auto simp: fnusb_stop_iso_def upd_isoc_def Let_def split: Option.bind_splits)
  have d1: "st_devs ?s1 d = Some ?dev" by simp
  note C = cancel_fold [OF c d1]
  have d2: "st_devs s2 d = Some ?dev" using C(1) by simp
  from drain_SomeD [OF dr] dev3 have ev: "evolves s2 s3"
    and fin_all: "is_num_xfers (dev_isoc k dev3) \<le> is_dead_xfers (dev_isoc k dev3)" by auto
  from ev d2 dev3 have fx: "fixed_part (dev_isoc k dev3) = fixed_part ?strm"
    unfolding evolves_def by fastforce
  then have "is_buffer (dev_isoc k dev3) = is_buffer (dev_isoc k dev)" by (simp add: fixed_part_def)
  then show ?thesis using fin dev3 fin_all fx h C(4) by (intro exI [of _ dev3] exI [of _ "st_heap s3"]) simp
qed

text \<open>
  The buffer of a stream outlives its transfers. When fnusb_stop_iso returns, it returns 0,
  every transfer had been allocated and was cancelled, all of them have come back (no transfer that
  libusb may still write to is left), and the packet buffer of the stream is free.
\<close>

theorem fnusb_stop_iso_drained:
  assumes "fnusb_stop_iso E d k s = Some (r, s')" and "st_devs s d = Some dev"
  shows "r = 0 \<and> (\<forall>i < nat (is_num_xfers (dev_isoc k dev)). lookup (is_xfers (dev_isoc k dev)) i = Some True) \<and>
    (\<exists>dev'. st_devs s' d = Some dev' \<and> is_dead (dev_isoc k dev') \<and>
       is_num_xfers (dev_isoc k dev') = is_num_xfers (dev_isoc k dev) \<and>
       is_num_xfers (dev_isoc k dev') \<le> is_dead_xfers (dev_isoc k dev')) \<and>
    (\<forall>a. is_buffer (dev_isoc k dev) = Some a \<longrightarrow> hp_blocks (st_heap s') a = None)"
proof -
  obtain dev' h where D: "st_devs s' d = Some dev'" "r = 0"
    "fixed_part (dev_isoc k dev') = fixed_part ((dev_isoc k dev)\<lparr>is_dead := True\<rparr>)"
    "is_num_xfers (dev_isoc k dev') \<le> is_dead_xfers (dev_isoc k dev')"
    "mfree (is_buffer (dev_isoc k dev)) h = Some (st_heap s')"
    "\<forall>i < nat (is_num_xfers (dev_isoc k dev)). lookup (is_xfers (dev_isoc k dev)) i = Some True"
    using fnusb_stop_iso_SomeD [OF assms] by blast
  have "is_dead (dev_isoc k dev')" "is_num_xfers (dev_isoc k dev') = is_num_xfers (dev_isoc k dev)"
    using D(3) by (simp_all add: fixed_part_def)
  moreover have "hp_blocks (st_heap s') a = None" if "is_buffer (dev_isoc k dev) = Some a" for a
    using D(5) that mfree_frees by simp
  ultimately show ?thesis using D(1,2,4,6) by simp
qed

section \<open>Liveness of the waiting loop\<close>

lemma set_isoc_same [simp]: "set_isoc k (dev_isoc k dev) dev = dev"
  by (cases k) simp_all

lemma set_isoc_set_isoc [simp]: "set_isoc k a (set_isoc k b dev) = set_isoc k a dev"
  by (cases k) simp_all

lemma set_dev_same: "st_devs s d = Some dev \<Longrightarrow> set_dev d dev s = s"
  by (simp add: set_dev_def fun_upd_idem)

text \<open>The callbacks of a stream that is being stopped only count.\<close>

lemma dying_callbacks:
  assumes "st_devs s d = Some dev" and "is_dead (dev_isoc k dev)"
    and "\<And>x. x \<in> set xs \<Longrightarrow> cp_dev x = d \<and> cp_strm x = k"
  shows "fold_opt (iso_callback E) xs s = Some (set_dev d (set_isoc k ((dev_isoc k dev)
    \<lparr>is_dead_xfers := is_dead_xfers (dev_isoc k dev) + int (length xs)\<rparr>) dev) s)"
  using assms
proof (induction xs arbitrary: s dev)
  case Nil
  then show ?case by (simp add: set_dev_same)
next
  case (Cons x xs)
  let ?dev = "set_isoc k (add_dead (dev_isoc k dev)) dev"
  have c: "iso_callback E x s = Some (set_dev d ?dev s)"
    using Cons.prems by (simp add: iso_callback_def upd_isoc_def Let_def)
  have "is_dead (dev_isoc k ?dev)" using Cons.prems(2) by (simp add: add_dead_def)
  note 2 = this
  have 1: "st_devs (set_dev d ?dev s) d = Some ?dev" by simp
  have 3: "cp_dev x = d \<and> cp_strm x = k" if "x \<in> set xs" for x by (rule Cons.prems(3)) (simp add: that)
  have "fold_opt (iso_callback E) (x # xs) s = fold_opt (iso_callback E) xs (set_dev d ?dev s)"
    by (simp add: c)
  also note Cons.IH [OF 1 2 3]
  also have "set_isoc k ((dev_isoc k ?dev)\<lparr>is_dead_xfers := is_dead_xfers (dev_isoc k ?dev) + int (length xs)\<rparr>) ?dev =
      set_isoc k ((dev_isoc k dev)\<lparr>is_dead_xfers := is_dead_xfers (dev_isoc k dev) + int (length (x # xs))\<rparr>) dev"
    by (simp add: add_dead_def add.assoc)
  finally show ?case by (simp only: set_dev_set_dev)
qed

text \<open>The stream that is being stopped: its transfers were cancelled and are not freed yet.\<close>

fun draining :: "io list \<Rightarrow> (nat \<times> iso_strm) option" where
  "draining [] = None"
| "draining (ev # h) =
     (case ev of IO_cancel d k i \<Rightarrow> Some (d, k) | IO_free_transfer d k i \<Rightarrow> None | _ \<Rightarrow> draining h)"

text \<open>
  A silent turn: the call of the event loop that ends the history \<open>h\<close> reports no transfer of the
  stream that is being stopped, and after whatever its callbacks did the loop is called again.
\<close>

definition silent_turn :: "env \<Rightarrow> nat \<times> iso_strm \<Rightarrow> io list \<Rightarrow> io list \<Rightarrow> bool" where
  "silent_turn E dk h' h \<longleftrightarrow>
     draining h = Some dk \<and> (\<forall>x \<in> set (snd (e_events E h)). (cp_dev x, cp_strm x) \<noteq> dk) \<and>
     (\<exists>c evs. h' = IO_handle_events c # evs @ h) \<and> draining h' = Some dk"

text \<open>
  A libusb that serves one stream alone: the silent turns of a stream that is being stopped come to an
  end (in any number, as long as it is finite), and what is reported then are transfers of that
  stream. The theory Client does without the second condition.
\<close>

definition delivers :: "env \<Rightarrow> bool" where
  "delivers E \<longleftrightarrow> (\<forall>dk. wfp (silent_turn E dk)) \<and>
     (\<forall>h dk. draining h = Some dk \<longrightarrow> (\<forall>x \<in> set (snd (e_events E h)). (cp_dev x, cp_strm x) = dk))"

lemma silent_turn_cong: "e_events E' = e_events E \<Longrightarrow> silent_turn E' = silent_turn E"
  by (intro ext) (simp add: silent_turn_def)

text \<open>
  The order in which the waiting loop makes progress: fewer transfers are awaited, or as many after
  one more silent turn.
\<close>

definition drain_order :: "(io list \<Rightarrow> io list \<Rightarrow> bool) \<Rightarrow> ((nat \<times> io list) \<times> nat \<times> io list) set" where
  "drain_order Q = less_than <*lex*> {(h', h). Q h' h}"

lemma drain_order_wf: "wfp Q \<Longrightarrow> wf (drain_order Q)"
  by (simp add: drain_order_def wfp_def wf_lex_prod)

lemma drain_order_less: "n < m \<Longrightarrow> ((n, h'), m, h) \<in> drain_order Q"
  by (simp add: drain_order_def)

lemma drain_order_silent: "n \<le> m \<Longrightarrow> Q h' h \<Longrightarrow> ((n, h'), m, h) \<in> drain_order Q"
  by (cases "n = m") (auto simp: drain_order_def)

abbreviation event_call :: "st \<Rightarrow> io list" where
  "event_call s \<equiv> IO_handle_events (cx_usb_ctx (st_ctx s)) # st_io s"

lemma drain_returns:
  assumes E: "delivers E" and dev: "st_devs s d = Some dev" and dead: "is_dead (dev_isoc k dev)"
    and c: "is_dead_xfers (dev_isoc k dev) < is_num_xfers (dev_isoc k dev) \<Longrightarrow> draining (st_io s) = Some (d, k)"
  shows "\<exists>n io'. drain E d k s =
      Some (set_dev d (set_isoc k ((dev_isoc k dev)\<lparr>is_dead_xfers := n\<rparr>) dev) (s\<lparr>st_io := io'\<rparr>)) \<and>
    is_num_xfers (dev_isoc k dev) \<le> n"
proof -
  have "wfp (silent_turn E (d, k))" using E by (simp add: delivers_def)
  from drain_order_wf [OF this] dev dead c show ?thesis
  proof (induction "(nat (is_num_xfers (dev_isoc k dev) - is_dead_xfers (dev_isoc k dev)), event_call s)"
      arbitrary: s dev rule: wf_induct_rule)
    case less
    let ?strm = "dev_isoc k dev"
    show ?case
    proof (cases "is_dead_xfers ?strm < is_num_xfers ?strm")
      case False
      then have "drain E d k s = Some (set_dev d (set_isoc k (?strm\<lparr>is_dead_xfers := is_dead_xfers ?strm\<rparr>) dev)
          (s\<lparr>st_io := st_io s\<rparr>))"
        using less.prems by (subst drain.simps) (simp add: set_dev_same)
      with False show ?thesis by (metis not_less)
    next
      case True
      let ?s = "emit (IO_handle_events (cx_usb_ctx (st_ctx s))) s"
      obtain r xs where ev: "e_events E (st_io ?s) = (r, xs)" by (cases "e_events E (st_io ?s)")
      have lc: "draining (st_io ?s) = Some (d, k)" using less.prems(3) True by simp
      then have xs: "\<And>x. x \<in> set xs \<Longrightarrow> cp_dev x = d \<and> cp_strm x = k"
        using E ev unfolding delivers_def by (metis prod.inject snd_conv)
      let ?dev = "set_isoc k (?strm\<lparr>is_dead_xfers := is_dead_xfers ?strm + int (length xs)\<rparr>) dev"
      let ?s' = "set_dev d ?dev ?s"
      have "fold_opt (iso_callback E) xs ?s = Some ?s'"
        by (rule dying_callbacks) (use less.prems xs in simp_all)
      with ev have h: "libusb_handle_events E s = Some (r, ?s')"
        by (simp add: libusb_handle_events_def Let_def)
      have "((nat (is_num_xfers (dev_isoc k ?dev) - is_dead_xfers (dev_isoc k ?dev)), event_call ?s'),
          nat (is_num_xfers ?strm - is_dead_xfers ?strm), event_call s) \<in> drain_order (silent_turn E (d, k))"
      proof (cases "xs = []")
        case True
        have "silent_turn E (d, k) (event_call ?s') (event_call s)"
          unfolding silent_turn_def using lc ev True by (auto intro: exI [of _ "[]"])
        then show ?thesis by (intro drain_order_silent) simp_all
      next
        case False
        then have "0 < length xs" by simp
        then show ?thesis using True by (intro drain_order_less) simp
      qed
      moreover have "st_devs ?s' d = Some ?dev" "is_dead (dev_isoc k ?dev)" "draining (st_io ?s') = Some (d, k)"
        using less.prems(2) lc by simp_all
      ultimately obtain n io' where n: "drain E d k ?s' = Some (set_dev d (set_isoc k ((dev_isoc k ?dev)
          \<lparr>is_dead_xfers := n\<rparr>) ?dev) (?s'\<lparr>st_io := io'\<rparr>))" "is_num_xfers (dev_isoc k ?dev) \<le> n"
        using less.hyps by blast
      have "drain E d k s = Some (set_dev d (set_isoc k (?strm\<lparr>is_dead_xfers := n\<rparr>) dev) (s\<lparr>st_io := io'\<rparr>))"
        using less.prems(1) True h n(1) by (subst drain.simps) (simp add: set_dev_def emit_def)
      with n(2) show ?thesis by auto
    qed
  qed
qed

lemma cancel_fold_io:
  assumes "st_devs s d = Some dev" and "\<forall>i < n. lookup (is_xfers (dev_isoc k dev)) i = Some True"
  shows "fold_opt (cancel_xfer d k) [0..<n] s = Some (s\<lparr>st_io := map (IO_cancel d k) (rev [0..<n]) @ st_io s\<rparr>)"
  using assms(2)
proof (induction n)
  case (Suc n)
  then have "fold_opt (cancel_xfer d k) [0..<n] s = Some (s\<lparr>st_io := map (IO_cancel d k) (rev [0..<n]) @ st_io s\<rparr>)"
    by simp
  moreover have "cancel_xfer d k n (s\<lparr>st_io := io'\<rparr>) = Some (s\<lparr>st_io := IO_cancel d k n # io'\<rparr>)" for io'
    using Suc.prems assms(1) by (simp add: cancel_xfer_def emit_def)
  ultimately show ?case by (simp add: fold_opt_append fold_opt_single)
qed simp

lemma fold_emit_io: "\<exists>io'. fold (\<lambda>i. emit (f i)) xs s = s\<lparr>st_io := io'\<rparr>"
proof (induction xs arbitrary: s)
  case (Cons x xs)
  from Cons.IH [of "emit (f x) s"] show ?case by (auto simp: emit_def)
next
  case Nil
  show ?case by (rule exI [of _ "st_io s"]) simp
qed

text \<open>Stopping a stream counts its transfers, frees its buffer, and changes nothing else.\<close>

lemma fnusb_stop_iso_dies:
  assumes E: "delivers E" and dev: "st_devs s d = Some dev"
    and xfers: "\<forall>i < nat (is_num_xfers (dev_isoc k dev)). lookup (is_xfers (dev_isoc k dev)) i = Some True"
    and nonneg: "0 \<le> is_dead_xfers (dev_isoc k dev)"
    and buf: "mfree (is_buffer (dev_isoc k dev)) (st_heap s) = Some h"
  shows "\<exists>n io'. fnusb_stop_iso E d k s =
      Some (0, set_dev d (set_isoc k ((dev_isoc k dev)\<lparr>is_dead := True, is_dead_xfers := n\<rparr>) dev)
        (s\<lparr>st_io := io', st_heap := h\<rparr>)) \<and>
    is_num_xfers (dev_isoc k dev) \<le> n"
proof -
  let ?n = "nat (is_num_xfers (dev_isoc k dev))"
  let ?strm = "(dev_isoc k dev)\<lparr>is_dead := True\<rparr>"
  let ?dev = "set_isoc k ?strm dev"
  let ?s1 = "set_dev d ?dev s"
  let ?s2 = "?s1\<lparr>st_io := map (IO_cancel d k) (rev [0..<?n]) @ st_io ?s1\<rparr>"
  have u: "upd_isoc d k (\<lambda>strm. strm\<lparr>is_dead := True\<rparr>) s = Some ?s1"
    using dev by (simp add: upd_isoc_def)
  have c: "fold_opt (cancel_xfer d k) [0..<?n] ?s1 = Some ?s2"
    by (rule cancel_fold_io [of _ _ ?dev]) (use xfers in simp_all)
  have lc: "draining (st_io ?s2) = Some (d, k)" if "is_dead_xfers (dev_isoc k ?dev) < is_num_xfers (dev_isoc k ?dev)"
  proof -
    from that nonneg have "0 < ?n" by simp
    then obtain m where m: "?n = Suc m" using gr0_conv_Suc by blast
    show ?thesis by (simp add: m)
  qed
  have "st_devs ?s2 d = Some ?dev" "is_dead (dev_isoc k ?dev)" by simp_all
  from drain_returns [OF E this lc] obtain n io' where
    dr: "drain E d k ?s2 = Some (set_dev d (set_isoc k ((dev_isoc k ?dev)\<lparr>is_dead_xfers := n\<rparr>) ?dev) (?s2\<lparr>st_io := io'\<rparr>))"
    and n: "is_num_xfers (dev_isoc k ?dev) \<le> n" by blast
  let ?s3 = "set_dev d (set_isoc k ((dev_isoc k ?dev)\<lparr>is_dead_xfers := n\<rparr>) ?dev) (?s2\<lparr>st_io := io'\<rparr>)"
  obtain io'' where f: "fold (\<lambda>i. emit (IO_free_transfer d k i)) [0..<?n] ?s3 = ?s3\<lparr>st_io := io''\<rparr>"
    using fold_emit_io by blast
  have "fnusb_stop_iso E d k s = Some (0, set_dev d (set_isoc k ((dev_isoc k dev)\<lparr>is_dead := True, is_dead_xfers := n\<rparr>) dev)
        (s\<lparr>st_io := io'', st_heap := h\<rparr>))"
    using u c dr f buf by (simp add: fnusb_stop_iso_def Let_def set_dev_def)
  with n show ?thesis by auto
qed

section \<open>Examples\<close>

text \<open>A device whose depth stream has one transfer, and a libusb that reports it at every turn.\<close>

definition iso_state :: "bool \<Rightarrow> st" where
  "iso_state allocated = set_dev 0 (zero_device\<lparr>dv_depth_isoc := zero_isoc_stream\<lparr>is_xfers := [allocated],
     is_num_xfers := 1, is_pkts := 1, is_len := 1748\<rparr>\<rparr>) example_state"

definition iso_xfer :: completion where
  "iso_xfer = \<lparr>cp_dev = 0, cp_strm = Iso_depth, cp_xfer = 0, cp_status = Xfer_no_device, cp_packets = []\<rparr>"

definition iso_env :: env where
  "iso_env = quiet_env\<lparr>e_events := (\<lambda>h. (0, case draining h of None \<Rightarrow> []
     | Some (d, k) \<Rightarrow> [iso_xfer\<lparr>cp_dev := d, cp_strm := k\<rparr>]))\<rparr>"

lemma wfp_never: "(\<And>x y. \<not> Q x y) \<Longrightarrow> wfp Q"
  by (simp add: wfp_def)

lemma iso_env_delivers: "delivers iso_env"
  unfolding delivers_def
  by (auto intro!: wfp_never simp: silent_turn_def iso_env_def iso_xfer_def)

lemma iso_state_simps [simp]:
  "st_devs (iso_state b) 0 = Some (zero_device\<lparr>dv_depth_isoc := zero_isoc_stream\<lparr>is_xfers := [b],
     is_num_xfers := 1, is_pkts := 1, is_len := 1748\<rparr>\<rparr>)"
  by (simp add: iso_state_def)

lemma iso_state_stops: "\<exists>s'. fnusb_stop_iso iso_env 0 Iso_depth (iso_state True) = Some (0, s')"
  using fnusb_stop_iso_dies [OF iso_env_delivers iso_state_simps, of Iso_depth True]
  by (auto simp: lookup_def mfree_def zero_isoc_stream_def)

lemma fnusb_stop_iso_drained_witness:
  "\<exists>s' dev'. fnusb_stop_iso iso_env 0 Iso_depth (iso_state True) = Some (0, s') \<and> st_devs s' 0 = Some dev' \<and>
     is_dead (dev_isoc Iso_depth dev') \<and> is_num_xfers (dev_isoc Iso_depth dev') \<le> is_dead_xfers (dev_isoc Iso_depth dev')"
proof -
  obtain s' where s': "fnusb_stop_iso iso_env 0 Iso_depth (iso_state True) = Some (0, s')"
    using iso_state_stops by blast
  from fnusb_stop_iso_drained [OF s' iso_state_simps] s' show ?thesis by blast
qed

lemma iso_callback_refines_witness:
  "\<exists>s' dev'. iso_callback iso_env iso_xfer (iso_state True) = Some s' \<and> st_devs s' 0 = Some dev' \<and>
     pool_step (pool_of (dev_isoc Iso_depth (the (st_devs (iso_state True) 0)))) Retired (pool_of (dev_isoc Iso_depth dev')) \<and>
     submissions (st_io s') = submissions (st_io (iso_state True))"
proof -
  have "\<exists>s'. iso_callback iso_env iso_xfer (iso_state True) = Some s'"
    by (simp add: iso_callback_def iso_xfer_def upd_isoc_def mark_dead_def Let_def zero_isoc_stream_def)
  then obtain s' where s': "iso_callback iso_env iso_xfer (iso_state True) = Some s'" by blast
  from iso_callback_refines [OF s', of "the (st_devs (iso_state True) 0)"] s' show ?thesis
    by (auto simp: iso_xfer_def zero_isoc_stream_def)
qed

section \<open>Starting\<close>

text \<open>What one turn of the loop and the whole function do to the stream.\<close>

definition started :: "env \<Rightarrow> ptr \<Rightarrow> fnusb_iso_cb \<Rightarrow> int \<Rightarrow> int \<Rightarrow> int \<Rightarrow> nat \<Rightarrow> fnusb_isoc_stream \<Rightarrow> bool" where
  "started E buf cb xfers pkts len i strm \<longleftrightarrow>
     is_buffer strm = buf \<and> is_cb strm = Some cb \<and> is_num_xfers strm = xfers \<and> is_pkts strm = pkts \<and>
     is_len strm = len \<and> \<not> is_dead strm \<and> length (is_xfers strm) = i \<and> 0 \<le> is_dead_xfers strm \<and>
     is_dead_xfers strm \<le> int i \<and> ((\<forall>h. e_alloc E h) \<longrightarrow> (\<forall>a \<in> set (is_xfers strm). a)) \<and>
     ((\<forall>h. e_alloc E h) \<and> (\<forall>h. 0 \<le> e_int E h) \<longrightarrow> is_dead_xfers strm = 0)"

text \<open>A stream that can be stopped: every transfer was allocated.\<close>

definition iso_ready :: "fnusb_isoc_stream \<Rightarrow> bool" where
  "iso_ready strm \<longleftrightarrow>
     (\<forall>i < nat (is_num_xfers strm). lookup (is_xfers strm) i = Some True) \<and> 0 \<le> is_dead_xfers strm"

lemma started_ready: "started E buf cb n pkts len (nat n) strm \<Longrightarrow> (\<And>h. e_alloc E h) \<Longrightarrow> iso_ready strm"
  by (auto simp: started_def iso_ready_def lookup_def all_set_conv_all_nth)

lemma start_xfer_ok:
  assumes "st_devs s d = Some dev" and "started E buf cb xfers pkts len i (dev_isoc k dev)"
  shows "\<exists>strm' io'. start_xfer E d k pkts i s = Some (set_dev d (set_isoc k strm' dev) (s\<lparr>st_io := io'\<rparr>)) \<and>
    started E buf cb xfers pkts len (Suc i) strm'"
proof -
  let ?io1 = "IO_alloc_transfer (nat pkts) # st_io s"
  let ?io2 = "IO_submit d k i # ?io1"
  let ?a = "(dev_isoc k dev)\<lparr>is_xfers := is_xfers (dev_isoc k dev) @ [e_alloc E ?io1]\<rparr>"
  have st: "started E buf cb xfers pkts len (Suc i) ?a"
    using assms(2) by (auto simp: started_def)
  have dead: "started E buf cb xfers pkts len (Suc i) (add_dead ?a)" if "\<not> e_alloc E ?io1 \<or> e_int E ?io2 < 0"
  proof -
    have no: "\<not> ((\<forall>h. e_alloc E h) \<and> (\<forall>h. 0 \<le> e_int E h))" using that not_le by blast
    have "is_dead_xfers (dev_isoc k dev) \<le> int i" using assms(2) by (simp add: started_def)
    with st no show ?thesis unfolding started_def add_dead_def by auto
  qed
  note defs = start_xfer_def upd_isoc_def io_int_def emit_def set_dev_def Let_def
  consider "\<not> e_alloc E ?io1" | "e_alloc E ?io1" "e_int E ?io2 < 0" | "e_alloc E ?io1" "\<not> e_int E ?io2 < 0"
    by blast
  then show ?thesis
  proof cases
    case 1
    with assms(1) have "start_xfer E d k pkts i s = Some (set_dev d (set_isoc k (add_dead ?a) dev) (s\<lparr>st_io := ?io1\<rparr>))"
      by (simp add: defs)
    with dead 1 show ?thesis by blast
  next
    case 2
    with assms(1) have "start_xfer E d k pkts i s = Some (set_dev d (set_isoc k (add_dead ?a) dev) (s\<lparr>st_io := ?io2\<rparr>))"
      by (simp add: defs)
    with dead 2 show ?thesis by blast
  next
    case 3
    with assms(1) have "start_xfer E d k pkts i s = Some (set_dev d (set_isoc k ?a dev) (s\<lparr>st_io := ?io2\<rparr>))"
      by (simp add: defs)
    with st show ?thesis by blast
  qed
qed

lemma fnusb_start_iso_ok:
  assumes "st_devs s d = Some dev" and "0 \<le> xfers" and m: "malloc (nat (xfers * pkts * len)) (st_heap s) = (buf, h)"
  shows "\<exists>strm' io'. fnusb_start_iso E d k cb ep xfers pkts len s =
      Some (0, set_dev d (set_isoc k strm' dev) (s\<lparr>st_io := io', st_heap := h\<rparr>)) \<and>
    started E buf cb xfers pkts len (nat xfers) strm'"
proof -
  let ?strm = "\<lparr>is_xfers = [], is_buffer = buf, is_cb = Some cb, is_num_xfers = xfers,
            is_pkts = pkts, is_len = len, is_dead = False, is_dead_xfers = 0\<rparr>"
  let ?mk = "\<lambda>strm io. set_dev d (set_isoc k strm dev) (s\<lparr>st_io := io, st_heap := h\<rparr>)"
  let ?I = "\<lambda>i (x :: st). \<exists>strm io. x = ?mk strm io \<and> started E buf cb xfers pkts len i strm"
  have "\<exists>x. fold_opt (start_xfer E d k pkts) [0..<nat xfers] (?mk ?strm (st_io s)) = Some x \<and> ?I (nat xfers) x"
  proof (rule fold_opt_upt [where I = ?I])
    have "started E buf cb xfers pkts len 0 ?strm" by (simp add: started_def)
    then show "?I 0 (?mk ?strm (st_io s))" by blast
  next
    fix i and x :: st assume "?I i x"
    then obtain strm io where x: "x = ?mk strm io" and st: "started E buf cb xfers pkts len i strm" by blast
    have d: "st_devs x d = Some (set_isoc k strm dev)" by (simp add: x)
    from start_xfer_ok [OF d, of E buf cb xfers pkts len i k] st obtain strm' io' where
      "start_xfer E d k pkts i x = Some (set_dev d (set_isoc k strm' (set_isoc k strm dev)) (x\<lparr>st_io := io'\<rparr>))"
      "started E buf cb xfers pkts len (Suc i) strm'" by auto
    moreover have "set_dev d (set_isoc k strm' (set_isoc k strm dev)) (x\<lparr>st_io := io'\<rparr>) = ?mk strm' io'"
      by (simp add: x set_dev_def)
    ultimately show "\<exists>x'. start_xfer E d k pkts i x = Some x' \<and> ?I (Suc i) x'" by metis
  qed simp
  then obtain strm io where "fold_opt (start_xfer E d k pkts) [0..<nat xfers] (?mk ?strm (st_io s)) = Some (?mk strm io)"
    "started E buf cb xfers pkts len (nat xfers) strm" by blast
  moreover have "s\<lparr>st_io := st_io s, st_heap := h\<rparr> = s\<lparr>st_heap := h\<rparr>" by simp
  ultimately have "fnusb_start_iso E d k cb ep xfers pkts len s = Some (0, ?mk strm io)"
    using assms(1) m by (simp add: fnusb_start_iso_def upd_isoc_def)
  with \<open>started E buf cb xfers pkts len (nat xfers) strm\<close> show ?thesis by blast
qed

text \<open>Every transfer is handed to libusb once, in the order of their numbers.\<close>

lemma start_xfer_submits:
  assumes "start_xfer E d k pkts i s = Some s'" and "\<forall>h. e_alloc E h"
  shows "submissions (st_io s') = (d, k, i) # submissions (st_io s)"
  using assms by (auto simp: start_xfer_def upd_isoc_def io_int_def Let_def split: Option.bind_splits if_splits)

lemma fnusb_start_iso_submits:
  assumes "fnusb_start_iso E d k cb ep xfers pkts len s = Some (r, s')" and al: "\<forall>h. e_alloc E h"
  shows "submissions (st_io s') = map (\<lambda>i. (d, k, i)) (rev [0..<nat xfers]) @ submissions (st_io s)"
proof -
  have "submissions (st_io x') = map (\<lambda>i. (d, k, i)) (rev [0..<n]) @ submissions (st_io x)"
    if "fold_opt (start_xfer E d k pkts) [0..<n] x = Some x'" for n x x'
    using that
    by (induction n arbitrary: x')
      (auto simp: fold_opt_append fold_opt_single start_xfer_submits [OF _ al] split: Option.bind_splits)
  with assms(1) show ?thesis
    by (auto simp: fnusb_start_iso_def upd_isoc_def split: Option.bind_splits prod.splits)
qed

text \<open>
  Starting a stream cannot fail and keeps the books: for any answers of libusb, fnusb_start_iso
  returns 0, one entry per transfer is stored, and the number of dead transfers lies between 0 and
  the number of transfers (it is that number when nothing could be submitted, and still the result
  is 0).
\<close>

theorem fnusb_start_iso_accounts:
  assumes "st_devs s d = Some dev" and "0 \<le> xfers"
  shows "\<exists>s' dev'. fnusb_start_iso E d k cb ep xfers pkts len s = Some (0, s') \<and> st_devs s' d = Some dev' \<and>
    is_num_xfers (dev_isoc k dev') = xfers \<and> int (length (is_xfers (dev_isoc k dev'))) = xfers \<and>
    0 \<le> is_dead_xfers (dev_isoc k dev') \<and> is_dead_xfers (dev_isoc k dev') \<le> xfers"
proof -
  obtain buf h where "malloc (nat (xfers * pkts * len)) (st_heap s) = (buf, h)" by fastforce
  from fnusb_start_iso_ok [OF assms this, of E k cb ep] assms(2) show ?thesis
    by (auto simp: started_def)
qed

lemma fnusb_start_iso_accounts_witness:
  "\<exists>s' dev'. fnusb_start_iso quiet_env 0 Iso_depth Cb_depth_process 0x81 2 16 1760 (iso_state True) = Some (0, s') \<and>
    st_devs s' 0 = Some dev' \<and> is_num_xfers (dev_isoc Iso_depth dev') = 2 \<and>
    int (length (is_xfers (dev_isoc Iso_depth dev'))) = 2 \<and>
    0 \<le> is_dead_xfers (dev_isoc Iso_depth dev') \<and> is_dead_xfers (dev_isoc Iso_depth dev') \<le> 2"
  by (rule fnusb_start_iso_accounts [of "iso_state True" 0 "the (st_devs (iso_state True) 0)"]) simp_all

text \<open>
  A transfer that could not be allocated makes the stream impossible to stop: fnusb_start_iso
  goes on with a NULL entry, and fnusb_stop_iso passes it to libusb_cancel_transfer.
\<close>

theorem fnusb_stop_iso_null_transfer:
  assumes "st_devs s d = Some dev" and "i < nat (is_num_xfers (dev_isoc k dev))"
    and "is_xfers (dev_isoc k dev) ! i = False"
  shows "fnusb_stop_iso E d k s = None"
proof (rule ccontr)
  assume "fnusb_stop_iso E d k s \<noteq> None"
  then obtain r s' where "fnusb_stop_iso E d k s = Some (r, s')" by auto
  from fnusb_stop_iso_SomeD [OF this assms(1)] assms(2,3) show False
    by (auto simp: lookup_def split: if_splits)
qed

lemma fnusb_stop_iso_null_transfer_witness:
  "fnusb_stop_iso iso_env 0 Iso_depth (iso_state False) = None"
  by (rule fnusb_stop_iso_null_transfer [of "iso_state False" 0 "the (st_devs (iso_state False) 0)" 0]) simp_all

end
