(* ===== verification/Heap_Own.thy ===== *)
theory Heap_Own
  imports Prelude "HOL-Library.Multiset"
begin

text \<open>
  Ownership of heap blocks: a list of pointers that are each NULL or the address of an allocated
  block of their own. Allocating extends such a list, freeing shortens it, writing keeps it. The
  components use it to state that what they take with malloc they give back with free, once.
\<close>

section \<open>Owned pointers\<close>

definition owned :: "ptr list \<Rightarrow> heap \<Rightarrow> bool" where
  "owned ps h \<longleftrightarrow> distinct (filter (\<lambda>p. p \<noteq> None) ps) \<and> (\<forall>a. Some a \<in> set ps \<longrightarrow> hp_blocks h a \<noteq> None)"

text \<open>The memory without the blocks of the list.\<close>

definition without :: "ptr list \<Rightarrow> (nat \<rightharpoonup> u8 list) \<Rightarrow> (nat \<rightharpoonup> u8 list)" where
  "without ps m = (\<lambda>a. if Some a \<in> set ps then None else m a)"

lemma owned_Nil [simp]: "owned [] h"
  by (simp add: owned_def)

lemma owned_None [simp]: "owned (None # ps) h = owned ps h"
  by (simp add: owned_def)

lemma owned_Some: "owned (Some a # ps) h \<longleftrightarrow> hp_blocks h a \<noteq> None \<and> Some a \<notin> set ps \<and> owned ps h"
  by (auto simp: owned_def)

lemma owned_mset:
  assumes "mset ps = mset qs" and "owned ps h"
  shows "owned qs h"
proof -
  have "mset (filter (\<lambda>p. p \<noteq> None) ps) = mset (filter (\<lambda>p. p \<noteq> None) qs)" using assms(1) by simp
  then have "distinct (filter (\<lambda>p. p \<noteq> None) ps) = distinct (filter (\<lambda>p. p \<noteq> None) qs)"
    by (rule mset_eq_imp_distinct_iff)
  moreover have "set ps = set qs" using assms(1) by (rule mset_eq_setD)
  ultimately show ?thesis using assms(2) by (simp add: owned_def)
qed

lemma owned_weaken: "owned ps h \<Longrightarrow> (\<And>a. Some a \<in> set ps \<Longrightarrow> hp_blocks h' a \<noteq> None) \<Longrightarrow> owned ps h'"
  by (simp add: owned_def)

lemma without_Nil [simp]: "without [] m = m"
  by (simp add: without_def)

lemma without_without: "without ps (without qs m) = without (qs @ ps) m"
  by (auto simp: without_def fun_eq_iff)

lemma without_cong: "set ps = set qs \<Longrightarrow> without ps m = without qs m"
  by (simp add: without_def)

lemma owned_mfree:
  assumes "owned (p # ps) h"
  shows "\<exists>h'. mfree p h = Some h' \<and> owned ps h' \<and> hp_blocks h' = without [p] (hp_blocks h)"
proof (cases p)
  case None
  with assms show ?thesis by (auto simp: mfree_def without_def)
next
  case (Some a)
  with assms obtain b where b: "hp_blocks h a = Some b" and ps: "Some a \<notin> set ps" "owned ps h"
    by (auto simp: owned_Some)
  let ?h = "h\<lparr>hp_blocks := (hp_blocks h)(a := None), hp_avail := hp_avail h + length b\<rparr>"
  have "owned ps ?h" using ps by (auto simp: owned_def)
  with b Some show ?thesis by (auto simp: mfree_def without_def fun_eq_iff)
qed

text \<open>Freeing the pointers of a list one after the other.\<close>

lemma owned_mfree_all:
  assumes "owned ps h"
  shows "\<exists>h'. fold_opt mfree ps h = Some h' \<and> hp_blocks h' = without ps (hp_blocks h)"
  using assms
proof (induction ps arbitrary: h)
  case (Cons p ps)
  from owned_mfree [OF Cons.prems] obtain h1 where h1: "mfree p h = Some h1" "owned ps h1"
    "hp_blocks h1 = without [p] (hp_blocks h)" by blast
  from Cons.IH [OF h1(2)] h1 show ?case by (auto simp: without_without)
qed simp

lemma malloc_cases:
  assumes "heap_wf h" and "malloc n h = (p, h')"
  obtains (null) "p = None" "h' = h" "hp_avail h < n"
  | (fresh) a where "p = Some a" "hp_blocks h a = None" "hp_blocks h' = (hp_blocks h)(a \<mapsto> replicate n (hp_fill h))"
      "heap_wf h'" "hp_avail h' = hp_avail h - n" "n \<le> hp_avail h" "hp_fill h' = hp_fill h"
proof (cases "n \<le> hp_avail h")
  case True
  let ?h = "h\<lparr>hp_blocks := (hp_blocks h)(hp_next h \<mapsto> replicate n (hp_fill h)),
              hp_next := Suc (hp_next h), hp_avail := hp_avail h - n\<rparr>"
  have m: "p = Some (hp_next h)" "h' = ?h" using assms(2) True by (simp_all add: malloc_def)
  have "heap_wf ?h" using assms(1) by (auto simp: heap_wf_def less_Suc_eq)
  moreover have "hp_blocks h (hp_next h) = None" using assms(1) unfolding heap_wf_def by (meson less_irrefl)
  ultimately show thesis using m True by (intro fresh) simp_all
next
  case False
  with assms(2) show thesis by (intro null) (auto simp: malloc_def)
qed

lemma owned_malloc:
  assumes "owned ps h" and wf: "heap_wf h" and m: "malloc n h = (p, h')"
  shows "owned (p # ps) h'" and "heap_wf h'"
    and "\<And>a b. hp_blocks h a = Some b \<Longrightarrow> hp_blocks h' a = Some b"
proof -
  have "owned (p # ps) h' \<and> heap_wf h' \<and> (\<forall>a b. hp_blocks h a = Some b \<longrightarrow> hp_blocks h' a = Some b)"
    using wf m
  proof (cases rule: malloc_cases)
    case null
    with assms show ?thesis by simp
  next
    case (fresh a)
    have "Some a \<notin> set ps" using assms(1) fresh(2) by (auto simp: owned_def)
    moreover have "owned ps h'" by (rule owned_weaken [OF assms(1)]) (use assms(1) fresh(3) in \<open>auto simp: owned_def\<close>)
    ultimately show ?thesis using fresh by (auto simp: owned_Some)
  qed
  then show "owned (p # ps) h'" and "heap_wf h'"
    and "\<And>a b. hp_blocks h a = Some b \<Longrightarrow> hp_blocks h' a = Some b" by blast+
qed

text \<open>Writing changes no block's existence or length.\<close>

lemma owned_mem_write:
  assumes "mem_write p off bs h = Some h'" and "owned ps h"
  shows "owned ps h'"
  using assms(1) by (elim mem_write_SomeD) (use assms(2) in \<open>auto simp: owned_def\<close>)

text \<open>malloc followed by memset with 0: a NULL result is dereferenced.\<close>

definition malloc_zeroed :: "nat \<Rightarrow> heap \<Rightarrow> (ptr \<times> heap) option" where
  "malloc_zeroed n h = (let (p, h) = malloc n h in do { h \<leftarrow> mem_write p 0 (replicate n 0) h; Some (p, h) })"

lemma malloc_zeroed_ok:
  assumes wf: "heap_wf h" and n: "n \<le> hp_avail h"
  shows "\<exists>a h'. malloc_zeroed n h = Some (Some a, h') \<and> hp_blocks h a = None \<and>
    hp_blocks h' = (hp_blocks h)(a \<mapsto> replicate n 0) \<and> heap_wf h' \<and> hp_avail h' = hp_avail h - n"
proof -
  obtain p h1 where m: "malloc n h = (p, h1)" by (cases "malloc n h")
  show ?thesis
    using wf m
  proof (cases rule: malloc_cases)
    case (fresh a)
    have "blit 0 (replicate n 0) (replicate n (hp_fill h)) = replicate n 0" by (simp add: blit_def)
    with fresh m show ?thesis
      by (auto simp: malloc_zeroed_def mem_write_def heap_wf_def)
  qed (use n in simp)
qed

section \<open>Growing memory\<close>

text \<open>
  \<open>grows h0 ps h\<close>: the memory is the one of \<open>h0\<close> and the blocks of the pointers \<open>ps\<close>, which were
  allocated since.
\<close>

definition grows :: "heap \<Rightarrow> ptr list \<Rightarrow> heap \<Rightarrow> bool" where
  "grows h0 ps h \<longleftrightarrow> heap_wf h \<and> owned ps h \<and> without ps (hp_blocks h) = hp_blocks h0"

lemma grows_refl: "heap_wf h \<Longrightarrow> grows h [] h"
  by (simp add: grows_def)

lemma grows_mset: "mset ps = mset qs \<Longrightarrow> grows h0 ps h \<Longrightarrow> grows h0 qs h"
  by (metis grows_def mset_eq_setD owned_mset without_cong)

lemma without_fresh:
  assumes "m a = None"
  shows "without (Some a # ps) (m(a \<mapsto> b)) = without ps m"
  using assms by (auto simp: without_def fun_eq_iff)

lemma grows_malloc:
  assumes "grows h0 ps h" and "malloc n h = (p, h')"
  shows "grows h0 (p # ps) h'"
proof -
  have wf: "heap_wf h" and own: "owned ps h" using assms(1) by (simp_all add: grows_def)
  have "without (p # ps) (hp_blocks h') = hp_blocks h0"
    using wf assms(2)
  proof (cases rule: malloc_cases)
    case null
    with assms(1) show ?thesis by (simp add: grows_def without_def)
  next
    case (fresh a)
    with assms(1) show ?thesis by (simp add: grows_def without_fresh)
  qed
  with owned_malloc [OF own wf assms(2)] show ?thesis by (simp add: grows_def)
qed

lemma grows_malloc_zeroed:
  assumes "grows h0 ps h" and "n \<le> hp_avail h"
  shows "\<exists>a h'. malloc_zeroed n h = Some (Some a, h') \<and> grows h0 (Some a # ps) h' \<and> hp_blocks h a = None \<and>
    hp_blocks h' = (hp_blocks h)(a \<mapsto> replicate n 0) \<and> hp_avail h' = hp_avail h - n"
proof -
  have own: "owned ps h" and wf: "heap_wf h" using assms(1) by (simp_all add: grows_def)
  from malloc_zeroed_ok [OF wf assms(2)] obtain a h' where h': "malloc_zeroed n h = Some (Some a, h')"
    "hp_blocks h a = None" "hp_blocks h' = (hp_blocks h)(a \<mapsto> replicate n 0)" "heap_wf h'"
    "hp_avail h' = hp_avail h - n" by blast
  have "Some a \<notin> set ps" using own h'(2) by (auto simp: owned_def)
  moreover have "owned ps h'" by (rule owned_weaken [OF own]) (use own h'(3) in \<open>auto simp: owned_def\<close>)
  ultimately have "grows h0 (Some a # ps) h'"
    using assms(1) h' by (simp add: grows_def owned_Some without_fresh)
  with h' show ?thesis by blast
qed

lemma grows_owned: "grows h0 ps h \<Longrightarrow> owned ps h"
  by (simp add: grows_def)

end
