(* ===== verification/Audio.thy ===== *)
theory Audio
  imports AudioCb Iso Heap_Own
begin

text \<open>
  Starting and stopping the audio streams (src/audio.c). A start takes eight buffers and the two
  packet buffers of the isochronous streams; a stop gives back exactly these.
\<close>

section \<open>Operations\<close>

text \<open>The loop that allocates the buffers of the microphones.\<close>

primrec alloc_mics :: "nat \<Rightarrow> heap \<Rightarrow> (ptr list \<times> heap) option" where
  "alloc_mics 0 h = Some ([], h)"
| "alloc_mics (Suc n) h = do {
     (p, h) \<leftarrow> malloc_zeroed (256 * 4) h;
     (ps, h) \<leftarrow> alloc_mics n h;
     Some (p # ps, h)
   }"

text \<open>A sample of the outgoing ring has six 16-bit channels.\<close>

definition audio_alloc :: "audio_stream \<Rightarrow> heap \<Rightarrow> (audio_stream \<times> heap) option" where
  "audio_alloc au h = do {
     (ring, h) \<leftarrow> malloc_zeroed (256 * 12) h;
     (cancelled, h) \<leftarrow> malloc_zeroed (256 * 2) h;
     (mics, h) \<leftarrow> alloc_mics 4 h;
     let (unknown, h) = malloc 48 h;
     Some (au\<lparr>au_audio_out_ring := ring, au_cancelled_buffer := cancelled, au_mic_buffer := mics,
             au_in_unknown := unknown\<rparr>, h)
   }"

definition audio_reset :: "audio_stream \<Rightarrow> audio_stream" where
  "audio_reset au =
     au\<lparr>au_ring_reader_idx := 0, au_ring_writer_idx := 0, au_out_window := 0, au_out_seq := 0,
        au_out_counter_within_window := 0, au_out_weird_timestamp := 0, au_out_window_parity := 0,
        au_in_window := 0, au_in_counter := 0, au_last_seen_window := replicate 10 0\<rparr>"

definition freenect_start_audio :: "env \<Rightarrow> nat \<Rightarrow> st \<Rightarrow> (int \<times> st) option" where
  "freenect_start_audio E d s = do {
     dev \<leftarrow> st_devs s d;
     if au_running (dv_audio dev) then Some (-1, s)
     else do {
       (au, h) \<leftarrow> audio_alloc (dv_audio dev) (st_heap s);
       let s = set_dev d (dev\<lparr>dv_audio := audio_reset au\<rparr>) (s\<lparr>st_heap := h\<rparr>);
       (res, s) \<leftarrow> fnusb_start_iso E d Iso_audio_in Cb_iso_in 0x82 NUM_XFERS PKTS_PER_XFER 524 s;
       if res < 0 then Some (res, s)
       else do {
         (res, s) \<leftarrow> fnusb_start_iso E d Iso_audio_out Cb_iso_out 0x02 NUM_XFERS PKTS_PER_XFER 76 s;
         if res < 0 then Some (res, s)
         else do {
           dev \<leftarrow> st_devs s d;
           Some (0, set_dev d (dev\<lparr>dv_audio := (dv_audio dev)\<lparr>au_running := True\<rparr>\<rparr>) s)
         }
       }
     }
   }"

text \<open>The frees at the end: every one is guarded by a test for NULL, which free makes as well.\<close>

definition audio_free :: "audio_stream \<Rightarrow> heap \<Rightarrow> (audio_stream \<times> heap) option" where
  "audio_free au h = do {
     h \<leftarrow> mfree (au_audio_out_ring au) h;
     h \<leftarrow> mfree (au_cancelled_buffer au) h;
     h \<leftarrow> mfree (au_in_unknown au) h;
     h \<leftarrow> fold_opt mfree (take 4 (au_mic_buffer au)) h;
     Some (au\<lparr>au_mic_buffer := replicate 4 None, au_audio_out_ring := None, au_cancelled_buffer := None,
             au_in_unknown := None\<rparr>, h)
   }"

definition freenect_stop_audio :: "env \<Rightarrow> nat \<Rightarrow> st \<Rightarrow> (int \<times> st) option" where
  "freenect_stop_audio E d s = do {
     dev \<leftarrow> st_devs s d;
     if \<not> au_running (dv_audio dev) then Some (-1, s)
     else do {
       let s = set_dev d (dev\<lparr>dv_audio := (dv_audio dev)\<lparr>au_running := False\<rparr>\<rparr>) s;
       (res, s) \<leftarrow> fnusb_stop_iso E d Iso_audio_in s;
       if res < 0 then Some (res, s)
       else do {
         (res, s) \<leftarrow> fnusb_stop_iso E d Iso_audio_out s;
         if res < 0 then Some (res, s)
         else do {
           dev \<leftarrow> st_devs s d;
           (au, h) \<leftarrow> audio_free (dv_audio dev) (st_heap s);
           Some (0, set_dev d (dev\<lparr>dv_audio := au\<rparr>) (s\<lparr>st_heap := h\<rparr>))
         }
       }
     }
   }"

section \<open>The invariant of running audio\<close>

definition audio_ptrs :: "freenect_device \<Rightarrow> ptr list" where
  "audio_ptrs dev =
     [is_buffer (dv_audio_in_isoc dev), is_buffer (dv_audio_out_isoc dev), au_audio_out_ring (dv_audio dev),
      au_cancelled_buffer (dv_audio dev), au_in_unknown (dv_audio dev)] @ au_mic_buffer (dv_audio dev)"

text \<open>
  Audio is running, the buffers have the sizes the callbacks rely on, no two of the pointers to
  free are the same block, and every transfer was allocated.
\<close>

definition audio_inv :: "freenect_device \<Rightarrow> heap \<Rightarrow> bool" where
  "audio_inv dev h \<longleftrightarrow>
     au_running (dv_audio dev) \<and> audio_bufs_ok (dv_audio dev) h \<and> owned (audio_ptrs dev) h \<and>
     iso_ready (dv_audio_in_isoc dev) \<and> iso_ready (dv_audio_out_isoc dev)"

section \<open>Starting\<close>

abbreviation block_len :: "ptr \<Rightarrow> heap \<Rightarrow> nat option" where
  "block_len p h \<equiv> map_option length (mem_block p h)"

lemma block_len_upd: "hp_blocks h' = (hp_blocks h)(a \<mapsto> b) \<Longrightarrow> hp_blocks h a = None \<Longrightarrow>
  block_len p h = Some n \<Longrightarrow> block_len p h' = Some n"
  by (auto simp: mem_block_def split: option.splits)

lemma alloc_mics_ok:
  assumes "grows h0 ps h" and "n * 1024 \<le> hp_avail h"
  shows "\<exists>mics h'. alloc_mics n h = Some (mics, h') \<and> grows h0 (mics @ ps) h' \<and> length mics = n \<and>
    (\<forall>p \<in> set mics. block_len p h' = Some 1024) \<and> hp_avail h' = hp_avail h - n * 1024 \<and>
    (\<forall>p m. block_len p h = Some m \<longrightarrow> block_len p h' = Some m)"
  using assms
proof (induction n arbitrary: h ps)
  case (Suc n)
  have "1024 \<le> hp_avail h" using Suc.prems(2) by simp
  with grows_malloc_zeroed [OF Suc.prems(1), of 1024] obtain a h1 where h1: "malloc_zeroed 1024 h = Some (Some a, h1)"
    "grows h0 (Some a # ps) h1" "hp_blocks h a = None" "hp_blocks h1 = (hp_blocks h)(a \<mapsto> replicate 1024 0)"
    "hp_avail h1 = hp_avail h - 1024" by blast
  have "n * 1024 \<le> hp_avail h1" using Suc.prems(2) h1(5) by simp
  from Suc.IH [OF h1(2) this] obtain mics h' where h': "alloc_mics n h1 = Some (mics, h')"
    "grows h0 (mics @ Some a # ps) h'" "length mics = n" "\<forall>p \<in> set mics. block_len p h' = Some 1024"
    "hp_avail h' = hp_avail h1 - n * 1024" "\<forall>p m. block_len p h1 = Some m \<longrightarrow> block_len p h' = Some m" by blast
  have "grows h0 ((Some a # mics) @ ps) h'" by (rule grows_mset [OF _ h'(2)]) simp
  moreover have "block_len (Some a) h1 = Some 1024" using h1(4) by simp
  then have "block_len (Some a) h' = Some 1024" using h'(6) by blast
  moreover have "block_len p h' = Some m" if "block_len p h = Some m" for p m
    using block_len_upd [OF h1(4,3) that] h'(6) by blast
  ultimately show ?case using h1(1,5) h'(1,3,4,5) by (simp add: algebra_simps)
qed simp

lemma audio_alloc_ok:
  assumes "heap_wf h" and "7728 \<le> hp_avail h"
  shows "\<exists>au' h'. audio_alloc au h = Some (au', h') \<and>
    grows h ([au_audio_out_ring au', au_cancelled_buffer au', au_in_unknown au'] @ au_mic_buffer au') h' \<and>
    audio_bufs_ok (audio_reset au') h' \<and> au_running au' = au_running au"
proof -
  from grows_malloc_zeroed [OF grows_refl [OF assms(1)], of 3072] assms(2) obtain a h1 where
    h1: "malloc_zeroed 3072 h = Some (Some a, h1)" "grows h [Some a] h1" "hp_avail h1 = hp_avail h - 3072" by auto
  have "512 \<le> hp_avail h1" using assms(2) h1(3) by simp
  from grows_malloc_zeroed [OF h1(2) this] obtain b h2 where
    z: "malloc_zeroed 512 h1 = Some (Some b, h2)" "grows h [Some b, Some a] h2"
    "hp_blocks h2 = (hp_blocks h1)(b \<mapsto> replicate 512 0)" "hp_avail h2 = hp_avail h1 - 512" by blast
  note h2 = z(1,2)
  have "block_len (Some b) h2 = Some 512" using z(3) by (simp add: mem_block_def)
  moreover have "4 * 1024 \<le> hp_avail h2" using assms(2) h1(3) z(4) by simp
  ultimately obtain mics h3 where
    h3: "alloc_mics 4 h2 = Some (mics, h3)" "grows h (mics @ [Some b, Some a]) h3" "length mics = 4"
    "\<forall>p \<in> set mics. block_len p h3 = Some 1024" "block_len (Some b) h3 = Some 512"
    using alloc_mics_ok [OF h2(2), of 4] by blast
  obtain u h4 where m: "malloc 48 h3 = (u, h4)" by (cases "malloc 48 h3")
  from grows_malloc [OF h3(2) m] have "grows h ([Some a, Some b, u] @ mics) h4"
    by (rule grows_mset [rotated]) simp
  moreover have keep: "block_len p h4 = Some n" if "block_len p h3 = Some n" for p n
    using owned_malloc(3) [OF _ _ m, of "[]"] h3(2) that
    by (auto simp: grows_def mem_block_def split: option.splits)
  have "block_len (Some b) h4 = Some 512" "\<forall>p \<in> set mics. block_len p h4 = Some 1024"
    using keep h3(4,5) by blast+
  then have "audio_bufs_ok (audio_reset (au\<lparr>au_audio_out_ring := Some a, au_cancelled_buffer := Some b,
      au_mic_buffer := mics, au_in_unknown := u\<rparr>)) h4"
    using h3(3) by (simp add: audio_bufs_ok_def audio_reset_def)
  ultimately show ?thesis using h1(1) h2(1) h3(1) m by (simp add: audio_alloc_def)
qed

lemma freenect_start_audio_inv_aux:
  assumes "st_devs s d = Some dev" and "\<not> au_running (dv_audio dev)" and "heap_wf (st_heap s)"
    and "7728 \<le> hp_avail (st_heap s)" and "\<forall>h. e_alloc E h"
  shows "\<exists>s' dev'. freenect_start_audio E d s = Some (0, s') \<and> st_devs s' d = Some dev' \<and>
    audio_inv dev' (st_heap s') \<and> out_state 0 (dv_audio dev') \<and> heap_wf (st_heap s') \<and>
    without (audio_ptrs dev') (hp_blocks (st_heap s')) = hp_blocks (st_heap s)"
proof -
  obtain au h1 where au: "audio_alloc (dv_audio dev) (st_heap s) = Some (au, h1)"
    and g1: "grows (st_heap s) ([au_audio_out_ring au, au_cancelled_buffer au, au_in_unknown au] @ au_mic_buffer au) h1"
    and ok1: "audio_bufs_ok (audio_reset au) h1"
    using audio_alloc_ok [OF assms(3,4)] by blast
  let ?dev1 = "dev\<lparr>dv_audio := audio_reset au\<rparr>" and ?s1 = "set_dev d (dev\<lparr>dv_audio := audio_reset au\<rparr>) (s\<lparr>st_heap := h1\<rparr>)"
  obtain b2 h2 where m2: "malloc (nat (16 * 16 * 524)) (st_heap ?s1) = (b2, h2)" by fastforce
  have "st_devs ?s1 d = Some ?dev1" by simp
  from fnusb_start_iso_ok [OF this _ m2, of E Iso_audio_in Cb_iso_in "0x82"] obtain strm2 io2 where
    i2: "fnusb_start_iso E d Iso_audio_in Cb_iso_in 0x82 16 16 524 ?s1 =
      Some (0, set_dev d (set_isoc Iso_audio_in strm2 ?dev1) (?s1\<lparr>st_io := io2, st_heap := h2\<rparr>))"
    and st2: "started E b2 Cb_iso_in 16 16 524 (nat 16) strm2" by auto
  let ?dev2 = "set_isoc Iso_audio_in strm2 ?dev1" and ?s2 = "set_dev d (set_isoc Iso_audio_in strm2 ?dev1) (?s1\<lparr>st_io := io2, st_heap := h2\<rparr>)"
  obtain b3 h3 where m3: "malloc (nat (16 * 16 * 76)) (st_heap ?s2) = (b3, h3)" by fastforce
  have "st_devs ?s2 d = Some ?dev2" by simp
  from fnusb_start_iso_ok [OF this _ m3, of E Iso_audio_out Cb_iso_out "0x02"] obtain strm3 io3 where
    i3: "fnusb_start_iso E d Iso_audio_out Cb_iso_out 0x02 16 16 76 ?s2 =
      Some (0, set_dev d (set_isoc Iso_audio_out strm3 ?dev2) (?s2\<lparr>st_io := io3, st_heap := h3\<rparr>))"
    and st3: "started E b3 Cb_iso_out 16 16 76 (nat 16) strm3" by auto
  let ?au = "(audio_reset au)\<lparr>au_running := True\<rparr>"
  let ?dev4 = "(set_isoc Iso_audio_out strm3 ?dev2)\<lparr>dv_audio := ?au\<rparr>"
  let ?s4 = "set_dev d ?dev4 (set_dev d (set_isoc Iso_audio_out strm3 ?dev2) (?s2\<lparr>st_io := io3, st_heap := h3\<rparr>))"
  have run: "freenect_start_audio E d s = Some (0, ?s4)"
    using assms(1,2) au i2 i3 by (simp add: freenect_start_audio_def Let_def)
  have d4: "st_devs ?s4 d = Some ?dev4" by simp
  have g2: "grows (st_heap s) (b2 # [au_audio_out_ring au, au_cancelled_buffer au, au_in_unknown au] @ au_mic_buffer au) h2"
    using grows_malloc [OF g1] m2 by simp
  from grows_malloc [OF this] m3
  have g3: "grows (st_heap s) (b3 # b2 # [au_audio_out_ring au, au_cancelled_buffer au, au_in_unknown au] @ au_mic_buffer au) h3"
    by simp
  have ptrs: "audio_ptrs ?dev4 = b2 # b3 # [au_audio_out_ring au, au_cancelled_buffer au, au_in_unknown au] @ au_mic_buffer au"
    using st2 st3 by (simp add: audio_ptrs_def started_def audio_reset_def)
  have g4: "grows (st_heap s) (audio_ptrs ?dev4) (st_heap ?s4)"
    unfolding ptrs by (rule grows_mset [rotated]) (use g3 in simp, simp)
  have bufs: "audio_bufs_ok ?au (st_heap ?s4)"
  proof -
    have "block_len p h3 = Some n" if "block_len p h1 = Some n" for p n
      using owned_malloc(3) [OF _ _ m2, of "[]"] owned_malloc(3) [OF _ _ m3, of "[]"] g1 g2 that
      by (fastforce simp: grows_def mem_block_def split: option.splits)
    with ok1 show ?thesis by (simp add: audio_bufs_ok_def)
  qed
  have "audio_inv ?dev4 (st_heap ?s4)"
    using bufs grows_owned [OF g4] started_ready [OF st2] started_ready [OF st3] assms(5)
    by (simp add: audio_inv_def)
  moreover have "out_state 0 (dv_audio ?dev4)"
    by (simp add: out_state_def audio_reset_def out_segment_def out_place_def odd_packets_def)
  ultimately show ?thesis using run d4 g4 unfolding grows_def by blast
qed

text \<open>
  C26. Starting audio establishes its invariant: with memory for the buffers and a libusb that
  allocates its transfers, freenect_start_audio returns 0, the callbacks find buffers of the sizes
  they index, the counters of the outgoing header are at their start, and the memory has grown by
  exactly the blocks the device points to.
\<close>

theorem freenect_start_audio_inv:
  assumes "st_devs s d = Some dev" and "\<not> au_running (dv_audio dev)" and "heap_wf (st_heap s)"
    and "7728 \<le> hp_avail (st_heap s)" and "\<forall>h. e_alloc E h"
  shows "\<exists>s' dev'. freenect_start_audio E d s = Some (0, s') \<and> st_devs s' d = Some dev' \<and>
    audio_inv dev' (st_heap s') \<and> out_state 0 (dv_audio dev') \<and> heap_wf (st_heap s') \<and>
    without (audio_ptrs dev') (hp_blocks (st_heap s')) = hp_blocks (st_heap s)"
  using assms by (rule freenect_start_audio_inv_aux)

section \<open>Stopping\<close>

lemma audio_free_ok:
  assumes "owned ([au_audio_out_ring au, au_cancelled_buffer au, au_in_unknown au] @ au_mic_buffer au) h"
    and "length (au_mic_buffer au) = 4"
  shows "\<exists>h'. audio_free au h = Some (au\<lparr>au_mic_buffer := replicate 4 None, au_audio_out_ring := None,
      au_cancelled_buffer := None, au_in_unknown := None\<rparr>, h') \<and>
    hp_blocks h' = without ([au_audio_out_ring au, au_cancelled_buffer au, au_in_unknown au] @ au_mic_buffer au) (hp_blocks h)"
  using owned_mfree_all [OF assms(1)] assms(2)
  by (auto simp: audio_free_def split: Option.bind_splits)

text \<open>
  Stopping audio ends and frees each block once: from any state that satisfies the invariant, and
  with a libusb that reports the cancelled transfers, freenect_stop_audio returns 0, the memory is the
  old one without exactly the blocks of the audio streams, and the device keeps no pointer to them.
\<close>

theorem freenect_stop_audio_frees:
  assumes "st_devs s d = Some dev" and "audio_inv dev (st_heap s)" and "delivers E"
  shows "\<exists>s' dev'. freenect_stop_audio E d s = Some (0, s') \<and> st_devs s' d = Some dev' \<and>
    hp_blocks (st_heap s') = without (audio_ptrs dev) (hp_blocks (st_heap s)) \<and>
    \<not> au_running (dv_audio dev') \<and> au_audio_out_ring (dv_audio dev') = None \<and>
    au_cancelled_buffer (dv_audio dev') = None \<and> au_in_unknown (dv_audio dev') = None \<and>
    au_mic_buffer (dv_audio dev') = replicate 4 None"
proof -
  let ?au = "dv_audio dev" and ?dev1 = "dev\<lparr>dv_audio := (dv_audio dev)\<lparr>au_running := False\<rparr>\<rparr>"
  let ?s1 = "set_dev d ?dev1 s"
  have inv: "au_running ?au" "length (au_mic_buffer ?au) = 4" "owned (audio_ptrs dev) (st_heap s)"
    "iso_ready (dv_audio_in_isoc dev)" "iso_ready (dv_audio_out_isoc dev)"
    using assms(2) by (simp_all add: audio_inv_def audio_bufs_ok_def)
  obtain h1 where h1: "mfree (is_buffer (dv_audio_in_isoc dev)) (st_heap s) = Some h1"
    "owned (tl (audio_ptrs dev)) h1" "hp_blocks h1 = without [is_buffer (dv_audio_in_isoc dev)] (hp_blocks (st_heap s))"
    using owned_mfree [OF inv(3) [unfolded audio_ptrs_def append_Cons]] by (auto simp: audio_ptrs_def)
  have d1: "st_devs ?s1 d = Some ?dev1" by simp
  from fnusb_stop_iso_dies [OF assms(3) d1, of Iso_audio_in h1] h1(1) inv(4) obtain n1 io1 where
    r1: "fnusb_stop_iso E d Iso_audio_in ?s1 = Some (0, set_dev d (set_isoc Iso_audio_in
      ((dv_audio_in_isoc dev)\<lparr>is_dead := True, is_dead_xfers := n1\<rparr>) ?dev1) (?s1\<lparr>st_io := io1, st_heap := h1\<rparr>))"
    by (auto simp: iso_ready_def)
  let ?dev2 = "set_isoc Iso_audio_in ((dv_audio_in_isoc dev)\<lparr>is_dead := True, is_dead_xfers := n1\<rparr>) ?dev1"
  let ?s2 = "set_dev d ?dev2 (?s1\<lparr>st_io := io1, st_heap := h1\<rparr>)"
  obtain h2 where h2: "mfree (is_buffer (dv_audio_out_isoc dev)) h1 = Some h2" "owned (tl (tl (audio_ptrs dev))) h2"
    "hp_blocks h2 = without [is_buffer (dv_audio_out_isoc dev)] (hp_blocks h1)"
    using owned_mfree [OF h1(2) [unfolded audio_ptrs_def append_Cons list.sel]] by (auto simp: audio_ptrs_def)
  have d2: "st_devs ?s2 d = Some ?dev2" by simp
  from fnusb_stop_iso_dies [OF assms(3) d2, of Iso_audio_out h2] h2(1) inv(5) obtain n2 io2 where
    r2: "fnusb_stop_iso E d Iso_audio_out ?s2 = Some (0, set_dev d (set_isoc Iso_audio_out
      ((dv_audio_out_isoc dev)\<lparr>is_dead := True, is_dead_xfers := n2\<rparr>) ?dev2) (?s2\<lparr>st_io := io2, st_heap := h2\<rparr>))"
    by (auto simp: iso_ready_def)
  let ?dev3 = "set_isoc Iso_audio_out ((dv_audio_out_isoc dev)\<lparr>is_dead := True, is_dead_xfers := n2\<rparr>) ?dev2"
  let ?s3 = "set_dev d ?dev3 (?s2\<lparr>st_io := io2, st_heap := h2\<rparr>)"
  let ?au1 = "?au\<lparr>au_running := False\<rparr>"
  have "owned ([au_audio_out_ring ?au1, au_cancelled_buffer ?au1, au_in_unknown ?au1] @ au_mic_buffer ?au1) h2"
    using h2(2) by (simp add: audio_ptrs_def)
  from audio_free_ok [OF this] inv(2) obtain h3 where
    f: "audio_free ?au1 h2 = Some (?au1\<lparr>au_mic_buffer := replicate 4 None, au_audio_out_ring := None,
      au_cancelled_buffer := None, au_in_unknown := None\<rparr>, h3)"
    "hp_blocks h3 = without ([au_audio_out_ring ?au1, au_cancelled_buffer ?au1, au_in_unknown ?au1] @ au_mic_buffer ?au1) (hp_blocks h2)"
    by auto
  have "hp_blocks h3 = without (audio_ptrs dev) (hp_blocks (st_heap s))"
    using f(2) h2(3) h1(3) by (simp add: without_without audio_ptrs_def)
  moreover have "freenect_stop_audio E d s = Some (0, set_dev d (?dev3\<lparr>dv_audio := ?au1\<lparr>au_mic_buffer := replicate 4 None,
      au_audio_out_ring := None, au_cancelled_buffer := None, au_in_unknown := None\<rparr>\<rparr>) (?s3\<lparr>st_heap := h3\<rparr>))"
    using assms(1) inv(1) r1 r2 f(1) by (simp add: freenect_stop_audio_def Let_def)
  ultimately show ?thesis by simp
qed

section \<open>Witnesses\<close>

definition silent_state :: st where
  "silent_state = example_state\<lparr>st_heap := \<lparr>hp_blocks = (\<lambda>_. None), hp_next = 0, hp_avail = 1000000, hp_fill = 7\<rparr>\<rparr>"

lemma silent_state_ok:
  "st_devs silent_state 0 = Some (the (st_devs silent_state 0))" "\<not> au_running (dv_audio (the (st_devs silent_state 0)))"
  "heap_wf (st_heap silent_state)" "7728 \<le> hp_avail (st_heap silent_state)" "\<forall>h. e_alloc iso_env h"
  by (simp_all add: silent_state_def example_state_def zero_device_def zero_audio_stream_def heap_wf_def
      iso_env_def quiet_env_def)

theorem freenect_start_audio_inv_witness:
  "\<exists>s' dev'. freenect_start_audio iso_env 0 silent_state = Some (0, s') \<and> st_devs s' 0 = Some dev' \<and>
     audio_inv dev' (st_heap s')"
  using freenect_start_audio_inv [OF silent_state_ok] by blast

theorem freenect_stop_audio_frees_witness:
  "\<exists>s dev s' dev'. st_devs s 0 = Some dev \<and> au_running (dv_audio dev) \<and>
     freenect_stop_audio iso_env 0 s = Some (0, s') \<and> st_devs s' 0 = Some dev' \<and> \<not> au_running (dv_audio dev')"
proof -
  obtain s :: st and dev where s: "st_devs s 0 = Some dev" "audio_inv dev (st_heap s)"
    using freenect_start_audio_inv_aux [OF silent_state_ok] by blast
  from freenect_stop_audio_frees [OF s iso_env_delivers] s show ?thesis
    by (auto simp: audio_inv_def)
qed

end
