(* ===== verification/Camera.thy ===== *)
theory Camera
  imports Frames Control Iso Heap_Own
begin

text \<open>
  The camera operations of src/cameras.c: fetching the calibration with camera commands, starting
  and stopping the depth and video streams, changing the modes, buffers and callbacks, and setting
  up and tearing down the camera of a device.
\<close>

section \<open>Calibration\<close>

text \<open>
  The parameters of the command OPCODE_ALGORITHM_PARAMS. When the current mode is not in the table,
  the resolution and the frame rate of the struct are uninitialised stack memory.
\<close>

definition algorithm_params :: "u16 \<Rightarrow> freenect_device \<Rightarrow> heap \<Rightarrow> u8 list" where
  "algorithm_params param dev h =
     le16 param @ le16 0 @
     (case freenect_get_current_video_mode dev of
        Some mode \<Rightarrow> le16 (ucast (resolution_val (fm_resolution mode))) @ le16 (word_of_int (fm_framerate mode))
      | None \<Rightarrow> replicate 4 (hp_fill h)) @
     le16 0"

text \<open>The struct of 29 little-endian words, at an offset of the reply.\<close>

definition read_reg_info :: "u8 list \<Rightarrow> nat \<Rightarrow> freenect_reg_info" where
  "read_reg_info reply off =
     (let w = \<lambda>i. get32 reply (off + 4 * i)
      in \<lparr>ri_dx_center = w 0, ri_ax = w 1, ri_bx = w 2, ri_cx = w 3, ri_dx = w 4, ri_dx_start = w 5,
          ri_ay = w 6, ri_by = w 7, ri_cy = w 8, ri_dy = w 9, ri_dy_start = w 10, ri_dx_beta_start = w 11,
          ri_dy_beta_start = w 12, ri_rollout_blank = w 13, ri_rollout_size = w 14, ri_dx_beta_inc = w 15,
          ri_dy_beta_inc = w 16, ri_dxdx_start = w 17, ri_dxdy_start = w 18, ri_dydx_start = w 19,
          ri_dydy_start = w 20, ri_dxdxdx_start = w 21, ri_dydxdx_start = w 22, ri_dxdxdy_start = w 23,
          ri_dydxdy_start = w 24, ri_back_comp1 = w 25, ri_dydydx_start = w 26, ri_back_comp2 = w 27,
          ri_dydydy_start = w 28\<rparr>)"

text \<open>Updating the registration of a device.\<close>

definition upd_registration ::
    "nat \<Rightarrow> (freenect_registration \<Rightarrow> freenect_registration) \<Rightarrow> st \<Rightarrow> st option" where
  "upd_registration d f s = do {
     dev \<leftarrow> st_devs s d;
     Some (set_dev d (dev\<lparr>dv_registration := f (dv_registration dev)\<rparr>) s)
   }"

definition freenect_fetch_reg_info :: "env \<Rightarrow> nat \<Rightarrow> st \<Rightarrow> (int \<times> st) option" where
  "freenect_fetch_reg_info E d s = do {
     dev \<leftarrow> st_devs s d;
     ((res, reply), s) \<leftarrow> send_cmd E d 0x16 (algorithm_params 0x40 dev (st_heap s)) 118 s;
     if res \<noteq> 118 then Some (-1, s)
     else do {
       s \<leftarrow> upd_registration d (\<lambda>reg. reg\<lparr>rg_reg_info := read_reg_info reply 2\<rparr>) s;
       Some (0, s)
     }
   }"

definition freenect_fetch_reg_pad_info :: "env \<Rightarrow> nat \<Rightarrow> st \<Rightarrow> (int \<times> st) option" where
  "freenect_fetch_reg_pad_info E d s = do {
     dev \<leftarrow> st_devs s d;
     ((res, reply), s) \<leftarrow> send_cmd E d 0x16 (algorithm_params 0x41 dev (st_heap s)) 8 s;
     if res \<noteq> 8 then Some (-1, s)
     else do {
       s \<leftarrow> upd_registration d (\<lambda>reg. reg\<lparr>rg_reg_pad_info := \<lparr>rp_start_lines = get16 reply 2,
              rp_end_lines = get16 reply 4, rp_cropping_lines = get16 reply 6\<rparr>\<rparr>) s;
       Some (0, s)
     }
   }"

definition freenect_fetch_reg_const_shift :: "env \<Rightarrow> nat \<Rightarrow> st \<Rightarrow> (int \<times> st) option" where
  "freenect_fetch_reg_const_shift E d s = do {
     dev \<leftarrow> st_devs s d;
     ((res, reply), s) \<leftarrow> send_cmd E d 0x16 (algorithm_params 0x00 dev (st_heap s)) 4 s;
     if res \<noteq> 4 then Some (-1, s)
     else do {
       s \<leftarrow> upd_registration d (\<lambda>reg. reg\<lparr>rg_const_shift := real (unat (get16 reply 2))\<rparr>) s;
       Some (0, s)
     }
   }"

text \<open>
  The value of a single precision number. NaN and the infinities are not among the reals: they are
  outside of the model.
\<close>

definition float_of_bits :: "u32 \<Rightarrow> real option" where
  "float_of_bits w =
     (let sg = (if bit w 31 then -1 else 1) :: real;
          ex = unat (drop_bit 23 w AND 0xff);
          m = unat (w AND 0x7fffff)
      in if ex = 255 then None
         else if ex = 0 then Some (sg * real m / 2 ^ 149)
         else Some (sg * (1 + real m / 2 ^ 23) * 2 ^ ex / 2 ^ 127))"

text \<open>Four floats at offset 94; what the reply does not cover is uninitialised stack memory.\<close>

definition freenect_fetch_zero_plane_info :: "env \<Rightarrow> nat \<Rightarrow> st \<Rightarrow> (int \<times> st) option" where
  "freenect_fetch_zero_plane_info E d s = do {
     let zero_plane_res = cx_zero_plane_res (st_ctx s);
     ((res, reply), s) \<leftarrow> send_cmd E d 0x04 (replicate 10 0) zero_plane_res s;
     if res \<noteq> zero_plane_res then Some (-1, s)
     else do {
       let reply = pad 0x200 (hp_fill (st_heap s)) reply;
       emitter \<leftarrow> float_of_bits (get32 reply 94);
       _ \<leftarrow> float_of_bits (get32 reply 98);
       distance \<leftarrow> float_of_bits (get32 reply 102);
       pixel_size \<leftarrow> float_of_bits (get32 reply 106);
       s \<leftarrow> upd_registration d (\<lambda>reg. reg\<lparr>rg_zero_plane_info := \<lparr>zp_dcmos_emitter_dist = emitter,
              zp_dcmos_rcmos_dist = e_rndf E 2.4, zp_reference_distance = distance,
              zp_reference_pixel_size = pixel_size\<rparr>\<rparr>) s;
       Some (0, s)
     }
   }"

section \<open>Starting the depth stream\<close>

text \<open>A sequence of register writes whose results are ignored.\<close>

definition write_regs :: "env \<Rightarrow> nat \<Rightarrow> (u16 \<times> u16) list \<Rightarrow> st \<Rightarrow> st option" where
  "write_regs E d regs s = fold_opt (\<lambda>(reg, data) s. map_option snd (write_register E d reg data s)) regs s"

text \<open>
  The lengths that stream_init gets. The size of a mode that is not in the table is
  indeterminate: \<open>None\<close>.
\<close>

definition depth_sizes :: "freenect_device \<Rightarrow> (int \<times> int) option" where
  "depth_sizes dev =
     (let bytes = \<lambda>fmt. map_option fm_bytes (freenect_find_depth_mode (dv_depth_resolution dev) fmt)
      in case dv_depth_format dev of
           FREENECT_DEPTH_10BIT \<Rightarrow> do {
             r \<leftarrow> bytes FREENECT_DEPTH_10BIT_PACKED; p \<leftarrow> bytes FREENECT_DEPTH_10BIT; Some (r, p) }
         | FREENECT_DEPTH_11BIT_PACKED \<Rightarrow> do { p \<leftarrow> bytes FREENECT_DEPTH_11BIT_PACKED; Some (0, p) }
         | FREENECT_DEPTH_10BIT_PACKED \<Rightarrow> do { p \<leftarrow> bytes FREENECT_DEPTH_10BIT_PACKED; Some (0, p) }
         | FREENECT_DEPTH_DUMMY \<Rightarrow> None
         | _ \<Rightarrow> do { r \<leftarrow> bytes FREENECT_DEPTH_11BIT_PACKED; p \<leftarrow> bytes FREENECT_DEPTH_11BIT; Some (r, p) })"

definition depth_start_regs :: "freenect_depth_format \<Rightarrow> (u16 \<times> u16) list" where
  "depth_start_regs fmt =
     [(0x105, 0x00), (0x06, 0x00)] @
     (case fmt of
        FREENECT_DEPTH_10BIT \<Rightarrow> [(0x12, 0x02)]
      | FREENECT_DEPTH_10BIT_PACKED \<Rightarrow> [(0x12, 0x02)]
      | FREENECT_DEPTH_DUMMY \<Rightarrow> []
      | _ \<Rightarrow> [(0x12, 0x03)]) @
     [(0x13, 0x01), (0x14, 0x1e), (0x06, 0x02), (0x17, 0x00)]"

text \<open>The second half of freenect_start_depth, from stream_init on.\<close>

definition depth_run :: "env \<Rightarrow> nat \<Rightarrow> st \<Rightarrow> (int \<times> st) option" where
  "depth_run E d s = do {
     dev \<leftarrow> st_devs s d;
     (rlen, plen) \<leftarrow> depth_sizes dev;
     (strm, h) \<leftarrow> stream_init (dv_depth dev) rlen plen (st_heap s);
     let s = set_dev d (dev\<lparr>dv_depth := strm\<rparr>) (s\<lparr>st_heap := h\<rparr>);
     let (packet_size, s) = fnusb_get_max_iso_packet_size E (dv_usb_cam dev) 0x82 DEPTH_PKTBUF s;
     (res, s) \<leftarrow> fnusb_start_iso E d Iso_depth Cb_depth_process 0x82 NUM_XFERS PKTS_PER_XFER packet_size s;
     if res < 0 then Some (res, s)
     else do {
       s \<leftarrow> write_regs E d (depth_start_regs (dv_depth_format dev)) s;
       dev \<leftarrow> st_devs s d;
       Some (0, set_dev d (dev\<lparr>dv_depth := (dv_depth dev)\<lparr>ps_running := True\<rparr>\<rparr>) s)
     }
   }"

definition freenect_start_depth :: "env \<Rightarrow> nat \<Rightarrow> st \<Rightarrow> (int \<times> st) option" where
  "freenect_start_depth E d s = do {
     dev \<leftarrow> st_devs s d;
     if ps_running (dv_depth dev) then Some (-1, s)
     else do {
       let dev = dev\<lparr>dv_depth := (dv_depth dev)\<lparr>ps_pkt_size := DEPTH_PKTDSIZE, ps_flag := 0x70,
                   ps_variable_length := False\<rparr>\<rparr>;
       if dv_depth_format dev = FREENECT_DEPTH_DUMMY then Some (-1, set_dev d dev s)
       else do {
         let dev = (if dv_depth_format dev = FREENECT_DEPTH_REGISTERED \<or> dv_depth_format dev = FREENECT_DEPTH_MM
                    then freenect_init_registration E dev else dev);
         depth_run E d (set_dev d dev s)
       }
     }
   }"

section \<open>Starting the video stream\<close>

record video_setup =
  vs_mode :: "u16 \<times> u16"
  vs_res :: "u16 \<times> u16"
  vs_fps :: "u16 \<times> u16"
  vs_hflip :: u16

text \<open>The registers and values that the switch over the format chooses.\<close>

definition video_registers :: "freenect_video_format \<Rightarrow> freenect_resolution \<Rightarrow> video_setup option" where
  "video_registers fmt res =
     (let rgb = \<lambda>m r f. Some \<lparr>vs_mode = (0x0c, m), vs_res = (0x0d, r), vs_fps = (0x0e, f), vs_hflip = 0x47\<rparr>;
          ir = \<lambda>m r f. Some \<lparr>vs_mode = (0x19, m), vs_res = (0x1a, r), vs_fps = (0x1b, f), vs_hflip = 0x48\<rparr>
      in if fmt \<in> {FREENECT_VIDEO_RGB, FREENECT_VIDEO_BAYER}
         then (if res = FREENECT_RESOLUTION_HIGH then rgb 0x00 0x02 0x0f
               else if res = FREENECT_RESOLUTION_MEDIUM then rgb 0x00 0x01 0x1e else None)
         else if fmt \<in> {FREENECT_VIDEO_IR_8BIT, FREENECT_VIDEO_IR_10BIT, FREENECT_VIDEO_IR_10BIT_PACKED}
         then (if res = FREENECT_RESOLUTION_HIGH then ir 0x00 0x02 0x0f
               else if res = FREENECT_RESOLUTION_MEDIUM then ir 0x00 0x01 0x1e else None)
         else if fmt \<in> {FREENECT_VIDEO_YUV_RGB, FREENECT_VIDEO_YUV_RAW}
         then (if res = FREENECT_RESOLUTION_MEDIUM then rgb 0x05 0x01 0x0f else None)
         else None)"

definition is_ir :: "freenect_video_format \<Rightarrow> bool" where
  "is_ir fmt \<longleftrightarrow> fmt \<in> {FREENECT_VIDEO_IR_8BIT, FREENECT_VIDEO_IR_10BIT, FREENECT_VIDEO_IR_10BIT_PACKED}"

text \<open>The start and stop of the depth stream that precede high-resolution infrared.\<close>

definition ir_workaround :: "(u16 \<times> u16) list" where
  "ir_workaround = [(0x13, 0x01), (0x14, 0x1e), (0x06, 0x02), (0x06, 0x00)]"

definition video_sizes :: "freenect_device \<Rightarrow> (int \<times> int) option" where
  "video_sizes dev =
     (let bytes = \<lambda>fmt. map_option fm_bytes (freenect_find_video_mode (dv_video_resolution dev) fmt)
      in do {
        frame_mode \<leftarrow> freenect_get_current_video_mode dev;
        let plen = fm_bytes frame_mode;
        case dv_video_format dev of
          FREENECT_VIDEO_RGB \<Rightarrow> do { r \<leftarrow> bytes FREENECT_VIDEO_BAYER; Some (r, plen) }
        | FREENECT_VIDEO_IR_8BIT \<Rightarrow> do { r \<leftarrow> bytes FREENECT_VIDEO_IR_10BIT_PACKED; Some (r, plen) }
        | FREENECT_VIDEO_IR_10BIT \<Rightarrow> do { r \<leftarrow> bytes FREENECT_VIDEO_IR_10BIT_PACKED; Some (r, plen) }
        | FREENECT_VIDEO_YUV_RGB \<Rightarrow> do { r \<leftarrow> bytes FREENECT_VIDEO_YUV_RAW; Some (r, plen) }
        | _ \<Rightarrow> Some (0, plen)
      })"

definition video_start_regs :: "video_setup \<Rightarrow> freenect_video_format \<Rightarrow> (u16 \<times> u16) list" where
  "video_start_regs v fmt =
     [vs_mode v, vs_res v, vs_fps v] @
     (if is_ir fmt then [(0x105, 0x00), (0x05, 0x03)] else [(0x05, 0x01)]) @
     [(vs_hflip v, 0x00)]"

text \<open>The second half of freenect_start_video, from stream_init on.\<close>

definition video_run :: "env \<Rightarrow> nat \<Rightarrow> video_setup \<Rightarrow> st \<Rightarrow> (int \<times> st) option" where
  "video_run E d v s = do {
     dev \<leftarrow> st_devs s d;
     (rlen, plen) \<leftarrow> video_sizes dev;
     (strm, h) \<leftarrow> stream_init (dv_video dev) rlen plen (st_heap s);
     let s = set_dev d (dev\<lparr>dv_video := strm\<rparr>) (s\<lparr>st_heap := h\<rparr>);
     let (packet_size, s) = fnusb_get_max_iso_packet_size E (dv_usb_cam dev) 0x81 VIDEO_PKTBUF s;
     (res, s) \<leftarrow> fnusb_start_iso E d Iso_video Cb_video_process 0x81 NUM_XFERS PKTS_PER_XFER packet_size s;
     if res < 0 then Some (res, s)
     else do {
       s \<leftarrow> write_regs E d (video_start_regs v (dv_video_format dev)) s;
       dev \<leftarrow> st_devs s d;
       Some (0, set_dev d (dev\<lparr>dv_video := (dv_video dev)\<lparr>ps_running := True\<rparr>\<rparr>) s)
     }
   }"

definition freenect_start_video :: "env \<Rightarrow> nat \<Rightarrow> st \<Rightarrow> (int \<times> st) option" where
  "freenect_start_video E d s = do {
     dev \<leftarrow> st_devs s d;
     if ps_running (dv_video dev) then Some (-1, s)
     else do {
       let s = set_dev d (dev\<lparr>dv_video := (dv_video dev)\<lparr>ps_pkt_size := VIDEO_PKTDSIZE, ps_flag := 0x80,
                   ps_variable_length := False\<rparr>\<rparr>) s;
       case video_registers (dv_video_format dev) (dv_video_resolution dev) of
         None \<Rightarrow> Some (-1, s)
       | Some v \<Rightarrow>
           if is_ir (dv_video_format dev) \<and> dv_video_resolution dev = FREENECT_RESOLUTION_HIGH
           then if ps_running (dv_depth dev) then Some (-1, s)
                else do { s \<leftarrow> write_regs E d ir_workaround s; video_run E d v s }
           else video_run E d v s
     }
   }"

section \<open>Stopping\<close>

definition freenect_stop_depth :: "env \<Rightarrow> nat \<Rightarrow> st \<Rightarrow> (int \<times> st) option" where
  "freenect_stop_depth E d s = do {
     dev \<leftarrow> st_devs s d;
     if \<not> ps_running (dv_depth dev) then Some (-1, s)
     else do {
       let s = set_dev d (dev\<lparr>dv_depth := (dv_depth dev)\<lparr>ps_running := False\<rparr>\<rparr>) s;
       s \<leftarrow> write_regs E d [(0x06, 0x00)] s;
       (res, s) \<leftarrow> fnusb_stop_iso E d Iso_depth s;
       if res < 0 then Some (res, s)
       else do {
         dev \<leftarrow> st_devs s d;
         (strm, h) \<leftarrow> stream_freebufs (dv_depth dev) (st_heap s);
         Some (0, set_dev d (dev\<lparr>dv_registration := freenect_destroy_registration (dv_registration dev),
                dv_depth := strm\<rparr>) (s\<lparr>st_heap := h\<rparr>))
       }
     }
   }"

definition freenect_stop_video :: "env \<Rightarrow> nat \<Rightarrow> st \<Rightarrow> (int \<times> st) option" where
  "freenect_stop_video E d s = do {
     dev \<leftarrow> st_devs s d;
     if \<not> ps_running (dv_video dev) then Some (-1, s)
     else do {
       let s = set_dev d (dev\<lparr>dv_video := (dv_video dev)\<lparr>ps_running := False\<rparr>\<rparr>) s;
       s \<leftarrow> write_regs E d [(0x05, 0x00)] s;
       (res, s) \<leftarrow> fnusb_stop_iso E d Iso_video s;
       if res < 0 then Some (res, s)
       else do {
         dev \<leftarrow> st_devs s d;
         (strm, h) \<leftarrow> stream_freebufs (dv_video dev) (st_heap s);
         Some (0, set_dev d (dev\<lparr>dv_video := strm\<rparr>) (s\<lparr>st_heap := h\<rparr>))
       }
     }
   }"

section \<open>Settings\<close>

definition freenect_set_depth_callback :: "nat \<Rightarrow> nat option \<Rightarrow> st \<Rightarrow> st option" where
  "freenect_set_depth_callback d cb s = do { dev \<leftarrow> st_devs s d; Some (set_dev d (dev\<lparr>dv_depth_cb := cb\<rparr>) s) }"

definition freenect_set_video_callback :: "nat \<Rightarrow> nat option \<Rightarrow> st \<Rightarrow> st option" where
  "freenect_set_video_callback d cb s = do { dev \<leftarrow> st_devs s d; Some (set_dev d (dev\<lparr>dv_video_cb := cb\<rparr>) s) }"

definition freenect_set_depth_chunk_callback :: "nat \<Rightarrow> nat option \<Rightarrow> st \<Rightarrow> st option" where
  "freenect_set_depth_chunk_callback d cb s =
     do { dev \<leftarrow> st_devs s d; Some (set_dev d (dev\<lparr>dv_depth_chunk_cb := cb\<rparr>) s) }"

definition freenect_set_video_chunk_callback :: "nat \<Rightarrow> nat option \<Rightarrow> st \<Rightarrow> st option" where
  "freenect_set_video_chunk_callback d cb s =
     do { dev \<leftarrow> st_devs s d; Some (set_dev d (dev\<lparr>dv_video_chunk_cb := cb\<rparr>) s) }"

definition freenect_set_video_mode :: "env \<Rightarrow> nat \<Rightarrow> freenect_frame_mode \<Rightarrow> st \<Rightarrow> (int \<times> st) option" where
  "freenect_set_video_mode E d mode s = do {
     dev \<leftarrow> st_devs s d;
     if ps_running (dv_video dev) then Some (-1, s)
     else case set_video_mode_check mode of
       None \<Rightarrow> Some (-1, s)
     | Some (res, fmt) \<Rightarrow> do {
         let s = set_dev d (dev\<lparr>dv_video_format := fmt, dv_video_resolution := res\<rparr>) s;
         (_, s) \<leftarrow> freenect_fetch_reg_info E d s;
         Some (0, s)
       }
   }"

definition freenect_set_depth_mode :: "nat \<Rightarrow> freenect_frame_mode \<Rightarrow> st \<Rightarrow> (int \<times> st) option" where
  "freenect_set_depth_mode d mode s = do {
     dev \<leftarrow> st_devs s d;
     if ps_running (dv_depth dev) then Some (-1, s)
     else case set_depth_mode_check mode of
       None \<Rightarrow> Some (-1, s)
     | Some (res, fmt) \<Rightarrow> Some (0, set_dev d (dev\<lparr>dv_depth_format := fmt, dv_depth_resolution := res\<rparr>) s)
   }"

definition freenect_set_depth_buffer :: "nat \<Rightarrow> ptr \<Rightarrow> st \<Rightarrow> (int \<times> st) option" where
  "freenect_set_depth_buffer d buf s = do {
     dev \<leftarrow> st_devs s d;
     let (res, strm) = stream_setbuf (dv_depth dev) buf;
     Some (res, set_dev d (dev\<lparr>dv_depth := strm\<rparr>) s)
   }"

definition freenect_set_video_buffer :: "nat \<Rightarrow> ptr \<Rightarrow> st \<Rightarrow> (int \<times> st) option" where
  "freenect_set_video_buffer d buf s = do {
     dev \<leftarrow> st_devs s d;
     let (res, strm) = stream_setbuf (dv_video dev) buf;
     Some (res, set_dev d (dev\<lparr>dv_video := strm\<rparr>) s)
   }"

section \<open>Setting up and tearing down\<close>

definition freenect_camera_init :: "env \<Rightarrow> nat \<Rightarrow> st \<Rightarrow> (int \<times> st) option" where
  "freenect_camera_init E d s = do {
     (res, s) \<leftarrow> freenect_fetch_reg_pad_info E d s;
     if res < 0 then Some (res, s)
     else do {
       (res, s) \<leftarrow> freenect_fetch_zero_plane_info E d s;
       if res < 0 then Some (res, s)
       else do {
         vmode \<leftarrow> freenect_find_video_mode FREENECT_RESOLUTION_MEDIUM FREENECT_VIDEO_RGB;
         (_, s) \<leftarrow> freenect_set_video_mode E d vmode s;
         dmode \<leftarrow> freenect_find_depth_mode FREENECT_RESOLUTION_MEDIUM FREENECT_DEPTH_11BIT;
         (_, s) \<leftarrow> freenect_set_depth_mode d dmode s;
         (res, s) \<leftarrow> freenect_fetch_reg_const_shift E d s;
         if res < 0 then Some (res, s) else Some (0, s)
       }
     }
   }"

definition freenect_camera_teardown :: "env \<Rightarrow> nat \<Rightarrow> st \<Rightarrow> (int \<times> st) option" where
  "freenect_camera_teardown E d s = do {
     dev \<leftarrow> st_devs s d;
     if ps_running (dv_depth dev) then freenect_stop_depth E d s
     else if ps_running (dv_video dev) then freenect_stop_video E d s
     else Some (0, set_dev d (dev\<lparr>dv_registration := freenect_destroy_registration (dv_registration dev)\<rparr>) s)
   }"

section \<open>A camera that answers\<close>

text \<open>
  Every wait for a reply ends: some later poll is answered by something other than an empty or a
  full buffer.
\<close>

definition answers :: "env \<Rightarrow> fnusb_dev \<Rightarrow> bool" where
  "answers E cam \<longleftrightarrow> (\<forall>s. \<exists>n. \<not> no_answer (fst (poll_answer E cam (after_polls cam n s))))"

text \<open>The camera commands that were sent to a handle, newest first: the command and its data.\<close>

primrec cam_cmds :: "nat option \<Rightarrow> io list \<Rightarrow> (u16 \<times> u8 list) list" where
  "cam_cmds h [] = []"
| "cam_cmds h (ev # io) =
     (case ev of
        IO_control h' rt rq v i obuf n \<Rightarrow>
          if h' = h \<and> rt = 0x40 \<and> rq = 0 then (get16 obuf 4, drop 8 obuf) # cam_cmds h io else cam_cmds h io
      | _ \<Rightarrow> cam_cmds h io)"

lemma cam_cmds_polls [simp]: "cam_cmds h (st_io (after_polls cam n s)) = cam_cmds h (st_io s)"
  by (induction n arbitrary: s) simp_all

lemma get16_cam_hdr: "get16 (cam_hdr cmd tag n @ buf) 4 = cmd"
  using of_le16_le16 [of cmd] by (simp add: cam_hdr_def get16_def le16_def)

lemma length_cam_hdr [simp]: "length (cam_hdr cmd tag n) = 8"
  by (simp add: cam_hdr_def)

lemma send_cmd_returns:
  assumes dv: "st_devs s d = Some dv" and h: "ud_dev (dv_usb_cam dv) \<noteq> None" and E: "answers E (dv_usb_cam dv)"
  shows "\<exists>r s'. send_cmd E d cmd buf n s = Some (r, s')"
proof -
  have "\<exists>r s'. await_reply E (dv_usb_cam dv) x = Some (r, s')" for x
    using await_reply_returns_iff_aux [OF h, of E x] E by (auto simp: answers_def)
  then have w: "\<exists>a b s'. await_reply E (dv_usb_cam dv) x = Some ((a, b), s')" for x by (metis surj_pair)
  let ?req = "IO_control (ud_dev (dv_usb_cam dv)) 0x40 0 0 0 (cam_hdr cmd (dv_cam_tag dv) (length buf) @ buf) (length buf + 8)"
  obtain res bs where out: "e_control E (?req # st_io s) = (res, bs)" by fastforce
  obtain a b s1 where "await_reply E (dv_usb_cam dv) (emit ?req s) = Some ((a, b), s1)" using w by blast
  then show ?thesis
    using dv out by (auto simp: send_cmd_def fnusb_control_open [OF h] Let_def split: option.split)
qed

lemma send_cmd_log:
  assumes "send_cmd E d cmd buf n s = Some (r, s')" and dv: "st_devs s d = Some dv"
    and "even (length buf)" and "length buf \<le> 0x400 - 8"
  shows "cam_cmds (ud_dev (dv_usb_cam dv)) (st_io s') = (cmd, buf) # cam_cmds (ud_dev (dv_usb_cam dv)) (st_io s)"
proof -
  let ?h = "ud_dev (dv_usb_cam dv)"
  let ?req = "IO_control ?h 0x40 0 0 0 (cam_hdr cmd (dv_cam_tag dv) (length buf) @ buf) (length buf + 8)"
  have h: "?h \<noteq> None"
    using assms by (cases ?h) (auto simp: send_cmd_def fnusb_control_def)
  have log: "cam_cmds ?h (?req # st_io s) = (cmd, buf) # cam_cmds ?h (st_io s)"
    by (simp add: get16_cam_hdr)
  obtain res bs where out: "e_control E (?req # st_io s) = (res, bs)" by fastforce
  show ?thesis
  proof (cases "res < 0")
    case True
    with assms out have "s' = emit ?req s"
      by (auto simp: send_cmd_def fnusb_control_open [OF h] Let_def)
    then show ?thesis using log by simp
  next
    case False
    then obtain len bytes s2 where w: "await_reply E (dv_usb_cam dv) (emit ?req s) = Some ((len, bytes), s2)"
      and io: "st_io s' = st_io s2"
      using assms out
      by (auto simp: send_cmd_def fnusb_control_open [OF h] Let_def split: Option.bind_splits if_splits option.splits)
    obtain m where "s2 = after_polls (dv_usb_cam dv) (Suc m) (emit ?req s)"
      using await_reply_SomeD [OF w] by blast
    then have "cam_cmds ?h (st_io s2) = cam_cmds ?h (?req # st_io s)"
      using cam_cmds_polls [of ?h "dv_usb_cam dv" "Suc m" "emit ?req s"] by simp
    with log io show ?thesis by simp
  qed
qed

abbreviation reg_cmd :: "u16 \<times> u16 \<Rightarrow> u16 \<times> u8 list" where
  "reg_cmd w \<equiv> (0x03, le16 (fst w) @ le16 (snd w))"

lemma write_regs_ok:
  assumes "st_devs s d = Some dv" and "ud_dev (dv_usb_cam dv) \<noteq> None" and "answers E (dv_usb_cam dv)"
  shows "\<exists>s' t. write_regs E d regs s = Some s' \<and> st_devs s' = (st_devs s)(d \<mapsto> dv\<lparr>dv_cam_tag := t\<rparr>) \<and>
    st_heap s' = st_heap s \<and> st_ctx s' = st_ctx s \<and>
    cam_cmds (ud_dev (dv_usb_cam dv)) (st_io s') =
      rev (map reg_cmd regs) @ cam_cmds (ud_dev (dv_usb_cam dv)) (st_io s)"
  using assms
proof (induction regs arbitrary: s dv)
  case Nil
  then show ?case
    by (intro exI [of _ s] exI [of _ "dv_cam_tag dv"]) (simp add: write_regs_def fun_upd_idem)
next
  case (Cons w regs)
  obtain reg data where w: "w = (reg, data)" by (cases w)
  obtain r s1 where s1: "send_cmd E d 0x03 (le16 reg @ le16 data) 4 s = Some (r, s1)"
    using send_cmd_returns [OF Cons.prems] by blast
  then obtain r' where wr: "write_register E d reg data s = Some (r', s1)"
    by (cases r; cases "fst r < 0") (auto simp: write_register_def)
  obtain t where t: "st_devs s1 = (st_devs s)(d \<mapsto> dv\<lparr>dv_cam_tag := t\<rparr>)" "st_heap s1 = st_heap s" "st_ctx s1 = st_ctx s"
    using send_cmd_step [OF s1] Cons.prems(1) by (auto simp: cmd_step_def)
  have d1: "st_devs s1 d = Some (dv\<lparr>dv_cam_tag := t\<rparr>)" using t(1) by simp
  have log: "cam_cmds (ud_dev (dv_usb_cam dv)) (st_io s1) = reg_cmd w # cam_cmds (ud_dev (dv_usb_cam dv)) (st_io s)"
    using send_cmd_log [OF s1 Cons.prems(1)] by (simp add: w)
  have "\<exists>s' t'. write_regs E d regs s1 = Some s' \<and> st_devs s' = (st_devs s1)(d \<mapsto> dv\<lparr>dv_cam_tag := t'\<rparr>) \<and>
      st_heap s' = st_heap s1 \<and> st_ctx s' = st_ctx s1 \<and>
      cam_cmds (ud_dev (dv_usb_cam dv)) (st_io s') =
        rev (map reg_cmd regs) @ cam_cmds (ud_dev (dv_usb_cam dv)) (st_io s1)"
    using Cons.IH [OF d1] Cons.prems(2,3) by (simp del: fun_upd_apply)
  then obtain s' t' where s': "write_regs E d regs s1 = Some s'"
    "st_devs s' = (st_devs s1)(d \<mapsto> dv\<lparr>dv_cam_tag := t'\<rparr>)" "st_heap s' = st_heap s1" "st_ctx s' = st_ctx s1"
    "cam_cmds (ud_dev (dv_usb_cam dv)) (st_io s') = rev (map reg_cmd regs) @ cam_cmds (ud_dev (dv_usb_cam dv)) (st_io s1)"
    by blast
  have "write_regs E d (w # regs) s = Some s'" using wr s'(1) by (simp add: write_regs_def w)
  then show ?case using s' t log by (intro exI [of _ s'] exI [of _ t']) simp
qed

text \<open>Commands submit no transfers.\<close>

lemma after_polls_logs [simp]: "logs io (st_io s) \<Longrightarrow> logs io (st_io (after_polls cam n s))"
  by (induction n arbitrary: s) simp_all

lemma send_cmd_logs:
  assumes "send_cmd E d cmd buf n s = Some (r, s')"
  shows "logs (st_io s) (st_io s')"
proof -
  obtain dv where dv: "st_devs s d = Some dv" using assms by (auto simp: send_cmd_def split: Option.bind_splits)
  show ?thesis
  proof (cases "ud_dev (dv_usb_cam dv) = None \<or> odd (length buf) \<or> length buf > 0x400 - 8")
    case True
    then show ?thesis using assms dv by (auto simp: send_cmd_def fnusb_control_def Let_def split: if_splits)
  next
    case False
    then have h: "ud_dev (dv_usb_cam dv) \<noteq> None" by simp
    let ?req = "IO_control (ud_dev (dv_usb_cam dv)) 0x40 0 0 0 (cam_hdr cmd (dv_cam_tag dv) (length buf) @ buf) (length buf + 8)"
    obtain res bs where out: "e_control E (?req # st_io s) = (res, bs)" by fastforce
    show ?thesis
    proof (cases "res < 0")
      case True
      with assms dv False out have "s' = emit ?req s" by (auto simp: send_cmd_def fnusb_control_open [OF h] Let_def)
      then show ?thesis by simp
    next
      case no: False
      with assms dv False out obtain len bytes s2 where
        w: "await_reply E (dv_usb_cam dv) (emit ?req s) = Some ((len, bytes), s2)" and io: "st_io s' = st_io s2"
        by (auto simp: send_cmd_def fnusb_control_open [OF h] Let_def split: Option.bind_splits if_splits option.splits)
      obtain m where "s2 = after_polls (dv_usb_cam dv) (Suc m) (emit ?req s)" using await_reply_SomeD [OF w] by blast
      then show ?thesis using io by (simp del: after_polls.simps)
    qed
  qed
qed

lemma write_regs_logs: "write_regs E d regs s = Some s' \<Longrightarrow> logs (st_io s) (st_io s')"
  unfolding write_regs_def
proof (induction regs arbitrary: s)
  case (Cons w regs)
  have "logs (st_io x) (st_io x')" if "write_register E d reg v x = Some (r, x')" for reg v x r x'
    using that by (auto simp: write_register_def split: Option.bind_splits if_splits dest: send_cmd_logs)
  with Cons show ?case by (fastforce split: Option.bind_splits prod.splits intro: logs_trans)
qed simp

section \<open>Initialising a stream\<close>

text \<open>The blocks that a stream owns; a buffer of the user is not among them.\<close>

definition stream_ptrs :: "packet_stream \<Rightarrow> ptr list" where
  "stream_ptrs strm = (if ps_split_bufs strm then [ps_raw_buf strm] else []) @ [ps_lib_buf strm]"

lemma init_fresh:
  assumes "heap_wf h"
  shows "hp_blocks h (hp_next h) = None" and "hp_blocks h (Suc (hp_next h)) = None"
  using assms by (auto simp: heap_wf_def)

lemma stream_init_grows:
  assumes ok: "init_ok strm rlen plen h" and init: "stream_init strm rlen plen h = Some (strm', h')"
  shows "grows h (stream_ptrs strm') h'"
proof -
  have hw: "heap_wf h" and pos: "nat plen + nat rlen \<le> hp_avail h" using ok by (simp_all add: init_ok_def)
  obtain lib h1 where m1: "(if ps_usr_buf strm \<noteq> None then (None, h) else malloc (nat plen) h) = (lib, h1)" by fastforce
  have g1: "grows h [lib] h1"
  proof (cases "ps_usr_buf strm")
    case None
    then show ?thesis using m1 grows_malloc [OF grows_refl [OF hw]] by simp
  next
    case (Some u)
    then show ?thesis using m1 grows_refl [OF hw] by (auto simp: grows_def without_def)
  qed
  obtain raw h2 where m2: "(if rlen = 0 then (None, h1) else malloc (nat rlen) h1) = (raw, h2)" by fastforce
  have "ps_lib_buf strm' = lib \<and> ps_split_bufs strm' = (rlen \<noteq> 0) \<and> h' = h2 \<and> (rlen \<noteq> 0 \<longrightarrow> ps_raw_buf strm' = raw)"
    using init m1 m2 by (cases "ps_usr_buf strm"; cases "rlen = 0") (auto simp: stream_init_def Let_def split: if_splits)
  then show ?thesis
    using g1 m2 grows_malloc [OF g1] by (cases "rlen = 0") (simp_all add: stream_ptrs_def)
qed

lemma stream_init_bufs:
  assumes ok: "init_ok strm rlen plen h" and init: "stream_init strm rlen plen h = Some (strm', h')"
    and wf: "wf_stream strm' h'" and "0 < rlen"
  shows "bufs_ok strm' (nat rlen) (nat plen) h'"
proof -
  have hw: "heap_wf h" and pos: "nat plen + nat rlen \<le> hp_avail h" using ok by (simp_all add: init_ok_def)
  note fresh = init_fresh [OF hw]
  show ?thesis
  proof (cases "ps_usr_buf strm")
    case None
    then show ?thesis using init wf pos \<open>0 < rlen\<close>
      by (auto simp: stream_init_def Let_def malloc_def bufs_ok_def split: if_splits)
  next
    case (Some u)
    then obtain blk where "hp_blocks h u = Some blk" "plen \<le> int (length blk)" using ok by (auto simp: init_ok_def)
    moreover have "u \<noteq> hp_next h" using fresh(1) calculation(1) by auto
    ultimately show ?thesis using init wf pos \<open>0 < rlen\<close> Some
      by (auto simp: stream_init_def Let_def malloc_def bufs_ok_def split: if_splits)
  qed
qed

text \<open>The buffer of the user is the one that frames are put into.\<close>

lemma stream_init_user:
  assumes "stream_init strm rlen plen h = Some (strm', h')"
  shows "ps_usr_buf strm \<noteq> None \<longrightarrow> ps_proc_buf strm' = ps_usr_buf strm"
    and "\<not> ps_split_bufs strm' \<longrightarrow> ps_raw_buf strm' = ps_proc_buf strm'"
  using assms by (auto simp: stream_init_def Let_def split: if_splits prod.splits)

lemma stream_init_ok:
  assumes ok: "init_ok strm rlen plen h"
  shows "\<exists>strm' h'. stream_init strm rlen plen h = Some (strm', h') \<and> wf_stream strm' h' \<and>
    grows h (stream_ptrs strm') h' \<and> (0 < rlen \<longrightarrow> bufs_ok strm' (nat rlen) (nat plen) h')"
  using stream_init_wf_aux [OF ok] stream_init_grows [OF ok] stream_init_bufs [OF ok] by blast

lemma owned_freebufs:
  assumes "owned (stream_ptrs strm) h"
  shows "\<exists>h'. stream_freebufs strm h = Some (strm\<lparr>ps_raw_buf := None, ps_proc_buf := None, ps_lib_buf := None\<rparr>, h') \<and>
    hp_blocks h' = without (stream_ptrs strm) (hp_blocks h)"
proof -
  have "mfree None x = Some x" for x by (simp add: mfree_def)
  with owned_mfree_all [OF assms] show ?thesis
    by (cases "ps_lib_buf strm") (auto simp: stream_freebufs_def stream_ptrs_def split: Option.bind_splits if_splits)
qed

text \<open>Later allocations do not disturb a stream.\<close>

definition extends :: "heap \<Rightarrow> heap \<Rightarrow> bool" where
  "extends h h' \<longleftrightarrow> (\<forall>a b. hp_blocks h a = Some b \<longrightarrow> hp_blocks h' a = Some b)"

lemma extends_mem_block: "extends h h' \<Longrightarrow> mem_block p h = Some b \<Longrightarrow> mem_block p h' = Some b"
  by (cases p) (auto simp: extends_def)

lemma wf_stream_extends: "extends h h' \<Longrightarrow> wf_stream strm h \<Longrightarrow> wf_stream strm h'"
  using extends_mem_block by (fastforce simp: wf_stream_def wf_buf_def)

lemma bufs_ok_extends: "extends h h' \<Longrightarrow> bufs_ok strm r p h \<Longrightarrow> bufs_ok strm r p h'"
  using wf_stream_extends extends_mem_block by (fastforce simp: bufs_ok_def)

lemma running_wf [simp]: "wf_stream (strm\<lparr>ps_running := b\<rparr>) h = wf_stream strm h"
  by (simp add: wf_stream_def wf_geom_def wf_buf_def)

lemma running_bufs_ok [simp]: "bufs_ok (strm\<lparr>ps_running := b\<rparr>) r p h = bufs_ok strm r p h"
  by (simp add: bufs_ok_def)

lemma running_ptrs [simp]: "stream_ptrs (strm\<lparr>ps_running := b\<rparr>) = stream_ptrs strm"
  by (simp add: stream_ptrs_def)

section \<open>What the two frame streams share\<close>

text \<open>
  The depth and the video stream are started and stopped alike. \<open>get\<close> and \<open>put\<close> access the stream
  in its device, \<open>k\<close> is its isochronous stream, \<open>run\<close> the second half of its start and \<open>stop\<close> the
  function that stops it; \<open>clean\<close> is what stopping does to the rest of the device.
\<close>

lemma start_iso_log:
  assumes "fnusb_start_iso E d k cb ep xfers pkts len s = Some (r, s')"
  shows "cam_cmds h (st_io s') = cam_cmds h (st_io s)"
proof -
  have step: "cam_cmds h (st_io x') = cam_cmds h (st_io x)" if "start_xfer E d k pkts i x = Some x'" for i x x'
    using that by (auto simp: start_xfer_def upd_isoc_def io_int_def Let_def split: Option.bind_splits if_splits)
  have "cam_cmds h (st_io x') = cam_cmds h (st_io x)" if "fold_opt (start_xfer E d k pkts) is x = Some x'" for "is" x x'
    using that by (induction "is" arbitrary: x) (auto dest: step split: Option.bind_splits)
  with assms show ?thesis
    by (auto simp: fnusb_start_iso_def upd_isoc_def split: Option.bind_splits prod.splits)
qed

locale frame_stream =
  fixes k :: iso_strm
    and cb :: fnusb_iso_cb
    and endpoint :: u8
    and pktbuf :: int
    and get :: "freenect_device \<Rightarrow> packet_stream"
    and put :: "packet_stream \<Rightarrow> freenect_device \<Rightarrow> freenect_device"
    and sizes :: "freenect_device \<Rightarrow> (int \<times> int) option"
    and on_regs :: "freenect_device \<Rightarrow> (u16 \<times> u16) list"
    and off_regs :: "(u16 \<times> u16) list"
    and clean :: "freenect_device \<Rightarrow> freenect_device"
    and run :: "env \<Rightarrow> nat \<Rightarrow> st \<Rightarrow> (int \<times> st) option"
    and stop :: "env \<Rightarrow> nat \<Rightarrow> st \<Rightarrow> (int \<times> st) option"
  assumes get_put: "get (put x dev) = x"
    and put_put: "put x (put y dev) = put x dev"
    and get_isoc: "get (set_isoc j strm dev) = get dev"
    and put_isoc: "dev_isoc j (put x dev) = dev_isoc j dev"
    and put_isoc_swap: "put x (set_isoc j strm dev) = set_isoc j strm (put x dev)"
    and get_tag: "get (dev\<lparr>dv_cam_tag := t\<rparr>) = get dev"
    and put_tag: "put x (dev\<lparr>dv_cam_tag := t\<rparr>) = (put x dev)\<lparr>dv_cam_tag := t\<rparr>"
    and cam: "dv_usb_cam (put x dev) = dv_usb_cam dev" "dv_usb_cam (set_isoc k strm dev) = dv_usb_cam dev"
    and on_regs_put: "on_regs (set_isoc k strm (put x dev)) = on_regs dev" "on_regs (put x dev) = on_regs dev"
    and run_eq: "run E d s = do {
        dev \<leftarrow> st_devs s d;
        (rlen, plen) \<leftarrow> sizes dev;
        (strm, h) \<leftarrow> stream_init (get dev) rlen plen (st_heap s);
        let s = set_dev d (put strm dev) (s\<lparr>st_heap := h\<rparr>);
        let (packet_size, s) = fnusb_get_max_iso_packet_size E (dv_usb_cam dev) endpoint pktbuf s;
        (res, s) \<leftarrow> fnusb_start_iso E d k cb endpoint NUM_XFERS PKTS_PER_XFER packet_size s;
        if res < 0 then Some (res, s)
        else do {
          s \<leftarrow> write_regs E d (on_regs dev) s;
          dev \<leftarrow> st_devs s d;
          Some (0, set_dev d (put ((get dev)\<lparr>ps_running := True\<rparr>) dev) s)
        }
      }"
    and stop_eq: "stop E d s = do {
        dev \<leftarrow> st_devs s d;
        if \<not> ps_running (get dev) then Some (-1, s)
        else do {
          let s = set_dev d (put ((get dev)\<lparr>ps_running := False\<rparr>) dev) s;
          s \<leftarrow> write_regs E d off_regs s;
          (res, s) \<leftarrow> fnusb_stop_iso E d k s;
          if res < 0 then Some (res, s)
          else do {
            dev \<leftarrow> st_devs s d;
            (strm, h) \<leftarrow> stream_freebufs (get dev) (st_heap s);
            Some (0, set_dev d (put strm (clean dev)) (s\<lparr>st_heap := h\<rparr>))
          }
        }
      }"
begin

text \<open>The blocks that the running stream owns.\<close>

definition ptrs :: "freenect_device \<Rightarrow> ptr list" where
  "ptrs dev = is_buffer (dev_isoc k dev) # stream_ptrs (get dev)"

lemma run_ok:
  assumes dev: "st_devs s d = Some dev" and sz: "sizes dev = Some (rlen, plen)"
    and ok: "init_ok (get dev) rlen plen (st_heap s)"
    and cam_open: "ud_dev (dv_usb_cam dev) \<noteq> None" and E: "answers E (dv_usb_cam dev)" and al: "\<forall>h. e_alloc E h"
  shows "\<exists>s' strm iso t. run E d s = Some (0, s') \<and>
    st_devs s' = (st_devs s)(d \<mapsto> (put strm (set_isoc k iso dev))\<lparr>dv_cam_tag := t\<rparr>) \<and>
    ps_running strm \<and> wf_stream strm (st_heap s') \<and>
    (ps_usr_buf (get dev) \<noteq> None \<longrightarrow> ps_proc_buf strm = ps_usr_buf (get dev)) \<and>
    (\<not> ps_split_bufs strm \<longrightarrow> ps_raw_buf strm = ps_proc_buf strm) \<and>
    (0 < rlen \<longrightarrow> bufs_ok strm (nat rlen) (nat plen) (st_heap s')) \<and> iso_ready iso \<and>
    grows (st_heap s) (is_buffer iso # stream_ptrs strm) (st_heap s') \<and>
    cam_cmds (ud_dev (dv_usb_cam dev)) (st_io s') =
      rev (map reg_cmd (on_regs dev)) @ cam_cmds (ud_dev (dv_usb_cam dev)) (st_io s) \<and>
    is_cb iso = Some cb \<and> is_num_xfers iso = 16 \<and> ((\<forall>h. 0 \<le> e_int E h) \<longrightarrow> is_dead_xfers iso = 0) \<and>
    submissions (st_io s') = map (\<lambda>i. (d, k, i)) (rev [0..<16]) @ submissions (st_io s) \<and>
    (\<exists>strm0 h1. stream_init (get dev) rlen plen (st_heap s) = Some (strm0, h1) \<and>
       strm = strm0\<lparr>ps_running := True\<rparr> \<and> extends h1 (st_heap s'))"
proof -
  obtain strm h1 where init: "stream_init (get dev) rlen plen (st_heap s) = Some (strm, h1)"
    and wf: "wf_stream strm h1" and g1: "grows (st_heap s) (stream_ptrs strm) h1"
    and bufs: "0 < rlen \<longrightarrow> bufs_ok strm (nat rlen) (nat plen) h1"
    using stream_init_ok [OF ok] by blast
  let ?s1 = "set_dev d (put strm dev) (s\<lparr>st_heap := h1\<rparr>)"
  obtain psz s2 where m: "fnusb_get_max_iso_packet_size E (dv_usb_cam dev) endpoint pktbuf ?s1 = (psz, s2)"
    by fastforce
  then have s2: "s2 = emit (IO_max_iso_packet_size (ud_dev (dv_usb_cam dev)) endpoint) ?s1"
    by (simp add: fnusb_get_max_iso_packet_size_def Let_def io_int_def)
  obtain buf h2 where ml: "malloc (nat (16 * 16 * psz)) (st_heap s2) = (buf, h2)" by fastforce
  have d2: "st_devs s2 d = Some (put strm dev)" by (simp add: s2)
  obtain iso io3 where st3: "fnusb_start_iso E d k cb endpoint 16 16 psz s2 =
      Some (0, set_dev d (set_isoc k iso (put strm dev)) (s2\<lparr>st_io := io3, st_heap := h2\<rparr>))"
    and started: "started E buf cb 16 16 psz (nat 16) iso"
    using fnusb_start_iso_ok [OF d2 _ ml, of E k cb endpoint] by auto
  let ?dev3 = "set_isoc k iso (put strm dev)" and ?s3 = "set_dev d (set_isoc k iso (put strm dev)) (s2\<lparr>st_io := io3, st_heap := h2\<rparr>)"
  have d3: "st_devs ?s3 d = Some ?dev3" by simp
  have cam3: "dv_usb_cam ?dev3 = dv_usb_cam dev" by (simp add: cam)
  obtain s4 t where w: "write_regs E d (on_regs dev) ?s3 = Some s4"
    "st_devs s4 = (st_devs ?s3)(d \<mapsto> ?dev3\<lparr>dv_cam_tag := t\<rparr>)" "st_heap s4 = h2"
    "cam_cmds (ud_dev (dv_usb_cam dev)) (st_io s4) =
      rev (map reg_cmd (on_regs dev)) @ cam_cmds (ud_dev (dv_usb_cam dev)) (st_io ?s3)"
    using write_regs_ok [OF d3, of E "on_regs dev", unfolded cam3, OF cam_open E] by auto
  let ?strm = "strm\<lparr>ps_running := True\<rparr>"
  have get4: "get (?dev3\<lparr>dv_cam_tag := t\<rparr>) = strm" by (simp add: get_tag get_isoc get_put)
  have dev4: "put ?strm (?dev3\<lparr>dv_cam_tag := t\<rparr>) = (put ?strm (set_isoc k iso dev))\<lparr>dv_cam_tag := t\<rparr>"
    by (simp add: put_tag put_isoc_swap put_put)
  let ?s5 = "set_dev d (put ?strm (?dev3\<lparr>dv_cam_tag := t\<rparr>)) s4"
  have d4: "st_devs s4 d = Some (?dev3\<lparr>dv_cam_tag := t\<rparr>)" using w(2) by simp
  have run: "run E d s = Some (0, ?s5)"
    using dev sz init m st3 w(1) d4 get4 by (simp add: run_eq)
  have devs: "st_devs ?s5 = (st_devs s)(d \<mapsto> (put ?strm (set_isoc k iso dev))\<lparr>dv_cam_tag := t\<rparr>)"
    using w(2) by (simp add: s2 dev4)
  have ml1: "malloc (nat (16 * 16 * psz)) h1 = (buf, h2)" using ml by (simp add: s2)
  have g2: "grows (st_heap s) (buf # stream_ptrs strm) h2" by (rule grows_malloc [OF g1 ml1])
  have ex: "extends h1 h2"
    using owned_malloc(3) [OF _ _ ml1, of "[]"] g1 by (simp add: grows_def extends_def)
  have log: "cam_cmds h (st_io s2) = cam_cmds h (st_io s)" for h by (simp add: s2)
  have "cam_cmds (ud_dev (dv_usb_cam dev)) (st_io ?s5) =
      rev (map reg_cmd (on_regs dev)) @ cam_cmds (ud_dev (dv_usb_cam dev)) (st_io s)"
    using w(4) start_iso_log [OF st3] log by simp
  moreover have "is_buffer iso = buf" "is_cb iso = Some cb" "is_num_xfers iso = 16"
    "(\<forall>h. 0 \<le> e_int E h) \<longrightarrow> is_dead_xfers iso = 0" using started al by (simp_all add: started_def)
  moreover have "submissions (st_io ?s5) = map (\<lambda>i. (d, k, i)) (rev [0..<16]) @ submissions (st_io s)"
    using logs_submissions [OF write_regs_logs [OF w(1)]] fnusb_start_iso_submits [OF st3 al] by (simp add: s2)
  moreover have "extends h1 (st_heap ?s5)" using ex w(3) by simp
  ultimately show ?thesis
    using init run devs wf_stream_extends [OF ex wf] stream_init_user [OF init] bufs bufs_ok_extends [OF ex] g2 w(3) started_ready [OF started] al
    by (intro exI [of _ ?s5] exI [of _ ?strm] exI [of _ iso] exI [of _ t]) simp
qed

lemma stop_ok:
  assumes dev: "st_devs s d = Some dev" and running: "ps_running (get dev)" and ready: "iso_ready (dev_isoc k dev)"
    and own: "owned (ptrs dev) (st_heap s)"
    and cam_open: "ud_dev (dv_usb_cam dev) \<noteq> None" and E: "answers E (dv_usb_cam dev)" "delivers E"
  shows "\<exists>s' iso t. stop E d s = Some (0, s') \<and>
    st_devs s' = (st_devs s)(d \<mapsto> put ((get dev)\<lparr>ps_running := False, ps_raw_buf := None, ps_proc_buf := None,
      ps_lib_buf := None\<rparr>) (clean ((put ((get dev)\<lparr>ps_running := False\<rparr>) (set_isoc k iso dev))\<lparr>dv_cam_tag := t\<rparr>))) \<and>
    hp_blocks (st_heap s') = without (ptrs dev) (hp_blocks (st_heap s))"
proof -
  let ?off = "(get dev)\<lparr>ps_running := False\<rparr>"
  let ?dev1 = "put ?off dev" and ?s1 = "set_dev d (put ((get dev)\<lparr>ps_running := False\<rparr>) dev) s"
  have d1: "st_devs ?s1 d = Some ?dev1" by simp
  have cam1: "dv_usb_cam ?dev1 = dv_usb_cam dev" by (simp add: cam)
  obtain s2 t where w: "write_regs E d off_regs ?s1 = Some s2"
    "st_devs s2 = (st_devs ?s1)(d \<mapsto> ?dev1\<lparr>dv_cam_tag := t\<rparr>)" "st_heap s2 = st_heap s"
    using write_regs_ok [OF d1, of E off_regs, unfolded cam1, OF cam_open E(1)] by auto
  let ?dev2 = "?dev1\<lparr>dv_cam_tag := t\<rparr>"
  have d2: "st_devs s2 d = Some ?dev2" using w(2) by simp
  have iso2: "dev_isoc k ?dev2 = dev_isoc k dev" by (simp add: put_isoc)
  obtain h1 where h1: "mfree (is_buffer (dev_isoc k dev)) (st_heap s) = Some h1"
    "owned (stream_ptrs (get dev)) h1" "hp_blocks h1 = without [is_buffer (dev_isoc k dev)] (hp_blocks (st_heap s))"
    using owned_mfree [OF own [unfolded ptrs_def]] by blast
  have "\<forall>i < nat (is_num_xfers (dev_isoc k ?dev2)). lookup (is_xfers (dev_isoc k ?dev2)) i = Some True"
    "0 \<le> is_dead_xfers (dev_isoc k ?dev2)" "mfree (is_buffer (dev_isoc k ?dev2)) (st_heap s2) = Some h1"
    using ready h1(1) w(3) unfolding iso2 iso_ready_def by simp_all
  from fnusb_stop_iso_dies [OF E(2) d2 this] obtain n io3 where
    st3: "fnusb_stop_iso E d k s2 = Some (0, set_dev d (set_isoc k ((dev_isoc k ?dev2)\<lparr>is_dead := True, is_dead_xfers := n\<rparr>) ?dev2)
        (s2\<lparr>st_io := io3, st_heap := h1\<rparr>))" by blast
  let ?iso = "(dev_isoc k ?dev2)\<lparr>is_dead := True, is_dead_xfers := n\<rparr>"
  let ?dev3 = "set_isoc k ?iso ?dev2" and ?s3 = "set_dev d (set_isoc k ((dev_isoc k ?dev2)\<lparr>is_dead := True, is_dead_xfers := n\<rparr>) ?dev2)
        (s2\<lparr>st_io := io3, st_heap := h1\<rparr>)"
  have get3: "get ?dev3 = ?off" by (simp add: get_isoc get_tag get_put)
  have dev3: "?dev3 = (put ?off (set_isoc k ?iso dev))\<lparr>dv_cam_tag := t\<rparr>"
    by (simp add: put_isoc_swap) (cases k; simp)
  from owned_freebufs [of ?off h1] h1(2) obtain h2 where
    h2: "stream_freebufs ?off h1 = Some (?off\<lparr>ps_raw_buf := None, ps_proc_buf := None, ps_lib_buf := None\<rparr>, h2)"
    "hp_blocks h2 = without (stream_ptrs (get dev)) (hp_blocks h1)" by auto
  let ?s4 = "set_dev d (put (?off\<lparr>ps_raw_buf := None, ps_proc_buf := None, ps_lib_buf := None\<rparr>) (clean ?dev3))
        (?s3\<lparr>st_heap := h2\<rparr>)"
  have "stop E d s = Some (0, ?s4)"
    using dev running w(1) st3 get3 h2(1) by (simp add: stop_eq Let_def)
  moreover have "st_devs ?s4 = (st_devs s)(d \<mapsto> put (?off\<lparr>ps_raw_buf := None, ps_proc_buf := None, ps_lib_buf := None\<rparr>)
      (clean ((put ?off (set_isoc k ?iso dev))\<lparr>dv_cam_tag := t\<rparr>)))"
    using w(2) unfolding dev3 [symmetric] by simp
  moreover have "hp_blocks (st_heap ?s4) = without (ptrs dev) (hp_blocks (st_heap s))"
    using h2(2) h1(3) by (simp add: without_without ptrs_def)
  ultimately have "stop E d s = Some (0, ?s4) \<and>
    st_devs ?s4 = (st_devs s)(d \<mapsto> put (?off\<lparr>ps_raw_buf := None, ps_proc_buf := None, ps_lib_buf := None\<rparr>)
      (clean ((put ?off (set_isoc k ?iso dev))\<lparr>dv_cam_tag := t\<rparr>))) \<and>
    hp_blocks (st_heap ?s4) = without (ptrs dev) (hp_blocks (st_heap s))" by blast
  moreover have "?off\<lparr>ps_raw_buf := None, ps_proc_buf := None, ps_lib_buf := None\<rparr> =
      (get dev)\<lparr>ps_running := False, ps_raw_buf := None, ps_proc_buf := None, ps_lib_buf := None\<rparr>" by simp
  ultimately show ?thesis by metis
qed

end

interpretation depth: frame_stream Iso_depth Cb_depth_process "0x82" DEPTH_PKTBUF dv_depth "\<lambda>x dev. dev\<lparr>dv_depth := x\<rparr>"
    depth_sizes "\<lambda>dev. depth_start_regs (dv_depth_format dev)" "[(0x06, 0x00)]"
    "\<lambda>dev. dev\<lparr>dv_registration := freenect_destroy_registration (dv_registration dev)\<rparr>"
    depth_run freenect_stop_depth
proof unfold_locales
  fix j strm x and dev :: freenect_device
  show "dv_depth (set_isoc j strm dev) = dv_depth dev" by (cases j) simp_all
  show "(set_isoc j strm dev)\<lparr>dv_depth := x\<rparr> = set_isoc j strm (dev\<lparr>dv_depth := x\<rparr>)" by (cases j) simp_all
qed (simp_all add: depth_run_def freenect_stop_depth_def)

interpretation video: frame_stream Iso_video Cb_video_process "0x81" VIDEO_PKTBUF dv_video "\<lambda>x dev. dev\<lparr>dv_video := x\<rparr>"
    video_sizes "\<lambda>dev. video_start_regs v (dv_video_format dev)" "[(0x05, 0x00)]" "\<lambda>dev. dev"
    "\<lambda>E d. video_run E d v" freenect_stop_video for v
proof unfold_locales
  fix j strm x and dev :: freenect_device
  show "dv_video (set_isoc j strm dev) = dv_video dev" by (cases j) simp_all
  show "(set_isoc j strm dev)\<lparr>dv_video := x\<rparr> = set_isoc j strm (dev\<lparr>dv_video := x\<rparr>)" by (cases j) simp_all
qed (simp_all add: video_run_def freenect_stop_video_def)

end
