(* ===== verification/Session.thy ===== *)
theory Session
  imports Camera
begin

text \<open>
  Sessions with the camera of a device (src/cameras.c): what starting and stopping the two frame
  streams establishes, the modes, and the commands that set up a camera.
\<close>

section \<open>A depth session\<close>

text \<open>Memory for the buffers of a stream, and a buffer of the user, if any, that is large enough.\<close>

definition start_mem :: "packet_stream \<Rightarrow> int \<Rightarrow> nat \<Rightarrow> heap \<Rightarrow> bool" where
  "start_mem strm plen avail h \<longleftrightarrow>
     heap_wf h \<and> avail \<le> hp_avail h \<and>
     (ps_usr_buf strm \<noteq> None \<longrightarrow> (\<exists>blk. mem_block (ps_usr_buf strm) h = Some blk \<and> plen \<le> int (length blk)))"

lemma start_mem_init_ok:
  assumes "start_mem strm plen avail h" and "0 < plen'" and "plen' \<le> plen" and "0 \<le> rlen" and "nat plen' + nat rlen \<le> avail"
    and "ps_usr_buf strm' = ps_usr_buf strm" and "0 < ps_pkt_size strm'"
    and "\<not> bit (ps_flag strm') 0" and "\<not> bit (ps_flag strm') 1" and "\<not> bit (ps_flag strm') 2"
  shows "init_ok strm' rlen plen' h"
  using assms by (fastforce simp: start_mem_def init_ok_def)

abbreviation depth_ptrs :: "freenect_device \<Rightarrow> ptr list" where
  "depth_ptrs dev \<equiv> is_buffer (dv_depth_isoc dev) # stream_ptrs (dv_depth dev)"

abbreviation video_ptrs :: "freenect_device \<Rightarrow> ptr list" where
  "video_ptrs dev \<equiv> is_buffer (dv_video_isoc dev) # stream_ptrs (dv_video dev)"

lemma depth_sizes_medium:
  assumes "dv_depth_resolution dev = FREENECT_RESOLUTION_MEDIUM" and "dv_depth_format dev \<noteq> FREENECT_DEPTH_DUMMY"
  shows "depth_sizes dev = Some (case dv_depth_format dev of
      FREENECT_DEPTH_10BIT \<Rightarrow> (384000, 614400) | FREENECT_DEPTH_11BIT_PACKED \<Rightarrow> (0, 422400)
    | FREENECT_DEPTH_10BIT_PACKED \<Rightarrow> (0, 384000) | _ \<Rightarrow> (422400, 614400))"
  using assms by (cases "dv_depth_format dev")
    (simp_all add: depth_sizes_def freenect_find_depth_mode_def supported_depth_modes_def mode_row_def
      MAKE_RESERVED_def Let_def)

text \<open>
  Starting needs \<open>N\<close> bytes in a buffer of the user, where \<open>N\<close> is at least the frame size of the mode.
\<close>

lemma freenect_start_depth_runs:
  assumes dev: "st_devs s d = Some dev" and idle: "\<not> ps_running (dv_depth dev)"
    and mode: "dv_depth_resolution dev = FREENECT_RESOLUTION_MEDIUM" "dv_depth_format dev \<noteq> FREENECT_DEPTH_DUMMY"
    and reg: "dv_depth_format dev = FREENECT_DEPTH_REGISTERED \<longrightarrow>
      registration_ok (dv_registration (freenect_init_registration E dev))"
    and mem: "start_mem (dv_depth dev) N 1036800 (st_heap s)" and N: "\<forall>rlen plen. depth_sizes dev = Some (rlen, plen) \<longrightarrow> plen \<le> N"
    and cam_open: "ud_dev (dv_usb_cam dev) \<noteq> None" and E: "answers E (dv_usb_cam dev)" "\<forall>h. e_alloc E h"
  shows "\<exists>s' strm iso t reg rlen plen strm0 h1. freenect_start_depth E d s = Some (0, s') \<and>
    st_devs s' = (st_devs s)(d \<mapsto> dev\<lparr>dv_registration := reg, dv_depth_isoc := iso, dv_depth := strm, dv_cam_tag := t\<rparr>) \<and>
    ps_running strm \<and> depth_inv (dev\<lparr>dv_registration := reg, dv_depth_isoc := iso, dv_depth := strm, dv_cam_tag := t\<rparr>) (st_heap s') \<and>
    iso_ready iso \<and> is_cb iso = Some Cb_depth_process \<and> is_num_xfers iso = 16 \<and> ((\<forall>h. 0 \<le> e_int E h) \<longrightarrow> is_dead_xfers iso = 0) \<and>
    submissions (st_io s') = map (\<lambda>i. (d, Iso_depth, i)) (rev [0..<16]) @ submissions (st_io s) \<and>
    grows (st_heap s) (is_buffer iso # stream_ptrs strm) (st_heap s') \<and>
    cam_cmds (ud_dev (dv_usb_cam dev)) (st_io s') =
      rev (map reg_cmd (depth_start_regs (dv_depth_format dev))) @ cam_cmds (ud_dev (dv_usb_cam dev)) (st_io s) \<and>
    reg = (if dv_depth_format dev = FREENECT_DEPTH_REGISTERED \<or> dv_depth_format dev = FREENECT_DEPTH_MM
           then dv_registration (freenect_init_registration E dev) else dv_registration dev) \<and>
    depth_sizes dev = Some (rlen, plen) \<and>
    stream_init ((dv_depth dev)\<lparr>ps_pkt_size := 1748, ps_flag := 0x70, ps_variable_length := False\<rparr>) rlen plen (st_heap s) =
      Some (strm0, h1) \<and> strm = strm0\<lparr>ps_running := True\<rparr> \<and> extends h1 (st_heap s') \<and>
    init_ok ((dv_depth dev)\<lparr>ps_pkt_size := 1748, ps_flag := 0x70, ps_variable_length := False\<rparr>) rlen plen (st_heap s) \<and>
    plen \<le> 614400"
proof -
  let ?strm = "(dv_depth dev)\<lparr>ps_pkt_size := 1748, ps_flag := 0x70, ps_variable_length := False\<rparr>"
  let ?mm = "dv_depth_format dev = FREENECT_DEPTH_REGISTERED \<or> dv_depth_format dev = FREENECT_DEPTH_MM"
  let ?dev1 = "if ?mm then freenect_init_registration E (dev\<lparr>dv_depth := ?strm\<rparr>) else dev\<lparr>dv_depth := ?strm\<rparr>"
  let ?s1 = "set_dev d ?dev1 s"
  have start: "freenect_start_depth E d s = depth_run E d ?s1"
    using dev idle mode by (simp add: freenect_start_depth_def)
  have fields: "dv_depth_format ?dev1 = dv_depth_format dev" "dv_depth_resolution ?dev1 = dv_depth_resolution dev"
    "dv_depth ?dev1 = ?strm" "dv_usb_cam ?dev1 = dv_usb_cam dev"
    "dv_registration ?dev1 = (if ?mm then dv_registration (freenect_init_registration E dev) else dv_registration dev)"
    by (simp_all add: freenect_init_registration_def)
  have other: "dv_user_data ?dev1 = dv_user_data dev" "dv_depth_cb ?dev1 = dv_depth_cb dev"
    by (simp_all add: freenect_init_registration_def)
  let ?ms = "case dv_depth_format dev of FREENECT_DEPTH_10BIT \<Rightarrow> (384000, 614400) | FREENECT_DEPTH_11BIT_PACKED \<Rightarrow> (0, 422400)
    | FREENECT_DEPTH_10BIT_PACKED \<Rightarrow> (0, 384000) | _ \<Rightarrow> (422400, 614400)"
  have vs: "depth_sizes ?dev1 = Some ?ms"
    using depth_sizes_medium [of ?dev1] mode unfolding fields by simp
  then obtain rlen plen where sz: "depth_sizes ?dev1 = Some (rlen, plen)" by (metis surj_pair)
  with vs have ms: "?ms = (rlen, plen)" by simp
  have szf: "depth_sizes dev = Some (rlen, plen)" using depth_sizes_medium [OF mode] ms by simp
  then have lens: "0 < plen" "plen \<le> N" "0 \<le> rlen" "nat plen + nat rlen \<le> 1036800" and le: "plen \<le> 614400"
    using ms mode(2) N by (auto split: freenect_depth_format.splits)
  have ok: "init_ok (dv_depth ?dev1) rlen plen (st_heap ?s1)"
    unfolding fields by (rule start_mem_init_ok [OF _ lens(1,2,3,4), of "dv_depth dev"])
      (use mem in \<open>simp_all add: bit_numeral_simps\<close>)
  have d1: "st_devs ?s1 d = Some ?dev1" by simp
  have okf: "init_ok ?strm rlen plen (st_heap s)" using ok unfolding fields by simp
  from depth.run_ok [OF d1 sz ok, unfolded fields, OF cam_open E] obtain s' strm iso t strm0 h1 where
    r: "depth_run E d ?s1 = Some (0, s')"
    "st_devs s' = (st_devs ?s1)(d \<mapsto> ((set_isoc Iso_depth iso ?dev1)\<lparr>dv_depth := strm\<rparr>)\<lparr>dv_cam_tag := t\<rparr>)"
    "ps_running strm" "wf_stream strm (st_heap s')" "0 < rlen \<longrightarrow> bufs_ok strm (nat rlen) (nat plen) (st_heap s')" "iso_ready iso"
    "grows (st_heap ?s1) (is_buffer iso # stream_ptrs strm) (st_heap s')"
    "cam_cmds (ud_dev (dv_usb_cam dev)) (st_io s') =
      rev (map reg_cmd (depth_start_regs (dv_depth_format dev))) @ cam_cmds (ud_dev (dv_usb_cam dev)) (st_io ?s1)"
    "is_cb iso = Some Cb_depth_process" "is_num_xfers iso = 16 \<and> ((\<forall>h. 0 \<le> e_int E h) \<longrightarrow> is_dead_xfers iso = 0) \<and>
      submissions (st_io s') = map (\<lambda>i. (d, Iso_depth, i)) (rev [0..<16]) @ submissions (st_io ?s1)"
    "stream_init ?strm rlen plen (st_heap ?s1) = Some (strm0, h1)"
    "strm = strm0\<lparr>ps_running := True\<rparr>" "extends h1 (st_heap s')"
    by blast
  define reg where "reg = dv_registration ?dev1"
  let ?dev' = "dev\<lparr>dv_registration := reg, dv_depth_isoc := iso, dv_depth := strm, dv_cam_tag := t\<rparr>"
  have dev': "((set_isoc Iso_depth iso ?dev1)\<lparr>dv_depth := strm\<rparr>)\<lparr>dv_cam_tag := t\<rparr> = ?dev'"
    by (simp add: reg_def freenect_init_registration_def)
  have reg': "reg = (if ?mm then dv_registration (freenect_init_registration E dev) else dv_registration dev)"
    using fields(5) by (simp add: reg_def)
  have "depth_inv ?dev' (st_heap s')"
    using r(4,5) ms mode(2) reg reg' complete_tables_ok
    by (auto simp: depth_inv_def freenect_init_registration_def split: freenect_depth_format.splits)
  moreover have "st_devs s' = (st_devs s)(d \<mapsto> ?dev')" using r(2) unfolding dev' by simp
  ultimately show ?thesis
    using start r(1,3,6-13) reg' szf okf le
    by (intro exI [of _ s'] exI [of _ strm] exI [of _ iso] exI [of _ t] exI [of _ reg] exI [of _ rlen] exI [of _ plen]
        exI [of _ strm0] exI [of _ h1]) simp
qed

lemma freenect_start_depth_ok:
  assumes dev: "st_devs s d = Some dev" and idle: "\<not> ps_running (dv_depth dev)"
    and mode: "dv_depth_resolution dev = FREENECT_RESOLUTION_MEDIUM" "dv_depth_format dev \<noteq> FREENECT_DEPTH_DUMMY"
    and reg: "dv_depth_format dev = FREENECT_DEPTH_REGISTERED \<longrightarrow>
      registration_ok (dv_registration (freenect_init_registration E dev))"
    and mem: "start_mem (dv_depth dev) N 1036800 (st_heap s)" and N: "\<forall>rlen plen. depth_sizes dev = Some (rlen, plen) \<longrightarrow> plen \<le> N"
    and cam_open: "ud_dev (dv_usb_cam dev) \<noteq> None" and E: "answers E (dv_usb_cam dev)" "\<forall>h. e_alloc E h"
  shows "\<exists>s' dev'. freenect_start_depth E d s = Some (0, s') \<and> st_devs s' = (st_devs s)(d \<mapsto> dev') \<and>
    ps_running (dv_depth dev') \<and> depth_inv dev' (st_heap s') \<and> iso_ready (dv_depth_isoc dev') \<and>
    grows (st_heap s) (depth_ptrs dev') (st_heap s') \<and> dv_usb_cam dev' = dv_usb_cam dev \<and>
    cam_cmds (ud_dev (dv_usb_cam dev)) (st_io s') =
      rev (map reg_cmd (depth_start_regs (dv_depth_format dev))) @ cam_cmds (ud_dev (dv_usb_cam dev)) (st_io s) \<and>
    (ps_usr_buf (dv_depth dev) \<noteq> None \<longrightarrow> ps_proc_buf (dv_depth dev') = ps_usr_buf (dv_depth dev)) \<and>
    (\<not> ps_split_bufs (dv_depth dev') \<longrightarrow> ps_raw_buf (dv_depth dev') = ps_proc_buf (dv_depth dev')) \<and>
    dv_user_data dev' = dv_user_data dev \<and> dv_depth_cb dev' = dv_depth_cb dev \<and>
    is_num_xfers (dv_depth_isoc dev') = 16 \<and> ((\<forall>h. 0 \<le> e_int E h) \<longrightarrow> is_dead_xfers (dv_depth_isoc dev') = 0) \<and>
    submissions (st_io s') = map (\<lambda>i. (d, Iso_depth, i)) (rev [0..<16]) @ submissions (st_io s)"
proof -
  let ?x = "(dv_depth dev)\<lparr>ps_pkt_size := 1748, ps_flag := 0x70, ps_variable_length := False\<rparr>"
  from freenect_start_depth_runs [OF assms] obtain s' strm iso t reg rlen plen strm0 h1 where
    r: "freenect_start_depth E d s = Some (0, s')"
    "st_devs s' = (st_devs s)(d \<mapsto> dev\<lparr>dv_registration := reg, dv_depth_isoc := iso, dv_depth := strm, dv_cam_tag := t\<rparr>)"
    "ps_running strm" "depth_inv (dev\<lparr>dv_registration := reg, dv_depth_isoc := iso, dv_depth := strm, dv_cam_tag := t\<rparr>) (st_heap s')"
    "iso_ready iso" "grows (st_heap s) (is_buffer iso # stream_ptrs strm) (st_heap s')"
    "cam_cmds (ud_dev (dv_usb_cam dev)) (st_io s') =
      rev (map reg_cmd (depth_start_regs (dv_depth_format dev))) @ cam_cmds (ud_dev (dv_usb_cam dev)) (st_io s)"
    "is_num_xfers iso = 16 \<and> ((\<forall>h. 0 \<le> e_int E h) \<longrightarrow> is_dead_xfers iso = 0) \<and>
      submissions (st_io s') = map (\<lambda>i. (d, Iso_depth, i)) (rev [0..<16]) @ submissions (st_io s)"
    "stream_init ?x rlen plen (st_heap s) = Some (strm0, h1)" "strm = strm0\<lparr>ps_running := True\<rparr>" by blast
  have "ps_usr_buf (dv_depth dev) \<noteq> None \<longrightarrow> ps_proc_buf strm = ps_usr_buf (dv_depth dev)"
    "\<not> ps_split_bufs strm \<longrightarrow> ps_raw_buf strm = ps_proc_buf strm"
    using stream_init_user [OF r(9)] r(10) by simp_all
  then show ?thesis
    using r(1-8) by (intro exI [of _ s'] exI [of _ "dev\<lparr>dv_registration := reg, dv_depth_isoc := iso, dv_depth := strm, dv_cam_tag := t\<rparr>"]) simp
qed

lemma depth_sizes_le:
  assumes "dv_depth_resolution dev = FREENECT_RESOLUTION_MEDIUM" and "dv_depth_format dev \<noteq> FREENECT_DEPTH_DUMMY"
  shows "\<forall>rlen plen. depth_sizes dev = Some (rlen, plen) \<longrightarrow> plen \<le> 614400"
  using depth_sizes_medium [OF assms] assms(2) by (auto split: freenect_depth_format.splits)

text \<open>
  C10. Starting the depth stream. On a device whose camera is open and answers, with memory for the
  buffers, a mode of the table and, for registered depth, a calibration that can be used
  (\<open>registration_ok\<close>), freenect_start_depth returns 0. It sends exactly the register
  writes of depth_start_regs, in that order; the device has the invariant on which the safety of
  depth_process rests; each of the 16 transfers of the stream was handed to libusb, once and in order,
  and none counts as dead when libusb refuses nothing; the memory has grown by exactly the blocks the
  device points to.
\<close>

theorem freenect_start_depth_correct:
  assumes "st_devs s d = Some dev" and "\<not> ps_running (dv_depth dev)"
    and "dv_depth_resolution dev = FREENECT_RESOLUTION_MEDIUM" and "dv_depth_format dev \<noteq> FREENECT_DEPTH_DUMMY"
    and "dv_depth_format dev = FREENECT_DEPTH_REGISTERED \<longrightarrow>
      registration_ok (dv_registration (freenect_init_registration E dev))"
    and "start_mem (dv_depth dev) 614400 1036800 (st_heap s)"
    and "ud_dev (dv_usb_cam dev) \<noteq> None" and "answers E (dv_usb_cam dev)" and "\<forall>h. e_alloc E h"
  shows "\<exists>s' dev'. freenect_start_depth E d s = Some (0, s') \<and> st_devs s' = (st_devs s)(d \<mapsto> dev') \<and>
    ps_running (dv_depth dev') \<and> depth_inv dev' (st_heap s') \<and> iso_ready (dv_depth_isoc dev') \<and>
    is_num_xfers (dv_depth_isoc dev') = 16 \<and>
    submissions (st_io s') = map (\<lambda>i. (d, Iso_depth, i)) (rev [0..<16]) @ submissions (st_io s) \<and>
    ((\<forall>h. 0 \<le> e_int E h) \<longrightarrow> is_dead_xfers (dv_depth_isoc dev') = 0) \<and>
    grows (st_heap s) (depth_ptrs dev') (st_heap s') \<and> dv_usb_cam dev' = dv_usb_cam dev \<and>
    cam_cmds (ud_dev (dv_usb_cam dev)) (st_io s') =
      rev (map reg_cmd (depth_start_regs (dv_depth_format dev))) @ cam_cmds (ud_dev (dv_usb_cam dev)) (st_io s)"
  using freenect_start_depth_ok [OF assms(1-6) depth_sizes_le [OF assms(3,4)] assms(7-9)] by blast

text \<open>
  Stopping the depth stream, after whatever happened meanwhile, as long as the stream runs and
  owns its blocks: freenect_stop_depth ends and returns 0, the memory is the old one without exactly
  these blocks, and the device keeps no pointer to a buffer or to a registration table.
\<close>

theorem freenect_stop_depth_frees:
  assumes dev: "st_devs s d = Some dev" "ps_running (dv_depth dev)" "iso_ready (dv_depth_isoc dev)"
    "owned (depth_ptrs dev) (st_heap s)" and cam: "ud_dev (dv_usb_cam dev) \<noteq> None" and E: "answers E (dv_usb_cam dev)" "delivers E"
  shows "\<exists>s' dev'. freenect_stop_depth E d s = Some (0, s') \<and> st_devs s' = (st_devs s)(d \<mapsto> dev') \<and>
    hp_blocks (st_heap s') = without (depth_ptrs dev) (hp_blocks (st_heap s)) \<and>
    \<not> ps_running (dv_depth dev') \<and>
    ps_raw_buf (dv_depth dev') = None \<and> ps_proc_buf (dv_depth dev') = None \<and> ps_lib_buf (dv_depth dev') = None \<and>
    rg_registration_table (dv_registration dev') = None \<and> rg_depth_to_rgb_shift (dv_registration dev') = None \<and>
    rg_raw_to_mm_shift (dv_registration dev') = None"
proof -
  have "iso_ready (dev_isoc Iso_depth dev)" "owned (depth.ptrs dev) (st_heap s)"
    using dev by (simp_all add: depth.ptrs_def)
  from depth.stop_ok [OF dev(1,2) this cam E] obtain s' iso t where
    "freenect_stop_depth E d s = Some (0, s')" "hp_blocks (st_heap s') = without (depth_ptrs dev) (hp_blocks (st_heap s))"
    "st_devs s' = (st_devs s)(d \<mapsto> dev\<lparr>dv_depth_isoc := iso, dv_cam_tag := t,
      dv_registration := freenect_destroy_registration (dv_registration dev),
      dv_depth := (dv_depth dev)\<lparr>ps_running := False, ps_raw_buf := None, ps_proc_buf := None, ps_lib_buf := None\<rparr>\<rparr>)"
    by (auto simp: depth.ptrs_def)
  then show ?thesis
    by (intro exI [of _ s'] exI [of _ "dev\<lparr>dv_depth_isoc := iso, dv_cam_tag := t,
      dv_registration := freenect_destroy_registration (dv_registration dev),
      dv_depth := (dv_depth dev)\<lparr>ps_running := False, ps_raw_buf := None, ps_proc_buf := None, ps_lib_buf := None\<rparr>\<rparr>"])
     (simp add: freenect_destroy_registration_def)
qed

text \<open>
  A depth session leaks nothing: starting the depth stream and stopping it again leaves exactly
  the blocks of memory that were there before, with their contents.
\<close>

theorem depth_session_leaks_nothing:
  assumes dev: "st_devs s d = Some dev" "\<not> ps_running (dv_depth dev)" "dv_depth_resolution dev = FREENECT_RESOLUTION_MEDIUM"
      "dv_depth_format dev \<noteq> FREENECT_DEPTH_DUMMY" "dv_depth_format dev = FREENECT_DEPTH_REGISTERED \<longrightarrow>
      registration_ok (dv_registration (freenect_init_registration E dev))"
    and mem: "start_mem (dv_depth dev) 614400 1036800 (st_heap s)"
    and E: "ud_dev (dv_usb_cam dev) \<noteq> None" "answers E (dv_usb_cam dev)" "\<forall>h. e_alloc E h" and del: "delivers E"
  shows "\<exists>s1 s2. freenect_start_depth E d s = Some (0, s1) \<and> freenect_stop_depth E d s1 = Some (0, s2) \<and>
    hp_blocks (st_heap s2) = hp_blocks (st_heap s)"
proof -
  from freenect_start_depth_ok [OF dev mem depth_sizes_le [OF dev(3,4)] E] obtain s1 dev1 where s1: "freenect_start_depth E d s = Some (0, s1)"
    "st_devs s1 = (st_devs s)(d \<mapsto> dev1)" "ps_running (dv_depth dev1)" "iso_ready (dv_depth_isoc dev1)"
    "grows (st_heap s) (depth_ptrs dev1) (st_heap s1)" "dv_usb_cam dev1 = dv_usb_cam dev" by blast
  have d1: "st_devs s1 d = Some dev1" using s1(2) by simp
  have "ud_dev (dv_usb_cam dev1) \<noteq> None" "answers E (dv_usb_cam dev1)" using E s1(6) by simp_all
  with depth.stop_ok [OF d1 s1(3) _ _ _ _ del] s1(4) grows_owned [OF s1(5)] obtain s2 where
    "freenect_stop_depth E d s1 = Some (0, s2)"
    "hp_blocks (st_heap s2) = without (depth_ptrs dev1) (hp_blocks (st_heap s1))"
    by (auto simp: depth.ptrs_def)
  with s1(1,5) show ?thesis by (auto simp: grows_def)
qed

section \<open>A video session\<close>

text \<open>The raw and processed sizes of the formats that video_registers accepts, in pixels \<open>n\<close>.\<close>

lemma video_sizes_mode:
  assumes "video_registers (dv_video_format dev) (dv_video_resolution dev) = Some v"
  shows "\<exists>m n. freenect_get_current_video_mode dev = Some m \<and> 0 < n \<and> n \<le> 1310720 \<and>
    nat (fm_width m * fm_height m) = n \<and> 8 dvd n \<and>
    video_sizes dev = Some (case dv_video_format dev of
        FREENECT_VIDEO_RGB \<Rightarrow> (int n, 3 * int n) | FREENECT_VIDEO_IR_8BIT \<Rightarrow> (int (n * 10 div 8), int n)
      | FREENECT_VIDEO_IR_10BIT \<Rightarrow> (int (n * 10 div 8), 2 * int n) | FREENECT_VIDEO_YUV_RGB \<Rightarrow> (2 * int n, 3 * int n)
      | _ \<Rightarrow> (0, fm_bytes m)) \<and> 0 < fm_bytes m \<and>
    (dv_video_format dev = FREENECT_VIDEO_YUV_RGB \<longrightarrow> n = 307200) \<and> fm_bytes m \<le> 3 * int n"
proof -
  have "dv_video_resolution dev = FREENECT_RESOLUTION_HIGH \<or> dv_video_resolution dev = FREENECT_RESOLUTION_MEDIUM"
    using assms by (auto simp: video_registers_def Let_def split: if_splits)
  then show ?thesis
    using assms by (elim disjE; cases "dv_video_format dev")
      (simp_all add: video_registers_def video_sizes_def freenect_get_current_video_mode_def freenect_find_video_mode_def
        supported_video_modes_def mode_row_def MAKE_RESERVED_def Let_def)
qed

definition ir_high :: "freenect_device \<Rightarrow> bool" where
  "ir_high dev \<longleftrightarrow> is_ir (dv_video_format dev) \<and> dv_video_resolution dev = FREENECT_RESOLUTION_HIGH"

lemma freenect_start_video_runs:
  assumes dev: "st_devs s d = Some dev" and idle: "\<not> ps_running (dv_video dev)"
    and mode: "video_registers (dv_video_format dev) (dv_video_resolution dev) = Some v"
    and ir: "ir_high dev \<longrightarrow> \<not> ps_running (dv_depth dev)"
    and mem: "start_mem (dv_video dev) 3932160 5242880 (st_heap s)"
    and cam_open: "ud_dev (dv_usb_cam dev) \<noteq> None" and E: "answers E (dv_usb_cam dev)" "\<forall>h. e_alloc E h"
  shows "\<exists>s' strm iso t rlen plen strm0 h1. freenect_start_video E d s = Some (0, s') \<and>
    st_devs s' = (st_devs s)(d \<mapsto> dev\<lparr>dv_video_isoc := iso, dv_video := strm, dv_cam_tag := t\<rparr>) \<and>
    ps_running strm \<and> video_inv (dev\<lparr>dv_video_isoc := iso, dv_video := strm, dv_cam_tag := t\<rparr>) (st_heap s') \<and>
    iso_ready iso \<and> is_cb iso = Some Cb_video_process \<and>
    grows (st_heap s) (is_buffer iso # stream_ptrs strm) (st_heap s') \<and>
    cam_cmds (ud_dev (dv_usb_cam dev)) (st_io s') =
      rev (map reg_cmd ((if ir_high dev then ir_workaround else []) @ video_start_regs v (dv_video_format dev))) @
        cam_cmds (ud_dev (dv_usb_cam dev)) (st_io s) \<and>
    video_sizes dev = Some (rlen, plen) \<and>
    stream_init ((dv_video dev)\<lparr>ps_pkt_size := 1908, ps_flag := 0x80, ps_variable_length := False\<rparr>) rlen plen (st_heap s) =
      Some (strm0, h1) \<and> strm = strm0\<lparr>ps_running := True\<rparr> \<and> extends h1 (st_heap s') \<and>
    init_ok ((dv_video dev)\<lparr>ps_pkt_size := 1908, ps_flag := 0x80, ps_variable_length := False\<rparr>) rlen plen (st_heap s) \<and>
    plen \<le> 3932160"
proof -
  let ?strm = "(dv_video dev)\<lparr>ps_pkt_size := 1908, ps_flag := 0x80, ps_variable_length := False\<rparr>"
  let ?h = "ud_dev (dv_usb_cam dev)" and ?dev1 = "dev\<lparr>dv_video := (dv_video dev)\<lparr>ps_pkt_size := 1908, ps_flag := 0x80, ps_variable_length := False\<rparr>\<rparr>"
  let ?s1 = "set_dev d ?dev1 s"
  have d1: "st_devs ?s1 d = Some ?dev1" by simp
  have pre: "\<exists>x t. (if ir_high dev then write_regs E d ir_workaround ?s1 else Some ?s1) = Some x \<and>
      st_devs x = (st_devs s)(d \<mapsto> ?dev1\<lparr>dv_cam_tag := t\<rparr>) \<and> st_heap x = st_heap s \<and>
      cam_cmds ?h (st_io x) = rev (map reg_cmd (if ir_high dev then ir_workaround else [])) @ cam_cmds ?h (st_io s)"
  proof (cases "ir_high dev")
    case True
    have "dv_usb_cam ?dev1 = dv_usb_cam dev" by simp
    from write_regs_ok [OF d1, of E ir_workaround, unfolded this, OF cam_open E(1)] obtain x t where
      "write_regs E d ir_workaround ?s1 = Some x" "st_devs x = (st_devs ?s1)(d \<mapsto> ?dev1\<lparr>dv_cam_tag := t\<rparr>)"
      "st_heap x = st_heap ?s1" "cam_cmds ?h (st_io x) = rev (map reg_cmd ir_workaround) @ cam_cmds ?h (st_io ?s1)"
      by blast
    then show ?thesis using True by (intro exI [of _ x] exI [of _ t]) simp
  next
    case False
    then show ?thesis by (intro exI [of _ ?s1] exI [of _ "dv_cam_tag dev"]) simp
  qed
  then obtain x t where x: "(if ir_high dev then write_regs E d ir_workaround ?s1 else Some ?s1) = Some x"
    "st_devs x = (st_devs s)(d \<mapsto> ?dev1\<lparr>dv_cam_tag := t\<rparr>)" "st_heap x = st_heap s"
    "cam_cmds ?h (st_io x) = rev (map reg_cmd (if ir_high dev then ir_workaround else [])) @ cam_cmds ?h (st_io s)" by blast
  let ?devx = "?dev1\<lparr>dv_cam_tag := t\<rparr>"
  have start: "freenect_start_video E d s = video_run E d v x"
    using dev idle mode ir x(1) by (auto simp: freenect_start_video_def ir_high_def Let_def)
  have dx: "st_devs x d = Some ?devx" using x(2) by simp
  have fields: "dv_video ?devx = ?strm" "dv_video_format ?devx = dv_video_format dev"
    "dv_video_resolution ?devx = dv_video_resolution dev" "dv_usb_cam ?devx = dv_usb_cam dev" by simp_all
  have cur: "freenect_get_current_video_mode y = freenect_get_current_video_mode dev"
    if "dv_video_format y = dv_video_format dev" "dv_video_resolution y = dv_video_resolution dev" for y
    using that by (simp add: freenect_get_current_video_mode_def)
  obtain m n where m: "freenect_get_current_video_mode dev = Some m" "0 < n" "n \<le> 1310720" "nat (fm_width m * fm_height m) = n"
    "8 dvd n" "0 < fm_bytes m" "dv_video_format dev = FREENECT_VIDEO_YUV_RGB \<longrightarrow> n = 307200" "fm_bytes m \<le> 3 * int n"
    and vs: "video_sizes ?devx = Some (case dv_video_format dev of
        FREENECT_VIDEO_RGB \<Rightarrow> (int n, 3 * int n) | FREENECT_VIDEO_IR_8BIT \<Rightarrow> (int (n * 10 div 8), int n)
      | FREENECT_VIDEO_IR_10BIT \<Rightarrow> (int (n * 10 div 8), 2 * int n) | FREENECT_VIDEO_YUV_RGB \<Rightarrow> (2 * int n, 3 * int n)
      | _ \<Rightarrow> (0, fm_bytes m))"
    using video_sizes_mode [of ?devx v] mode unfolding fields cur [OF fields(2,3)] by blast
  obtain rlen plen where sz: "video_sizes ?devx = Some (rlen, plen)" using vs by (metis surj_pair)
  have lens: "0 < plen" "plen \<le> 3932160" "0 \<le> rlen" "nat plen + nat rlen \<le> 5242880"
    using sz vs m by (auto split: freenect_video_format.splits)
  have ok: "init_ok (dv_video ?devx) rlen plen (st_heap x)"
    unfolding fields x(3) by (rule start_mem_init_ok [OF mem lens]) (simp_all add: bit_numeral_simps)
  have okf: "init_ok ?strm rlen plen (st_heap s)" using ok unfolding fields x(3) .
  have szf: "video_sizes dev = Some (rlen, plen)"
    using sz by (simp add: video_sizes_def freenect_get_current_video_mode_def)
  from video.run_ok [OF dx sz ok, unfolded fields, OF cam_open E] obtain s' strm iso t' strm0 h1 where
    r: "video_run E d v x = Some (0, s')"
    "st_devs s' = (st_devs x)(d \<mapsto> ((set_isoc Iso_video iso ?devx)\<lparr>dv_video := strm\<rparr>)\<lparr>dv_cam_tag := t'\<rparr>)"
    "ps_running strm" "wf_stream strm (st_heap s')"
    "0 < rlen \<longrightarrow> bufs_ok strm (nat rlen) (nat plen) (st_heap s')" "iso_ready iso"
    "grows (st_heap x) (is_buffer iso # stream_ptrs strm) (st_heap s')"
    "cam_cmds ?h (st_io s') = rev (map reg_cmd (video_start_regs v (dv_video_format dev))) @ cam_cmds ?h (st_io x)"
    "is_cb iso = Some Cb_video_process" "stream_init ?strm rlen plen (st_heap x) = Some (strm0, h1)"
    "strm = strm0\<lparr>ps_running := True\<rparr>" "extends h1 (st_heap s')"
    by blast
  let ?dev' = "dev\<lparr>dv_video_isoc := iso, dv_video := strm, dv_cam_tag := t'\<rparr>"
  have dev': "((set_isoc Iso_video iso ?devx)\<lparr>dv_video := strm\<rparr>)\<lparr>dv_cam_tag := t'\<rparr> = ?dev'" by simp
  have f': "dv_video ?dev' = strm" "dv_video_format ?dev' = dv_video_format dev"
    "freenect_get_current_video_mode ?dev' = Some m" using cur [of ?dev'] m(1) by simp_all
  have "video_inv ?dev' (st_heap s')"
    using r(4,5) sz vs m(2,4) unfolding video_inv_def f'
    by (auto simp: Let_def nat_mult_distrib split: freenect_video_format.splits)
  moreover have "st_devs s' = (st_devs s)(d \<mapsto> ?dev')" using r(2) x(2) unfolding dev' by simp
  moreover have "cam_cmds ?h (st_io s') = rev (map reg_cmd ((if ir_high dev then ir_workaround else []) @
      video_start_regs v (dv_video_format dev))) @ cam_cmds ?h (st_io s)"
    using r(8) x(4) by simp
  ultimately show ?thesis
    using start r(1,3,6,7,9-12) x(3) szf okf lens(2)
    by (intro exI [of _ s'] exI [of _ strm] exI [of _ iso] exI [of _ t'] exI [of _ rlen] exI [of _ plen]
        exI [of _ strm0] exI [of _ h1]) simp
qed

lemma freenect_start_video_ok:
  assumes dev: "st_devs s d = Some dev" and idle: "\<not> ps_running (dv_video dev)"
    and mode: "video_registers (dv_video_format dev) (dv_video_resolution dev) = Some v"
    and ir: "ir_high dev \<longrightarrow> \<not> ps_running (dv_depth dev)"
    and mem: "start_mem (dv_video dev) 3932160 5242880 (st_heap s)"
    and cam_open: "ud_dev (dv_usb_cam dev) \<noteq> None" and E: "answers E (dv_usb_cam dev)" "\<forall>h. e_alloc E h"
  shows "\<exists>s' dev'. freenect_start_video E d s = Some (0, s') \<and> st_devs s' = (st_devs s)(d \<mapsto> dev') \<and>
    ps_running (dv_video dev') \<and> video_inv dev' (st_heap s') \<and> iso_ready (dv_video_isoc dev') \<and>
    grows (st_heap s) (video_ptrs dev') (st_heap s') \<and> dv_usb_cam dev' = dv_usb_cam dev \<and>
    cam_cmds (ud_dev (dv_usb_cam dev)) (st_io s') =
      rev (map reg_cmd ((if ir_high dev then ir_workaround else []) @ video_start_regs v (dv_video_format dev))) @
        cam_cmds (ud_dev (dv_usb_cam dev)) (st_io s)"
proof -
  from freenect_start_video_runs [OF assms] obtain s' strm iso t where
    "freenect_start_video E d s = Some (0, s')"
    "st_devs s' = (st_devs s)(d \<mapsto> dev\<lparr>dv_video_isoc := iso, dv_video := strm, dv_cam_tag := t\<rparr>)"
    "ps_running strm" "video_inv (dev\<lparr>dv_video_isoc := iso, dv_video := strm, dv_cam_tag := t\<rparr>) (st_heap s')"
    "iso_ready iso" "grows (st_heap s) (is_buffer iso # stream_ptrs strm) (st_heap s')"
    "cam_cmds (ud_dev (dv_usb_cam dev)) (st_io s') =
      rev (map reg_cmd ((if ir_high dev then ir_workaround else []) @ video_start_regs v (dv_video_format dev))) @
        cam_cmds (ud_dev (dv_usb_cam dev)) (st_io s)" by blast
  then show ?thesis
    by (intro exI [of _ s'] exI [of _ "dev\<lparr>dv_video_isoc := iso, dv_video := strm, dv_cam_tag := t\<rparr>"]) simp
qed

text \<open>
  Starting the video stream. On a device whose camera is open and answers, in a mode of the
  table and, for high-resolution infrared, with the depth stream stopped, freenect_start_video
  returns 0. It sends exactly the registers that the switch over the format chooses, after the depth
  workaround where it is needed; the device has the invariant of video_process; every transfer is
  submitted and the memory has grown by exactly the blocks the device points to.
\<close>

theorem freenect_start_video_correct:
  assumes "st_devs s d = Some dev" and "\<not> ps_running (dv_video dev)"
    and "video_registers (dv_video_format dev) (dv_video_resolution dev) = Some v"
    and "ir_high dev \<longrightarrow> \<not> ps_running (dv_depth dev)"
    and "start_mem (dv_video dev) 3932160 5242880 (st_heap s)"
    and "ud_dev (dv_usb_cam dev) \<noteq> None" and "answers E (dv_usb_cam dev)" and "\<forall>h. e_alloc E h"
  shows "\<exists>s' dev'. freenect_start_video E d s = Some (0, s') \<and> st_devs s' = (st_devs s)(d \<mapsto> dev') \<and>
    ps_running (dv_video dev') \<and> video_inv dev' (st_heap s') \<and> iso_ready (dv_video_isoc dev') \<and>
    grows (st_heap s) (video_ptrs dev') (st_heap s') \<and> dv_usb_cam dev' = dv_usb_cam dev \<and>
    cam_cmds (ud_dev (dv_usb_cam dev)) (st_io s') =
      rev (map reg_cmd ((if ir_high dev then ir_workaround else []) @ video_start_regs v (dv_video_format dev))) @
        cam_cmds (ud_dev (dv_usb_cam dev)) (st_io s)"
  using assms by (rule freenect_start_video_ok)

text \<open>
  High-resolution infrared is refused while the depth stream runs, and the other way it is not
  possible either to start a stream twice: nothing is sent to the camera.
\<close>

theorem freenect_start_video_refused:
  assumes "st_devs s d = Some dev"
    and "ps_running (dv_video dev) \<or> (ir_high dev \<and> ps_running (dv_depth dev)) \<or>
      video_registers (dv_video_format dev) (dv_video_resolution dev) = None"
  shows "\<exists>s'. freenect_start_video E d s = Some (-1, s') \<and> st_io s' = st_io s \<and> st_heap s' = st_heap s"
  using assms by (cases "ps_running (dv_video dev)")
    (auto simp: freenect_start_video_def ir_high_def Let_def split: option.split)


lemma freenect_stop_video_ok:
  assumes dev: "st_devs s d = Some dev" "ps_running (dv_video dev)" "iso_ready (dv_video_isoc dev)"
    "owned (video_ptrs dev) (st_heap s)" and cam: "ud_dev (dv_usb_cam dev) \<noteq> None" and E: "answers E (dv_usb_cam dev)" "delivers E"
  shows "\<exists>s' dev'. freenect_stop_video E d s = Some (0, s') \<and> st_devs s' = (st_devs s)(d \<mapsto> dev') \<and>
    hp_blocks (st_heap s') = without (video_ptrs dev) (hp_blocks (st_heap s)) \<and>
    \<not> ps_running (dv_video dev') \<and> ps_raw_buf (dv_video dev') = None \<and> ps_proc_buf (dv_video dev') = None \<and>
    ps_lib_buf (dv_video dev') = None"
proof -
  have "iso_ready (dev_isoc Iso_video dev)" "owned (video.ptrs dev) (st_heap s)"
    using dev by (simp_all add: video.ptrs_def)
  from video.stop_ok [OF dev(1,2) this cam E] obtain s' iso t where
    "freenect_stop_video E d s = Some (0, s')" "hp_blocks (st_heap s') = without (video_ptrs dev) (hp_blocks (st_heap s))"
    "st_devs s' = (st_devs s)(d \<mapsto> dev\<lparr>dv_video_isoc := iso, dv_cam_tag := t,
      dv_video := (dv_video dev)\<lparr>ps_running := False, ps_raw_buf := None, ps_proc_buf := None, ps_lib_buf := None\<rparr>\<rparr>)"
    by (auto simp: video.ptrs_def)
  then show ?thesis
    by (intro exI [of _ s'] exI [of _ "dev\<lparr>dv_video_isoc := iso, dv_cam_tag := t,
      dv_video := (dv_video dev)\<lparr>ps_running := False, ps_raw_buf := None, ps_proc_buf := None, ps_lib_buf := None\<rparr>\<rparr>"]) simp
qed

text \<open>
  A video session leaks nothing: starting the video stream and stopping it again leaves exactly
  the blocks of memory that were there before, with their contents.
\<close>

theorem video_session_leaks_nothing:
  assumes dev: "st_devs s d = Some dev" "\<not> ps_running (dv_video dev)"
      "video_registers (dv_video_format dev) (dv_video_resolution dev) = Some v" "ir_high dev \<longrightarrow> \<not> ps_running (dv_depth dev)"
    and mem: "start_mem (dv_video dev) 3932160 5242880 (st_heap s)"
    and E: "ud_dev (dv_usb_cam dev) \<noteq> None" "answers E (dv_usb_cam dev)" "\<forall>h. e_alloc E h" and del: "delivers E"
  shows "\<exists>s1 s2. freenect_start_video E d s = Some (0, s1) \<and> freenect_stop_video E d s1 = Some (0, s2) \<and>
    hp_blocks (st_heap s2) = hp_blocks (st_heap s)"
proof -
  from freenect_start_video_ok [OF dev mem E] obtain s1 dev1 where s1: "freenect_start_video E d s = Some (0, s1)"
    "st_devs s1 = (st_devs s)(d \<mapsto> dev1)" "ps_running (dv_video dev1)" "iso_ready (dv_video_isoc dev1)"
    "grows (st_heap s) (video_ptrs dev1) (st_heap s1)" "dv_usb_cam dev1 = dv_usb_cam dev" by blast
  have d1: "st_devs s1 d = Some dev1" using s1(2) by simp
  have "ud_dev (dv_usb_cam dev1) \<noteq> None" "answers E (dv_usb_cam dev1)" using E s1(6) by simp_all
  from freenect_stop_video_ok [OF d1 s1(3,4) grows_owned [OF s1(5)] this del] s1(1,5)
  show ?thesis by (auto simp: grows_def)
qed

section \<open>Modes\<close>

text \<open>
  freenect_set_depth_mode accepts a mode exactly when the stream is stopped and the reserved
  word of the mode is in the table. Then that line of the table is the current mode; otherwise
  nothing changes.
\<close>

theorem freenect_set_depth_mode_correct:
  assumes dev: "st_devs s d = Some dev"
  shows "\<exists>r s'. freenect_set_depth_mode d mode s = Some (r, s') \<and>
    (r = 0 \<longleftrightarrow> \<not> ps_running (dv_depth dev) \<and> (\<exists>m \<in> set supported_depth_modes. fm_reserved m = fm_reserved mode)) \<and>
    (if r = 0 then \<exists>dev' m. s' = set_dev d dev' s \<and> freenect_get_current_depth_mode dev' = Some m \<and>
       fm_reserved m = fm_reserved mode \<and> dev'\<lparr>dv_depth_format := dv_depth_format dev, dv_depth_resolution := dv_depth_resolution dev\<rparr> = dev
     else r = -1 \<and> s' = s)"
proof (cases "ps_running (dv_depth dev) \<or> set_depth_mode_check mode = None")
  case True
  then show ?thesis using dev dep.check_None_iff [of mode]
    by (cases "ps_running (dv_depth dev)") (auto simp: freenect_set_depth_mode_def)
next
  case False
  then obtain r f where c: "set_depth_mode_check mode = Some (r, f)" by auto
  from dep.check_SomeD [OF c] obtain m where m: "m \<in> set supported_depth_modes" "fm_reserved m = fm_reserved mode"
    "freenect_find_depth_mode r f = Some m" by blast
  let ?dev' = "dev\<lparr>dv_depth_format := f, dv_depth_resolution := r\<rparr>"
  have "freenect_set_depth_mode d mode s = Some (0, set_dev d ?dev' s)"
    using False c dev by (simp add: freenect_set_depth_mode_def)
  moreover have "freenect_get_current_depth_mode ?dev' = Some m" using m(3) by (simp add: freenect_get_current_depth_mode_def)
  ultimately show ?thesis using False m(1,2)
    by (intro exI [of _ 0] exI [of _ "set_dev d ?dev' s"]) auto
qed

section \<open>Fetching the calibration\<close>

text \<open>
  The effect of a fetch: one command was sent, and only the tag and the registration of the device
  have changed.
\<close>

definition fetched :: "nat \<Rightarrow> u16 \<times> u8 list \<Rightarrow> freenect_device \<Rightarrow> st \<Rightarrow> freenect_device \<Rightarrow> st \<Rightarrow> bool" where
  "fetched d c dev s dev' s' \<longleftrightarrow>
     (\<exists>t reg. dev' = dev\<lparr>dv_cam_tag := t, dv_registration := reg\<rparr>) \<and> st_devs s' = (st_devs s)(d \<mapsto> dev') \<and>
     st_heap s' = st_heap s \<and> st_ctx s' = st_ctx s \<and>
     cam_cmds (ud_dev (dv_usb_cam dev)) (st_io s') = c # cam_cmds (ud_dev (dv_usb_cam dev)) (st_io s)"

lemma fetched_send:
  assumes send: "send_cmd E d cmd buf n s = Some (r, s1)" and dev: "st_devs s d = Some dev"
    and buf: "even (length buf)" "length buf \<le> 0x400 - 8" and s': "s' = s1 \<or> upd_registration d f s1 = Some s'"
  shows "\<exists>dev'. fetched d (cmd, buf) dev s dev' s'"
proof -
  obtain t where t: "st_devs s1 = (st_devs s)(d \<mapsto> dev\<lparr>dv_cam_tag := t\<rparr>)" "st_heap s1 = st_heap s" "st_ctx s1 = st_ctx s"
    using send_cmd_step [OF send] dev by (auto simp: cmd_step_def)
  note log = send_cmd_log [OF send dev buf]
  from s' show ?thesis
  proof
    assume "s' = s1"
    then have "fetched d (cmd, buf) dev s (dev\<lparr>dv_cam_tag := t\<rparr>) s'"
      using t log unfolding fetched_def
      by (intro conjI exI [of _ t] exI [of _ "dv_registration dev"]) (simp_all del: fun_upd_apply)
    then show ?thesis ..
  next
    assume "upd_registration d f s1 = Some s'"
    then have "s' = set_dev d (dev\<lparr>dv_cam_tag := t, dv_registration := f (dv_registration dev)\<rparr>) s1"
      using t(1) by (simp add: upd_registration_def)
    then have "fetched d (cmd, buf) dev s (dev\<lparr>dv_cam_tag := t, dv_registration := f (dv_registration dev)\<rparr>) s'"
      using t log unfolding fetched_def by (auto simp del: fun_upd_apply)
    then show ?thesis ..
  qed
qed

lemma length_algorithm_params [simp]: "length (algorithm_params p dev h) = 10"
  by (simp add: algorithm_params_def split: option.split)

lemma fetch_reg_info_step:
  assumes "freenect_fetch_reg_info E d s = Some (r, s')" and dev: "st_devs s d = Some dev"
  shows "\<exists>dev'. fetched d (0x16, algorithm_params 0x40 dev (st_heap s)) dev s dev' s'"
proof -
  from assms obtain x s1 where send: "send_cmd E d 0x16 (algorithm_params 0x40 dev (st_heap s)) 118 s = Some (x, s1)"
    and "s' = s1 \<or> (\<exists>f. upd_registration d f s1 = Some s')"
    by (auto simp: freenect_fetch_reg_info_def split: Option.bind_splits if_splits prod.splits)
  with fetched_send [OF send dev] show ?thesis by fastforce
qed

lemma fetch_reg_pad_info_step:
  assumes "freenect_fetch_reg_pad_info E d s = Some (r, s')" and dev: "st_devs s d = Some dev"
  shows "\<exists>dev'. fetched d (0x16, algorithm_params 0x41 dev (st_heap s)) dev s dev' s'"
proof -
  from assms obtain x s1 where send: "send_cmd E d 0x16 (algorithm_params 0x41 dev (st_heap s)) 8 s = Some (x, s1)"
    and "s' = s1 \<or> (\<exists>f. upd_registration d f s1 = Some s')"
    by (auto simp: freenect_fetch_reg_pad_info_def split: Option.bind_splits if_splits prod.splits)
  with fetched_send [OF send dev] show ?thesis by fastforce
qed

lemma fetch_reg_const_shift_step:
  assumes "freenect_fetch_reg_const_shift E d s = Some (r, s')" and dev: "st_devs s d = Some dev"
  shows "\<exists>dev'. fetched d (0x16, algorithm_params 0x00 dev (st_heap s)) dev s dev' s'"
proof -
  from assms obtain x s1 where send: "send_cmd E d 0x16 (algorithm_params 0x00 dev (st_heap s)) 4 s = Some (x, s1)"
    and "s' = s1 \<or> (\<exists>f. upd_registration d f s1 = Some s')"
    by (auto simp: freenect_fetch_reg_const_shift_def split: Option.bind_splits if_splits prod.splits)
  with fetched_send [OF send dev] show ?thesis by fastforce
qed

lemma fetch_zero_plane_info_step:
  assumes "freenect_fetch_zero_plane_info E d s = Some (r, s')" and dev: "st_devs s d = Some dev"
  shows "\<exists>dev'. fetched d (0x04, replicate 10 0) dev s dev' s'"
proof -
  from assms obtain x s1 where send: "send_cmd E d 0x04 (replicate 10 0) (cx_zero_plane_res (st_ctx s)) s = Some (x, s1)"
    and "s' = s1 \<or> (\<exists>f. upd_registration d f s1 = Some s')"
    by (auto simp: freenect_fetch_zero_plane_info_def Let_def split: Option.bind_splits if_splits prod.splits)
  with fetched_send [OF send dev] show ?thesis by fastforce
qed

lemma fetchedD:
  assumes "fetched d c dev s dev' s'"
  shows "st_devs s' = (st_devs s)(d \<mapsto> dev')" and "st_devs s' d = Some dev'" and "st_heap s' = st_heap s" and "st_ctx s' = st_ctx s"
    and "cam_cmds (ud_dev (dv_usb_cam dev)) (st_io s') = c # cam_cmds (ud_dev (dv_usb_cam dev)) (st_io s)"
    and "dv_usb_cam dev' = dv_usb_cam dev" and "dv_depth dev' = dv_depth dev" and "dv_video dev' = dv_video dev"
    and "dv_video_format dev' = dv_video_format dev" and "dv_video_resolution dev' = dv_video_resolution dev"
    and "dv_depth_format dev' = dv_depth_format dev" and "dv_depth_resolution dev' = dv_depth_resolution dev"
  using assms by (auto simp: fetched_def)

text \<open>Setting a video mode of the table sends one command, with the parameters of the new mode.\<close>

lemma freenect_set_video_mode_step:
  assumes run: "freenect_set_video_mode E d mode s = Some (r, s')" and dev: "st_devs s d = Some dev"
    and idle: "\<not> ps_running (dv_video dev)" and c: "set_video_mode_check mode = Some (res, fmt)"
  shows "r = 0 \<and> (\<exists>dev'. fetched d (0x16, algorithm_params 0x40 (dev\<lparr>dv_video_format := fmt, dv_video_resolution := res\<rparr>) (st_heap s))
    (dev\<lparr>dv_video_format := fmt, dv_video_resolution := res\<rparr>) (set_dev d (dev\<lparr>dv_video_format := fmt, dv_video_resolution := res\<rparr>) s) dev' s')"
proof -
  let ?dev1 = "dev\<lparr>dv_video_format := fmt, dv_video_resolution := res\<rparr>"
  from run dev idle c obtain r' where r: "r = 0" "freenect_fetch_reg_info E d (set_dev d ?dev1 s) = Some (r', s')"
    by (auto simp: freenect_set_video_mode_def Let_def split: Option.bind_splits prod.splits)
  from fetch_reg_info_step [OF r(2), of ?dev1] r(1) show ?thesis by simp
qed

text \<open>What setting up a camera does, from any mode.\<close>

lemma camera_init_run:
  assumes init: "freenect_camera_init E d s = Some (0, s')" and dev: "st_devs s d = Some dev"
    and new: "\<not> ps_running (dv_video dev)" "\<not> ps_running (dv_depth dev)"
  shows "\<exists>dev' t reg. st_devs s' = (st_devs s)(d \<mapsto> dev') \<and> st_heap s' = st_heap s \<and> st_ctx s' = st_ctx s \<and>
    dev' = dev\<lparr>dv_cam_tag := t, dv_registration := reg,
      dv_video_format := FREENECT_VIDEO_RGB, dv_video_resolution := FREENECT_RESOLUTION_MEDIUM,
      dv_depth_format := FREENECT_DEPTH_11BIT, dv_depth_resolution := FREENECT_RESOLUTION_MEDIUM\<rparr> \<and>
    cam_cmds (ud_dev (dv_usb_cam dev)) (st_io s') =
      [(0x16, le16 0x00 @ le16 0 @ le16 1 @ le16 30 @ le16 0),
       (0x16, le16 0x40 @ le16 0 @ le16 1 @ le16 30 @ le16 0),
       (0x04, replicate 10 0),
       (0x16, algorithm_params 0x41 dev (st_heap s))] @
      cam_cmds (ud_dev (dv_usb_cam dev)) (st_io s)"
proof -
  let ?h = "ud_dev (dv_usb_cam dev)"
  obtain vmode where vm: "freenect_find_video_mode FREENECT_RESOLUTION_MEDIUM FREENECT_VIDEO_RGB = Some vmode"
    "fm_resolution vmode = FREENECT_RESOLUTION_MEDIUM" "fm_framerate vmode = 30"
    "set_video_mode_check vmode = Some (FREENECT_RESOLUTION_MEDIUM, FREENECT_VIDEO_RGB)"
    by (simp add: freenect_find_video_mode_def supported_video_modes_def mode_row_def MAKE_RESERVED_def Let_def
      set_video_mode_check_def RESERVED_TO_RESOLUTION_def RESERVED_TO_FORMAT_def resolution_of_def video_format_of_def)
  obtain dmode where dm: "freenect_find_depth_mode FREENECT_RESOLUTION_MEDIUM FREENECT_DEPTH_11BIT = Some dmode"
    "set_depth_mode_check dmode = Some (FREENECT_RESOLUTION_MEDIUM, FREENECT_DEPTH_11BIT)"
    by (simp add: freenect_find_depth_mode_def supported_depth_modes_def mode_row_def MAKE_RESERVED_def Let_def
      set_depth_mode_check_def RESERVED_TO_RESOLUTION_def RESERVED_TO_FORMAT_def resolution_of_def depth_format_of_def)
  from init vm(1) dm(1) obtain r1 s1 r2 s2 r3 s3 r4 s4 where
    run: "freenect_fetch_reg_pad_info E d s = Some (r1, s1)" "freenect_fetch_zero_plane_info E d s1 = Some (r2, s2)"
    "freenect_set_video_mode E d vmode s2 = Some (r3, s3)" "freenect_set_depth_mode d dmode s3 = Some (r4, s4)"
    "\<exists>r5. freenect_fetch_reg_const_shift E d s4 = Some (r5, s')"
    by (auto simp: freenect_camera_init_def split: Option.bind_splits if_splits prod.splits)
  obtain dev1 where 1: "fetched d (0x16, algorithm_params 0x41 dev (st_heap s)) dev s dev1 s1"
    using fetch_reg_pad_info_step [OF run(1) dev] by blast
  note f1 = fetchedD [OF 1]
  obtain dev2 where 2: "fetched d (0x04, replicate 10 0) dev1 s1 dev2 s2"
    using fetch_zero_plane_info_step [OF run(2) f1(2)] by blast
  note f2 = fetchedD [OF 2]
  have idle2: "\<not> ps_running (dv_video dev2)" using f2(8) f1(8) new(1) by simp
  let ?dv = "dev2\<lparr>dv_video_format := FREENECT_VIDEO_RGB, dv_video_resolution := FREENECT_RESOLUTION_MEDIUM\<rparr>"
  obtain dev3 where 3: "fetched d (0x16, algorithm_params 0x40 ?dv (st_heap s2)) ?dv (set_dev d ?dv s2) dev3 s3"
    using freenect_set_video_mode_step [OF run(3) f2(2) idle2 vm(4)] by blast
  note f3 = fetchedD [OF 3]
  have "\<not> ps_running (dv_depth dev3)" using f3(7) f2(7) f1(7) new(2) by simp
  then have s4: "s4 = set_dev d (dev3\<lparr>dv_depth_format := FREENECT_DEPTH_11BIT, dv_depth_resolution := FREENECT_RESOLUTION_MEDIUM\<rparr>) s3"
    using run(4) f3(2) dm(2) by (simp add: freenect_set_depth_mode_def)
  let ?dd = "dev3\<lparr>dv_depth_format := FREENECT_DEPTH_11BIT, dv_depth_resolution := FREENECT_RESOLUTION_MEDIUM\<rparr>"
  have d4: "st_devs s4 d = Some ?dd" by (simp add: s4)
  obtain dev5 where 5: "fetched d (0x16, algorithm_params 0x00 ?dd (st_heap s4)) ?dd s4 dev5 s'"
    using fetch_reg_const_shift_step [OF _ d4] run(5) by blast
  note f5 = fetchedD [OF 5]
  have p: "algorithm_params c y h = le16 c @ le16 0 @ le16 1 @ le16 30 @ le16 0"
    if "dv_video_format y = FREENECT_VIDEO_RGB" "dv_video_resolution y = FREENECT_RESOLUTION_MEDIUM" for c y h
    using that vm by (simp add: algorithm_params_def freenect_get_current_video_mode_def)
  have "cam_cmds ?h (st_io s') =
      [(0x16, le16 0x00 @ le16 0 @ le16 1 @ le16 30 @ le16 0), (0x16, le16 0x40 @ le16 0 @ le16 1 @ le16 30 @ le16 0),
       (0x04, replicate 10 0), (0x16, algorithm_params 0x41 dev (st_heap s))] @ cam_cmds ?h (st_io s)"
    using f1(5,6) f2(5,6) f3(5,6,9,10) f5(5) by (simp add: p s4)
  moreover have "st_devs s' = (st_devs s)(d \<mapsto> dev5)" using f1(1) f2(1) f3(1) f5(1) by (simp add: s4)
  moreover have "st_heap s' = st_heap s" "st_ctx s' = st_ctx s" using f1(3,4) f2(3,4) f3(3,4) f5(3,4) by (simp_all add: s4)
  moreover have "\<exists>t reg. dev5 = dev\<lparr>dv_cam_tag := t, dv_registration := reg,
      dv_video_format := FREENECT_VIDEO_RGB, dv_video_resolution := FREENECT_RESOLUTION_MEDIUM,
      dv_depth_format := FREENECT_DEPTH_11BIT, dv_depth_resolution := FREENECT_RESOLUTION_MEDIUM\<rparr>"
  proof -
    from 1 2 3 5 obtain t1 r1 t2 r2 t3 r3 t5 r5 where "dev1 = dev\<lparr>dv_cam_tag := t1, dv_registration := r1\<rparr>"
      "dev2 = dev1\<lparr>dv_cam_tag := t2, dv_registration := r2\<rparr>" "dev3 = ?dv\<lparr>dv_cam_tag := t3, dv_registration := r3\<rparr>"
      "dev5 = ?dd\<lparr>dv_cam_tag := t5, dv_registration := r5\<rparr>" unfolding fetched_def by blast
    then show ?thesis by (intro exI [of _ t5] exI [of _ r5]) simp
  qed
  ultimately show ?thesis by blast
qed

text \<open>
  C31. Setting up a camera. When freenect_camera_init succeeds on a new device, the device is in the
  modes 640x480 RGB and 640x480 11 bit, and exactly four commands were sent: pad info, zero plane,
  registration info and constant shift. The last two carry the resolution and the frame rate of the
  current video mode. The first is sent before a mode is set; the device is then in a mode that is
  not in the table, and the command carries four bytes of uninitialised stack memory in their place.
\<close>

theorem freenect_camera_init_commands:
  assumes init: "freenect_camera_init E d s = Some (0, s')" and dev: "st_devs s d = Some dev"
    and new: "dv_video_resolution dev = FREENECT_RESOLUTION_LOW" "\<not> ps_running (dv_video dev)" "\<not> ps_running (dv_depth dev)"
  shows "\<exists>dev'. st_devs s' = (st_devs s)(d \<mapsto> dev') \<and>
    dv_video_resolution dev' = FREENECT_RESOLUTION_MEDIUM \<and> dv_video_format dev' = FREENECT_VIDEO_RGB \<and>
    dv_depth_resolution dev' = FREENECT_RESOLUTION_MEDIUM \<and> dv_depth_format dev' = FREENECT_DEPTH_11BIT \<and>
    cam_cmds (ud_dev (dv_usb_cam dev)) (st_io s') =
      [(0x16, le16 0x00 @ le16 0 @ le16 1 @ le16 30 @ le16 0),
       (0x16, le16 0x40 @ le16 0 @ le16 1 @ le16 30 @ le16 0),
       (0x04, replicate 10 0),
       (0x16, le16 0x41 @ le16 0 @ replicate 4 (hp_fill (st_heap s)) @ le16 0)] @
      cam_cmds (ud_dev (dv_usb_cam dev)) (st_io s)"
proof -
  have "freenect_get_current_video_mode dev = None"
    using new(1) by (cases "dv_video_format dev")
      (simp_all add: freenect_get_current_video_mode_def freenect_find_video_mode_def supported_video_modes_def
        mode_row_def MAKE_RESERVED_def Let_def)
  then have p1: "algorithm_params 0x41 dev (st_heap s) = le16 0x41 @ le16 0 @ replicate 4 (hp_fill (st_heap s)) @ le16 0"
    by (simp add: algorithm_params_def)
  with camera_init_run [OF init dev new(2,3)] show ?thesis by fastforce
qed

section \<open>A camera for the witnesses\<close>

text \<open>It accepts every request and answers each with its own header and as many zero bytes as the command has.\<close>

primrec last_request :: "io list \<Rightarrow> u8 list" where
  "last_request [] = []"
| "last_request (ev # io) =
     (case ev of IO_control h rt rq v i obuf n \<Rightarrow> if rt = 0x40 then obuf else last_request io | _ \<Rightarrow> last_request io)"

definition camera_payload :: "u8 list \<Rightarrow> u8 list" where
  "camera_payload obuf = replicate
     (if get16 obuf 4 = 0x04 then 322
      else if get16 obuf 4 = 0x16 then (if get16 obuf 8 = 0x41 then 8 else if get16 obuf 8 = 0x40 then 118 else 4)
      else 2) 0"

definition camera_control :: "io list \<Rightarrow> int \<times> u8 list" where
  "camera_control h =
     (case h of
       IO_control _ rt _ _ _ _ n # _ \<Rightarrow>
         if rt = 0x40 then (int n, [])
         else (let obuf = last_request h; p = camera_payload obuf
               in (int (8 + length p), [0x52, 0x42] @ le16 (of_nat (length p div 2)) @ take 4 (drop 4 obuf) @ p))
     | _ \<Rightarrow> (0, []))"

definition camera_env :: env where
  "camera_env = iso_env\<lparr>e_control := camera_control\<rparr>"

lemma camera_env_control: "e_control camera_env = camera_control"
  by (simp add: camera_env_def)

lemma camera_control_answers: "e_control E = camera_control \<Longrightarrow> answers E cam"
  by (simp add: answers_def poll_answer_def camera_control_def no_answer_def Let_def camera_payload_def)

lemma camera_env_answers: "answers camera_env cam"
  by (rule camera_control_answers [OF camera_env_control])

lemma camera_env_delivers: "delivers camera_env"
proof -
  have e: "e_events camera_env = e_events iso_env" by (simp add: camera_env_def)
  from iso_env_delivers show ?thesis unfolding delivers_def silent_turn_cong [OF e] e .
qed

lemma camera_env_alloc: "\<forall>h. e_alloc camera_env h"
  by (simp add: camera_env_def iso_env_def quiet_env_def)

lemma camera_send_cmd:
  assumes E: "e_control E = camera_control" and dev: "st_devs s d = Some dev" and open_h: "ud_dev (dv_usb_cam dev) \<noteq> None"
    and buf: "even (length buf)" "length buf \<le> 0x400 - 8"
    and p: "p = camera_payload (cam_hdr cmd (dv_cam_tag dev) (length buf) @ buf)" and n: "n = int (length p)"
  shows "\<exists>s'. send_cmd E d cmd buf n s = Some ((n, p), s') \<and> st_devs s' d = Some (dev\<lparr>dv_cam_tag := dv_cam_tag dev + 1\<rparr>) \<and>
    st_heap s' = st_heap s \<and> st_ctx s' = st_ctx s"
proof -
  let ?req = "IO_control (ud_dev (dv_usb_cam dev)) 0x40 0 0 0
      (cam_hdr cmd (dv_cam_tag dev) (length buf) @ buf) (length buf + 8)"
  let ?hd = "[0x52, 0x42] @ le16 (of_nat (length p div 2)) @ le16 cmd @ le16 (dv_cam_tag dev)"
  let ?ibuf = "pad 0x200 (hp_fill (st_heap s)) (?hd @ p)"
  have len: "even (length p)" "length p \<le> 322" by (simp_all add: p camera_payload_def)
  have o: "e_control E (?req # st_io s) = (int (length buf + 8), [])"
    by (simp add: E camera_control_def)
  have i: "poll_answer E (dv_usb_cam dev) (emit ?req s) = (8 + n, ?hd @ p)"
    by (simp add: poll_answer_def E camera_control_def n p cam_hdr_def le16_def Let_def)
  have q: "?ibuf = [0x52, 0x42] @ le16 (of_nat (length p div 2)) @ le16 cmd @ le16 (dv_cam_tag dev) @ p @
      replicate (504 - length p) (hp_fill (st_heap s))"
    using len by (simp add: pad_def le16_def)
  have "unat (of_nat (length p div 2) :: u16) = length p div 2"
    using len by (simp add: unat_of_nat)
  then have "uint (of_nat (length p div 2) :: u16) = n div 2"
    using len by (simp add: n uint_nat zdiv_int)
  then have c: "check_reply ?ibuf cmd (dv_cam_tag dev) (8 + n) = Some n"
    unfolding q by (simp add: check_reply_def get16_def le16_def of_le16_le16)
  have ib: "?ibuf = pad 0x200 (hp_fill (st_heap s)) (take (nat (8 + n)) (?hd @ p))" using n by (simp add: le16_def)
  have "8 \<le> 8 + n" "8 + n \<noteq> 0x200" using n len by auto
  with send_cmd_answered [OF dev refl open_h buf refl o _ i _ _ ib c, of n] have
    "send_cmd E d cmd buf n s = Some ((n, take (nat (min n n)) (drop 8 ?ibuf)),
      set_dev d (dev\<lparr>dv_cam_tag := dv_cam_tag dev + 1\<rparr>) (after_polls (dv_usb_cam dev) 1 (emit ?req s)))" by simp
  moreover have "take (nat (min n n)) (drop 8 ?ibuf) = p" unfolding q by (simp add: n le16_def)
  ultimately show ?thesis by simp
qed

text \<open>What each fetch needs and keeps.\<close>

definition ready_at :: "nat \<Rightarrow> st \<Rightarrow> freenect_device \<Rightarrow> bool" where
  "ready_at d s dev \<longleftrightarrow> st_devs s d = Some dev \<and> ud_dev (dv_usb_cam dev) \<noteq> None \<and> cx_zero_plane_res (st_ctx s) = 322 \<and>
     \<not> ps_running (dv_video dev) \<and> \<not> ps_running (dv_depth dev)"

lemma camera_payload_params:
  "camera_payload (cam_hdr 0x16 t 10 @ algorithm_params c dev h) =
     replicate (if c = 0x41 then 8 else if c = 0x40 then 118 else 4) 0"
proof -
  have "get16 (cam_hdr 0x16 t 10 @ algorithm_params c dev h) 8 = c"
    using of_le16_le16 [of c] by (simp add: get16_def cam_hdr_def algorithm_params_def le16_def)
  then show ?thesis by (simp add: camera_payload_def get16_cam_hdr)
qed

lemma ready_send:
  assumes E: "e_control E = camera_control" and r: "ready_at d s dev" and "even (length buf)" "length buf \<le> 0x400 - 8"
    and "camera_payload (cam_hdr cmd (dv_cam_tag dev) (length buf) @ buf) = replicate k 0"
  shows "\<exists>s' dev'. send_cmd E d cmd buf (int k) s = Some ((int k, replicate k 0), s') \<and> ready_at d s' dev' \<and>
    st_heap s' = st_heap s"
proof -
  have dev: "st_devs s d = Some dev" and h: "ud_dev (dv_usb_cam dev) \<noteq> None" using r by (simp_all add: ready_at_def)
  from camera_send_cmd [OF E dev h assms(3,4) refl refl, of cmd, unfolded assms(5) length_replicate]
  obtain s' where "send_cmd E d cmd buf (int k) s = Some ((int k, replicate k 0), s')"
    "st_devs s' d = Some (dev\<lparr>dv_cam_tag := dv_cam_tag dev + 1\<rparr>)" "st_heap s' = st_heap s" "st_ctx s' = st_ctx s" by blast
  then show ?thesis using r
    by (intro exI [of _ s'] exI [of _ "dev\<lparr>dv_cam_tag := dv_cam_tag dev + 1\<rparr>"]) (simp add: ready_at_def)
qed

lemma ready_upd:
  assumes "ready_at d s dev"
  shows "upd_registration d f s = Some (set_dev d (dev\<lparr>dv_registration := f (dv_registration dev)\<rparr>) s)"
    and "ready_at d (set_dev d (dev\<lparr>dv_registration := reg\<rparr>) s) (dev\<lparr>dv_registration := reg\<rparr>)"
  using assms by (simp_all add: ready_at_def upd_registration_def)

lemma ready_params:
  assumes "e_control E = camera_control" and "ready_at d s dev" and "k = (if c = 0x41 then 8 else if c = 0x40 then 118 else 4)"
  shows "\<exists>s' dev'. send_cmd E d 0x16 (algorithm_params c dev (st_heap s)) (int k) s = Some ((int k, replicate k 0), s') \<and>
    ready_at d s' dev'"
  using ready_send [OF assms(1,2), of "algorithm_params c dev (st_heap s)" "0x16" k] assms(3)
  by (auto simp: camera_payload_params)

lemma ready_fetch_pad:
  assumes E: "e_control E = camera_control" and r: "ready_at d s dev"
  shows "\<exists>s' dev'. freenect_fetch_reg_pad_info E d s = Some (0, s') \<and> ready_at d s' dev'"
proof -
  have dev: "st_devs s d = Some dev" using r by (simp add: ready_at_def)
  obtain s1 dev1 where 1: "send_cmd E d 0x16 (algorithm_params 0x41 dev (st_heap s)) 8 s = Some ((8, replicate 8 0), s1)"
    "ready_at d s1 dev1" using ready_params [OF E r, of 8 "0x41"] by auto
  with dev show ?thesis
    by (auto simp: freenect_fetch_reg_pad_info_def ready_upd(1) [OF 1(2)] intro: ready_upd(2) [OF 1(2)])
qed

lemma ready_fetch_info:
  assumes E: "e_control E = camera_control" and r: "ready_at d s dev"
  shows "\<exists>s' dev'. freenect_fetch_reg_info E d s = Some (0, s') \<and> ready_at d s' dev'"
proof -
  have dev: "st_devs s d = Some dev" using r by (simp add: ready_at_def)
  obtain s1 dev1 where 1: "send_cmd E d 0x16 (algorithm_params 0x40 dev (st_heap s)) 118 s = Some ((118, replicate 118 0), s1)"
    "ready_at d s1 dev1" using ready_params [OF E r, of 118 "0x40"] by auto
  with dev show ?thesis unfolding freenect_fetch_reg_info_def
    by (auto simp: ready_upd(1) [OF 1(2)] intro: ready_upd(2) [OF 1(2)])
qed

lemma ready_fetch_shift:
  assumes E: "e_control E = camera_control" and r: "ready_at d s dev"
  shows "\<exists>s' dev'. freenect_fetch_reg_const_shift E d s = Some (0, s') \<and> ready_at d s' dev'"
proof -
  have dev: "st_devs s d = Some dev" using r by (simp add: ready_at_def)
  obtain s1 dev1 where 1: "send_cmd E d 0x16 (algorithm_params 0x00 dev (st_heap s)) 4 s = Some ((4, replicate 4 0), s1)"
    "ready_at d s1 dev1" using ready_params [OF E r, of 4 "0x00"] by auto
  with dev show ?thesis
    by (auto simp: freenect_fetch_reg_const_shift_def ready_upd(1) [OF 1(2)] intro: ready_upd(2) [OF 1(2)])
qed

lemma ready_fetch_zero_plane:
  assumes E: "e_control E = camera_control" and r: "ready_at d s dev"
  shows "\<exists>s' dev'. freenect_fetch_zero_plane_info E d s = Some (0, s') \<and> ready_at d s' dev'"
proof -
  have "camera_payload (cam_hdr 0x04 (dv_cam_tag dev) (length (replicate 10 (0 :: u8))) @ replicate 10 0) = replicate 322 0"
    by (simp only: camera_payload_def get16_cam_hdr) simp
  from ready_send [OF E r _ _ this] obtain s1 dev1 where
    1: "send_cmd E d 0x04 (replicate 10 0) 322 s = Some ((322, replicate 322 0), s1)" "ready_at d s1 dev1"
    by auto
  have z: "get32 (pad 0x200 f (replicate 322 0)) i = 0" if "i < 319" for f i
    using that by (simp add: get32_def pad_nth of_le32_def)
  have "float_of_bits 0 = Some 0" by (simp add: float_of_bits_def)
  with 1(1) r ready_upd(2) [OF 1(2)] show ?thesis unfolding freenect_fetch_zero_plane_info_def
    by (auto simp: ready_upd(1) [OF 1(2)] z ready_at_def)
qed

lemma ready_camera_init:
  assumes E: "e_control E = camera_control" and r: "ready_at d s dev"
  shows "\<exists>s'. freenect_camera_init E d s = Some (0, s')"
proof -
  obtain s1 d1 where 1: "freenect_fetch_reg_pad_info E d s = Some (0, s1)" "ready_at d s1 d1"
    using ready_fetch_pad [OF E r] by blast
  obtain s2 d2 where 2: "freenect_fetch_zero_plane_info E d s1 = Some (0, s2)" "ready_at d s2 d2"
    using ready_fetch_zero_plane [OF E 1(2)] by blast
  obtain vmode where vm: "freenect_find_video_mode FREENECT_RESOLUTION_MEDIUM FREENECT_VIDEO_RGB = Some vmode"
    "set_video_mode_check vmode = Some (FREENECT_RESOLUTION_MEDIUM, FREENECT_VIDEO_RGB)"
    by (simp add: freenect_find_video_mode_def supported_video_modes_def mode_row_def MAKE_RESERVED_def Let_def
      set_video_mode_check_def RESERVED_TO_RESOLUTION_def RESERVED_TO_FORMAT_def resolution_of_def video_format_of_def)
  obtain dmode where dm: "freenect_find_depth_mode FREENECT_RESOLUTION_MEDIUM FREENECT_DEPTH_11BIT = Some dmode"
    "set_depth_mode_check dmode = Some (FREENECT_RESOLUTION_MEDIUM, FREENECT_DEPTH_11BIT)"
    by (simp add: freenect_find_depth_mode_def supported_depth_modes_def mode_row_def MAKE_RESERVED_def Let_def
      set_depth_mode_check_def RESERVED_TO_RESOLUTION_def RESERVED_TO_FORMAT_def resolution_of_def depth_format_of_def)
  let ?d2 = "d2\<lparr>dv_video_format := FREENECT_VIDEO_RGB, dv_video_resolution := FREENECT_RESOLUTION_MEDIUM\<rparr>"
  have "ready_at d (set_dev d ?d2 s2) ?d2" using 2(2) by (simp add: ready_at_def)
  from ready_fetch_info [OF E this] obtain s3 d3 where
    3: "freenect_fetch_reg_info E d (set_dev d ?d2 s2) = Some (0, s3)" "ready_at d s3 d3" by blast
  have v: "freenect_set_video_mode E d vmode s2 = Some (0, s3)"
    using 2(2) 3(1) vm(2) by (simp add: freenect_set_video_mode_def ready_at_def)
  let ?d3 = "d3\<lparr>dv_depth_format := FREENECT_DEPTH_11BIT, dv_depth_resolution := FREENECT_RESOLUTION_MEDIUM\<rparr>"
  have d: "freenect_set_depth_mode d dmode s3 = Some (0, set_dev d ?d3 s3)"
    using 3(2) dm(2) by (simp add: freenect_set_depth_mode_def ready_at_def)
  have "ready_at d (set_dev d ?d3 s3) ?d3" using 3(2) by (simp add: ready_at_def)
  from ready_fetch_shift [OF E this] obtain s4 d4 where
    4: "freenect_fetch_reg_const_shift E d (set_dev d ?d3 s3) = Some (0, s4)" "ready_at d s4 d4" by blast
  show ?thesis
    using 1(1) 2(1) v d 4(1) vm(1) dm(1) by (simp add: freenect_camera_init_def)
qed

section \<open>Witnesses\<close>

abbreviation cam_dev :: freenect_device where
  "cam_dev \<equiv> zero_device\<lparr>dv_usb_cam := zero_fnusb_dev\<lparr>ud_dev := Some 1\<rparr>\<rparr>"

text \<open>A state whose one device is \<open>dev\<close>, with ten megabytes of memory.\<close>

definition dev_state :: "freenect_device \<Rightarrow> st" where
  "dev_state dev = example_state\<lparr>st_devs := [0 \<mapsto> dev], st_ctx := zero_context\<lparr>cx_zero_plane_res := 322\<rparr>,
     st_heap := \<lparr>hp_blocks = (\<lambda>_. None), hp_next = 0, hp_avail = 10000000, hp_fill = 0xaa\<rparr>\<rparr>"

lemma dev_state_simps [simp]:
  "st_devs (dev_state dev) 0 = Some dev" "st_io (dev_state dev) = []" "hp_fill (st_heap (dev_state dev)) = 0xaa"
  "heap_wf (st_heap (dev_state dev))" "hp_avail (st_heap (dev_state dev)) = 10000000" "hp_blocks (st_heap (dev_state dev)) = (\<lambda>_. None)"
  "cx_zero_plane_res (st_ctx (dev_state dev)) = 322"
  by (simp_all add: dev_state_def heap_wf_def example_state_def)

theorem freenect_camera_init_commands_witness:
  "\<exists>s' dev'. freenect_camera_init camera_env 0 (dev_state cam_dev) = Some (0, s') \<and> st_devs s' 0 = Some dev' \<and>
     dv_depth_format dev' = FREENECT_DEPTH_11BIT \<and>
     last (cam_cmds (Some 1) (st_io s')) = (0x16, [0x41, 0, 0, 0, 0xaa, 0xaa, 0xaa, 0xaa, 0, 0])"
proof -
  let ?s = "dev_state cam_dev"
  have r0: "ready_at 0 ?s cam_dev" by (simp add: ready_at_def zero_device_def zero_packet_stream_def)
  obtain s4 where run: "freenect_camera_init camera_env 0 ?s = Some (0, s4)"
    using ready_camera_init [OF camera_env_control r0] by blast
  have "dv_video_resolution cam_dev = FREENECT_RESOLUTION_LOW" "\<not> ps_running (dv_video cam_dev)" "\<not> ps_running (dv_depth cam_dev)"
    by (simp_all add: zero_device_def zero_packet_stream_def)
  from freenect_camera_init_commands [OF run dev_state_simps(1) this] obtain dev' where
    i: "st_devs s4 = (st_devs ?s)(0 \<mapsto> dev')" "dv_depth_format dev' = FREENECT_DEPTH_11BIT"
    "cam_cmds (ud_dev (dv_usb_cam cam_dev)) (st_io s4) =
      [(0x16, le16 0x00 @ le16 0 @ le16 1 @ le16 30 @ le16 0), (0x16, le16 0x40 @ le16 0 @ le16 1 @ le16 30 @ le16 0),
       (0x04, replicate 10 0), (0x16, le16 0x41 @ le16 0 @ replicate 4 (hp_fill (st_heap ?s)) @ le16 0)] @
      cam_cmds (ud_dev (dv_usb_cam cam_dev)) (st_io ?s)" by blast
  have four: "replicate 4 x = [x, x, x, x]" for x :: u8 by (simp add: numeral_eq_Suc)
  have "cam_cmds (Some 1) (st_io s4) =
      [(0x16, le16 0x00 @ le16 0 @ le16 1 @ le16 30 @ le16 0), (0x16, le16 0x40 @ le16 0 @ le16 1 @ le16 30 @ le16 0),
       (0x04, replicate 10 0), (0x16, le16 0x41 @ le16 0 @ [0xaa, 0xaa, 0xaa, 0xaa] @ le16 0)]"
    using i(3) by (simp add: four)
  then have "last (cam_cmds (Some 1) (st_io s4)) = (0x16, [0x41, 0, 0, 0, 0xaa, 0xaa, 0xaa, 0xaa, 0, 0])"
    by (simp add: le16_def)
  with run i(1,2) show ?thesis by (intro exI [of _ s4] exI [of _ dev']) simp
qed

abbreviation depth_dev :: freenect_device where
  "depth_dev \<equiv> cam_dev\<lparr>dv_depth_resolution := FREENECT_RESOLUTION_MEDIUM, dv_video_resolution := FREENECT_RESOLUTION_MEDIUM\<rparr>"

lemma depth_dev_ok:
  "st_devs (dev_state depth_dev) 0 = Some depth_dev" "\<not> ps_running (dv_depth depth_dev)"
  "dv_depth_resolution depth_dev = FREENECT_RESOLUTION_MEDIUM" "dv_depth_format depth_dev \<noteq> FREENECT_DEPTH_DUMMY"
  "dv_depth_format depth_dev = FREENECT_DEPTH_REGISTERED \<longrightarrow>
      registration_ok (dv_registration (freenect_init_registration camera_env depth_dev))"
  "start_mem (dv_depth depth_dev) 614400 1036800 (st_heap (dev_state depth_dev))"
  "ud_dev (dv_usb_cam depth_dev) \<noteq> None" "answers camera_env (dv_usb_cam depth_dev)" "\<forall>h. e_alloc camera_env h"
  by (simp_all add: camera_env_answers camera_env_alloc zero_device_def zero_packet_stream_def start_mem_def)

lemma video_dev_ok:
  "st_devs (dev_state depth_dev) 0 = Some depth_dev" "\<not> ps_running (dv_video depth_dev)"
  "video_registers (dv_video_format depth_dev) (dv_video_resolution depth_dev) =
     Some \<lparr>vs_mode = (0x0c, 0), vs_res = (0x0d, 1), vs_fps = (0x0e, 0x1e), vs_hflip = 0x47\<rparr>"
  "ir_high depth_dev \<longrightarrow> \<not> ps_running (dv_depth depth_dev)"
  "start_mem (dv_video depth_dev) 3932160 5242880 (st_heap (dev_state depth_dev))"
  "ud_dev (dv_usb_cam depth_dev) \<noteq> None" "answers camera_env (dv_usb_cam depth_dev)" "\<forall>h. e_alloc camera_env h"
  by (simp_all add: camera_env_answers camera_env_alloc zero_device_def zero_packet_stream_def start_mem_def
      video_registers_def Let_def)

theorem freenect_start_depth_correct_witness:
  "\<exists>s' dev'. freenect_start_depth camera_env 0 (dev_state depth_dev) = Some (0, s') \<and> st_devs s' 0 = Some dev' \<and>
     depth_inv dev' (st_heap s') \<and> hd (cam_cmds (Some 1) (st_io s')) = (0x03, [0x17, 0, 0, 0]) \<and>
     submissions (st_io s') = map (\<lambda>i. (0, Iso_depth, i)) (rev [0..<16])"
proof -
  have "rev (map reg_cmd (depth_start_regs (dv_depth_format depth_dev))) \<noteq> []"
    "hd (rev (map reg_cmd (depth_start_regs (dv_depth_format depth_dev)))) = (0x03, [0x17, 0, 0, 0])"
    by (simp_all add: depth_start_regs_def zero_device_def le16_def)
  moreover obtain s' dev' where "freenect_start_depth camera_env 0 (dev_state depth_dev) = Some (0, s')"
    "st_devs s' = (st_devs (dev_state depth_dev))(0 \<mapsto> dev')" "depth_inv dev' (st_heap s')"
    "submissions (st_io s') = map (\<lambda>i. (0, Iso_depth, i)) (rev [0..<16]) @ submissions (st_io (dev_state depth_dev))"
    "cam_cmds (ud_dev (dv_usb_cam depth_dev)) (st_io s') =
      rev (map reg_cmd (depth_start_regs (dv_depth_format depth_dev))) @ cam_cmds (ud_dev (dv_usb_cam depth_dev)) (st_io (dev_state depth_dev))"
    using freenect_start_depth_correct [OF depth_dev_ok] by blast
  ultimately show ?thesis
    by (intro exI [of _ s'] exI [of _ dev']) (simp del: upt_conv_Cons_Cons add: hd_append)
qed

theorem freenect_stop_depth_frees_witness:
  "\<exists>s dev s'. st_devs s 0 = Some dev \<and> ps_running (dv_depth dev) \<and> freenect_stop_depth camera_env 0 s = Some (0, s') \<and>
     hp_blocks (st_heap s') = without (depth_ptrs dev) (hp_blocks (st_heap s))"
proof -
  from freenect_start_depth_ok [OF depth_dev_ok(1-6) depth_sizes_le [OF depth_dev_ok(3,4)] depth_dev_ok(7-9)] obtain s1 :: st and dev1 where s1: "st_devs s1 = (st_devs (dev_state depth_dev))(0 \<mapsto> dev1)"
    "ps_running (dv_depth dev1)" "iso_ready (dv_depth_isoc dev1)"
    "grows (st_heap (dev_state depth_dev)) (depth_ptrs dev1) (st_heap s1)" "dv_usb_cam dev1 = dv_usb_cam depth_dev" by blast
  have "st_devs s1 0 = Some dev1" "ud_dev (dv_usb_cam dev1) \<noteq> None" using s1(1,5) by simp_all
  with freenect_stop_depth_frees [OF _ s1(2,3) grows_owned [OF s1(4)] _ camera_env_answers camera_env_delivers] s1(2)
  show ?thesis by blast
qed

theorem depth_session_leaks_nothing_witness:
  "\<exists>s1 s2. freenect_start_depth camera_env 0 (dev_state depth_dev) = Some (0, s1) \<and>
     freenect_stop_depth camera_env 0 s1 = Some (0, s2) \<and> hp_blocks (st_heap s2) = (\<lambda>_. None)"
  using depth_session_leaks_nothing [OF depth_dev_ok camera_env_delivers] by simp

theorem freenect_start_video_correct_witness:
  "\<exists>s' dev'. freenect_start_video camera_env 0 (dev_state depth_dev) = Some (0, s') \<and> st_devs s' 0 = Some dev' \<and>
     ps_running (dv_video dev') \<and> video_inv dev' (st_heap s')"
  using freenect_start_video_correct [OF video_dev_ok] by fastforce

theorem video_session_leaks_nothing_witness:
  "\<exists>s1 s2. freenect_start_video camera_env 0 (dev_state depth_dev) = Some (0, s1) \<and>
     freenect_stop_video camera_env 0 s1 = Some (0, s2) \<and> hp_blocks (st_heap s2) = (\<lambda>_. None)"
  using video_session_leaks_nothing [OF video_dev_ok camera_env_delivers] by simp

theorem freenect_start_video_refused_witness:
  "\<exists>s'. freenect_start_video camera_env 0 (dev_state (depth_dev\<lparr>dv_video_format := FREENECT_VIDEO_IR_8BIT,
     dv_video_resolution := FREENECT_RESOLUTION_HIGH, dv_depth := zero_packet_stream\<lparr>ps_running := True\<rparr>\<rparr>)) = Some (-1, s') \<and>
     st_io s' = []"
proof -
  let ?dev = "depth_dev\<lparr>dv_video_format := FREENECT_VIDEO_IR_8BIT, dv_video_resolution := FREENECT_RESOLUTION_HIGH,
     dv_depth := zero_packet_stream\<lparr>ps_running := True\<rparr>\<rparr>"
  have "ps_running (dv_video ?dev) \<or> (ir_high ?dev \<and> ps_running (dv_depth ?dev)) \<or>
      video_registers (dv_video_format ?dev) (dv_video_resolution ?dev) = None"
    by (simp add: ir_high_def is_ir_def)
  from freenect_start_video_refused [OF dev_state_simps(1) this] show ?thesis by (simp only: dev_state_simps) blast
qed

theorem freenect_set_depth_mode_correct_witness:
  "\<exists>s'. freenect_set_depth_mode 0 (supported_depth_modes ! 5) (dev_state cam_dev) = Some (0, s')"
proof -
  have "\<not> ps_running (dv_depth cam_dev)" by (simp add: zero_device_def zero_packet_stream_def)
  moreover have "supported_depth_modes ! 5 \<in> set supported_depth_modes"
    by (rule nth_mem) (simp add: supported_depth_modes_def)
  ultimately show ?thesis
    using freenect_set_depth_mode_correct [of "dev_state cam_dev" 0 cam_dev "supported_depth_modes ! 5"] by auto
qed

end
