(* ===== verification/Loader.thy ===== *)
theory Loader
  imports Control Heap_Own
begin

text \<open>
  The firmware loader (src/loader.c) of the audio device of the Kinect 1473 and Kinect for Windows: the
  bootloader protocol over bulk transfers, the upload of an image from memory or from a file, and
  the upload of the CEMD data.

  The specification is the loader on the device: a machine that takes the transfers of endpoint 1 and
  writes the announced blocks into its memory. The property of an upload is what this machine holds
  afterwards.
\<close>

section \<open>Messages\<close>

definition bootloader_command :: "u32 \<Rightarrow> u32 \<Rightarrow> u32 \<Rightarrow> u32 \<Rightarrow> u8 list" where
  "bootloader_command tag bytes cmd addr =
     le32 0x06022009 @ le32 tag @ le32 bytes @ le32 cmd @ le32 addr @ le32 0"

definition cemdloader_command :: "u32 \<Rightarrow> u32 \<Rightarrow> u32 \<Rightarrow> u32 \<Rightarrow> u8 list" where
  "cemdloader_command tag arg1 cmd arg2 =
     le32 0x06022009 @ le32 tag @ le32 arg1 @ le32 cmd @ le32 arg2 @ replicate 32 0"

record firmware_header =
  fh_magic :: u32
  fh_ver_minor :: u16
  fh_ver_major :: u16
  fh_ver_release :: u16
  fh_ver_patch :: u16
  fh_base_addr :: u32
  fh_size :: u32
  fh_entry_addr :: u32

definition read_firmware_header :: "u8 list \<Rightarrow> firmware_header" where
  "read_firmware_header fw =
     \<lparr>fh_magic = get32 fw 0, fh_ver_minor = get16 fw 4, fh_ver_major = get16 fw 6, fh_ver_release = get16 fw 8,
      fh_ver_patch = get16 fw 10, fh_base_addr = get32 fw 12, fh_size = get32 fw 16, fh_entry_addr = get32 fw 20\<rparr>"

section \<open>Replies\<close>

text \<open>\<open>dev->parent->audio_tag++\<close>.\<close>

definition bump_tag :: "nat \<Rightarrow> st \<Rightarrow> st option" where
  "bump_tag d s = do { dev \<leftarrow> st_devs s d; Some (set_dev d (dev\<lparr>dv_audio_tag := dv_audio_tag dev + 1\<rparr>) s) }"

definition get_reply :: "env \<Rightarrow> nat \<Rightarrow> st \<Rightarrow> (int \<times> st) option" where
  "get_reply E d s = do {
     dev \<leftarrow> st_devs s d;
     ((res, transferred, bytes), s) \<leftarrow> fnusb_bulk E (dv_usb_audio dev) 0x81 [] 512 s;
     if res \<noteq> 0 \<or> transferred \<noteq> 12 then Some (res, s)
     else do {
       let buffer = pad 12 (hp_fill (st_heap s)) (take transferred bytes);
       if get32 buffer 0 \<noteq> 0x0a6fe000 then Some (-1, s)
       else if get32 buffer 4 \<noteq> dv_audio_tag dev then Some (-1, s)
       else Some (res, s)
     }
   }"

definition check_version_string :: "env \<Rightarrow> nat \<Rightarrow> st \<Rightarrow> (int \<times> st) option" where
  "check_version_string E d s = do {
     dev \<leftarrow> st_devs s d;
     ((res, transferred, _), s) \<leftarrow>
       fnusb_bulk E (dv_usb_audio dev) 1 (bootloader_command (dv_audio_tag dev) 0x60 0 0x15) 24 s;
     if res \<noteq> 0 \<or> transferred \<noteq> 24 then Some (-1, s)
     else do {
       ((res, transferred, _), s) \<leftarrow> fnusb_bulk E (dv_usb_audio dev) 0x81 [] 512 s;
       if res \<noteq> 0 then Some (res, s)
       else do {
         (res, s) \<leftarrow> get_reply E d s;
         s \<leftarrow> bump_tag d s;
         Some (res, s)
       }
     }
   }"

section \<open>Uploading from memory\<close>

text \<open>The loop that sends a page in transfers of at most 512 bytes; \<open>False\<close> when a transfer fails.\<close>

function send_page :: "env \<Rightarrow> nat \<Rightarrow> u8 list \<Rightarrow> st \<Rightarrow> (bool \<times> st) option" where
  "send_page E d page s =
     (if page = [] then Some (True, s)
      else do {
        dev \<leftarrow> st_devs s d;
        let to_send = min (length page) 512;
        ((res, transferred, _), s) \<leftarrow> fnusb_bulk E (dv_usb_audio dev) 1 (take to_send page) to_send s;
        if res \<noteq> 0 \<or> transferred \<noteq> to_send then Some (False, s) else send_page E d (drop to_send page) s
      })"
  by pat_completeness auto
termination
  by (relation "measure (\<lambda>(E, d, page, s). length page)") auto

text \<open>
  The number of bytes of the next page: what the header still announces, in unsigned arithmetic, at
  most 0x4000, and not more than what is left.
\<close>

definition page_len :: "u32 \<Rightarrow> int \<Rightarrow> int \<Rightarrow> int" where
  "page_len image_size total_sent left =
     (let rem = image_size - word_of_int total_sent;
          rd = (if 0x4000 > rem then uint rem else 0x4000)
      in if rd > left then left else rd)"

text \<open>
  The do-while loop over the pages: \<open>Inl\<close> the error that is returned, or \<open>Inr\<close> the bytes that were
  sent. The results of get_reply are ignored.
\<close>

function upload_pages ::
    "env \<Rightarrow> nat \<Rightarrow> u8 list \<Rightarrow> u32 \<Rightarrow> u32 \<Rightarrow> nat \<Rightarrow> int \<Rightarrow> int \<Rightarrow> st \<Rightarrow> ((int + int) \<times> st) option" where
  "upload_pages E d fw image_size addr readIndex bytesLeft total_sent s =
     (let rd = page_len image_size total_sent bytesLeft
      in if rd \<le> 0 then Some (Inr total_sent, s)
         else if length fw < readIndex + nat rd then None
         else do {
           let page = take (nat rd) (drop readIndex fw);
           dev \<leftarrow> st_devs s d;
           ((res, transferred, _), s) \<leftarrow> fnusb_bulk E (dv_usb_audio dev) 1
             (bootloader_command (dv_audio_tag dev) (word_of_int rd) 0x03 addr) 24 s;
           if res \<noteq> 0 \<or> transferred \<noteq> 24 then Some (Inl (-1), s)
           else do {
             (ok, s) \<leftarrow> send_page E d page s;
             if \<not> ok then Some (Inl (-1), s)
             else do {
               (_, s) \<leftarrow> get_reply E d s;
               s \<leftarrow> bump_tag d s;
               upload_pages E d fw image_size (addr + word_of_int rd) (readIndex + nat rd) (bytesLeft - rd) (total_sent + rd) s
             }
           }
         })"
  by pat_completeness auto
termination
  by (relation "measure (\<lambda>(E, d, fw, image_size, addr, readIndex, bytesLeft, total_sent, s). nat bytesLeft)")
    (auto simp: page_len_def Let_def split: if_splits)

definition upload_firmware_from_memory :: "env \<Rightarrow> nat \<Rightarrow> u8 list \<Rightarrow> st \<Rightarrow> (int \<times> st) option" where
  "upload_firmware_from_memory E d fw s =
     (let fw_size = word_of_int (int (length fw)) :: u32
      in if fw_size < 24 then Some (- e_errno E (st_io s), s)
         else do {
           let fwheader = read_firmware_header fw;
           (r, s) \<leftarrow> upload_pages E d fw (fh_size fwheader) (fh_base_addr fwheader) 0 (sint fw_size) 0 s;
           case r of
             Inl e \<Rightarrow> Some (e, s)
           | Inr total_sent \<Rightarrow>
               if word_of_int total_sent \<noteq> fh_size fwheader then Some (-1, s)
               else do {
                 dev \<leftarrow> st_devs s d;
                 ((res, transferred, _), s) \<leftarrow> fnusb_bulk E (dv_usb_audio dev) 1
                   (bootloader_command (dv_audio_tag dev) 0 0x04 (fh_entry_addr fwheader)) 24 s;
                 if res \<noteq> 0 \<or> transferred \<noteq> 24 then Some (-1, s)
                 else do {
                   (_, s) \<leftarrow> get_reply E d s;
                   s \<leftarrow> bump_tag d s;
                   Some (0, s)
                 }
               }
         })"

section \<open>Uploading from a file\<close>

text \<open>The paths that are tried, in order; those of an unset variable are skipped.\<close>

definition search_paths :: "env \<Rightarrow> string \<Rightarrow> string list" where
  "search_paths E fw_filename =
     (case e_getenv E ''LIBFREENECT_FIRMWARE_PATH'' of None \<Rightarrow> [] | Some p \<Rightarrow> [p @ fw_filename]) @
     [''.'' @ fw_filename] @
     (case e_getenv E ''HOME'' of None \<Rightarrow> [] | Some p \<Rightarrow> [p @ ''/.libfreenect'' @ fw_filename]) @
     [''/usr/local/share/libfreenect'' @ fw_filename, ''/usr/share/libfreenect'' @ fw_filename,
      ''./../Resources'' @ fw_filename]"

text \<open>The loop that opens the first of them that exists: its contents.\<close>

primrec open_first :: "env \<Rightarrow> string list \<Rightarrow> st \<Rightarrow> u8 list option \<times> st" where
  "open_first E [] s = (None, s)"
| "open_first E (p # ps) s =
     (let s = emit (IO_fopen p) s
      in case e_file E (st_io s) of None \<Rightarrow> open_first E ps s | Some c \<Rightarrow> (Some c, s))"

text \<open>
  The path is built in a buffer of 1024 bytes. The block for the contents of the file is not freed.
  The blocks in which the candidate paths are built are freed in the same iteration and left out.
\<close>

definition upload_firmware :: "env \<Rightarrow> nat \<Rightarrow> string \<Rightarrow> st \<Rightarrow> (int \<times> st) option" where
  "upload_firmware E d filename s =
     (if 1024 < length filename + 2 then None
      else let (fw, s) = open_first E (search_paths E (''/'' @ filename)) s
           in case fw of
                None \<Rightarrow> Some (- e_errno E (st_io s), s)
              | Some contents \<Rightarrow>
                  let fw_num_bytes = sint (word_of_int (int (length contents)) :: u32)
                  in if fw_num_bytes \<le> 0 then Some (- e_errno E (st_io s), s)
                     else let (fw_bytes, h) = malloc (nat fw_num_bytes) (st_heap s);
                              s = emit (IO_fread (nat fw_num_bytes)) (s\<lparr>st_heap := h\<rparr>);
                              bytes = take (nat fw_num_bytes) (case e_file E (st_io s) of None \<Rightarrow> [] | Some b \<Rightarrow> b)
                          in do {
                            h \<leftarrow> mem_write fw_bytes 0 bytes (st_heap s);
                            upload_firmware_from_memory E d bytes (s\<lparr>st_heap := h\<rparr>)
                          })"

section \<open>Uploading the CEMD data\<close>

text \<open>The loop over the file. A file that never ends keeps the C program here for ever.\<close>

partial_function (option) cemd_pages :: "env \<Rightarrow> nat \<Rightarrow> u32 \<Rightarrow> st \<Rightarrow> (bool \<times> st) option" where
  "cemd_pages E d addr s = do {
     let s = emit (IO_fread 0x4000) s;
     let page = take 0x4000 (case e_file E (st_io s) of None \<Rightarrow> [] | Some b \<Rightarrow> b);
     if page = [] then Some (True, s)
     else do {
       dev \<leftarrow> st_devs s d;
       ((res, transferred, _), s) \<leftarrow> fnusb_bulk E (dv_usb_audio dev) 1
         (cemdloader_command (dv_audio_tag dev) (of_nat (length page)) 0x134 addr) 52 s;
       if res \<noteq> 0 \<or> transferred \<noteq> 52 then Some (False, s)
       else do {
         (ok, s) \<leftarrow> send_page E d page s;
         if \<not> ok then Some (False, s)
         else do {
           (_, s) \<leftarrow> get_reply E d s;
           s \<leftarrow> bump_tag d s;
           cemd_pages E d (addr + of_nat (length page)) s
         }
       }
     }
   }"

text \<open>A command of the CEMD upload outside of the loop: send, wait for the reply, next tag.\<close>

definition cemd_command :: "env \<Rightarrow> nat \<Rightarrow> u32 \<Rightarrow> u32 \<Rightarrow> st \<Rightarrow> (bool \<times> st) option" where
  "cemd_command E d cmd arg2 s = do {
     dev \<leftarrow> st_devs s d;
     ((res, transferred, _), s) \<leftarrow>
       fnusb_bulk E (dv_usb_audio dev) 1 (cemdloader_command (dv_audio_tag dev) 0 cmd arg2) 52 s;
     if res \<noteq> 0 \<or> transferred \<noteq> 52 then Some (False, s)
     else do {
       (_, s) \<leftarrow> get_reply E d s;
       s \<leftarrow> bump_tag d s;
       Some (True, s)
     }
   }"

definition upload_cemd_data :: "env \<Rightarrow> nat \<Rightarrow> st \<Rightarrow> (int \<times> st) option" where
  "upload_cemd_data E d s = do {
     (ok, s) \<leftarrow> cemd_command E d 0x133 0x00064014 s;
     if \<not> ok then Some (-1, s)
     else do {
       let s = emit (IO_fopen ''cemd_data.bin'') s;
       if e_file E (st_io s) = None then Some (e_errno E (st_io s), s)
       else do {
         (ok, s) \<leftarrow> cemd_pages E d 0 s;
         if \<not> ok then Some (-1, s)
         else do {
           (ok, s) \<leftarrow> cemd_command E d 0x135 0x00064000 s;
           if \<not> ok then Some (-1, s) else Some (0, s)
         }
       }
     }
   }"

declare send_page.simps [simp del] upload_pages.simps [simp del]

section \<open>The loader on the device\<close>

text \<open>
  Its memory, the address and the length of the block that is announced and not yet received, the
  entry point it was told to start, and the tags of the commands.
\<close>

record loader_dev =
  ld_mem :: "nat \<Rightarrow> u8 option"
  ld_addr :: nat
  ld_left :: nat
  ld_entry :: "u32 option"
  ld_tags :: "u32 list"

definition idle_loader :: loader_dev where
  "idle_loader = \<lparr>ld_mem = (\<lambda>_. None), ld_addr = 0, ld_left = 0, ld_entry = None, ld_tags = []\<rparr>"

definition mem_load :: "nat \<Rightarrow> u8 list \<Rightarrow> (nat \<Rightarrow> u8 option) \<Rightarrow> nat \<Rightarrow> u8 option" where
  "mem_load a bs m = (\<lambda>x. if a \<le> x \<and> x < a + length bs then Some (bs ! (x - a)) else m x)"

definition ld_recv :: "u8 list \<Rightarrow> loader_dev \<Rightarrow> loader_dev" where
  "ld_recv bs ld =
     (if 0 < ld_left ld
      then ld\<lparr>ld_mem := mem_load (ld_addr ld) bs (ld_mem ld), ld_addr := ld_addr ld + length bs,
              ld_left := ld_left ld - length bs\<rparr>
      else if length bs = 24 \<and> get32 bs 0 = 0x06022009
      then (let ld = ld\<lparr>ld_tags := ld_tags ld @ [get32 bs 4]\<rparr>
            in if get32 bs 12 = 0x03 then ld\<lparr>ld_addr := unat (get32 bs 16), ld_left := unat (get32 bs 8)\<rparr>
               else if get32 bs 12 = 0x04 then ld\<lparr>ld_entry := Some (get32 bs 16)\<rparr> else ld)
      else ld)"

text \<open>What was sent to endpoint 1 of a handle, oldest first.\<close>

primrec bulk_out :: "nat option \<Rightarrow> io list \<Rightarrow> u8 list list" where
  "bulk_out h [] = []"
| "bulk_out h (ev # io) = bulk_out h io @
     (case ev of IO_bulk h' ep data n t \<Rightarrow> if h' = h \<and> ep = 1 then [data] else [] | _ \<Rightarrow> [])"

text \<open>The device takes every transfer in full.\<close>

definition accepts :: "env \<Rightarrow> nat option \<Rightarrow> bool" where
  "accepts E h \<longleftrightarrow> (\<forall>data n io. \<exists>x. e_bulk E (IO_bulk h 1 data n 0 # io) = (0, n, x))"

text \<open>A step of the upload: the history grows by what the device receives, and its tag moves on.\<close>

definition sends :: "nat \<Rightarrow> freenect_device \<Rightarrow> st \<Rightarrow> u8 list list \<Rightarrow> u32 \<Rightarrow> st \<Rightarrow> bool" where
  "sends d dev s outs t s' \<longleftrightarrow>
     st_devs s' = (st_devs s)(d \<mapsto> dev\<lparr>dv_audio_tag := dv_audio_tag dev + t\<rparr>) \<and> st_heap s' = st_heap s \<and>
     bulk_out (ud_dev (dv_usb_audio dev)) (st_io s') = bulk_out (ud_dev (dv_usb_audio dev)) (st_io s) @ outs"

lemma sends_refl: "st_devs s d = Some dev \<Longrightarrow> sends d dev s [] 0 s"
  by (simp add: sends_def fun_upd_idem)

lemma sends_trans:
  assumes "sends d dev s xs t s'" and "sends d (dev\<lparr>dv_audio_tag := dv_audio_tag dev + t\<rparr>) s' ys u s''"
  shows "sends d dev s (xs @ ys) (t + u) s''"
  using assms by (simp add: sends_def add.assoc)

lemma sends_dev: "sends d dev s outs t s' \<Longrightarrow> st_devs s' d = Some (dev\<lparr>dv_audio_tag := dv_audio_tag dev + t\<rparr>)"
  by (simp add: sends_def)

lemma fnusb_bulk_accepted:
  assumes dev: "st_devs s d = Some dev" and acc: "accepts E (ud_dev (dv_usb_audio dev))" and h: "ud_dev (dv_usb_audio dev) \<noteq> None"
  shows "\<exists>x s'. fnusb_bulk E (dv_usb_audio dev) 1 data n s = Some ((0, n, x), s') \<and> sends d dev s [data] 0 s'"
proof -
  let ?h = "ud_dev (dv_usb_audio dev)"
  obtain x where x: "e_bulk E (IO_bulk ?h 1 data n 0 # st_io s) = (0, n, x)" using acc unfolding accepts_def by blast
  have "fnusb_bulk E (dv_usb_audio dev) 1 data n s = Some ((0, n, x), emit (IO_bulk ?h 1 data n 0) s)"
    using h x by (simp add: fnusb_bulk_def libusb_bulk_transfer_def Let_def)
  moreover have "sends d dev s [data] 0 (emit (IO_bulk ?h 1 data n 0) s)"
    using dev by (simp add: sends_def fun_upd_idem)
  ultimately show ?thesis by blast
qed

lemma get_reply_sends:
  assumes dev: "st_devs s d = Some dev" and h: "ud_dev (dv_usb_audio dev) \<noteq> None"
  shows "\<exists>r s'. get_reply E d s = Some (r, s') \<and> sends d dev s [] 0 s'"
proof -
  let ?ev = "IO_bulk (ud_dev (dv_usb_audio dev)) 0x81 [] 512 0"
  obtain res n x where o: "e_bulk E (?ev # st_io s) = (res, n, x)" by (metis surj_pair)
  have "fnusb_bulk E (dv_usb_audio dev) 0x81 [] 512 s = Some ((res, n, x), emit ?ev s)"
    using h o by (simp add: fnusb_bulk_def libusb_bulk_transfer_def Let_def)
  then have "\<exists>r. get_reply E d s = Some (r, emit ?ev s)"
    using dev by (simp add: get_reply_def Let_def)
  moreover have "sends d dev s [] 0 (emit ?ev s)" using dev by (simp add: sends_def fun_upd_idem)
  ultimately show ?thesis by blast
qed

text \<open>A reply is read and the tag moves on.\<close>

lemma reply_sends:
  assumes dev: "st_devs s d = Some dev" and h: "ud_dev (dv_usb_audio dev) \<noteq> None"
  shows "\<exists>r s1 s2. get_reply E d s = Some (r, s1) \<and> bump_tag d s1 = Some s2 \<and> sends d dev s [] 1 s2"
proof -
  from get_reply_sends [OF assms] obtain r s1 where r: "get_reply E d s = Some (r, s1)" "sends d dev s [] 0 s1" by blast
  have d1: "st_devs s1 d = Some dev" using sends_dev [OF r(2)] by simp
  then have "bump_tag d s1 = Some (set_dev d (dev\<lparr>dv_audio_tag := dv_audio_tag dev + 1\<rparr>) s1)" by (simp add: bump_tag_def)
  moreover have "sends d dev s [] 1 (set_dev d (dev\<lparr>dv_audio_tag := dv_audio_tag dev + 1\<rparr>) s1)"
    using r(2) by (simp add: sends_def)
  ultimately show ?thesis using r(1) by blast
qed

section \<open>Receiving\<close>

lemma get32_take: "get32 (xs @ le32 w @ ys) n = w" if "length xs = n"
  using get32_le32 [of xs w ys] that by simp

lemma bootloader_command_fields:
  "length (bootloader_command tag bytes cmd addr) = 24" "get32 (bootloader_command tag bytes cmd addr) 0 = 0x06022009"
  "get32 (bootloader_command tag bytes cmd addr) 4 = tag" "get32 (bootloader_command tag bytes cmd addr) 8 = bytes"
  "get32 (bootloader_command tag bytes cmd addr) 12 = cmd" "get32 (bootloader_command tag bytes cmd addr) 16 = addr"
proof -
  let ?c = "bootloader_command tag bytes cmd addr" and ?m = "le32 0x06022009"
  show "length ?c = 24" by (simp add: bootloader_command_def)
  show "get32 ?c 0 = 0x06022009" using get32_take [of "[]"] by (simp add: bootloader_command_def)
  show "get32 ?c 4 = tag" using get32_take [of ?m 4 tag] by (simp add: bootloader_command_def)
  show "get32 ?c 8 = bytes" using get32_take [of "?m @ le32 tag" 8 bytes] by (simp add: bootloader_command_def)
  show "get32 ?c 12 = cmd" using get32_take [of "?m @ le32 tag @ le32 bytes" 12 cmd] by (simp add: bootloader_command_def)
  show "get32 ?c 16 = addr" using get32_take [of "?m @ le32 tag @ le32 bytes @ le32 cmd" 16 addr]
    by (simp add: bootloader_command_def)
qed

lemma mem_load_append: "mem_load (a + length bs) cs (mem_load a bs m) = mem_load a (bs @ cs) m"
  by (auto simp: mem_load_def fun_eq_iff nth_append)

lemma mem_load_Nil [simp]: "mem_load a [] m = m"
  by (auto simp: mem_load_def fun_eq_iff)

text \<open>A page is received as one block.\<close>

lemma send_page_ok:
  assumes "st_devs s d = Some dev" and "accepts E (ud_dev (dv_usb_audio dev))" and "ud_dev (dv_usb_audio dev) \<noteq> None"
    and "ld_left ld = length page + k"
  shows "\<exists>s' outs. send_page E d page s = Some (True, s') \<and> sends d dev s outs 0 s' \<and>
    fold ld_recv outs ld = ld\<lparr>ld_mem := mem_load (ld_addr ld) page (ld_mem ld), ld_addr := ld_addr ld + length page, ld_left := k\<rparr>"
  using assms
proof (induction "length page" arbitrary: page s ld rule: less_induct)
  case less
  show ?case
  proof (cases "page = []")
    case True
    then show ?thesis using less.prems sends_refl
      by (intro exI [of _ s] exI [of _ "[]"]) (simp add: send_page.simps)
  next
    case False
    let ?n = "min (length page) 512"
    let ?ld = "ld_recv (take ?n page) ld"
    obtain x s1 where b: "fnusb_bulk E (dv_usb_audio dev) 1 (take ?n page) ?n s = Some ((0, ?n, x), s1)"
      "sends d dev s [take ?n page] 0 s1"
      using fnusb_bulk_accepted [OF less.prems(1-3)] by blast
    have d1: "st_devs s1 d = Some dev" using sends_dev [OF b(2)] by simp
    have ld: "?ld = ld\<lparr>ld_mem := mem_load (ld_addr ld) (take ?n page) (ld_mem ld), ld_addr := ld_addr ld + ?n,
        ld_left := length (drop ?n page) + k\<rparr>"
      using less.prems(4) False by (auto simp: ld_recv_def min_def)
    from less.hyps [OF _ d1 less.prems(2,3), of "drop ?n page" ?ld] ld False obtain s' outs where
      r: "send_page E d (drop ?n page) s1 = Some (True, s')" "sends d dev s1 outs 0 s'"
      "fold ld_recv outs ?ld = ?ld\<lparr>ld_mem := mem_load (ld_addr ?ld) (drop ?n page) (ld_mem ?ld),
         ld_addr := ld_addr ?ld + length (drop ?n page), ld_left := k\<rparr>" by auto
    have "send_page E d page s = Some (True, s')"
      using False less.prems(1) b(1) r(1) by (subst send_page.simps) (simp add: Let_def)
    moreover have "sends d dev s ([take ?n page] @ outs) (0 + 0) s'"
      by (rule sends_trans [OF b(2)]) (use r(2) in simp)
    moreover have "mem_load (ld_addr ld + ?n) (drop ?n page) (mem_load (ld_addr ld) (take ?n page) (ld_mem ld)) =
        mem_load (ld_addr ld) page (ld_mem ld)"
      using mem_load_append [of "ld_addr ld" "take ?n page" "drop ?n page" "ld_mem ld"] by simp
    then have "fold ld_recv ([take ?n page] @ outs) ld =
        ld\<lparr>ld_mem := mem_load (ld_addr ld) page (ld_mem ld), ld_addr := ld_addr ld + length page, ld_left := k\<rparr>"
      using r(3) by (simp add: ld)
    ultimately show ?thesis by (metis add_0)
  qed
qed

lemma page_len_eq:
  assumes "i \<le> n" and n: "n = min z m" and "m < 2 ^ 31" and "z < 2 ^ 32"
  shows "page_len (of_nat z) (int i) (int m - int i) = int (min (n - i) 0x4000)"
proof -
  have "i \<le> z" "i \<le> m" using assms(1,2) by simp_all
  then have w: "(of_nat z :: u32) - word_of_int (int i) = of_nat (z - i)" by simp
  have u: "unat (of_nat (z - i) :: u32) = z - i" using assms(4) by (simp add: unat_of_nat del: of_nat_diff)
  have "(of_nat (z - i) :: u32) < 0x4000 \<longleftrightarrow> z - i < 0x4000" unfolding word_less_nat_alt u by simp
  moreover have "uint (of_nat (z - i) :: u32) = int (z - i)" using u by (simp add: uint_nat)
  ultimately have "page_len (of_nat z) (int i) (int m - int i) =
      (let rd = (if z - i < 0x4000 then int (z - i) else 0x4000) in if rd > int m - int i then int m - int i else rd)"
    unfolding page_len_def w Let_def by (simp del: of_nat_diff)
  then show ?thesis using \<open>i \<le> z\<close> \<open>i \<le> m\<close> unfolding n by (auto simp: Let_def min_def)
qed

abbreviation pages :: "nat \<Rightarrow> nat" where
  "pages n \<equiv> (n + 0x3fff) div 0x4000"

lemma pages_step: "0 < n \<Longrightarrow> pages n = Suc (pages (n - min n 0x4000))"
  by (cases "n \<le> 0x4000") (auto simp: min_def le_div_geq)

lemma upload_pages_ok:
  assumes "st_devs s d = Some dev" and "accepts E (ud_dev (dv_usb_audio dev))" and "ud_dev (dv_usb_audio dev) \<noteq> None"
    and "i \<le> n" and n: "n = min z (length fw)" and "length fw < 2 ^ 31" and "base + n < 2 ^ 32" and "ld_left ld = 0"
    and "z < 2 ^ 32"
  shows "\<exists>s' outs a. upload_pages E d fw (of_nat z) (of_nat (base + i)) i (int (length fw) - int i) (int i) s =
      Some (Inr (int n), s') \<and> sends d dev s outs (of_nat (pages (n - i))) s' \<and>
    fold ld_recv outs ld = ld\<lparr>ld_mem := mem_load (base + i) (take (n - i) (drop i fw)) (ld_mem ld), ld_addr := a, ld_left := 0,
      ld_tags := ld_tags ld @ map (\<lambda>j. dv_audio_tag dev + of_nat j) [0..<pages (n - i)]\<rparr>"
  using assms(1-4,6-9)
proof (induction "n - i" arbitrary: i s dev ld rule: less_induct)
  case less
  let ?h = "ud_dev (dv_usb_audio dev)"
  note len = page_len_eq [OF less.prems(4) n less.prems(5,8)]
  have nl: "n \<le> length fw" using n by simp
  show ?case
  proof (cases "i = n")
    case True
    have "pages 0 = 0" by simp
    then show ?thesis using less.prems(1,7) True sends_refl len
      by (intro exI [of _ s] exI [of _ "[]"] exI [of _ "ld_addr ld"]) (simp add: upload_pages.simps Let_def)
  next
    case False
    let ?r = "min (n - i) 0x4000"
    let ?page = "take ?r (drop i fw)" and ?cmd = "bootloader_command (dv_audio_tag dev) (of_nat ?r) 0x03 (of_nat (base + i))"
    have r: "0 < ?r" "i + ?r \<le> n" "i + ?r \<le> length fw" "length ?page = ?r" using False less.prems(4) nl by auto
    obtain x s1 where c: "fnusb_bulk E (dv_usb_audio dev) 1 ?cmd 24 s = Some ((0, 24, x), s1)" "sends d dev s [?cmd] 0 s1"
      using fnusb_bulk_accepted [OF less.prems(1-3)] by blast
    have d1: "st_devs s1 d = Some dev" using sends_dev [OF c(2)] by simp
    let ?ld1 = "ld\<lparr>ld_tags := ld_tags ld @ [dv_audio_tag dev], ld_addr := base + i, ld_left := ?r\<rparr>"
    have "unat (of_nat (base + i) :: u32) = base + i" "unat (of_nat ?r :: u32) = ?r"
      using less.prems(4-6) nl by (simp_all add: unat_of_nat del: of_nat_add)
    then have ld1: "ld_recv ?cmd ld = ?ld1"
      using less.prems(7) by (simp add: ld_recv_def bootloader_command_fields Let_def del: of_nat_add)
    obtain s2 outs where p: "send_page E d ?page s1 = Some (True, s2)" "sends d dev s1 outs 0 s2"
      "fold ld_recv outs ?ld1 = ?ld1\<lparr>ld_mem := mem_load (base + i) ?page (ld_mem ld), ld_addr := base + i + ?r, ld_left := 0\<rparr>"
      using send_page_ok [OF d1 less.prems(2,3), of ?ld1 ?page 0] r(4) by auto
    have d2: "st_devs s2 d = Some dev" using sends_dev [OF p(2)] by simp
    obtain r3 s3 s4 where g: "get_reply E d s2 = Some (r3, s3)" "bump_tag d s3 = Some s4" "sends d dev s2 [] 1 s4"
      using reply_sends [OF d2 less.prems(3)] by blast
    let ?dev4 = "dev\<lparr>dv_audio_tag := dv_audio_tag dev + 1\<rparr>"
    let ?ld4 = "ld\<lparr>ld_mem := mem_load (base + i) ?page (ld_mem ld), ld_addr := base + i + ?r, ld_left := 0,
      ld_tags := ld_tags ld @ [dv_audio_tag dev]\<rparr>"
    have "?ld1\<lparr>ld_mem := mem_load (base + i) ?page (ld_mem ld), ld_addr := base + i + ?r, ld_left := 0\<rparr> = ?ld4"
      by (cases ld) simp
    with p(3) ld1 have f4: "fold ld_recv (?cmd # outs) ld = ?ld4" by simp
    have d4: "st_devs s4 d = Some ?dev4" using sends_dev [OF g(3)] by simp
    have "n - (i + ?r) < n - i" using r by simp
    from less.hyps [OF this d4, of ?ld4] less.prems(2,3,5,6,8) r(2) obtain s' outs' a where
      q: "upload_pages E d fw (of_nat z) (of_nat (base + (i + ?r))) (i + ?r) (int (length fw) - int (i + ?r)) (int (i + ?r)) s4 =
        Some (Inr (int n), s')" "sends d ?dev4 s4 outs' (of_nat (pages (n - (i + ?r)))) s'"
      "fold ld_recv outs' ?ld4 = ?ld4\<lparr>ld_mem := mem_load (base + (i + ?r)) (take (n - (i + ?r)) (drop (i + ?r) fw)) (ld_mem ?ld4),
        ld_addr := a, ld_left := 0, ld_tags := ld_tags ?ld4 @ map (\<lambda>j. dv_audio_tag ?dev4 + of_nat j) [0..<pages (n - (i + ?r))]\<rparr>"
      by auto
    have "upload_pages E d fw (of_nat z) (of_nat (base + i)) i (int (length fw) - int i) (int i) s = Some (Inr (int n), s')"
      using less.prems(1) c(1) p(1) g(1,2) q(1) r(1,3)
      by (subst upload_pages.simps) (simp only: len, simp add: Let_def algebra_simps)
    moreover have pg: "pages (n - i) = Suc (pages (n - (i + ?r)))" using pages_step [of "n - i"] r(1) by simp
    have s3: "sends d dev s2 ([] @ outs') (1 + of_nat (pages (n - (i + ?r)))) s'"
      by (rule sends_trans [OF g(3)]) (use q(2) in simp)
    have s2: "sends d dev s1 (outs @ [] @ outs') (0 + (1 + of_nat (pages (n - (i + ?r))))) s'"
      by (rule sends_trans [OF p(2)]) (use s3 in simp)
    have "sends d dev s ([?cmd] @ outs @ [] @ outs') (0 + (0 + (1 + of_nat (pages (n - (i + ?r)))))) s'"
      by (rule sends_trans [OF c(2)]) (use s2 in simp)
    then have "sends d dev s (?cmd # outs @ outs') (of_nat (pages (n - i))) s'" by (simp add: pg)
    moreover have "mem_load (base + (i + ?r)) (take (n - (i + ?r)) (drop (i + ?r) fw)) (mem_load (base + i) ?page (ld_mem ld)) =
        mem_load (base + i) (take (n - i) (drop i fw)) (ld_mem ld)"
    proof -
      have "take (n - i) (drop i fw) = ?page @ take (n - (i + ?r)) (drop (i + ?r) fw)"
        using r(2) take_add [of ?r "n - (i + ?r)" "drop i fw"] by (simp add: add.commute)
      then show ?thesis using mem_load_append [of "base + i" ?page _ "ld_mem ld"] r(4) by (simp add: add.assoc)
    qed
    moreover have "map (\<lambda>j. dv_audio_tag dev + of_nat j) [0..<pages (n - i)] =
        dv_audio_tag dev # map (\<lambda>j. dv_audio_tag ?dev4 + of_nat j) [0..<pages (n - (i + ?r))]"
      unfolding pg by (simp only: upt_conv_Cons zero_less_Suc list.map map_Suc_upt [symmetric] map_map) (simp add: comp_def add.assoc)
    ultimately show ?thesis
      using q(3) f4 by (intro exI [of _ s'] exI [of _ "?cmd # outs @ outs'"] exI [of _ a]) simp
  qed
qed

section \<open>Properties\<close>

lemma read_header_simps:
  "fh_size (read_firmware_header fw) = get32 fw 16" "fh_base_addr (read_firmware_header fw) = get32 fw 12"
  "fh_entry_addr (read_firmware_header fw) = get32 fw 20"
  by (simp_all add: read_firmware_header_def)

lemma fw_size_word:
  assumes "24 \<le> length fw" and "length fw < 2 ^ 31"
  shows "\<not> (word_of_int (int (length fw)) :: u32) < 24" and "sint (word_of_int (int (length fw)) :: u32) = int (length fw)"
proof -
  have "unat (of_nat (length fw) :: u32) = length fw" using assms(2) by (simp add: unat_of_nat)
  then show "\<not> (word_of_int (int (length fw)) :: u32) < 24" using assms(1) by (simp add: word_less_nat_alt)
  show "sint (word_of_int (int (length fw)) :: u32) = int (length fw)"
    using assms(2) by (subst signed_of_int) (simp add: signed_take_bit_int_eq_self)
qed

text \<open>
  C24. Uploading an image works. When the device takes every transfer and the image has the size that
  its header declares, upload_firmware_from_memory returns 0, and the loader on the device holds
  exactly the image at the base address of the header and nothing else, is not waiting for data, was
  told to start at the entry point, and has seen one command per page and the launch, with
  consecutive tags.
\<close>

theorem upload_firmware_from_memory_loads:
  assumes dev: "st_devs s d = Some dev" and acc: "accepts E (ud_dev (dv_usb_audio dev))" and h: "ud_dev (dv_usb_audio dev) \<noteq> None"
    and fw: "24 \<le> length fw" "length fw < 2 ^ 31"
    and size_ok: "unat (get32 fw 16) \<le> length fw" and top: "unat (get32 fw 12) + unat (get32 fw 16) < 2 ^ 32"
  shows "\<exists>s' outs. upload_firmware_from_memory E d fw s = Some (0, s') \<and>
    bulk_out (ud_dev (dv_usb_audio dev)) (st_io s') = bulk_out (ud_dev (dv_usb_audio dev)) (st_io s) @ outs \<and>
    ld_mem (fold ld_recv outs idle_loader) = mem_load (unat (get32 fw 12)) (take (unat (get32 fw 16)) fw) (\<lambda>_. None) \<and>
    ld_left (fold ld_recv outs idle_loader) = 0 \<and> ld_entry (fold ld_recv outs idle_loader) = Some (get32 fw 20) \<and>
    ld_tags (fold ld_recv outs idle_loader) =
      map (\<lambda>j. dv_audio_tag dev + of_nat j) [0..<Suc (pages (unat (get32 fw 16)))]"
proof -
  let ?n = "unat (get32 fw 16)" and ?b = "unat (get32 fw 12)"
  have n: "?n = min ?n (length fw)" using size_ok by simp
  have z: "?n < 2 ^ 32" using unsigned_less [of "get32 fw 16"] by simp
  from upload_pages_ok [OF dev acc h, of 0 ?n ?n fw ?b idle_loader, OF _ n fw(2) top _ z] obtain s1 outs a where
    p: "upload_pages E d fw (get32 fw 16) (get32 fw 12) 0 (int (length fw)) 0 s = Some (Inr (int ?n), s1)"
    "sends d dev s outs (of_nat (pages ?n)) s1"
    "fold ld_recv outs idle_loader = idle_loader\<lparr>ld_mem := mem_load ?b (take ?n fw) (\<lambda>_. None), ld_addr := a, ld_left := 0,
      ld_tags := map (\<lambda>j. dv_audio_tag dev + of_nat j) [0..<pages ?n]\<rparr>"
    by (auto simp: idle_loader_def)
  let ?dev1 = "dev\<lparr>dv_audio_tag := dv_audio_tag dev + of_nat (pages ?n)\<rparr>"
  let ?cmd = "bootloader_command (dv_audio_tag ?dev1) 0 0x04 (get32 fw 20)"
  have d1: "st_devs s1 d = Some ?dev1" by (rule sends_dev [OF p(2)])
  have "ud_dev (dv_usb_audio ?dev1) \<noteq> None" "accepts E (ud_dev (dv_usb_audio ?dev1))" using h acc by simp_all
  with fnusb_bulk_accepted [OF d1] obtain x s2 where
    c: "fnusb_bulk E (dv_usb_audio ?dev1) 1 ?cmd 24 s1 = Some ((0, 24, x), s2)" "sends d ?dev1 s1 [?cmd] 0 s2" by blast
  have d2: "st_devs s2 d = Some ?dev1" using sends_dev [OF c(2)] by simp
  from reply_sends [OF d2, of E] h obtain r s3 s4 where
    g: "get_reply E d s2 = Some (r, s3)" "bump_tag d s3 = Some s4" "sends d ?dev1 s2 [] 1 s4" by auto
  have "upload_firmware_from_memory E d fw s = Some (0, s4)"
    using fw_size_word [OF fw] p(1) d1 c(1) g(1,2)
    by (simp add: upload_firmware_from_memory_def Let_def read_header_simps)
  moreover have "bulk_out (ud_dev (dv_usb_audio dev)) (st_io s4) = bulk_out (ud_dev (dv_usb_audio dev)) (st_io s) @ outs @ [?cmd]"
    using p(2) c(2) g(3) by (simp add: sends_def)
  moreover have "fold ld_recv (outs @ [?cmd]) idle_loader =
      idle_loader\<lparr>ld_mem := mem_load ?b (take ?n fw) (\<lambda>_. None), ld_addr := a, ld_left := 0, ld_entry := Some (get32 fw 20),
        ld_tags := map (\<lambda>j. dv_audio_tag dev + of_nat j) [0..<Suc (pages ?n)]\<rparr>"
    using p(3) by (simp add: ld_recv_def bootloader_command_fields Let_def)
  ultimately show ?thesis by (intro exI [of _ s4] exI [of _ "outs @ [?cmd]"]) simp
qed

text \<open>
  A truncated image is never launched: when the header declares more than the file has,
  upload_firmware_from_memory sends what there is, returns -1, and the device is not told to start.
\<close>

theorem upload_firmware_truncated:
  assumes dev: "st_devs s d = Some dev" and acc: "accepts E (ud_dev (dv_usb_audio dev))" and h: "ud_dev (dv_usb_audio dev) \<noteq> None"
    and fw: "24 \<le> length fw" "length fw < 2 ^ 31"
    and size_bad: "length fw < unat (get32 fw 16)" and top: "unat (get32 fw 12) + length fw < 2 ^ 32"
  shows "\<exists>s' outs. upload_firmware_from_memory E d fw s = Some (-1, s') \<and>
    bulk_out (ud_dev (dv_usb_audio dev)) (st_io s') = bulk_out (ud_dev (dv_usb_audio dev)) (st_io s) @ outs \<and>
    ld_mem (fold ld_recv outs idle_loader) = mem_load (unat (get32 fw 12)) fw (\<lambda>_. None) \<and>
    ld_entry (fold ld_recv outs idle_loader) = None"
proof -
  let ?z = "unat (get32 fw 16)" and ?b = "unat (get32 fw 12)"
  have n: "length fw = min ?z (length fw)" using size_bad by simp
  have z: "?z < 2 ^ 32" using unsigned_less [of "get32 fw 16"] by simp
  from upload_pages_ok [OF dev acc h, of 0 "length fw" ?z fw ?b idle_loader, OF _ n fw(2) top _ z] obtain s1 outs a where
    p: "upload_pages E d fw (get32 fw 16) (get32 fw 12) 0 (int (length fw)) 0 s = Some (Inr (int (length fw)), s1)"
    "sends d dev s outs (of_nat (pages (length fw))) s1"
    "fold ld_recv outs idle_loader = idle_loader\<lparr>ld_mem := mem_load ?b fw (\<lambda>_. None), ld_addr := a, ld_left := 0,
      ld_tags := map (\<lambda>j. dv_audio_tag dev + of_nat j) [0..<pages (length fw)]\<rparr>"
    by (auto simp: idle_loader_def)
  have "(of_nat (length fw) :: u32) \<noteq> get32 fw 16"
  proof
    assume "(of_nat (length fw) :: u32) = get32 fw 16"
    then have "unat (of_nat (length fw) :: u32) = ?z" by simp
    then show False using fw(2) size_bad by (simp add: unat_of_nat)
  qed
  then have "upload_firmware_from_memory E d fw s = Some (-1, s1)"
    using fw_size_word [OF fw] p(1) by (simp add: upload_firmware_from_memory_def Let_def read_header_simps)
  then show ?thesis using p(2,3) by (intro exI [of _ s1] exI [of _ outs]) (simp add: sends_def idle_loader_def)
qed

text \<open>
  The error of an image without a header is the negated errno, which no failing call has set: when
  errno is 0, the function reports success and has sent nothing.
\<close>

theorem upload_firmware_no_header:
  assumes "length fw < 24" and "e_errno E (st_io s) = 0"
  shows "upload_firmware_from_memory E d fw s = Some (0, s)"
proof -
  have "unat (of_nat (length fw) :: u32) = length fw" using assms(1) by (simp add: unat_of_nat)
  then have "(word_of_int (int (length fw)) :: u32) < 24" using assms(1) by (simp add: word_less_nat_alt)
  then show ?thesis using assms(2) by (simp add: upload_firmware_from_memory_def Let_def)
qed

section \<open>The memory\<close>

lemma get_reply_heap: "get_reply E d s = Some (r, s') \<Longrightarrow> st_heap s' = st_heap s"
  by (auto simp: get_reply_def fnusb_bulk_def libusb_bulk_transfer_def Let_def split: Option.bind_splits if_splits prod.splits)

lemma fnusb_bulk_heap: "fnusb_bulk E dv ep data n s = Some (r, s') \<Longrightarrow> st_heap s' = st_heap s"
  by (auto simp: fnusb_bulk_def libusb_bulk_transfer_def Let_def split: if_splits)

lemma bump_tag_heap: "bump_tag d s = Some s' \<Longrightarrow> st_heap s' = st_heap s"
  by (auto simp: bump_tag_def split: Option.bind_splits)

lemma send_page_heap: "send_page E d page s = Some (r, s') \<Longrightarrow> st_heap s' = st_heap s"
proof (induction "length page" arbitrary: page s rule: less_induct)
  case less
  note run = less.prems [unfolded send_page.simps [of E d page s]]
  show ?case
  proof (cases "page = []")
    case True
    then show ?thesis using run by simp
  next
    case False
    let ?n = "min (length page) 512"
    have lt: "length (drop ?n page) < length page" using False by simp
    show ?thesis using run False
      by (auto simp: Let_def split: Option.bind_splits if_splits dest!: fnusb_bulk_heap less.hyps [OF lt])
  qed
qed

lemma upload_pages_heap:
  "upload_pages E d fw sz addr i left tot s = Some (r, s') \<Longrightarrow> st_heap s' = st_heap s"
proof (induction "nat left" arbitrary: addr i left tot s rule: less_induct)
  case less
  note run = less.prems [unfolded upload_pages.simps [of E d fw sz addr i left tot s] Let_def]
  let ?rd = "page_len sz tot left"
  show ?case
  proof (cases "?rd \<le> 0")
    case True
    then show ?thesis using run by simp
  next
    case False
    have lt: "nat (left - ?rd) < nat left" using False by (auto simp: page_len_def Let_def split: if_splits)
    show ?thesis using run False
      by (auto split: Option.bind_splits if_splits prod.splits
          dest!: fnusb_bulk_heap send_page_heap get_reply_heap bump_tag_heap less.hyps [OF lt])
  qed
qed

lemma upload_firmware_from_memory_heap:
  assumes "upload_firmware_from_memory E d fw s = Some (r, s')"
  shows "st_heap s' = st_heap s"
  using assms
  by (auto simp: upload_firmware_from_memory_def Let_def split: Option.bind_splits if_splits sum.splits prod.splits
      dest!: upload_pages_heap fnusb_bulk_heap get_reply_heap bump_tag_heap)

text \<open>
  Uploading from a file leaks the contents: whenever upload_firmware finds a file with data and
  returns, whatever it returns, a block that was not there before is still allocated.
\<close>

theorem upload_firmware_leaks:
  assumes "upload_firmware E d name s = Some (r, s')"
    and "open_first E (search_paths E (''/'' @ name)) s = (Some contents, s1)"
    and "contents \<noteq> []" and "length contents < 2 ^ 31" and "heap_wf (st_heap s)"
  shows "\<exists>a. hp_blocks (st_heap s) a = None \<and> hp_blocks (st_heap s') a \<noteq> None"
proof -
  have heap1: "st_heap x = st_heap y" if "open_first E ps y = (c, x)" for ps c x and y :: st
    using that by (induction ps arbitrary: y) (auto simp: Let_def split: option.splits)
  have n: "sint (word_of_int (int (length contents)) :: u32) = int (length contents)"
    using assms(4) by (subst signed_of_int) (simp add: signed_take_bit_int_eq_self)
  have pos: "\<not> int (length contents) \<le> 0" using assms(3) by simp
  obtain p h where m: "malloc (length contents) (st_heap s1) = (p, h)" by fastforce
  from assms(1) obtain bs h' x where w: "mem_write p 0 bs h = Some h'"
    "upload_firmware_from_memory E d bs (x\<lparr>st_heap := h'\<rparr>) = Some (r, s')"
    using m pos unfolding upload_firmware_def assms(2) Let_def prod.case option.case n
    by (auto split: Option.bind_splits if_splits)
  from w(1) obtain a blk where a: "p = Some a" "hp_blocks h' a = Some blk"
    by (elim mem_write_SomeD) auto
  have "heap_wf (st_heap s1)" using assms(5) heap1 [OF assms(2)] by simp
  from this m a(1) have "hp_blocks (st_heap s1) a = None" by (cases rule: malloc_cases) auto
  moreover have "st_heap s' = h'" using upload_firmware_from_memory_heap [OF w(2)] by simp
  ultimately show ?thesis using a(2) heap1 [OF assms(2)] by auto
qed

section \<open>Witnesses\<close>

text \<open>An image of 26 bytes for address 16, and a device that takes every transfer.\<close>

definition small_image :: "u8 list" where
  "small_image = le32 0xF00BACCA @ replicate 8 0 @ le32 0x10 @ le32 26 @ le32 0x12 @ [1, 2]"

definition taking_env :: env where
  "taking_env = quiet_env\<lparr>e_bulk := \<lambda>io. (case io of IO_bulk h ep data n t # _ \<Rightarrow> (0, n, []) | _ \<Rightarrow> (0, 0, [])),
     e_file := \<lambda>io. (case io of IO_fopen p # _ \<Rightarrow> Some small_image | IO_fread n # _ \<Rightarrow> Some small_image | _ \<Rightarrow> None)\<rparr>"

definition loader_state :: st where
  "loader_state = example_state\<lparr>st_devs := [0 \<mapsto> zero_device\<lparr>dv_usb_audio := zero_fnusb_dev\<lparr>ud_dev := Some 2\<rparr>\<rparr>],
     st_heap := \<lparr>hp_blocks = (\<lambda>_. None), hp_next = 0, hp_avail = 100, hp_fill = 0\<rparr>\<rparr>"

lemma small_image_simps [simp]:
  "length small_image = 26" "get32 small_image 12 = 0x10" "get32 small_image 16 = 26" "get32 small_image 20 = 0x12"
proof -
  show "length small_image = 26" by (simp add: small_image_def)
  show "get32 small_image 12 = 0x10" using get32_take [of "le32 0xF00BACCA @ replicate 8 0" 12] by (simp add: small_image_def)
  show "get32 small_image 16 = 26" using get32_take [of "le32 0xF00BACCA @ replicate 8 0 @ le32 0x10" 16] by (simp add: small_image_def)
  show "get32 small_image 20 = 0x12"
    using get32_take [of "le32 0xF00BACCA @ replicate 8 0 @ le32 0x10 @ le32 26" 20] by (simp add: small_image_def)
qed

lemma loader_state_simps:
  "st_devs loader_state 0 = Some (zero_device\<lparr>dv_usb_audio := zero_fnusb_dev\<lparr>ud_dev := Some 2\<rparr>\<rparr>)"
  "accepts taking_env h" "heap_wf (st_heap loader_state)" "st_io loader_state = []"
  by (simp_all add: loader_state_def accepts_def taking_env_def heap_wf_def example_state_def)

theorem upload_firmware_from_memory_loads_witness:
  "\<exists>s' outs. upload_firmware_from_memory taking_env 0 small_image loader_state = Some (0, s') \<and>
     bulk_out (Some 2) (st_io s') = outs \<and> ld_mem (fold ld_recv outs idle_loader) 16 = Some 0xCA \<and>
     ld_entry (fold ld_recv outs idle_loader) = Some 0x12"
proof -
  have "small_image ! 0 = 0xCA" by (simp add: small_image_def le32_def)
  then have "mem_load 16 (take 26 small_image) (\<lambda>_. None) 16 = Some 0xCA" by (simp add: mem_load_def)
  with upload_firmware_from_memory_loads [OF loader_state_simps(1), of taking_env small_image]
  show ?thesis by (auto simp: loader_state_simps(2,4))
qed

theorem upload_firmware_truncated_witness:
  "\<exists>s'. upload_firmware_from_memory taking_env 0 (take 25 small_image) loader_state = Some (-1, s')"
proof -
  have "get32 (take 25 small_image) i = get32 small_image i" if "i < 21" for i
    using that by (simp add: get32_def)
  then show ?thesis
    using upload_firmware_truncated [OF loader_state_simps(1), of taking_env "take 25 small_image"]
    by (auto simp: loader_state_simps(2))
qed

theorem upload_firmware_no_header_witness:
  "upload_firmware_from_memory quiet_env 0 [1, 2, 3] loader_state = Some (0, loader_state)"
  by (rule upload_firmware_no_header) (simp_all add: quiet_env_def)

theorem upload_firmware_leaks_witness:
  "\<exists>s' a. upload_firmware taking_env 0 ''audios.bin'' loader_state = Some (0, s') \<and>
     hp_blocks (st_heap loader_state) a = None \<and> hp_blocks (st_heap s') a \<noteq> None"
proof -
  let ?s1 = "emit (IO_fopen ''./audios.bin'') loader_state"
  have o: "open_first taking_env (search_paths taking_env (''/'' @ ''audios.bin'')) loader_state = (Some small_image, ?s1)"
    by (simp add: search_paths_def taking_env_def quiet_env_def Let_def)
  have n: "sint (word_of_int (int (length small_image)) :: u32) = 26"
    using fw_size_word(2) [of small_image] by simp
  obtain p h where m: "malloc 26 (st_heap ?s1) = (p, h)" by fastforce
  then have "\<exists>h'. mem_write p 0 small_image h = Some h'"
    by (auto simp: malloc_def loader_state_def mem_write_def)
  then obtain h' where w: "mem_write p 0 small_image h = Some h'" by blast
  let ?s2 = "(emit (IO_fread 26) (?s1\<lparr>st_heap := h\<rparr>))\<lparr>st_heap := h'\<rparr>"
  have d: "st_devs ?s2 0 = Some (zero_device\<lparr>dv_usb_audio := zero_fnusb_dev\<lparr>ud_dev := Some 2\<rparr>\<rparr>)"
    using loader_state_simps(1) by simp
  obtain s' where "upload_firmware_from_memory taking_env 0 small_image ?s2 = Some (0, s')"
    using upload_firmware_from_memory_loads [OF d, of taking_env small_image] by (auto simp: loader_state_simps(2))
  moreover have f: "e_file taking_env (IO_fread k # io) = Some small_image" for k io
    by (simp add: taking_env_def)
  ultimately have run: "upload_firmware taking_env 0 ''audios.bin'' loader_state = Some (0, s')"
    using m w f unfolding upload_firmware_def o Let_def prod.case option.case n by simp
  have "small_image \<noteq> []" by (metis small_image_simps(1) list.size(3) zero_neq_numeral)
  from upload_firmware_leaks [OF run o this _ loader_state_simps(3)] run show ?thesis by auto
qed

end
