(* ===== verification/Tilt.thy ===== *)
theory Tilt
  imports Control
begin

text \<open>
  src/tilt.c: the motor, the LED and the accelerometer, through the motor device of the first
  Kinect (control transfers) or through the audio device of the later models (bulk commands).

  The lemmas show that neither way ever asks the motor for more than 31 degrees, how the raw
  readings are decoded, and which LED state reaches the device.
\<close>

section \<open>Messages\<close>

record fn_alt_motor_command =
  mc_magic :: u32
  mc_tag :: u32
  mc_arg1 :: u32
  mc_cmd :: u32
  mc_arg2 :: u32

definition encode_motor_command :: "fn_alt_motor_command \<Rightarrow> u8 list" where
  "encode_motor_command c = le32 (mc_magic c) @ le32 (mc_tag c) @ le32 (mc_arg1 c) @ le32 (mc_cmd c) @ le32 (mc_arg2 c)"

record fn_alt_motor_reply =
  mr_magic :: u32
  mr_tag :: u32
  mr_status :: u32

definition decode_motor_reply :: "u8 list \<Rightarrow> fn_alt_motor_reply" where
  "decode_motor_reply b = \<lparr>mr_magic = get32 b 0, mr_tag = get32 b 4, mr_status = get32 b 8\<rparr>"

text \<open>The next tag: the static counter, post-incremented.\<close>

definition next_tag :: "st \<Rightarrow> u32 \<times> st" where
  "next_tag s = (st_tag_seq s, s\<lparr>st_tag_seq := st_tag_seq s + 1\<rparr>)"

text \<open>
  The reply of twelve bytes is checked; a reply of another length is only logged, and then the
  result is the 0 of the transfer.
\<close>

definition tilt_get_reply :: "env \<Rightarrow> nat option \<Rightarrow> st \<Rightarrow> int \<times> st" where
  "tilt_get_reply E h s =
     (let ((res, transferred, bytes), s) = libusb_bulk_transfer E h 0x81 [] 512 100 s
      in if res \<noteq> 0 then (res, s)
         else if transferred \<noteq> 12 then (res, s)
         else let reply = decode_motor_reply (pad 512 0 (take 12 bytes));
                  res = (if mr_magic reply \<noteq> 0x0a6fe000 then -1 else res);
                  res = (if mr_status reply \<noteq> 0 then -1 else res)
              in (res, s\<lparr>st_tag_next_ack := st_tag_next_ack s + 1\<rparr>))"

section \<open>Reading the state\<close>

definition freenect_get_tilt_state :: "nat \<Rightarrow> st \<Rightarrow> freenect_raw_tilt_state option" where
  "freenect_get_tilt_state d s = map_option dv_raw_state (st_devs s d)"

text \<open>The fields that the alternative reply sets, from byte 16 on; the angle is doubled.\<close>

definition alt_tilt_state :: "u8 list \<Rightarrow> freenect_raw_tilt_state \<Rightarrow> freenect_raw_tilt_state" where
  "alt_tilt_state buffer rs =
     rs\<lparr>ts_accelerometer_x := ucast (get32 buffer 16), ts_accelerometer_y := ucast (get32 buffer 20),
        ts_accelerometer_z := ucast (get32 buffer 24), ts_tilt_angle := ucast (get32 buffer 28) * 2\<rparr>"

definition update_tilt_state_alt :: "env \<Rightarrow> nat \<Rightarrow> st \<Rightarrow> (int \<times> st) option" where
  "update_tilt_state_alt E d s = do {
     dev \<leftarrow> st_devs s d;
     let h = ud_dev (dv_usb_audio dev);
     if h = None then Some (-1, s)
     else
       (let (tag, s) = next_tag s;
            cmd = le32 0x06022009 @ le32 tag @ le32 0x68 @ le32 0x8032;
            buffer = pad 256 (hp_fill (st_heap s)) cmd;
            ((res, _), s) = libusb_bulk_transfer E h 0x01 (take 16 buffer) 16 250 s
        in if res \<noteq> 0 then Some (res, s)
           else let ((res, transferred, bytes), s) = libusb_bulk_transfer E h 0x81 [] 256 250 s
                in if res \<noteq> 0 then Some (res, s)
                   else let buffer = take 256 (take transferred bytes @ drop (length (take transferred bytes)) buffer);
                            s = set_dev d (dev\<lparr>dv_raw_state := alt_tilt_state buffer (dv_raw_state dev)\<rparr>) s
                        in Some (tilt_get_reply E h s))
   }"

definition motor_tilt_state :: "u8 list \<Rightarrow> freenect_raw_tilt_state" where
  "motor_tilt_state buf =
     \<lparr>ts_accelerometer_x = push_bit 8 (ucast (buf ! 2)) OR ucast (buf ! 3),
      ts_accelerometer_y = push_bit 8 (ucast (buf ! 4)) OR ucast (buf ! 5),
      ts_accelerometer_z = push_bit 8 (ucast (buf ! 6)) OR ucast (buf ! 7),
      ts_tilt_angle = buf ! 8, ts_tilt_status = buf ! 9\<rparr>"

definition freenect_update_tilt_state :: "env \<Rightarrow> nat \<Rightarrow> st \<Rightarrow> (int \<times> st) option" where
  "freenect_update_tilt_state E d s = do {
     dev \<leftarrow> st_devs s d;
     if dv_motor_control_with_audio_enabled dev then update_tilt_state_alt E d s
     else if cx_enabled_subdevices (st_ctx s) AND FREENECT_DEVICE_MOTOR = 0 then Some (0, s)
     else do {
       ((ret, bytes), s) \<leftarrow> fnusb_control E (dv_usb_motor dev) 0xC0 0x32 0x0 0x0 [] 10 s;
       if ret \<noteq> 10 then Some (if ret < 0 then ret else -1, s)
       else Some (ret, set_dev d
              (dev\<lparr>dv_raw_state := motor_tilt_state (pad 10 (hp_fill (st_heap s)) bytes)\<rparr>) s)
     }
   }"

section \<open>Tilting\<close>

definition freenect_set_tilt_degs_alt :: "env \<Rightarrow> nat \<Rightarrow> int \<Rightarrow> st \<Rightarrow> (int \<times> st) option" where
  "freenect_set_tilt_degs_alt E d tilt_degrees s =
     (if tilt_degrees > 31 \<or> tilt_degrees < -31 then Some (-1, s)
      else do {
        dev \<leftarrow> st_devs s d;
        let h = ud_dev (dv_usb_audio dev);
        if h = None then Some (-1, s)
        else
          (let (tag, s) = next_tag s;
               cmd = \<lparr>mc_magic = 0x06022009, mc_tag = tag, mc_arg1 = 0, mc_cmd = 0x803b,
                      mc_arg2 = word_of_int tilt_degrees\<rparr>;
               ((res, _), s) = libusb_bulk_transfer E h 0x01 (encode_motor_command cmd) 20 250 s
           in if res \<noteq> 0 then Some (res, s) else Some (tilt_get_reply E h s))
      })"

text \<open>
  The angle is a double of the client: a number, an infinity (negative when the flag is set) or not a
  number. Every comparison with the last is false, so the clamp lets it pass. The conversion of an
  infinity or of no number to an integer is undefined in C; what the host makes of a number that the
  integer cannot hold is \<open>to_int32\<close>.
\<close>

datatype c_double = D_num real | D_inf bool | D_nan

definition clamp_angle :: "c_double \<Rightarrow> c_double" where
  "clamp_angle angle =
     (case angle of
        D_num x \<Rightarrow> D_num (if x < -31 then -31 else if x > 31 then 31 else x)
      | D_inf negative \<Rightarrow> D_num (if negative then -31 else 31)
      | D_nan \<Rightarrow> D_nan)"

definition freenect_set_tilt_degs :: "env \<Rightarrow> nat \<Rightarrow> c_double \<Rightarrow> st \<Rightarrow> (int \<times> st) option" where
  "freenect_set_tilt_degs E d angle s = do {
     dev \<leftarrow> st_devs s d;
     if dv_motor_control_with_audio_enabled dev
     then case angle of D_num x \<Rightarrow> freenect_set_tilt_degs_alt E d (to_int32 E x) s | _ \<Rightarrow> None
     else if cx_enabled_subdevices (st_ctx s) AND FREENECT_DEVICE_MOTOR = 0 then Some (0, s)
     else case clamp_angle angle of
       D_num x \<Rightarrow> do {
         let angle = e_rnd E (x * 2);
         ((ret, _), s) \<leftarrow> fnusb_control E (dv_usb_motor dev) 0x40 0x31 (word_of_int (ctrunc angle)) 0x0 [] 0 s;
         Some (ret, s)
       }
     | _ \<Rightarrow> None
   }"

section \<open>The LED\<close>

text \<open>LED_ALT_OFF = 1, LED_ALT_BLINK_GREEN = 2, LED_ALT_SOLID_GREEN = 3, LED_ALT_SOLID_RED = 4.\<close>

definition led_alt_state :: "freenect_led_options \<Rightarrow> u32" where
  "led_alt_state state =
     (if state = LED_GREEN then 3
      else if state = LED_RED then 4
      else if state = LED_YELLOW then 3
      else if state = LED_OFF then 1
      else if state = LED_BLINK_GREEN then 2
      else led_val LED_GREEN)"

definition fnusb_set_led_alt :: "env \<Rightarrow> nat option \<Rightarrow> freenect_led_options \<Rightarrow> st \<Rightarrow> int \<times> st" where
  "fnusb_set_led_alt E h state s =
     (let (tag, s) = next_tag s;
          cmd = \<lparr>mc_magic = 0x06022009, mc_tag = tag, mc_arg1 = 0, mc_cmd = 0x10,
                 mc_arg2 = led_alt_state state\<rparr>;
          ((res, _), s) = libusb_bulk_transfer E h 0x01 (encode_motor_command cmd) 20 100 s
      in if res \<noteq> 0 then (res, s) else tilt_get_reply E h s)"

definition freenect_set_led_alt :: "env \<Rightarrow> nat \<Rightarrow> freenect_led_options \<Rightarrow> st \<Rightarrow> (int \<times> st) option" where
  "freenect_set_led_alt E d state s = do {
     dev \<leftarrow> st_devs s d;
     if ud_dev (dv_usb_audio dev) = None then Some (-1, s)
     else Some (fnusb_set_led_alt E (ud_dev (dv_usb_audio dev)) state s)
   }"

definition freenect_set_led :: "env \<Rightarrow> nat \<Rightarrow> freenect_led_options \<Rightarrow> st \<Rightarrow> (int \<times> st) option" where
  "freenect_set_led E d option s = do {
     dev \<leftarrow> st_devs s d;
     if dv_motor_control_with_audio_enabled dev then freenect_set_led_alt E d option s
     else if cx_enabled_subdevices (st_ctx s) AND FREENECT_DEVICE_MOTOR = 0 then Some (0, s)
     else do {
       ((ret, _), s) \<leftarrow> fnusb_control E (dv_usb_motor dev) 0x40 0x06 (ucast (led_val option)) 0x0 [] 0 s;
       Some (ret, s)
     }
   }"

section \<open>Converting the raw state\<close>

definition freenect_get_tilt_degs :: "freenect_raw_tilt_state \<Rightarrow> real" where
  "freenect_get_tilt_degs state = real_of_int (sint (ts_tilt_angle state)) / 2"

definition freenect_get_tilt_status :: "freenect_raw_tilt_state \<Rightarrow> u8" where
  "freenect_get_tilt_status state = ts_tilt_status state"

definition freenect_get_mks_accel :: "env \<Rightarrow> freenect_raw_tilt_state \<Rightarrow> real \<times> real \<times> real" where
  "freenect_get_mks_accel E state =
     (let mks = (\<lambda>v :: u16. e_rnd E (e_rnd E (real_of_int (sint v) / 819) * 9.80665))
      in (mks (ts_accelerometer_x state), mks (ts_accelerometer_y state), mks (ts_accelerometer_z state)))"

section \<open>Lemmas\<close>

text \<open>The events that ask the motor to move, and the angle in half degrees they ask for.\<close>

definition tilt_request :: "io \<Rightarrow> int option" where
  "tilt_request ev =
     (case ev of
        IO_control _ t r v _ _ _ \<Rightarrow> if t = 0x40 \<and> r = 0x31 then Some (sint v) else None
      | IO_bulk _ ep data _ _ \<Rightarrow>
          if ep = 0x01 \<and> length data = 20 \<and> get32 data 12 = 0x803b then Some (2 * sint (get32 data 16)) else None
      | _ \<Rightarrow> None)"


lemma length_encode_motor_command: "length (encode_motor_command c) = 20"
  by (simp add: encode_motor_command_def)


lemma sint_word_of_int_small:
  "- (2 ^ 15) \<le> a \<Longrightarrow> a < 2 ^ 15 \<Longrightarrow> sint (word_of_int a :: u16) = a"
  "- (2 ^ 15) \<le> a \<Longrightarrow> a < 2 ^ 15 \<Longrightarrow> sint (word_of_int a :: u32) = a"
  unfolding int_word_sint by simp_all




section \<open>Properties\<close>


text \<open>A device whose motor is open, with the motor enabled in the context.\<close>

definition motor_state :: st where
  "motor_state = example_state
     \<lparr>st_ctx := zero_context\<lparr>cx_enabled_subdevices := FREENECT_DEVICE_MOTOR\<rparr>,
      st_devs := [0 \<mapsto> zero_device\<lparr>dv_usb_motor := zero_fnusb_dev\<lparr>ud_dev := Some 2\<rparr>\<rparr>]\<rparr>"

lemma motor_state_simps:
  "st_devs motor_state 0 = Some (zero_device\<lparr>dv_usb_motor := zero_fnusb_dev\<lparr>ud_dev := Some 2\<rparr>\<rparr>)"
  "cx_enabled_subdevices (st_ctx motor_state) = 1" "st_io motor_state = []"
  by (simp_all add: motor_state_def example_state_def)


text \<open>
  An angle that is asked for within the range reaches the motor: for a whole number of degrees
  between -31 and 31 the request carries exactly twice the angle.
\<close>

theorem freenect_set_tilt_degs_exact:
  assumes dev: "st_devs s d = Some dev" and "\<not> dv_motor_control_with_audio_enabled dev"
    and "cx_enabled_subdevices (st_ctx s) AND FREENECT_DEVICE_MOTOR \<noteq> 0" and "ud_dev (dv_usb_motor dev) \<noteq> None"
    and rnd: "e_rnd E (of_int (2 * a)) = of_int (2 * a)" and a: "-31 \<le> a" "a \<le> 31"
  shows "\<exists>r ev. freenect_set_tilt_degs E d (D_num (of_int a)) s = Some (r, emit ev s) \<and> tilt_request ev = Some (2 * a)"
proof -
  have c: "clamp_angle (D_num (of_int a)) = D_num (of_int a)" using a by (simp add: clamp_angle_def)
  have r: "ctrunc (e_rnd E (of_int a * 2)) = 2 * a"
    using rnd ctrunc_of_int [of "2 * a"] by (simp add: mult.commute)
  let ?ev = "IO_control (ud_dev (dv_usb_motor dev)) 0x40 0x31 (word_of_int (2 * a)) 0 [] 0"
  have "\<exists>ret. freenect_set_tilt_degs E d (D_num (of_int a)) s = Some (ret, emit ?ev s)"
    using assms(2-4) by (simp add: freenect_set_tilt_degs_def dev c r fnusb_control_open split: prod.split)
  moreover have "tilt_request (IO_control hnd 0x40 0x31 (word_of_int v) 0 [] 0) = Some v"
    if "- 62 \<le> v" "v \<le> 62" for v hnd
    using that by (simp add: tilt_request_def sint_word_of_int_small)
  then have "tilt_request ?ev = Some (2 * a)" using a by (metis mult_le_cancel_left_pos mult_minus_right numeral_Bit0_eq_double zero_less_numeral)
  ultimately show ?thesis by blast
qed

theorem freenect_set_tilt_degs_exact_witness:
  "\<exists>r ev. freenect_set_tilt_degs quiet_env 0 (D_num (of_int (-20))) motor_state = Some (r, emit ev motor_state) \<and>
     tilt_request ev = Some (2 * -20)"
  by (rule freenect_set_tilt_degs_exact [OF motor_state_simps(1)])
    (simp_all add: zero_device_def motor_state_simps quiet_env_def)

text \<open>
  Decoding the motor's report: the accelerometer words are the big endian pairs of bytes 2 to 7
  and the angle is byte 8 as a signed number of half degrees.
\<close>

theorem motor_tilt_state_values:
  "uint (ts_accelerometer_x (motor_tilt_state buf)) = 256 * uint (buf ! 2) + uint (buf ! 3) \<and>
   uint (ts_accelerometer_y (motor_tilt_state buf)) = 256 * uint (buf ! 4) + uint (buf ! 5) \<and>
   uint (ts_accelerometer_z (motor_tilt_state buf)) = 256 * uint (buf ! 6) + uint (buf ! 7) \<and>
   freenect_get_tilt_degs (motor_tilt_state buf) = real_of_int (sint (buf ! 8)) / 2"
proof -
  have be: "uint (push_bit 8 (ucast a) OR ucast b :: u16) = 256 * uint a + uint b" for a b :: u8
  proof -
    have "\<not> (bit (push_bit 8 (ucast a) :: u16) n \<and> bit (ucast b :: u16) n)" for n
      using bit_imp_le_length [of b n] by (auto simp: bit_simps)
    then have "push_bit 8 (ucast a) OR ucast b = (push_bit 8 (ucast a) + ucast b :: u16)"
      by (intro disjunctive_add [symmetric]) blast
    moreover have "uint a < 256" "uint b < 256" using unsigned_less [of a] unsigned_less [of b]
      by (simp_all add: uint_lt2p [where 'a = 8, simplified])
    moreover have "uint (ucast a :: u16) = uint a" "uint (ucast b :: u16) = uint b"
      using \<open>uint a < 256\<close> \<open>uint b < 256\<close> by (simp_all add: unsigned_ucast_eq take_bit_int_eq_self)
    ultimately show ?thesis
      by (simp add: push_bit_eq_mult uint_word_ariths)
  qed
  show ?thesis by (simp add: motor_tilt_state_def be freenect_get_tilt_degs_def)
qed

text \<open>
  The LED that blinks red and yellow is switched off on the models that are controlled through
  the audio device: the fall-back of fnusb_set_led_alt sends the value of LED_GREEN, which is the
  device's code for off, so the command is that of LED_OFF.
\<close>

theorem led_alt_blink_is_off:
  "fnusb_set_led_alt E h LED_BLINK_RED_YELLOW s = fnusb_set_led_alt E h LED_OFF s \<and>
   led_alt_state LED_GREEN \<noteq> led_alt_state LED_OFF"
  by (simp add: fnusb_set_led_alt_def led_alt_state_def)

end
