(* ===== verification/Usb.thy ===== *)
theory Usb
  imports Loader Tilt
begin

text \<open>
  Finding and opening the USB devices of a Kinect (src/usb_libusb10.c): counting and listing the
  cameras, the search for the motor and the audio device that belong to a camera, opening them and
  uploading the firmware to an audio device in its bootloader state, closing them.

  The list of devices is the answer of libusb_get_device_list; a device is named by a number. Memory
  for the list of attributes comes from the allocator, the other short-lived copies of strings are
  left out.
\<close>

section \<open>Devices\<close>

text \<open>libusb_get_device_list: an error or the devices.\<close>

definition get_device_list :: "env \<Rightarrow> st \<Rightarrow> (int + nat list) \<times> st" where
  "get_device_list E s =
     (let s = emit IO_get_device_list s; (cnt, devs) = e_devlist E (st_io s)
      in (if cnt < 0 then Inl cnt else Inr devs, s))"

definition get_descriptor :: "env \<Rightarrow> nat \<Rightarrow> st \<Rightarrow> (int \<times> usb_desc) \<times> st" where
  "get_descriptor E dv s = (let s = emit (IO_get_descriptor dv) s in (e_desc E (st_io s), s))"

text \<open>A failing libusb_open leaves the handle alone.\<close>

definition open_dev :: "env \<Rightarrow> nat \<Rightarrow> nat option \<Rightarrow> st \<Rightarrow> (int \<times> nat option) \<times> st" where
  "open_dev E dv h0 s =
     (let s = emit (IO_open dv) s; (res, h) = e_open E (st_io s) in ((res, if res = 0 then h else h0), s))"

text \<open>
  libusb_get_string_descriptor_ascii writes a C string: here its bytes up to the first zero. It
  leaves the buffer alone when it fails.
\<close>

definition get_serial :: "env \<Rightarrow> nat option \<Rightarrow> u8 \<Rightarrow> u8 list \<Rightarrow> st \<Rightarrow> (int \<times> u8 list) \<times> st" where
  "get_serial E h idx old s =
     (let s = emit (IO_serial h idx) s; (res, bytes) = e_serial E (st_io s)
      in ((res, if res < 0 then old else takeWhile (\<lambda>b. b \<noteq> 0) bytes), s))"

definition fnusb_is_camera :: "usb_desc \<Rightarrow> bool" where
  "fnusb_is_camera desc \<longleftrightarrow> ds_idVendor desc = VID_MICROSOFT \<and>
     (ds_idProduct desc = PID_NUI_CAMERA \<or> ds_idProduct desc = PID_K4W_CAMERA)"

definition fnusb_is_motor :: "usb_desc \<Rightarrow> bool" where
  "fnusb_is_motor desc \<longleftrightarrow> ds_idVendor desc = VID_MICROSOFT \<and> ds_idProduct desc = PID_NUI_MOTOR"

definition fnusb_is_audio :: "usb_desc \<Rightarrow> bool" where
  "fnusb_is_audio desc \<longleftrightarrow> ds_idVendor desc = VID_MICROSOFT \<and>
     (ds_idProduct desc = PID_NUI_AUDIO \<or> ds_idProduct desc = PID_K4W_AUDIO \<or>
      ds_idProduct desc = PID_K4W_AUDIO_ALT_1 \<or> ds_idProduct desc = PID_K4W_AUDIO_ALT_2)"

text \<open>The loop of fnusb_num_devices.\<close>

primrec count_cameras :: "env \<Rightarrow> nat list \<Rightarrow> int \<Rightarrow> st \<Rightarrow> int \<times> st" where
  "count_cameras E [] n s = (n, s)"
| "count_cameras E (dv # dvs) n s =
     (let ((r, desc), s) = get_descriptor E dv s
      in count_cameras E dvs (if \<not> r < 0 \<and> fnusb_is_camera desc then n + 1 else n) s)"

definition fnusb_num_devices :: "env \<Rightarrow> st \<Rightarrow> int \<times> st" where
  "fnusb_num_devices E s =
     (case get_device_list E s of
        (Inl cnt, s) \<Rightarrow> (if - (2 ^ 31) \<le> cnt then cnt else -1, s)
      | (Inr devs, s) \<Rightarrow>
          let (n, s) = count_cameras E devs 0 s in (n, emit IO_free_device_list s))"

section \<open>Sibling devices\<close>

text \<open>
  The loop: the counters and matches so far. A device on the same bus with the same parent ends it
  at once.
\<close>

record sibling_search =
  sb_total :: int
  sb_same_bus :: int
  sb_match_single :: "nat option"
  sb_match_same_bus :: "nat option"

definition bus_number :: "env \<Rightarrow> nat \<Rightarrow> st \<Rightarrow> int \<times> st" where
  "bus_number E dv s = io_int E (IO_bus_number dv) s"

definition get_parent :: "env \<Rightarrow> nat \<Rightarrow> st \<Rightarrow> nat option \<times> st" where
  "get_parent E dv s = (let s = emit (IO_parent dv) s in (e_parent E (st_io s), s))"

primrec sibling_loop ::
    "env \<Rightarrow> (usb_desc \<Rightarrow> bool) \<Rightarrow> int \<Rightarrow> nat option \<Rightarrow> nat list \<Rightarrow> sibling_search \<Rightarrow> st \<Rightarrow>
     (nat + sibling_search) \<times> st" where
  "sibling_loop E predicate bus parent [] sb s = (Inr sb, s)"
| "sibling_loop E predicate bus parent (dv # dvs) sb s =
     (let ((res, desc), s) = get_descriptor E dv s
      in if res < 0 \<or> \<not> predicate desc then sibling_loop E predicate bus parent dvs sb s
         else
           let total = sb_total sb + 1;
               sb = sb\<lparr>sb_total := total, sb_match_single := (if total = 1 then Some dv else None)\<rparr>;
               (b, s) = bus_number E dv s
           in if bus \<noteq> b then sibling_loop E predicate bus parent dvs sb s
              else
                let same = sb_same_bus sb + 1;
                    sb = sb\<lparr>sb_same_bus := same, sb_match_same_bus := (if same = 1 then Some dv else None)\<rparr>
                in if parent = None then sibling_loop E predicate bus parent dvs sb s
                   else
                     let (p, s) = get_parent E dv s
                     in if parent \<noteq> p then sibling_loop E predicate bus parent dvs sb s else (Inl dv, s))"

definition fnusb_find_sibling_device ::
    "env \<Rightarrow> nat \<Rightarrow> nat list \<Rightarrow> (usb_desc \<Rightarrow> bool) \<Rightarrow> st \<Rightarrow> nat option \<times> st" where
  "fnusb_find_sibling_device E camera deviceList predicate s =
     (if deviceList = [] then (None, s)
      else
        let (cameraBusNo, s) = bus_number E camera s
        in if cameraBusNo < 0 then (None, s)
           else
             let (cameraParent, s) = get_parent E camera s
             in case sibling_loop E predicate cameraBusNo cameraParent deviceList
                       \<lparr>sb_total = 0, sb_same_bus = 0, sb_match_single = None, sb_match_same_bus = None\<rparr> s of
                  (Inl dv, s) \<Rightarrow> (Some dv, s)
                | (Inr sb, s) \<Rightarrow>
                    (if sb_match_same_bus sb \<noteq> None then sb_match_same_bus sb
                     else if sb_match_single sb \<noteq> None then sb_match_single sb else None, s))"

section \<open>Listing the cameras\<close>

text \<open>An element of the linked list of attributes: its own block and that of the serial number.\<close>

record device_attributes =
  at_node :: ptr
  at_camera_serial :: ptr

text \<open>K4W and 1473 report sixteen zero digits; their serial number is that of the audio device.\<close>

definition audio_serial :: "env \<Rightarrow> nat \<Rightarrow> nat list \<Rightarrow> u8 list \<Rightarrow> st \<Rightarrow> u8 list \<times> st" where
  "audio_serial E camera devs serial s =
     (case fnusb_find_sibling_device E camera devs fnusb_is_audio s of
        (None, s) \<Rightarrow> (serial, s)
      | (Some audio_device, s) \<Rightarrow>
          let ((res, audio_desc), s) = get_descriptor E audio_device s
          in if res \<noteq> 0 then (serial, s)
             else
               let ((res, audio_handle), s) = open_dev E audio_device None s
               in if res \<noteq> 0 then (serial, s)
                  else
                    let ((_, serial), s) = get_serial E audio_handle (ds_iSerialNumber audio_desc) serial s
                    in (serial, emit (IO_close audio_handle) s))"

text \<open>The serial number of one device of the list, \<open>None\<close> when the loop goes on without it.\<close>

definition camera_serial_of :: "env \<Rightarrow> nat list \<Rightarrow> nat \<Rightarrow> st \<Rightarrow> u8 list option \<times> st" where
  "camera_serial_of E devs dv s =
     (let ((res, desc), s) = get_descriptor E dv s
      in if res < 0 \<or> \<not> fnusb_is_camera desc \<or> ds_iSerialNumber desc = 0 then (None, s)
         else
           let ((res, camera_handle), s) = open_dev E dv None s
           in if res \<noteq> 0 then (None, s)
              else
                let ((res, serial), s) = get_serial E camera_handle (ds_iSerialNumber desc) [] s;
                    s = emit (IO_close camera_handle) s
                in if res < 0 then (None, s)
                   else if take 16 serial = replicate 16 48
                   then (let (serial, s) = audio_serial E dv devs serial s in (Some serial, s))
                   else (Some serial, s))"

text \<open>malloc of an element (16 bytes) with memset, and strdup.\<close>

definition new_attributes :: "u8 list \<Rightarrow> heap \<Rightarrow> (device_attributes \<times> heap) option" where
  "new_attributes serial h = do {
     (node, h) \<leftarrow> malloc_zeroed 16 h;
     let (str, h) = malloc (length serial + 1) h;
     h \<leftarrow> (if str = None then Some h else mem_write str 0 (serial @ [0]) h);
     Some (\<lparr>at_node = node, at_camera_serial = str\<rparr>, h)
   }"

primrec list_loop ::
    "env \<Rightarrow> nat list \<Rightarrow> nat list \<Rightarrow> st \<Rightarrow> (device_attributes list \<times> st) option" where
  "list_loop E devs [] s = Some ([], s)"
| "list_loop E devs (dv # dvs) s =
     (let (serial, s) = camera_serial_of E devs dv s
      in case serial of
           None \<Rightarrow> list_loop E devs dvs s
         | Some serial \<Rightarrow> do {
             (attr, h) \<leftarrow> new_attributes serial (st_heap s);
             (attrs, s) \<leftarrow> list_loop E devs dvs (s\<lparr>st_heap := h\<rparr>);
             Some (attr # attrs, s)
           })"

definition fnusb_list_device_attributes ::
    "env \<Rightarrow> st \<Rightarrow> ((int \<times> device_attributes list) \<times> st) option" where
  "fnusb_list_device_attributes E s =
     (case get_device_list E s of
        (Inl cnt, s) \<Rightarrow> Some ((if - (2 ^ 31) \<le> cnt then cnt else -1, []), s)
      | (Inr devs, s) \<Rightarrow> do {
          (attrs, s) \<leftarrow> list_loop E devs devs s;
          Some ((int (length attrs), attrs), emit IO_free_device_list s)
        })"

section \<open>The libusb context\<close>

definition fnusb_init :: "env \<Rightarrow> nat option \<Rightarrow> st \<Rightarrow> int \<times> st" where
  "fnusb_init E usb_ctx s =
     (case usb_ctx of
        None \<Rightarrow>
          let (res, s) = io_int E IO_usb_init s
          in if res \<ge> 0
             then (0, s\<lparr>st_ctx := (st_ctx s)\<lparr>cx_usb_ctx := Some 0, cx_should_free_ctx := True\<rparr>\<rparr>)
             else (res, s\<lparr>st_ctx := (st_ctx s)\<lparr>cx_should_free_ctx := False, cx_usb_ctx := None\<rparr>\<rparr>)
      | Some u \<Rightarrow> (0, s\<lparr>st_ctx := (st_ctx s)\<lparr>cx_usb_ctx := Some u, cx_should_free_ctx := False\<rparr>\<rparr>))"

definition fnusb_shutdown :: "st \<Rightarrow> int \<times> st" where
  "fnusb_shutdown s =
     (if cx_should_free_ctx (st_ctx s)
      then (0, (emit (IO_usb_exit (cx_usb_ctx (st_ctx s))) s)\<lparr>st_ctx := (st_ctx s)\<lparr>cx_usb_ctx := None\<rparr>\<rparr>)
      else (0, s))"

section \<open>Opening the camera\<close>

text \<open>Closing a handle of the device and forgetting it.\<close>

definition close_cam :: "nat \<Rightarrow> st \<Rightarrow> st option" where
  "close_cam d s = do {
     dev \<leftarrow> st_devs s d;
     Some (set_dev d (dev\<lparr>dv_usb_cam := (dv_usb_cam dev)\<lparr>ud_dev := None\<rparr>\<rparr>) (emit (IO_close (ud_dev (dv_usb_cam dev))) s))
   }"

definition close_motor :: "nat \<Rightarrow> st \<Rightarrow> st option" where
  "close_motor d s = do {
     dev \<leftarrow> st_devs s d;
     Some (set_dev d (dev\<lparr>dv_usb_motor := (dv_usb_motor dev)\<lparr>ud_dev := None\<rparr>\<rparr>) (emit (IO_close (ud_dev (dv_usb_motor dev))) s))
   }"

definition close_audio :: "nat \<Rightarrow> st \<Rightarrow> st option" where
  "close_audio d s = do {
     dev \<leftarrow> st_devs s d;
     Some (set_dev d (dev\<lparr>dv_usb_audio := (dv_usb_audio dev)\<lparr>ud_dev := None\<rparr>\<rparr>) (emit (IO_close (ud_dev (dv_usb_audio dev))) s))
   }"

definition fnusb_claim_camera :: "env \<Rightarrow> nat \<Rightarrow> st \<Rightarrow> (int \<times> st) option" where
  "fnusb_claim_camera E d s = do {
     dev \<leftarrow> st_devs s d;
     let h = ud_dev (dv_usb_cam dev);
     let (ret, s) = io_int E (IO_kernel_driver_active h) s;
     let (ret, s) = (if ret = 1 then io_int E (IO_detach h) s else (0, s));
     if ret < 0 then do { s \<leftarrow> close_cam d s; Some (ret, s) }
     else do {
       let (ret, s) = io_int E (IO_claim h) s;
       if ret < 0 then do { s \<leftarrow> close_cam d s; Some (ret, s) }
       else if ud_PID (dv_usb_cam dev) = PID_K4W_CAMERA
       then do {
         let (ret, s) = io_int E (IO_set_alt h) s;
         if ret \<noteq> 0 then do { s \<leftarrow> close_cam d s; Some (ret, s) } else Some (ret, s)
       }
       else Some (ret, s)
     }
   }"

text \<open>
  The LED is set on the second handle; when the device cannot be claimed, the handle is closed and the
  error returned.
\<close>

definition fnusb_keep_alive_led :: "env \<Rightarrow> nat option \<Rightarrow> st \<Rightarrow> int \<times> st" where
  "fnusb_keep_alive_led E audio s =
     (case audio of
        None \<Rightarrow> (-1, s)
      | Some audio \<Rightarrow>
          let ((res, h), s) = open_dev E audio None s
          in if res < 0 then (res, s)
             else
               let (_, s) = io_int E (IO_reset h) s;
                   s = emit (IO_close h) s;
                   ((res, h), s) = open_dev E audio h s
               in if res < 0 then (res, s)
                  else
                    let (res, s) = io_int E (IO_claim h) s;
                        s = (if res < 0 then s
                             else let (_, s) = fnusb_set_led_alt E h LED_GREEN s in emit (IO_release h) s)
                    in (res, emit (IO_close h) s))"

text \<open>The new devices have no motor; with them, the audio device moves the tilt and sets the LED.\<close>

definition select_for_model :: "env \<Rightarrow> nat \<Rightarrow> nat list \<Rightarrow> nat \<Rightarrow> usb_desc \<Rightarrow> st \<Rightarrow> st option" where
  "select_for_model E d devs camera desc s =
     (if ds_idProduct desc = PID_K4W_CAMERA \<or> ds_bcdDevice desc \<noteq> 267
      then do {
        let requested = cx_enabled_subdevices (st_ctx s);
        dev \<leftarrow> st_devs s d;
        let s = set_dev d (dev\<lparr>dv_device_does_motor_control_with_audio := True\<rparr>)
                  (s\<lparr>st_ctx := (st_ctx s)\<lparr>cx_enabled_subdevices := requested AND NOT FREENECT_DEVICE_MOTOR,
                     cx_zero_plane_res := 334\<rparr>\<rparr>);
        let (audio, s) = fnusb_find_sibling_device E camera devs fnusb_is_audio s;
        let (_, s) = fnusb_keep_alive_led E audio s;
        Some (if requested AND FREENECT_DEVICE_MOTOR \<noteq> 0 \<and> requested AND FREENECT_DEVICE_AUDIO = 0
              then s\<lparr>st_ctx := (st_ctx s)\<lparr>cx_enabled_subdevices :=
                      cx_enabled_subdevices (st_ctx s) OR FREENECT_DEVICE_AUDIO\<rparr>\<rparr>
              else s)
      }
      else Some (s\<lparr>st_ctx := (st_ctx s)\<lparr>cx_zero_plane_res := 322\<rparr>\<rparr>))"

text \<open>
  The steps of fnusb_open_subdevices end with \<open>Inl\<close> the result with which the code jumps to its
  failure label, or with \<open>Inr\<close> the result so far.
\<close>

definition open_camera :: "env \<Rightarrow> nat \<Rightarrow> nat list \<Rightarrow> nat \<Rightarrow> usb_desc \<Rightarrow> st \<Rightarrow> ((int + int) \<times> st) option" where
  "open_camera E d devs camera desc s = do {
     dev \<leftarrow> st_devs s d;
     let ((res, h), s) = open_dev E camera (ud_dev (dv_usb_cam dev)) s;
     let s = set_dev d (dev\<lparr>dv_usb_cam := (dv_usb_cam dev)\<lparr>ud_dev := (if res < 0 then None else h)\<rparr>\<rparr>) s;
     if res < 0 \<or> h = None then Some (Inl res, s)
     else do {
       s \<leftarrow> select_for_model E d devs camera desc s;
       dev \<leftarrow> st_devs s d;
       let s = set_dev d (dev\<lparr>dv_usb_cam := (dv_usb_cam dev)\<lparr>ud_VID := ds_idVendor desc, ud_PID := ds_idProduct desc\<rparr>\<rparr>) s;
       (res, s) \<leftarrow> fnusb_claim_camera E d s;
       Some (if res < 0 then Inl res else Inr res, s)
     }
   }"

text \<open>The loop that looks for the camera with the index, with the result and the camera found.\<close>

primrec camera_loop ::
    "env \<Rightarrow> nat \<Rightarrow> nat list \<Rightarrow> int \<Rightarrow> nat list \<Rightarrow> int \<Rightarrow> int \<Rightarrow> st \<Rightarrow> ((int + int \<times> nat option) \<times> st) option" where
  "camera_loop E d devs index [] nr_cam res s = Some (Inr (res, None), s)"
| "camera_loop E d devs index (dv # dvs) nr_cam res0 s =
     (let ((res, desc), s) = get_descriptor E dv s
      in if res < 0 \<or> \<not> fnusb_is_camera desc then camera_loop E d devs index dvs nr_cam res s
         else if nr_cam \<noteq> index then camera_loop E d devs index dvs (nr_cam + 1) res s
         else if cx_enabled_subdevices (st_ctx s) AND FREENECT_DEVICE_CAMERA \<noteq> 0
         then do {
           (r, s) \<leftarrow> open_camera E d devs dv desc s;
           Some (case r of Inl e \<Rightarrow> Inl e | Inr res \<Rightarrow> Inr (res, Some dv), s)
         }
         else Some (Inr (res, Some dv), s))"

section \<open>Opening the motor\<close>

definition open_motor :: "env \<Rightarrow> nat \<Rightarrow> nat list \<Rightarrow> nat \<Rightarrow> st \<Rightarrow> ((int + int) \<times> st) option" where
  "open_motor E d devs camera s =
     (case fnusb_find_sibling_device E camera devs fnusb_is_motor s of
        (None, s) \<Rightarrow> Some (Inl (-1), s)
      | (Some motor, s) \<Rightarrow>
          let ((res, desc), s) = get_descriptor E motor s
          in if res < 0 then Some (Inl res, s)
             else do {
               dev \<leftarrow> st_devs s d;
               let ((res, h), s) = open_dev E motor (ud_dev (dv_usb_motor dev)) s;
               let s = set_dev d (dev\<lparr>dv_usb_motor := (dv_usb_motor dev)\<lparr>ud_dev := (if res < 0 then None else h)\<rparr>\<rparr>) s;
               if res < 0 \<or> h = None then Some (Inl res, s)
               else do {
                 let (res, s) = io_int E (IO_claim h) s;
                 if res < 0 then do { s \<leftarrow> close_motor d s; Some (Inl res, s) }
                 else do {
                   dev \<leftarrow> st_devs s d;
                   Some (Inr res, set_dev d (dev\<lparr>dv_usb_motor := (dv_usb_motor dev)\<lparr>ud_VID := ds_idVendor desc,
                     ud_PID := ds_idProduct desc\<rparr>\<rparr>) s)
                 }
               }
             })"

section \<open>Opening the audio device\<close>

text \<open>With the right firmware, the audio device of the new models controls the motor.\<close>

definition enable_motor_with_audio :: "nat \<Rightarrow> st \<Rightarrow> st option" where
  "enable_motor_with_audio d s = do {
     dev \<leftarrow> st_devs s d;
     Some (if dv_device_does_motor_control_with_audio dev
           then set_dev d (dev\<lparr>dv_motor_control_with_audio_enabled := True\<rparr>) s else s)
   }"

text \<open>
  One pass over the devices in search of the serial number: it ends when the device is found, with
  its handle in the audio device. A handle whose serial number is another one is not closed.
\<close>

primrec scan_audio :: "env \<Rightarrow> nat \<Rightarrow> u8 list \<Rightarrow> nat list \<Rightarrow> st \<Rightarrow> st option" where
  "scan_audio E d serial [] s = Some s"
| "scan_audio E d serial (dv # dvs) s =
     (let ((r, new_desc), s) = get_descriptor E dv s
      in if r < 0 \<or> \<not> fnusb_is_audio new_desc then scan_audio E d serial dvs s
         else
           let ((r, h), s) = open_dev E dv None s
           in if r < 0 then scan_audio E d serial dvs s
              else
                let ((r, new_serial), s) = get_serial E h (ds_iSerialNumber new_desc) [] s
                in if r < 0 then scan_audio E d serial dvs (emit (IO_close h) s)
                   else if r = int (length serial) \<and> new_serial = serial
                   then
                     let (r, s) = io_int E (IO_claim h) s
                     in if r \<noteq> 0 then scan_audio E d serial dvs (emit (IO_close h) s)
                        else do {
                          dev \<leftarrow> st_devs s d;
                          let s = set_dev d (dev\<lparr>dv_usb_audio := (dv_usb_audio dev)\<lparr>ud_dev := h\<rparr>\<rparr>) s;
                          let (n, s) = fnusb_num_interfaces E ((dv_usb_audio dev)\<lparr>ud_dev := h\<rparr>) s;
                          if n \<ge> 2 then enable_motor_with_audio d s
                          else do { s \<leftarrow> close_audio d s; scan_audio E d serial dvs s }
                        }
                   else scan_audio E d serial dvs s)"

text \<open>Ten tries, one second apart; when the list cannot be got, an uninitialised pointer is freed.\<close>

primrec wait_audio :: "env \<Rightarrow> nat \<Rightarrow> u8 list \<Rightarrow> nat \<Rightarrow> st \<Rightarrow> st option" where
  "wait_audio E d serial 0 s = Some s"
| "wait_audio E d serial (Suc n) s =
     (case get_device_list E s of
        (Inl cnt, s) \<Rightarrow> None
      | (Inr devs, s) \<Rightarrow> do {
          s \<leftarrow> scan_audio E d serial devs s;
          let s = emit IO_free_device_list s;
          dev \<leftarrow> st_devs s d;
          if ud_dev (dv_usb_audio dev) \<noteq> None then Some s else wait_audio E d serial n (emit (IO_sleep 1) s)
        })"

text \<open>The choice of the firmware.\<close>

definition upload_audio_firmware :: "env \<Rightarrow> nat \<Rightarrow> usb_desc \<Rightarrow> st \<Rightarrow> (int \<times> st) option" where
  "upload_audio_firmware E d desc s =
     (case (ds_idProduct desc = PID_NUI_AUDIO, cx_fn_fw_nui (st_ctx s)) of
        (True, Some (b # fw)) \<Rightarrow> upload_firmware_from_memory E d (b # fw) s
      | _ \<Rightarrow>
          (case (ds_idProduct desc = PID_K4W_AUDIO, cx_fn_fw_k4w (st_ctx s)) of
             (True, Some (b # fw)) \<Rightarrow> upload_firmware_from_memory E d (b # fw) s
           | _ \<Rightarrow> upload_firmware E d ''audios.bin'' s))"

text \<open>A device in its bootloader: the firmware is uploaded and the device awaited.\<close>

definition boot_audio :: "env \<Rightarrow> nat \<Rightarrow> usb_desc \<Rightarrow> st \<Rightarrow> ((int + int) \<times> st) option" where
  "boot_audio E d desc s = do {
     dev \<leftarrow> st_devs s d;
     let ((res, serial), s) = get_serial E (ud_dev (dv_usb_audio dev)) (ds_iSerialNumber desc) [] s;
     if res < 0 then Some (Inl res, s)
     else do {
       (res, s) \<leftarrow> upload_audio_firmware E d desc s;
       if res < 0 then Some (Inl res, s)
       else do {
         s \<leftarrow> close_audio d s;
         s \<leftarrow> wait_audio E d serial 10 s;
         Some (Inr res, s)
       }
     }
   }"

definition open_audio :: "env \<Rightarrow> nat \<Rightarrow> nat list \<Rightarrow> nat \<Rightarrow> st \<Rightarrow> ((int + int) \<times> st) option" where
  "open_audio E d devs camera s =
     (case fnusb_find_sibling_device E camera devs fnusb_is_audio s of
        (None, s) \<Rightarrow> Some (Inl (-1), s)
      | (Some audio, s) \<Rightarrow>
          let ((res, desc), s) = get_descriptor E audio s
          in if res < 0 then Some (Inl res, s)
             else do {
               dev \<leftarrow> st_devs s d;
               let ((res, h), s) = open_dev E audio (ud_dev (dv_usb_audio dev)) s;
               let s = set_dev d (dev\<lparr>dv_usb_audio := (dv_usb_audio dev)\<lparr>ud_dev := (if res < 0 then None else h)\<rparr>\<rparr>) s;
               if res < 0 \<or> h = None then Some (Inl res, s)
               else do {
                 let (res, s) = io_int E (IO_claim h) s;
                 if res < 0 then do { s \<leftarrow> close_audio d s; Some (Inl res, s) }
                 else do {
                   dev \<leftarrow> st_devs s d;
                   let audio = (dv_usb_audio dev)\<lparr>ud_VID := ds_idVendor desc, ud_PID := ds_idProduct desc\<rparr>;
                   let s = set_dev d (dev\<lparr>dv_usb_audio := audio\<rparr>) s;
                   let (n, s) = fnusb_num_interfaces E audio s;
                   if n \<ge> 2 then do { s \<leftarrow> enable_motor_with_audio d s; Some (Inr res, s) }
                   else boot_audio E d desc s
                 }
               }
             })"

section \<open>Opening and closing the subdevices\<close>

definition close_handle :: "nat \<Rightarrow> (freenect_device \<Rightarrow> fnusb_dev) \<Rightarrow> bool \<Rightarrow> (nat \<Rightarrow> st \<Rightarrow> st option) \<Rightarrow> st \<Rightarrow> st option" where
  "close_handle d sel attach close s = do {
     dev \<leftarrow> st_devs s d;
     let h = ud_dev (sel dev);
     if h = None then Some s
     else let s = emit (IO_release h) s
          in close d (if attach then emit (IO_attach h) s else s)
   }"

definition fnusb_close_subdevices :: "nat \<Rightarrow> st \<Rightarrow> (int \<times> st) option" where
  "fnusb_close_subdevices d s = do {
     s \<leftarrow> close_handle d dv_usb_cam True close_cam s;
     s \<leftarrow> close_handle d dv_usb_motor False close_motor s;
     s \<leftarrow> close_handle d dv_usb_audio False close_audio s;
     Some (0, s)
   }"

text \<open>The three steps, each taken when its device is enabled at that moment.\<close>

definition open_steps :: "env \<Rightarrow> nat \<Rightarrow> int \<Rightarrow> nat list \<Rightarrow> st \<Rightarrow> ((int + int) \<times> st) option" where
  "open_steps E d index devs s = do {
     (r, s) \<leftarrow> camera_loop E d devs index devs 0 0 s;
     case r of
       Inl e \<Rightarrow> Some (Inl e, s)
     | Inr (res, None) \<Rightarrow> Some (Inl (-1), s)
     | Inr (res, Some camera) \<Rightarrow>
         if res < 0 then Some (Inl (-1), s)
         else do {
           (r, s) \<leftarrow> (if cx_enabled_subdevices (st_ctx s) AND FREENECT_DEVICE_MOTOR \<noteq> 0
                     then open_motor E d devs camera s else Some (Inr res, s));
           case r of
             Inl e \<Rightarrow> Some (Inl e, s)
           | Inr res \<Rightarrow>
               (if cx_enabled_subdevices (st_ctx s) AND FREENECT_DEVICE_AUDIO \<noteq> 0
                then open_audio E d devs camera s else Some (Inr res, s))
         }
   }"

definition all_open :: "freenect_device \<Rightarrow> u32 \<Rightarrow> bool" where
  "all_open dev enabled \<longleftrightarrow>
     (ud_dev (dv_usb_cam dev) \<noteq> None \<or> enabled AND FREENECT_DEVICE_CAMERA = 0) \<and>
     (ud_dev (dv_usb_motor dev) \<noteq> None \<or> enabled AND FREENECT_DEVICE_MOTOR = 0) \<and>
     (ud_dev (dv_usb_audio dev) \<noteq> None \<or> enabled AND FREENECT_DEVICE_AUDIO = 0)"

definition fnusb_open_subdevices :: "env \<Rightarrow> nat \<Rightarrow> int \<Rightarrow> st \<Rightarrow> (int \<times> st) option" where
  "fnusb_open_subdevices E d index s = do {
     dev \<leftarrow> st_devs s d;
     let s = set_dev d (dev\<lparr>dv_device_does_motor_control_with_audio := False,
               dv_motor_control_with_audio_enabled := False,
               dv_usb_cam := (dv_usb_cam dev)\<lparr>ud_dev := None\<rparr>, dv_usb_motor := (dv_usb_motor dev)\<lparr>ud_dev := None\<rparr>,
               dv_usb_audio := (dv_usb_audio dev)\<lparr>ud_dev := None\<rparr>\<rparr>) s;
     case get_device_list E s of
       (Inl cnt, s) \<Rightarrow> Some (-1, s)
     | (Inr devs, s) \<Rightarrow> do {
         (r, s) \<leftarrow> open_steps E d index devs s;
         dev \<leftarrow> st_devs s d;
         case r of
           Inr res \<Rightarrow>
             if all_open dev (cx_enabled_subdevices (st_ctx s)) then Some (res, emit IO_free_device_list s)
             else do { (_, s) \<leftarrow> fnusb_close_subdevices d s; Some (res, emit IO_free_device_list s) }
         | Inl res \<Rightarrow> do { (_, s) \<leftarrow> fnusb_close_subdevices d s; Some (res, emit IO_free_device_list s) }
       }
   }"

section \<open>A world that does not change\<close>

text \<open>
  The descriptor of a device, if it can be read, its bus and its parent are always the same ones.
\<close>

definition stable :: "env \<Rightarrow> (nat \<Rightarrow> usb_desc option) \<Rightarrow> (nat \<Rightarrow> int) \<Rightarrow> (nat \<Rightarrow> nat option) \<Rightarrow> bool" where
  "stable E dsc bus par \<longleftrightarrow>
     (\<forall>dv io. (case dsc dv of None \<Rightarrow> fst (e_desc E (IO_get_descriptor dv # io)) < 0
               | Some ds \<Rightarrow> e_desc E (IO_get_descriptor dv # io) = (0, ds)) \<and>
       e_int E (IO_bus_number dv # io) = bus dv \<and> e_parent E (IO_parent dv # io) = par dv)"

abbreviation has_desc :: "(nat \<Rightarrow> usb_desc option) \<Rightarrow> (usb_desc \<Rightarrow> bool) \<Rightarrow> nat \<Rightarrow> bool" where
  "has_desc dsc P dv \<equiv> (case dsc dv of None \<Rightarrow> False | Some ds \<Rightarrow> P ds)"

lemma stable_descriptor:
  assumes "stable E dsc bus par"
  obtains res ds where "get_descriptor E dv s = ((res, ds), emit (IO_get_descriptor dv) s)"
    and "res < 0 \<longleftrightarrow> dsc dv = None" and "\<And>d. dsc dv = Some d \<Longrightarrow> ds = d"
proof -
  obtain res ds where r: "e_desc E (IO_get_descriptor dv # st_io s) = (res, ds)" by fastforce
  have "case dsc dv of None \<Rightarrow> fst (e_desc E (IO_get_descriptor dv # st_io s)) < 0
      | Some ds \<Rightarrow> e_desc E (IO_get_descriptor dv # st_io s) = (0, ds)"
    using assms by (simp add: stable_def)
  with r show thesis
    by (intro that [of res ds]) (auto simp: get_descriptor_def Let_def split: option.splits)
qed

lemma stable_bus: "stable E dsc bus par \<Longrightarrow> bus_number E dv s = (bus dv, emit (IO_bus_number dv) s)"
  by (simp add: stable_def bus_number_def io_int_def Let_def)

lemma stable_parent: "stable E dsc bus par \<Longrightarrow> get_parent E dv s = (par dv, emit (IO_parent dv) s)"
  by (simp add: stable_def get_parent_def Let_def)

lemma count_cameras_stable:
  assumes "stable E dsc bus par"
  shows "\<exists>evs. count_cameras E devs n s = (n + int (length (filter (has_desc dsc fnusb_is_camera) devs)), s\<lparr>st_io := evs @ st_io s\<rparr>)"
proof (induction devs arbitrary: n s)
  case Nil
  show ?case by (intro exI [of _ "[]"]) simp
next
  case (Cons dv dvs)
  obtain res ds where d: "get_descriptor E dv s = ((res, ds), emit (IO_get_descriptor dv) s)"
    "res < 0 \<longleftrightarrow> dsc dv = None" "\<And>d. dsc dv = Some d \<Longrightarrow> ds = d"
    using stable_descriptor [OF assms] by metis
  let ?n = "if \<not> res < 0 \<and> fnusb_is_camera ds then n + 1 else n"
  from Cons.IH [of ?n "emit (IO_get_descriptor dv) s"] obtain evs where
    "count_cameras E dvs ?n (emit (IO_get_descriptor dv) s) =
      (?n + int (length (filter (has_desc dsc fnusb_is_camera) dvs)),
       (emit (IO_get_descriptor dv) s)\<lparr>st_io := evs @ st_io (emit (IO_get_descriptor dv) s)\<rparr>)" by blast
  then show ?case using d
    by (intro exI [of _ "evs @ [IO_get_descriptor dv]"]) (cases "dsc dv"; simp add: emit_def)
qed

text \<open>
  freenect_num_devices counts the devices of the list that are cameras of a Kinect, ignoring those
  whose descriptor cannot be read.
\<close>

theorem fnusb_num_devices_counts:
  assumes "stable E dsc bus par" and "get_device_list E s = (Inr devs, s1)"
  shows "fst (fnusb_num_devices E s) = int (length (filter (has_desc dsc fnusb_is_camera) devs))"
  using count_cameras_stable [OF assms(1), of devs 0 s1] assms(2) by (auto simp: fnusb_num_devices_def Let_def)

section \<open>The sibling of a camera\<close>

text \<open>The devices that match, those of them on the bus, and those of these with the parent.\<close>

definition siblings_on :: "(nat \<Rightarrow> int) \<Rightarrow> int \<Rightarrow> nat list \<Rightarrow> nat list" where
  "siblings_on bus b devs = filter (\<lambda>dv. bus dv = b) devs"

definition siblings_under :: "(nat \<Rightarrow> nat option) \<Rightarrow> nat option \<Rightarrow> nat list \<Rightarrow> nat list" where
  "siblings_under par p devs = filter (\<lambda>dv. p \<noteq> None \<and> par dv = p) devs"

definition only :: "nat list \<Rightarrow> nat option" where
  "only xs = (case xs of [x] \<Rightarrow> Some x | _ \<Rightarrow> None)"

text \<open>One of each: a match counts as the only one if none was counted before it.\<close>

definition counted :: "int \<Rightarrow> nat option \<Rightarrow> nat list \<Rightarrow> nat option" where
  "counted n m xs = (if xs = [] then m else if n + int (length xs) = 1 then Some (last xs) else None)"

lemma counted_Cons: "0 \<le> n \<Longrightarrow> counted n m (x # xs) = counted (n + 1) (if n + 1 = 1 then Some x else None) xs"
  by (auto simp: counted_def)

lemma counted_0: "counted 0 None xs = only xs"
  by (cases xs; cases "tl xs") (auto simp: counted_def only_def)

definition sibling_result ::
    "(nat \<Rightarrow> int) \<Rightarrow> (nat \<Rightarrow> nat option) \<Rightarrow> int \<Rightarrow> nat option \<Rightarrow> nat list \<Rightarrow> sibling_search \<Rightarrow> nat + sibling_search" where
  "sibling_result bus par b p ms sb =
     (let bs = siblings_on bus b ms; ps = siblings_under par p bs
      in if ps \<noteq> [] then Inl (hd ps)
         else Inr \<lparr>sb_total = sb_total sb + int (length ms), sb_same_bus = sb_same_bus sb + int (length bs),
                   sb_match_single = counted (sb_total sb) (sb_match_single sb) ms,
                   sb_match_same_bus = counted (sb_same_bus sb) (sb_match_same_bus sb) bs\<rparr>)"

lemma sibling_result_other:
  assumes "0 \<le> sb_total sb" and "bus dv \<noteq> b"
  shows "sibling_result bus par b p (dv # ms) sb = sibling_result bus par b p ms
    (sb\<lparr>sb_total := sb_total sb + 1, sb_match_single := (if sb_total sb + 1 = 1 then Some dv else None)\<rparr>)"
  using assms by (simp add: sibling_result_def siblings_on_def Let_def counted_Cons)

lemma sibling_result_bus:
  assumes "0 \<le> sb_total sb" and "0 \<le> sb_same_bus sb" and "bus dv = b" and "\<not> (p \<noteq> None \<and> par dv = p)"
  shows "sibling_result bus par b p (dv # ms) sb = sibling_result bus par b p ms
    (sb\<lparr>sb_total := sb_total sb + 1, sb_match_single := (if sb_total sb + 1 = 1 then Some dv else None),
       sb_same_bus := sb_same_bus sb + 1, sb_match_same_bus := (if sb_same_bus sb + 1 = 1 then Some dv else None)\<rparr>)"
proof -
  have "siblings_under par p (dv # xs) = siblings_under par p xs" for xs
    using assms(4) by (auto simp: siblings_under_def)
  then show ?thesis using assms by (simp add: sibling_result_def siblings_on_def Let_def counted_Cons)
qed

lemma sibling_loop_stable:
  assumes E: "stable E dsc bus par" and "0 \<le> sb_total sb" and "0 \<le> sb_same_bus sb"
  shows "fst (sibling_loop E P b p devs sb s) = sibling_result bus par b p (filter (has_desc dsc P) devs) sb"
  using assms(2,3)
proof (induction devs arbitrary: sb s)
  case Nil
  show ?case by (simp add: sibling_result_def siblings_on_def siblings_under_def counted_def)
next
  case (Cons dv dvs)
  obtain res ds where d: "get_descriptor E dv s = ((res, ds), emit (IO_get_descriptor dv) s)"
    "res < 0 \<longleftrightarrow> dsc dv = None" "\<And>d. dsc dv = Some d \<Longrightarrow> ds = d"
    using stable_descriptor [OF E] by metis
  note ops = d(1) stable_bus [OF E] stable_parent [OF E]
  show ?case
  proof (cases "has_desc dsc P dv")
    case False
    then have "res < 0 \<or> \<not> P ds" using d(2,3) by (auto split: option.splits)
    then show ?thesis using False Cons.IH [OF Cons.prems] by (simp add: ops Let_def)
  next
    case True
    then have m: "\<not> res < 0" "P ds" using d(2,3) by (auto split: option.splits)
    let ?sb1 = "sb\<lparr>sb_total := sb_total sb + 1, sb_match_single := (if sb_total sb + 1 = 1 then Some dv else None)\<rparr>"
    let ?sb2 = "?sb1\<lparr>sb_same_bus := sb_same_bus sb + 1, sb_match_same_bus := (if sb_same_bus sb + 1 = 1 then Some dv else None)\<rparr>"
    have f: "filter (has_desc dsc P) (dv # dvs) = dv # filter (has_desc dsc P) dvs" using True by simp
    consider (other) "b \<noteq> bus dv" | (bus) "b = bus dv" "\<not> (p \<noteq> None \<and> par dv = p)" | (found) "b = bus dv" "p \<noteq> None" "par dv = p"
      by blast
    then show ?thesis
    proof cases
      case other
      let ?s = "emit (IO_bus_number dv) (emit (IO_get_descriptor dv) s)"
      have "fst (sibling_loop E P b p (dv # dvs) sb s) = fst (sibling_loop E P b p dvs ?sb1 ?s)"
        using m other by (simp add: ops Let_def)
      then show ?thesis using Cons.IH [of ?sb1 ?s] Cons.prems sibling_result_other [of sb bus dv b par p] other
        unfolding f by simp
    next
      case bus
      obtain s1 where "fst (sibling_loop E P b p (dv # dvs) sb s) = fst (sibling_loop E P b p dvs ?sb2 s1)"
        using m bus by (cases p) (auto simp: ops Let_def)
      then show ?thesis using Cons.IH [of ?sb2 s1] Cons.prems sibling_result_bus [of sb bus dv b p par] bus
        unfolding f by simp
    next
      case found
      then have "fst (sibling_loop E P b p (dv # dvs) sb s) = Inl dv" using m by (auto simp: ops Let_def)
      then show ?thesis using found unfolding f by (simp add: sibling_result_def siblings_on_def siblings_under_def)
    qed
  qed
qed

text \<open>
  C23. fnusb_find_sibling_device. In a world that does not change it finds, among the devices that
  match: the first on the camera's bus with the camera's parent; failing that, the one on the camera's
  bus if there is exactly one; failing that, the one in the system if there is exactly one.
\<close>

theorem fnusb_find_sibling_device_correct:
  assumes "stable E dsc bus par" and "0 \<le> bus camera"
  shows "fst (fnusb_find_sibling_device E camera devs P s) =
    (let ms = filter (has_desc dsc P) devs; bs = siblings_on bus (bus camera) ms; ps = siblings_under par (par camera) bs
     in if ps \<noteq> [] then Some (hd ps) else if only bs \<noteq> None then only bs else only ms)"
proof (cases "devs = []")
  case True
  then show ?thesis by (simp add: fnusb_find_sibling_device_def siblings_on_def siblings_under_def only_def)
next
  case False
  let ?sb = "\<lparr>sb_total = 0, sb_same_bus = 0, sb_match_single = None, sb_match_same_bus = None\<rparr>"
  let ?s = "emit (IO_parent camera) (emit (IO_bus_number camera) s)"
  obtain r s' where l: "sibling_loop E P (bus camera) (par camera) devs ?sb ?s = (r, s')" by fastforce
  have "r = sibling_result bus par (bus camera) (par camera) (filter (has_desc dsc P) devs) ?sb"
    using sibling_loop_stable [OF assms(1), of ?sb P "bus camera" "par camera" devs ?s] l by simp
  then show ?thesis
    using False assms(2) l
    by (auto simp: fnusb_find_sibling_device_def stable_bus [OF assms(1)] stable_parent [OF assms(1)] Let_def
        sibling_result_def counted_0)
qed

section \<open>Opening: all or nothing\<close>

definition none_open :: "freenect_device \<Rightarrow> bool" where
  "none_open dev \<longleftrightarrow> ud_dev (dv_usb_cam dev) = None \<and> ud_dev (dv_usb_motor dev) = None \<and> ud_dev (dv_usb_audio dev) = None"

definition without_handles :: "freenect_device \<Rightarrow> freenect_device" where
  "without_handles dev =
     dev\<lparr>dv_usb_cam := (dv_usb_cam dev)\<lparr>ud_dev := None\<rparr>, dv_usb_motor := (dv_usb_motor dev)\<lparr>ud_dev := None\<rparr>,
         dv_usb_audio := (dv_usb_audio dev)\<lparr>ud_dev := None\<rparr>\<rparr>"

lemma none_open_without [simp]: "none_open (without_handles dev)"
  by (simp add: none_open_def without_handles_def)

lemma fnusb_dev_same [simp]: "ud_dev ud = None \<Longrightarrow> ud\<lparr>ud_dev := None\<rparr> = ud"
  by simp

lemma set_dev_idem: "st_devs s d = Some dev \<Longrightarrow> set_dev d dev s = s"
  by (simp add: set_dev_def fun_upd_idem)

text \<open>The closing of the subdevices: every handle is released and closed once.\<close>

lemma close_handle_cam:
  assumes "st_devs s d = Some dev"
  shows "\<exists>evs. close_handle d dv_usb_cam True close_cam s =
      Some (set_dev d (dev\<lparr>dv_usb_cam := (dv_usb_cam dev)\<lparr>ud_dev := None\<rparr>\<rparr>) (s\<lparr>st_io := evs @ st_io s\<rparr>)) \<and>
    (\<forall>h. count_list evs (IO_close (Some h)) = (if ud_dev (dv_usb_cam dev) = Some h then 1 else 0))"
proof (cases "ud_dev (dv_usb_cam dev)")
  case None
  then show ?thesis using assms
    by (intro exI [of _ "[]"]) (simp add: close_handle_def set_dev_idem)
next
  case (Some h)
  then show ?thesis using assms
    by (intro exI [of _ "[IO_close (Some h), IO_attach (Some h), IO_release (Some h)]"])
      (simp add: close_handle_def close_cam_def Let_def emit_def)
qed

lemma close_handle_motor:
  assumes "st_devs s d = Some dev"
  shows "\<exists>evs. close_handle d dv_usb_motor False close_motor s =
      Some (set_dev d (dev\<lparr>dv_usb_motor := (dv_usb_motor dev)\<lparr>ud_dev := None\<rparr>\<rparr>) (s\<lparr>st_io := evs @ st_io s\<rparr>)) \<and>
    (\<forall>h. count_list evs (IO_close (Some h)) = (if ud_dev (dv_usb_motor dev) = Some h then 1 else 0))"
proof (cases "ud_dev (dv_usb_motor dev)")
  case None
  then show ?thesis using assms
    by (intro exI [of _ "[]"]) (simp add: close_handle_def set_dev_idem)
next
  case (Some h)
  then show ?thesis using assms
    by (intro exI [of _ "[IO_close (Some h), IO_release (Some h)]"])
      (simp add: close_handle_def close_motor_def Let_def emit_def)
qed

lemma close_handle_audio:
  assumes "st_devs s d = Some dev"
  shows "\<exists>evs. close_handle d dv_usb_audio False close_audio s =
      Some (set_dev d (dev\<lparr>dv_usb_audio := (dv_usb_audio dev)\<lparr>ud_dev := None\<rparr>\<rparr>) (s\<lparr>st_io := evs @ st_io s\<rparr>)) \<and>
    (\<forall>h. count_list evs (IO_close (Some h)) = (if ud_dev (dv_usb_audio dev) = Some h then 1 else 0))"
proof (cases "ud_dev (dv_usb_audio dev)")
  case None
  then show ?thesis using assms
    by (intro exI [of _ "[]"]) (simp add: close_handle_def set_dev_idem)
next
  case (Some h)
  then show ?thesis using assms
    by (intro exI [of _ "[IO_close (Some h), IO_release (Some h)]"])
      (simp add: close_handle_def close_audio_def Let_def emit_def)
qed

lemma fnusb_close_subdevices_ok:
  assumes dev: "st_devs s d = Some dev"
  shows "\<exists>evs. fnusb_close_subdevices d s = Some (0, set_dev d (without_handles dev) (s\<lparr>st_io := evs @ st_io s\<rparr>)) \<and>
    (\<forall>h. count_list evs (IO_close (Some h)) =
      length (filter (\<lambda>ud. ud_dev ud = Some h) [dv_usb_cam dev, dv_usb_motor dev, dv_usb_audio dev]))"
proof -
  let ?dev1 = "dev\<lparr>dv_usb_cam := (dv_usb_cam dev)\<lparr>ud_dev := None\<rparr>\<rparr>"
  let ?dev2 = "?dev1\<lparr>dv_usb_motor := (dv_usb_motor dev)\<lparr>ud_dev := None\<rparr>\<rparr>"
  obtain e1 where 1: "close_handle d dv_usb_cam True close_cam s = Some (set_dev d ?dev1 (s\<lparr>st_io := e1 @ st_io s\<rparr>))"
    "\<forall>h. count_list e1 (IO_close (Some h)) = (if ud_dev (dv_usb_cam dev) = Some h then 1 else 0)"
    using close_handle_cam [OF dev] by blast
  let ?s1 = "set_dev d ?dev1 (s\<lparr>st_io := e1 @ st_io s\<rparr>)"
  have d1: "st_devs ?s1 d = Some ?dev1" by simp
  obtain e2 where 2: "close_handle d dv_usb_motor False close_motor ?s1 = Some (set_dev d ?dev2 (?s1\<lparr>st_io := e2 @ st_io ?s1\<rparr>))"
    "\<forall>h. count_list e2 (IO_close (Some h)) = (if ud_dev (dv_usb_motor dev) = Some h then 1 else 0)"
    using close_handle_motor [OF d1] by auto
  let ?s2 = "set_dev d ?dev2 (?s1\<lparr>st_io := e2 @ st_io ?s1\<rparr>)"
  have d2: "st_devs ?s2 d = Some ?dev2" by simp
  obtain e3 where 3: "close_handle d dv_usb_audio False close_audio ?s2 =
      Some (set_dev d (?dev2\<lparr>dv_usb_audio := (dv_usb_audio dev)\<lparr>ud_dev := None\<rparr>\<rparr>) (?s2\<lparr>st_io := e3 @ st_io ?s2\<rparr>))"
    "\<forall>h. count_list e3 (IO_close (Some h)) = (if ud_dev (dv_usb_audio dev) = Some h then 1 else 0)"
    using close_handle_audio [OF d2] by auto
  have "fnusb_close_subdevices d s = Some (0, set_dev d (without_handles dev) (s\<lparr>st_io := (e3 @ e2 @ e1) @ st_io s\<rparr>))"
    using 1(1) 2(1) 3(1) by (simp add: fnusb_close_subdevices_def without_handles_def set_dev_def)
  moreover have "\<forall>h. count_list (e3 @ e2 @ e1) (IO_close (Some h)) =
      length (filter (\<lambda>ud. ud_dev ud = Some h) [dv_usb_cam dev, dv_usb_motor dev, dv_usb_audio dev])"
    using 1(2) 2(2) 3(2) by simp
  ultimately show ?thesis by blast
qed

text \<open>A step that did not fail has a result that is not negative.\<close>

lemma open_camera_Inr: "open_camera E d devs c desc s = Some (Inr r, s') \<Longrightarrow> 0 \<le> r"
  by (auto simp: open_camera_def Let_def split: Option.bind_splits prod.splits if_splits)

lemma camera_loop_Inr: "camera_loop E d devs index dvs n r0 s = Some (Inr (r, Some c), s') \<Longrightarrow> 0 \<le> r"
proof (induction dvs arbitrary: n r0 s)
  case (Cons dv dvs)
  then show ?case
    by (auto simp: Let_def split: Option.bind_splits prod.splits if_splits sum.splits dest: open_camera_Inr)
qed simp

lemma open_motor_Inr: "open_motor E d devs c s = Some (Inr r, s') \<Longrightarrow> 0 \<le> r"
  by (auto simp: open_motor_def Let_def split: Option.bind_splits prod.splits option.splits if_splits)

lemma boot_audio_Inr: "boot_audio E d desc s = Some (Inr r, s') \<Longrightarrow> 0 \<le> r"
  by (auto simp: boot_audio_def Let_def split: Option.bind_splits prod.splits if_splits)

lemma open_audio_Inr: "open_audio E d devs c s = Some (Inr r, s') \<Longrightarrow> 0 \<le> r"
  by (auto simp: open_audio_def Let_def split: Option.bind_splits prod.splits option.splits if_splits dest: boot_audio_Inr)

lemma open_steps_Inr:
  assumes "open_steps E d index devs s = Some (Inr r, s')"
  shows "0 \<le> r"
  using assms
  by (auto simp: open_steps_def split: Option.bind_splits sum.splits prod.splits option.splits if_splits
      dest: camera_loop_Inr open_motor_Inr open_audio_Inr)

lemma fnusb_open_subdevices_cases:
  assumes "fnusb_open_subdevices E d index s = Some (r, s')"
  shows "\<exists>dev'. st_devs s' d = Some dev' \<and>
    (0 \<le> r \<and> all_open dev' (cx_enabled_subdevices (st_ctx s')) \<or> none_open dev')"
proof -
  from assms obtain dev where dev: "st_devs s d = Some dev" by (auto simp: fnusb_open_subdevices_def split: Option.bind_splits)
  let ?dev0 = "dev\<lparr>dv_device_does_motor_control_with_audio := False, dv_motor_control_with_audio_enabled := False,
     dv_usb_cam := (dv_usb_cam dev)\<lparr>ud_dev := None\<rparr>, dv_usb_motor := (dv_usb_motor dev)\<lparr>ud_dev := None\<rparr>,
     dv_usb_audio := (dv_usb_audio dev)\<lparr>ud_dev := None\<rparr>\<rparr>"
  obtain l s1 where l: "get_device_list E (set_dev d ?dev0 s) = (l, s1)" by fastforce
  have s1: "st_devs s1 = st_devs (set_dev d ?dev0 s)"
    using l by (auto simp: get_device_list_def Let_def split: prod.splits)
  show ?thesis
  proof (cases l)
    case (Inl c)
    then have "s' = s1" using assms dev l by (simp add: fnusb_open_subdevices_def)
    then show ?thesis using s1 by (simp add: none_open_def)
  next
    case (Inr devs)
    with assms dev l obtain x s2 where st: "open_steps E d index devs s1 = Some (x, s2)"
      by (auto simp: fnusb_open_subdevices_def split: Option.bind_splits)
    with assms dev l Inr obtain dev2 where dev2: "st_devs s2 d = Some dev2"
      by (auto simp: fnusb_open_subdevices_def split: Option.bind_splits)
    obtain evs where c: "fnusb_close_subdevices d s2 = Some (0, set_dev d (without_handles dev2) (s2\<lparr>st_io := evs @ st_io s2\<rparr>))"
      using fnusb_close_subdevices_ok [OF dev2] by blast
    show ?thesis
    proof (cases x)
      case (Inl e)
      then show ?thesis using assms dev l Inr st dev2 c by (auto simp: fnusb_open_subdevices_def)
    next
      case r: (Inr res)
      then have "0 \<le> res" using st open_steps_Inr by blast
      then show ?thesis using assms dev l Inr st dev2 c r
        by (auto simp: fnusb_open_subdevices_def split: if_splits)
    qed
  qed
qed

text \<open>
  C17. Opening is all or nothing. However libusb answers, when fnusb_open_subdevices returns, either
  each of the enabled devices is open, or none is; and when it returns an error, none is.
\<close>

theorem fnusb_open_subdevices_all_or_nothing:
  assumes "fnusb_open_subdevices E d index s = Some (r, s')"
  shows "\<exists>dev'. st_devs s' d = Some dev' \<and>
    (0 \<le> r \<and> all_open dev' (cx_enabled_subdevices (st_ctx s')) \<or> none_open dev')"
  using assms by (rule fnusb_open_subdevices_cases)

section \<open>An audio device that does not come back\<close>

text \<open>Every audio device stays in its bootloader, with fewer than two interfaces.\<close>

definition stuck :: "env \<Rightarrow> bool" where
  "stuck E \<longleftrightarrow> (\<forall>h io. e_int E (IO_num_interfaces h # io) < 2) \<and> (\<forall>io. 0 \<le> fst (e_devlist E (IO_get_device_list # io)))"

definition no_audio :: "nat \<Rightarrow> freenect_context \<Rightarrow> st \<Rightarrow> bool" where
  "no_audio d c s \<longleftrightarrow> st_ctx s = c \<and> (\<exists>dev. st_devs s d = Some dev \<and> ud_dev (dv_usb_audio dev) = None)"

lemma no_audio_same: "st_devs s' = st_devs s \<and> st_ctx s' = st_ctx s \<Longrightarrow> no_audio d c s' = no_audio d c s"
  by (simp add: no_audio_def)

lemma io_steps:
  "get_descriptor E dv s = (x, s') \<Longrightarrow> st_devs s' = st_devs s \<and> st_ctx s' = st_ctx s"
  "open_dev E dv h0 s = (y, s') \<Longrightarrow> st_devs s' = st_devs s \<and> st_ctx s' = st_ctx s"
  "get_serial E h idx old s = (z, s') \<Longrightarrow> st_devs s' = st_devs s \<and> st_ctx s' = st_ctx s"
  "io_int E ev s = (w, s') \<Longrightarrow> st_devs s' = st_devs s \<and> st_ctx s' = st_ctx s"
  "get_device_list E s = (l, s') \<Longrightarrow> st_devs s' = st_devs s \<and> st_ctx s' = st_ctx s"
  by (auto simp: get_descriptor_def open_dev_def get_serial_def io_int_def get_device_list_def Let_def split: prod.splits)

lemma scan_audio_stuck:
  assumes "stuck E" and "no_audio d c s"
  shows "\<exists>s'. scan_audio E d serial devs s = Some s' \<and> no_audio d c s'"
  using assms(2)
proof (induction devs arbitrary: s)
  case (Cons dv dvs)
  obtain r desc s1 where 1: "get_descriptor E dv s = ((r, desc), s1)" by (metis surj_pair)
  obtain r2 h s2 where 2: "open_dev E dv None s1 = ((r2, h), s2)" by (metis surj_pair)
  obtain r3 sn s3 where 3: "get_serial E h (ds_iSerialNumber desc) [] s2 = ((r3, sn), s3)" by (metis surj_pair)
  obtain r4 s4 where 4: "io_int E (IO_claim h) s3 = (r4, s4)" by fastforce
  have n: "no_audio d c s1" "no_audio d c s2" "no_audio d c s3" "no_audio d c s4"
    using Cons.prems no_audio_same io_steps(1) [OF 1] io_steps(2) [OF 2] io_steps(3) [OF 3] io_steps(4) [OF 4] by metis+
  have e: "no_audio d c (emit ev x) = no_audio d c x" for ev x by (simp add: no_audio_def)
  obtain dev where dev: "st_devs s4 d = Some dev" "st_ctx s4 = c" using n(4) by (auto simp: no_audio_def)
  let ?s5 = "set_dev d (dev\<lparr>dv_usb_audio := (dv_usb_audio dev)\<lparr>ud_dev := h\<rparr>\<rparr>) s4"
  obtain k s6 where 6: "fnusb_num_interfaces E ((dv_usb_audio dev)\<lparr>ud_dev := h\<rparr>) ?s5 = (k, s6)" by fastforce
  have k: "k < 2" "st_devs s6 = st_devs ?s5" "st_ctx s6 = c"
    using 6 assms(1) dev(2) by (auto simp: fnusb_num_interfaces_def stuck_def io_int_def Let_def)
  then have "\<exists>s7. close_audio d s6 = Some s7 \<and> no_audio d c s7" by (simp add: close_audio_def no_audio_def)
  then show ?case
    using 1 2 3 4 6 k(1) dev(1) n Cons.IH e by (auto simp: Let_def)
qed simp

lemma wait_audio_stuck:
  assumes "stuck E" and "no_audio d c s"
  shows "\<exists>s'. wait_audio E d serial n s = Some s' \<and> no_audio d c s'"
  using assms(2)
proof (induction n arbitrary: s)
  case (Suc n)
  obtain l s1 where 1: "get_device_list E s = (l, s1)" by fastforce
  then obtain devs where l: "l = Inr devs"
    using assms(1) by (auto simp: get_device_list_def stuck_def Let_def split: prod.splits if_splits) (metis fst_conv not_less)
  have "no_audio d c s1" using Suc.prems no_audio_same io_steps(5) [OF 1] by blast
  then obtain s2 where 2: "scan_audio E d serial devs s1 = Some s2" "no_audio d c s2"
    using scan_audio_stuck [OF assms(1)] by blast
  then have "no_audio d c (emit (IO_sleep 1) (emit IO_free_device_list s2))" by (simp add: no_audio_def)
  from Suc.IH [OF this] show ?case using 1 l 2 by (auto simp: no_audio_def)
qed simp

lemma open_audio_stuck:
  assumes "stuck E" and "open_audio E d devs c s = Some (Inr r, s')"
  shows "\<exists>cx. no_audio d cx s'"
proof -
  have boot: "\<exists>cx. no_audio d cx s'" if "boot_audio E d desc x = Some (Inr r, s')" for desc x
  proof -
    from that obtain y z serial where "close_audio d y = Some z" "wait_audio E d serial 10 z = Some s'"
      by (auto simp: boot_audio_def Let_def split: Option.bind_splits if_splits prod.splits)
    moreover have "no_audio d (st_ctx z) z" using calculation(1) by (auto simp: close_audio_def no_audio_def split: Option.bind_splits)
    ultimately show ?thesis using wait_audio_stuck [OF assms(1)] by (metis option.inject)
  qed
  have few: "fst (fnusb_num_interfaces E ud x) < 2" for ud x
    using assms(1) by (simp add: fnusb_num_interfaces_def stuck_def)
  from assms(2) show ?thesis
    by (auto simp: open_audio_def Let_def split: Option.bind_splits if_splits prod.splits option.splits
        dest: boot) (metis few fst_conv not_less)+
qed

text \<open>
  Only the wait for the audio device sleeps. Everything else is calm: it leaves the number of sleeps
  and, but for the choice of the model, the context.
\<close>

definition sleeps :: "st \<Rightarrow> nat" where
  "sleeps s = count_list (st_io s) (IO_sleep 1)"

definition calm :: "st \<Rightarrow> nat \<times> freenect_context" where
  "calm s = (sleeps s, st_ctx s)"

named_theorems keeps_calm \<open>functions that neither sleep nor change the context\<close>

lemma calm_simps [simp]:
  "ev \<noteq> IO_sleep 1 \<Longrightarrow> calm (emit ev s) = calm s" "calm (set_dev d dev s) = calm s" "calm (s\<lparr>st_heap := h\<rparr>) = calm s"
  "calm (s\<lparr>st_tag_seq := n\<rparr>) = calm s" "calm (s\<lparr>st_tag_next_ack := m\<rparr>) = calm s"
  by (simp_all add: calm_def sleeps_def emit_def set_dev_def)

lemma calmD: "calm s' = calm s \<Longrightarrow> sleeps s' = sleeps s \<and> st_ctx s' = st_ctx s"
  by (simp add: calm_def)

lemma io_int_calm: "io_int E ev s = (n, s') \<Longrightarrow> ev \<noteq> IO_sleep 1 \<longrightarrow> calm s' = calm s"
  by (auto simp: io_int_def Let_def)

lemma fnusb_bulk_calm [keeps_calm]: "fnusb_bulk E dv ep data n s = Some (r, s') \<Longrightarrow> calm s' = calm s"
  by (auto simp: fnusb_bulk_def libusb_bulk_transfer_def Let_def split: if_splits)

lemma bump_tag_calm [keeps_calm]: "bump_tag d s = Some s' \<Longrightarrow> calm s' = calm s"
  by (auto simp: bump_tag_def split: Option.bind_splits)

lemma get_reply_calm [keeps_calm]: "get_reply E d s = Some (r, s') \<Longrightarrow> calm s' = calm s"
  by (auto simp: get_reply_def Let_def split: Option.bind_splits if_splits dest!: keeps_calm)

lemma send_page_calm [keeps_calm]: "send_page E d page s = Some (r, s') \<Longrightarrow> calm s' = calm s"
proof (induction page arbitrary: s rule: length_induct)
  case (1 page)
  note run = "1.prems" [unfolded send_page.simps [of E d page s]]
  show ?case
  proof (cases "page = []")
    case False
    then have lt: "length (drop (min (length page) 512) page) < length page" by simp
    show ?thesis using run False
      by (auto simp: Let_def split: Option.bind_splits if_splits
          dest!: fnusb_bulk_calm "1.IH" [THEN spec, THEN mp, OF lt, THEN spec, THEN mp])
  qed (use run in simp)
qed

lemma upload_pages_calm [keeps_calm]: "upload_pages E d fw sz addr i left tot s = Some (r, s') \<Longrightarrow> calm s' = calm s"
proof (induction "nat left" arbitrary: addr i left tot s rule: less_induct)
  case less
  note run = less.prems [unfolded upload_pages.simps [of E d fw sz addr i left tot s] Let_def]
  show ?case
  proof (cases "page_len sz tot left \<le> 0")
    case False
    then have lt: "nat (left - page_len sz tot left) < nat left"
      by (auto simp: page_len_def Let_def split: if_splits)
    show ?thesis using run False
      by (auto split: Option.bind_splits if_splits prod.splits
          dest!: fnusb_bulk_calm send_page_calm get_reply_calm bump_tag_calm less.hyps [OF lt])
  qed (use run in simp)
qed

lemma upload_firmware_from_memory_calm [keeps_calm]:
  "upload_firmware_from_memory E d fw s = Some (r, s') \<Longrightarrow> calm s' = calm s"
  by (auto simp: upload_firmware_from_memory_def Let_def split: Option.bind_splits if_splits sum.splits prod.splits
      dest!: keeps_calm)

lemma open_first_calm [keeps_calm]: "open_first E ps s = (r, s') \<Longrightarrow> calm s' = calm s"
  by (induction ps arbitrary: s) (auto simp: Let_def split: option.splits)

lemma upload_firmware_calm [keeps_calm]: "upload_firmware E d name s = Some (r, s') \<Longrightarrow> calm s' = calm s"
  by (auto simp: upload_firmware_def Let_def split: Option.bind_splits if_splits option.splits prod.splits dest!: keeps_calm)

lemma upload_audio_firmware_calm [keeps_calm]: "upload_audio_firmware E d desc s = Some (r, s') \<Longrightarrow> calm s' = calm s"
  by (auto simp: upload_audio_firmware_def split: bool.splits option.splits list.splits dest!: keeps_calm)

lemma io_calm [keeps_calm]:
  "get_descriptor E dv s = (p, s') \<Longrightarrow> calm s' = calm s"
  "open_dev E dv h s = (q, s') \<Longrightarrow> calm s' = calm s"
  "get_serial E h i old s = (sr, s') \<Longrightarrow> calm s' = calm s"
  "get_device_list E s = (dl, s') \<Longrightarrow> calm s' = calm s"
  "bus_number E dv s = (n, s') \<Longrightarrow> calm s' = calm s"
  "get_parent E dv s = (par, s') \<Longrightarrow> calm s' = calm s"
  "fnusb_num_interfaces E ud s = (n, s') \<Longrightarrow> calm s' = calm s"
  by (auto simp: io_int_def get_descriptor_def open_dev_def get_serial_def get_device_list_def bus_number_def
      get_parent_def fnusb_num_interfaces_def Let_def split: prod.splits)

lemma sibling_loop_calm [keeps_calm]: "sibling_loop E P bus par dvs sb s = (r, s') \<Longrightarrow> calm s' = calm s"
  by (induction dvs arbitrary: sb s) (auto simp: Let_def split: prod.splits if_splits dest!: keeps_calm io_int_calm)

lemma find_sibling_calm [keeps_calm]: "fnusb_find_sibling_device E c dvs P s = (r, s') \<Longrightarrow> calm s' = calm s"
  by (auto simp: fnusb_find_sibling_device_def Let_def split: prod.splits if_splits sum.splits dest!: keeps_calm io_int_calm)

lemma close_calm [keeps_calm]:
  "close_cam d s = Some s' \<Longrightarrow> calm s' = calm s" "close_motor d s = Some s' \<Longrightarrow> calm s' = calm s"
  "close_audio d s = Some s' \<Longrightarrow> calm s' = calm s"
  by (auto simp: close_cam_def close_motor_def close_audio_def split: Option.bind_splits)

lemma claim_camera_calm [keeps_calm]: "fnusb_claim_camera E d s = Some (r, s') \<Longrightarrow> calm s' = calm s"
  by (auto simp: fnusb_claim_camera_def Let_def split: Option.bind_splits prod.splits if_splits dest!: keeps_calm io_int_calm)

lemma set_led_alt_calm [keeps_calm]: "fnusb_set_led_alt E h l s = (r, s') \<Longrightarrow> calm s' = calm s"
  by (auto simp: fnusb_set_led_alt_def next_tag_def libusb_bulk_transfer_def tilt_get_reply_def Let_def
      split: prod.splits if_splits)

lemma keep_alive_led_calm [keeps_calm]: "fnusb_keep_alive_led E a s = (r, s') \<Longrightarrow> calm s' = calm s"
  by (auto simp: fnusb_keep_alive_led_def Let_def split: option.splits prod.splits if_splits dest!: keeps_calm io_int_calm)

lemma open_motor_calm [keeps_calm]: "open_motor E d dvs c s = Some (r, s') \<Longrightarrow> calm s' = calm s"
  by (auto simp: open_motor_def Let_def split: Option.bind_splits option.splits prod.splits if_splits dest!: keeps_calm io_int_calm)

lemma enable_motor_calm [keeps_calm]: "enable_motor_with_audio d s = Some s' \<Longrightarrow> calm s' = calm s"
  by (auto simp: enable_motor_with_audio_def split: Option.bind_splits if_splits)

lemma close_subdevices_calm [keeps_calm]: "fnusb_close_subdevices d s = Some (r, s') \<Longrightarrow> calm s' = calm s"
  by (auto simp: fnusb_close_subdevices_def close_handle_def Let_def split: Option.bind_splits if_splits dest!: close_calm)

lemma sleeps_ctx [simp]: "sleeps (s\<lparr>st_ctx := c\<rparr>) = sleeps s" "sleeps (set_dev d dev s) = sleeps s"
  by (simp_all add: sleeps_def)

lemma select_for_model_sleeps: "select_for_model E d dvs c desc s = Some s' \<Longrightarrow> sleeps s' = sleeps s"
  by (auto simp: select_for_model_def Let_def split: Option.bind_splits prod.splits if_splits dest!: keeps_calm [THEN calmD])

lemma open_camera_sleeps: "open_camera E d dvs c desc s = Some (r, s') \<Longrightarrow> sleeps s' = sleeps s"
  by (auto simp: open_camera_def Let_def split: Option.bind_splits prod.splits if_splits
      dest!: keeps_calm [THEN calmD] select_for_model_sleeps)

lemma camera_loop_sleeps: "camera_loop E d devs i dvs n r0 s = Some (r, s') \<Longrightarrow> sleeps s' = sleeps s"
  by (induction dvs arbitrary: n r0 s)
    (auto simp: Let_def split: Option.bind_splits prod.splits if_splits dest!: keeps_calm [THEN calmD] open_camera_sleeps)

lemma scan_audio_calm [keeps_calm]: "scan_audio E d ser dvs s = Some s' \<Longrightarrow> calm s' = calm s"
  by (induction dvs arbitrary: s)
    (auto simp: Let_def split: Option.bind_splits prod.splits if_splits dest!: keeps_calm io_int_calm)

text \<open>Waiting in vain sleeps once for every try.\<close>

lemma wait_audio_sleeps:
  assumes "stuck E" and "no_audio d c s" and "wait_audio E d serial n s = Some s'"
  shows "sleeps s' = sleeps s + n"
  using assms(2,3)
proof (induction n arbitrary: s)
  case (Suc n)
  obtain l s1 where 1: "get_device_list E s = (l, s1)" by fastforce
  with Suc.prems(2) obtain devs where l: "l = Inr devs" by (cases l) auto
  have n1: "no_audio d c s1" using Suc.prems(1) no_audio_same io_steps(5) [OF 1] by blast
  then obtain s2 where 2: "scan_audio E d serial devs s1 = Some s2" "no_audio d c s2"
    using scan_audio_stuck [OF assms(1)] by blast
  let ?s3 = "emit (IO_sleep 1) (emit IO_free_device_list s2)"
  have n3: "no_audio d c ?s3" using 2(2) by (simp add: no_audio_def)
  have "wait_audio E d serial n ?s3 = Some s'" using Suc.prems(2) 1 l 2 by (auto simp: no_audio_def)
  from Suc.IH [OF n3 this] have "sleeps s' = sleeps ?s3 + n" .
  moreover have "sleeps ?s3 = Suc (sleeps s2)" by (simp add: sleeps_def)
  moreover have "sleeps s2 = sleeps s" using scan_audio_calm [OF 2(1)] io_calm(4) [OF 1] by (simp add: calm_def)
  ultimately show ?case by simp
qed simp

text \<open>Who slept had uploaded the firmware, and goes on with its result.\<close>

lemma boot_audio_sleeps:
  assumes "stuck E" and run: "boot_audio E d desc s = Some (r, s')" and slept: "sleeps s' \<noteq> sleeps s"
  shows "\<exists>res. r = Inr res \<and> 0 \<le> res \<and> no_audio d (st_ctx s) s'"
proof -
  from run obtain dev where dev: "st_devs s d = Some dev" by (auto simp: boot_audio_def split: Option.bind_splits)
  obtain res1 serial s1 where g: "get_serial E (ud_dev (dv_usb_audio dev)) (ds_iSerialNumber desc) [] s = ((res1, serial), s1)"
    by (metis surj_pair)
  have c1: "calm s1 = calm s" using io_calm(3) [OF g] .
  have "\<not> res1 < 0" using run dev g slept calmD [OF c1] by (auto simp: boot_audio_def)
  with run dev g obtain res2 s2 where up: "upload_audio_firmware E d desc s1 = Some (res2, s2)"
    by (auto simp: boot_audio_def split: Option.bind_splits)
  have c2: "calm s2 = calm s" using upload_audio_firmware_calm [OF up] c1 by simp
  have res2: "\<not> res2 < 0" using run dev g \<open>\<not> res1 < 0\<close> up slept calmD [OF c2] by (auto simp: boot_audio_def)
  with run dev g \<open>\<not> res1 < 0\<close> up obtain s3 where s3: "close_audio d s2 = Some s3" "wait_audio E d serial 10 s3 = Some s'" "r = Inr res2"
    by (auto simp: boot_audio_def split: Option.bind_splits)
  have "st_ctx s3 = st_ctx s" using close_calm(3) [OF s3(1)] c2 by (simp add: calm_def)
  then have "no_audio d (st_ctx s) s3" using s3(1) by (auto simp: close_audio_def no_audio_def split: Option.bind_splits)
  from wait_audio_stuck [OF assms(1) this, of serial 10] s3(2) have "no_audio d (st_ctx s) s'" by auto
  with s3(3) res2 show ?thesis by simp
qed

lemma open_audio_sleeps:
  assumes "stuck E" and run: "open_audio E d devs c s = Some (r, s')" and slept: "sleeps s' \<noteq> sleeps s"
  shows "\<exists>res. r = Inr res \<and> 0 \<le> res \<and> no_audio d (st_ctx s) s'"
proof -
  have "(\<exists>desc s1. calm s1 = calm s \<and> boot_audio E d desc s1 = Some (r, s')) \<or> calm s' = calm s"
    using run
    by (fastforce simp: open_audio_def Let_def split: Option.bind_splits option.splits prod.splits if_splits
        dest!: keeps_calm io_int_calm)
  with slept obtain desc s1 where "calm s1 = calm s" "boot_audio E d desc s1 = Some (r, s')" by (auto dest: calmD)
  with boot_audio_sleeps [OF assms(1) this(2)] slept show ?thesis by (auto dest!: calmD)
qed

lemma open_steps_sleeps:
  assumes "stuck E" and run: "open_steps E d index devs s = Some (r, s')" and slept: "sleeps s' \<noteq> sleeps s"
  shows "\<exists>res. r = Inr res \<and> 0 \<le> res \<and> no_audio d (st_ctx s') s' \<and> cx_enabled_subdevices (st_ctx s') AND FREENECT_DEVICE_AUDIO \<noteq> 0"
proof -
  have "(\<exists>camera s1. sleeps s1 = sleeps s \<and> cx_enabled_subdevices (st_ctx s1) AND FREENECT_DEVICE_AUDIO \<noteq> 0 \<and>
      open_audio E d devs camera s1 = Some (r, s')) \<or> sleeps s' = sleeps s"
    using run
    by (fastforce simp: open_steps_def split: Option.bind_splits option.splits prod.splits sum.splits if_splits
        dest!: camera_loop_sleeps open_motor_calm [THEN calmD])
  with slept obtain camera s1 where "sleeps s1 = sleeps s" "cx_enabled_subdevices (st_ctx s1) AND FREENECT_DEVICE_AUDIO \<noteq> 0"
    "open_audio E d devs camera s1 = Some (r, s')" by blast
  with open_audio_sleeps [OF assms(1) this(3)] slept show ?thesis by (auto simp: no_audio_def)
qed

text \<open>
  C36. fnusb_open_subdevices reports success with every device closed. When the firmware was uploaded
  and the audio device does not come back with its two interfaces, the code tries ten times, sleeping
  in between, then closes the camera and the motor too, and returns the result of the upload: whenever
  it has slept, its result is not negative and nothing is open.
\<close>

theorem fnusb_open_subdevices_success_closed:
  assumes "stuck E" and run: "fnusb_open_subdevices E d index s = Some (r, s')" and slept: "sleeps s' \<noteq> sleeps s"
  shows "0 \<le> r \<and> (\<exists>dev'. st_devs s' d = Some dev' \<and> none_open dev')"
proof -
  from run obtain dev where dev: "st_devs s d = Some dev" by (auto simp: fnusb_open_subdevices_def split: Option.bind_splits)
  let ?s1 = "set_dev d (dev\<lparr>dv_device_does_motor_control_with_audio := False, dv_motor_control_with_audio_enabled := False,
      dv_usb_cam := (dv_usb_cam dev)\<lparr>ud_dev := None\<rparr>, dv_usb_motor := (dv_usb_motor dev)\<lparr>ud_dev := None\<rparr>,
      dv_usb_audio := (dv_usb_audio dev)\<lparr>ud_dev := None\<rparr>\<rparr>) s"
  obtain l s2 where l: "get_device_list E ?s1 = (l, s2)" by fastforce
  then have c2: "sleeps s2 = sleeps s" using calmD [OF io_calm(4) [OF l]] by simp
  with run slept dev l obtain devs where devs: "l = Inr devs" by (cases l) (auto simp: fnusb_open_subdevices_def)
  with run dev l obtain rr s3 dev3 where st: "open_steps E d index devs s2 = Some (rr, s3)" and d3: "st_devs s3 d = Some dev3"
    by (auto simp: fnusb_open_subdevices_def split: Option.bind_splits)
  obtain evs where c: "fnusb_close_subdevices d s3 = Some (0, set_dev d (without_handles dev3) (s3\<lparr>st_io := evs @ st_io s3\<rparr>))"
    using fnusb_close_subdevices_ok [OF d3] by blast
  have fin: "sleeps (emit IO_free_device_list x) = sleeps x" for x by (simp add: sleeps_def)
  have "sleeps s3 \<noteq> sleeps s2"
    using run slept dev l devs st d3 c c2 calmD [OF close_subdevices_calm [OF c]] fin
    by (auto simp: fnusb_open_subdevices_def split: sum.splits if_splits)
  from open_steps_sleeps [OF assms(1) st this] obtain res where res: "rr = Inr res" "0 \<le> res"
    "\<not> all_open dev3 (cx_enabled_subdevices (st_ctx s3))" using d3 by (auto simp: no_audio_def all_open_def)
  with run dev l devs st d3 c have "r = res" "st_devs s' d = Some (without_handles dev3)"
    by (auto simp: fnusb_open_subdevices_def)
  then show ?thesis using res(2) by (simp add: none_open_def without_handles_def)
qed

section \<open>A handle that is lost\<close>

text \<open>
  While it looks for the audio device that has come back, the code opens every audio device to
  read its serial number. When that is another one, it goes on without closing the handle: after the
  pass, the handle is neither stored nor closed.
\<close>

theorem scan_audio_loses_handle:
  assumes "get_descriptor E dv s = ((r1, desc), s1)" and "0 \<le> r1" and "fnusb_is_audio desc"
    and "open_dev E dv None s1 = ((r2, h), s2)" and "0 \<le> r2"
    and "get_serial E h (ds_iSerialNumber desc) [] s2 = ((r3, other), s3)" and "0 \<le> r3" and "other \<noteq> serial"
  shows "scan_audio E d serial [dv] s = Some s3 \<and> st_devs s3 = st_devs s \<and>
    count_list (st_io s3) (IO_close h) = count_list (st_io s) (IO_close h) \<and>
    count_list (st_io s3) (IO_open dv) = count_list (st_io s) (IO_open dv) + 1"
proof -
  have "st_io s3 = IO_serial h (ds_iSerialNumber desc) # IO_open dv # IO_get_descriptor dv # st_io s" "st_devs s3 = st_devs s"
    using assms(1,4,6) by (auto simp: get_descriptor_def open_dev_def get_serial_def Let_def split: prod.splits)
  moreover have "scan_audio E d serial [dv] s = Some s3" using assms by (simp add: Let_def)
  ultimately show ?thesis by simp
qed

section \<open>Witnesses\<close>

text \<open>A camera and an audio device that stays in its bootloader.\<close>

definition boot_desc :: "nat \<Rightarrow> usb_desc" where
  "boot_desc dv = \<lparr>ds_idVendor = VID_MICROSOFT, ds_idProduct = (if dv = 1 then PID_NUI_CAMERA else PID_NUI_AUDIO),
     ds_bcdDevice = 267, ds_iSerialNumber = 1\<rparr>"

definition boot_env :: env where
  "boot_env = quiet_env\<lparr>e_devlist := \<lambda>_. (2, [1, 2]),
     e_desc := \<lambda>io. (case io of IO_get_descriptor dv # _ \<Rightarrow> (0, boot_desc dv) | _ \<Rightarrow> (0, boot_desc 0)),
     e_open := \<lambda>io. (case io of IO_open dv # _ \<Rightarrow> (0, Some dv) | _ \<Rightarrow> (0, None)),
     e_serial := \<lambda>_. (1, [65, 0]), e_int := \<lambda>io. (case io of IO_num_interfaces _ # _ \<Rightarrow> 1 | _ \<Rightarrow> 0)\<rparr>"

definition boot_state :: st where
  "boot_state = example_state\<lparr>st_ctx := zero_context\<lparr>cx_enabled_subdevices := 6, cx_fn_fw_nui := Some [1]\<rparr>\<rparr>"

lemma boot_stable: "stable boot_env (\<lambda>dv. Some (boot_desc dv)) (\<lambda>_. 0) (\<lambda>_. None)"
  by (simp add: stable_def boot_env_def quiet_env_def)

lemma boot_stuck: "stuck boot_env"
  by (simp add: stuck_def boot_env_def)

lemma boot_env_simps [simp]:
  "e_devlist boot_env io = (2, [1, 2])" "e_desc boot_env (IO_get_descriptor dv # io) = (0, boot_desc dv)"
  "e_open boot_env (IO_open dv # io) = (0, Some dv)" "e_serial boot_env io = (1, [65, 0])" "e_errno boot_env io = 0"
  "e_int boot_env (IO_num_interfaces h # io) = 1" "e_int boot_env (IO_claim h # io) = 0"
  "e_int boot_env (IO_kernel_driver_active h # io) = 0" "e_int boot_env (IO_bus_number dv # io) = 0"
  "e_parent boot_env io = None"
  by (simp_all add: boot_env_def quiet_env_def)

theorem fnusb_num_devices_counts_witness:
  "fst (fnusb_num_devices boot_env boot_state) = 1"
  using fnusb_num_devices_counts [OF boot_stable, of boot_state "[1, 2]"]
  by (simp add: get_device_list_def Let_def boot_desc_def fnusb_is_camera_def)

theorem fnusb_find_sibling_device_correct_witness:
  "fst (fnusb_find_sibling_device boot_env 1 [1, 2, 3] fnusb_is_camera boot_state) = Some 1 \<and>
   fst (fnusb_find_sibling_device boot_env 1 [1, 2, 3] fnusb_is_audio boot_state) = None"
  by (simp add: fnusb_find_sibling_device_correct [OF boot_stable] boot_desc_def fnusb_is_camera_def fnusb_is_audio_def
      siblings_on_def siblings_under_def only_def Let_def)

theorem scan_audio_loses_handle_witness:
  "\<exists>s3. scan_audio boot_env 0 [66] [2] boot_state = Some s3 \<and> count_list (st_io s3) (IO_open 2) = 1 \<and>
     count_list (st_io s3) (IO_close (Some 2)) = 0"
  using scan_audio_loses_handle [of boot_env 2 boot_state 0 "boot_desc 2" _ 0 "Some 2" _ 1 "[65]" _ "[66]" 0]
  by (simp add: get_descriptor_def open_dev_def get_serial_def Let_def boot_desc_def fnusb_is_audio_def
      boot_state_def example_state_def)

text \<open>What waiting in vain leaves.\<close>

definition waited :: "u8 list \<Rightarrow> nat \<Rightarrow> st \<Rightarrow> st" where
  "waited serial n s = the (wait_audio boot_env 0 serial n s)"

definition waited_dev :: "u8 list \<Rightarrow> nat \<Rightarrow> st \<Rightarrow> freenect_device" where
  "waited_dev serial n s = the (st_devs (waited serial n s) 0)"

lemma waited_simps:
  assumes "st_devs s 0 = Some dev" and "ud_dev (dv_usb_audio dev) = None"
  shows "wait_audio boot_env 0 serial n s = Some (waited serial n s)" and "st_ctx (waited serial n s) = st_ctx s"
    and "st_devs (waited serial n s) 0 = Some (waited_dev serial n s)"
    and "ud_dev (dv_usb_audio (waited_dev serial n s)) = None" and "sleeps (waited serial n s) = sleeps s + n"
proof -
  have none: "no_audio 0 (st_ctx s) s" using assms by (simp add: no_audio_def)
  then show "sleeps (waited serial n s) = sleeps s + n"
    using wait_audio_stuck [OF boot_stuck none, of serial n] wait_audio_sleeps [OF boot_stuck none, of serial n]
    by (auto simp: waited_def)
  from wait_audio_stuck [OF boot_stuck none, of serial n]
  show "wait_audio boot_env 0 serial n s = Some (waited serial n s)" "st_ctx (waited serial n s) = st_ctx s"
    "st_devs (waited serial n s) 0 = Some (waited_dev serial n s)"
    "ud_dev (dv_usb_audio (waited_dev serial n s)) = None"
    by (auto simp: waited_def waited_dev_def no_audio_def)
qed

lemma boot_camera:
  assumes "st_devs s 0 = Some dev" and "st_ctx s = st_ctx boot_state"
  shows "\<exists>s'. camera_loop boot_env 0 [1, 2] 0 [1, 2] 0 0 s = Some (Inr (0, Some 1), s') \<and>
    st_devs s' 0 \<noteq> None \<and> st_ctx s' = (st_ctx boot_state)\<lparr>cx_zero_plane_res := 322\<rparr>"
  using assms
  by (simp add: get_descriptor_def boot_desc_def fnusb_is_camera_def open_camera_def open_dev_def select_for_model_def
      fnusb_claim_camera_def io_int_def Let_def boot_state_def)

lemma boot_audio_device:
  assumes "st_devs s 0 = Some dev" and "st_ctx s = (st_ctx boot_state)\<lparr>cx_zero_plane_res := 322\<rparr>"
  shows "\<exists>s'. open_audio boot_env 0 [1, 2] 1 s = Some (Inr 0, s') \<and>
    st_devs s' 0 \<noteq> None \<and> st_ctx s' = (st_ctx boot_state)\<lparr>cx_zero_plane_res := 322\<rparr> \<and> sleeps s' = sleeps s + 10"
proof -
  have sib: "\<exists>y. fnusb_find_sibling_device boot_env 1 [1, 2] fnusb_is_audio s = (Some 2, y) \<and> st_devs y = st_devs s \<and> st_ctx y = st_ctx s"
    by (simp add: fnusb_find_sibling_device_def stable_bus [OF boot_stable] stable_parent [OF boot_stable] get_descriptor_def
      boot_desc_def fnusb_is_audio_def Let_def)
  then obtain y where y: "fnusb_find_sibling_device boot_env 1 [1, 2] fnusb_is_audio s = (Some 2, y)" "st_devs y = st_devs s" "st_ctx y = st_ctx s"
    by blast
  have sly: "sleeps y = sleeps s" using calmD [OF find_sibling_calm [OF y(1)]] by simp
  have em: "ev \<noteq> IO_sleep 1 \<Longrightarrow> sleeps (emit ev x) = sleeps x" for ev x by (simp add: sleeps_def)
  have small: "upload_firmware_from_memory boot_env 0 [1] x = Some (0, x)" for x
    by (simp add: upload_firmware_from_memory_def Let_def)
  show ?thesis using assms y sly
    by (simp add: em open_audio_def get_descriptor_def open_dev_def io_int_def fnusb_num_interfaces_def boot_audio_def get_serial_def
      upload_audio_firmware_def small close_audio_def waited_simps Let_def boot_desc_def boot_state_def)
qed

lemma boot_run: "\<exists>s'. fnusb_open_subdevices boot_env 0 0 boot_state = Some (0, s') \<and> sleeps s' \<noteq> sleeps boot_state"
proof -
  let ?dev = "zero_device\<lparr>dv_usb_cam := zero_fnusb_dev\<lparr>ud_dev := Some 1\<rparr>\<rparr>"
  let ?closed = "?dev\<lparr>dv_device_does_motor_control_with_audio := False, dv_motor_control_with_audio_enabled := False,
     dv_usb_cam := (dv_usb_cam ?dev)\<lparr>ud_dev := None\<rparr>, dv_usb_motor := (dv_usb_motor ?dev)\<lparr>ud_dev := None\<rparr>,
     dv_usb_audio := (dv_usb_audio ?dev)\<lparr>ud_dev := None\<rparr>\<rparr>"
  let ?s1 = "emit IO_get_device_list (set_dev 0 ?closed boot_state)"
  have dev: "st_devs boot_state 0 = Some ?dev" by (simp add: boot_state_def example_state_def)
  have l: "get_device_list boot_env (set_dev 0 ?closed boot_state) = (Inr [1, 2], ?s1)" by (simp add: get_device_list_def Let_def)
  have d1: "st_devs ?s1 0 = Some ?closed" "st_ctx ?s1 = st_ctx boot_state" by simp_all
  obtain s2 where 2: "camera_loop boot_env 0 [1, 2] 0 [1, 2] 0 0 ?s1 = Some (Inr (0, Some 1), s2)" "st_devs s2 0 \<noteq> None"
    "st_ctx s2 = (st_ctx boot_state)\<lparr>cx_zero_plane_res := 322\<rparr>" using boot_camera [OF d1] by blast
  then obtain dev2 where "st_devs s2 0 = Some dev2" by blast
  from boot_audio_device [OF this 2(3)] obtain s3 where
    3: "open_audio boot_env 0 [1, 2] 1 s2 = Some (Inr 0, s3)" "st_devs s3 0 \<noteq> None"
    "st_ctx s3 = (st_ctx boot_state)\<lparr>cx_zero_plane_res := 322\<rparr>" "sleeps s3 = sleeps s2 + 10" by blast
  then obtain dev3 where dev3: "st_devs s3 0 = Some dev3" by blast
  have st: "open_steps boot_env 0 0 [1, 2] ?s1 = Some (Inr 0, s3)"
    using 2(1,3) 3(1) by (simp add: open_steps_def boot_state_def)
  obtain evs where c: "fnusb_close_subdevices 0 s3 = Some (0, set_dev 0 (without_handles dev3) (s3\<lparr>st_io := evs @ st_io s3\<rparr>))"
    using fnusb_close_subdevices_ok [OF dev3] by blast
  have em: "ev \<noteq> IO_sleep 1 \<Longrightarrow> sleeps (emit ev x) = sleeps x" for ev x by (simp add: sleeps_def)
  have "sleeps s2 = sleeps boot_state" using camera_loop_sleeps [OF 2(1)] by (simp add: em)
  moreover have "sleeps ?s1 = sleeps boot_state" by (simp add: em)
  ultimately have "sleeps s3 \<noteq> sleeps ?s1" using 3(4) by simp
  from open_steps_sleeps [OF boot_stuck st this] dev3 have shut: "\<not> all_open dev3 6"
    by (auto simp: no_audio_def all_open_def 3(3) boot_state_def)
  have "sleeps s2 = sleeps boot_state" using camera_loop_sleeps [OF 2(1)] by (simp add: em)
  moreover have "sleeps (set_dev 0 (without_handles dev3) (s3\<lparr>st_io := evs @ st_io s3\<rparr>)) = sleeps s3"
    using calmD [OF close_subdevices_calm [OF c]] by simp
  moreover have "sleeps (emit IO_free_device_list x) = sleeps x" for x by (rule em) simp
  ultimately have sl: "sleeps (emit IO_free_device_list (set_dev 0 (without_handles dev3) (s3\<lparr>st_io := evs @ st_io s3\<rparr>))) \<noteq> sleeps boot_state"
    using 3(4) by simp
  have "fnusb_open_subdevices boot_env 0 0 boot_state =
      Some (0, emit IO_free_device_list (set_dev 0 (without_handles dev3) (s3\<lparr>st_io := evs @ st_io s3\<rparr>)))"
    using dev l st c dev3 3(3) shut by (simp add: fnusb_open_subdevices_def boot_state_def)
  with sl show ?thesis by blast
qed

theorem fnusb_open_subdevices_success_closed_witness:
  "\<exists>s' dev'. fnusb_open_subdevices boot_env 0 0 boot_state = Some (0, s') \<and> st_devs s' 0 = Some dev' \<and> none_open dev'"
proof -
  obtain s' where s': "fnusb_open_subdevices boot_env 0 0 boot_state = Some (0, s')" "sleeps s' \<noteq> sleeps boot_state"
    using boot_run by blast
  with fnusb_open_subdevices_success_closed [OF boot_stuck s'] show ?thesis by blast
qed

theorem fnusb_open_subdevices_all_or_nothing_witness:
  "\<exists>s' dev'. fnusb_open_subdevices boot_env 0 0 boot_state = Some (0, s') \<and> st_devs s' 0 = Some dev' \<and>
     (all_open dev' (cx_enabled_subdevices (st_ctx s')) \<or> none_open dev')"
proof -
  obtain s' where s': "fnusb_open_subdevices boot_env 0 0 boot_state = Some (0, s')" using boot_run by blast
  from fnusb_open_subdevices_all_or_nothing [OF this] s' show ?thesis by blast
qed

end
