(* ===== verification/Links.thy ===== *)
theory Links
  imports Usb Session Audio
begin

text \<open>
  The parts of the state that only opening and closing a device change: which devices there are,
  their next pointers, the head of the list and the next unused address. Every operation on the
  streams, every command and the opening and closing of the subdevices leaves them alone, the
  callbacks of the event loop included.
\<close>

definition links :: "st \<Rightarrow> (nat \<rightharpoonup> nat option) \<times> nat option \<times> nat" where
  "links s = ((\<lambda>x. map_option dv_next (st_devs s x)), cx_first (st_ctx s), st_next_dev s)"

named_theorems keeps_links \<open>functions that leave the list of devices alone\<close>

lemma links_simps [simp]:
  "links (emit ev s) = links s"
  "links (s\<lparr>st_heap := h\<rparr>) = links s"
  "links (s\<lparr>st_io := evs\<rparr>) = links s"
  by (simp_all add: links_def emit_def)

lemma links_here: "st_devs s d = Some dev \<Longrightarrow> fst (links s) d = Some (dv_next dev)"
  by (simp add: links_def)

lemma links_set_dev: "fst (links s) d = Some (dv_next dev) \<Longrightarrow> links (set_dev d dev s) = links s"
  by (auto simp: links_def set_dev_def)

lemma links_set_dev_here [simp]:
  "st_devs s d = Some dev0 \<Longrightarrow> dv_next dev = dv_next dev0 \<Longrightarrow> links (set_dev d dev s) = links s"
  by (simp add: links_set_dev links_here)

lemma links_ctx [simp]: "cx_first c = cx_first (st_ctx s) \<Longrightarrow> links (s\<lparr>st_ctx := c\<rparr>) = links s"
  by (simp add: links_def)

lemma chunk_event_links [simp]: "links (chunk_event cb user evs s) = links s"
  by (simp add: chunk_event_def split: option.split prod.split)

lemma links_fold:
  assumes "\<And>x s s'. f x s = Some s' \<Longrightarrow> links s' = links s"
  shows "fold_opt f xs s = Some s' \<Longrightarrow> links s' = links s"
  by (induction xs arbitrary: s) (auto dest: assms split: Option.bind_splits)

lemma links_next:
  assumes "links s' = links s" and "st_devs s d = Some dev"
  shows "\<exists>dev'. st_devs s' d = Some dev' \<and> dv_next dev' = dv_next dev"
proof -
  have "map_option dv_next (st_devs s' d) = map_option dv_next (st_devs s d)"
    using assms(1) by (auto simp: links_def dest: fun_cong)
  then show ?thesis using assms(2) by auto
qed

section \<open>Commands\<close>

lemma links_cmd_step: "cmd_step d s s' \<Longrightarrow> links s' = links s"
  by (auto simp: cmd_step_def links_def)

lemma send_cmd_links [keeps_links]: "send_cmd E d cmd buf n s = Some (r, s') \<Longrightarrow> links s' = links s"
  using links_cmd_step send_cmd_step by (cases r) blast

lemma write_register_links [keeps_links]: "write_register E d reg v s = Some (r, s') \<Longrightarrow> links s' = links s"
  using links_cmd_step write_register_step by blast

lemma write_regs_links [keeps_links]: "write_regs E d regs s = Some s' \<Longrightarrow> links s' = links s"
  unfolding write_regs_def by (erule links_fold [rotated]) (auto dest: keeps_links)

lemma upd_registration_links [keeps_links]: "upd_registration d f s = Some s' \<Longrightarrow> links s' = links s"
  by (auto simp: upd_registration_def split: Option.bind_splits)

section \<open>Transfers and streams\<close>

lemma upd_isoc_links [keeps_links]: "upd_isoc d k f s = Some s' \<Longrightarrow> links s' = links s"
  by (cases k) (auto simp: upd_isoc_def split: Option.bind_splits)

lemma mark_dead_links [keeps_links]: "mark_dead d k s = Some s' \<Longrightarrow> links s' = links s"
  by (cases k) (auto simp: mark_dead_def split: Option.bind_splits)

lemma depth_process_links [keeps_links]: "depth_process d pkt s = Some s' \<Longrightarrow> links s' = links s"
  by (auto simp: depth_process_def Let_def split: Option.bind_splits if_splits option.splits)

lemma video_process_links [keeps_links]: "video_process d pkt s = Some s' \<Longrightarrow> links s' = links s"
  by (auto simp: video_process_def Let_def split: Option.bind_splits if_splits option.splits)

lemma iso_in_links [keeps_links]: "iso_in_callback d pkt s = Some s' \<Longrightarrow> links s' = links s"
  by (auto simp: iso_in_callback_def Let_def split: Option.bind_splits if_splits option.splits)

lemma iso_out_links [keeps_links]: "iso_out_callback d pkt s = Some s' \<Longrightarrow> links s' = links s"
  by (auto simp: iso_out_callback_def prepare_iso_out_data_def Let_def split: Option.bind_splits)

lemma run_iso_cb_links: "run_iso_cb cb d pkt s = Some s' \<Longrightarrow> links s' = links s"
  by (cases cb) (auto simp: run_iso_cb_def dest: keeps_links)

lemma fold_cb_links [keeps_links]: "fold_opt (run_iso_cb cb d) pkts s = Some s' \<Longrightarrow> links s' = links s"
  by (erule links_fold [rotated]) (rule run_iso_cb_links)

lemma resubmit_links [keeps_links]: "resubmit E d k i s = Some s' \<Longrightarrow> links s' = links s"
  by (auto simp: resubmit_def io_int_def Let_def split: Option.bind_splits if_splits dest!: keeps_links)

lemma iso_callback_links: "iso_callback E xfer s = Some s' \<Longrightarrow> links s' = links s"
  by (auto simp: iso_callback_def Let_def split: Option.bind_splits if_splits xfer_status.splits dest!: keeps_links)

lemma libusb_handle_events_links [keeps_links]: "libusb_handle_events E s = Some (r, s') \<Longrightarrow> links s' = links s"
  by (auto simp: libusb_handle_events_def Let_def split: prod.splits Option.bind_splits
      dest: links_fold [OF iso_callback_links, rotated])

lemma drain_links [keeps_links]: "drain E d k s = Some s' \<Longrightarrow> links s' = links s"
proof (rule drain.raw_induct [where P = "\<lambda>E d k s s'. links s' = links s", rotated])
  fix rec E d k s s'
  assume IH: "\<And>E d k s s'. rec E d k s = Some s' \<Longrightarrow> links s' = links s"
    and body: "(do { dev \<leftarrow> st_devs s d; let strm = dev_isoc k dev;
        if is_dead_xfers strm < is_num_xfers strm
        then do { (_, s) \<leftarrow> libusb_handle_events E s; rec E d k s } else Some s }) = Some s'"
  show "links s' = links s"
    using body by (auto split: Option.bind_splits if_splits simp: Let_def dest!: keeps_links IH)
qed

lemma fold_emit_links [simp]: "links (fold (\<lambda>i. emit (f i)) is s) = links s"
  by (induction "is" arbitrary: s) simp_all

lemma cancel_xfer_links: "cancel_xfer d k i s = Some s' \<Longrightarrow> links s' = links s"
  by (auto simp: cancel_xfer_def split: Option.bind_splits if_splits)

lemma fold_cancel_links [keeps_links]: "fold_opt (cancel_xfer d k) is s = Some s' \<Longrightarrow> links s' = links s"
  by (erule links_fold [rotated]) (rule cancel_xfer_links)

lemma fnusb_stop_iso_links [keeps_links]: "fnusb_stop_iso E d k s = Some (r, s') \<Longrightarrow> links s' = links s"
  by (auto simp: fnusb_stop_iso_def Let_def split: Option.bind_splits dest!: keeps_links)

lemma freenect_stop_depth_links [keeps_links]: "freenect_stop_depth E d s = Some (r, s') \<Longrightarrow> links s' = links s"
  by (auto simp: freenect_stop_depth_def Let_def split: Option.bind_splits if_splits dest!: keeps_links)

lemma freenect_stop_video_links [keeps_links]: "freenect_stop_video E d s = Some (r, s') \<Longrightarrow> links s' = links s"
  by (auto simp: freenect_stop_video_def Let_def split: Option.bind_splits if_splits dest!: keeps_links)

lemma freenect_stop_audio_links [keeps_links]: "freenect_stop_audio E d s = Some (r, s') \<Longrightarrow> links s' = links s"
  by (auto simp: freenect_stop_audio_def Let_def split: Option.bind_splits if_splits dest!: keeps_links)

section \<open>The camera\<close>

lemma fetch_reg_info_links [keeps_links]: "freenect_fetch_reg_info E d s = Some (r, s') \<Longrightarrow> links s' = links s"
  by (auto simp: freenect_fetch_reg_info_def Let_def split: Option.bind_splits if_splits dest!: keeps_links)

lemma fetch_reg_pad_info_links [keeps_links]: "freenect_fetch_reg_pad_info E d s = Some (r, s') \<Longrightarrow> links s' = links s"
  by (auto simp: freenect_fetch_reg_pad_info_def Let_def split: Option.bind_splits if_splits dest!: keeps_links)

lemma fetch_reg_const_shift_links [keeps_links]: "freenect_fetch_reg_const_shift E d s = Some (r, s') \<Longrightarrow> links s' = links s"
  by (auto simp: freenect_fetch_reg_const_shift_def Let_def split: Option.bind_splits if_splits dest!: keeps_links)

lemma fetch_zero_plane_info_links [keeps_links]: "freenect_fetch_zero_plane_info E d s = Some (r, s') \<Longrightarrow> links s' = links s"
  by (auto simp: freenect_fetch_zero_plane_info_def Let_def split: Option.bind_splits if_splits dest!: keeps_links)

lemma set_video_mode_links [keeps_links]: "freenect_set_video_mode E d m s = Some (r, s') \<Longrightarrow> links s' = links s"
  by (auto simp: freenect_set_video_mode_def Let_def split: Option.bind_splits if_splits option.splits dest!: keeps_links)

lemma set_depth_mode_links [keeps_links]: "freenect_set_depth_mode d m s = Some (r, s') \<Longrightarrow> links s' = links s"
  by (auto simp: freenect_set_depth_mode_def Let_def split: Option.bind_splits if_splits option.splits)

lemma camera_init_links [keeps_links]: "freenect_camera_init E d s = Some (r, s') \<Longrightarrow> links s' = links s"
  by (auto simp: freenect_camera_init_def Let_def split: Option.bind_splits if_splits dest!: keeps_links)

lemma camera_teardown_links [keeps_links]: "freenect_camera_teardown E d s = Some (r, s') \<Longrightarrow> links s' = links s"
  by (auto simp: freenect_camera_teardown_def Let_def split: Option.bind_splits if_splits dest!: keeps_links)

section \<open>What opening the devices leaves alone\<close>

text \<open>
  Opening and closing the subdevices changes the handles of a device and what belongs to them; the
  rest of the device, the memory, the transfers and the list of devices stay as they are.
\<close>

definition bare :: "freenect_device \<Rightarrow> freenect_device" where
  "bare dev = dev\<lparr>dv_usb_cam := zero_fnusb_dev, dv_usb_motor := zero_fnusb_dev,
     dv_usb_audio := zero_fnusb_dev\<lparr>ud_device_dead := ud_device_dead (dv_usb_audio dev)\<rparr>, dv_audio_tag := 0,
     dv_device_does_motor_control_with_audio := False, dv_motor_control_with_audio_enabled := False\<rparr>"

lemma bare_simps [simp]:
  "bare (dev\<lparr>dv_usb_cam := x\<rparr>) = bare dev" "bare (dev\<lparr>dv_usb_motor := x\<rparr>) = bare dev" "bare (dev\<lparr>dv_audio_tag := t\<rparr>) = bare dev"
  "bare (dev\<lparr>dv_device_does_motor_control_with_audio := b\<rparr>) = bare dev"
  "bare (dev\<lparr>dv_motor_control_with_audio_enabled := b\<rparr>) = bare dev"
  "ud_device_dead a = ud_device_dead (dv_usb_audio dev) \<Longrightarrow> bare (dev\<lparr>dv_usb_audio := a\<rparr>) = bare dev"
  by (simp_all add: bare_def)

text \<open>The events that are not about transfers.\<close>

definition plain :: "io \<Rightarrow> bool" where
  "plain ev \<longleftrightarrow>
     (case ev of IO_submit d k i \<Rightarrow> False | IO_cancel d k i \<Rightarrow> False | IO_free_transfer d k i \<Rightarrow> False | _ \<Rightarrow> True)"

lemma plain_simps [simp]:
  "plain (IO_control h a b c e bs n)" "plain (IO_bulk h p bs n m)" "plain (IO_usleep n)" "plain (IO_sleep n)"
  "plain IO_get_device_list" "plain IO_free_device_list" "plain (IO_get_descriptor n)" "plain (IO_bus_number n)" "plain (IO_parent n)"
  "plain (IO_open n)" "plain (IO_close h)" "plain (IO_serial h p)" "plain (IO_kernel_driver_active h)" "plain (IO_detach h)"
  "plain (IO_attach h)" "plain (IO_claim h)" "plain (IO_release h)" "plain (IO_set_alt h)" "plain (IO_reset h)"
  "plain (IO_num_interfaces h)" "plain (IO_max_iso_packet_size h p)" "plain (IO_alloc_transfer n)" "plain (IO_handle_events h)"
  "plain (IO_fopen nm)" "plain (IO_fread n)" "plain (IO_depth_cb cb d q t)" "plain (IO_video_cb cb d q t)" "plain (IO_usb_exit h)"
  "plain (IO_chunk_cb cb q bs i j u)"
  by (simp_all add: plain_def)

definition kept_part ::
    "st \<Rightarrow> (nat \<rightharpoonup> freenect_device) \<times> heap \<times> io list \<times> nat option \<times> nat" where
  "kept_part s = ((\<lambda>x. map_option bare (st_devs s x)), st_heap s, filter (\<lambda>ev. \<not> plain ev) (st_io s),
     cx_first (st_ctx s), st_next_dev s)"

text \<open>The same without the memory, of which the upload of a firmware takes a block.\<close>

definition kept_rest ::
    "st \<Rightarrow> (nat \<rightharpoonup> freenect_device) \<times> io list \<times> nat option \<times> nat" where
  "kept_rest s = ((\<lambda>x. map_option bare (st_devs s x)), filter (\<lambda>ev. \<not> plain ev) (st_io s),
     cx_first (st_ctx s), st_next_dev s)"

abbreviation kept_wf :: "st \<Rightarrow> st \<Rightarrow> bool" where
  "kept_wf s s' \<equiv> kept_rest s' = kept_rest s \<and> (heap_wf (st_heap s) \<longrightarrow> heap_wf (st_heap s'))"

named_theorems keeps_part \<open>functions that change the handles of a device at most\<close>
named_theorems keeps_rest \<open>functions that change the handles of a device and take memory at most\<close>

lemma kept_simps [simp]:
  "plain ev \<Longrightarrow> kept_rest (emit ev s) = kept_rest s" "kept_rest (s\<lparr>st_heap := h\<rparr>) = kept_rest s"
  "plain ev \<Longrightarrow> kept_part (emit ev s) = kept_part s"
  "cx_first c = cx_first (st_ctx s) \<Longrightarrow> kept_part (s\<lparr>st_ctx := c\<rparr>) = kept_part s"
  by (simp_all add: kept_part_def kept_rest_def emit_def)

lemma kept_here: "st_devs s d = Some dev \<Longrightarrow> fst (kept_part s) d = Some (bare dev)"
  by (simp add: kept_part_def)

lemma rest_here: "st_devs s d = Some dev \<Longrightarrow> fst (kept_rest s) d = Some (bare dev)"
  by (simp add: kept_rest_def)

lemma kept_set_dev:
  "fst (kept_part s) d = Some (bare dev) \<Longrightarrow> kept_part (set_dev d dev s) = kept_part s"
  "fst (kept_rest s) d = Some (bare dev) \<Longrightarrow> kept_rest (set_dev d dev s) = kept_rest s"
  by (auto simp: kept_part_def kept_rest_def set_dev_def)

lemma kept_set_dev_here [simp]:
  "st_devs s d = Some dev0 \<Longrightarrow> bare dev = bare dev0 \<Longrightarrow> kept_part (set_dev d dev s) = kept_part s"
  "st_devs s d = Some dev0 \<Longrightarrow> bare dev = bare dev0 \<Longrightarrow> kept_rest (set_dev d dev s) = kept_rest s"
  by (simp_all add: kept_set_dev kept_here rest_here)

lemma kept_partD: "kept_part s' = kept_part s \<Longrightarrow> kept_rest s' = kept_rest s \<and> st_heap s' = st_heap s"
  by (simp add: kept_part_def kept_rest_def)

lemma kept_links: "kept_rest s' = kept_rest s \<Longrightarrow> links s' = links s"
proof -
  have "dv_next (bare dev) = dv_next dev" for dev by (simp add: bare_def)
  then have "links s = ((\<lambda>x. map_option dv_next (fst (kept_rest s) x)), snd (snd (kept_rest s)))" for s
    by (simp add: kept_rest_def links_def option.map_comp comp_def)
  then show "kept_rest s' = kept_rest s \<Longrightarrow> links s' = links s" by simp
qed

section \<open>The firmware\<close>

lemma kept_st_tag [simp]:
  "kept_part (s\<lparr>st_tag_seq := n\<rparr>) = kept_part s" "kept_part (s\<lparr>st_tag_next_ack := m\<rparr>) = kept_part s"
  by (simp_all add: kept_part_def)

lemma fnusb_bulk_kept [keeps_part]: "fnusb_bulk E dv ep data n s = Some (r, s') \<Longrightarrow> kept_part s' = kept_part s"
  by (auto simp: fnusb_bulk_def libusb_bulk_transfer_def Let_def split: if_splits)

lemma bump_tag_kept [keeps_part]: "bump_tag d s = Some s' \<Longrightarrow> kept_part s' = kept_part s"
  by (auto simp: bump_tag_def split: Option.bind_splits)

lemma get_reply_kept [keeps_part]: "get_reply E d s = Some (r, s') \<Longrightarrow> kept_part s' = kept_part s"
  by (auto simp: get_reply_def Let_def split: Option.bind_splits if_splits dest!: keeps_part)

lemma send_page_kept [keeps_part]: "send_page E d page s = Some (r, s') \<Longrightarrow> kept_part s' = kept_part s"
proof (induction page arbitrary: s rule: length_induct)
  case (1 page)
  note run = "1.prems" [unfolded send_page.simps [of E d page s]]
  show ?case
  proof (cases "page = []")
    case False
    then have lt: "length (drop (min (length page) 512) page) < length page" by simp
    show ?thesis using run False
      by (auto simp: Let_def split: Option.bind_splits if_splits
          dest!: fnusb_bulk_kept "1.IH" [THEN spec, THEN mp, OF lt, THEN spec, THEN mp])
  qed (use run in simp)
qed

lemma upload_pages_kept [keeps_part]:
  "upload_pages E d fw sz addr i left tot s = Some (r, s') \<Longrightarrow> kept_part s' = kept_part s"
proof (induction "nat left" arbitrary: addr i left tot s rule: less_induct)
  case less
  note run = less.prems [unfolded upload_pages.simps [of E d fw sz addr i left tot s] Let_def]
  show ?case
  proof (cases "page_len sz tot left \<le> 0")
    case False
    then have lt: "nat (left - page_len sz tot left) < nat left"
      by (auto simp: page_len_def Let_def split: if_splits)
    show ?thesis using run False
      by (auto split: Option.bind_splits if_splits prod.splits
          dest!: fnusb_bulk_kept send_page_kept get_reply_kept bump_tag_kept less.hyps [OF lt])
  qed (use run in simp)
qed

lemma upload_firmware_from_memory_kept [keeps_part]:
  "upload_firmware_from_memory E d fw s = Some (r, s') \<Longrightarrow> kept_part s' = kept_part s"
  by (auto simp: upload_firmware_from_memory_def Let_def split: Option.bind_splits if_splits sum.splits prod.splits
      dest!: keeps_part)

lemma open_first_kept [keeps_part]: "open_first E ps s = (r, s') \<Longrightarrow> kept_part s' = kept_part s"
  by (induction ps arbitrary: s) (auto simp: Let_def split: option.splits)

lemma malloc_wf: "malloc n h = (p, h') \<Longrightarrow> heap_wf h \<Longrightarrow> heap_wf h'"
  by (fastforce simp: malloc_def heap_wf_def less_Suc_eq split: if_splits)

lemma upload_firmware_kept [keeps_rest]: "upload_firmware E d name s = Some (r, s') \<Longrightarrow> kept_wf s s'"
  by (auto simp: upload_firmware_def Let_def split: Option.bind_splits if_splits option.splits prod.splits
      dest!: keeps_rest keeps_part [THEN kept_partD])
    (metis malloc_wf mem_write_wf)+

section \<open>The subdevices\<close>

lemma io_int_kept: "io_int E ev s = (n, s') \<Longrightarrow> plain ev \<longrightarrow> kept_part s' = kept_part s"
  by (auto simp: io_int_def Let_def)

lemma io_int_rest: "io_int E ev s = (n, s') \<Longrightarrow> plain ev \<longrightarrow> kept_rest s' = kept_rest s \<and> st_heap s' = st_heap s"
  by (auto simp: io_int_def Let_def)

lemma io_kept [keeps_part]:
  "get_descriptor E dv s = (p, s') \<Longrightarrow> kept_part s' = kept_part s"
  "open_dev E dv h s = (q, s') \<Longrightarrow> kept_part s' = kept_part s"
  "get_serial E h i old s = (sr, s') \<Longrightarrow> kept_part s' = kept_part s"
  "get_device_list E s = (dl, s') \<Longrightarrow> kept_part s' = kept_part s"
  "bus_number E dv s = (n, s') \<Longrightarrow> kept_part s' = kept_part s"
  "get_parent E dv s = (par, s') \<Longrightarrow> kept_part s' = kept_part s"
  "fnusb_num_interfaces E ud s = (n, s') \<Longrightarrow> kept_part s' = kept_part s"
  by (auto simp: io_int_def get_descriptor_def open_dev_def get_serial_def get_device_list_def bus_number_def
      get_parent_def fnusb_num_interfaces_def Let_def kept_set_dev split: prod.splits)

lemma sibling_loop_kept [keeps_part]: "sibling_loop E P bus par dvs sb s = (r, s') \<Longrightarrow> kept_part s' = kept_part s"
  by (induction dvs arbitrary: sb s) (auto simp: Let_def kept_set_dev split: prod.splits if_splits dest!: keeps_part io_int_kept kept_here)

lemma find_sibling_kept [keeps_part]: "fnusb_find_sibling_device E c dvs P s = (r, s') \<Longrightarrow> kept_part s' = kept_part s"
  by (auto simp: fnusb_find_sibling_device_def Let_def kept_set_dev split: prod.splits if_splits sum.splits dest!: keeps_part io_int_kept kept_here)

lemma close_kept [keeps_part]:
  "close_cam d s = Some s' \<Longrightarrow> kept_part s' = kept_part s"
  "close_motor d s = Some s' \<Longrightarrow> kept_part s' = kept_part s"
  "close_audio d s = Some s' \<Longrightarrow> kept_part s' = kept_part s"
  by (auto simp: close_cam_def close_motor_def close_audio_def split: Option.bind_splits)

lemma claim_camera_kept [keeps_part]: "fnusb_claim_camera E d s = Some (r, s') \<Longrightarrow> kept_part s' = kept_part s"
  by (auto simp: fnusb_claim_camera_def Let_def kept_set_dev split: Option.bind_splits prod.splits if_splits dest!: keeps_part io_int_kept kept_here)

lemma set_led_alt_kept [keeps_part]: "fnusb_set_led_alt E h l s = (r, s') \<Longrightarrow> kept_part s' = kept_part s"
  by (auto simp: fnusb_set_led_alt_def next_tag_def libusb_bulk_transfer_def tilt_get_reply_def Let_def kept_set_dev
      split: prod.splits if_splits)

lemma keep_alive_led_kept [keeps_part]: "fnusb_keep_alive_led E a s = (r, s') \<Longrightarrow> kept_part s' = kept_part s"
  by (auto simp: fnusb_keep_alive_led_def Let_def kept_set_dev split: option.splits prod.splits if_splits dest!: keeps_part io_int_kept kept_here)

lemma select_for_model_kept [keeps_part]: "select_for_model E d dvs c desc s = Some s' \<Longrightarrow> kept_part s' = kept_part s"
  by (auto simp: select_for_model_def Let_def kept_set_dev split: Option.bind_splits prod.splits if_splits dest!: keeps_part io_int_kept kept_here)

lemma open_camera_kept [keeps_part]: "open_camera E d dvs c desc s = Some (r, s') \<Longrightarrow> kept_part s' = kept_part s"
  by (auto simp: open_camera_def Let_def kept_set_dev split: Option.bind_splits prod.splits if_splits dest!: keeps_part io_int_kept kept_here)

lemma camera_loop_kept [keeps_part]: "camera_loop E d devs i dvs n r0 s = Some (r, s') \<Longrightarrow> kept_part s' = kept_part s"
  by (induction dvs arbitrary: n r0 s)
    (auto simp: Let_def kept_set_dev split: Option.bind_splits prod.splits if_splits dest!: keeps_part io_int_kept kept_here)

lemma open_motor_kept [keeps_part]: "open_motor E d dvs c s = Some (r, s') \<Longrightarrow> kept_part s' = kept_part s"
  by (auto simp: open_motor_def Let_def kept_set_dev split: Option.bind_splits option.splits prod.splits if_splits dest!: keeps_part io_int_kept kept_here)

lemma enable_motor_kept [keeps_part]: "enable_motor_with_audio d s = Some s' \<Longrightarrow> kept_part s' = kept_part s"
  by (auto simp: enable_motor_with_audio_def split: Option.bind_splits if_splits)

lemma scan_audio_kept [keeps_part]: "scan_audio E d ser dvs s = Some s' \<Longrightarrow> kept_part s' = kept_part s"
  by (induction dvs arbitrary: s)
    (auto simp: Let_def kept_set_dev split: Option.bind_splits prod.splits if_splits dest!: keeps_part io_int_kept kept_here)

lemma wait_audio_kept [keeps_part]: "wait_audio E d ser n s = Some s' \<Longrightarrow> kept_part s' = kept_part s"
  by (induction n arbitrary: s)
    (auto simp: Let_def kept_set_dev split: Option.bind_splits prod.splits sum.splits if_splits dest!: keeps_part io_int_kept kept_here)

lemma upload_audio_firmware_kept [keeps_rest]: "upload_audio_firmware E d desc s = Some (r, s') \<Longrightarrow> kept_wf s s'"
  by (auto simp: upload_audio_firmware_def split: bool.splits option.splits list.splits dest!: keeps_rest keeps_part [THEN kept_partD] io_int_rest rest_here)

lemma boot_audio_kept [keeps_rest]: "boot_audio E d desc s = Some (r, s') \<Longrightarrow> kept_wf s s'"
  by (auto simp: boot_audio_def Let_def kept_set_dev split: Option.bind_splits prod.splits if_splits dest!: keeps_rest keeps_part [THEN kept_partD] io_int_rest rest_here)

lemma open_audio_kept [keeps_rest]: "open_audio E d dvs c s = Some (r, s') \<Longrightarrow> kept_wf s s'"
  by (auto simp: open_audio_def Let_def kept_set_dev split: Option.bind_splits option.splits prod.splits if_splits dest!: keeps_rest keeps_part [THEN kept_partD] io_int_rest rest_here)

lemma close_handle_kept [keeps_part]:
  "close_handle d sel attach close_cam s = Some s' \<Longrightarrow> kept_part s' = kept_part s"
  "close_handle d sel attach close_motor s = Some s' \<Longrightarrow> kept_part s' = kept_part s"
  "close_handle d sel attach close_audio s = Some s' \<Longrightarrow> kept_part s' = kept_part s"
  by (auto simp: close_handle_def Let_def split: Option.bind_splits if_splits dest!: close_kept)

lemma close_subdevices_kept [keeps_part]: "fnusb_close_subdevices d s = Some (r, s') \<Longrightarrow> kept_part s' = kept_part s"
  by (auto simp: fnusb_close_subdevices_def split: Option.bind_splits dest!: close_handle_kept)

lemma open_steps_kept [keeps_rest]: "open_steps E d i dvs s = Some (r, s') \<Longrightarrow> kept_wf s s'"
  by (auto simp: open_steps_def split: Option.bind_splits option.splits prod.splits sum.splits if_splits dest!: keeps_rest keeps_part [THEN kept_partD] io_int_rest rest_here)

lemma open_subdevices_kept [keeps_rest]: "fnusb_open_subdevices E d i s = Some (r, s') \<Longrightarrow> kept_wf s s'"
  by (auto simp: fnusb_open_subdevices_def Let_def kept_set_dev split: Option.bind_splits prod.splits sum.splits if_splits dest!: keeps_rest keeps_part [THEN kept_partD] io_int_rest rest_here)

lemma open_subdevices_links [keeps_links]: "fnusb_open_subdevices E d i s = Some (r, s') \<Longrightarrow> links s' = links s"
  using kept_links open_subdevices_kept by blast

lemma close_subdevices_links [keeps_links]: "fnusb_close_subdevices d s = Some (r, s') \<Longrightarrow> links s' = links s"
  using kept_links kept_partD close_subdevices_kept by blast

end
