(* ===== verification/Core.thy ===== *)
theory Core
  imports Links
begin

text \<open>
  The context and its devices (src/core.c): setting up and shutting down, the linked list of open
  devices, opening by index and by serial number, closing, the event loop, the log filter and the
  small settings.

  The list abstraction \<open>dlist\<close> relates the next pointers of the store to a list of devices. Opening
  appends to that list and closing removes from it.
\<close>

section \<open>The log\<close>

instantiation freenect_loglevel :: linorder
begin

definition less_eq_freenect_loglevel :: "freenect_loglevel \<Rightarrow> freenect_loglevel \<Rightarrow> bool" where
  "l \<le> m \<longleftrightarrow> loglevel_val l \<le> loglevel_val m"

definition less_freenect_loglevel :: "freenect_loglevel \<Rightarrow> freenect_loglevel \<Rightarrow> bool" where
  "l < m \<longleftrightarrow> loglevel_val l < loglevel_val m"

instance
proof
  fix x y z :: freenect_loglevel
  show "(x < y) = (x \<le> y \<and> \<not> y \<le> x)" by (auto simp: less_eq_freenect_loglevel_def less_freenect_loglevel_def)
  show "x \<le> x" by (simp add: less_eq_freenect_loglevel_def)
  show "x \<le> y \<Longrightarrow> y \<le> z \<Longrightarrow> x \<le> z" by (simp add: less_eq_freenect_loglevel_def)
  show "x \<le> y \<Longrightarrow> y \<le> x \<Longrightarrow> x = y" by (cases x; cases y) (simp_all add: less_eq_freenect_loglevel_def)
  show "x \<le> y \<or> y \<le> x" by (auto simp: less_eq_freenect_loglevel_def)
qed

end

text \<open>
  Where a formatted message goes: nowhere, to the callback, cut to 1023 bytes, or to stderr.
\<close>

definition fn_log :: "freenect_context \<Rightarrow> freenect_loglevel \<Rightarrow> u8 list \<Rightarrow> (nat option \<times> u8 list) option" where
  "fn_log ctx level msg =
     (if level > cx_log_level ctx then None
      else case cx_log_cb ctx of Some cb \<Rightarrow> Some (Some cb, take 1023 msg) | None \<Rightarrow> Some (None, msg))"

definition freenect_set_log_level :: "freenect_loglevel \<Rightarrow> st \<Rightarrow> st" where
  "freenect_set_log_level level s = s\<lparr>st_ctx := (st_ctx s)\<lparr>cx_log_level := level\<rparr>\<rparr>"

definition freenect_set_log_callback :: "nat option \<Rightarrow> st \<Rightarrow> st" where
  "freenect_set_log_callback cb s = s\<lparr>st_ctx := (st_ctx s)\<lparr>cx_log_cb := cb\<rparr>\<rparr>"

section \<open>Settings\<close>

definition freenect_supported_subdevices :: u32 where
  "freenect_supported_subdevices = FREENECT_DEVICE_MOTOR OR FREENECT_DEVICE_CAMERA OR FREENECT_DEVICE_AUDIO"

definition freenect_select_subdevices :: "u32 \<Rightarrow> st \<Rightarrow> st" where
  "freenect_select_subdevices subdevs s = s\<lparr>st_ctx := (st_ctx s)\<lparr>cx_enabled_subdevices :=
     subdevs AND (FREENECT_DEVICE_MOTOR OR FREENECT_DEVICE_CAMERA OR FREENECT_DEVICE_AUDIO)\<rparr>\<rparr>"

definition freenect_enabled_subdevices :: "st \<Rightarrow> u32" where
  "freenect_enabled_subdevices s = cx_enabled_subdevices (st_ctx s)"

definition freenect_set_user :: "nat \<Rightarrow> nat option \<Rightarrow> st \<Rightarrow> st option" where
  "freenect_set_user d user s = do { dev \<leftarrow> st_devs s d; Some (set_dev d (dev\<lparr>dv_user_data := user\<rparr>) s) }"

definition freenect_get_user :: "nat \<Rightarrow> st \<Rightarrow> nat option option" where
  "freenect_get_user d s = map_option dv_user_data (st_devs s d)"

definition freenect_set_fw_address_nui :: "u8 list option \<Rightarrow> st \<Rightarrow> st" where
  "freenect_set_fw_address_nui fw s = s\<lparr>st_ctx := (st_ctx s)\<lparr>cx_fn_fw_nui := fw\<rparr>\<rparr>"

definition freenect_set_fw_address_k4w :: "u8 list option \<Rightarrow> st \<Rightarrow> st" where
  "freenect_set_fw_address_k4w fw s = s\<lparr>st_ctx := (st_ctx s)\<lparr>cx_fn_fw_k4w := fw\<rparr>\<rparr>"

section \<open>The context\<close>

text \<open>
  The result and whether there is a context afterwards. Whether a struct of the library can be
  allocated is an answer of the environment.
\<close>

definition freenect_init :: "env \<Rightarrow> nat option \<Rightarrow> st \<Rightarrow> (int \<times> bool) \<times> st" where
  "freenect_init E usb_ctx s =
     (if \<not> e_alloc E (st_io s) then ((-1, False), s)
      else let s = s\<lparr>st_ctx := zero_context\<lparr>cx_log_level := FREENECT_LOG_NOTICE,
                     cx_enabled_subdevices := FREENECT_DEVICE_MOTOR OR FREENECT_DEVICE_CAMERA\<rparr>\<rparr>;
               (res, s) = fnusb_init E usb_ctx s
           in ((res, \<not> res < 0), s))"

definition freenect_num_devices :: "env \<Rightarrow> st \<Rightarrow> int \<times> st" where
  "freenect_num_devices E s = fnusb_num_devices E s"

definition freenect_list_device_attributes :: "env \<Rightarrow> st \<Rightarrow> ((int \<times> device_attributes list) \<times> st) option" where
  "freenect_list_device_attributes E s = fnusb_list_device_attributes E s"

text \<open>The list is freed in order, the serial number of an element before the element.\<close>

definition free_attributes :: "device_attributes \<Rightarrow> heap \<Rightarrow> heap option" where
  "free_attributes attr h = do {
     h \<leftarrow> (if at_camera_serial attr \<noteq> None then mfree (at_camera_serial attr) h else Some h);
     mfree (at_node attr) h
   }"

definition freenect_free_device_attributes :: "device_attributes list \<Rightarrow> st \<Rightarrow> st option" where
  "freenect_free_device_attributes attribute_list s = do {
     h \<leftarrow> fold_opt free_attributes attribute_list (st_heap s);
     Some (s\<lparr>st_heap := h\<rparr>)
   }"

section \<open>Opening a device\<close>

partial_function (option) last_device :: "(nat \<rightharpoonup> freenect_device) \<Rightarrow> nat \<Rightarrow> nat option" where
  "last_device devs p = do {
     dev \<leftarrow> devs p;
     case dv_next dev of None \<Rightarrow> Some p | Some q \<Rightarrow> last_device devs q
   }"

definition append_device :: "nat \<Rightarrow> st \<Rightarrow> st option" where
  "append_device d s =
     (case cx_first (st_ctx s) of
        None \<Rightarrow> Some (s\<lparr>st_ctx := (st_ctx s)\<lparr>cx_first := Some d\<rparr>\<rparr>)
      | Some first \<Rightarrow> do {
          prev \<leftarrow> last_device (st_devs s) first;
          dev \<leftarrow> st_devs s prev;
          Some (set_dev prev (dev\<lparr>dv_next := Some d\<rparr>) s)
        })"

text \<open>The result and the device that is written through the pointer, if any.\<close>

definition freenect_open_device :: "env \<Rightarrow> int \<Rightarrow> st \<Rightarrow> ((int \<times> nat option) \<times> st) option" where
  "freenect_open_device E index s =
     (if \<not> e_alloc E (st_io s) then Some ((-1, None), s)
      else do {
        let d = st_next_dev s;
        (res, s) \<leftarrow> fnusb_open_subdevices E d index
          (s\<lparr>st_devs := (st_devs s)(d \<mapsto> zero_device), st_next_dev := Suc d\<rparr>);
        if res < 0 then Some ((res, None), s\<lparr>st_devs := (st_devs s)(d := None)\<rparr>)
        else do {
          s \<leftarrow> append_device d s;
          dev \<leftarrow> st_devs s d;
          if ud_dev (dv_usb_cam dev) \<noteq> None
          then do {
            (r, s) \<leftarrow> freenect_camera_init E d s;
            Some ((if r < 0 then -1 else 0, Some d), s)
          }
          else Some ((0, Some d), s)
        }
      })"

text \<open>The loop that compares the serial numbers: the index of the first that is equal.\<close>

primrec find_serial :: "u8 list \<Rightarrow> device_attributes list \<Rightarrow> int \<Rightarrow> heap \<Rightarrow> int option option" where
  "find_serial serial [] index h = Some None"
| "find_serial serial (attr # attrs) index h = do {
     blk \<leftarrow> mem_block (at_camera_serial attr) h;
     if takeWhile (\<lambda>b. b \<noteq> 0) blk = serial then Some (Some index) else find_serial serial attrs (index + 1) h
   }"

definition freenect_open_device_by_camera_serial ::
    "env \<Rightarrow> u8 list \<Rightarrow> st \<Rightarrow> ((int \<times> nat option) \<times> st) option" where
  "freenect_open_device_by_camera_serial E camera_serial s = do {
     ((cnt, attrlist), s) \<leftarrow> fnusb_list_device_attributes E s;
     if cnt < 0 then Some ((cnt, None), s)
     else do {
       found \<leftarrow> find_serial camera_serial attrlist 0 (st_heap s);
       s \<leftarrow> freenect_free_device_attributes attrlist s;
       case found of
         Some index \<Rightarrow> freenect_open_device E index s
       | None \<Rightarrow> Some ((-1, None), s)
     }
   }"

section \<open>Closing a device\<close>

text \<open>
  The search for the device in the list: \<open>Some None\<close> when it is not there, else the element before
  it, if any.
\<close>

partial_function (option) find_device ::
    "nat \<Rightarrow> nat option \<Rightarrow> nat option \<Rightarrow> st \<Rightarrow> nat option option option" where
  "find_device d prev cur s =
     (case cur of
        None \<Rightarrow> Some None
      | Some c \<Rightarrow>
          if c = d then Some (Some prev)
          else do { dev \<leftarrow> st_devs s c; find_device d (Some c) (dv_next dev) s })"

definition unlink_device :: "nat \<Rightarrow> st \<Rightarrow> (int \<times> st) option" where
  "unlink_device d s = do {
     found \<leftarrow> find_device d None (cx_first (st_ctx s)) s;
     case found of
       None \<Rightarrow> Some (-1, s)
     | Some prev \<Rightarrow> do {
         dev \<leftarrow> st_devs s d;
         s \<leftarrow> (case prev of
                 Some p \<Rightarrow> do { pdev \<leftarrow> st_devs s p; Some (set_dev p (pdev\<lparr>dv_next := dv_next dev\<rparr>) s) }
               | None \<Rightarrow> Some (s\<lparr>st_ctx := (st_ctx s)\<lparr>cx_first := dv_next dev\<rparr>\<rparr>));
         Some (0, s\<lparr>st_devs := (st_devs s)(d := None)\<rparr>)
       }
   }"

definition freenect_close_device :: "env \<Rightarrow> nat \<Rightarrow> st \<Rightarrow> (int \<times> st) option" where
  "freenect_close_device E d s = do {
     dev \<leftarrow> st_devs s d;
     s \<leftarrow> (if ud_dev (dv_usb_cam dev) \<noteq> None then map_option snd (freenect_camera_teardown E d s) else Some s);
     (res, s) \<leftarrow> fnusb_close_subdevices d s;
     if res < 0 then Some (res, s) else unlink_device d s
   }"

section \<open>Shutting down and handling events\<close>

partial_function (option) close_all :: "env \<Rightarrow> st \<Rightarrow> st option" where
  "close_all E s =
     (case cx_first (st_ctx s) of
        None \<Rightarrow> Some s
      | Some d \<Rightarrow> do { (_, s) \<leftarrow> freenect_close_device E d s; close_all E s })"

definition freenect_shutdown :: "env \<Rightarrow> st \<Rightarrow> (int \<times> st) option" where
  "freenect_shutdown E s = do {
     s \<leftarrow> close_all E s;
     let (_, s) = fnusb_shutdown s;
     Some (0, s)
   }"

text \<open>The streams of a device that is gone are stopped; the result is then -1.\<close>

definition stop_dead :: "env \<Rightarrow> nat \<Rightarrow> int \<Rightarrow> st \<Rightarrow> (int \<times> st) option" where
  "stop_dead E d res s = do {
     dev \<leftarrow> st_devs s d;
     (res, s) \<leftarrow> (if ud_device_dead (dv_usb_cam dev)
                  then do {
                    (_, s) \<leftarrow> freenect_stop_video E d s;
                    (_, s) \<leftarrow> freenect_stop_depth E d s;
                    Some (-1, s)
                  }
                  else Some (res, s));
     dev \<leftarrow> st_devs s d;
     if ud_device_dead (dv_usb_audio dev)
     then do { (_, s) \<leftarrow> freenect_stop_audio E d s; Some (-1, s) }
     else Some (res, s)
   }"

partial_function (option) check_devices :: "env \<Rightarrow> nat option \<Rightarrow> int \<Rightarrow> st \<Rightarrow> (int \<times> st) option" where
  "check_devices E cur res s =
     (case cur of
        None \<Rightarrow> Some (res, s)
      | Some d \<Rightarrow> do {
          (res, s) \<leftarrow> stop_dead E d res s;
          dev \<leftarrow> st_devs s d;
          check_devices E (dv_next dev) res s
        })"

definition freenect_process_events_timeout :: "env \<Rightarrow> st \<Rightarrow> (int \<times> st) option" where
  "freenect_process_events_timeout E s = do {
     (res, s) \<leftarrow> fnusb_process_events_timeout E s;
     check_devices E (cx_first (st_ctx s)) res s
   }"

definition freenect_process_events :: "env \<Rightarrow> st \<Rightarrow> (int \<times> st) option" where
  "freenect_process_events E s = freenect_process_events_timeout E s"

section \<open>The linked list\<close>

text \<open>Following the pointers \<open>nx\<close> from \<open>p\<close> gives the list.\<close>

primrec dlist :: "(nat \<rightharpoonup> nat option) \<Rightarrow> nat option \<Rightarrow> nat list \<Rightarrow> bool" where
  "dlist nx p [] \<longleftrightarrow> p = None"
| "dlist nx p (x # xs) \<longleftrightarrow> p = Some x \<and> (case nx x of None \<Rightarrow> False | Some q \<Rightarrow> dlist nx q xs)"

text \<open>
  The abstraction of the state of the library: the devices in the order in which they were opened.
  The store holds nothing else, so that no device is lost.
\<close>

definition device_list :: "st \<Rightarrow> nat list \<Rightarrow> bool" where
  "device_list s xs \<longleftrightarrow>
     (case links s of (nx, first, n) \<Rightarrow> dlist nx first xs \<and> distinct xs \<and> dom nx = set xs \<and> (\<forall>x \<in> set xs. x < n))"

lemma device_listI:
  "links s = (nx, first, n) \<Longrightarrow> dlist nx first xs \<Longrightarrow> distinct xs \<Longrightarrow> dom nx = set xs \<Longrightarrow>
   \<forall>x \<in> set xs. x < n \<Longrightarrow> device_list s xs"
  by (simp add: device_list_def)

lemma device_list_links: "links s' = links s \<Longrightarrow> device_list s' xs = device_list s xs"
  by (simp add: device_list_def)

lemma device_list_st_devs:
  assumes "device_list s xs"
  shows "(\<exists>dev. st_devs s x = Some dev) \<longleftrightarrow> x \<in> set xs"
proof -
  have "dom (fst (links s)) = set xs" using assms by (auto simp: device_list_def split: prod.splits)
  then show ?thesis by (auto simp: links_def dom_def)
qed

lemma device_list_fresh: "device_list s xs \<Longrightarrow> st_devs s (st_next_dev s) = None \<and> st_next_dev s \<notin> set xs"
  using device_list_st_devs [of s xs "st_next_dev s"] by (auto simp: device_list_def links_def)

lemma dlist_cong: "(\<And>x. x \<in> set xs \<Longrightarrow> nx' x = nx x) \<Longrightarrow> dlist nx' p xs = dlist nx p xs"
  by (induction xs arbitrary: p) (auto split: option.split)

lemma dlist_snoc:
  assumes "dlist nx p xs" and "distinct xs" and "xs \<noteq> []" and "d \<notin> set xs"
  shows "dlist (nx(last xs \<mapsto> Some d, d \<mapsto> None)) p (xs @ [d])"
  using assms
proof (induction xs arbitrary: p)
  case (Cons x xs)
  then obtain q where q: "nx x = Some q" "dlist nx q xs" "p = Some x" by (auto split: option.splits)
  show ?case
  proof (cases "xs = []")
    case True
    with Cons.prems q show ?thesis by simp
  next
    case False
    have "dlist (nx(last xs \<mapsto> Some d, d \<mapsto> None)) q (xs @ [d])"
      using Cons.IH [OF q(2)] Cons.prems False by (simp del: fun_upd_apply)
    moreover have "(nx(last xs \<mapsto> Some d, d \<mapsto> None)) x = Some q"
      using Cons.prems(2,4) q(1) last_in_set [OF False] by auto
    ultimately show ?thesis using q(3) False by (simp del: fun_upd_apply)
  qed
qed simp

lemma dlist_remove:
  assumes "dlist nx p (ys @ d # zs)" and "distinct (ys @ d # zs)" and "nx d = Some q"
  shows "case ys of [] \<Rightarrow> dlist (nx(d := None)) q zs | _ \<Rightarrow> dlist (nx(last ys \<mapsto> q, d := None)) p (ys @ zs)"
  using assms(1,2)
proof (induction ys arbitrary: p)
  case Nil
  then have "dlist nx q zs" using assms(3) by simp
  moreover have "dlist (nx(d := None)) q zs = dlist nx q zs" by (rule dlist_cong) (use Nil in auto)
  ultimately show ?case by simp
next
  case (Cons y ys)
  then obtain r where r: "nx y = Some r" "dlist nx r (ys @ d # zs)" "p = Some y" by (auto split: option.splits)
  show ?case
  proof (cases ys)
    case Nil
    have "dlist nx q zs" using r(2) assms(3) Nil by simp
    moreover have "dlist (nx(y \<mapsto> q, d := None)) q zs = dlist nx q zs"
      by (rule dlist_cong) (use Cons.prems(2) Nil in auto)
    ultimately show ?thesis using Nil r Cons.prems(2) by simp
  next
    case (Cons z ys')
    have "dlist (nx(last ys \<mapsto> q, d := None)) r (ys @ zs)"
      using Cons.IH [OF r(2)] Cons.prems(2) Cons by simp
    moreover have "(nx(last ys \<mapsto> q, d := None)) y = Some r"
      using Cons.prems(2) Cons r(1) last_in_set [of ys] by auto
    ultimately show ?thesis using r(3) Cons by (simp del: fun_upd_apply)
  qed
qed

lemma last_device_list:
  assumes "dlist (fst (links s)) (Some p) xs"
  shows "last_device (st_devs s) p = Some (last xs)"
  using assms
proof (induction xs arbitrary: p)
  case (Cons x xs)
  then obtain q where q: "map_option dv_next (st_devs s x) = Some q" "dlist (fst (links s)) q xs" "p = x"
    by (auto simp: links_def split: option.splits)
  show ?case
  proof (cases q)
    case None
    then have "xs = []" using q(2) by (cases xs) auto
    with None q(1,3) show ?thesis by (subst last_device.simps) auto
  next
    case (Some y)
    with q(2) have "xs \<noteq> []" by auto
    with Some q(1,3) Cons.IH [of y] q(2) show ?thesis by (subst last_device.simps) auto
  qed
qed simp

lemma append_device_list:
  assumes inv: "device_list s xs" and d: "d = st_next_dev s" "st_devs s' d = Some dev" "dv_next dev = None"
    and s': "links s' = ((fst (links s))(d \<mapsto> None), cx_first (st_ctx s), Suc d)"
  shows "\<exists>s''. append_device d s' = Some s'' \<and> device_list s'' (xs @ [d])"
proof -
  let ?nx = "(fst (links s))(d \<mapsto> None)"
  have fresh: "d \<notin> set xs" using device_list_fresh [OF inv] d(1) by simp
  have xs: "dlist (fst (links s)) (cx_first (st_ctx s)) xs" "distinct xs" "dom (fst (links s)) = set xs"
    "\<forall>x \<in> set xs. x < d"
    using inv d(1) by (auto simp: device_list_def links_def)
  have xs': "dlist ?nx (cx_first (st_ctx s)) xs" 
  proof -
    have "dlist ?nx (cx_first (st_ctx s)) xs = dlist (fst (links s)) (cx_first (st_ctx s)) xs"
      by (rule dlist_cong) (use fresh in auto)
    with xs(1) show ?thesis by simp
  qed
  have first: "cx_first (st_ctx s') = cx_first (st_ctx s)" "fst (links s') = ?nx" "st_next_dev s' = Suc d"
    using s' by (simp_all add: links_def)
  show ?thesis
  proof (cases xs)
    case Nil
    then have "cx_first (st_ctx s) = None" using xs(1) by simp
    then have "append_device d s' = Some (s'\<lparr>st_ctx := (st_ctx s')\<lparr>cx_first := Some d\<rparr>\<rparr>)"
      by (simp add: append_device_def first)
    moreover have "links (s'\<lparr>st_ctx := (st_ctx s')\<lparr>cx_first := Some d\<rparr>\<rparr>) = (?nx, Some d, Suc d)"
      using s' by (simp add: links_def)
    ultimately show ?thesis using Nil xs(3) by (auto simp: device_list_def)
  next
    case (Cons y ys)
    then have y: "cx_first (st_ctx s) = Some y" using xs(1) by simp
    have "last xs \<in> set xs" using Cons by simp
    then have "last xs \<noteq> d" "last xs \<in> dom (fst (links s))" using fresh xs(3) by auto
    then have "fst (links s') (last xs) \<noteq> None" using first(2) by auto
    then obtain pdev where pdev: "st_devs s' (last xs) = Some pdev" by (auto simp: links_def)
    have l: "last_device (st_devs s') y = Some (last xs)"
      using xs' y first(2) by (intro last_device_list) simp
    let ?s = "set_dev (last xs) (pdev\<lparr>dv_next := Some d\<rparr>) s'"
    have "append_device d s' = Some ?s" using y l pdev by (simp add: append_device_def first)
    moreover have l1: "fst (links ?s) = (fst (links s))(last xs \<mapsto> Some d, d \<mapsto> None)"
    proof -
      have "fst (links ?s) = (fst (links s'))(last xs \<mapsto> Some d)" by (auto simp: links_def fun_eq_iff)
      then show ?thesis
        using fun_upd_twist [OF \<open>last xs \<noteq> d\<close>, of "fst (links s)" "Some (Some d)" "Some None"] first(2) by simp
    qed
    have "links ?s = ((fst (links s))(last xs \<mapsto> Some d, d \<mapsto> None), Some y, Suc d)"
      unfolding prod_eq_iff fst_conv snd_conv using l1 first y by (simp add: links_def)
    moreover have "dlist ((fst (links s))(last xs \<mapsto> Some d, d \<mapsto> None)) (Some y) (xs @ [d])"
      using dlist_snoc [OF xs(1,2) _ fresh] Cons y by simp
    moreover have "dom ((fst (links s))(last xs \<mapsto> Some d, d \<mapsto> None)) = set (xs @ [d])"
      using \<open>last xs \<in> set xs\<close> by (simp add: xs(3) insert_absorb)
    moreover have "distinct (xs @ [d])" "\<forall>x \<in> set (xs @ [d]). x < Suc d" using xs(2,4) fresh by auto
    ultimately show ?thesis
      by (intro exI [of _ ?s] conjI device_listI)
  qed
qed

lemma find_device_list:
  assumes "dlist (fst (links s)) cur (ys @ d # zs)" and "d \<notin> set ys"
  shows "find_device d prev cur s = Some (Some (if ys = [] then prev else Some (last ys)))"
  using assms
proof (induction ys arbitrary: prev cur)
  case Nil
  then show ?case by (subst find_device.simps) simp
next
  case (Cons y ys)
  then obtain q where q: "map_option dv_next (st_devs s y) = Some q" "dlist (fst (links s)) q (ys @ d # zs)" "cur = Some y"
    by (auto simp: links_def split: option.splits)
  with Cons.prems(2) Cons.IH [OF q(2), of "Some y"] show ?case by (subst find_device.simps) auto
qed

lemma unlink_device_list:
  assumes inv: "device_list s xs" and d: "d \<in> set xs"
  shows "\<exists>s'. unlink_device d s = Some (0, s') \<and> device_list s' (remove1 d xs) \<and> st_heap s' = st_heap s \<and>
    st_io s' = st_io s \<and> (\<forall>x dev. st_devs s' x = Some dev \<longrightarrow> (\<exists>dev0. st_devs s x = Some dev0 \<and> dev = dev0\<lparr>dv_next := dv_next dev\<rparr>))"
proof -
  from d obtain ys zs where split: "xs = ys @ d # zs" "d \<notin> set ys" by (meson split_list_first)
  have xs: "dlist (fst (links s)) (cx_first (st_ctx s)) xs" "distinct xs" "dom (fst (links s)) = set xs"
    "\<forall>x \<in> set xs. x < st_next_dev s"
    using inv by (auto simp: device_list_def links_def)
  from d inv obtain dev where dev: "st_devs s d = Some dev" using device_list_st_devs by blast
  then have nx: "fst (links s) d = Some (dv_next dev)" by (simp add: links_def)
  note find = find_device_list [OF xs(1) [unfolded split(1)] split(2), of None]
  note rem = dlist_remove [OF xs(1) [unfolded split(1)] xs(2) [unfolded split(1)] nx]
  have r1: "remove1 d xs = ys @ zs" using split by (simp add: remove1_append)
  show ?thesis
  proof (cases "ys = []")
    case True
    let ?s = "s\<lparr>st_ctx := (st_ctx s)\<lparr>cx_first := dv_next dev\<rparr>, st_devs := (st_devs s)(d := None)\<rparr>"
    have "unlink_device d s = Some (0, ?s)" using find True dev by (simp add: unlink_device_def)
    moreover have "links ?s = ((fst (links s))(d := None), dv_next dev, st_next_dev s)"
      by (simp add: links_def fun_eq_iff)
    ultimately show ?thesis using rem True xs split r1
      by (intro exI [of _ ?s]) (auto simp: device_list_def)
  next
    case False
    then have "last ys \<in> set xs" "last ys \<noteq> d" using split by auto
    then obtain pdev where pdev: "st_devs s (last ys) = Some pdev" using inv device_list_st_devs by blast
    let ?s1 = "set_dev (last ys) (pdev\<lparr>dv_next := dv_next dev\<rparr>) s"
    let ?s = "?s1\<lparr>st_devs := (st_devs ?s1)(d := None)\<rparr>"
    have "unlink_device d s = Some (0, ?s)" using find False dev pdev by (simp add: unlink_device_def)
    moreover have "links ?s = ((fst (links s))(last ys \<mapsto> dv_next dev, d := None), cx_first (st_ctx s), st_next_dev s)"
      by (simp add: links_def fun_eq_iff)
    moreover have "dlist ((fst (links s))(last ys \<mapsto> dv_next dev, d := None)) (cx_first (st_ctx s)) (ys @ zs)"
      using rem False by (cases ys) simp_all
    ultimately show ?thesis using xs split r1 pdev \<open>last ys \<in> set xs\<close> \<open>last ys \<noteq> d\<close>
      by (intro exI [of _ ?s]) (auto simp: device_list_def split: if_splits)
  qed
qed

section \<open>Opening and closing refine the list\<close>

lemma zero_device_next [simp]: "dv_next zero_device = None"
  by (simp add: zero_device_def)

lemma append_device_links: "append_device d s = Some s' \<Longrightarrow> st_devs s d \<noteq> None \<Longrightarrow> st_devs s' d \<noteq> None"
  by (auto simp: append_device_def split: option.splits Option.bind_splits)

text \<open>
  C2. freenect_open_device refines appending to the list of devices: when it gives no device, its
  result is negative and the list is as before; when it gives one, it is a new one, at the end of
  the list, and the result is 0 or -1. With -1 the initialisation of the camera has failed and the
  device stays open and in the list.
\<close>

theorem freenect_open_device_refines:
  assumes "device_list s xs" and "freenect_open_device E index s = Some ((r, p), s')"
  shows "case p of
      None \<Rightarrow> r < 0 \<and> device_list s' xs
    | Some d \<Rightarrow> (r = 0 \<or> r = -1) \<and> d = st_next_dev s \<and> d \<notin> set xs \<and> device_list s' (xs @ [d])"
proof (cases "e_alloc E (st_io s)")
  case False
  then show ?thesis using assms by (auto simp: freenect_open_device_def)
next
  case True
  let ?d = "st_next_dev s"
  let ?s0 = "s\<lparr>st_devs := (st_devs s)(?d \<mapsto> zero_device), st_next_dev := Suc ?d\<rparr>"
  from assms(2) True obtain res s2 where op: "fnusb_open_subdevices E ?d index ?s0 = Some (res, s2)"
    and rest: "(if res < 0 then Some ((res, None), s2\<lparr>st_devs := (st_devs s2)(?d := None)\<rparr>)
      else do {
        s3 \<leftarrow> append_device ?d s2;
        dev \<leftarrow> st_devs s3 ?d;
        if ud_dev (dv_usb_cam dev) \<noteq> None
        then do { (r, s4) \<leftarrow> freenect_camera_init E ?d s3; Some ((if r < 0 then -1 else 0, Some ?d), s4) }
        else Some ((0, Some ?d), s3)
      }) = Some ((r, p), s')"
    by (auto simp: freenect_open_device_def Let_def split: Option.bind_splits)
  have l0: "links ?s0 = ((fst (links s))(?d \<mapsto> None), cx_first (st_ctx s), Suc ?d)"
    by (simp add: links_def fun_eq_iff)
  then have l2: "links s2 = ((fst (links s))(?d \<mapsto> None), cx_first (st_ctx s), Suc ?d)"
    using open_subdevices_links [OF op] by simp
  note fresh = device_list_fresh [OF assms(1)]
  show ?thesis
  proof (cases "res < 0")
    case True
    have "(fst (links s))(?d := None) = fst (links s)" using fresh by (auto simp: links_def fun_eq_iff)
    moreover have "links (s2\<lparr>st_devs := (st_devs s2)(?d := None)\<rparr>) =
        ((fst (links s2))(?d := None), cx_first (st_ctx s2), st_next_dev s2)"
      by (simp add: links_def fun_eq_iff)
    moreover have "cx_first (st_ctx s2) = cx_first (st_ctx s)" "st_next_dev s2 = Suc ?d"
      using l2 by (simp_all add: links_def)
    ultimately have "links (s2\<lparr>st_devs := (st_devs s2)(?d := None)\<rparr>) = (fst (links s), cx_first (st_ctx s), Suc ?d)"
      using l2 by simp
    then have "device_list (s2\<lparr>st_devs := (st_devs s2)(?d := None)\<rparr>) xs"
      using assms(1) by (intro device_listI) (auto simp: device_list_def links_def less_SucI)
    with True rest show ?thesis by auto
  next
    case False
    have "fst (links s2) ?d = Some None" using l2 by simp
    then obtain dev2 where "st_devs s2 ?d = Some dev2" "dv_next dev2 = None" by (auto simp: links_def)
    from append_device_list [OF assms(1) refl this l2] obtain s3 where
      s3: "append_device ?d s2 = Some s3" "device_list s3 (xs @ [?d])" by blast
    with rest False fresh show ?thesis
      by (auto split: Option.bind_splits if_splits dest!: camera_init_links device_list_links)
  qed
qed

lemma close_subdevices_result: "fnusb_close_subdevices d s = Some (r, s') \<Longrightarrow> r = 0"
  by (auto simp: fnusb_close_subdevices_def split: Option.bind_splits)

text \<open>
  C16. freenect_close_device refines removing from the list: whenever it returns, it returns 0, the
  list is the one without the device, and the device is not in the store any more.
\<close>

theorem freenect_close_device_refines:
  assumes inv: "device_list s xs" and d: "d \<in> set xs" and run: "freenect_close_device E d s = Some (r, s')"
  shows "r = 0 \<and> device_list s' (remove1 d xs) \<and> st_devs s' d = None"
proof -
  let ?td = "\<lambda>dev. if ud_dev (dv_usb_cam dev) \<noteq> None then map_option snd (freenect_camera_teardown E d s) else Some s"
  from run obtain dev s1 s2 r2 where 1: "st_devs s d = Some dev" "?td dev = Some s1"
    "fnusb_close_subdevices d s1 = Some (r2, s2)"
    "(if r2 < 0 then Some (r2, s2) else unlink_device d s2) = Some (r, s')"
    unfolding freenect_close_device_def by (auto simp del: split_paired_Ex split: Option.bind_splits)
  have l1: "links s1 = links s" using 1(2) by (auto split: if_splits dest: camera_teardown_links)
  have "device_list s2 xs" 
    using inv device_list_links [OF l1] device_list_links [OF close_subdevices_links [OF 1(3)]] by simp
  from unlink_device_list [OF this d] obtain s3 where
    3: "unlink_device d s2 = Some (0, s3)" "device_list s3 (remove1 d xs)" by blast
  have "r2 = 0" using close_subdevices_result [OF 1(3)] .
  with 1(4) 3(1) have "r = 0" "s' = s3" by auto
  moreover have "d \<notin> set (remove1 d xs)" using inv by (simp add: device_list_def split: prod.splits)
  ultimately show ?thesis using 3(2) device_list_st_devs [of s3 "remove1 d xs" d] by auto
qed

section \<open>Shutting down\<close>

definition idle :: "freenect_device \<Rightarrow> bool" where
  "idle dev \<longleftrightarrow> \<not> ps_running (dv_depth dev) \<and> \<not> ps_running (dv_video dev) \<and> \<not> au_running (dv_audio dev)"

lemma close_idle:
  assumes inv: "device_list s xs" and d: "d \<in> set xs" and dev: "st_devs s d = Some dev" "idle dev"
  shows "\<exists>s'. freenect_close_device E d s = Some (0, s') \<and> device_list s' (remove1 d xs) \<and> st_heap s' = st_heap s \<and>
    (\<forall>x dv. st_devs s' x = Some dv \<longrightarrow> (\<exists>dv0. st_devs s x = Some dv0 \<and> (idle dv0 \<longrightarrow> idle dv)))"
proof -
  let ?dev1 = "if ud_dev (dv_usb_cam dev) \<noteq> None
    then dev\<lparr>dv_registration := freenect_destroy_registration (dv_registration dev)\<rparr> else dev"
  let ?s1 = "if ud_dev (dv_usb_cam dev) \<noteq> None then set_dev d ?dev1 s else s"
  have td: "(if ud_dev (dv_usb_cam dev) \<noteq> None then map_option snd (freenect_camera_teardown E d s) else Some s) = Some ?s1"
    using dev by (simp add: freenect_camera_teardown_def idle_def)
  have d1: "st_devs ?s1 d = Some ?dev1" using dev by simp
  obtain evs where cl: "fnusb_close_subdevices d ?s1 = Some (0, set_dev d (without_handles ?dev1) (?s1\<lparr>st_io := evs @ st_io ?s1\<rparr>))"
    using fnusb_close_subdevices_ok [OF d1] by blast
  let ?s2 = "set_dev d (without_handles ?dev1) (?s1\<lparr>st_io := evs @ st_io ?s1\<rparr>)"
  have "links ?s1 = links s" using dev by simp
  then have "device_list ?s1 xs" using inv by (rule device_list_links [THEN iffD2])
  then have "device_list ?s2 xs" by (rule device_list_links [OF close_subdevices_links [OF cl], THEN iffD2])
  from unlink_device_list [OF this d] obtain s3 where
    3: "unlink_device d ?s2 = Some (0, s3)" "device_list s3 (remove1 d xs)" "st_heap s3 = st_heap ?s2"
    "\<And>x dv. st_devs s3 x = Some dv \<Longrightarrow> \<exists>dv0. st_devs ?s2 x = Some dv0 \<and> dv = dv0\<lparr>dv_next := dv_next dv\<rparr>" by blast
  have idle_next: "idle (dv\<lparr>dv_next := q\<rparr>) = idle dv" for dv q by (simp add: idle_def)
  have "freenect_close_device E d s = Some (0, s3)"
    unfolding freenect_close_device_def using dev(1) td cl 3(1) by simp
  moreover have "\<exists>dv0. st_devs s x = Some dv0 \<and> (idle dv0 \<longrightarrow> idle dv)" if "st_devs s3 x = Some dv" for x dv
  proof -
    from 3(4) [OF that] obtain dv2 where 2: "st_devs ?s2 x = Some dv2" "dv = dv2\<lparr>dv_next := dv_next dv\<rparr>" by blast
    then have "idle dv = idle dv2" using idle_next by metis
    moreover have "idle (without_handles ?dev1)" using dev(2) by (simp add: idle_def without_handles_def)
    ultimately show ?thesis using 2(1) dev(1) by (cases "x = d") (auto split: if_splits)
  qed
  ultimately show ?thesis using 3(2,3) by (intro exI [of _ s3]) simp
qed

text \<open>
  C27. Shutting down with any number of idle devices open ends and returns 0: the loop closes them
  one after the other, no device is left in the list or in the store, and no memory is touched.
\<close>

theorem freenect_shutdown_closes_all:
  assumes "device_list s xs" and "\<And>x dev. st_devs s x = Some dev \<Longrightarrow> idle dev"
  shows "\<exists>s'. freenect_shutdown E s = Some (0, s') \<and> device_list s' [] \<and> st_devs s' = Map.empty \<and>
    cx_first (st_ctx s') = None \<and> st_heap s' = st_heap s"
proof -
  have "\<exists>s'. close_all E s = Some s' \<and> device_list s' [] \<and> st_heap s' = st_heap s"
    using assms
  proof (induction xs arbitrary: s)
    case Nil
    then have "cx_first (st_ctx s) = None" by (simp add: device_list_def links_def)
    with Nil show ?case by (subst close_all.simps) simp
  next
    case (Cons x xs)
    have first: "cx_first (st_ctx s) = Some x" using Cons.prems(1) by (simp add: device_list_def links_def)
    obtain dev where dev: "st_devs s x = Some dev" using device_list_st_devs [OF Cons.prems(1)] by auto
    from close_idle [OF Cons.prems(1) _ dev Cons.prems(2) [OF dev], of E] obtain s1 where
      1: "freenect_close_device E x s = Some (0, s1)" "device_list s1 xs" "st_heap s1 = st_heap s"
      "\<And>y dv. st_devs s1 y = Some dv \<Longrightarrow> \<exists>dv0. st_devs s y = Some dv0 \<and> (idle dv0 \<longrightarrow> idle dv)" by auto
    have "idle dv" if "st_devs s1 y = Some dv" for y dv using 1(4) [OF that] Cons.prems(2) by blast
    from Cons.IH [OF 1(2) this] 1(1,3) first show ?case by (subst close_all.simps) simp
  qed
  then obtain s1 where 1: "close_all E s = Some s1" "device_list s1 []" "st_heap s1 = st_heap s" by blast
  have links: "links (snd (fnusb_shutdown s1)) = links s1" "st_heap (snd (fnusb_shutdown s1)) = st_heap s1"
    by (simp_all add: fnusb_shutdown_def links_def)
  let ?s = "snd (fnusb_shutdown s1)"
  have inv: "device_list ?s []" using 1(2) device_list_links [OF links(1)] by simp
  then have "st_devs ?s = Map.empty" using device_list_st_devs [OF inv] by (auto intro!: ext)
  moreover have "cx_first (st_ctx ?s) = None" using inv by (simp add: device_list_def links_def)
  ultimately show ?thesis using 1 inv links(2)
    by (intro exI [of _ ?s]) (simp add: freenect_shutdown_def split_beta)
qed

section \<open>Listing and freeing the attributes\<close>

definition attr_ptrs :: "device_attributes \<Rightarrow> ptr list" where
  "attr_ptrs attr = [at_camera_serial attr, at_node attr]"

lemma grows_mem_write:
  assumes "grows h0 ps h" and "mem_write p off bs h = Some h'" and "p \<in> set ps"
  shows "grows h0 ps h'"
proof -
  have "without ps (hp_blocks h') = without ps (hp_blocks h)"
    using assms(2) by (elim mem_write_SomeD) (use assms(3) in \<open>auto simp: without_def fun_eq_iff\<close>)
  with assms show ?thesis
    using owned_mem_write [OF assms(2)] mem_write_wf [OF assms(2)] by (simp add: grows_def)
qed

lemma new_attributes_grows:
  assumes "grows h0 ps h" and "new_attributes serial h = Some (attr, h')"
  shows "grows h0 (attr_ptrs attr @ ps) h'"
proof -
  obtain node h1 where m1: "malloc 16 h = (node, h1)" by fastforce
  from assms(2) m1 obtain h2 str h3 where w: "mem_write node 0 (replicate 16 0) h1 = Some h2"
    and m2: "malloc (length serial + 1) h2 = (str, h3)"
    and w2: "(if str = None then Some h3 else mem_write str 0 (serial @ [0]) h3) = Some h'"
    and attr: "attr = \<lparr>at_node = node, at_camera_serial = str\<rparr>"
    by (auto simp: new_attributes_def malloc_zeroed_def split: Option.bind_splits prod.splits)
  have "grows h0 (node # ps) h2"
    by (rule grows_mem_write [OF grows_malloc [OF assms(1) m1] w]) simp
  then have g: "grows h0 (str # node # ps) h3" using m2 by (rule grows_malloc)
  have "grows h0 (str # node # ps) h'"
  proof (cases "str = None")
    case False
    with w2 show ?thesis by (intro grows_mem_write [OF g]) auto
  qed (use g w2 in simp)
  then show ?thesis by (simp add: attr attr_ptrs_def)
qed

lemma get_io_heap:
  "get_descriptor E dv s = (p, s') \<Longrightarrow> st_heap s' = st_heap s"
  "open_dev E dv h s = (q, s') \<Longrightarrow> st_heap s' = st_heap s"
  "get_serial E h i old s = (sr, s') \<Longrightarrow> st_heap s' = st_heap s"
  "get_device_list E s = (dl, s') \<Longrightarrow> st_heap s' = st_heap s"
  "bus_number E dv s = (n, s') \<Longrightarrow> st_heap s' = st_heap s"
  "get_parent E dv s = (par, s') \<Longrightarrow> st_heap s' = st_heap s"
  by (auto simp: io_int_def get_descriptor_def open_dev_def get_serial_def get_device_list_def bus_number_def
      get_parent_def Let_def split: prod.splits)

lemma sibling_loop_heap: "sibling_loop E P bus par dvs sb s = (r, s') \<Longrightarrow> st_heap s' = st_heap s"
  by (induction dvs arbitrary: sb s) (auto simp: Let_def split: prod.splits if_splits dest!: get_io_heap)

lemma find_sibling_heap: "fnusb_find_sibling_device E c dvs P s = (r, s') \<Longrightarrow> st_heap s' = st_heap s"
  by (auto simp: fnusb_find_sibling_device_def Let_def split: prod.splits if_splits sum.splits
      dest!: get_io_heap sibling_loop_heap)

lemma camera_serial_heap: "camera_serial_of E devs dv s = (r, s') \<Longrightarrow> st_heap s' = st_heap s"
  by (auto simp: camera_serial_of_def audio_serial_def Let_def split: prod.splits if_splits option.splits
      dest!: get_io_heap find_sibling_heap)

lemma list_loop_grows:
  "list_loop E devs dvs s = Some (attrs, s') \<Longrightarrow> grows h0 ps (st_heap s) \<Longrightarrow>
   grows h0 (concat (map attr_ptrs attrs) @ ps) (st_heap s')"
proof (induction dvs arbitrary: attrs s ps)
  case (Cons dv dvs)
  obtain ser s1 where ser: "camera_serial_of E devs dv s = (ser, s1)" by fastforce
  note h1 = camera_serial_heap [OF ser]
  show ?case
  proof (cases ser)
    case None
    with Cons ser h1 show ?thesis by simp
  next
    case (Some serial)
    from Cons.prems(1) ser Some obtain attr h attrs' where
      1: "new_attributes serial (st_heap s1) = Some (attr, h)" "list_loop E devs dvs (s1\<lparr>st_heap := h\<rparr>) = Some (attrs', s')"
      "attrs = attr # attrs'"
      by (auto split: Option.bind_splits)
    have "grows h0 (attr_ptrs attr @ ps) h" using new_attributes_grows [OF _ 1(1)] Cons.prems(2) h1 by simp
    with Cons.IH [OF 1(2), of "attr_ptrs attr @ ps"]
    have "grows h0 (concat (map attr_ptrs attrs') @ attr_ptrs attr @ ps) (st_heap s')" by simp
    then show ?thesis by (rule grows_mset [rotated]) (simp add: 1(3))
  qed
qed simp

lemma free_attributes_ok:
  assumes "owned (concat (map attr_ptrs attrs)) h"
  shows "\<exists>h'. fold_opt free_attributes attrs h = Some h' \<and> hp_blocks h' = without (concat (map attr_ptrs attrs)) (hp_blocks h)"
  using assms
proof (induction attrs arbitrary: h)
  case (Cons attr attrs)
  let ?rest = "concat (map attr_ptrs attrs)"
  have own: "owned (at_camera_serial attr # at_node attr # ?rest) h" using Cons.prems by (simp add: attr_ptrs_def [of attr])
  obtain h1 where 1: "mfree (at_camera_serial attr) h = Some h1" "owned (at_node attr # ?rest) h1"
    "hp_blocks h1 = without [at_camera_serial attr] (hp_blocks h)" using owned_mfree [OF own] by blast
  obtain h2 where 2: "mfree (at_node attr) h1 = Some h2" "owned ?rest h2" "hp_blocks h2 = without [at_node attr] (hp_blocks h1)"
    using owned_mfree [OF 1(2)] by blast
  have none: "mfree None h = Some h" by (simp add: mfree_def)
  have "(if at_camera_serial attr \<noteq> None then mfree (at_camera_serial attr) h else Some h) = Some h1"
    using 1(1) none by (cases "at_camera_serial attr") auto
  then have "free_attributes attr h = Some h2" using 2(1) by (simp add: free_attributes_def)
  moreover obtain h3 where h3: "fold_opt free_attributes attrs h2 = Some h3" "hp_blocks h3 = without ?rest (hp_blocks h2)"
    using Cons.IH [OF 2(2)] by blast
  ultimately have "fold_opt free_attributes (attr # attrs) h = Some h3" by simp
  moreover have "hp_blocks h3 = without (([at_camera_serial attr] @ [at_node attr]) @ ?rest) (hp_blocks h)"
    unfolding h3(2) 2(3) 1(3) without_without by (rule without_cong) auto
  ultimately show ?case by (auto simp: attr_ptrs_def [of attr])
qed simp

lemma free_device_attributes_frees_list_aux:
  assumes "heap_wf (st_heap s)" and "freenect_list_device_attributes E s = Some ((n, attrs), s1)"
  shows "(n < 0 \<and> attrs = [] \<or> n = int (length attrs)) \<and>
    (\<exists>s2. freenect_free_device_attributes attrs s1 = Some s2 \<and> hp_blocks (st_heap s2) = hp_blocks (st_heap s))"
proof -
  obtain dl s0 where dl: "get_device_list E s = (dl, s0)" by fastforce
  note h0 = get_io_heap(4) [OF dl]
  have "grows (st_heap s) (concat (map attr_ptrs attrs)) (st_heap s1) \<and> (n < 0 \<and> attrs = [] \<or> n = int (length attrs))"
  proof (cases dl)
    case (Inl cnt)
    then have "cnt < 0" using dl by (auto simp: get_device_list_def Let_def split: prod.splits if_splits)
    with Inl show ?thesis using assms dl h0
      by (auto simp: freenect_list_device_attributes_def fnusb_list_device_attributes_def grows_refl split: if_splits)
  next
    case (Inr devs)
    with assms(2) dl obtain s' where l: "list_loop E devs devs s0 = Some (attrs, s')" "n = int (length attrs)"
      "s1 = emit IO_free_device_list s'"
      by (auto simp: freenect_list_device_attributes_def fnusb_list_device_attributes_def split: Option.bind_splits)
    have "grows (st_heap s) [] (st_heap s0)" using assms(1) h0 by (simp add: grows_refl)
    from list_loop_grows [OF l(1) this] show ?thesis using l(2,3) by simp
  qed
  then have g: "grows (st_heap s) (concat (map attr_ptrs attrs)) (st_heap s1)"
    and n: "n < 0 \<and> attrs = [] \<or> n = int (length attrs)" by blast+
  obtain h where "fold_opt free_attributes attrs (st_heap s1) = Some h"
    "hp_blocks h = without (concat (map attr_ptrs attrs)) (hp_blocks (st_heap s1))"
    using free_attributes_ok [OF grows_owned [OF g]] by blast
  with g have "freenect_free_device_attributes attrs s1 = Some (s1\<lparr>st_heap := h\<rparr>)"
    "hp_blocks h = hp_blocks (st_heap s)"
    by (simp_all add: freenect_free_device_attributes_def grows_def)
  with n show ?thesis by auto
qed

text \<open>
  Whatever cameras are connected, freenect_list_device_attributes returns the number of the
  elements of its list or an error with no list, and freenect_free_device_attributes frees exactly
  what it allocated: the memory is as before.
\<close>

theorem free_device_attributes_frees_list:
  assumes "heap_wf (st_heap s)" and "freenect_list_device_attributes E s = Some ((n, attrs), s1)"
  shows "(n < 0 \<and> attrs = [] \<or> n = int (length attrs)) \<and>
    (\<exists>s2. freenect_free_device_attributes attrs s1 = Some s2 \<and> hp_blocks (st_heap s2) = hp_blocks (st_heap s))"
  using assms by (rule free_device_attributes_frees_list_aux)

section \<open>Handling events\<close>

definition is_gone :: "freenect_device \<Rightarrow> bool" where
  "is_gone dev \<longleftrightarrow> ud_device_dead (dv_usb_cam dev) \<or> ud_device_dead (dv_usb_audio dev)"

text \<open>
  After the events have been handled, freenect_process_events returns -1 exactly when one of the
  devices of the context has vanished, and else the result of libusb; when no stream runs, nothing
  else changes.
\<close>

theorem freenect_process_events_reports_gone:
  assumes ev: "fnusb_process_events_timeout E s = Some (res, s1)" and inv: "device_list s1 xs"
    and idle: "\<And>x dev. st_devs s1 x = Some dev \<Longrightarrow> idle dev"
  shows "freenect_process_events E s =
    Some (if \<exists>x dev. st_devs s1 x = Some dev \<and> is_gone dev then -1 else res, s1)"
proof -
  have one: "stop_dead E d r s1 = Some (if is_gone dev then -1 else r, s1)" if "st_devs s1 d = Some dev" for d dev r
    using that idle [OF that]
    by (auto simp: stop_dead_def freenect_stop_video_def freenect_stop_depth_def freenect_stop_audio_def
        idle_def is_gone_def)
  have loop: "dlist (fst (links s1)) cur ys \<Longrightarrow>
      check_devices E cur r s1 = Some (if \<exists>x \<in> set ys. \<exists>dev. st_devs s1 x = Some dev \<and> is_gone dev then -1 else r, s1)"
    for cur ys r
  proof (induction ys arbitrary: cur r)
    case Nil
    then show ?case by (subst check_devices.simps) simp
  next
    case (Cons y ys)
    then obtain dev where dev: "st_devs s1 y = Some dev" "cur = Some y" "dlist (fst (links s1)) (dv_next dev) ys"
      by (auto simp: links_def split: option.splits)
    show ?case using dev Cons.IH [OF dev(3)] one [OF dev(1)] by (subst check_devices.simps) auto
  qed
  have "dlist (fst (links s1)) (cx_first (st_ctx s1)) xs" using inv by (simp add: device_list_def links_def)
  from loop [OF this] ev device_list_st_devs [OF inv] show ?thesis
    by (auto simp: freenect_process_events_def freenect_process_events_timeout_def)
qed

section \<open>Opening by serial number\<close>

definition serial_of :: "heap \<Rightarrow> device_attributes \<Rightarrow> u8 list option" where
  "serial_of h attr = map_option (takeWhile (\<lambda>b. b \<noteq> 0)) (mem_block (at_camera_serial attr) h)"

lemma find_serial_first:
  assumes "\<forall>attr \<in> set attrs. serial_of h attr \<noteq> None"
  shows "find_serial serial attrs n h = Some
    (if \<exists>attr \<in> set attrs. serial_of h attr = Some serial
     then Some (n + int (length (takeWhile (\<lambda>attr. serial_of h attr \<noteq> Some serial) attrs))) else None)"
  using assms
proof (induction attrs arbitrary: n)
  case (Cons attr attrs)
  then obtain blk where "mem_block (at_camera_serial attr) h = Some blk" by (auto simp: serial_of_def)
  then show ?case using Cons by (auto simp: serial_of_def)
qed simp

text \<open>
  freenect_open_device_by_camera_serial opens, with freenect_open_device and after it has freed
  the list, the position in the list of attributes of the first serial number that is equal; without
  one it returns -1.
\<close>

theorem freenect_open_by_serial_position:
  assumes wf: "heap_wf (st_heap s)" and list: "fnusb_list_device_attributes E s = Some ((n, attrs), s1)" and n: "0 \<le> n"
    and strings: "\<forall>attr \<in> set attrs. serial_of (st_heap s1) attr \<noteq> None"
  shows "\<exists>s2. freenect_free_device_attributes attrs s1 = Some s2 \<and> hp_blocks (st_heap s2) = hp_blocks (st_heap s) \<and>
    freenect_open_device_by_camera_serial E serial s =
      (if \<exists>attr \<in> set attrs. serial_of (st_heap s1) attr = Some serial
       then freenect_open_device E (int (length (takeWhile (\<lambda>attr. serial_of (st_heap s1) attr \<noteq> Some serial) attrs))) s2
       else Some ((-1, None), s2))"
proof -
  have "freenect_list_device_attributes E s = Some ((n, attrs), s1)"
    using list by (simp add: freenect_list_device_attributes_def)
  from free_device_attributes_frees_list_aux [OF wf this] obtain s2 where
    2: "freenect_free_device_attributes attrs s1 = Some s2" "hp_blocks (st_heap s2) = hp_blocks (st_heap s)" by blast
  then show ?thesis
    using list n find_serial_first [OF strings, of serial 0]
    by (intro exI [of _ s2]) (simp add: freenect_open_device_by_camera_serial_def)
qed

text \<open>
  The index of freenect_open_device counts every camera of the bus, whether or not its serial
  number can be read: the camera that is opened is the one at this position among all cameras.
\<close>

theorem camera_loop_counts_all_cameras:
  assumes st: "stable E dsc bus par" and en: "cx_enabled_subdevices (st_ctx s) AND FREENECT_DEVICE_CAMERA \<noteq> 0"
    and i: "i < length (filter (has_desc dsc fnusb_is_camera) dvs)"
    and c: "c = filter (has_desc dsc fnusb_is_camera) dvs ! i"
  shows "\<exists>evs. camera_loop E d devs (n + int i) dvs n r0 s =
    map_option (\<lambda>(r, s'). (case r of Inl e \<Rightarrow> Inl e | Inr res \<Rightarrow> Inr (res, Some c), s'))
      (open_camera E d devs c (the (dsc c)) (s\<lparr>st_io := evs @ st_io s\<rparr>))"
  using en i c
proof (induction dvs arbitrary: n i r0 s)
  case (Cons dv dvs)
  obtain res ds where d: "get_descriptor E dv s = ((res, ds), emit (IO_get_descriptor dv) s)"
    "res < 0 \<longleftrightarrow> dsc dv = None" "\<And>d. dsc dv = Some d \<Longrightarrow> ds = d"
    using stable_descriptor [OF st] by metis
  let ?s = "emit (IO_get_descriptor dv) s"
  have en': "cx_enabled_subdevices (st_ctx ?s) AND FREENECT_DEVICE_CAMERA \<noteq> 0" using Cons.prems(1) by simp
  have shift: "?s\<lparr>st_io := evs @ st_io ?s\<rparr> = s\<lparr>st_io := (evs @ [IO_get_descriptor dv]) @ st_io s\<rparr>" for evs
    by (simp add: emit_def)
  let ?goal = "\<lambda>evs. camera_loop E d devs (n + int i) (dv # dvs) n r0 s =
    map_option (\<lambda>(r, s'). (case r of Inl e \<Rightarrow> Inl e | Inr res \<Rightarrow> Inr (res, Some c), s'))
      (open_camera E d devs c (the (dsc c)) (s\<lparr>st_io := evs @ st_io s\<rparr>))"
  show ?case
  proof (cases "has_desc dsc fnusb_is_camera dv")
    case False
    then have skip: "camera_loop E d devs (n + int i) (dv # dvs) n r0 s = camera_loop E d devs (n + int i) dvs n res ?s"
      using d by (cases "dsc dv") auto
    have "i < length (filter (has_desc dsc fnusb_is_camera) dvs)" "c = filter (has_desc dsc fnusb_is_camera) dvs ! i"
      using Cons.prems(2,3) False by simp_all
    from Cons.IH [OF en' this, of n res] obtain evs where "?goal (evs @ [IO_get_descriptor dv])"
      unfolding skip shift by blast
    then show ?thesis by blast
  next
    case True
    then obtain e where e: "dsc dv = Some e" "fnusb_is_camera e" "ds = e" "\<not> res < 0"
      using d by (cases "dsc dv") auto
    show ?thesis
    proof (cases i)
      case 0
      have c: "c = dv" using Cons.prems(3) True 0 by simp
      have s: "?s = s\<lparr>st_io := [IO_get_descriptor dv] @ st_io s\<rparr>" by (simp add: emit_def)
      have "camera_loop E d devs n (dv # dvs) n r0 s = do {
          (r, s') \<leftarrow> open_camera E d devs dv e ?s;
          Some (case r of Inl e \<Rightarrow> Inl e | Inr res \<Rightarrow> Inr (res, Some dv), s') }"
        using e d(1) en' by simp
      then have "?goal [IO_get_descriptor dv]"
        unfolding s c using e(1) 0 by (cases "open_camera E d devs dv e (s\<lparr>st_io := [IO_get_descriptor dv] @ st_io s\<rparr>)") auto
      then show ?thesis by blast
    next
      case (Suc j)
      have next_cam: "camera_loop E d devs (n + int i) (dv # dvs) n r0 s = camera_loop E d devs (n + 1 + int j) dvs (n + 1) res ?s"
        using e d(1) Suc by (simp add: ac_simps)
      have "j < length (filter (has_desc dsc fnusb_is_camera) dvs)" "c = filter (has_desc dsc fnusb_is_camera) dvs ! j"
        using Cons.prems(2,3) True Suc by simp_all
      from Cons.IH [OF en' this, of "n + 1" res] obtain evs where "?goal (evs @ [IO_get_descriptor dv])"
        unfolding next_cam shift by blast
      then show ?thesis by blast
    qed
  qed
qed simp

section \<open>The log filter\<close>

text \<open>Raising the level loses no message.\<close>

lemma fn_log_mono:
  assumes "m \<le> m'" and "fn_log (st_ctx (freenect_set_log_level m s)) l msg = Some out"
  shows "fn_log (st_ctx (freenect_set_log_level m' s)) l msg = Some out"
  using assms by (auto simp: fn_log_def freenect_set_log_level_def split: if_splits)

section \<open>Witnesses\<close>

text \<open>One camera, which can be opened but does not answer.\<close>

definition mute_env :: env where
  "mute_env = boot_env\<lparr>e_devlist := \<lambda>_. (1, [1]), e_control := \<lambda>_. (-1, []),
     e_events := \<lambda>_. (0, [\<lparr>cp_dev = 0, cp_strm = Iso_depth, cp_xfer = 0, cp_status = Xfer_no_device, cp_packets = []\<rparr>])\<rparr>"

definition core_state :: st where
  "core_state = example_state\<lparr>st_devs := Map.empty, st_next_dev := 0, st_ctx := zero_context\<lparr>cx_enabled_subdevices := 2\<rparr>,
     st_heap := \<lparr>hp_blocks = Map.empty, hp_next = 0, hp_avail = 100, hp_fill = 0\<rparr>\<rparr>"

lemma mute_env_simps [simp]:
  "e_devlist mute_env io = (1, [1])" "e_desc mute_env (IO_get_descriptor dv # io) = (0, boot_desc dv)"
  "e_open mute_env (IO_open dv # io) = (0, Some dv)" "e_serial mute_env io = (1, [65, 0])"
  "e_int mute_env (IO_claim h # io) = 0" "e_int mute_env (IO_kernel_driver_active h # io) = 0"
  "e_control mute_env io = (-1, [])" "e_alloc mute_env io = True"
  by (simp_all add: mute_env_def boot_env_def quiet_env_def)

lemma core_state_empty: "device_list core_state []"
  by (simp add: device_list_def links_def core_state_def example_state_def zero_context_def dom_def)

lemma mute_open:
  assumes "st_devs s d = Some dev" and "cx_enabled_subdevices (st_ctx s) = 2"
  shows "\<exists>s'. fnusb_open_subdevices mute_env d 0 s = Some (0, s') \<and> (\<exists>dev'. st_devs s' d = Some dev' \<and> ud_dev (dv_usb_cam dev') = Some 1)"
  using assms
  by (simp add: fnusb_open_subdevices_def open_steps_def get_device_list_def get_descriptor_def boot_desc_def
      fnusb_is_camera_def open_camera_def open_dev_def select_for_model_def fnusb_claim_camera_def io_int_def all_open_def Let_def)

lemma mute_init:
  assumes "st_devs s d = Some dev" and "ud_dev (dv_usb_cam dev) \<noteq> None"
  shows "\<exists>s'. freenect_camera_init mute_env d s = Some (-1, s')"
  using assms
  by (cases "freenect_get_current_video_mode dev") (simp_all add: freenect_camera_init_def freenect_fetch_reg_pad_info_def send_cmd_def fnusb_control_def
      algorithm_params_def Let_def)

definition core_one :: st where
  "core_one = core_state\<lparr>st_devs := [0 \<mapsto> zero_device], st_next_dev := 1,
     st_ctx := zero_context\<lparr>cx_enabled_subdevices := 2, cx_first := Some 0\<rparr>\<rparr>"

lemma core_one_list: "device_list core_one [0]"
  by (simp add: device_list_def links_def core_one_def dom_def)

lemma core_one_dev: "st_devs core_one x = Some dev \<longleftrightarrow> x = 0 \<and> dev = zero_device"
  by (auto simp: core_one_def)

lemma zero_idle: "idle zero_device"
  by (simp add: idle_def zero_device_def zero_packet_stream_def zero_audio_stream_def)

theorem freenect_open_device_refines_witness:
  "\<exists>s'. freenect_open_device mute_env 0 core_state = Some ((-1, Some 0), s') \<and> device_list s' [0]"
proof -
  let ?s0 = "core_state\<lparr>st_devs := [0 \<mapsto> zero_device], st_next_dev := 1\<rparr>"
  have e: "st_devs core_state = Map.empty" "st_next_dev core_state = 0" by (simp_all add: core_state_def)
  obtain s2 dev2 where 2: "fnusb_open_subdevices mute_env 0 0 ?s0 = Some (0, s2)" "st_devs s2 0 = Some dev2"
    "ud_dev (dv_usb_cam dev2) = Some 1"
    using mute_open [of ?s0 0 zero_device] by (auto simp: core_state_def)
  have "cx_first (st_ctx s2) = None" using open_subdevices_links [OF 2(1)]
    by (simp add: links_def core_state_def zero_context_def)
  then have ap: "append_device 0 s2 = Some (s2\<lparr>st_ctx := (st_ctx s2)\<lparr>cx_first := Some 0\<rparr>\<rparr>)"
    by (simp add: append_device_def)
  obtain s4 where 4: "freenect_camera_init mute_env 0 (s2\<lparr>st_ctx := (st_ctx s2)\<lparr>cx_first := Some 0\<rparr>\<rparr>) = Some (-1, s4)"
    using mute_init [of "s2\<lparr>st_ctx := (st_ctx s2)\<lparr>cx_first := Some 0\<rparr>\<rparr>" 0 dev2] 2(2,3) by auto
  have run: "freenect_open_device mute_env 0 core_state = Some ((-1, Some 0), s4)"
    using 2 ap 4 e by (simp add: freenect_open_device_def)
  from freenect_open_device_refines [OF core_state_empty run] run show ?thesis by simp
qed

theorem freenect_close_device_refines_witness:
  "\<exists>s'. freenect_close_device mute_env 0 core_one = Some (0, s') \<and> device_list s' []"
proof -
  obtain s' where s': "freenect_close_device mute_env 0 core_one = Some (0, s')"
    using close_idle [OF core_one_list _ _ zero_idle, of 0 mute_env] core_one_dev by auto
  from freenect_close_device_refines [OF core_one_list _ s'] s' show ?thesis by simp
qed

theorem freenect_shutdown_closes_all_witness:
  "\<exists>s'. freenect_shutdown mute_env core_one = Some (0, s') \<and> st_devs s' = Map.empty"
  using freenect_shutdown_closes_all [OF core_one_list, of mute_env] core_one_dev zero_idle by auto

lemma no_zeros: "[65 :: u8] \<noteq> replicate 16 48"
proof
  assume "[65 :: u8] = replicate 16 48"
  then have "length [65 :: u8] = length (replicate 16 (48 :: u8))" by (rule arg_cong)
  then show False by simp
qed

lemma mute_list:
  "\<exists>s1. fnusb_list_device_attributes mute_env core_state = Some ((1, [\<lparr>at_node = Some 0, at_camera_serial = Some 1\<rparr>]), s1) \<and>
     serial_of (st_heap s1) \<lparr>at_node = Some 0, at_camera_serial = Some 1\<rparr> = Some [65]"
  by (simp add: fnusb_list_device_attributes_def get_device_list_def camera_serial_of_def get_descriptor_def boot_desc_def
      fnusb_is_camera_def open_dev_def get_serial_def new_attributes_def malloc_zeroed_def malloc_def mem_write_def blit_def
      serial_of_def no_zeros core_state_def Let_def)

lemma core_state_wf: "heap_wf (st_heap core_state)"
  by (simp add: core_state_def heap_wf_def)

theorem free_device_attributes_frees_list_witness:
  "\<exists>attrs s1 s2. freenect_list_device_attributes mute_env core_state = Some ((1, attrs), s1) \<and>
     freenect_free_device_attributes attrs s1 = Some s2 \<and> hp_blocks (st_heap s2) = Map.empty"
proof -
  obtain s1 where s1: "freenect_list_device_attributes mute_env core_state =
      Some ((1, [\<lparr>at_node = Some 0, at_camera_serial = Some 1\<rparr>]), s1)"
    using mute_list by (auto simp: freenect_list_device_attributes_def)
  have "hp_blocks (st_heap core_state) = Map.empty" by (simp add: core_state_def)
  with free_device_attributes_frees_list [OF core_state_wf s1] s1 show ?thesis by auto
qed

theorem freenect_open_by_serial_position_witness:
  "\<exists>s2. freenect_open_device_by_camera_serial mute_env [65] core_state = freenect_open_device mute_env 0 s2 \<and>
     freenect_open_device_by_camera_serial mute_env [66] core_state = Some ((-1, None), s2)"
proof -
  obtain s1 where s1: "fnusb_list_device_attributes mute_env core_state =
      Some ((1, [\<lparr>at_node = Some 0, at_camera_serial = Some 1\<rparr>]), s1)"
    "serial_of (st_heap s1) \<lparr>at_node = Some 0, at_camera_serial = Some 1\<rparr> = Some [65]"
    using mute_list by blast
  from freenect_open_by_serial_position [OF core_state_wf s1(1), of "[65]"]
    freenect_open_by_serial_position [OF core_state_wf s1(1), of "[66]"] s1(2)
  show ?thesis by auto
qed

theorem camera_loop_counts_all_cameras_witness:
  "\<exists>evs r s'. camera_loop boot_env 0 [1, 2] 0 [1, 2] 0 0 boot_state = Some (Inr (r, Some 1), s') \<and>
     camera_loop boot_env 0 [1, 2] 0 [1, 2] 0 0 boot_state =
       map_option (\<lambda>(r, s'). (case r of Inl e \<Rightarrow> Inl e | Inr res \<Rightarrow> Inr (res, Some 1), s'))
         (open_camera boot_env 0 [1, 2] 1 (boot_desc 1) (boot_state\<lparr>st_io := evs @ st_io boot_state\<rparr>))"
proof -
  have "st_devs boot_state 0 = Some (zero_device\<lparr>dv_usb_cam := zero_fnusb_dev\<lparr>ud_dev := Some 1\<rparr>\<rparr>)"
    by (simp add: boot_state_def example_state_def)
  from boot_camera [OF this refl] obtain s' where
    run: "camera_loop boot_env 0 [1, 2] 0 [1, 2] 0 0 boot_state = Some (Inr (0, Some 1), s')" by blast
  have "filter (has_desc (\<lambda>dv. Some (boot_desc dv)) fnusb_is_camera) [1, 2] = [1]"
    by (simp add: boot_desc_def fnusb_is_camera_def)
  then have "\<exists>evs. camera_loop boot_env 0 [1, 2] (0 + int 0) [1, 2] 0 0 boot_state =
       map_option (\<lambda>(r, s'). (case r of Inl e \<Rightarrow> Inl e | Inr res \<Rightarrow> Inr (res, Some 1), s'))
         (open_camera boot_env 0 [1, 2] 1 (the (Some (boot_desc 1))) (boot_state\<lparr>st_io := evs @ st_io boot_state\<rparr>))"
    by (intro camera_loop_counts_all_cameras [OF boot_stable]) (simp_all add: boot_state_def)
  with run show ?thesis by auto
qed

theorem freenect_process_events_reports_gone_witness:
  "\<exists>s1. freenect_process_events mute_env core_one = Some (-1, s1)"
proof -
  have strm: "dev_isoc Iso_depth zero_device = zero_isoc_stream" "\<not> is_dead zero_isoc_stream"
    by (simp_all add: zero_device_def zero_isoc_stream_def)
  obtain s1 where s1: "fnusb_process_events_timeout mute_env core_one = Some (0, s1)"
    "\<forall>x dev. st_devs s1 x = Some dev \<longrightarrow> x = 0 \<and> dev = mark_parent_dead Iso_depth (set_isoc Iso_depth (add_dead zero_isoc_stream) zero_device)"
    "st_devs s1 0 \<noteq> None"
    using strm by (auto simp: fnusb_process_events_timeout_def libusb_handle_events_def mute_env_def iso_callback_def
        upd_isoc_def mark_dead_def core_one_def Let_def)
  have "device_list s1 [0]"
    using core_one_list device_list_links [OF libusb_handle_events_links [OF s1(1) [unfolded fnusb_process_events_timeout_def]]] by simp
  moreover have "idle dev" if "st_devs s1 x = Some dev" for x dev
  proof -
    have "dev = mark_parent_dead Iso_depth (set_isoc Iso_depth (add_dead zero_isoc_stream) zero_device)"
      using s1(2) that by blast
    then show ?thesis using zero_idle by (simp add: idle_def)
  qed
  moreover have "\<exists>x dev. st_devs s1 x = Some dev \<and> is_gone dev"
  proof -
    obtain dev where dev: "st_devs s1 0 = Some dev" using s1(3) by blast
    then have "dev = mark_parent_dead Iso_depth (set_isoc Iso_depth (add_dead zero_isoc_stream) zero_device)"
      using s1(2) by blast
    then have "is_gone dev" by (simp add: is_gone_def)
    with dev show ?thesis by blast
  qed
  ultimately show ?thesis using freenect_process_events_reports_gone [OF s1(1)] by auto
qed

end
