(* ===== verification/Client.thy ===== *)
theory Client
  imports Core
begin

text \<open>
  A client of the camera: any sequence of calls that start, stop and set up the two frame streams,
  with the event loop in between, on one open device. The theory shows that no such sequence takes
  the library outside of its objects, whatever libusb reports, as long as there is memory to start a
  stream, and that what the streams have taken is given back.
\<close>

section \<open>What the history tells about the transfers\<close>

text \<open>The streams of which a transfer was ever submitted.\<close>

definition submits :: "io list \<Rightarrow> (nat \<times> iso_strm) set" where
  "submits io = {(d, k). \<exists>i. IO_submit d k i \<in> set io}"

text \<open>
  What is asked of libusb: it reports only transfers of streams that were submitted, and while the
  transfers of a stream are awaited the event loop cannot go on for ever without reporting one of
  them. In between, transfers of other streams may be reported.
\<close>

definition faithful :: "env \<Rightarrow> bool" where
  "faithful E \<longleftrightarrow>
     (\<forall>h. \<forall>x \<in> set (snd (e_events E h)). (cp_dev x, cp_strm x) \<in> submits h) \<and>
     (\<forall>dk. wfp (\<lambda>h' h. dk \<in> submits h \<and> silent_turn E dk h' h))"

text \<open>The transfers of a stream that were cancelled or freed, the last first.\<close>

fun withdrawn :: "nat \<times> iso_strm \<Rightarrow> io list \<Rightarrow> nat list" where
  "withdrawn dk [] = []"
| "withdrawn dk (ev # h) =
     (case ev of IO_cancel d k i \<Rightarrow> if (d, k) = dk then i # withdrawn dk h else withdrawn dk h
      | IO_free_transfer d k i \<Rightarrow> if (d, k) = dk then i # withdrawn dk h else withdrawn dk h
      | _ \<Rightarrow> withdrawn dk h)"

definition same_books :: "io list \<Rightarrow> io list \<Rightarrow> bool" where
  "same_books io io' \<longleftrightarrow>
     submits io' = submits io \<and> draining io' = draining io \<and> (\<forall>dk. withdrawn dk io' = withdrawn dk io)"

lemma same_books_refl [simp]: "same_books io io"
  by (simp add: same_books_def)

lemma same_books_trans: "same_books a b \<Longrightarrow> same_books b c \<Longrightarrow> same_books a c"
  by (simp add: same_books_def)

lemma plain_books: "plain ev \<Longrightarrow> submits (ev # io) = submits io" "plain ev \<Longrightarrow> draining (ev # io) = draining io"
  "plain ev \<Longrightarrow> withdrawn dk (ev # io) = withdrawn dk io"
  by (auto simp: submits_def plain_def split: io.splits)

lemma same_books_plain [simp]: "plain ev \<Longrightarrow> same_books io (ev # io') = same_books io io'"
  by (simp add: same_books_def plain_books del: draining.simps withdrawn.simps)

lemma same_books_submit: "(d, k) \<in> submits io \<Longrightarrow> same_books io (IO_submit d k i # io)"
  by (auto simp: same_books_def submits_def)

lemma after_polls_books [simp]: "same_books io (st_io (after_polls cam n s)) = same_books io (st_io s)"
  by (induction n arbitrary: s) simp_all

lemma send_cmd_books:
  assumes "send_cmd E d cmd buf n s = Some (r, s')"
  shows "same_books (st_io s) (st_io s')"
proof -
  obtain dv where dv: "st_devs s d = Some dv" using assms by (auto simp: send_cmd_def split: Option.bind_splits)
  show ?thesis
  proof (cases "ud_dev (dv_usb_cam dv) = None \<or> odd (length buf) \<or> length buf > 0x400 - 8")
    case True
    then show ?thesis using assms dv by (auto simp: send_cmd_def fnusb_control_def Let_def split: if_splits)
  next
    case False
    then have h: "ud_dev (dv_usb_cam dv) \<noteq> None" by simp
    let ?req = "IO_control (ud_dev (dv_usb_cam dv)) 0x40 0 0 0 (cam_hdr cmd (dv_cam_tag dv) (length buf) @ buf) (length buf + 8)"
    obtain res bs where out: "e_control E (?req # st_io s) = (res, bs)" by fastforce
    show ?thesis
    proof (cases "res < 0")
      case True
      with assms dv False out have "s' = emit ?req s" by (auto simp: send_cmd_def fnusb_control_open [OF h] Let_def)
      then show ?thesis by simp
    next
      case no: False
      with assms dv False out obtain len bytes s2 where
        w: "await_reply E (dv_usb_cam dv) (emit ?req s) = Some ((len, bytes), s2)" and io: "st_io s' = st_io s2"
        by (auto simp: send_cmd_def fnusb_control_open [OF h] Let_def split: Option.bind_splits if_splits option.splits)
      obtain m where "s2 = after_polls (dv_usb_cam dv) (Suc m) (emit ?req s)" using await_reply_SomeD [OF w] by blast
      then have "same_books (st_io s) (st_io s2) = same_books (st_io s) (st_io (emit ?req s))" 
        by (simp only: after_polls_books)
      then show ?thesis using io by simp
    qed
  qed
qed

lemma write_register_books: "write_register E d reg v s = Some (r, s') \<Longrightarrow> same_books (st_io s) (st_io s')"
  by (auto simp: write_register_def split: Option.bind_splits if_splits dest: send_cmd_books)

lemma write_regs_books: "write_regs E d regs s = Some s' \<Longrightarrow> same_books (st_io s) (st_io s')"
  unfolding write_regs_def
proof (induction regs arbitrary: s)
  case (Cons w regs)
  then show ?case
    by (auto split: Option.bind_splits prod.splits dest!: write_register_books intro: same_books_trans)
qed simp

lemma chunk_event_books [simp]: "same_books io (st_io (chunk_event cb user c s)) = same_books io (st_io s)"
  by (simp add: chunk_event_def split: option.split prod.split)

lemma depth_process_books: "depth_process d pkt s = Some s' \<Longrightarrow> same_books (st_io s) (st_io s')"
  by (auto simp: depth_process_def Let_def split: Option.bind_splits if_splits option.splits)

lemma video_process_books: "video_process d pkt s = Some s' \<Longrightarrow> same_books (st_io s) (st_io s')"
  by (auto simp: video_process_def Let_def split: Option.bind_splits if_splits option.splits)

lemma resubmit_books:
  assumes "resubmit E d k i s = Some s'" and "(d, k) \<in> submits (st_io s)"
  shows "same_books (st_io s) (st_io s')"
  using assms same_books_submit [OF assms(2)]
  by (auto simp: resubmit_def Let_def io_int_def upd_isoc_def mark_dead_def split: Option.bind_splits if_splits)

lemma start_iso_books:
  assumes "fnusb_start_iso E d k cb ep xfers pkts len s = Some (r, s')" and "0 < xfers" and "\<forall>h. e_alloc E h"
  shows "submits (st_io s') = insert (d, k) (submits (st_io s))"
proof -
  have sub: "submits (IO_submit d k i # io) = insert (d, k) (submits io)" for i io by (auto simp: submits_def)
  have step: "submits (st_io x') = insert (d, k) (submits (st_io x))" if "start_xfer E d k pkts i x = Some x'" for i x x'
    using that assms(3)
    by (auto simp: start_xfer_def upd_isoc_def io_int_def Let_def sub plain_books split: Option.bind_splits if_splits)
  have "submits (st_io x') = (if is = [] then submits (st_io x) else insert (d, k) (submits (st_io x)))"
    if "fold_opt (start_xfer E d k pkts) is x = Some x'" for "is" x x'
    using that by (induction "is" arbitrary: x) (auto dest!: step split: Option.bind_splits if_splits)
  note loop = this
  obtain buf h where "malloc (nat (xfers * pkts * len)) (st_heap s) = (buf, h)" by fastforce
  with assms(1) obtain x x' where "upd_isoc d k (\<lambda>strm. \<lparr>is_xfers = [], is_buffer = buf, is_cb = Some cb, is_num_xfers = xfers,
      is_pkts = pkts, is_len = len, is_dead = False, is_dead_xfers = 0\<rparr>) (s\<lparr>st_heap := h\<rparr>) = Some x"
    "fold_opt (start_xfer E d k pkts) [0..<nat xfers] x = Some x'" "s' = x'"
    by (auto simp: fnusb_start_iso_def split: Option.bind_splits)
  moreover from this(1) have "st_io x = st_io s" by (auto simp: upd_isoc_def split: Option.bind_splits)
  ultimately show ?thesis using loop [of "[0..<nat xfers]" x x'] assms(2) by simp
qed

section \<open>The streams of a client\<close>

text \<open>
  What the client owns is the memory \<open>h0\<close> of the beginning. Its blocks stay, with their lengths; a
  buffer that it hands over is one of them and large enough.
\<close>

definition client_blocks :: "heap \<Rightarrow> heap \<Rightarrow> bool" where
  "client_blocks h0 h \<longleftrightarrow> (\<forall>a blk. hp_blocks h0 a = Some blk \<longrightarrow> map_option length (hp_blocks h a) = Some (length blk))"

definition user_ok :: "heap \<Rightarrow> nat \<Rightarrow> ptr \<Rightarrow> bool" where
  "user_ok h0 n p \<longleftrightarrow> (\<forall>a. p = Some a \<longrightarrow> (\<exists>blk. hp_blocks h0 a = Some blk \<and> n \<le> length blk))"

text \<open>A running stream with the raw and the processed size \<open>rlen\<close> and \<open>plen\<close>.\<close>

definition sized :: "heap \<Rightarrow> int \<Rightarrow> int \<Rightarrow> packet_stream \<Rightarrow> heap \<Rightarrow> bool" where
  "sized h0 rlen plen strm h \<longleftrightarrow>
     wf_stream strm h \<and> ps_frame_size strm = (if rlen = 0 then plen else rlen) \<and> ps_split_bufs strm = (rlen \<noteq> 0) \<and>
     ps_proc_buf strm = (if ps_usr_buf strm = None then ps_lib_buf strm else ps_usr_buf strm) \<and>
     ps_proc_buf strm \<noteq> None \<and> (rlen = 0 \<longrightarrow> ps_raw_buf strm = ps_proc_buf strm) \<and>
     (rlen \<noteq> 0 \<longrightarrow> (\<exists>a. ps_raw_buf strm = Some a \<and> hp_blocks h0 a = None \<and> ps_lib_buf strm \<noteq> Some a \<and>
        map_option length (hp_blocks h a) = Some (nat rlen))) \<and>
     (\<forall>a. ps_lib_buf strm = Some a \<longrightarrow> (\<exists>n. map_option length (hp_blocks h a) = Some n \<and> plen \<le> int n))"

definition frame_ok :: "heap \<Rightarrow> nat \<Rightarrow> (int \<times> int) option \<Rightarrow> fnusb_isoc_stream \<Rightarrow> packet_stream \<Rightarrow> heap \<Rightarrow> bool" where
  "frame_ok h0 n sizes xf strm h \<longleftrightarrow>
     user_ok h0 n (ps_usr_buf strm) \<and>
     (ps_running strm \<longrightarrow> iso_ready xf \<and>
        (\<exists>rlen plen. sizes = Some (rlen, plen) \<and> 0 \<le> rlen \<and> plen \<le> int n \<and> sized h0 rlen plen strm h))"

definition depth_tables :: "freenect_device \<Rightarrow> bool" where
  "depth_tables dev \<longleftrightarrow>
     (dv_depth_format dev = FREENECT_DEPTH_MM \<longrightarrow> tables_ok (dv_registration dev)) \<and>
     (dv_depth_format dev = FREENECT_DEPTH_REGISTERED \<longrightarrow> registration_ok (dv_registration dev))"

definition dev_ok :: "heap \<Rightarrow> freenect_device \<Rightarrow> heap \<Rightarrow> bool" where
  "dev_ok h0 dev h \<longleftrightarrow>
     client_blocks h0 h \<and>
     dv_depth_resolution dev = FREENECT_RESOLUTION_MEDIUM \<and> dv_depth_format dev \<noteq> FREENECT_DEPTH_DUMMY \<and>
     video_registers (dv_video_format dev) (dv_video_resolution dev) \<noteq> None \<and>
     frame_ok h0 614400 (depth_sizes dev) (dv_depth_isoc dev) (dv_depth dev) h \<and>
     frame_ok h0 3932160 (video_sizes dev) (dv_video_isoc dev) (dv_video dev) h \<and>
     (ps_running (dv_depth dev) \<longrightarrow> depth_tables dev)"

lemma wf_stream_lengths:
  assumes "wf_stream strm h" and "same_lengths h h'"
  shows "wf_stream strm h'"
proof -
  obtain a blk where "ps_raw_buf strm = Some a" "hp_blocks h a = Some blk" "ps_frame_size strm \<le> int (length blk)"
    using assms(1) by (auto simp: wf_stream_def wf_buf_def mem_block_def split: option.splits)
  moreover have "map_option length (hp_blocks h' a) = map_option length (hp_blocks h a)"
    using assms(2) by (simp add: same_lengths_def)
  ultimately have "wf_buf strm h'" by (auto simp: wf_buf_def mem_block_def)
  with assms(1) show ?thesis by (simp add: wf_stream_def)
qed

lemma client_blocks_same: "client_blocks h0 h \<Longrightarrow> same_lengths h h' \<Longrightarrow> client_blocks h0 h'"
  by (auto simp: client_blocks_def same_lengths_def)

lemma sized_same:
  assumes "sized h0 rlen plen strm h" and "same_lengths h h'" and "geom strm' = geom strm" and "wf_stream strm' h'"
  shows "sized h0 rlen plen strm' h'"
proof -
  have e: "ps_frame_size strm' = ps_frame_size strm" "ps_split_bufs strm' = ps_split_bufs strm" "ps_proc_buf strm' = ps_proc_buf strm"
    "ps_usr_buf strm' = ps_usr_buf strm" "ps_lib_buf strm' = ps_lib_buf strm" "ps_raw_buf strm' = ps_raw_buf strm"
    using assms(3) by (simp_all add: geom_def)
  have l: "map_option length (hp_blocks h' a) = map_option length (hp_blocks h a)" for a
    using assms(2) by (simp add: same_lengths_def)
  show ?thesis using assms(1,4) unfolding sized_def e l by blast
qed

lemma frame_ok_same:
  assumes "frame_ok h0 n sizes xf strm h" and "same_lengths h h'" and "geom strm' = geom strm"
    and "ps_running strm \<Longrightarrow> wf_stream strm' h'" and "iso_ready xf \<Longrightarrow> iso_ready xf'"
  shows "frame_ok h0 n sizes xf' strm' h'"
proof -
  have "ps_running strm' = ps_running strm" "ps_usr_buf strm' = ps_usr_buf strm"
    using assms(3) by (simp_all add: geom_def)
  then show ?thesis
    using assms(1,4,5) sized_same [OF _ assms(2,3)] unfolding frame_ok_def by metis
qed

lemma frame_wf: "frame_ok h0 n sizes xf strm h \<Longrightarrow> ps_running strm \<Longrightarrow> wf_stream strm h"
  by (auto simp: frame_ok_def sized_def)

text \<open>Such a stream has the buffers that its callback needs.\<close>

lemma frame_bufs:
  assumes "frame_ok h0 n (Some (rlen, plen)) xf strm h" and "ps_running strm" and "client_blocks h0 h" and "0 < rlen"
  shows "bufs_ok strm (nat rlen) (nat plen) h"
proof -
  have u: "user_ok h0 n (ps_usr_buf strm)" and s: "plen \<le> int n" "sized h0 rlen plen strm h"
    using assms(1,2) by (auto simp: frame_ok_def)
  obtain a where a: "ps_raw_buf strm = Some a" "hp_blocks h0 a = None" "ps_lib_buf strm \<noteq> Some a"
    "map_option length (hp_blocks h a) = Some (nat rlen)" using s(2) assms(4) by (auto simp: sized_def)
  have "ps_raw_buf strm \<noteq> ps_proc_buf strm \<and> (\<exists>m. map_option length (mem_block (ps_proc_buf strm) h) = Some m \<and> nat plen \<le> m)"
  proof (cases "ps_usr_buf strm")
    case None
    then have p: "ps_proc_buf strm = ps_lib_buf strm" using s(2) by (simp add: sized_def)
    moreover have "ps_proc_buf strm \<noteq> None" using s(2) unfolding sized_def by blast
    ultimately obtain c where c: "ps_lib_buf strm = Some c" "ps_proc_buf strm = Some c" using p by auto
    with s(2) obtain m where "map_option length (hp_blocks h c) = Some m" "plen \<le> int m" by (auto simp: sized_def)
    then show ?thesis using a(1,3) c by (auto simp: mem_block_def)
  next
    case (Some b)
    then have "ps_proc_buf strm = Some b" using s(2) by (simp add: sized_def)
    moreover obtain blk where "hp_blocks h0 b = Some blk" "n \<le> length blk" using u Some by (auto simp: user_ok_def)
    moreover have "map_option length (hp_blocks h b) = Some (length blk)"
      using assms(3) calculation(2) by (simp add: client_blocks_def)
    moreover have "a \<noteq> b" using a(2) calculation(2) by auto
    ultimately show ?thesis using a(1) s(1) by (auto simp: mem_block_def)
  qed
  moreover have "wf_stream strm h" using s(2) by (simp add: sized_def)
  moreover have "map_option length (mem_block (ps_raw_buf strm) h) = Some (nat rlen)" using a by (simp add: mem_block_def)
  ultimately show ?thesis by (simp add: bufs_ok_def)
qed

text \<open>The conditions of the theory Frames hold for the running streams of a client.\<close>

lemma dev_ok_depth_inv:
  assumes "dev_ok h0 dev h" and "ps_running (dv_depth dev)"
  shows "depth_inv dev h"
proof -
  have cb: "client_blocks h0 h" and mode: "dv_depth_resolution dev = FREENECT_RESOLUTION_MEDIUM" "dv_depth_format dev \<noteq> FREENECT_DEPTH_DUMMY"
    and f: "frame_ok h0 614400 (depth_sizes dev) (dv_depth_isoc dev) (dv_depth dev) h" and tb: "depth_tables dev"
    using assms by (simp_all add: dev_ok_def)
  have wf: "wf_stream (dv_depth dev) h" using frame_wf [OF f assms(2)] .
  have b: "bufs_ok (dv_depth dev) (nat rlen) (nat plen) h" if "depth_sizes dev = Some (rlen, plen)" "0 < rlen" for rlen plen
    using frame_bufs [OF _ assms(2) cb that(2), of 614400 plen "dv_depth_isoc dev"] f that(1) by simp
  show ?thesis
    using wf mode b tb depth_sizes_medium [OF mode]
    by (auto simp: depth_inv_def depth_tables_def split: freenect_depth_format.splits)
qed

lemma dev_ok_video_inv:
  assumes "dev_ok h0 dev h" and "ps_running (dv_video dev)"
  shows "video_inv dev h"
proof -
  obtain v where v: "video_registers (dv_video_format dev) (dv_video_resolution dev) = Some v" using assms(1) by (auto simp: dev_ok_def)
  have cb: "client_blocks h0 h" and f: "frame_ok h0 3932160 (video_sizes dev) (dv_video_isoc dev) (dv_video dev) h"
    using assms by (simp_all add: dev_ok_def)
  have wf: "wf_stream (dv_video dev) h" using frame_wf [OF f assms(2)] .
  have b: "bufs_ok (dv_video dev) (nat rlen) (nat plen) h" if "video_sizes dev = Some (rlen, plen)" "0 < rlen" for rlen plen
    using frame_bufs [OF _ assms(2) cb that(2), of 3932160 plen "dv_video_isoc dev"] f that(1) by simp
  obtain m n where m: "freenect_get_current_video_mode dev = Some m" "0 < n" "n \<le> 1310720" "nat (fm_width m * fm_height m) = n"
    "8 dvd n" "video_sizes dev = Some (case dv_video_format dev of
        FREENECT_VIDEO_RGB \<Rightarrow> (int n, 3 * int n) | FREENECT_VIDEO_IR_8BIT \<Rightarrow> (int (n * 10 div 8), int n)
      | FREENECT_VIDEO_IR_10BIT \<Rightarrow> (int (n * 10 div 8), 2 * int n) | FREENECT_VIDEO_YUV_RGB \<Rightarrow> (2 * int n, 3 * int n)
      | _ \<Rightarrow> (0, fm_bytes m))"
    using video_sizes_mode [OF v] by blast
  from m(2,5) have "8 \<le> n" by (rule dvd_imp_le [rotated])
  then have "0 < int (n * 10 div 8)" by linarith
  with wf b m show ?thesis
    by (auto simp: video_inv_def Let_def nat_mult_distrib split: freenect_video_format.splits)
qed

section \<open>Events\<close>

text \<open>What the event loop may change of the device.\<close>

definition event_dev :: "freenect_device \<Rightarrow> freenect_device \<Rightarrow> bool" where
  "event_dev dev dev' \<longleftrightarrow>
     (\<exists>a b p q c. dev' = dev\<lparr>dv_depth := a, dv_video := b, dv_depth_isoc := p, dv_video_isoc := q, dv_usb_cam := c\<rparr> \<and>
        geom a = geom (dv_depth dev) \<and> geom b = geom (dv_video dev) \<and>
        fixed_part p = fixed_part (dv_depth_isoc dev) \<and> is_dead_xfers (dv_depth_isoc dev) \<le> is_dead_xfers p \<and>
        fixed_part q = fixed_part (dv_video_isoc dev) \<and> is_dead_xfers (dv_video_isoc dev) \<le> is_dead_xfers q \<and>
        ud_dev c = ud_dev (dv_usb_cam dev))"

lemma event_devI:
  assumes "dev' = dev\<lparr>dv_depth := a, dv_video := b, dv_depth_isoc := p, dv_video_isoc := q, dv_usb_cam := c\<rparr>"
    and "geom a = geom (dv_depth dev)" and "geom b = geom (dv_video dev)"
    and "fixed_part p = fixed_part (dv_depth_isoc dev)" and "is_dead_xfers (dv_depth_isoc dev) \<le> is_dead_xfers p"
    and "fixed_part q = fixed_part (dv_video_isoc dev)" and "is_dead_xfers (dv_video_isoc dev) \<le> is_dead_xfers q"
    and "ud_dev c = ud_dev (dv_usb_cam dev)"
  shows "event_dev dev dev'"
  unfolding event_dev_def using assms by blast

lemma event_dev_refl [simp]: "event_dev dev dev"
  by (rule event_devI [where a = "dv_depth dev" and b = "dv_video dev" and p = "dv_depth_isoc dev" and q = "dv_video_isoc dev"
      and c = "dv_usb_cam dev"]) simp_all

lemma event_dev_trans:
  assumes "event_dev x y" and "event_dev y z"
  shows "event_dev x z"
proof -
  obtain a b p q c where y: "y = x\<lparr>dv_depth := a, dv_video := b, dv_depth_isoc := p, dv_video_isoc := q, dv_usb_cam := c\<rparr>"
    and fy: "geom a = geom (dv_depth x)" "geom b = geom (dv_video x)" "fixed_part p = fixed_part (dv_depth_isoc x)"
    "is_dead_xfers (dv_depth_isoc x) \<le> is_dead_xfers p" "fixed_part q = fixed_part (dv_video_isoc x)"
    "is_dead_xfers (dv_video_isoc x) \<le> is_dead_xfers q" "ud_dev c = ud_dev (dv_usb_cam x)"
    using assms(1) unfolding event_dev_def by blast
  obtain a' b' p' q' c' where z: "z = y\<lparr>dv_depth := a', dv_video := b', dv_depth_isoc := p', dv_video_isoc := q', dv_usb_cam := c'\<rparr>"
    and fz: "geom a' = geom (dv_depth y)" "geom b' = geom (dv_video y)" "fixed_part p' = fixed_part (dv_depth_isoc y)"
    "is_dead_xfers (dv_depth_isoc y) \<le> is_dead_xfers p'" "fixed_part q' = fixed_part (dv_video_isoc y)"
    "is_dead_xfers (dv_video_isoc y) \<le> is_dead_xfers q'" "ud_dev c' = ud_dev (dv_usb_cam y)"
    using assms(2) unfolding event_dev_def by blast
  show ?thesis
    by (rule event_devI [where a = a' and b = b' and p = p' and q = q' and c = c']) (use fy fz in \<open>simp_all add: y z\<close>)
qed

lemma event_dev_simps:
  assumes "event_dev dev dev'"
  shows "ps_running (dv_depth dev') = ps_running (dv_depth dev)" and "ps_running (dv_video dev') = ps_running (dv_video dev)"
    and "ud_dev (dv_usb_cam dev') = ud_dev (dv_usb_cam dev)" and "dv_next dev' = dv_next dev"
    and "dv_usb_audio dev' = dv_usb_audio dev" and "geom (dv_depth dev') = geom (dv_depth dev)"
    and "geom (dv_video dev') = geom (dv_video dev)"
    and "dv_registration dev' = dv_registration dev" and "dv_audio dev' = dv_audio dev"
proof -
  obtain a b p q c where e: "dev' = dev\<lparr>dv_depth := a, dv_video := b, dv_depth_isoc := p, dv_video_isoc := q, dv_usb_cam := c\<rparr>"
    "geom a = geom (dv_depth dev)" "geom b = geom (dv_video dev)" "ud_dev c = ud_dev (dv_usb_cam dev)"
    using assms unfolding event_dev_def by blast
  have "ps_running a = ps_running (dv_depth dev)" "ps_running b = ps_running (dv_video dev)"
    using e(2,3) by (simp_all add: geom_def)
  then show "ps_running (dv_depth dev') = ps_running (dv_depth dev)" "ps_running (dv_video dev') = ps_running (dv_video dev)"
    "ud_dev (dv_usb_cam dev') = ud_dev (dv_usb_cam dev)" "dv_next dev' = dv_next dev" "dv_usb_audio dev' = dv_usb_audio dev"
    "geom (dv_depth dev') = geom (dv_depth dev)" "geom (dv_video dev') = geom (dv_video dev)" "dv_registration dev' = dv_registration dev" "dv_audio dev' = dv_audio dev"
    using e(2-4) by (simp_all add: e(1))
qed

lemma event_dev_isoc:
  assumes "event_dev dev dev'"
  shows "fixed_part (dev_isoc k dev') = fixed_part (dev_isoc k dev)"
    and "is_dead_xfers (dev_isoc k dev) \<le> is_dead_xfers (dev_isoc k dev')"
  using assms by (cases k; auto simp: event_dev_def)+

lemma fixed_iso_ready:
  assumes "fixed_part p = fixed_part q" and "is_dead_xfers q \<le> is_dead_xfers p" and "iso_ready q"
  shows "iso_ready p"
  using assms by (simp add: fixed_part_def iso_ready_def)

lemma event_dev_ok:
  assumes ok: "dev_ok h0 dev h" and ev: "event_dev dev dev'" and len: "same_lengths h h'"
    and wf: "ps_running (dv_depth dev) \<Longrightarrow> wf_stream (dv_depth dev') h'"
      "ps_running (dv_video dev) \<Longrightarrow> wf_stream (dv_video dev') h'"
  shows "dev_ok h0 dev' h'"
proof -
  obtain a b p q c where dev': "dev' = dev\<lparr>dv_depth := a, dv_video := b, dv_depth_isoc := p, dv_video_isoc := q, dv_usb_cam := c\<rparr>"
    and f: "geom a = geom (dv_depth dev)" "geom b = geom (dv_video dev)" "fixed_part p = fixed_part (dv_depth_isoc dev)"
    "is_dead_xfers (dv_depth_isoc dev) \<le> is_dead_xfers p" "fixed_part q = fixed_part (dv_video_isoc dev)"
    "is_dead_xfers (dv_video_isoc dev) \<le> is_dead_xfers q"
    using ev unfolding event_dev_def by blast
  have sz: "depth_sizes dev' = depth_sizes dev" "video_sizes dev' = video_sizes dev"
    by (simp_all add: dev' depth_sizes_def video_sizes_def freenect_get_current_video_mode_def)
  have run: "ps_running a = ps_running (dv_depth dev)" using f(1) by (simp add: geom_def)
  have "frame_ok h0 614400 (depth_sizes dev) p a h'"
    using frame_ok_same [OF _ len f(1), of h0 614400 "depth_sizes dev" "dv_depth_isoc dev"] ok wf(1) fixed_iso_ready [OF f(3,4)]
    by (simp add: dev_ok_def dev')
  moreover have "frame_ok h0 3932160 (video_sizes dev) q b h'"
    using frame_ok_same [OF _ len f(2), of h0 3932160 "video_sizes dev" "dv_video_isoc dev"] ok wf(2) fixed_iso_ready [OF f(5,6)]
    by (simp add: dev_ok_def dev')
  ultimately show ?thesis
    using ok client_blocks_same [OF _ len] run sz by (simp add: dev_ok_def dev' depth_tables_def)
qed

definition event_step :: "heap \<Rightarrow> nat \<Rightarrow> st \<Rightarrow> st \<Rightarrow> bool" where
  "event_step h0 d s s' \<longleftrightarrow>
     (\<exists>dev dev'. st_devs s d = Some dev \<and> st_devs s' = (st_devs s)(d \<mapsto> dev') \<and> event_dev dev dev' \<and>
        dev_ok h0 dev' (st_heap s')) \<and>
     same_lengths (st_heap s) (st_heap s') \<and> st_ctx s' = st_ctx s \<and> same_books (st_io s) (st_io s')"

lemma event_stepI:
  assumes "st_devs s d = Some dev" and "st_devs s' = (st_devs s)(d \<mapsto> dev')" and "event_dev dev dev'"
    and "dev_ok h0 dev' (st_heap s')" and "same_lengths (st_heap s) (st_heap s')" and "st_ctx s' = st_ctx s"
    and "same_books (st_io s) (st_io s')"
  shows "event_step h0 d s s'"
  using assms unfolding event_step_def by blast

lemma event_step_refl: "st_devs s d = Some dev \<Longrightarrow> dev_ok h0 dev (st_heap s) \<Longrightarrow> event_step h0 d s s"
  by (rule event_stepI) (auto simp: fun_upd_idem)

lemma event_step_trans:
  assumes "event_step h0 d s s1" and "event_step h0 d s1 s2"
  shows "event_step h0 d s s2"
proof -
  obtain dev dev1 where 1: "st_devs s d = Some dev" "st_devs s1 = (st_devs s)(d \<mapsto> dev1)" "event_dev dev dev1"
    using assms(1) unfolding event_step_def by blast
  obtain dev1' dev2 where 2: "st_devs s1 d = Some dev1'" "st_devs s2 = (st_devs s1)(d \<mapsto> dev2)" "event_dev dev1' dev2"
    "dev_ok h0 dev2 (st_heap s2)" using assms(2) unfolding event_step_def by blast
  have "dev1' = dev1" using 1(2) 2(1) by simp
  then have "event_dev dev dev2" using 1(3) 2(3) event_dev_trans by blast
  moreover have "st_devs s2 = (st_devs s)(d \<mapsto> dev2)" using 1(2) 2(2) by simp
  moreover have "same_lengths (st_heap s) (st_heap s2)" "st_ctx s2 = st_ctx s" "same_books (st_io s) (st_io s2)"
    using assms same_lengths_trans same_books_trans by (auto simp: event_step_def)
  ultimately show ?thesis using 1(1) 2(4) by (intro event_stepI)
qed

lemma event_stepD:
  assumes "event_step h0 d s s'" and "st_devs s d = Some dev"
  obtains dev' where "st_devs s' = (st_devs s)(d \<mapsto> dev')" and "event_dev dev dev'" and "dev_ok h0 dev' (st_heap s')"
    and "st_devs s' d = Some dev'"
  using assms by (auto simp: event_step_def)

text \<open>The steps of the event loop.\<close>

lemma depth_process_event:
  assumes dev: "st_devs s d = Some dev" and ok: "dev_ok h0 dev (st_heap s)"
  shows "\<exists>s'. depth_process d pkt s = Some s' \<and> event_step h0 d s s'"
proof (cases "ps_running (dv_depth dev)")
  case False
  then have "depth_process d pkt s = Some s" using dev by (simp add: depth_process_def)
  then show ?thesis using event_step_refl [OF dev ok] by blast
next
  case True
  from depth_process_ok [OF dev dev_ok_depth_inv [OF ok True], of pkt] obtain s' strm where
    r: "depth_process d pkt s = Some s'" "st_devs s' = (st_devs s)(d \<mapsto> dev\<lparr>dv_depth := strm\<rparr>)" "geom strm = geom (dv_depth dev)"
    "depth_inv (dev\<lparr>dv_depth := strm\<rparr>) (st_heap s')" "same_lengths (st_heap s) (st_heap s')" "st_ctx s' = st_ctx s" by blast
  let ?dev' = "dev\<lparr>dv_depth := strm\<rparr>"
  have ev: "event_dev dev ?dev'"
    by (rule event_devI [where a = strm and b = "dv_video dev" and p = "dv_depth_isoc dev" and q = "dv_video_isoc dev"
      and c = "dv_usb_cam dev"]) (simp_all add: r(3))
  have "wf_stream (dv_depth ?dev') (st_heap s')" using depth_inv_wf [OF r(4)] .
  moreover have "wf_stream (dv_video ?dev') (st_heap s')" if "ps_running (dv_video dev)"
    using wf_stream_lengths [OF _ r(5)] frame_wf that ok by (auto simp: dev_ok_def)
  ultimately have "dev_ok h0 ?dev' (st_heap s')" by (rule event_dev_ok [OF ok ev r(5)])
  then have "event_step h0 d s s'" by (rule event_stepI [OF dev r(2) ev _ r(5,6) depth_process_books [OF r(1)]])
  with r(1) show ?thesis by blast
qed

lemma video_process_event:
  assumes dev: "st_devs s d = Some dev" and ok: "dev_ok h0 dev (st_heap s)"
  shows "\<exists>s'. video_process d pkt s = Some s' \<and> event_step h0 d s s'"
proof (cases "ps_running (dv_video dev)")
  case False
  then have "video_process d pkt s = Some s" using dev by (simp add: video_process_def)
  then show ?thesis using event_step_refl [OF dev ok] by blast
next
  case True
  from video_process_ok [OF dev dev_ok_video_inv [OF ok True], of pkt] obtain s' strm where
    r: "video_process d pkt s = Some s'" "st_devs s' = (st_devs s)(d \<mapsto> dev\<lparr>dv_video := strm\<rparr>)" "geom strm = geom (dv_video dev)"
    "video_inv (dev\<lparr>dv_video := strm\<rparr>) (st_heap s')" "same_lengths (st_heap s) (st_heap s')" "st_ctx s' = st_ctx s" by blast
  let ?dev' = "dev\<lparr>dv_video := strm\<rparr>"
  have ev: "event_dev dev ?dev'"
    by (rule event_devI [where a = "dv_depth dev" and b = strm and p = "dv_depth_isoc dev" and q = "dv_video_isoc dev"
      and c = "dv_usb_cam dev"]) (simp_all add: r(3))
  have "wf_stream (dv_video ?dev') (st_heap s')" using video_inv_wf [OF r(4)] .
  moreover have "wf_stream (dv_depth ?dev') (st_heap s')" if "ps_running (dv_depth dev)"
    using wf_stream_lengths [OF _ r(5)] frame_wf that ok by (auto simp: dev_ok_def)
  ultimately have "dev_ok h0 ?dev' (st_heap s')" by (intro event_dev_ok [OF ok ev r(5)])
  then have "event_step h0 d s s'" by (rule event_stepI [OF dev r(2) ev _ r(5,6) video_process_books [OF r(1)]])
  with r(1) show ?thesis by blast
qed

fun camera_cb :: "iso_strm \<Rightarrow> fnusb_iso_cb option" where
  "camera_cb Iso_depth = Some Cb_depth_process"
| "camera_cb Iso_video = Some Cb_video_process"
| "camera_cb _ = None"

lemma packets_event:
  assumes "camera_cb k = Some cb" and "st_devs s d = Some dev" and "dev_ok h0 dev (st_heap s)"
  shows "\<exists>s'. fold_opt (run_iso_cb cb d) pkts s = Some s' \<and> event_step h0 d s s'"
  using assms(2,3)
proof (induction pkts arbitrary: s dev)
  case Nil
  then show ?case using event_step_refl by auto
next
  case (Cons pkt pkts)
  have "\<exists>s1. run_iso_cb cb d pkt s = Some s1 \<and> event_step h0 d s s1"
    using assms(1) depth_process_event [OF Cons.prems] video_process_event [OF Cons.prems]
    by (cases k) (auto simp: run_iso_cb_def)
  then obtain s1 where s1: "run_iso_cb cb d pkt s = Some s1" "event_step h0 d s s1" by blast
  from s1(2) Cons.prems(1) obtain dev1 where d1: "st_devs s1 d = Some dev1" "dev_ok h0 dev1 (st_heap s1)"
    by (rule event_stepD) auto
  from Cons.IH [OF d1] s1 event_step_trans [OF s1(2)] show ?case by auto
qed

lemma iso_event:
  assumes dev: "st_devs s d = Some dev" and ok: "dev_ok h0 dev (st_heap s)" and k: "camera_cb k \<noteq> None"
    and s': "s' = set_dev d dev' (s\<lparr>st_io := io'\<rparr>)" and books: "same_books (st_io s) io'"
    and dev': "dev' = set_isoc k xf dev \<or> dev' = mark_parent_dead k (set_isoc k xf dev) \<or> dev' = set_isoc k xf (mark_parent_dead k dev)"
    and xf: "xf = dev_isoc k dev \<or> xf = add_dead (dev_isoc k dev)"
  shows "event_step h0 d s s'"
proof -
  have fx: "fixed_part xf = fixed_part (dev_isoc k dev)" "is_dead_xfers (dev_isoc k dev) \<le> is_dead_xfers xf"
    using xf by (auto simp: add_dead_def fixed_part_def)
  have ev: "event_dev dev dev'"
  proof (rule event_devI [where a = "dv_depth dev" and b = "dv_video dev" and p = "dv_depth_isoc dev'" and q = "dv_video_isoc dev'"
      and c = "dv_usb_cam dev'"])
    show "dev' = dev\<lparr>dv_depth := dv_depth dev, dv_video := dv_video dev, dv_depth_isoc := dv_depth_isoc dev',
        dv_video_isoc := dv_video_isoc dev', dv_usb_cam := dv_usb_cam dev'\<rparr>"
      using dev' k by (cases k) auto
  qed (use dev' k fx in \<open>cases k; auto\<close>)+
  have same: "dv_depth dev' = dv_depth dev" "dv_video dev' = dv_video dev"
    using dev' k by (cases k; auto)+
  have "wf_stream (dv_depth dev') (st_heap s)" if "ps_running (dv_depth dev)" using that ok frame_wf by (auto simp: dev_ok_def same)
  moreover have "wf_stream (dv_video dev') (st_heap s)" if "ps_running (dv_video dev)" using that ok frame_wf by (auto simp: dev_ok_def same)
  ultimately have "dev_ok h0 dev' (st_heap s)" by (intro event_dev_ok [OF ok ev same_lengths_refl])
  then show ?thesis by (intro event_stepI [OF dev _ ev]) (simp_all add: s' books)
qed

lemma resubmit_event:
  assumes dev: "st_devs s d = Some dev" and ok: "dev_ok h0 dev (st_heap s)" and k: "camera_cb k \<noteq> None"
    and sub: "(d, k) \<in> submits (st_io s)"
  shows "\<exists>s'. resubmit E d k i s = Some s' \<and> event_step h0 d s s'"
proof -
  let ?io = "IO_submit d k i # st_io s" and ?xf = "add_dead (dev_isoc k dev)"
  have books: "same_books (st_io s) ?io" by (rule same_books_submit [OF sub])
  have u: "upd_isoc d k add_dead (s\<lparr>st_io := ?io\<rparr>) = Some (set_dev d (set_isoc k ?xf dev) (s\<lparr>st_io := ?io\<rparr>))"
    using dev by (simp add: upd_isoc_def)
  have m: "mark_dead d k (set_dev d (set_isoc k ?xf dev) (s\<lparr>st_io := ?io\<rparr>)) =
      Some (set_dev d (mark_parent_dead k (set_isoc k ?xf dev)) (s\<lparr>st_io := ?io\<rparr>))"
    by (simp add: mark_dead_def)
  have same: "set_dev d (set_isoc k (dev_isoc k dev) dev) (s\<lparr>st_io := ?io\<rparr>) = s\<lparr>st_io := ?io\<rparr>"
    using dev by (simp add: set_dev_same)
  consider (sent) "resubmit E d k i s = Some (set_dev d (set_isoc k (dev_isoc k dev) dev) (s\<lparr>st_io := ?io\<rparr>))"
    | (dead) "resubmit E d k i s = Some (set_dev d (set_isoc k ?xf dev) (s\<lparr>st_io := ?io\<rparr>))"
    | (gone) "resubmit E d k i s = Some (set_dev d (mark_parent_dead k (set_isoc k ?xf dev)) (s\<lparr>st_io := ?io\<rparr>))"
    unfolding resubmit_def io_int_def Let_def emit_def same by (cases "e_int E ?io = 0"; cases "e_int E ?io = - 4") (simp_all add: u m)
  then show ?thesis
  proof cases
    case sent
    moreover have "event_step h0 d s (set_dev d (set_isoc k (dev_isoc k dev) dev) (s\<lparr>st_io := ?io\<rparr>))"
      by (rule iso_event [OF dev ok k refl books, where xf = "dev_isoc k dev"]) simp_all
    ultimately show ?thesis by blast
  next
    case dead
    moreover have "event_step h0 d s (set_dev d (set_isoc k ?xf dev) (s\<lparr>st_io := ?io\<rparr>))"
      by (rule iso_event [OF dev ok k refl books, where xf = ?xf]) simp_all
    ultimately show ?thesis by blast
  next
    case gone
    moreover have "event_step h0 d s (set_dev d (mark_parent_dead k (set_isoc k ?xf dev)) (s\<lparr>st_io := ?io\<rparr>))"
      by (rule iso_event [OF dev ok k refl books, where xf = ?xf]) simp_all
    ultimately show ?thesis by blast
  qed
qed

text \<open>The library knows the streams of which transfers were submitted.\<close>

definition known :: "nat \<Rightarrow> st \<Rightarrow> bool" where
  "known d s \<longleftrightarrow> (\<forall>x k. (x, k) \<in> submits (st_io s) \<longrightarrow>
     x = d \<and> camera_cb k \<noteq> None \<and> (\<exists>dev. st_devs s d = Some dev \<and> is_cb (dev_isoc k dev) = camera_cb k))"

lemma known_same: "submits (st_io s') = submits (st_io s) \<Longrightarrow> st_devs s' = st_devs s \<Longrightarrow> known d s' = known d s"
  by (simp add: known_def)

lemma knownD:
  assumes "known d s" and "(x, k) \<in> submits (st_io s)" and "st_devs s d = Some dev"
  shows "x = d" and "camera_cb k \<noteq> None" and "is_cb (dev_isoc k dev) = camera_cb k"
  using assms by (auto simp: known_def)

lemma known_event:
  assumes "known d s" and "event_step h0 d s s'"
  shows "known d s'"
  unfolding known_def
proof (intro allI impI)
  fix x k assume "(x, k) \<in> submits (st_io s')"
  then have sub: "(x, k) \<in> submits (st_io s)" using assms(2) by (simp add: event_step_def same_books_def)
  obtain dev dev' where d: "st_devs s d = Some dev" "st_devs s' = (st_devs s)(d \<mapsto> dev')" "event_dev dev dev'"
    using assms(2) unfolding event_step_def by blast
  have "is_cb (dev_isoc k dev') = is_cb (dev_isoc k dev)"
    using event_dev_isoc(1) [OF d(3), of k] by (simp add: fixed_part_def)
  then show "x = d \<and> camera_cb k \<noteq> None \<and> (\<exists>dev. st_devs s' d = Some dev \<and> is_cb (dev_isoc k dev) = camera_cb k)"
    using knownD [OF assms(1) sub d(1)] d(2) by simp
qed

lemma iso_callback_event:
  assumes dev: "st_devs s d = Some dev" and ok: "dev_ok h0 dev (st_heap s)" and kn: "known d s"
    and sub: "(cp_dev x, cp_strm x) \<in> submits (st_io s)"
  shows "\<exists>s'. iso_callback E x s = Some s' \<and> event_step h0 d s s'"
proof -
  let ?k = "cp_strm x"
  have x: "cp_dev x = d" and k: "camera_cb ?k \<noteq> None" and cb: "is_cb (dev_isoc ?k dev) = camera_cb ?k"
    using knownD [OF kn sub dev] by simp_all
  have sub': "(d, ?k) \<in> submits (st_io s)" using sub x by simp
  let ?xf = "add_dead (dev_isoc ?k dev)"
  have count: "event_step h0 d s (set_dev d (set_isoc ?k ?xf dev) s)"
    by (rule iso_event [OF dev ok k, where xf = ?xf and io' = "st_io s" and dev' = "set_isoc ?k ?xf dev"]) simp_all
  show ?thesis
  proof (cases "is_dead (dev_isoc ?k dev)")
    case True
    then have "iso_callback E x s = Some (set_dev d (set_isoc ?k ?xf dev) s)"
      using dev x by (simp add: iso_callback_def upd_isoc_def Let_def)
    with count show ?thesis by blast
  next
    case False
    show ?thesis
    proof (cases "cp_status x")
      case Xfer_completed
      from k obtain c where c: "camera_cb ?k = Some c" by auto
      from packets_event [OF c dev ok] obtain s1 where
        s1: "fold_opt (run_iso_cb c d) (take (nat (is_pkts (dev_isoc ?k dev))) (cp_packets x)) s = Some s1" "event_step h0 d s s1"
        by blast
      from s1(2) dev obtain dev1 where d1: "st_devs s1 d = Some dev1" "dev_ok h0 dev1 (st_heap s1)" by (rule event_stepD) auto
      have "(d, ?k) \<in> submits (st_io s1)" using s1(2) sub' by (simp add: event_step_def same_books_def)
      from resubmit_event [OF d1 k this] obtain s' where "resubmit E d ?k (cp_xfer x) s1 = Some s'" "event_step h0 d s1 s'"
        by blast
      with s1 False Xfer_completed dev x cb c event_step_trans show ?thesis
        by (auto simp: iso_callback_def Let_def)
    next
      case Xfer_no_device
      let ?s' = "set_dev d (mark_parent_dead ?k (set_isoc ?k ?xf dev)) s"
      have "iso_callback E x s = Some ?s'"
        using dev x False Xfer_no_device by (simp add: iso_callback_def upd_isoc_def mark_dead_def Let_def)
      moreover have "event_step h0 d s ?s'"
        by (rule iso_event [OF dev ok k _ _ _ disjI2, where xf = ?xf and io' = "st_io s"]) (rule refl | simp)+
      ultimately show ?thesis by blast
    next
      case Xfer_cancelled
      let ?s' = "set_dev d (set_isoc ?k ?xf (mark_parent_dead ?k dev)) s"
      have "iso_callback E x s = Some ?s'"
        using dev x False Xfer_cancelled by (simp add: iso_callback_def upd_isoc_def mark_dead_def Let_def)
      moreover have "event_step h0 d s ?s'"
        by (rule iso_event [OF dev ok k _ _ _ disjI2, where xf = ?xf and io' = "st_io s"]) (rule refl | simp)+
      ultimately show ?thesis by blast
    next
      case Xfer_other
      with False dev x have "iso_callback E x s = resubmit E d ?k (cp_xfer x) s"
        by (simp add: iso_callback_def Let_def)
      with resubmit_event [OF dev ok k sub'] show ?thesis by simp
    qed
  qed
qed

text \<open>Any number of completions; a stream that is being stopped counts its own.\<close>

lemma completions_event:
  assumes "st_devs s d = Some dev" and "dev_ok h0 dev (st_heap s)" and "known d s"
    and "\<forall>x \<in> set xs. (cp_dev x, cp_strm x) \<in> submits (st_io s)"
  shows "\<exists>s' dev'. fold_opt (iso_callback E) xs s = Some s' \<and> event_step h0 d s s' \<and> st_devs s' d = Some dev' \<and>
    (is_dead (dev_isoc k dev) \<longrightarrow>
      is_dead_xfers (dev_isoc k dev) + int (length (filter (\<lambda>x. cp_dev x = d \<and> cp_strm x = k) xs)) \<le> is_dead_xfers (dev_isoc k dev'))"
  using assms
proof (induction xs arbitrary: s dev)
  case Nil
  then show ?case using event_step_refl by auto
next
  case (Cons x xs)
  from iso_callback_event [OF Cons.prems(1-3), of x E] Cons.prems(4) obtain s1 where
    s1: "iso_callback E x s = Some s1" "event_step h0 d s s1" by auto
  from s1(2) Cons.prems(1) obtain dev1 where
    d1: "st_devs s1 d = Some dev1" "dev_ok h0 dev1 (st_heap s1)" "event_dev dev dev1" by (rule event_stepD) auto
  have x: "cp_dev x = d" using knownD(1) [OF Cons.prems(3) _ Cons.prems(1), of "cp_dev x" "cp_strm x"] Cons.prems(4) by simp
  have one: "is_dead (dev_isoc k dev1) = is_dead (dev_isoc k dev)"
    using event_dev_isoc(1) [OF d1(3), of k] by (simp add: fixed_part_def)
  have two: "is_dead_xfers (dev_isoc k dev) + (if cp_strm x = k then 1 else 0) \<le> is_dead_xfers (dev_isoc k dev1)"
    if "is_dead (dev_isoc k dev)"
    using iso_callback_cases [OF s1(1), of dev] x Cons.prems(1) d1(1) that event_dev_isoc(2) [OF d1(3), of k]
    by (auto split: if_splits)
  have "\<forall>y \<in> set xs. (cp_dev y, cp_strm y) \<in> submits (st_io s1)"
    using Cons.prems(4) s1(2) by (simp add: event_step_def same_books_def)
  from Cons.IH [OF d1(1,2) known_event [OF Cons.prems(3) s1(2)] this] obtain s' dev' where
    s': "fold_opt (iso_callback E) xs s1 = Some s'" "event_step h0 d s1 s'" "st_devs s' d = Some dev'"
    "is_dead (dev_isoc k dev1) \<longrightarrow> is_dead_xfers (dev_isoc k dev1) +
      int (length (filter (\<lambda>x. cp_dev x = d \<and> cp_strm x = k) xs)) \<le> is_dead_xfers (dev_isoc k dev')" by blast
  then show ?case
    using s1 event_step_trans [OF s1(2) s'(2)] one two x by (intro exI [of _ s'] exI [of _ dev']) auto
qed

text \<open>
  One call of the event loop: a transfer of the stream that is being stopped is counted, or the turn
  was silent.
\<close>

lemma handle_events_event:
  assumes E: "faithful E" and dev: "st_devs s d = Some dev" and ok: "dev_ok h0 dev (st_heap s)" and kn: "known d s"
  shows "\<exists>r s' dev'. libusb_handle_events E s = Some (r, s') \<and> event_step h0 d s s' \<and> st_devs s' d = Some dev' \<and>
    (is_dead (dev_isoc k dev) \<and> draining (st_io s) = Some (d, k) \<longrightarrow>
      is_dead_xfers (dev_isoc k dev) < is_dead_xfers (dev_isoc k dev') \<or> silent_turn E (d, k) (event_call s') (event_call s))"
proof -
  let ?s = "emit (IO_handle_events (cx_usb_ctx (st_ctx s))) s"
  obtain r xs where ev: "e_events E (st_io ?s) = (r, xs)" by (cases "e_events E (st_io ?s)")
  have b: "same_books (st_io s) (st_io ?s)" by simp
  then have kn1: "known d ?s" using kn known_same [of ?s s d] by (simp add: same_books_def)
  have "\<forall>x \<in> set xs. (cp_dev x, cp_strm x) \<in> submits (st_io ?s)" using E ev unfolding faithful_def by (metis snd_conv)
  with completions_event [of ?s d dev h0 xs E k] dev ok kn1 obtain s' dev' where
    s': "fold_opt (iso_callback E) xs ?s = Some s'" "event_step h0 d ?s s'" "st_devs s' d = Some dev'"
    "is_dead (dev_isoc k dev) \<longrightarrow> is_dead_xfers (dev_isoc k dev) +
      int (length (filter (\<lambda>x. cp_dev x = d \<and> cp_strm x = k) xs)) \<le> is_dead_xfers (dev_isoc k dev')" by auto
  have "event_step h0 d s ?s" by (rule event_stepI [OF dev, where dev' = dev]) (use dev ok b in \<open>simp_all add: fun_upd_idem\<close>)
  then have step: "event_step h0 d s s'" using s'(2) event_step_trans by blast
  moreover have "is_dead_xfers (dev_isoc k dev) < is_dead_xfers (dev_isoc k dev') \<or> silent_turn E (d, k) (event_call s') (event_call s)"
    if h: "is_dead (dev_isoc k dev)" "draining (st_io s) = Some (d, k)"
  proof (cases "filter (\<lambda>x. cp_dev x = d \<and> cp_strm x = k) xs = []")
    case True
    then have none: "\<forall>x \<in> set (snd (e_events E (event_call s))). (cp_dev x, cp_strm x) \<noteq> (d, k)"
      using ev by (simp add: filter_empty_conv)
    obtain evs where "st_io s' = evs @ event_call s" using fold_callback_io [OF s'(1)] by auto
    moreover have "draining (st_io s') = Some (d, k)" using step h(2) by (simp add: event_step_def same_books_def)
    ultimately show ?thesis using none h(2) unfolding silent_turn_def by simp
  next
    case False
    then have "0 < length (filter (\<lambda>x. cp_dev x = d \<and> cp_strm x = k) xs)" by simp
    with s'(4) h(1) show ?thesis by linarith
  qed
  ultimately show ?thesis
    using ev s'(1,3) by (intro exI [of _ r] exI [of _ s'] exI [of _ dev']) (simp add: libusb_handle_events_def Let_def)
qed

section \<open>Stopping while events go on\<close>

lemma drain_event:
  assumes E: "faithful E"
    and "st_devs s d = Some dev" and "dev_ok h0 dev (st_heap s)" and "known d s" and "is_dead (dev_isoc k dev)"
    and "is_dead_xfers (dev_isoc k dev) < is_num_xfers (dev_isoc k dev) \<Longrightarrow>
      draining (st_io s) = Some (d, k) \<and> (d, k) \<in> submits (st_io s)"
  shows "\<exists>s'. drain E d k s = Some s' \<and> event_step h0 d s s'"
proof -
  let ?Q = "\<lambda>h' h. (d, k) \<in> submits h \<and> silent_turn E (d, k) h' h"
  have "wfp ?Q" using E by (simp add: faithful_def)
  from drain_order_wf [OF this] assms(2-) show ?thesis
  proof (induction "(nat (is_num_xfers (dev_isoc k dev) - is_dead_xfers (dev_isoc k dev)), event_call s)"
      arbitrary: s dev rule: wf_induct_rule)
    case less
    show ?case
    proof (cases "is_dead_xfers (dev_isoc k dev) < is_num_xfers (dev_isoc k dev)")
      case False
      then have "drain E d k s = Some s" using less.prems(1) by (subst drain.simps) simp
      then show ?thesis using event_step_refl [OF less.prems(1,2)] by blast
    next
      case True
      note h = less.prems(5) [OF True]
      from handle_events_event [OF E less.prems(1-3), of k] less.prems(4) h obtain r s1 dev1 where
        s1: "libusb_handle_events E s = Some (r, s1)" "event_step h0 d s s1" "st_devs s1 d = Some dev1"
        "is_dead_xfers (dev_isoc k dev) < is_dead_xfers (dev_isoc k dev1) \<or> silent_turn E (d, k) (event_call s1) (event_call s)"
        by blast
      from s1(2) less.prems(1) s1(3) have d1: "event_dev dev dev1" "dev_ok h0 dev1 (st_heap s1)"
        by (auto elim!: event_stepD)
      have fx: "is_dead (dev_isoc k dev1) = is_dead (dev_isoc k dev)" "is_num_xfers (dev_isoc k dev1) = is_num_xfers (dev_isoc k dev)"
        using event_dev_isoc(1) [OF d1(1), of k] by (simp_all add: fixed_part_def)
      have more: "is_dead_xfers (dev_isoc k dev) \<le> is_dead_xfers (dev_isoc k dev1)" by (rule event_dev_isoc(2) [OF d1(1)])
      have b: "draining (st_io s1) = Some (d, k) \<and> (d, k) \<in> submits (st_io s1)"
        using h s1(2) by (simp add: event_step_def same_books_def)
      have sub: "(d, k) \<in> submits (event_call s)" using h by (simp add: submits_def)
      have "((nat (is_num_xfers (dev_isoc k dev1) - is_dead_xfers (dev_isoc k dev1)), event_call s1),
          nat (is_num_xfers (dev_isoc k dev) - is_dead_xfers (dev_isoc k dev)), event_call s) \<in> drain_order ?Q"
        using s1(4)
      proof
        assume "is_dead_xfers (dev_isoc k dev) < is_dead_xfers (dev_isoc k dev1)"
        then show ?thesis using True fx(2) by (intro drain_order_less) simp
      next
        assume "silent_turn E (d, k) (event_call s1) (event_call s)"
        then show ?thesis using sub fx(2) more by (intro drain_order_silent) simp_all
      qed
      from less.hyps [OF this s1(3) d1(2) known_event [OF less.prems(3) s1(2)]] less.prems(4) fx(1) b obtain s' where
        s': "drain E d k s1 = Some s'" "event_step h0 d s1 s'" by blast
      have "drain E d k s = Some s'" using less.prems(1) True s1(1) s'(1) by (subst drain.simps) simp
      then show ?thesis using event_step_trans [OF s1(2) s'(2)] by blast
    qed
  qed
qed

lemma cancel_books:
  "submits (map (IO_cancel d k) is @ io) = submits io"
  "is \<noteq> [] \<Longrightarrow> draining (map (IO_cancel d k) is @ io) = Some (d, k)"
  "dk \<noteq> (d, k) \<Longrightarrow> withdrawn dk (map (IO_cancel d k) is @ io) = withdrawn dk io"
  by (auto simp: submits_def neq_Nil_conv) (induction "is", auto)

lemma free_books:
  "submits (st_io (fold (\<lambda>i. emit (IO_free_transfer d k i)) is s)) = submits (st_io s) \<and>
   (dk \<noteq> (d, k) \<longrightarrow> withdrawn dk (st_io (fold (\<lambda>i. emit (IO_free_transfer d k i)) is s)) = withdrawn dk (st_io s))"
proof (induction "is" arbitrary: s)
  case (Cons i "is")
  have "submits (st_io (emit (IO_free_transfer d k i) s)) = submits (st_io s)" by (auto simp: submits_def)
  with Cons.IH [of "emit (IO_free_transfer d k i) s"] show ?case by simp
qed simp

lemma sizes_cong:
  "dv_depth_format dev' = dv_depth_format dev \<Longrightarrow> dv_depth_resolution dev' = dv_depth_resolution dev \<Longrightarrow>
   depth_sizes dev' = depth_sizes dev"
  "dv_video_format dev' = dv_video_format dev \<Longrightarrow> dv_video_resolution dev' = dv_video_resolution dev \<Longrightarrow>
   video_sizes dev' = video_sizes dev"
  by (simp_all add: depth_sizes_def video_sizes_def freenect_get_current_video_mode_def)

lemma dev_ok_dead:
  assumes "dev_ok h0 dev h"
  shows "dev_ok h0 (set_isoc k ((dev_isoc k dev)\<lparr>is_dead := True\<rparr>) dev) h"
proof -
  let ?dev = "set_isoc k ((dev_isoc k dev)\<lparr>is_dead := True\<rparr>) dev"
  have f: "dv_depth ?dev = dv_depth dev" "dv_video ?dev = dv_video dev" "dv_registration ?dev = dv_registration dev"
    "dv_depth_format ?dev = dv_depth_format dev" "dv_depth_resolution ?dev = dv_depth_resolution dev"
    "dv_video_format ?dev = dv_video_format dev" "dv_video_resolution ?dev = dv_video_resolution dev"
    by (cases k; simp)+
  have "frame_ok h0 n sz (dev_isoc j dev) strm h \<Longrightarrow> frame_ok h0 n sz (dev_isoc j ?dev) strm h" for j n sz strm
    by (auto simp: frame_ok_def iso_ready_def)
  from this [of 614400 _ Iso_depth] this [of 3932160 _ Iso_video] show ?thesis
    using assms unfolding dev_ok_def f depth_tables_def sizes_cong(1) [OF f(4,5)] sizes_cong(2) [OF f(6,7)] dev_isoc.simps by blast
qed

lemma dev_ok_tag [simp]: "dev_ok h0 (dev\<lparr>dv_cam_tag := t\<rparr>) h = dev_ok h0 dev h"
  using sizes_cong [of "dev\<lparr>dv_cam_tag := t\<rparr>" dev] by (simp add: dev_ok_def depth_tables_def)

lemma same_lengths_None: "same_lengths h h' \<Longrightarrow> hp_blocks h' a = None \<longleftrightarrow> hp_blocks h a = None"
  unfolding same_lengths_def by (metis map_option_is_None)

lemma owned_same: "owned ps h \<Longrightarrow> same_lengths h h' \<Longrightarrow> owned ps h'"
  by (simp add: owned_def same_lengths_None del: not_None_eq)

lemma stop_iso_event:
  assumes E: "faithful E" and dev: "st_devs s d = Some dev" and ok: "dev_ok h0 dev (st_heap s)" and kn: "known d s"
    and k: "camera_cb k \<noteq> None" and ready: "iso_ready (dev_isoc k dev)" and sub: "(d, k) \<in> submits (st_io s)"
    and own: "owned (is_buffer (dev_isoc k dev) # ps) (st_heap s)"
  shows "\<exists>s' dev' h. fnusb_stop_iso E d k s = Some (0, s') \<and> st_devs s' = (st_devs s)(d \<mapsto> dev') \<and>
    event_dev (set_isoc k ((dev_isoc k dev)\<lparr>is_dead := True\<rparr>) dev) dev' \<and> dev_ok h0 dev' h \<and>
    same_lengths (st_heap s) h \<and> mfree (is_buffer (dev_isoc k dev)) h = Some (st_heap s') \<and>
    owned (is_buffer (dev_isoc k dev) # ps) h \<and> st_ctx s' = st_ctx s \<and> submits (st_io s') = submits (st_io s) \<and>
    (\<forall>j. j \<noteq> k \<longrightarrow> withdrawn (d, j) (st_io s') = withdrawn (d, j) (st_io s)) \<and> known d s'"
proof -
  let ?n = "nat (is_num_xfers (dev_isoc k dev))" and ?xf = "(dev_isoc k dev)\<lparr>is_dead := True\<rparr>"
  let ?dev1 = "set_isoc k ?xf dev"
  let ?s1 = "set_dev d (set_isoc k ((dev_isoc k dev)\<lparr>is_dead := True\<rparr>) dev) s"
  let ?s2 = "?s1\<lparr>st_io := map (IO_cancel d k) (rev [0..<?n]) @ st_io ?s1\<rparr>"
  have u: "upd_isoc d k (\<lambda>strm. strm\<lparr>is_dead := True\<rparr>) s = Some ?s1" using dev by (simp add: upd_isoc_def)
  have c: "fold_opt (cancel_xfer d k) [0..<?n] ?s1 = Some ?s2"
    by (rule cancel_fold_io [of _ _ ?dev1]) (use ready in \<open>simp_all add: iso_ready_def\<close>)
  have sub2: "submits (st_io ?s2) = submits (st_io s)" by (simp add: cancel_books)
  have kn2: "known d ?s2"
    unfolding known_def sub2
  proof (intro allI impI)
    fix x j assume "(x, j) \<in> submits (st_io s)"
    from knownD [OF kn this dev] show "x = d \<and> camera_cb j \<noteq> None \<and>
        (\<exists>dev. st_devs ?s2 d = Some dev \<and> is_cb (dev_isoc j dev) = camera_cb j)" by auto
  qed
  have d2: "st_devs ?s2 d = Some ?dev1" and ok2: "dev_ok h0 ?dev1 (st_heap ?s2)" using dev_ok_dead [OF ok] by simp_all
  have dr: "draining (st_io ?s2) = Some (d, k) \<and> (d, k) \<in> submits (st_io ?s2)"
    if "is_dead_xfers (dev_isoc k ?dev1) < is_num_xfers (dev_isoc k ?dev1)"
  proof -
    from that ready have "0 < ?n" by (simp add: iso_ready_def)
    then have "rev [0..<?n] \<noteq> []" by simp
    then have "draining (st_io ?s2) = Some (d, k)" using cancel_books(2) [of "rev [0..<?n]" d k "st_io s"] by simp
    then show ?thesis using sub sub2 by simp
  qed
  have "is_dead (dev_isoc k ?dev1)" by simp
  from drain_event [OF E d2 ok2 kn2 this dr] obtain s3 where s3: "drain E d k ?s2 = Some s3" "event_step h0 d ?s2 s3" by blast
  from s3(2) d2 obtain dev3 where d3: "st_devs s3 = (st_devs ?s2)(d \<mapsto> dev3)" "event_dev ?dev1 dev3" "dev_ok h0 dev3 (st_heap s3)"
    "st_devs s3 d = Some dev3" by (rule event_stepD)
  have len: "same_lengths (st_heap s) (st_heap s3)" and rest: "st_ctx s3 = st_ctx s" "submits (st_io s3) = submits (st_io s)"
    using s3(2) sub2 by (simp_all add: event_step_def same_books_def)
  have others: "withdrawn (d, j) (st_io s3) = withdrawn (d, j) (st_io s)" if "j \<noteq> k" for j
    using s3(2) that cancel_books(3) [of "(d, j)" d k] by (simp add: event_step_def same_books_def)
  have buf: "is_buffer (dev_isoc k dev3) = is_buffer (dev_isoc k dev)"
    using event_dev_isoc(1) [OF d3(2), of k] by (simp add: fixed_part_def)
  have own3: "owned (is_buffer (dev_isoc k dev) # ps) (st_heap s3)"
    by (rule owned_same [OF own len])
  from owned_mfree [OF this] obtain h where h: "mfree (is_buffer (dev_isoc k dev)) (st_heap s3) = Some h" by blast
  let ?s4 = "fold (\<lambda>i. emit (IO_free_transfer d k i)) [0..<nat (is_num_xfers (dev_isoc k dev3))] s3"
  let ?s5 = "?s4\<lparr>st_heap := h\<rparr>"
  have "fnusb_stop_iso E d k s = Some (0, ?s5)"
    using u c s3(1) d3(4) buf h by (simp add: fnusb_stop_iso_def Let_def)
  moreover have "known d ?s5"
    using known_event [OF kn2 s3(2)] known_same [of ?s5 s3 d] by (simp add: free_books)
  ultimately show ?thesis
    using d3(1-3) len h own3 rest others
    by (intro exI [of _ ?s5] exI [of _ dev3] exI [of _ "st_heap s3"]) (simp add: free_books)
qed

section \<open>Giving memory back\<close>

lemma heap_wf_same: "heap_wf h \<Longrightarrow> same_lengths h h' \<Longrightarrow> heap_wf h'"
  by (simp add: heap_wf_def same_lengths_None [of h h'] del: not_None_eq) (simp add: same_lengths_def)

lemma freebufs_wf: "stream_freebufs strm h = Some (strm', h') \<Longrightarrow> heap_wf h \<Longrightarrow> heap_wf h'"
  by (auto simp: stream_freebufs_def split: Option.bind_splits if_splits dest: mfree_wf)

lemma owned_append:
  assumes "owned (xs @ ys) h"
  shows "owned xs h" and "owned ys h" and "Some a \<in> set xs \<Longrightarrow> Some a \<notin> set ys"
proof -
  show "owned xs h" "owned ys h" using assms by (auto simp: owned_def)
  have "set (filter (\<lambda>p. p \<noteq> None) xs) \<inter> set (filter (\<lambda>p. p \<noteq> None) ys) = {}"
    using assms by (auto simp: owned_def)
  then show "Some a \<in> set xs \<Longrightarrow> Some a \<notin> set ys" by auto
qed

lemma owned_without:
  assumes "owned (xs @ ys) h" and "hp_blocks h' = without xs (hp_blocks h)"
  shows "owned ys h'"
proof (rule owned_weaken [OF owned_append(2) [OF assms(1)]])
  fix a assume a: "Some a \<in> set ys"
  then have "Some a \<notin> set xs" using owned_append(3) [OF assms(1)] by blast
  moreover have "hp_blocks h a \<noteq> None" using owned_append(2) [OF assms(1)] a by (auto simp: owned_def)
  ultimately show "hp_blocks h' a \<noteq> None" using assms(2) by (simp add: without_def)
qed

lemma frame_ok_free:
  assumes f: "frame_ok h0 n sz xf strm h" and h': "hp_blocks h' = without ps (hp_blocks h)"
    and own: "ps_running strm \<Longrightarrow> \<forall>a. Some a \<in> set (stream_ptrs strm) \<longrightarrow> Some a \<notin> set ps"
    and h0: "\<forall>a. Some a \<in> set ps \<longrightarrow> hp_blocks h0 a = None"
  shows "frame_ok h0 n sz xf strm h'"
proof (cases "ps_running strm")
  case False
  then show ?thesis using f by (simp add: frame_ok_def)
next
  case True
  have same: "hp_blocks h' a = hp_blocks h a" if "Some a \<notin> set ps" for a using h' that by (simp add: without_def)
  have u: "user_ok h0 n (ps_usr_buf strm)" using f by (simp add: frame_ok_def)
  from f True obtain rlen plen where sz: "sz = Some (rlen, plen)" "0 \<le> rlen" "plen \<le> int n" "sized h0 rlen plen strm h"
    by (auto simp: frame_ok_def)
  have lib: "Some a \<notin> set ps" if "ps_lib_buf strm = Some a" for a using own [OF True] that by (simp add: stream_ptrs_def)
  have usr: "Some a \<notin> set ps" if "ps_usr_buf strm = Some a" for a using u that h0 by (force simp: user_ok_def)
  have raw: "Some a \<notin> set ps" if a: "ps_raw_buf strm = Some a" for a
  proof (cases "rlen = 0")
    case True
    then have "Some a = (if ps_usr_buf strm = None then ps_lib_buf strm else ps_usr_buf strm)"
      using a sz(4) unfolding sized_def by metis
    then show ?thesis using lib usr by (metis option.exhaust)
  next
    case False
    then have "ps_split_bufs strm" using sz(4) by (simp add: sized_def)
    then show ?thesis using own [OF True] a by (simp add: stream_ptrs_def)
  qed
  have wf: "wf_stream strm h'"
  proof -
    have "wf_stream strm h" using sz(4) by (simp add: sized_def)
    then obtain a where "ps_raw_buf strm = Some a" by (auto simp: wf_stream_def wf_buf_def mem_block_def split: option.splits)
    then have "mem_block (ps_raw_buf strm) h' = mem_block (ps_raw_buf strm) h" using same raw by (simp add: mem_block_def)
    with \<open>wf_stream strm h\<close> show ?thesis by (simp add: wf_stream_def wf_buf_def)
  qed
  have sl: "hp_blocks h' a = hp_blocks h a" if "ps_raw_buf strm = Some a \<or> ps_lib_buf strm = Some a" for a
    using that same raw lib by blast
  have "sized h0 rlen plen strm h'"
    using sz(4) wf unfolding sized_def by (elim conjE, intro conjI) (assumption | metis sl)+
  with f True sz show ?thesis by (auto simp: frame_ok_def)
qed

lemma dev_ok_free:
  assumes ok: "dev_ok h0 dev h" and h': "hp_blocks h' = without ps (hp_blocks h)"
    and own: "ps_running (dv_depth dev) \<Longrightarrow> \<forall>a. Some a \<in> set (stream_ptrs (dv_depth dev)) \<longrightarrow> Some a \<notin> set ps"
      "ps_running (dv_video dev) \<Longrightarrow> \<forall>a. Some a \<in> set (stream_ptrs (dv_video dev)) \<longrightarrow> Some a \<notin> set ps"
    and h0: "\<forall>a. Some a \<in> set ps \<longrightarrow> hp_blocks h0 a = None"
  shows "dev_ok h0 dev h'"
proof -
  have "client_blocks h0 h'" unfolding client_blocks_def
  proof (intro allI impI)
    fix a blk assume a: "hp_blocks h0 a = Some blk"
    then have "Some a \<notin> set ps" using h0 by auto
    then show "map_option length (hp_blocks h' a) = Some (length blk)"
      using ok a h' by (simp add: dev_ok_def client_blocks_def without_def)
  qed
  moreover have "frame_ok h0 614400 (depth_sizes dev) (dv_depth_isoc dev) (dv_depth dev) h'"
    by (rule frame_ok_free [OF _ h' own(1) h0]) (use ok in \<open>simp add: dev_ok_def\<close>)
  moreover have "frame_ok h0 3932160 (video_sizes dev) (dv_video_isoc dev) (dv_video dev) h'"
    by (rule frame_ok_free [OF _ h' own(2) h0]) (use ok in \<open>simp add: dev_ok_def\<close>)
  ultimately show ?thesis using ok by (simp add: dev_ok_def)
qed

lemma geom_ptrs: "geom a = geom b \<Longrightarrow> stream_ptrs a = stream_ptrs b"
  by (simp add: geom_def stream_ptrs_def)

lemma set_isoc_streams [simp]:
  "dv_depth (set_isoc k xf dev) = dv_depth dev" "dv_video (set_isoc k xf dev) = dv_video dev"
  "dv_usb_cam (set_isoc k xf dev) = dv_usb_cam dev" "dv_next (set_isoc k xf dev) = dv_next dev"
  "dv_usb_audio (set_isoc k xf dev) = dv_usb_audio dev" "dv_audio (set_isoc k xf dev) = dv_audio dev"
  by (cases k; simp)+

lemma dev_isoc_more [simp]:
  "dev_isoc k (dev\<lparr>dv_registration := r\<rparr>) = dev_isoc k dev" "dev_isoc k (dev\<lparr>dv_depth_format := f\<rparr>) = dev_isoc k dev"
  "dev_isoc k (dev\<lparr>dv_depth_resolution := q\<rparr>) = dev_isoc k dev" "dev_isoc k (dev\<lparr>dv_video_format := g\<rparr>) = dev_isoc k dev"
  "dev_isoc k (dev\<lparr>dv_video_resolution := q\<rparr>) = dev_isoc k dev" "dev_isoc k (dev\<lparr>dv_depth_cb := cb\<rparr>) = dev_isoc k dev"
  "dev_isoc k (dev\<lparr>dv_video_cb := cb\<rparr>) = dev_isoc k dev"
  "dev_isoc k (dev\<lparr>dv_depth_chunk_cb := cb\<rparr>) = dev_isoc k dev" "dev_isoc k (dev\<lparr>dv_video_chunk_cb := cb\<rparr>) = dev_isoc k dev"
  by (cases k; simp)+

lemma known_dev:
  assumes "known d s" and "submits (st_io s') = submits (st_io s)" and "st_devs s d = Some dev" and "st_devs s' d = Some dev'"
    and "\<And>k. is_cb (dev_isoc k dev') = is_cb (dev_isoc k dev)"
  shows "known d s'"
  unfolding known_def assms(2)
proof (intro allI impI)
  fix x k assume "(x, k) \<in> submits (st_io s)"
  from knownD [OF assms(1) this assms(3)] show "x = d \<and> camera_cb k \<noteq> None \<and>
      (\<exists>dev. st_devs s' d = Some dev \<and> is_cb (dev_isoc k dev) = camera_cb k)" using assms(4,5) by auto
qed

text \<open>A camera that is open and answers, whatever is remembered of it.\<close>

definition cam_ok :: "env \<Rightarrow> freenect_device \<Rightarrow> bool" where
  "cam_ok E dev \<longleftrightarrow> ud_dev (dv_usb_cam dev) \<noteq> None \<and> (\<forall>cam. ud_dev cam = ud_dev (dv_usb_cam dev) \<longrightarrow> answers E cam)"

text \<open>What stopping either stream does, between clearing its running flag and the end.\<close>

lemma stop_core:
  fixes gs :: "freenect_device \<Rightarrow> packet_stream"
  assumes E: "faithful E" and dev: "st_devs s d = Some dev" and ok: "dev_ok h0 dev (st_heap s)" and kn: "known d s"
    and cam: "cam_ok E dev" and k: "camera_cb k \<noteq> None" and ready: "iso_ready (dev_isoc k dev)"
    and sub: "(d, k) \<in> submits (st_io s)"
    and own: "owned (ps @ qs) (st_heap s)" and wf: "heap_wf (st_heap s)"
    and ps: "ps = is_buffer (dev_isoc k dev) # stream_ptrs (gs dev)"
    and gs: "\<forall>t x. event_dev (set_isoc k ((dev_isoc k dev)\<lparr>is_dead := True\<rparr>) (dev\<lparr>dv_cam_tag := t\<rparr>)) x \<longrightarrow> geom (gs x) = geom (gs dev)"
    and out: "\<forall>a. Some a \<in> set ps \<longrightarrow> hp_blocks h0 a = None"
    and others: "ps_running (dv_depth dev) \<longrightarrow> set (stream_ptrs (dv_depth dev)) \<subseteq> set qs"
      "ps_running (dv_video dev) \<longrightarrow> set (stream_ptrs (dv_video dev)) \<subseteq> set qs"
  shows "\<exists>s1 s2 t dev' h. write_regs E d regs s = Some s1 \<and> fnusb_stop_iso E d k s1 = Some (0, s2) \<and>
    st_devs s2 = (st_devs s)(d \<mapsto> dev') \<and>
    event_dev (set_isoc k ((dev_isoc k dev)\<lparr>is_dead := True\<rparr>) (dev\<lparr>dv_cam_tag := t\<rparr>)) dev' \<and>
    stream_freebufs (gs dev') (st_heap s2) =
      Some ((gs dev')\<lparr>ps_raw_buf := None, ps_proc_buf := None, ps_lib_buf := None\<rparr>, h) \<and>
    dev_ok h0 dev' h \<and> owned qs h \<and> heap_wf h \<and>
    (\<forall>a. map_option length (hp_blocks h a) = map_option length (without ps (hp_blocks (st_heap s)) a)) \<and>
    st_ctx s2 = st_ctx s \<and> submits (st_io s2) = submits (st_io s) \<and>
    (\<forall>j. j \<noteq> k \<longrightarrow> withdrawn (d, j) (st_io s2) = withdrawn (d, j) (st_io s)) \<and> known d s2"
proof -
  have "ud_dev (dv_usb_cam dev) \<noteq> None" "answers E (dv_usb_cam dev)" using cam by (simp_all add: cam_ok_def)
  from write_regs_ok [OF dev this, of regs] obtain s1 t where w: "write_regs E d regs s = Some s1"
    "st_devs s1 = (st_devs s)(d \<mapsto> dev\<lparr>dv_cam_tag := t\<rparr>)" "st_heap s1 = st_heap s" "st_ctx s1 = st_ctx s" by blast
  let ?dev1 = "dev\<lparr>dv_cam_tag := t\<rparr>" and ?h = "st_heap s"
  have b1: "submits (st_io s1) = submits (st_io s)" "\<And>dk. withdrawn dk (st_io s1) = withdrawn dk (st_io s)"
    using write_regs_books [OF w(1)] unfolding same_books_def by blast+
  have d1: "st_devs s1 d = Some ?dev1" using w(2) by simp
  have kn1: "known d s1" by (rule known_dev [OF kn b1(1) dev d1]) simp
  have ok1: "dev_ok h0 ?dev1 (st_heap s1)" using ok w(3) by simp
  have iso1: "dev_isoc k ?dev1 = dev_isoc k dev" by simp
  have own1: "owned (is_buffer (dev_isoc k ?dev1) # (stream_ptrs (gs dev) @ qs)) (st_heap s1)" using own w(3) by (simp add: ps)
  have ready1: "iso_ready (dev_isoc k ?dev1)" and sub1: "(d, k) \<in> submits (st_io s1)" using ready sub b1 by simp_all
  from stop_iso_event [OF E d1 ok1 kn1 k ready1 sub1 own1] obtain s2 dev' h1 where
    s2: "fnusb_stop_iso E d k s1 = Some (0, s2)" "st_devs s2 = (st_devs s1)(d \<mapsto> dev')"
    "event_dev (set_isoc k ((dev_isoc k dev)\<lparr>is_dead := True\<rparr>) ?dev1) dev'" "dev_ok h0 dev' h1" "same_lengths ?h h1"
    "mfree (is_buffer (dev_isoc k dev)) h1 = Some (st_heap s2)"
    "owned (is_buffer (dev_isoc k dev) # (stream_ptrs (gs dev) @ qs)) h1"
    "st_ctx s2 = st_ctx s1" "submits (st_io s2) = submits (st_io s1)" "known d s2"
    "\<forall>j. j \<noteq> k \<longrightarrow> withdrawn (d, j) (st_io s2) = withdrawn (d, j) (st_io s1)"
    unfolding iso1 w(3) by blast
  from owned_mfree [OF s2(7)] s2(6) have f1: "owned (stream_ptrs (gs dev) @ qs) (st_heap s2)"
    "hp_blocks (st_heap s2) = without [is_buffer (dev_isoc k dev)] (hp_blocks h1)" by auto
  have sp: "stream_ptrs (gs dev') = stream_ptrs (gs dev)" using gs s2(3) by (intro geom_ptrs) blast
  have "owned (stream_ptrs (gs dev')) (st_heap s2)" using owned_append(1) [OF f1(1)] by (simp add: sp)
  from owned_freebufs [OF this] obtain h where
    h: "stream_freebufs (gs dev') (st_heap s2) = Some ((gs dev')\<lparr>ps_raw_buf := None, ps_proc_buf := None, ps_lib_buf := None\<rparr>, h)"
    "hp_blocks h = without (stream_ptrs (gs dev)) (hp_blocks (st_heap s2))" unfolding sp by blast
  have blocks: "hp_blocks h = without ps (hp_blocks h1)" using h(2) f1(2) by (simp add: without_without ps)
  have ownq: "owned qs h" using owned_without [OF f1(1) h(2)] .
  have "heap_wf h" by (rule freebufs_wf [OF h(1)] mfree_wf [OF s2(6)] heap_wf_same [OF wf s2(5)])+
  have same: "ps_running (dv_depth dev') = ps_running (dv_depth dev)" "ps_running (dv_video dev') = ps_running (dv_video dev)"
    "stream_ptrs (dv_depth dev') = stream_ptrs (dv_depth dev)" "stream_ptrs (dv_video dev') = stream_ptrs (dv_video dev)"
    using event_dev_simps(1,2) [OF s2(3)] geom_ptrs [OF event_dev_simps(6) [OF s2(3)]] geom_ptrs [OF event_dev_simps(7) [OF s2(3)]]
    by (simp_all add: set_isoc_streams)
  have disj: "Some a \<notin> set ps" if "Some a \<in> set qs" for a using owned_append(3) [OF own] that by blast
  have "dev_ok h0 dev' h"
    by (rule dev_ok_free [OF s2(4) blocks]) (use disj others out in \<open>auto simp: same\<close>)
  moreover have "map_option length (hp_blocks h a) = map_option length (without ps (hp_blocks ?h) a)" for a
    using s2(5) by (simp add: blocks without_def same_lengths_def)
  moreover have "st_devs s2 = (st_devs s)(d \<mapsto> dev')" "st_ctx s2 = st_ctx s" "submits (st_io s2) = submits (st_io s)"
    "\<forall>j. j \<noteq> k \<longrightarrow> withdrawn (d, j) (st_io s2) = withdrawn (d, j) (st_io s)"
    using w(2,4) s2(2,8,9,11) b1 by simp_all
  ultimately show ?thesis using w(1) s2(1,3,10) h(1) ownq \<open>heap_wf h\<close> by blast
qed

section \<open>The invariant of a client\<close>

definition holdings :: "freenect_device \<Rightarrow> ptr list" where
  "holdings dev = (if ps_running (dv_depth dev) then depth_ptrs dev else []) @ (if ps_running (dv_video dev) then video_ptrs dev else [])"

definition mem_ok :: "heap \<Rightarrow> freenect_device \<Rightarrow> heap \<Rightarrow> bool" where
  "mem_ok h0 dev h \<longleftrightarrow> heap_wf h \<and> owned (holdings dev) h \<and>
     (\<forall>a. without (holdings dev) (hp_blocks h) a = None \<longleftrightarrow> hp_blocks h0 a = None)"

abbreviation audio_idle :: "freenect_device \<Rightarrow> bool" where
  "audio_idle dev \<equiv> \<not> ud_device_dead (dv_usb_audio dev) \<and> \<not> au_running (dv_audio dev)"

definition client_inv :: "env \<Rightarrow> heap \<Rightarrow> nat \<Rightarrow> st \<Rightarrow> bool" where
  "client_inv E h0 d s \<longleftrightarrow> known d s \<and> cx_first (st_ctx s) = Some d \<and>
     (\<exists>dev. st_devs s d = Some dev \<and> dev_ok h0 dev (st_heap s) \<and> mem_ok h0 dev (st_heap s) \<and> cam_ok E dev \<and>
        (ps_running (dv_depth dev) \<longrightarrow> (d, Iso_depth) \<in> submits (st_io s)) \<and>
        (ps_running (dv_video dev) \<longrightarrow> (d, Iso_video) \<in> submits (st_io s)) \<and>
        dv_next dev = None \<and> audio_idle dev)"

lemma client_invI:
  assumes "known d s" and "cx_first (st_ctx s) = Some d" and "st_devs s d = Some dev" and "dev_ok h0 dev (st_heap s)"
    and "mem_ok h0 dev (st_heap s)" and "cam_ok E dev"
    and "ps_running (dv_depth dev) \<Longrightarrow> (d, Iso_depth) \<in> submits (st_io s)"
    and "ps_running (dv_video dev) \<Longrightarrow> (d, Iso_video) \<in> submits (st_io s)"
    and "dv_next dev = None" and "audio_idle dev"
  shows "client_inv E h0 d s"
  using assms unfolding client_inv_def by blast

lemma client_invE:
  assumes "client_inv E h0 d s"
  obtains dev where "known d s" and "cx_first (st_ctx s) = Some d" and "st_devs s d = Some dev" and "dev_ok h0 dev (st_heap s)"
    and "mem_ok h0 dev (st_heap s)" and "cam_ok E dev"
    and "ps_running (dv_depth dev) \<longrightarrow> (d, Iso_depth) \<in> submits (st_io s)"
    and "ps_running (dv_video dev) \<longrightarrow> (d, Iso_video) \<in> submits (st_io s)"
    and "dv_next dev = None" and "audio_idle dev"
  using assms unfolding client_inv_def by blast

lemma cam_ok_same: "ud_dev (dv_usb_cam dev') = ud_dev (dv_usb_cam dev) \<Longrightarrow> cam_ok E dev' = cam_ok E dev"
  by (simp add: cam_ok_def)

lemma mem_ok_out: "mem_ok h0 dev h \<Longrightarrow> Some a \<in> set (holdings dev) \<Longrightarrow> hp_blocks h0 a = None"
  unfolding mem_ok_def without_def by metis

lemma event_holdings:
  assumes "event_dev dev dev'"
  shows "holdings dev' = holdings dev"
  using event_dev_simps [OF assms] event_dev_isoc(1) [OF assms, of Iso_depth] event_dev_isoc(1) [OF assms, of Iso_video]
    geom_ptrs [of "dv_depth dev'" "dv_depth dev"] geom_ptrs [of "dv_video dev'" "dv_video dev"]
  by (simp add: holdings_def fixed_part_def)

section \<open>Every call keeps the invariant\<close>

lemma dev_ok_idle_depth:
  assumes "dev_ok h0 dev h" and "\<not> ps_running strm" and "user_ok h0 614400 (ps_usr_buf strm)"
  shows "dev_ok h0 (dev\<lparr>dv_registration := reg, dv_depth := strm\<rparr>) h"
proof -
  let ?dev = "dev\<lparr>dv_registration := reg, dv_depth := strm\<rparr>"
  have f: "dv_depth ?dev = strm" "dv_video ?dev = dv_video dev"
    "dv_depth_format ?dev = dv_depth_format dev" "dv_depth_resolution ?dev = dv_depth_resolution dev"
    "dv_video_format ?dev = dv_video_format dev" "dv_video_resolution ?dev = dv_video_resolution dev"
    "dv_video_isoc ?dev = dv_video_isoc dev" by simp_all
  show ?thesis
    using assms unfolding dev_ok_def f sizes_cong(1) [OF f(3,4)] sizes_cong(2) [OF f(5,6)] frame_ok_def by blast
qed

lemma dev_ok_idle_video:
  assumes "dev_ok h0 dev h" and "\<not> ps_running strm" and "user_ok h0 3932160 (ps_usr_buf strm)"
  shows "dev_ok h0 (dev\<lparr>dv_video := strm\<rparr>) h"
proof -
  let ?dev = "dev\<lparr>dv_video := strm\<rparr>"
  have f: "dv_depth ?dev = dv_depth dev" "dv_video ?dev = strm"
    "dv_depth_format ?dev = dv_depth_format dev" "dv_depth_resolution ?dev = dv_depth_resolution dev"
    "dv_video_format ?dev = dv_video_format dev" "dv_video_resolution ?dev = dv_video_resolution dev"
    "dv_depth_isoc ?dev = dv_depth_isoc dev" "dv_registration ?dev = dv_registration dev" by simp_all
  show ?thesis
    using assms unfolding dev_ok_def f sizes_cong(1) [OF f(3,4)] sizes_cong(2) [OF f(5,6)] frame_ok_def depth_tables_def by blast
qed

lemma dev_ok_user:
  "dev_ok h0 dev h \<Longrightarrow> user_ok h0 614400 (ps_usr_buf (dv_depth dev))"
  "dev_ok h0 dev h \<Longrightarrow> user_ok h0 3932160 (ps_usr_buf (dv_video dev))"
  by (simp_all add: dev_ok_def frame_ok_def)

lemma mem_ok_freed:
  assumes m: "mem_ok h0 dev h" and hold: "mset (holdings dev) = mset (ps @ qs)" and "holdings dev' = qs"
    and "owned qs h'" and "heap_wf h'"
    and len: "\<And>a. map_option length (hp_blocks h' a) = map_option length (without ps (hp_blocks h) a)"
  shows "mem_ok h0 dev' h'"
proof -
  have none: "hp_blocks h' a = None \<longleftrightarrow> without ps (hp_blocks h) a = None" for a using len [of a] by (metis map_option_is_None)
  have "set (holdings dev) = set (ps @ qs)" using hold by (rule mset_eq_setD)
  then have "without qs (hp_blocks h') a = None \<longleftrightarrow> without (holdings dev) (hp_blocks h) a = None" for a
    using none by (simp add: without_def)
  moreover have "without (holdings dev) (hp_blocks h) a = None \<longleftrightarrow> hp_blocks h0 a = None" for a
    using m unfolding mem_ok_def by blast
  ultimately show ?thesis using assms(4,5) unfolding mem_ok_def assms(3) by blast
qed

lemma stop_depth_client_idle:
  assumes E: "faithful E" and inv: "client_inv E h0 d s" and dev: "st_devs s d = Some dev"
  shows "\<exists>r s' dev'. freenect_stop_depth E d s = Some (r, s') \<and> client_inv E h0 d s' \<and> st_devs s' d = Some dev' \<and>
    \<not> ps_running (dv_depth dev') \<and> ps_running (dv_video dev') = ps_running (dv_video dev) \<and>
    (ps_running (dv_depth dev) \<longrightarrow> r = 0) \<and> fixed_part (dv_video_isoc dev') = fixed_part (dv_video_isoc dev) \<and>
    withdrawn (d, Iso_video) (st_io s') = withdrawn (d, Iso_video) (st_io s)"
proof -
  from inv dev have kn: "known d s" and cx: "cx_first (st_ctx s) = Some d"
    and ok: "dev_ok h0 dev (st_heap s)" and mem: "mem_ok h0 dev (st_heap s)" and cam: "cam_ok E dev"
    and subd: "ps_running (dv_depth dev) \<longrightarrow> (d, Iso_depth) \<in> submits (st_io s)"
    and subv: "ps_running (dv_video dev) \<longrightarrow> (d, Iso_video) \<in> submits (st_io s)"
    and nx: "dv_next dev = None" "audio_idle dev" by (auto elim!: client_invE)
  show ?thesis
  proof (cases "ps_running (dv_depth dev)")
    case False
    then have "freenect_stop_depth E d s = Some (-1, s)" using dev by (simp add: freenect_stop_depth_def)
    then show ?thesis using inv dev False by blast
  next
    case True
    let ?off = "(dv_depth dev)\<lparr>ps_running := False\<rparr>"
    let ?dev0 = "dev\<lparr>dv_depth := ?off\<rparr>" and ?qs = "if ps_running (dv_video dev) then video_ptrs dev else []"
    let ?s0 = "set_dev d (dev\<lparr>dv_depth := (dv_depth dev)\<lparr>ps_running := False\<rparr>\<rparr>) s"
    have hold: "holdings dev = depth_ptrs dev @ ?qs" using True by (simp add: holdings_def)
    have d0: "st_devs ?s0 d = Some ?dev0" by simp
    have ok0: "dev_ok h0 ?dev0 (st_heap ?s0)"
      using dev_ok_idle_depth [OF ok, of ?off "dv_registration dev"] dev_ok_user [OF ok] by simp
    have kn0: "known d ?s0" by (rule known_dev [OF kn _ dev d0]) simp_all
    have cam0: "cam_ok E ?dev0" using cam by (simp add: cam_ok_def)
    have ready: "iso_ready (dev_isoc Iso_depth ?dev0)" using ok True by (simp add: dev_ok_def frame_ok_def)
    have sub0: "(d, Iso_depth) \<in> submits (st_io ?s0)" using subd True by simp
    have own0: "owned (depth_ptrs dev @ ?qs) (st_heap ?s0)" "heap_wf (st_heap ?s0)" using mem hold by (simp_all add: mem_ok_def)
    have out: "\<forall>a. Some a \<in> set (depth_ptrs dev) \<longrightarrow> hp_blocks h0 a = None"
      using mem_ok_out [OF mem] unfolding hold by simp
    have cb: "camera_cb Iso_depth \<noteq> None" by simp
    have ps0: "depth_ptrs dev = is_buffer (dev_isoc Iso_depth ?dev0) # stream_ptrs (dv_depth ?dev0)" by simp
    have gs0: "\<forall>t x. event_dev (set_isoc Iso_depth ((dev_isoc Iso_depth ?dev0)\<lparr>is_dead := True\<rparr>) (?dev0\<lparr>dv_cam_tag := t\<rparr>)) x \<longrightarrow>
        geom (dv_depth x) = geom (dv_depth ?dev0)"
      using event_dev_simps(6) by fastforce
    have o1: "ps_running (dv_depth ?dev0) \<longrightarrow> set (stream_ptrs (dv_depth ?dev0)) \<subseteq> set ?qs" by simp
    have o2: "ps_running (dv_video ?dev0) \<longrightarrow> set (stream_ptrs (dv_video ?dev0)) \<subseteq> set ?qs" by auto
    from stop_core [where gs = dv_depth and regs = "[(0x06, 0x00)]", OF E d0 ok0 kn0 cam0 cb ready sub0 own0 ps0 gs0 out o1 o2]
    obtain s1 s2 t dev' h where
      r: "write_regs E d [(0x06, 0x00)] ?s0 = Some s1" "fnusb_stop_iso E d Iso_depth s1 = Some (0, s2)"
      "st_devs s2 = (st_devs ?s0)(d \<mapsto> dev')"
      "event_dev (set_isoc Iso_depth ((dev_isoc Iso_depth ?dev0)\<lparr>is_dead := True\<rparr>) (?dev0\<lparr>dv_cam_tag := t\<rparr>)) dev'"
      "stream_freebufs (dv_depth dev') (st_heap s2) =
        Some ((dv_depth dev')\<lparr>ps_raw_buf := None, ps_proc_buf := None, ps_lib_buf := None\<rparr>, h)"
      "dev_ok h0 dev' h" "owned ?qs h" "heap_wf h"
      "\<forall>a. map_option length (hp_blocks h a) = map_option length (without (depth_ptrs dev) (hp_blocks (st_heap ?s0)) a)"
      "st_ctx s2 = st_ctx ?s0" "submits (st_io s2) = submits (st_io ?s0)" "known d s2"
      "\<forall>j. j \<noteq> Iso_depth \<longrightarrow> withdrawn (d, j) (st_io s2) = withdrawn (d, j) (st_io ?s0)"
      by blast
    note sm = event_dev_simps [OF r(4)]
    let ?dev4 = "dev'\<lparr>dv_registration := freenect_destroy_registration (dv_registration dev'),
        dv_depth := (dv_depth dev')\<lparr>ps_raw_buf := None, ps_proc_buf := None, ps_lib_buf := None\<rparr>\<rparr>"
    let ?s4 = "set_dev d ?dev4 (s2\<lparr>st_heap := h\<rparr>)"
    have run: "freenect_stop_depth E d s = Some (0, ?s4)"
      using dev True r(1,2,3,5) by (simp add: freenect_stop_depth_def)
    have d4: "st_devs ?s4 d = Some ?dev4" and d2: "st_devs s2 d = Some dev'" using r(3) by simp_all
    have idle: "\<not> ps_running (dv_depth ?dev4)" and vrun: "ps_running (dv_video ?dev4) = ps_running (dv_video dev)" using sm by simp_all
    have "dev_ok h0 ?dev4 h" by (rule dev_ok_idle_depth [OF r(6)]) (use idle dev_ok_user(1) [OF r(6)] in simp_all)
    then have ok4: "dev_ok h0 ?dev4 (st_heap ?s4)" by simp
    have "holdings ?dev4 = ?qs"
      using idle vrun event_dev_isoc(1) [OF r(4), of Iso_video] geom_ptrs [OF sm(7)] by (simp add: holdings_def fixed_part_def)
    from mem_ok_freed [OF mem _ this r(7,8), of "depth_ptrs dev"] hold r(9) have mem4: "mem_ok h0 ?dev4 (st_heap ?s4)" by simp
    have kn4: "known d ?s4" by (rule known_dev [OF r(12) _ d2 d4]) simp_all
    have cam4: "cam_ok E ?dev4" using cam sm(3) by (simp add: cam_ok_def)
    have "client_inv E h0 d ?s4"
      by (rule client_invI [OF kn4 _ d4 ok4 mem4 cam4]) (use cx r(10,11) idle vrun subv sm nx in simp_all)
    moreover have "fixed_part (dv_video_isoc ?dev4) = fixed_part (dv_video_isoc dev)"
      using event_dev_isoc(1) [OF r(4), of Iso_video] by simp
    moreover have "withdrawn (d, Iso_video) (st_io ?s4) = withdrawn (d, Iso_video) (st_io s)" using r(13) by simp
    ultimately show ?thesis using run d4 idle vrun by blast
  qed
qed

lemma stop_depth_client:
  assumes "faithful E" and "client_inv E h0 d s"
  shows "\<exists>r s'. freenect_stop_depth E d s = Some (r, s') \<and> client_inv E h0 d s'"
proof -
  from assms(2) obtain dev where "st_devs s d = Some dev" by (rule client_invE)
  from stop_depth_client_idle [OF assms this] show ?thesis by blast
qed

lemma stop_video_client_idle:
  assumes E: "faithful E" and inv: "client_inv E h0 d s" and dev: "st_devs s d = Some dev"
  shows "\<exists>r s' dev'. freenect_stop_video E d s = Some (r, s') \<and> client_inv E h0 d s' \<and> st_devs s' d = Some dev' \<and>
    \<not> ps_running (dv_video dev') \<and> ps_running (dv_depth dev') = ps_running (dv_depth dev)"
proof -
  from inv dev have kn: "known d s" and cx: "cx_first (st_ctx s) = Some d"
    and ok: "dev_ok h0 dev (st_heap s)" and mem: "mem_ok h0 dev (st_heap s)" and cam: "cam_ok E dev"
    and subd: "ps_running (dv_depth dev) \<longrightarrow> (d, Iso_depth) \<in> submits (st_io s)"
    and subv: "ps_running (dv_video dev) \<longrightarrow> (d, Iso_video) \<in> submits (st_io s)"
    and nx: "dv_next dev = None" "audio_idle dev" by (auto elim!: client_invE)
  show ?thesis
  proof (cases "ps_running (dv_video dev)")
    case False
    then have "freenect_stop_video E d s = Some (-1, s)" using dev by (simp add: freenect_stop_video_def)
    then show ?thesis using inv dev False by blast
  next
    case True
    let ?off = "(dv_video dev)\<lparr>ps_running := False\<rparr>"
    let ?dev0 = "dev\<lparr>dv_video := ?off\<rparr>" and ?qs = "if ps_running (dv_depth dev) then depth_ptrs dev else []"
    let ?s0 = "set_dev d (dev\<lparr>dv_video := (dv_video dev)\<lparr>ps_running := False\<rparr>\<rparr>) s"
    have hold: "mset (holdings dev) = mset (video_ptrs dev @ ?qs)" using True by (simp add: holdings_def)
    have d0: "st_devs ?s0 d = Some ?dev0" by simp
    have ok0: "dev_ok h0 ?dev0 (st_heap ?s0)"
      using dev_ok_idle_video [OF ok, of ?off] dev_ok_user [OF ok] by simp
    have kn0: "known d ?s0" by (rule known_dev [OF kn _ dev d0]) simp_all
    have cam0: "cam_ok E ?dev0" using cam by (simp add: cam_ok_def)
    have ready: "iso_ready (dev_isoc Iso_video ?dev0)" using ok True by (simp add: dev_ok_def frame_ok_def)
    have sub0: "(d, Iso_video) \<in> submits (st_io ?s0)" using subv True by simp
    have own0: "owned (video_ptrs dev @ ?qs) (st_heap ?s0)" "heap_wf (st_heap ?s0)"
      using mem owned_mset [OF hold] by (simp_all add: mem_ok_def)
    have out: "\<forall>a. Some a \<in> set (video_ptrs dev) \<longrightarrow> hp_blocks h0 a = None"
      using mem_ok_out [OF mem] unfolding mset_eq_setD [OF hold] by simp
    have cb: "camera_cb Iso_video \<noteq> None" by simp
    have ps0: "video_ptrs dev = is_buffer (dev_isoc Iso_video ?dev0) # stream_ptrs (dv_video ?dev0)" by simp
    have gs0: "\<forall>t x. event_dev (set_isoc Iso_video ((dev_isoc Iso_video ?dev0)\<lparr>is_dead := True\<rparr>) (?dev0\<lparr>dv_cam_tag := t\<rparr>)) x \<longrightarrow>
        geom (dv_video x) = geom (dv_video ?dev0)"
      using event_dev_simps(7) by fastforce
    have o1: "ps_running (dv_video ?dev0) \<longrightarrow> set (stream_ptrs (dv_video ?dev0)) \<subseteq> set ?qs" by simp
    have o2: "ps_running (dv_depth ?dev0) \<longrightarrow> set (stream_ptrs (dv_depth ?dev0)) \<subseteq> set ?qs" by auto
    from stop_core [where gs = dv_video and regs = "[(0x05, 0x00)]", OF E d0 ok0 kn0 cam0 cb ready sub0 own0 ps0 gs0 out o2 o1]
    obtain s1 s2 t dev' h where
      r: "write_regs E d [(0x05, 0x00)] ?s0 = Some s1" "fnusb_stop_iso E d Iso_video s1 = Some (0, s2)"
      "st_devs s2 = (st_devs ?s0)(d \<mapsto> dev')"
      "event_dev (set_isoc Iso_video ((dev_isoc Iso_video ?dev0)\<lparr>is_dead := True\<rparr>) (?dev0\<lparr>dv_cam_tag := t\<rparr>)) dev'"
      "stream_freebufs (dv_video dev') (st_heap s2) =
        Some ((dv_video dev')\<lparr>ps_raw_buf := None, ps_proc_buf := None, ps_lib_buf := None\<rparr>, h)"
      "dev_ok h0 dev' h" "owned ?qs h" "heap_wf h"
      "\<forall>a. map_option length (hp_blocks h a) = map_option length (without (video_ptrs dev) (hp_blocks (st_heap ?s0)) a)"
      "st_ctx s2 = st_ctx ?s0" "submits (st_io s2) = submits (st_io ?s0)" "known d s2"
      by blast
    note sm = event_dev_simps [OF r(4)]
    let ?dev4 = "dev'\<lparr>dv_video := (dv_video dev')\<lparr>ps_raw_buf := None, ps_proc_buf := None, ps_lib_buf := None\<rparr>\<rparr>"
    let ?s4 = "set_dev d ?dev4 (s2\<lparr>st_heap := h\<rparr>)"
    have run: "freenect_stop_video E d s = Some (0, ?s4)"
      using dev True r(1,2,3,5) by (simp add: freenect_stop_video_def)
    have d4: "st_devs ?s4 d = Some ?dev4" and d2: "st_devs s2 d = Some dev'" using r(3) by simp_all
    have idle: "\<not> ps_running (dv_video ?dev4)" and vrun: "ps_running (dv_depth ?dev4) = ps_running (dv_depth dev)" using sm by simp_all
    have "dev_ok h0 ?dev4 h" by (rule dev_ok_idle_video [OF r(6)]) (use idle dev_ok_user(2) [OF r(6)] in simp_all)
    then have ok4: "dev_ok h0 ?dev4 (st_heap ?s4)" by simp
    have "holdings ?dev4 = ?qs"
      using idle vrun event_dev_isoc(1) [OF r(4), of Iso_depth] geom_ptrs [OF sm(6)] by (simp add: holdings_def fixed_part_def)
    from mem_ok_freed [OF mem _ this r(7,8), of "video_ptrs dev"] hold r(9) have mem4: "mem_ok h0 ?dev4 (st_heap ?s4)" by simp
    have kn4: "known d ?s4" by (rule known_dev [OF r(12) _ d2 d4]) simp_all
    have cam4: "cam_ok E ?dev4" using cam sm(3) by (simp add: cam_ok_def)
    have "client_inv E h0 d ?s4"
      by (rule client_invI [OF kn4 _ d4 ok4 mem4 cam4]) (use cx r(10,11) idle vrun subd sm nx in simp_all)
    with run d4 idle vrun show ?thesis by blast
  qed
qed

lemma stop_video_client:
  assumes "faithful E" and "client_inv E h0 d s"
  shows "\<exists>r s'. freenect_stop_video E d s = Some (r, s') \<and> client_inv E h0 d s'"
proof -
  from assms(2) obtain dev where "st_devs s d = Some dev" by (rule client_invE)
  from stop_video_client_idle [OF assms this] show ?thesis by blast
qed


section \<open>Starting\<close>

lemma write_regs_ctx: "write_regs E d regs s = Some s' \<Longrightarrow> st_ctx s' = st_ctx s"
  unfolding write_regs_def
proof (induction regs arbitrary: s)
  case (Cons w regs)
  have "st_ctx x' = st_ctx x" if "write_register E d reg v x = Some (r, x')" for reg v x r x'
    using cmd_stepD [OF write_register_step [OF that]] by metis
  with Cons show ?case by (fastforce split: Option.bind_splits prod.splits)
qed simp

lemma start_iso_ctx: "fnusb_start_iso E d k cb ep xfers pkts len s = Some (r, s') \<Longrightarrow> st_ctx s' = st_ctx s"
proof -
  have step: "st_ctx x' = st_ctx x" if "start_xfer E d k pkts i x = Some x'" for i x x'
    using that by (auto simp: start_xfer_def upd_isoc_def io_int_def Let_def split: Option.bind_splits if_splits)
  have "st_ctx x' = st_ctx x" if "fold_opt (start_xfer E d k pkts) is x = Some x'" for "is" x x'
    using that by (induction "is" arbitrary: x) (auto dest!: step split: Option.bind_splits)
  then show "fnusb_start_iso E d k cb ep xfers pkts len s = Some (r, s') \<Longrightarrow> st_ctx s' = st_ctx s"
    by (fastforce simp: fnusb_start_iso_def upd_isoc_def split: Option.bind_splits prod.splits)
qed

context frame_stream
begin

lemma run_books:
  assumes "run E d s = Some (0, s')" and "\<forall>h. e_alloc E h"
  shows "submits (st_io s') = insert (d, k) (submits (st_io s)) \<and> st_ctx s' = st_ctx s"
proof -
  from assms(1) obtain dev rlen plen strm h psz s1 res s2 where
    1: "st_devs s d = Some dev" "sizes dev = Some (rlen, plen)" "stream_init (get dev) rlen plen (st_heap s) = Some (strm, h)"
    "fnusb_get_max_iso_packet_size E (dv_usb_cam dev) endpoint pktbuf (set_dev d (put strm dev) (s\<lparr>st_heap := h\<rparr>)) = (psz, s1)"
    "fnusb_start_iso E d k cb endpoint NUM_XFERS PKTS_PER_XFER psz s1 = Some (res, s2)"
    and 2: "(if res < 0 then Some (res, s2) else do {
          s \<leftarrow> write_regs E d (on_regs dev) s2;
          dev \<leftarrow> st_devs s d;
          Some (0, set_dev d (put ((get dev)\<lparr>ps_running := True\<rparr>) dev) s)
        }) = Some (0, s')"
    unfolding run_eq by (auto simp: Let_def split: Option.bind_splits prod.splits)
  have s1: "s1 = emit (IO_max_iso_packet_size (ud_dev (dv_usb_cam dev)) endpoint) (set_dev d (put strm dev) (s\<lparr>st_heap := h\<rparr>))"
    using 1(4) by (simp add: fnusb_get_max_iso_packet_size_def Let_def io_int_def)
  have "submits (st_io s1) = submits (st_io s)" "st_ctx s1 = st_ctx s" by (simp_all add: s1 plain_books)
  then have 3: "submits (st_io s2) = insert (d, k) (submits (st_io s))" "st_ctx s2 = st_ctx s"
    using start_iso_books [OF 1(5) _ assms(2)] start_iso_ctx [OF 1(5)] by simp_all
  show ?thesis
  proof (cases "res < 0")
    case True
    then show ?thesis using 2 3 by simp
  next
    case False
    with 2 obtain s3 where w: "write_regs E d (on_regs dev) s2 = Some s3" "st_io s' = st_io s3" "st_ctx s' = st_ctx s3"
      by (auto split: Option.bind_splits)
    then show ?thesis using 3 write_regs_books [OF w(1)] write_regs_ctx [OF w(1)] by (simp add: same_books_def)
  qed
qed

end

lemma grows_at: "grows h ps h' \<Longrightarrow> hp_blocks h a = (if Some a \<in> set ps then None else hp_blocks h' a)"
  unfolding grows_def without_def by (elim conjE) (drule fun_cong [of _ _ a], simp)

lemma grows_extends: "grows h ps h' \<Longrightarrow> extends h h'"
  unfolding extends_def by (simp add: grows_at split: if_splits)

lemma grows_new: "grows h ps h' \<Longrightarrow> Some a \<in> set ps \<Longrightarrow> hp_blocks h a = None"
  by (simp add: grows_at)

lemma owned_grows:
  assumes "grows h ps h'" and "owned qs h"
  shows "owned (ps @ qs) h'"
proof -
  have p: "owned ps h'" using assms(1) by (simp add: grows_def)
  have "Some a \<notin> set qs" if "Some a \<in> set ps" for a
    using grows_new [OF assms(1) that] assms(2) by (auto simp: owned_def)
  then have "set (filter (\<lambda>p. p \<noteq> None) ps) \<inter> set (filter (\<lambda>p. p \<noteq> None) qs) = {}" by auto
  moreover have "hp_blocks h' a \<noteq> None" if "Some a \<in> set qs" for a
    using that assms(2) grows_extends [OF assms(1)] by (fastforce simp: owned_def extends_def)
  ultimately show ?thesis using p assms(2) by (auto simp: owned_def)
qed

lemma mem_ok_grows:
  assumes m: "mem_ok h0 dev h" and g: "grows h ps h'" and hold: "mset (holdings dev') = mset (ps @ holdings dev)"
  shows "mem_ok h0 dev' h'"
proof -
  have "owned (ps @ holdings dev) h'" by (rule owned_grows [OF g]) (use m in \<open>simp add: mem_ok_def\<close>)
  then have "owned (holdings dev') h'" using owned_mset [OF hold [symmetric]] by blast
  moreover have "without (holdings dev') (hp_blocks h') = without (holdings dev) (hp_blocks h)"
    using g without_cong [OF mset_eq_setD [OF hold]] by (simp add: grows_def without_without [symmetric])
  ultimately show ?thesis using m g by (simp add: mem_ok_def grows_def)
qed

lemma client_blocks_extends: "client_blocks h0 h \<Longrightarrow> extends h h' \<Longrightarrow> client_blocks h0 h'"
  unfolding client_blocks_def extends_def by fastforce

lemma frame_ok_extends:
  assumes f: "frame_ok h0 n sz xf strm h" and e: "extends h h'"
  shows "frame_ok h0 n sz xf strm h'"
proof (cases "ps_running strm")
  case False
  then show ?thesis using f by (simp add: frame_ok_def)
next
  case True
  with f obtain rlen plen where sz: "sz = Some (rlen, plen)" "0 \<le> rlen" "plen \<le> int n" "sized h0 rlen plen strm h"
    by (auto simp: frame_ok_def)
  have same: "map_option length (hp_blocks h' a) = map_option length (hp_blocks h a)" if "hp_blocks h a \<noteq> None" for a
    using that e by (auto simp: extends_def)
  have wf: "wf_stream strm h'" using wf_stream_extends [OF e] sz(4) by (simp add: sized_def)
  have sl: "map_option length (hp_blocks h a) = Some m \<Longrightarrow> map_option length (hp_blocks h' a) = Some m" for a m
    using same by force
  have "sized h0 rlen plen strm h'"
    using sz(4) wf unfolding sized_def by (elim conjE, intro conjI) (assumption | metis sl)+
  with f True sz show ?thesis by (auto simp: frame_ok_def)
qed

lemma stream_init_sized:
  assumes ok: "init_ok strm rlen plen h" and init: "stream_init strm rlen plen h = Some (strm', h1)" and e: "extends h1 h'"
    and out: "\<forall>a. hp_blocks h a = None \<longrightarrow> hp_blocks h0 a = None"
  shows "sized h0 rlen plen (strm'\<lparr>ps_running := b\<rparr>) h'"
proof -
  from stream_init_wf_aux [OF ok] init have 1: "wf_stream strm' h1" "ps_frame_size strm' = (if rlen = 0 then plen else rlen)"
    "ps_split_bufs strm' = (rlen \<noteq> 0)" "ps_proc_buf strm' \<noteq> None" by auto
  have hw: "heap_wf h" and pos: "nat plen + nat rlen \<le> hp_avail h" "0 \<le> rlen" "0 < plen" using ok by (simp_all add: init_ok_def)
  note fresh = init_fresh [OF hw]
  have n0: "hp_blocks h0 (hp_next h) = None" "hp_blocks h0 (Suc (hp_next h)) = None" using out fresh by simp_all
  obtain lib h2 where m1: "(if ps_usr_buf strm \<noteq> None then (None, h) else malloc (nat plen) h) = (lib, h2)" by fastforce
  obtain raw h3 where m2: "(if rlen = 0 then (None, h2) else malloc (nat rlen) h2) = (raw, h3)" by fastforce
  have fields: "ps_usr_buf strm' = ps_usr_buf strm" "ps_lib_buf strm' = lib" "h1 = h3"
    "ps_proc_buf strm' = (if ps_usr_buf strm = None then lib else ps_usr_buf strm)"
    "ps_raw_buf strm' = (if rlen = 0 then ps_proc_buf strm' else raw)"
    using init m1 m2 by (cases "ps_usr_buf strm"; cases "rlen = 0"; auto simp: stream_init_def Let_def split: if_splits)+
  have a: "(\<forall>a. lib = Some a \<longrightarrow> (\<exists>n. map_option length (hp_blocks h1 a) = Some n \<and> plen \<le> int n)) \<and>
      (rlen \<noteq> 0 \<longrightarrow> (\<exists>a. raw = Some a \<and> hp_blocks h0 a = None \<and> lib \<noteq> Some a \<and>
        map_option length (hp_blocks h1 a) = Some (nat rlen)))"
    using m1 m2 pos n0 fields(3) by (cases "ps_usr_buf strm"; cases "rlen = 0") (auto simp: malloc_def split: if_splits)
  have sl: "map_option length (hp_blocks h1 a) = Some m \<Longrightarrow> map_option length (hp_blocks h' a) = Some m" for a m
    using e by (auto simp: extends_def)
  have "wf_stream strm' h'" using wf_stream_extends [OF e 1(1)] .
  moreover have "\<forall>a. lib = Some a \<longrightarrow> (\<exists>n. map_option length (hp_blocks h' a) = Some n \<and> plen \<le> int n)" using a sl by blast
  moreover have "rlen \<noteq> 0 \<longrightarrow> (\<exists>a. raw = Some a \<and> hp_blocks h0 a = None \<and> lib \<noteq> Some a \<and>
      map_option length (hp_blocks h' a) = Some (nat rlen))" using a sl by blast
  moreover have "wf_stream (strm'\<lparr>ps_running := b\<rparr>) h' = wf_stream strm' h'" by simp
  ultimately show ?thesis using 1(2-4) fields(1,2,4,5) unfolding sized_def by (simp del: map_option_eq_Some)
qed

lemma start_depth_books:
  assumes "freenect_start_depth E d s = Some (0, s')" and "\<forall>h. e_alloc E h"
  shows "submits (st_io s') = insert (d, Iso_depth) (submits (st_io s)) \<and> st_ctx s' = st_ctx s"
proof -
  from assms(1) obtain dev1 where "depth_run E d (set_dev d dev1 s) = Some (0, s')"
    unfolding freenect_start_depth_def by (auto simp: Let_def split: Option.bind_splits if_splits)
  from depth.run_books [OF this assms(2)] show ?thesis by simp
qed

lemma start_video_books:
  assumes "freenect_start_video E d s = Some (0, s')" and "\<forall>h. e_alloc E h"
  shows "submits (st_io s') = insert (d, Iso_video) (submits (st_io s)) \<and> st_ctx s' = st_ctx s"
proof -
  from assms(1) obtain dev1 x v where r: "video_run E d v x = Some (0, s')"
    and x: "x = set_dev d dev1 s \<or> write_regs E d ir_workaround (set_dev d dev1 s) = Some x"
    unfolding freenect_start_video_def by (auto simp: Let_def split: Option.bind_splits if_splits option.splits)
  from x have "submits (st_io x) = submits (st_io s) \<and> st_ctx x = st_ctx s"
    using write_regs_books write_regs_ctx by (fastforce simp: same_books_def)
  with video.run_books [OF r assms(2)] show ?thesis by simp
qed

text \<open>What a start needs: memory, and a calibration that can be used for the registered format.\<close>

fun start_ready :: "env \<Rightarrow> iso_strm \<Rightarrow> freenect_device \<Rightarrow> heap \<Rightarrow> bool" where
  "start_ready E Iso_depth dev h \<longleftrightarrow> 1036800 \<le> hp_avail h \<and>
     (dv_depth_format dev = FREENECT_DEPTH_REGISTERED \<longrightarrow> registration_ok (dv_registration (freenect_init_registration E dev)))"
| "start_ready E Iso_video dev h \<longleftrightarrow> 5242880 \<le> hp_avail h"
| "start_ready E _ dev h \<longleftrightarrow> True"

lemma start_mem_client:
  assumes "client_blocks h0 h" and "user_ok h0 (nat n) (ps_usr_buf strm)" and "heap_wf h" and "m \<le> hp_avail h" and "0 \<le> n"
  shows "start_mem strm n m h"
proof -
  have "\<exists>blk. mem_block (ps_usr_buf strm) h = Some blk \<and> n \<le> int (length blk)" if u: "ps_usr_buf strm \<noteq> None"
  proof -
    from u obtain a where a: "ps_usr_buf strm = Some a" by blast
    with assms(2) obtain blk where b: "hp_blocks h0 a = Some blk" "nat n \<le> length blk" by (auto simp: user_ok_def)
    with assms(1) have "map_option length (hp_blocks h a) = Some (length blk)" by (simp add: client_blocks_def)
    with a b(2) assms(5) show ?thesis by (auto simp: mem_block_def)
  qed
  with assms(3,4) show ?thesis by (simp add: start_mem_def)
qed

lemma mem_ok_out_heap:
  assumes "mem_ok h0 dev h" and "hp_blocks h a = None"
  shows "hp_blocks h0 a = None"
  using assms unfolding mem_ok_def without_def by metis

lemma start_depth_client:
  assumes al: "\<forall>h. e_alloc E h" and inv: "client_inv E h0 d s" and dev: "st_devs s d = Some dev"
    and rdy: "\<not> ps_running (dv_depth dev) \<longrightarrow> start_ready E Iso_depth dev (st_heap s)"
  shows "\<exists>r s'. freenect_start_depth E d s = Some (r, s') \<and> client_inv E h0 d s'"
proof (cases "ps_running (dv_depth dev)")
  case True
  then have "freenect_start_depth E d s = Some (-1, s)" using dev by (simp add: freenect_start_depth_def)
  then show ?thesis using inv by blast
next
  case False
  from inv dev have kn: "known d s" and cx: "cx_first (st_ctx s) = Some d"
    and ok: "dev_ok h0 dev (st_heap s)" and mem: "mem_ok h0 dev (st_heap s)" and cam: "cam_ok E dev"
    and subv: "ps_running (dv_video dev) \<longrightarrow> (d, Iso_video) \<in> submits (st_io s)"
    and nx: "dv_next dev = None" "audio_idle dev" by (auto elim!: client_invE)
  have mode: "dv_depth_resolution dev = FREENECT_RESOLUTION_MEDIUM" "dv_depth_format dev \<noteq> FREENECT_DEPTH_DUMMY"
    and cb: "client_blocks h0 (st_heap s)" using ok by (simp_all add: dev_ok_def)
  have rdy: "1036800 \<le> hp_avail (st_heap s)" "dv_depth_format dev = FREENECT_DEPTH_REGISTERED \<longrightarrow>
      registration_ok (dv_registration (freenect_init_registration E dev))" using rdy False by simp_all
  have wf: "heap_wf (st_heap s)" using mem by (simp add: mem_ok_def)
  have sm: "start_mem (dv_depth dev) 614400 1036800 (st_heap s)"
    by (rule start_mem_client [OF cb _ wf rdy(1)]) (use dev_ok_user(1) [OF ok] in simp_all)
  have cam': "ud_dev (dv_usb_cam dev) \<noteq> None" "answers E (dv_usb_cam dev)" using cam by (simp_all add: cam_ok_def)
  from freenect_start_depth_runs [OF dev False mode rdy(2) sm depth_sizes_le [OF mode] cam' al] obtain s' strm xf t reg rlen plen strm0 h1 where
    r: "freenect_start_depth E d s = Some (0, s')"
    "st_devs s' = (st_devs s)(d \<mapsto> dev\<lparr>dv_registration := reg, dv_depth_isoc := xf, dv_depth := strm, dv_cam_tag := t\<rparr>)"
    "ps_running strm" "depth_inv (dev\<lparr>dv_registration := reg, dv_depth_isoc := xf, dv_depth := strm, dv_cam_tag := t\<rparr>) (st_heap s')"
    "iso_ready xf" "is_cb xf = Some Cb_depth_process" "grows (st_heap s) (is_buffer xf # stream_ptrs strm) (st_heap s')"
    "depth_sizes dev = Some (rlen, plen)" "stream_init ((dv_depth dev)\<lparr>ps_pkt_size := 1748, ps_flag := 0x70,
       ps_variable_length := False\<rparr>) rlen plen (st_heap s) = Some (strm0, h1)" "strm = strm0\<lparr>ps_running := True\<rparr>"
    "extends h1 (st_heap s')" "init_ok ((dv_depth dev)\<lparr>ps_pkt_size := 1748, ps_flag := 0x70, ps_variable_length := False\<rparr>)
       rlen plen (st_heap s)" "plen \<le> 614400" by blast
  let ?dev' = "dev\<lparr>dv_registration := reg, dv_depth_isoc := xf, dv_depth := strm, dv_cam_tag := t\<rparr>"
  note bk = start_depth_books [OF r(1) al]
  note ex = grows_extends [OF r(7)]
  have usr: "ps_usr_buf strm = ps_usr_buf (dv_depth dev)"
    using r(9,10) by (auto simp: stream_init_def Let_def split: if_splits prod.splits)
  have sz: "sized h0 rlen plen strm (st_heap s')"
    unfolding r(10) by (rule stream_init_sized [OF r(12,9,11)]) (use mem_ok_out_heap [OF mem] in blast)
  have f1: "frame_ok h0 614400 (depth_sizes dev) xf strm (st_heap s')"
    using dev_ok_user(1) [OF ok] r(3,5,8,12,13) sz usr by (simp add: frame_ok_def init_ok_def)
  have f2: "frame_ok h0 3932160 (video_sizes dev) (dv_video_isoc dev) (dv_video dev) (st_heap s')"
    using frame_ok_extends [OF _ ex] ok by (simp add: dev_ok_def)
  have sc: "depth_sizes ?dev' = depth_sizes dev" "video_sizes ?dev' = video_sizes dev" by (rule sizes_cong; simp)+
  have tb: "depth_tables ?dev'" using r(4) by (auto simp: depth_inv_def depth_tables_def)
  have ok': "dev_ok h0 ?dev' (st_heap s')"
    using ok f1 f2 tb client_blocks_extends [OF cb ex] by (simp add: dev_ok_def sc)
  have d': "st_devs s' d = Some ?dev'" using r(2) by simp
  have "mset (holdings ?dev') = mset ((is_buffer xf # stream_ptrs strm) @ holdings dev)"
    using r(3) False by (simp add: holdings_def)
  then have mem': "mem_ok h0 ?dev' (st_heap s')" by (rule mem_ok_grows [OF mem r(7)])
  have kn': "known d s'"
    unfolding known_def
  proof (intro allI impI)
    fix x k assume "(x, k) \<in> submits (st_io s')"
    then have "(x, k) = (d, Iso_depth) \<or> (x, k) \<in> submits (st_io s)" using bk by auto
    then show "x = d \<and> camera_cb k \<noteq> None \<and> (\<exists>dev. st_devs s' d = Some dev \<and> is_cb (dev_isoc k dev) = camera_cb k)"
      using knownD [OF kn _ dev, of x k] d' r(6) by (cases k) auto
  qed
  have cam2: "cam_ok E ?dev'" using cam by (simp add: cam_ok_def)
  have "client_inv E h0 d s'"
    by (rule client_invI [OF kn' _ d' ok' mem' cam2]) (use cx bk subv nx in simp_all)
  with r(1) show ?thesis by blast
qed

text \<open>Changes of the device that concern neither memory nor transfers.\<close>

lemma client_inv_dev:
  assumes inv: "client_inv E h0 d s" and dev: "st_devs s d = Some dev"
    and s': "st_devs s' d = Some dev'" "st_heap s' = st_heap s" "st_ctx s' = st_ctx s" "submits (st_io s') = submits (st_io s)"
    and ok: "dev_ok h0 dev' (st_heap s)" and hold: "holdings dev' = holdings dev"
    and same: "ps_running (dv_depth dev') = ps_running (dv_depth dev)" "ps_running (dv_video dev') = ps_running (dv_video dev)"
      "ud_dev (dv_usb_cam dev') = ud_dev (dv_usb_cam dev)" "dv_next dev' = dv_next dev" "dv_usb_audio dev' = dv_usb_audio dev"
      "dv_audio dev' = dv_audio dev"
    and cb: "\<And>k. is_cb (dev_isoc k dev') = is_cb (dev_isoc k dev)"
  shows "client_inv E h0 d s'"
proof -
  from inv dev have i: "known d s" "cx_first (st_ctx s) = Some d" "mem_ok h0 dev (st_heap s)" "cam_ok E dev"
    "ps_running (dv_depth dev) \<longrightarrow> (d, Iso_depth) \<in> submits (st_io s)"
    "ps_running (dv_video dev) \<longrightarrow> (d, Iso_video) \<in> submits (st_io s)"
    "dv_next dev = None" "audio_idle dev" by (auto elim!: client_invE)
  have m: "mem_ok h0 dev' (st_heap s')" using i(3) by (simp add: mem_ok_def hold s'(2))
  have c: "cam_ok E dev'" using i(4) by (simp add: cam_ok_def same(3))
  have ok': "dev_ok h0 dev' (st_heap s')" using ok s'(2) by simp
  show ?thesis
    by (rule client_invI [OF known_dev [OF i(1) s'(4) dev s'(1) cb] _ s'(1) ok' m c])
      (use i s' same in simp_all)
qed

lemma start_video_client:
  assumes al: "\<forall>h. e_alloc E h" and inv: "client_inv E h0 d s" and dev: "st_devs s d = Some dev"
    and rdy: "\<not> ps_running (dv_video dev) \<longrightarrow> start_ready E Iso_video dev (st_heap s)"
  shows "\<exists>r s'. freenect_start_video E d s = Some (r, s') \<and> client_inv E h0 d s'"
proof (cases "ps_running (dv_video dev)")
  case True
  then have "freenect_start_video E d s = Some (-1, s)" using dev by (simp add: freenect_start_video_def)
  then show ?thesis using inv by blast
next
  case False
  from inv dev have kn: "known d s" and cx: "cx_first (st_ctx s) = Some d"
    and ok: "dev_ok h0 dev (st_heap s)" and mem: "mem_ok h0 dev (st_heap s)" and cam: "cam_ok E dev"
    and subd: "ps_running (dv_depth dev) \<longrightarrow> (d, Iso_depth) \<in> submits (st_io s)"
    and nx: "dv_next dev = None" "audio_idle dev" by (auto elim!: client_invE)
  obtain v where mode: "video_registers (dv_video_format dev) (dv_video_resolution dev) = Some v"
    and cb: "client_blocks h0 (st_heap s)" using ok by (auto simp: dev_ok_def)
  have rdy: "5242880 \<le> hp_avail (st_heap s)" using rdy False by simp
  show ?thesis
  proof (cases "ir_high dev \<and> ps_running (dv_depth dev)")
    case True
    let ?strm = "(dv_video dev)\<lparr>ps_pkt_size := 1908, ps_flag := 0x80, ps_variable_length := False\<rparr>"
    let ?dev1 = "dev\<lparr>dv_video := ?strm\<rparr>"
    have st: "st_devs (set_dev d ?dev1 s) d = Some ?dev1" by simp
    have "freenect_start_video E d s = Some (-1, set_dev d ?dev1 s)"
      using dev False True mode by (simp add: freenect_start_video_def ir_high_def Let_def)
    moreover have "dev_ok h0 ?dev1 (st_heap s)"
      by (rule dev_ok_idle_video [OF ok]) (use False dev_ok_user(2) [OF ok] in simp_all)
    then have "client_inv E h0 d (set_dev d ?dev1 s)"
      by (rule client_inv_dev [OF inv dev st, rotated 3]) (use False in \<open>simp_all add: holdings_def\<close>)
    ultimately show ?thesis by blast
  next
    case ir: False
    then have ir: "ir_high dev \<longrightarrow> \<not> ps_running (dv_depth dev)" by blast
    have wf: "heap_wf (st_heap s)" using mem by (simp add: mem_ok_def)
    have sm: "start_mem (dv_video dev) 3932160 5242880 (st_heap s)"
      by (rule start_mem_client [OF cb _ wf rdy]) (use dev_ok_user(2) [OF ok] in simp_all)
    have cam': "ud_dev (dv_usb_cam dev) \<noteq> None" "answers E (dv_usb_cam dev)" using cam by (simp_all add: cam_ok_def)
    from freenect_start_video_runs [OF dev False mode ir sm cam' al] obtain s' strm xf t rlen plen strm0 h1 where
      r: "freenect_start_video E d s = Some (0, s')"
      "st_devs s' = (st_devs s)(d \<mapsto> dev\<lparr>dv_video_isoc := xf, dv_video := strm, dv_cam_tag := t\<rparr>)"
      "ps_running strm" "iso_ready xf" "is_cb xf = Some Cb_video_process"
      "grows (st_heap s) (is_buffer xf # stream_ptrs strm) (st_heap s')"
      "video_sizes dev = Some (rlen, plen)" "stream_init ((dv_video dev)\<lparr>ps_pkt_size := 1908, ps_flag := 0x80,
         ps_variable_length := False\<rparr>) rlen plen (st_heap s) = Some (strm0, h1)" "strm = strm0\<lparr>ps_running := True\<rparr>"
      "extends h1 (st_heap s')" "init_ok ((dv_video dev)\<lparr>ps_pkt_size := 1908, ps_flag := 0x80, ps_variable_length := False\<rparr>)
         rlen plen (st_heap s)" "plen \<le> 3932160" by blast
    let ?dev' = "dev\<lparr>dv_video_isoc := xf, dv_video := strm, dv_cam_tag := t\<rparr>"
    note bk = start_video_books [OF r(1) al]
    note ex = grows_extends [OF r(6)]
    have usr: "ps_usr_buf strm = ps_usr_buf (dv_video dev)"
      using r(8,9) by (auto simp: stream_init_def Let_def split: if_splits prod.splits)
    have sz: "sized h0 rlen plen strm (st_heap s')"
      unfolding r(9) by (rule stream_init_sized [OF r(11,8,10)]) (use mem_ok_out_heap [OF mem] in blast)
    have f1: "frame_ok h0 3932160 (video_sizes dev) xf strm (st_heap s')"
      using dev_ok_user(2) [OF ok] r(3,4,7,11,12) sz usr by (simp add: frame_ok_def init_ok_def)
    have f2: "frame_ok h0 614400 (depth_sizes dev) (dv_depth_isoc dev) (dv_depth dev) (st_heap s')"
      using frame_ok_extends [OF _ ex] ok by (simp add: dev_ok_def)
    have sc: "depth_sizes ?dev' = depth_sizes dev" "video_sizes ?dev' = video_sizes dev" by (rule sizes_cong; simp)+
    have ok': "dev_ok h0 ?dev' (st_heap s')"
      using ok f1 f2 client_blocks_extends [OF cb ex] by (simp add: dev_ok_def sc depth_tables_def)
    have d': "st_devs s' d = Some ?dev'" using r(2) by simp
    have "mset (holdings ?dev') = mset ((is_buffer xf # stream_ptrs strm) @ holdings dev)"
      using r(3) False by (simp add: holdings_def)
    then have mem': "mem_ok h0 ?dev' (st_heap s')" by (rule mem_ok_grows [OF mem r(6)])
    have kn': "known d s'"
      unfolding known_def
    proof (intro allI impI)
      fix x k assume "(x, k) \<in> submits (st_io s')"
      then have "(x, k) = (d, Iso_video) \<or> (x, k) \<in> submits (st_io s)" using bk by auto
      then show "x = d \<and> camera_cb k \<noteq> None \<and> (\<exists>dev. st_devs s' d = Some dev \<and> is_cb (dev_isoc k dev) = camera_cb k)"
        using knownD [OF kn _ dev, of x k] d' r(5) by (cases k) auto
    qed
    have cam2: "cam_ok E ?dev'" using cam by (simp add: cam_ok_def)
    have "client_inv E h0 d s'"
      by (rule client_invI [OF kn' _ d' ok' mem' cam2]) (use cx bk subd nx in simp_all)
    with r(1) show ?thesis by blast
  qed
qed

section \<open>The other calls\<close>

lemma client_inv_cmd:
  assumes inv: "client_inv E h0 d s" and step: "cmd_step d s s'" and books: "same_books (st_io s) (st_io s')"
  shows "client_inv E h0 d s'"
proof -
  from step obtain evs dev t where c: "st_devs s d = Some dev" "st_devs s' d = Some (dev\<lparr>dv_cam_tag := t\<rparr>)"
    "st_heap s' = st_heap s" "st_ctx s' = st_ctx s" by (rule cmd_stepD) blast
  have "dev_ok h0 dev (st_heap s)" using inv c(1) by (auto elim!: client_invE)
  then have "dev_ok h0 (dev\<lparr>dv_cam_tag := t\<rparr>) (st_heap s)" by simp
  then show ?thesis
    by (rule client_inv_dev [OF inv c(1,2,3,4), rotated]) (use books in \<open>simp_all add: holdings_def same_books_def\<close>)
qed

lemma client_inv_emit: "plain ev \<Longrightarrow> client_inv E h0 d (emit ev s) = client_inv E h0 d s"
  by (simp add: client_inv_def known_def plain_books)

lemma client_cam:
  assumes "client_inv E h0 d s"
  obtains dev where "st_devs s d = Some dev" and "ud_dev (dv_usb_cam dev) \<noteq> None" and "answers E (dv_usb_cam dev)"
  using assms by (auto elim!: client_invE simp: cam_ok_def)

lemma send_cmd_client:
  assumes inv: "client_inv E h0 d s"
  shows "\<exists>r s'. send_cmd E d cmd buf n s = Some (r, s') \<and> client_inv E h0 d s'"
proof -
  from inv obtain dev where "st_devs s d = Some dev" "ud_dev (dv_usb_cam dev) \<noteq> None" "answers E (dv_usb_cam dev)"
    by (rule client_cam)
  from send_cmd_returns [OF this] obtain r s' where "send_cmd E d cmd buf n s = Some (r, s')" by blast
  with client_inv_cmd [OF inv send_cmd_step send_cmd_books] show ?thesis by blast
qed

lemma write_register_client: "client_inv E h0 d s \<Longrightarrow> \<exists>r s'. write_register E d reg v s = Some (r, s') \<and> client_inv E h0 d s'"
  using send_cmd_client [of E h0 d s "0x03" "le16 reg @ le16 v" 4] by (fastforce simp: write_register_def)

lemma read_cmos_client: "client_inv E h0 d s \<Longrightarrow> \<exists>v s'. read_cmos_register E d reg s = Some (v, s') \<and> client_inv E h0 d s'"
  using send_cmd_client [of E h0 d s "0x95" "le16 1 @ le16 (reg AND 0x7fff) @ le16 0" 6]
  by (fastforce simp: read_cmos_register_def)

lemma write_cmos_client: "client_inv E h0 d s \<Longrightarrow> \<exists>r s'. write_cmos_register E d reg v s = Some (r, s') \<and> client_inv E h0 d s'"
  using send_cmd_client [of E h0 d s "0x95" "le16 1 @ le16 (reg OR 0x8000) @ le16 v" 6]
  by (fastforce simp: write_cmos_register_def)

lemma set_near_client:
  assumes inv: "client_inv E h0 d s"
  shows "\<exists>r s'. set_near_mode E d g t s = Some (r, s') \<and> client_inv E h0 d s'"
proof -
  from write_register_client [OF inv] obtain r s1 where
    w: "write_register E d 0x0015 g s = Some (r, s1)" "client_inv E h0 d s1" by blast
  have "client_inv E h0 d (emit (IO_usleep 100000) s1)" using w(2) by (simp add: client_inv_emit)
  from write_register_client [OF this] obtain r' s2 where
    "write_register E d 0x02EF t (emit (IO_usleep 100000) s1) = Some (r', s2)" "client_inv E h0 d s2" by blast
  with w show ?thesis by (cases "r < 0") (auto simp: set_near_mode_def)
qed

lemma set_flag_client:
  assumes inv: "client_inv E h0 d s"
  shows "\<exists>r s'. freenect_set_flag E d flag v s = Some (r, s') \<and> client_inv E h0 d s'"
proof -
  from inv obtain dev where dev: "st_devs s d = Some dev" by (rule client_cam)
  consider (near) "flag = FREENECT_NEAR_MODE" | (reg) "flag \<noteq> FREENECT_NEAR_MODE" "push_bit 16 1 \<le> flag"
    | (cmos) "flag \<noteq> FREENECT_NEAR_MODE" "\<not> push_bit 16 1 \<le> flag" by blast
  then show ?thesis
  proof cases
    case near
    then show ?thesis using dev inv set_near_client [OF inv] by (auto simp: freenect_set_flag_def)
  next
    case reg
    then show ?thesis using dev inv write_register_client [OF inv] by (auto simp: freenect_set_flag_def Let_def)
  next
    case cmos
    from read_cmos_client [OF inv] obtain c s1 where
      r: "read_cmos_register E d 0x0106 s = Some (c, s1)" "client_inv E h0 d s1" by blast
    then show ?thesis
      using dev cmos write_cmos_client [OF r(2)] by (cases "c = 0xFFFF") (auto simp: freenect_set_flag_def)
  qed
qed

text \<open>Modes are set while the stream is idle, and only to a line of the table.\<close>

lemma depth_mode_check:
  "set_depth_mode_check m = Some (r, f) \<Longrightarrow> r = FREENECT_RESOLUTION_MEDIUM \<and> f \<noteq> FREENECT_DEPTH_DUMMY"
  unfolding set_depth_mode_check_def supported_depth_modes_def mode_row_def MAKE_RESERVED_def
    RESERVED_TO_RESOLUTION_def RESERVED_TO_FORMAT_def resolution_of_def depth_format_of_def
  by (auto split: if_splits dest!: sym [of _ "fm_reserved m"])

lemma video_mode_check: "set_video_mode_check m = Some (r, f) \<Longrightarrow> video_registers f r \<noteq> None"
  unfolding set_video_mode_check_def supported_video_modes_def mode_row_def MAKE_RESERVED_def
    RESERVED_TO_RESOLUTION_def RESERVED_TO_FORMAT_def resolution_of_def video_format_of_def
  by (auto split: if_splits dest!: sym [of _ "fm_reserved m"] simp: video_registers_def Let_def)

lemma dev_ok_depth_mode:
  assumes "dev_ok h0 dev h" and "\<not> ps_running (dv_depth dev)" and "f \<noteq> FREENECT_DEPTH_DUMMY"
  shows "dev_ok h0 (dev\<lparr>dv_depth_format := f, dv_depth_resolution := FREENECT_RESOLUTION_MEDIUM\<rparr>) h"
proof -
  let ?dev = "dev\<lparr>dv_depth_format := f, dv_depth_resolution := FREENECT_RESOLUTION_MEDIUM\<rparr>"
  have "video_sizes ?dev = video_sizes dev" by (rule sizes_cong(2)) simp_all
  with assms show ?thesis by (simp add: dev_ok_def frame_ok_def)
qed

lemma dev_ok_video_mode:
  assumes "dev_ok h0 dev h" and "\<not> ps_running (dv_video dev)" and "video_registers f r \<noteq> None"
  shows "dev_ok h0 (dev\<lparr>dv_video_format := f, dv_video_resolution := r\<rparr>) h"
proof -
  let ?dev = "dev\<lparr>dv_video_format := f, dv_video_resolution := r\<rparr>"
  have "depth_sizes ?dev = depth_sizes dev" by (rule sizes_cong(1)) simp_all
  with assms show ?thesis by (simp add: dev_ok_def frame_ok_def depth_tables_def)
qed

lemma set_depth_mode_client:
  assumes inv: "client_inv E h0 d s"
  shows "\<exists>r s'. freenect_set_depth_mode d m s = Some (r, s') \<and> client_inv E h0 d s'"
proof -
  from inv obtain dev where dev: "st_devs s d = Some dev" and ok: "dev_ok h0 dev (st_heap s)" by (rule client_invE)
  show ?thesis
  proof (cases "ps_running (dv_depth dev) \<or> set_depth_mode_check m = None")
    case True
    then show ?thesis using dev inv by (auto simp: freenect_set_depth_mode_def)
  next
    case False
    then obtain r f where c: "set_depth_mode_check m = Some (r, f)" and idle: "\<not> ps_running (dv_depth dev)" by auto
    from depth_mode_check [OF c] have f: "r = FREENECT_RESOLUTION_MEDIUM" "f \<noteq> FREENECT_DEPTH_DUMMY" by simp_all
    let ?dev' = "dev\<lparr>dv_depth_format := f, dv_depth_resolution := FREENECT_RESOLUTION_MEDIUM\<rparr>"
    have "client_inv E h0 d (set_dev d ?dev' s)"
      by (rule client_inv_dev [OF inv dev _ _ _ _ dev_ok_depth_mode [OF ok idle f(2)]]) (simp_all add: holdings_def)
    then show ?thesis using dev idle c f(1) by (simp add: freenect_set_depth_mode_def)
  qed
qed

lemma dev_ok_reg_info:
  assumes "dev_ok h0 dev h"
  shows "dev_ok h0 (dev\<lparr>dv_registration := (dv_registration dev)\<lparr>rg_reg_info := ri\<rparr>\<rparr>) h"
proof -
  let ?dev = "dev\<lparr>dv_registration := (dv_registration dev)\<lparr>rg_reg_info := ri\<rparr>\<rparr>"
  have "depth_sizes ?dev = depth_sizes dev" "video_sizes ?dev = video_sizes dev" by (rule sizes_cong; simp)+
  with assms show ?thesis by (simp add: dev_ok_def depth_tables_def registration_ok_def tables_ok_def)
qed

lemma fetch_reg_info_client:
  assumes inv: "client_inv E h0 d s"
  shows "\<exists>r s'. freenect_fetch_reg_info E d s = Some (r, s') \<and> client_inv E h0 d s'"
proof -
  from inv obtain dev where dev: "st_devs s d = Some dev" by (rule client_cam)
  from send_cmd_client [OF inv] obtain r s1 where
    c: "send_cmd E d 0x16 (algorithm_params 0x40 dev (st_heap s)) 118 s = Some (r, s1)" "client_inv E h0 d s1" by blast
  obtain res reply where r: "r = (res, reply)" by (cases r)
  from c(2) obtain dev1 where dev1: "st_devs s1 d = Some dev1" and ok1: "dev_ok h0 dev1 (st_heap s1)" by (rule client_invE)
  let ?dev' = "dev1\<lparr>dv_registration := (dv_registration dev1)\<lparr>rg_reg_info := read_reg_info reply 2\<rparr>\<rparr>"
  have "client_inv E h0 d (set_dev d ?dev' s1)"
    by (rule client_inv_dev [OF c(2) dev1 _ _ _ _ dev_ok_reg_info [OF ok1]]) (simp_all add: holdings_def)
  then show ?thesis
    using dev dev1 c r by (cases "res = 118") (simp_all add: freenect_fetch_reg_info_def upd_registration_def)
qed

lemma set_video_mode_client:
  assumes inv: "client_inv E h0 d s"
  shows "\<exists>r s'. freenect_set_video_mode E d m s = Some (r, s') \<and> client_inv E h0 d s'"
proof -
  from inv obtain dev where dev: "st_devs s d = Some dev" and ok: "dev_ok h0 dev (st_heap s)" by (rule client_invE)
  show ?thesis
  proof (cases "ps_running (dv_video dev) \<or> set_video_mode_check m = None")
    case True
    then show ?thesis using dev inv by (auto simp: freenect_set_video_mode_def)
  next
    case False
    then obtain r f where c: "set_video_mode_check m = Some (r, f)" and idle: "\<not> ps_running (dv_video dev)" by auto
    let ?s = "set_dev d (dev\<lparr>dv_video_format := f, dv_video_resolution := r\<rparr>) s"
    have "client_inv E h0 d ?s"
      by (rule client_inv_dev [OF inv dev _ _ _ _ dev_ok_video_mode [OF ok idle video_mode_check [OF c]]])
        (simp_all add: holdings_def)
    from fetch_reg_info_client [OF this] obtain q s' where
      "freenect_fetch_reg_info E d ?s = Some (q, s')" "client_inv E h0 d s'" by blast
    then show ?thesis using dev idle c by (simp add: freenect_set_video_mode_def Let_def)
  qed
qed

text \<open>
  A buffer can be set at any time; while the stream runs it takes the place of the processed buffer
  (and of the raw one, when the stream is not split).
\<close>

lemma setbuf_same:
  assumes "stream_setbuf strm p = (r, strm')"
  shows "ps_running strm' = ps_running strm" and "ps_split_bufs strm' = ps_split_bufs strm"
    and "ps_lib_buf strm' = ps_lib_buf strm" and "ps_frame_size strm' = ps_frame_size strm"
    and "wf_geom strm' = wf_geom strm" and "ps_synced strm' = ps_synced strm" and "ps_pkt_num strm' = ps_pkt_num strm"
    and "ps_split_bufs strm \<Longrightarrow> ps_raw_buf strm' = ps_raw_buf strm"
  using assms by (auto simp: stream_setbuf_def Let_def wf_geom_def split: if_splits)

lemma setbuf_sized:
  assumes sb: "stream_setbuf strm p = (r, strm')" and run: "ps_running strm" and u: "user_ok h0 n p" and cb: "client_blocks h0 h"
    and sz: "sized h0 rlen plen strm h" and n: "0 \<le> rlen" "plen \<le> int n"
  shows "sized h0 rlen plen strm' h"
proof (cases "p = None \<and> ps_lib_buf strm = None")
  case True
  then show ?thesis using sb run sz by (simp add: stream_setbuf_def)
next
  case False
  have split: "ps_split_bufs strm = (rlen \<noteq> 0)" using sz unfolding sized_def by blast
  have f: "ps_usr_buf strm' = p" "ps_proc_buf strm' = (if p = None then ps_lib_buf strm else p)"
    "rlen = 0 \<longrightarrow> ps_raw_buf strm' = ps_proc_buf strm'"
    using sb run False split by (auto simp: stream_setbuf_def Let_def split: if_splits)
  note same = setbuf_same [OF sb]
  have len: "\<exists>blk. mem_block (ps_proc_buf strm') h = Some blk \<and> plen \<le> int (length blk)"
  proof (cases p)
    case None
    then obtain a where a: "ps_lib_buf strm = Some a" using False by auto
    then obtain m where "map_option length (hp_blocks h a) = Some m" "plen \<le> int m" using sz unfolding sized_def by blast
    then show ?thesis using a None f(2) by (auto simp: mem_block_def)
  next
    case (Some a)
    then obtain blk where b: "hp_blocks h0 a = Some blk" "n \<le> length blk" using u by (auto simp: user_ok_def)
    then have "map_option length (hp_blocks h a) = Some (length blk)" using cb by (simp add: client_blocks_def)
    then show ?thesis using Some f(2) b(2) n(2) by (auto simp: mem_block_def)
  qed
  have wf: "wf_stream strm h" and fs: "ps_frame_size strm = (if rlen = 0 then plen else rlen)" using sz unfolding sized_def by blast+
  have "wf_buf strm' h"
  proof (cases "rlen = 0")
    case True
    then show ?thesis using len f(3) fs same(4) by (auto simp: wf_buf_def)
  next
    case False
    then have "ps_raw_buf strm' = ps_raw_buf strm" using same(8) split by simp
    then show ?thesis using wf same(4) by (simp add: wf_stream_def wf_buf_def)
  qed
  then have "wf_stream strm' h" using wf by (simp add: wf_stream_def same)
  moreover have "ps_proc_buf strm' \<noteq> None" using len by (auto simp: mem_block_def split: option.splits)
  moreover have "rlen \<noteq> 0 \<longrightarrow> (\<exists>a. ps_raw_buf strm' = Some a \<and> hp_blocks h0 a = None \<and> ps_lib_buf strm \<noteq> Some a \<and>
      map_option length (hp_blocks h a) = Some (nat rlen))"
  proof
    assume "rlen \<noteq> 0"
    then have "ps_raw_buf strm' = ps_raw_buf strm" using same(8) split by simp
    with sz \<open>rlen \<noteq> 0\<close> show "\<exists>a. ps_raw_buf strm' = Some a \<and> hp_blocks h0 a = None \<and> ps_lib_buf strm \<noteq> Some a \<and>
      map_option length (hp_blocks h a) = Some (nat rlen)" unfolding sized_def by simp
  qed
  moreover have "\<forall>a. ps_lib_buf strm = Some a \<longrightarrow> (\<exists>n. map_option length (hp_blocks h a) = Some n \<and> plen \<le> int n)"
    using sz unfolding sized_def by blast
  ultimately show ?thesis unfolding sized_def same(2-4) using f fs split by simp
qed

lemma setbuf_frame:
  assumes "stream_setbuf strm p = (r, strm')" and "user_ok h0 n p" and "client_blocks h0 h" and "frame_ok h0 n sizes xf strm h"
  shows "frame_ok h0 n sizes xf strm' h"
proof -
  have "user_ok h0 n (ps_usr_buf strm')"
    using assms(1,2,4) by (auto simp: stream_setbuf_def Let_def frame_ok_def split: if_splits)
  moreover have "\<exists>rlen plen. sizes = Some (rlen, plen) \<and> 0 \<le> rlen \<and> plen \<le> int n \<and> sized h0 rlen plen strm' h"
    if "ps_running strm"
    using assms(4) that setbuf_sized [OF assms(1) that assms(2,3)] unfolding frame_ok_def by blast
  ultimately show ?thesis using assms(4) setbuf_same(1) [OF assms(1)] by (simp add: frame_ok_def)
qed

lemma setbuf_ptrs: "stream_setbuf strm p = (r, strm') \<Longrightarrow> stream_ptrs strm' = stream_ptrs strm"
  using setbuf_same [of strm p r strm'] by (simp add: stream_ptrs_def)

lemma set_depth_buffer_client:
  assumes inv: "client_inv E h0 d s" and p: "user_ok h0 614400 p"
  shows "\<exists>r s'. freenect_set_depth_buffer d p s = Some (r, s') \<and> client_inv E h0 d s'"
proof -
  from inv obtain dev where dev: "st_devs s d = Some dev" and ok: "dev_ok h0 dev (st_heap s)" by (rule client_invE)
  obtain r strm where sb: "stream_setbuf (dv_depth dev) p = (r, strm)" by fastforce
  let ?dev' = "dev\<lparr>dv_depth := strm\<rparr>"
  have sc: "depth_sizes ?dev' = depth_sizes dev" "video_sizes ?dev' = video_sizes dev" by (rule sizes_cong; simp)+
  have "dev_ok h0 ?dev' (st_heap s)"
    using ok setbuf_frame [OF sb p] setbuf_same(1) [OF sb] by (simp add: dev_ok_def sc depth_tables_def)
  then have "client_inv E h0 d (set_dev d ?dev' s)"
    by (rule client_inv_dev [OF inv dev, rotated 4])
      (use setbuf_ptrs [OF sb] setbuf_same(1) [OF sb] in \<open>simp_all add: holdings_def\<close>)
  then show ?thesis using dev sb by (simp add: freenect_set_depth_buffer_def)
qed

lemma set_video_buffer_client:
  assumes inv: "client_inv E h0 d s" and p: "user_ok h0 3932160 p"
  shows "\<exists>r s'. freenect_set_video_buffer d p s = Some (r, s') \<and> client_inv E h0 d s'"
proof -
  from inv obtain dev where dev: "st_devs s d = Some dev" and ok: "dev_ok h0 dev (st_heap s)" by (rule client_invE)
  obtain r strm where sb: "stream_setbuf (dv_video dev) p = (r, strm)" by fastforce
  let ?dev' = "dev\<lparr>dv_video := strm\<rparr>"
  have sc: "depth_sizes ?dev' = depth_sizes dev" "video_sizes ?dev' = video_sizes dev" by (rule sizes_cong; simp)+
  have "dev_ok h0 ?dev' (st_heap s)"
    using ok setbuf_frame [OF sb p] setbuf_same(1) [OF sb] by (simp add: dev_ok_def sc depth_tables_def)
  then have "client_inv E h0 d (set_dev d ?dev' s)"
    by (rule client_inv_dev [OF inv dev, rotated 4])
      (use setbuf_ptrs [OF sb] setbuf_same(1) [OF sb] in \<open>simp_all add: holdings_def\<close>)
  then show ?thesis using dev sb by (simp add: freenect_set_video_buffer_def)
qed

lemma set_callback_client:
  assumes inv: "client_inv E h0 d s"
  shows "\<exists>s'. freenect_set_depth_callback d cb s = Some s' \<and> client_inv E h0 d s'"
    and "\<exists>s'. freenect_set_video_callback d cb s = Some s' \<and> client_inv E h0 d s'"
    and "\<exists>s'. freenect_set_depth_chunk_callback d cb s = Some s' \<and> client_inv E h0 d s'"
    and "\<exists>s'. freenect_set_video_chunk_callback d cb s = Some s' \<and> client_inv E h0 d s'"
proof -
  from inv obtain dev where dev: "st_devs s d = Some dev" and ok: "dev_ok h0 dev (st_heap s)" by (rule client_invE)
  have keep: "client_inv E h0 d (set_dev d dev' s)"
    if "dev' = dev\<lparr>dv_depth_cb := a, dv_video_cb := b, dv_depth_chunk_cb := p, dv_video_chunk_cb := q\<rparr>" for dev' a b p q
  proof -
    have sc: "depth_sizes dev' = depth_sizes dev" "video_sizes dev' = video_sizes dev" by (rule sizes_cong; simp add: that)+
    have "dev_ok h0 dev' (st_heap s)" using ok by (simp add: dev_ok_def sc depth_tables_def) (simp add: that)
    then show ?thesis
      by (rule client_inv_dev [OF inv dev, rotated 4]) (simp_all add: that holdings_def)
  qed
  show "\<exists>s'. freenect_set_depth_callback d cb s = Some s' \<and> client_inv E h0 d s'"
    using dev keep [where a = cb and b = "dv_video_cb dev" and p = "dv_depth_chunk_cb dev" and q = "dv_video_chunk_cb dev"]
    by (simp add: freenect_set_depth_callback_def)
  show "\<exists>s'. freenect_set_video_callback d cb s = Some s' \<and> client_inv E h0 d s'"
    using dev keep [where a = "dv_depth_cb dev" and b = cb and p = "dv_depth_chunk_cb dev" and q = "dv_video_chunk_cb dev"]
    by (simp add: freenect_set_video_callback_def)
  show "\<exists>s'. freenect_set_depth_chunk_callback d cb s = Some s' \<and> client_inv E h0 d s'"
    using dev keep [where a = "dv_depth_cb dev" and b = "dv_video_cb dev" and p = cb and q = "dv_video_chunk_cb dev"]
    by (simp add: freenect_set_depth_chunk_callback_def)
  show "\<exists>s'. freenect_set_video_chunk_callback d cb s = Some s' \<and> client_inv E h0 d s'"
    using dev keep [where a = "dv_depth_cb dev" and b = "dv_video_cb dev" and p = "dv_depth_chunk_cb dev" and q = cb]
    by (simp add: freenect_set_video_chunk_callback_def)
qed

section \<open>One call of the event loop\<close>

lemma event_client:
  assumes inv: "client_inv E h0 d s" and ev: "event_step h0 d s s'"
  shows "client_inv E h0 d s'"
proof -
  from inv obtain dev where kn: "known d s" and cx: "cx_first (st_ctx s) = Some d" and dev: "st_devs s d = Some dev"
    and mem: "mem_ok h0 dev (st_heap s)" and cam: "cam_ok E dev"
    and subd: "ps_running (dv_depth dev) \<longrightarrow> (d, Iso_depth) \<in> submits (st_io s)"
    and subv: "ps_running (dv_video dev) \<longrightarrow> (d, Iso_video) \<in> submits (st_io s)"
    and nx: "dv_next dev = None" "audio_idle dev" by (rule client_invE)
  from ev dev obtain dev' where d': "st_devs s' d = Some dev'" "event_dev dev dev'" "dev_ok h0 dev' (st_heap s')"
    by (rule event_stepD) blast
  have e: "same_lengths (st_heap s) (st_heap s')" "st_ctx s' = st_ctx s" "submits (st_io s') = submits (st_io s)"
    using ev by (simp_all add: event_step_def same_books_def)
  note same = event_dev_simps [OF d'(2)]
  have hold: "holdings dev' = holdings dev" by (rule event_holdings [OF d'(2)])
  have "without (holdings dev) (hp_blocks (st_heap s')) a = None \<longleftrightarrow> without (holdings dev) (hp_blocks (st_heap s)) a = None" for a
    using same_lengths_None [OF e(1), of a] by (simp add: without_def)
  then have "mem_ok h0 dev' (st_heap s')"
    using mem owned_same [OF _ e(1)] heap_wf_same [OF _ e(1)] unfolding mem_ok_def hold by blast
  moreover have "cam_ok E dev'" using cam same(3) by (simp add: cam_ok_def)
  ultimately show ?thesis
    by (intro client_invI [OF known_event [OF kn ev] _ d'(1,3)]) (use cx subd subv nx same e(2,3) in simp_all)
qed

lemma process_events_client:
  assumes E: "faithful E" and inv: "client_inv E h0 d s"
  shows "\<exists>r s'. freenect_process_events E s = Some (r, s') \<and> client_inv E h0 d s'"
proof -
  from inv obtain dev where kn: "known d s" and dev: "st_devs s d = Some dev" and ok: "dev_ok h0 dev (st_heap s)"
    by (rule client_invE)
  from handle_events_event [OF E dev ok kn] obtain r s1 where
    h: "libusb_handle_events E s = Some (r, s1)" "event_step h0 d s s1" by blast
  have inv1: "client_inv E h0 d s1" by (rule event_client [OF inv h(2)])
  then obtain dev1 where d1: "cx_first (st_ctx s1) = Some d" "st_devs s1 d = Some dev1" "audio_idle dev1"
    by (rule client_invE)
  have "\<exists>r' s'. stop_dead E d r s1 = Some (r', s') \<and> client_inv E h0 d s'"
  proof (cases "ud_device_dead (dv_usb_cam dev1)")
    case False
    then show ?thesis using d1 inv1 by (simp add: stop_dead_def)
  next
    case True
    from stop_video_client [OF E inv1] obtain r2 s2 where
      2: "freenect_stop_video E d s1 = Some (r2, s2)" "client_inv E h0 d s2" by blast
    from stop_depth_client [OF E 2(2)] obtain r3 s3 where
      3: "freenect_stop_depth E d s2 = Some (r3, s3)" "client_inv E h0 d s3" by blast
    from 3(2) obtain dev3 where "st_devs s3 d = Some dev3" "audio_idle dev3" by (rule client_invE)
    then show ?thesis using True d1 2(1) 3 by (simp add: stop_dead_def)
  qed
  then obtain r' s' where sd: "stop_dead E d r s1 = Some (r', s')" "client_inv E h0 d s'" by blast
  from sd(2) obtain dev' where "st_devs s' d = Some dev'" "dv_next dev' = None" by (rule client_invE)
  then have "check_devices E (Some d) r s1 = Some (r', s')"
    using sd(1) by (subst check_devices.simps) (simp add: check_devices.simps)
  then show ?thesis
    using h(1) d1(1) sd(2)
    by (simp add: freenect_process_events_def freenect_process_events_timeout_def fnusb_process_events_timeout_def)
qed

section \<open>Sequences of calls\<close>

text \<open>The calls of the interface of a camera, as values, and what each of them runs.\<close>

datatype client_call =
    Start_depth | Start_video | Stop_depth | Stop_video
  | Set_depth_mode freenect_frame_mode | Set_video_mode freenect_frame_mode
  | Set_depth_buffer ptr | Set_video_buffer ptr
  | Set_depth_callback "nat option" | Set_video_callback "nat option"
  | Set_depth_chunk_callback "nat option" | Set_video_chunk_callback "nat option"
  | Set_flag u32 freenect_flag_value | Process_events

fun call :: "env \<Rightarrow> nat \<Rightarrow> client_call \<Rightarrow> st \<Rightarrow> st option" where
  "call E d Start_depth s = map_option snd (freenect_start_depth E d s)"
| "call E d Start_video s = map_option snd (freenect_start_video E d s)"
| "call E d Stop_depth s = map_option snd (freenect_stop_depth E d s)"
| "call E d Stop_video s = map_option snd (freenect_stop_video E d s)"
| "call E d (Set_depth_mode m) s = map_option snd (freenect_set_depth_mode d m s)"
| "call E d (Set_video_mode m) s = map_option snd (freenect_set_video_mode E d m s)"
| "call E d (Set_depth_buffer p) s = map_option snd (freenect_set_depth_buffer d p s)"
| "call E d (Set_video_buffer p) s = map_option snd (freenect_set_video_buffer d p s)"
| "call E d (Set_depth_callback cb) s = freenect_set_depth_callback d cb s"
| "call E d (Set_video_callback cb) s = freenect_set_video_callback d cb s"
| "call E d (Set_depth_chunk_callback cb) s = freenect_set_depth_chunk_callback d cb s"
| "call E d (Set_video_chunk_callback cb) s = freenect_set_video_chunk_callback d cb s"
| "call E d (Set_flag f v) s = map_option snd (freenect_set_flag E d f v s)"
| "call E d Process_events s = map_option snd (freenect_process_events E s)"

text \<open>
  What the client promises of its buffers: none, or a block it had from the beginning that is large
  enough for every mode.
\<close>

fun allowed :: "heap \<Rightarrow> client_call \<Rightarrow> bool" where
  "allowed h0 (Set_depth_buffer p) \<longleftrightarrow> user_ok h0 614400 p"
| "allowed h0 (Set_video_buffer p) \<longleftrightarrow> user_ok h0 3932160 p"
| "allowed h0 _ \<longleftrightarrow> True"

text \<open>The resources of a start of an idle stream.\<close>

definition can_start :: "env \<Rightarrow> nat \<Rightarrow> client_call \<Rightarrow> st \<Rightarrow> bool" where
  "can_start E d c s =
     (case st_devs s d of
        None \<Rightarrow> True
      | Some dev \<Rightarrow> (c = Start_depth \<and> \<not> ps_running (dv_depth dev) \<longrightarrow> start_ready E Iso_depth dev (st_heap s)) \<and>
                    (c = Start_video \<and> \<not> ps_running (dv_video dev) \<longrightarrow> start_ready E Iso_video dev (st_heap s)))"

lemma map_snd_client: "\<exists>r s'. x = Some (r, s') \<and> P s' \<Longrightarrow> \<exists>s'. (\<exists>r. x = Some (r, s')) \<and> P s'"
  by auto

lemma call_client:
  assumes E: "faithful E" "\<forall>h. e_alloc E h" and inv: "client_inv E h0 d s" and al: "allowed h0 c" and can: "can_start E d c s"
  shows "\<exists>s'. call E d c s = Some s' \<and> client_inv E h0 d s'"
proof -
  from inv obtain dev where dev: "st_devs s d = Some dev" by (rule client_cam)
  note steps = map_snd_client [OF stop_depth_client [OF E(1) inv]] map_snd_client [OF stop_video_client [OF E(1) inv]]
    map_snd_client [OF set_depth_mode_client [OF inv]] map_snd_client [OF set_video_mode_client [OF inv]]
    map_snd_client [OF set_flag_client [OF inv]] map_snd_client [OF process_events_client [OF E(1) inv]]
    set_callback_client [OF inv]
  show ?thesis
  proof (cases c)
    case Start_depth
    then show ?thesis using map_snd_client [OF start_depth_client [OF E(2) inv dev]] can dev by (simp add: can_start_def)
  next
    case Start_video
    then show ?thesis using map_snd_client [OF start_video_client [OF E(2) inv dev]] can dev by (simp add: can_start_def)
  next
    case (Set_depth_buffer p)
    then show ?thesis using map_snd_client [OF set_depth_buffer_client [OF inv]] al by simp
  next
    case (Set_video_buffer p)
    then show ?thesis using map_snd_client [OF set_video_buffer_client [OF inv]] al by simp
  qed (simp_all add: steps)
qed

lemma calls_client:
  assumes E: "faithful E" "\<forall>h. e_alloc E h" and "client_inv E h0 d s" and "\<forall>c \<in> set cs. allowed h0 c"
    and "\<forall>n s1. n < length cs \<and> fold_opt (call E d) (take n cs) s = Some s1 \<longrightarrow> can_start E d (cs ! n) s1"
  shows "\<exists>s'. fold_opt (call E d) cs s = Some s' \<and> client_inv E h0 d s'"
  using assms(3-)
proof (induction cs arbitrary: s)
  case Nil
  then show ?case by simp
next
  case (Cons c cs)
  have "can_start E d c s" using Cons.prems(3) [rule_format, of 0 s] by simp
  with call_client [OF E Cons.prems(1)] Cons.prems(2) obtain s1 where
    s1: "call E d c s = Some s1" "client_inv E h0 d s1" by auto
  have "\<forall>n s2. n < length cs \<and> fold_opt (call E d) (take n cs) s1 = Some s2 \<longrightarrow> can_start E d (cs ! n) s2"
    using Cons.prems(3) [rule_format, of "Suc n" for n] s1(1) by auto
  from Cons.IH [OF s1(2) _ this] Cons.prems(2) s1(1) show ?case by simp
qed

text \<open>A camera as freenect_open_device leaves it: open and answering, both streams idle, in a mode of the tables.\<close>

definition opened :: "env \<Rightarrow> nat \<Rightarrow> st \<Rightarrow> bool" where
  "opened E d s \<longleftrightarrow> cx_first (st_ctx s) = Some d \<and> submits (st_io s) = {} \<and> heap_wf (st_heap s) \<and>
     (\<exists>dev. st_devs s d = Some dev \<and> cam_ok E dev \<and> \<not> ps_running (dv_depth dev) \<and> \<not> ps_running (dv_video dev) \<and>
        ps_usr_buf (dv_depth dev) = None \<and> ps_usr_buf (dv_video dev) = None \<and>
        dv_depth_resolution dev = FREENECT_RESOLUTION_MEDIUM \<and> dv_depth_format dev \<noteq> FREENECT_DEPTH_DUMMY \<and>
        video_registers (dv_video_format dev) (dv_video_resolution dev) \<noteq> None \<and>
        dv_next dev = None \<and> audio_idle dev)"

lemma opened_client_inv:
  assumes "opened E d s"
  shows "client_inv E (st_heap s) d s"
proof -
  from assms obtain dev where dev: "st_devs s d = Some dev" "cam_ok E dev" "\<not> ps_running (dv_depth dev)" "\<not> ps_running (dv_video dev)"
    "ps_usr_buf (dv_depth dev) = None" "ps_usr_buf (dv_video dev) = None" "dv_depth_resolution dev = FREENECT_RESOLUTION_MEDIUM"
    "dv_depth_format dev \<noteq> FREENECT_DEPTH_DUMMY" "video_registers (dv_video_format dev) (dv_video_resolution dev) \<noteq> None"
    "dv_next dev = None" "audio_idle dev" unfolding opened_def by blast
  have o: "cx_first (st_ctx s) = Some d" "submits (st_io s) = {}" "heap_wf (st_heap s)" using assms by (simp_all add: opened_def)
  show ?thesis
  proof (rule client_invI [OF _ o(1) dev(1) _ _ dev(2)])
    show "known d s" by (simp add: known_def o(2))
    show "dev_ok (st_heap s) dev (st_heap s)" using dev by (simp add: dev_ok_def client_blocks_def frame_ok_def user_ok_def)
    show "mem_ok (st_heap s) dev (st_heap s)" using dev o(3) by (simp add: mem_ok_def holdings_def)
  qed (use dev in simp_all)
qed

lemma idle_memory:
  assumes m: "mem_ok h0 dev h" and c: "client_blocks h0 h" and "\<not> ps_running (dv_depth dev)" "\<not> ps_running (dv_video dev)"
  shows "map_option length (hp_blocks h a) = map_option length (hp_blocks h0 a)"
proof (cases "hp_blocks h0 a")
  case None
  with m assms(3,4) have "hp_blocks h a = None" by (simp add: mem_ok_def holdings_def)
  with None show ?thesis by simp
next
  case (Some blk)
  with c show ?thesis by (simp add: client_blocks_def)
qed

section \<open>Stopping one of several streams\<close>

text \<open>
  C15. Stopping a camera stream ends, whatever else goes on. The device is one of a client: its running
  streams have their buffers (\<open>dev_ok\<close>), which are blocks of their own like the packet buffer of the
  stream to be stopped, all transfers of that stream were allocated, and only transfers of
  its camera streams were submitted (\<open>known\<close>). libusb may report transfers
  of the other stream at any time, whose frames are processed in between, and it may take any finite
  number of calls of the event loop to report the next transfer of this one. Then fnusb_stop_iso
  returns 0: every transfer of the stream has come back, so none is left that libusb could write to,
  and of the memory exactly the packet buffer of the stream is freed. The other stream keeps its
  transfers, none of them was cancelled or freed, and every running stream still has the buffers that
  the processing of its packets needs.
\<close>

theorem fnusb_stop_iso_returns:
  assumes E: "faithful E" and dev: "st_devs s d = Some dev" and ok: "dev_ok h0 dev (st_heap s)" and kn: "known d s"
    and k: "camera_cb k \<noteq> None" and ready: "iso_ready (dev_isoc k dev)" and sub: "(d, k) \<in> submits (st_io s)"
    and own: "owned (is_buffer (dev_isoc k dev) # ps) (st_heap s)"
    and others: "ps_running (dv_depth dev) \<longrightarrow> set (stream_ptrs (dv_depth dev)) \<subseteq> set ps"
      "ps_running (dv_video dev) \<longrightarrow> set (stream_ptrs (dv_video dev)) \<subseteq> set ps"
    and out: "\<forall>a. is_buffer (dev_isoc k dev) = Some a \<longrightarrow> hp_blocks h0 a = None"
  shows "\<exists>s' dev'. fnusb_stop_iso E d k s = Some (0, s') \<and> st_devs s' = (st_devs s)(d \<mapsto> dev') \<and>
    is_dead (dev_isoc k dev') \<and> is_num_xfers (dev_isoc k dev) \<le> is_dead_xfers (dev_isoc k dev') \<and>
    (\<forall>a. map_option length (hp_blocks (st_heap s') a) =
      (if is_buffer (dev_isoc k dev) = Some a then None else map_option length (hp_blocks (st_heap s) a))) \<and>
    (\<forall>j. j \<noteq> k \<longrightarrow> fixed_part (dev_isoc j dev') = fixed_part (dev_isoc j dev) \<and>
      withdrawn (d, j) (st_io s') = withdrawn (d, j) (st_io s)) \<and>
    ps_running (dv_depth dev') = ps_running (dv_depth dev) \<and> (ps_running (dv_depth dev) \<longrightarrow> depth_inv dev' (st_heap s')) \<and>
    ps_running (dv_video dev') = ps_running (dv_video dev) \<and> (ps_running (dv_video dev) \<longrightarrow> video_inv dev' (st_heap s'))"
proof -
  let ?b = "is_buffer (dev_isoc k dev)"
  from stop_iso_event [OF E dev ok kn k ready sub own] obtain s' dev' h where
    r: "fnusb_stop_iso E d k s = Some (0, s')" "st_devs s' = (st_devs s)(d \<mapsto> dev')"
    "event_dev (set_isoc k ((dev_isoc k dev)\<lparr>is_dead := True\<rparr>) dev) dev'" "dev_ok h0 dev' h" "same_lengths (st_heap s) h"
    "mfree ?b h = Some (st_heap s')" "owned (?b # ps) h"
    "\<forall>j. j \<noteq> k \<longrightarrow> withdrawn (d, j) (st_io s') = withdrawn (d, j) (st_io s)" by blast
  have d': "st_devs s' d = Some dev'" using r(2) by simp
  have all: "is_dead (dev_isoc k dev')" "is_num_xfers (dev_isoc k dev) \<le> is_dead_xfers (dev_isoc k dev')"
    using fnusb_stop_iso_drained [OF r(1) dev] d' by auto
  have fx: "fixed_part (dev_isoc j dev') = fixed_part (dev_isoc j dev)" if "j \<noteq> k" for j
    using event_dev_isoc(1) [OF r(3), of j] that by simp
  have blocks: "hp_blocks (st_heap s') = without [?b] (hp_blocks h)"
    using owned_mfree [OF r(7)] r(6) by auto
  have len: "map_option length (hp_blocks (st_heap s') a) = (if ?b = Some a then None else map_option length (hp_blocks (st_heap s) a))" for a
    using r(5) by (auto simp: blocks without_def same_lengths_def)
  note sm = event_dev_simps [OF r(3)]
  have ptrs: "stream_ptrs (dv_depth dev') = stream_ptrs (dv_depth dev)" "stream_ptrs (dv_video dev') = stream_ptrs (dv_video dev)"
    using geom_ptrs [OF sm(6)] geom_ptrs [OF sm(7)] by simp_all
  have disj: "Some a \<notin> set [?b]" if "Some a \<in> set ps" for a
    using owned_append(3) [of "[?b]" ps "st_heap s" a] own that by auto
  have ok': "dev_ok h0 dev' (st_heap s')"
    by (rule dev_ok_free [OF r(4) blocks]) (use others disj out sm(1,2) ptrs in auto)
  show ?thesis
    using r(1,2,8) all fx len sm(1,2) dev_ok_depth_inv [OF ok'] dev_ok_video_inv [OF ok']
    by (intro exI [of _ s'] exI [of _ dev']) simp
qed

text \<open>
  C35. freenect_camera_teardown stops at the first stream. When a client runs depth and video, it stops
  depth and returns 0; the video stream is still running and not told to stop, with its transfers
  and its packet buffer: none of its transfers is cancelled or freed, whatever libusb reports
  meanwhile.
\<close>

theorem freenect_camera_teardown_leaves_video:
  assumes E: "faithful E" and inv: "client_inv E h0 d s" and dev: "st_devs s d = Some dev"
    and run: "ps_running (dv_depth dev)" "ps_running (dv_video dev)"
  shows "\<exists>s' dev'. freenect_camera_teardown E d s = Some (0, s') \<and> client_inv E h0 d s' \<and> st_devs s' d = Some dev' \<and>
    \<not> ps_running (dv_depth dev') \<and> ps_running (dv_video dev') \<and>
    fixed_part (dv_video_isoc dev') = fixed_part (dv_video_isoc dev) \<and>
    withdrawn (d, Iso_video) (st_io s') = withdrawn (d, Iso_video) (st_io s) \<and>
    (\<forall>a. is_buffer (dv_video_isoc dev) = Some a \<longrightarrow> hp_blocks (st_heap s') a \<noteq> None)"
proof -
  from stop_depth_client_idle [OF E inv dev] run obtain s' dev' where
    s': "freenect_stop_depth E d s = Some (0, s')" "client_inv E h0 d s'" "st_devs s' d = Some dev'"
    "\<not> ps_running (dv_depth dev')" "ps_running (dv_video dev')" "fixed_part (dv_video_isoc dev') = fixed_part (dv_video_isoc dev)"
    "withdrawn (d, Iso_video) (st_io s') = withdrawn (d, Iso_video) (st_io s)" by blast
  have "freenect_camera_teardown E d s = Some (0, s')" using dev run s'(1) by (simp add: freenect_camera_teardown_def)
  moreover have "hp_blocks (st_heap s') a \<noteq> None" if "is_buffer (dv_video_isoc dev) = Some a" for a
  proof -
    have "mem_ok h0 dev' (st_heap s')" using s'(2,3) by (auto elim!: client_invE)
    then have "owned (video_ptrs dev') (st_heap s')" using s'(4,5) by (simp add: mem_ok_def holdings_def)
    then show ?thesis using that s'(6) by (auto simp: owned_def fixed_part_def)
  qed
  ultimately show ?thesis using s' by blast
qed

section \<open>The safety of a client\<close>

text \<open>
  C4. A client of an open camera: whatever sequence of calls it makes, with the event loop in between
  and whatever libusb reports, every call has a defined result, as long as each start of an idle
  stream finds its memory (and a usable calibration for registered depth). The buffers it hands over
  must be large enough, and libusb must go on reporting transfers that are being cancelled. A stream
  that runs then has the buffers that the processing of its packets needs, the client's own blocks
  are never freed, and when both streams are stopped the memory is what it was before.
\<close>

theorem client_calls_safe:
  assumes "faithful E" and "\<forall>h. e_alloc E h" and "opened E d s" and "\<forall>c \<in> set cs. allowed (st_heap s) c"
    and "\<forall>n s1. n < length cs \<and> fold_opt (call E d) (take n cs) s = Some s1 \<longrightarrow> can_start E d (cs ! n) s1"
  shows "\<exists>s' dev. fold_opt (call E d) cs s = Some s' \<and> st_devs s' d = Some dev \<and>
    (ps_running (dv_depth dev) \<longrightarrow> depth_inv dev (st_heap s')) \<and> (ps_running (dv_video dev) \<longrightarrow> video_inv dev (st_heap s')) \<and>
    client_blocks (st_heap s) (st_heap s') \<and>
    (\<not> ps_running (dv_depth dev) \<and> \<not> ps_running (dv_video dev) \<longrightarrow>
      (\<forall>a. map_option length (hp_blocks (st_heap s') a) = map_option length (hp_blocks (st_heap s) a)))"
proof -
  from calls_client [OF assms(1,2) opened_client_inv [OF assms(3)] assms(4,5)] obtain s' where
    run: "fold_opt (call E d) cs s = Some s'" and inv: "client_inv E (st_heap s) d s'" by blast
  from inv obtain dev where dev: "st_devs s' d = Some dev" and ok: "dev_ok (st_heap s) dev (st_heap s')"
    and mem: "mem_ok (st_heap s) dev (st_heap s')" by (rule client_invE)
  have cb: "client_blocks (st_heap s) (st_heap s')" using ok by (simp add: dev_ok_def)
  show ?thesis
    using run dev cb dev_ok_depth_inv [OF ok] dev_ok_video_inv [OF ok] idle_memory [OF mem cb] by blast
qed

section \<open>A session as an example\<close>

text \<open>The camera of the example, and libusb reporting the transfers that are being cancelled.\<close>

definition loyal_env :: env where
  "loyal_env = camera_env\<lparr>e_events := \<lambda>h. (0, case draining h of None \<Rightarrow> []
     | Some (d, k) \<Rightarrow> if (d, k) \<in> submits h
         then [\<lparr>cp_dev = d, cp_strm = k, cp_xfer = 0, cp_status = Xfer_no_device, cp_packets = []\<rparr>] else [])\<rparr>"

lemma loyal_env_faithful: "faithful loyal_env"
proof -
  have "wfp (\<lambda>h' h. dk \<in> submits h \<and> silent_turn loyal_env dk h' h)" for dk
    by (rule wfp_never) (cases dk; auto simp: silent_turn_def loyal_env_def)
  then show ?thesis by (auto simp: faithful_def loyal_env_def split: option.splits)
qed

lemma loyal_env_answers: "answers loyal_env cam"
  by (rule camera_control_answers) (simp add: loyal_env_def camera_env_control)

definition open_state :: st where
  "open_state = (dev_state depth_dev)\<lparr>st_ctx := zero_context\<lparr>cx_first := Some 0\<rparr>\<rparr>"

lemma open_state_opened: "opened loyal_env 0 open_state"
  using dev_state_simps(4) [of depth_dev] loyal_env_answers
  by (simp add: opened_def open_state_def submits_def cam_ok_def zero_device_def zero_packet_stream_def zero_fnusb_dev_def
      zero_audio_stream_def
      video_registers_def Let_def)

text \<open>A client that runs both streams; there is memory again before the second start.\<close>

lemma both_running:
  "\<exists>(s :: st) dev h0. client_inv loyal_env h0 0 s \<and> st_devs s 0 = Some dev \<and> ps_running (dv_depth dev) \<and> ps_running (dv_video dev)"
proof -
  let ?h0 = "st_heap open_state"
  have al: "\<forall>h. e_alloc loyal_env h" using camera_env_alloc by (simp add: loyal_env_def)
  have inv0: "client_inv loyal_env ?h0 0 open_state" by (rule opened_client_inv [OF open_state_opened])
  have d0: "st_devs open_state 0 = Some depth_dev" by (simp add: open_state_def)
  have mem: "start_mem (dv_video depth_dev) 3932160 5242880 (st_heap open_state)"
    using video_dev_ok(5) by (simp add: open_state_def)
  from freenect_start_video_runs [OF d0 video_dev_ok(2-4) mem video_dev_ok(6) loyal_env_answers al] obtain s1 strm xf t where
    s1: "freenect_start_video loyal_env 0 open_state = Some (0, s1)" "ps_running strm"
    "st_devs s1 = (st_devs open_state)(0 \<mapsto> depth_dev\<lparr>dv_video_isoc := xf, dv_video := strm, dv_cam_tag := t\<rparr>)" by blast
  let ?dev1 = "depth_dev\<lparr>dv_video_isoc := xf, dv_video := strm, dv_cam_tag := t\<rparr>"
  let ?s1 = "s1\<lparr>st_heap := (st_heap s1)\<lparr>hp_avail := 10000000\<rparr>\<rparr>"
  have "start_ready loyal_env Iso_video depth_dev (st_heap open_state)" by (simp add: open_state_def)
  with start_video_client [OF al inv0 d0] s1(1) have inv1: "client_inv loyal_env ?h0 0 s1" by auto
  have d1: "st_devs ?s1 0 = Some ?dev1" using s1(3) by simp
  have inv1': "client_inv loyal_env ?h0 0 ?s1"
  proof (rule client_invE [OF inv1])
    fix dev assume i: "known 0 s1" "cx_first (st_ctx s1) = Some 0" "st_devs s1 0 = Some dev" "dev_ok ?h0 dev (st_heap s1)"
      "mem_ok ?h0 dev (st_heap s1)" "cam_ok loyal_env dev" "ps_running (dv_depth dev) \<longrightarrow> (0, Iso_depth) \<in> submits (st_io s1)"
      "ps_running (dv_video dev) \<longrightarrow> (0, Iso_video) \<in> submits (st_io s1)" "dv_next dev = None" "audio_idle dev"
    show ?thesis
    proof (rule client_invI [of 0 _ dev])
      show "known 0 ?s1" using i(1) by (simp add: known_def)
      show "dev_ok ?h0 dev (st_heap ?s1)" by (rule dev_ok_free [OF i(4), of _ "[]"]) (simp_all add: without_def)
      show "mem_ok ?h0 dev (st_heap ?s1)" using i(5) by (simp add: mem_ok_def heap_wf_def owned_def)
    qed (use i in simp_all)
  qed
  have idle: "\<not> ps_running (dv_depth ?dev1)" using depth_dev_ok(2) by simp
  have rdy: "start_ready loyal_env Iso_depth ?dev1 (st_heap ?s1)" by (simp add: zero_device_def)
  from start_depth_client [OF al inv1' d1] rdy obtain r s2 where
    s2: "freenect_start_depth loyal_env 0 ?s1 = Some (r, s2)" "client_inv loyal_env ?h0 0 s2" by blast
  have "mem_ok ?h0 ?dev1 (st_heap ?s1)" using inv1' d1 by (auto elim!: client_invE)
  then have mem1: "start_mem (dv_depth ?dev1) 614400 1036800 (st_heap ?s1)"
    by (simp add: start_mem_def mem_ok_def zero_device_def zero_packet_stream_def)
  have mode: "dv_depth_resolution ?dev1 = FREENECT_RESOLUTION_MEDIUM" "dv_depth_format ?dev1 \<noteq> FREENECT_DEPTH_DUMMY"
    "dv_depth_format ?dev1 = FREENECT_DEPTH_REGISTERED \<longrightarrow> registration_ok (dv_registration (freenect_init_registration loyal_env ?dev1))"
    "ud_dev (dv_usb_cam ?dev1) \<noteq> None" using depth_dev_ok(3,4) by (simp_all add: zero_device_def)
  from freenect_start_depth_runs [OF d1 idle mode(1-3) mem1 depth_sizes_le [OF mode(1,2)] mode(4) loyal_env_answers al]
  obtain s3 reg xf' strm' t' where s3: "freenect_start_depth loyal_env 0 ?s1 = Some (0, s3)" "ps_running strm'"
    "st_devs s3 = (st_devs ?s1)(0 \<mapsto> ?dev1\<lparr>dv_registration := reg, dv_depth_isoc := xf', dv_depth := strm', dv_cam_tag := t'\<rparr>)"
    by blast
  have "s3 = s2" using s2(1) s3(1) by simp
  then show ?thesis
    using s2(2) s3(2,3) s1(2)
    by (intro exI [of _ s2] exI [of _ "?dev1\<lparr>dv_registration := reg, dv_depth_isoc := xf', dv_depth := strm', dv_cam_tag := t'\<rparr>"]
        exI [of _ ?h0]) simp
qed

theorem fnusb_stop_iso_returns_witness:
  "\<exists>(s :: st) dev s' dev'. st_devs s 0 = Some dev \<and> ps_running (dv_video dev) \<and>
     fnusb_stop_iso loyal_env 0 Iso_depth s = Some (0, s') \<and> st_devs s' 0 = Some dev' \<and>
     is_dead (dv_depth_isoc dev') \<and> video_inv dev' (st_heap s')"
proof -
  obtain s :: st and dev h0 where s: "client_inv loyal_env h0 0 s" "st_devs s 0 = Some dev" "ps_running (dv_depth dev)" "ps_running (dv_video dev)"
    using both_running by blast
  from s(1,2) have i: "known 0 s" "dev_ok h0 dev (st_heap s)" "mem_ok h0 dev (st_heap s)"
    "ps_running (dv_depth dev) \<longrightarrow> (0, Iso_depth) \<in> submits (st_io s)" by (auto elim!: client_invE)
  let ?ps = "stream_ptrs (dv_depth dev) @ video_ptrs dev"
  have h: "holdings dev = is_buffer (dev_isoc Iso_depth dev) # ?ps" using s(3,4) by (simp add: holdings_def)
  have "iso_ready (dev_isoc Iso_depth dev)" using i(2) s(3) by (simp add: dev_ok_def frame_ok_def)
  moreover have "owned (is_buffer (dev_isoc Iso_depth dev) # ?ps) (st_heap s)" using i(3) h by (simp add: mem_ok_def)
  moreover have "\<forall>a. is_buffer (dev_isoc Iso_depth dev) = Some a \<longrightarrow> hp_blocks h0 a = None"
    using mem_ok_out [OF i(3)] unfolding h by simp
  ultimately obtain s' dev' where "fnusb_stop_iso loyal_env 0 Iso_depth s = Some (0, s')" "st_devs s' = (st_devs s)(0 \<mapsto> dev')"
    "is_dead (dev_isoc Iso_depth dev')" "video_inv dev' (st_heap s')"
    using fnusb_stop_iso_returns [OF loyal_env_faithful s(2) i(2,1), of Iso_depth ?ps] i(4) s(3,4) by auto
  then show ?thesis using s(2,4) by (intro exI [of _ s] exI [of _ dev] exI [of _ s'] exI [of _ dev']) simp
qed

theorem freenect_camera_teardown_leaves_video_witness:
  "\<exists>(s :: st) dev s' dev'. st_devs s 0 = Some dev \<and> ps_running (dv_depth dev) \<and>
     freenect_camera_teardown loyal_env 0 s = Some (0, s') \<and> st_devs s' 0 = Some dev' \<and>
     \<not> ps_running (dv_depth dev') \<and> ps_running (dv_video dev')"
  using both_running freenect_camera_teardown_leaves_video [OF loyal_env_faithful] by blast

theorem client_calls_safe_witness:
  "\<exists>s' dev. fold_opt (call loyal_env 0) [Set_depth_buffer None, Start_depth, Process_events, Stop_depth] open_state = Some s' \<and>
     st_devs s' 0 = Some dev \<and> (ps_running (dv_depth dev) \<longrightarrow> depth_inv dev (st_heap s'))"
proof -
  let ?cs = "[Set_depth_buffer None, Start_depth, Process_events, Stop_depth]"
  have al: "\<forall>h. e_alloc loyal_env h" using camera_env_alloc by (simp add: loyal_env_def)
  have "\<forall>n s1. n < length ?cs \<and> fold_opt (call loyal_env 0) (take n ?cs) open_state = Some s1 \<longrightarrow> can_start loyal_env 0 (?cs ! n) s1"
  proof (intro allI impI)
    fix n s1
    assume h: "n < length ?cs \<and> fold_opt (call loyal_env 0) (take n ?cs) open_state = Some s1"
    show "can_start loyal_env 0 (?cs ! n) s1"
    proof (cases "n = 1")
      case True
      with h show ?thesis
        by (auto simp: can_start_def open_state_def freenect_set_depth_buffer_def stream_setbuf_def zero_device_def zero_packet_stream_def)
    next
      case False
      with h have "n = 0 \<or> n = 2 \<or> n = 3" by auto
      then show ?thesis by (auto simp: can_start_def split: option.splits)
    qed
  qed
  from client_calls_safe [OF loyal_env_faithful al open_state_opened _ this] show ?thesis
    by (fastforce simp: user_ok_def)
qed

end
