(* ===== verification/Lifetime.thy ===== *)
theory Lifetime
  imports Client
begin

text \<open>
  A whole session: a context without devices, freenect_open_device, any sequence of calls of a client
  (theory Client), the two calls that stop the streams, and freenect_shutdown. Opening is shown to
  establish what Client starts from, and shutting down to give back what the session has taken.
\<close>

section \<open>Opening\<close>

lemma submits_rest: "kept_rest s' = kept_rest s \<Longrightarrow> submits (st_io s') = submits (st_io s)"
proof -
  have "submits io = submits (filter (\<lambda>ev. \<not> plain ev) io)" for io by (auto simp: submits_def plain_def)
  then show "kept_rest s' = kept_rest s \<Longrightarrow> submits (st_io s') = submits (st_io s)" by (simp add: kept_rest_def) metis
qed

lemma upd_registration_io: "upd_registration d f s = Some s' \<Longrightarrow> st_io s' = st_io s"
  by (auto simp: upd_registration_def split: Option.bind_splits)

lemma fetch_books:
  "freenect_fetch_reg_info E d s = Some (r, s') \<Longrightarrow> submits (st_io s') = submits (st_io s)"
  "freenect_fetch_reg_pad_info E d s = Some (r, s') \<Longrightarrow> submits (st_io s') = submits (st_io s)"
  "freenect_fetch_zero_plane_info E d s = Some (r, s') \<Longrightarrow> submits (st_io s') = submits (st_io s)"
  "freenect_fetch_reg_const_shift E d s = Some (r, s') \<Longrightarrow> submits (st_io s') = submits (st_io s)"
  by (auto simp: freenect_fetch_reg_info_def freenect_fetch_reg_pad_info_def freenect_fetch_zero_plane_info_def
      freenect_fetch_reg_const_shift_def same_books_def Let_def split: Option.bind_splits if_splits prod.splits
      dest!: send_cmd_books upd_registration_io)

lemma camera_init_books: "freenect_camera_init E d s = Some (r, s') \<Longrightarrow> submits (st_io s') = submits (st_io s)"
  by (auto simp: freenect_camera_init_def freenect_set_video_mode_def freenect_set_depth_mode_def Let_def
      split: Option.bind_splits if_splits option.splits prod.splits dest!: fetch_books)

text \<open>
  A new device without the handles is a zeroed device with nothing started; its camera is set up
  when the result is 0.
\<close>

lemma bare_zero: "bare dev = bare zero_device \<Longrightarrow> \<exists>cam mot aud t b c. \<not> ud_device_dead aud \<and> dev = zero_device\<lparr>dv_usb_cam := cam,
    dv_usb_motor := mot, dv_usb_audio := aud, dv_audio_tag := t, dv_device_does_motor_control_with_audio := b,
    dv_motor_control_with_audio_enabled := c\<rparr>"
  by (cases dev) (simp add: bare_def zero_device_def zero_fnusb_dev_def)

lemma open_device_opened:
  assumes E: "\<forall>cam. answers E cam" and s: "cx_first (st_ctx s) = None" "submits (st_io s) = {}" "heap_wf (st_heap s)"
    and run: "freenect_open_device E index s = Some ((0, Some d), s1)"
    and cam: "st_devs s1 d = Some dev1" "ud_dev (dv_usb_cam dev1) \<noteq> None"
  shows "opened E d s1"
proof -
  let ?s0 = "s\<lparr>st_devs := (st_devs s)(d \<mapsto> zero_device), st_next_dev := Suc d\<rparr>"
  from run obtain res s2 where d: "d = st_next_dev s" and op: "fnusb_open_subdevices E d index ?s0 = Some (res, s2)"
    and rest: "(do {
        s3 \<leftarrow> append_device d s2;
        dev \<leftarrow> st_devs s3 d;
        if ud_dev (dv_usb_cam dev) \<noteq> None
        then do { (r, s4) \<leftarrow> freenect_camera_init E d s3; Some ((if r < 0 then -1 else 0 :: int, Some d), s4) }
        else Some ((0, Some d), s3)
      }) = Some ((0, Some d), s1)"
    by (auto simp: freenect_open_device_def Let_def split: Option.bind_splits if_splits)
  have k: "kept_rest s2 = kept_rest ?s0" "heap_wf (st_heap s2)" using open_subdevices_kept [OF op] s(3) by auto
  have sub2: "submits (st_io s2) = {}" using submits_rest [OF k(1)] s(2) by simp
  have cx2: "cx_first (st_ctx s2) = None" using k(1) s(1) by (simp add: kept_rest_def)
  have "map_option bare (st_devs s2 d) = Some (bare zero_device)"
    using arg_cong [OF k(1), of "\<lambda>p. fst p d"] by (simp add: kept_rest_def)
  then obtain dev2 where dev2: "st_devs s2 d = Some dev2" "bare dev2 = bare zero_device" by auto
  let ?s3 = "s2\<lparr>st_ctx := (st_ctx s2)\<lparr>cx_first := Some d\<rparr>\<rparr>"
  have ap: "append_device d s2 = Some ?s3" using cx2 by (simp add: append_device_def)
  obtain cm mot aud t b c where z: "\<not> ud_device_dead aud" "dev2 = zero_device\<lparr>dv_usb_cam := cm, dv_usb_motor := mot, dv_usb_audio := aud,
      dv_audio_tag := t, dv_device_does_motor_control_with_audio := b, dv_motor_control_with_audio_enabled := c\<rparr>"
    using bare_zero [OF dev2(2)] by blast
  have "ud_dev (dv_usb_cam dev2) \<noteq> None" using rest ap dev2(1) cam by (auto split: if_splits)
  then obtain r where init: "freenect_camera_init E d ?s3 = Some (r, s1)" "\<not> r < 0"
    using rest ap dev2(1) by (auto split: Option.bind_splits if_splits)
  then have init: "freenect_camera_init E d ?s3 = Some (0, s1)"
    by (auto simp: freenect_camera_init_def split: Option.bind_splits if_splits prod.splits)
  have idle: "\<not> ps_running (dv_video dev2)" "\<not> ps_running (dv_depth dev2)" by (simp_all add: z(2) zero_device_def zero_packet_stream_def)
  have d3: "st_devs ?s3 d = Some dev2" using dev2(1) by simp
  from camera_init_run [OF init d3 idle] obtain dev' t' reg where i: "st_devs s1 = (st_devs ?s3)(d \<mapsto> dev')"
    "st_heap s1 = st_heap ?s3" "st_ctx s1 = st_ctx ?s3" "dev' = dev2\<lparr>dv_cam_tag := t', dv_registration := reg,
      dv_video_format := FREENECT_VIDEO_RGB, dv_video_resolution := FREENECT_RESOLUTION_MEDIUM,
      dv_depth_format := FREENECT_DEPTH_11BIT, dv_depth_resolution := FREENECT_RESOLUTION_MEDIUM\<rparr>" by blast
  have "submits (st_io s1) = {}" using camera_init_books [OF init] sub2 by simp
  moreover have "cam_ok E dev1" using cam(2) E by (simp add: cam_ok_def)
  moreover have e: "dev1 = dev'" using i(1) cam(1) by simp
  moreover have "\<not> ps_running (dv_depth dev1)" "\<not> ps_running (dv_video dev1)"
    "ps_usr_buf (dv_depth dev1) = None" "ps_usr_buf (dv_video dev1) = None"
    "dv_depth_resolution dev1 = FREENECT_RESOLUTION_MEDIUM" "dv_depth_format dev1 \<noteq> FREENECT_DEPTH_DUMMY"
    "video_registers (dv_video_format dev1) (dv_video_resolution dev1) \<noteq> None" "dv_next dev1 = None" "audio_idle dev1"
    unfolding e i(4) using z(1) by (simp_all add: z(2) zero_device_def zero_packet_stream_def zero_audio_stream_def video_registers_def Let_def)
  moreover have "cx_first (st_ctx s1) = Some d" "heap_wf (st_heap s1)" using i(2,3) k(2) by simp_all
  ultimately show ?thesis using cam(1) unfolding opened_def by blast
qed

section \<open>Shutting down\<close>

lemma shutdown_client:
  assumes inv: "client_inv E h0 d s" and dev: "st_devs s d = Some dev"
    and idle: "\<not> ps_running (dv_depth dev)" "\<not> ps_running (dv_video dev)"
  shows "\<exists>s'. freenect_shutdown E s = Some (0, s') \<and> cx_first (st_ctx s') = None \<and> st_devs s' d = None \<and> st_heap s' = st_heap s"
proof -
  have cx: "cx_first (st_ctx s) = Some d" and nx: "dv_next dev = None" and cam: "ud_dev (dv_usb_cam dev) \<noteq> None"
    using inv dev by (auto elim!: client_invE simp: cam_ok_def)
  let ?dev1 = "dev\<lparr>dv_registration := freenect_destroy_registration (dv_registration dev)\<rparr>"
  let ?s1 = "set_dev d ?dev1 s"
  have td: "freenect_camera_teardown E d s = Some (0, ?s1)" using dev idle by (simp add: freenect_camera_teardown_def)
  have d1: "st_devs ?s1 d = Some ?dev1" by simp
  obtain evs where cl: "fnusb_close_subdevices d ?s1 = Some (0, set_dev d (without_handles ?dev1) (?s1\<lparr>st_io := evs @ st_io ?s1\<rparr>))"
    using fnusb_close_subdevices_ok [OF d1] by blast
  let ?s2 = "set_dev d (without_handles ?dev1) (?s1\<lparr>st_io := evs @ st_io ?s1\<rparr>)"
  have c2: "st_ctx ?s2 = st_ctx s" "st_devs ?s2 d = Some (without_handles ?dev1)" "st_heap ?s2 = st_heap s" by simp_all
  have nx2: "dv_next (without_handles ?dev1) = None" using nx by (simp add: without_handles_def)
  have "find_device d None (Some d) ?s2 = Some (Some None)" by (subst find_device.simps) simp
  then have un: "unlink_device d ?s2 = Some (0, ?s2\<lparr>st_ctx := (st_ctx ?s2)\<lparr>cx_first := None\<rparr>, st_devs := (st_devs ?s2)(d := None)\<rparr>)"
    using cx c2 nx2 unfolding unlink_device_def by simp
  define s3 where "s3 = ?s2\<lparr>st_ctx := (st_ctx ?s2)\<lparr>cx_first := None\<rparr>, st_devs := (st_devs ?s2)(d := None)\<rparr>"
  have "freenect_close_device E d s = Some (0, s3)"
    unfolding freenect_close_device_def using dev cam td cl un by (simp add: s3_def)
  then have "close_all E s = Some s3" using cx by (subst close_all.simps) (simp add: close_all.simps s3_def)
  then show ?thesis using c2(3)
    by (intro exI [of _ "snd (fnusb_shutdown s3)"]) (simp add: freenect_shutdown_def fnusb_shutdown_def s3_def split_beta)
qed

section \<open>The session\<close>

lemma stop_both:
  assumes E: "faithful E" and inv: "client_inv E h0 d s"
  shows "\<exists>s' dev. fold_opt (call E d) [Stop_depth, Stop_video] s = Some s' \<and> client_inv E h0 d s' \<and> st_devs s' d = Some dev \<and>
    \<not> ps_running (dv_depth dev) \<and> \<not> ps_running (dv_video dev)"
proof -
  from inv obtain dev where dev: "st_devs s d = Some dev" by (rule client_invE)
  from stop_depth_client_idle [OF E inv dev] obtain r s1 dev1 where
    1: "freenect_stop_depth E d s = Some (r, s1)" "client_inv E h0 d s1" "st_devs s1 d = Some dev1" "\<not> ps_running (dv_depth dev1)" by blast
  from stop_video_client_idle [OF E 1(2,3)] obtain r' s2 dev2 where
    2: "freenect_stop_video E d s1 = Some (r', s2)" "client_inv E h0 d s2" "st_devs s2 d = Some dev2"
      "\<not> ps_running (dv_video dev2)" "ps_running (dv_depth dev2) = ps_running (dv_depth dev1)" by blast
  show ?thesis using 1 2 by (intro exI [of _ s2] exI [of _ dev2]) simp
qed

text \<open>
  C3. A session from beginning to end: after freenect_open_device has opened a camera that answers, the
  client may make any sequence of calls, with the event loop in between; when it then stops both
  streams, freenect_shutdown returns 0, no device is left, and the memory is what it was after opening.
  Nothing on the way leaves the defined behaviour, as long as each start of an idle stream finds its
  memory, the client's buffers are large enough and libusb reports the transfers that are cancelled.
\<close>

theorem session_safe:
  assumes "faithful E" and "\<forall>h. e_alloc E h" and "\<forall>cam. answers E cam"
    and "cx_first (st_ctx s) = None" and "submits (st_io s) = {}" and "heap_wf (st_heap s)"
    and "freenect_open_device E index s = Some ((0, Some d), s1)"
    and "st_devs s1 d = Some dev1" and "ud_dev (dv_usb_cam dev1) \<noteq> None"
    and "\<forall>c \<in> set cs. allowed (st_heap s1) c"
    and "\<forall>n s'. n < length cs \<and> fold_opt (call E d) (take n cs) s1 = Some s' \<longrightarrow> can_start E d (cs ! n) s'"
  shows "\<exists>s2 s3. fold_opt (call E d) (cs @ [Stop_depth, Stop_video]) s1 = Some s2 \<and> freenect_shutdown E s2 = Some (0, s3) \<and>
    cx_first (st_ctx s3) = None \<and> st_devs s3 d = None \<and>
    (\<forall>a. map_option length (hp_blocks (st_heap s3) a) = map_option length (hp_blocks (st_heap s1) a))"
proof -
  have "opened E d s1" by (rule open_device_opened [OF assms(3-9)])
  from calls_client [OF assms(1,2) opened_client_inv [OF this] assms(10,11)] obtain s' where
    1: "fold_opt (call E d) cs s1 = Some s'" "client_inv E (st_heap s1) d s'" by blast
  from stop_both [OF assms(1) 1(2)] obtain s2 dev where
    2: "fold_opt (call E d) [Stop_depth, Stop_video] s' = Some s2" "client_inv E (st_heap s1) d s2" "st_devs s2 d = Some dev"
      "\<not> ps_running (dv_depth dev)" "\<not> ps_running (dv_video dev)" by blast
  from shutdown_client [OF 2(2-5)] obtain s3 where
    3: "freenect_shutdown E s2 = Some (0, s3)" "cx_first (st_ctx s3) = None" "st_devs s3 d = None" "st_heap s3 = st_heap s2" by blast
  have "mem_ok (st_heap s1) dev (st_heap s2)" "client_blocks (st_heap s1) (st_heap s2)"
    using 2(2,3) by (auto elim!: client_invE simp: dev_ok_def)
  note idle_memory [OF this 2(4,5)]
  then show ?thesis using 1(1) 2(1) 3 by (intro exI [of _ s2] exI [of _ s3]) (simp add: fold_opt_append)
qed

section \<open>A session as an example\<close>

text \<open>One camera is plugged in; it accepts and answers every command.\<close>

definition visit_env :: env where
  "visit_env = loyal_env\<lparr>e_devlist := \<lambda>_. (1, [1]), e_desc := e_desc boot_env, e_open := e_open boot_env\<rparr>"

definition visit_state :: st where
  "visit_state = core_state\<lparr>st_heap := \<lparr>hp_blocks = Map.empty, hp_next = 0, hp_avail = 10000000, hp_fill = 0\<rparr>\<rparr>"

lemma visit_env_simps [simp]:
  "e_devlist visit_env io = (1, [1])" "e_desc visit_env (IO_get_descriptor dv # io) = (0, boot_desc dv)"
  "e_open visit_env (IO_open dv # io) = (0, Some dv)" "e_int visit_env io = 0" "e_alloc visit_env io = True"
  by (simp_all add: visit_env_def boot_env_def loyal_env_def camera_env_def iso_env_def quiet_env_def)

lemma visit_env_control: "e_control visit_env = camera_control"
  by (simp add: visit_env_def loyal_env_def camera_env_control)

lemma visit_env_faithful: "faithful visit_env"
proof -
  have e: "e_events visit_env = e_events loyal_env" by (simp add: visit_env_def)
  from loyal_env_faithful show ?thesis unfolding faithful_def silent_turn_cong [OF e] e .
qed

lemma visit_open:
  assumes "st_devs s d = Some dev" and "cx_enabled_subdevices (st_ctx s) = 2"
  shows "\<exists>s' dev'. fnusb_open_subdevices visit_env d 0 s = Some (0, s') \<and> st_devs s' d = Some dev' \<and> ud_dev (dv_usb_cam dev') = Some 1 \<and>
    cx_zero_plane_res (st_ctx s') = 322 \<and> st_heap s' = st_heap s"
  using assms
  by (simp add: fnusb_open_subdevices_def open_steps_def get_device_list_def get_descriptor_def boot_desc_def
      fnusb_is_camera_def open_camera_def open_dev_def select_for_model_def fnusb_claim_camera_def io_int_def all_open_def Let_def)

lemma visit_open_device:
  "\<exists>s1 dev1. freenect_open_device visit_env 0 visit_state = Some ((0, Some 0), s1) \<and> st_devs s1 0 = Some dev1 \<and>
     ud_dev (dv_usb_cam dev1) \<noteq> None \<and> \<not> ps_running (dv_depth dev1) \<and> dv_depth_format dev1 = FREENECT_DEPTH_11BIT \<and>
     hp_avail (st_heap s1) = 10000000"
proof -
  let ?s0 = "visit_state\<lparr>st_devs := [0 \<mapsto> zero_device], st_next_dev := 1\<rparr>"
  have e: "st_devs visit_state = Map.empty" "st_next_dev visit_state = 0" by (simp_all add: visit_state_def core_state_def)
  obtain s2 dev2 where 2: "fnusb_open_subdevices visit_env 0 0 ?s0 = Some (0, s2)" "st_devs s2 0 = Some dev2"
    "ud_dev (dv_usb_cam dev2) = Some 1" "cx_zero_plane_res (st_ctx s2) = 322" "st_heap s2 = st_heap visit_state"
    using visit_open [of ?s0 0 zero_device] by (auto simp: visit_state_def core_state_def)
  have k: "kept_rest s2 = kept_rest ?s0" using open_subdevices_kept [OF 2(1)] by blast
  have "cx_first (st_ctx s2) = None" using k by (simp add: kept_rest_def visit_state_def core_state_def zero_context_def)
  then have ap: "append_device 0 s2 = Some (s2\<lparr>st_ctx := (st_ctx s2)\<lparr>cx_first := Some 0\<rparr>\<rparr>)" by (simp add: append_device_def)
  let ?s3 = "s2\<lparr>st_ctx := (st_ctx s2)\<lparr>cx_first := Some 0\<rparr>\<rparr>"
  have "map_option bare (st_devs s2 0) = Some (bare zero_device)" using arg_cong [OF k, of "\<lambda>p. fst p 0"] by (simp add: kept_rest_def)
  then have "bare dev2 = bare zero_device" using 2(2) by simp
  then have "dv_video dev2 = dv_video zero_device" "dv_depth dev2 = dv_depth zero_device"
    using bare_zero by fastforce+
  then have idle: "\<not> ps_running (dv_video dev2)" "\<not> ps_running (dv_depth dev2)"
    by (simp_all add: zero_device_def zero_packet_stream_def)
  have d3: "st_devs ?s3 0 = Some dev2" using 2(2) by simp
  have "ready_at 0 ?s3 dev2" using 2(3,4) d3 idle by (simp add: ready_at_def)
  then obtain s4 where 4: "freenect_camera_init visit_env 0 ?s3 = Some (0, s4)" using ready_camera_init [OF visit_env_control] by blast
  from camera_init_run [OF 4 d3 idle] obtain dev4 t reg where
    i: "st_devs s4 = (st_devs ?s3)(0 \<mapsto> dev4)" "st_heap s4 = st_heap ?s3" "dev4 = dev2\<lparr>dv_cam_tag := t, dv_registration := reg,
      dv_video_format := FREENECT_VIDEO_RGB, dv_video_resolution := FREENECT_RESOLUTION_MEDIUM,
      dv_depth_format := FREENECT_DEPTH_11BIT, dv_depth_resolution := FREENECT_RESOLUTION_MEDIUM\<rparr>" by blast
  have run: "freenect_open_device visit_env 0 visit_state = Some ((0, Some 0), s4)"
    using 2 ap 4 e by (simp add: freenect_open_device_def)
  have "hp_avail (st_heap s4) = 10000000" using i(2) 2(5) by (simp add: visit_state_def)
  moreover have "ud_dev (dv_usb_cam dev4) \<noteq> None" "\<not> ps_running (dv_depth dev4)" "dv_depth_format dev4 = FREENECT_DEPTH_11BIT"
    using 2(3) idle by (simp_all add: i(3))
  ultimately show ?thesis using run i(1) by (intro exI [of _ s4] exI [of _ dev4]) simp
qed

theorem session_safe_witness:
  "\<exists>s1 s2 s3. freenect_open_device visit_env 0 visit_state = Some ((0, Some 0), s1) \<and>
     fold_opt (call visit_env 0) [Set_depth_buffer None, Start_depth, Process_events, Stop_depth, Stop_video] s1 = Some s2 \<and>
     freenect_shutdown visit_env s2 = Some (0, s3) \<and> cx_first (st_ctx s3) = None"
proof -
  obtain s1 dev1 where o: "freenect_open_device visit_env 0 visit_state = Some ((0, Some 0), s1)" "st_devs s1 0 = Some dev1"
    "ud_dev (dv_usb_cam dev1) \<noteq> None" "\<not> ps_running (dv_depth dev1)" "dv_depth_format dev1 = FREENECT_DEPTH_11BIT"
    "hp_avail (st_heap s1) = 10000000" using visit_open_device by blast
  let ?cs = "[Set_depth_buffer None, Start_depth, Process_events]"
  have start: "cx_first (st_ctx visit_state) = None" "submits (st_io visit_state) = {}" "heap_wf (st_heap visit_state)"
    by (simp_all add: visit_state_def core_state_def example_state_def zero_context_def submits_def heap_wf_def)
  have al: "\<forall>h. e_alloc visit_env h" and an: "\<forall>cam. answers visit_env cam"
    using camera_control_answers [OF visit_env_control] by simp_all
  have "\<forall>n s'. n < length ?cs \<and> fold_opt (call visit_env 0) (take n ?cs) s1 = Some s' \<longrightarrow> can_start visit_env 0 (?cs ! n) s'"
  proof (intro allI impI)
    fix n s'
    assume h: "n < length ?cs \<and> fold_opt (call visit_env 0) (take n ?cs) s1 = Some s'"
    show "can_start visit_env 0 (?cs ! n) s'"
    proof (cases "n = 1")
      case True
      with h o(2,4-6) show ?thesis
        by (auto simp: can_start_def freenect_set_depth_buffer_def stream_setbuf_def)
    next
      case False
      with h have "n = 0 \<or> n = 2" by auto
      then show ?thesis by (auto simp: can_start_def split: option.splits)
    qed
  qed
  from session_safe [OF visit_env_faithful al an start o(1-3) _ this] o(1) show ?thesis
    by (fastforce simp: user_ok_def)
qed

end
