(* ===== verification/Sync.thy ===== *)
theory Sync
  imports Core
begin

text \<open>
  The synchronous wrapper (wrappers/c_sync/libfreenect_sync.c): a thread runs the event loop of the
  library, the callbacks of the two frame streams put the frames into a ring of three buffers per
  stream, and the functions of the client take them out.

  The critical sections under \<open>runloop_lock\<close> and under the lock of a ring are single steps here; the
  theory Runloop models the locks themselves. The state of a kinect lives in \<open>sy_kinects\<close>; the two
  callbacks find it through the user pointer of the device, which holds the index.
\<close>

section \<open>The state\<close>

record buffer_ring =
  br_bufs :: "ptr list"
  br_timestamp :: u32
  br_valid :: bool
  br_fmt :: int
  br_res :: int

record sync_kinect =
  sk_dev :: nat
  sk_video :: buffer_ring
  sk_depth :: buffer_ring

text \<open>
  The static variables. \<open>sy_ctx\<close> tells whether \<open>ctx\<close> points to a context; \<open>sy_thread\<close> is \<open>None\<close>
  without a thread to join, \<open>Some True\<close> while it runs, \<open>Some False\<close> when it has ended.
\<close>

record sync =
  sy_kinects :: "nat \<rightharpoonup> sync_kinect"
  sy_ctx :: bool
  sy_thread_running :: bool
  sy_thread :: "bool option"
  sy_lib :: st

abbreviation MAX_KINECTS :: int where "MAX_KINECTS \<equiv> 64"

text \<open>The function pointers of the two callbacks.\<close>

abbreviation VIDEO_PRODUCER_CB :: nat where "VIDEO_PRODUCER_CB \<equiv> 1"
abbreviation DEPTH_PRODUCER_CB :: nat where "DEPTH_PRODUCER_CB \<equiv> 2"

section \<open>The rings\<close>

primrec alloc_bufs :: "nat \<Rightarrow> nat \<Rightarrow> heap \<Rightarrow> ptr list \<times> heap" where
  "alloc_bufs 0 sz h = ([], h)"
| "alloc_bufs (Suc n) sz h = (let (p, h) = malloc sz h; (ps, h) = alloc_bufs n sz h in (p # ps, h))"

text \<open>
  The size of a mode that is not in the table is indeterminate: \<open>None\<close>. A format that the switch
  does not list leaves the ring alone.
\<close>

definition alloc_buffer_ring_video ::
    "freenect_resolution \<Rightarrow> freenect_video_format \<Rightarrow> buffer_ring \<Rightarrow> heap \<Rightarrow> (int \<times> buffer_ring \<times> heap) option" where
  "alloc_buffer_ring_video res fmt buf h =
     (if fmt \<in> {FREENECT_VIDEO_RGB, FREENECT_VIDEO_BAYER, FREENECT_VIDEO_IR_8BIT, FREENECT_VIDEO_IR_10BIT,
                FREENECT_VIDEO_IR_10BIT_PACKED}
      then do {
        mode \<leftarrow> freenect_find_video_mode res fmt;
        let (bufs, h) = alloc_bufs 3 (nat (fm_bytes mode)) h;
        Some (0, \<lparr>br_bufs = bufs, br_timestamp = 0, br_valid = False, br_fmt = uint (video_format_val fmt),
                  br_res = uint (resolution_val res)\<rparr>, h)
      }
      else Some (-1, buf, h))"

definition alloc_buffer_ring_depth ::
    "freenect_resolution \<Rightarrow> freenect_depth_format \<Rightarrow> buffer_ring \<Rightarrow> heap \<Rightarrow> (int \<times> buffer_ring \<times> heap) option" where
  "alloc_buffer_ring_depth res fmt buf h =
     (if fmt \<in> {FREENECT_DEPTH_11BIT, FREENECT_DEPTH_10BIT, FREENECT_DEPTH_11BIT_PACKED, FREENECT_DEPTH_10BIT_PACKED,
                FREENECT_DEPTH_REGISTERED, FREENECT_DEPTH_MM}
      then do {
        mode \<leftarrow> freenect_find_depth_mode res fmt;
        let (bufs, h) = alloc_bufs 3 (nat (fm_bytes mode)) h;
        Some (0, \<lparr>br_bufs = bufs, br_timestamp = 0, br_valid = False, br_fmt = uint (depth_format_val fmt),
                  br_res = uint (resolution_val res)\<rparr>, h)
      }
      else Some (-1, buf, h))"

definition no_ring :: buffer_ring where
  "no_ring = \<lparr>br_bufs = [None, None, None], br_timestamp = 0, br_valid = False, br_fmt = -1, br_res = -1\<rparr>"

definition free_buffer_ring :: "buffer_ring \<Rightarrow> heap \<Rightarrow> (buffer_ring \<times> heap) option" where
  "free_buffer_ring buf h = do { h \<leftarrow> fold_opt mfree (br_bufs buf) h; Some (no_ring, h) }"

text \<open>
  The producer swaps the last two buffers and hands the new last one to the library: the result is
  that buffer and the ring. The assertion that the data are in the last buffer is the case \<open>None\<close>.
\<close>

definition producer_cb_inner :: "ptr \<Rightarrow> u32 \<Rightarrow> buffer_ring \<Rightarrow> (ptr \<times> buffer_ring) option" where
  "producer_cb_inner data timestamp buf =
     (case br_bufs buf of
        [b0, b1, b2] \<Rightarrow>
          if data \<noteq> b2 then None
          else Some (b1, buf\<lparr>br_bufs := [b0, b2, b1], br_timestamp := timestamp, br_valid := True\<rparr>)
      | _ \<Rightarrow> None)"

text \<open>The consumer swaps the first two when a frame is ready, else it waits: \<open>None\<close>.\<close>

definition sync_get :: "buffer_ring \<Rightarrow> ((ptr \<times> u32) \<times> buffer_ring) option" where
  "sync_get buf =
     (case br_bufs buf of
        [b0, b1, b2] \<Rightarrow>
          if \<not> br_valid buf then None
          else Some ((b1, br_timestamp buf), buf\<lparr>br_bufs := [b1, b0, b2], br_valid := False\<rparr>)
      | _ \<Rightarrow> None)"

section \<open>The callbacks\<close>

definition video_producer_cb :: "nat \<Rightarrow> ptr \<Rightarrow> u32 \<Rightarrow> sync \<Rightarrow> sync option" where
  "video_producer_cb d data timestamp sy = do {
     dev \<leftarrow> st_devs (sy_lib sy) d;
     i \<leftarrow> dv_user_data dev;
     k \<leftarrow> sy_kinects sy i;
     (buf, ring) \<leftarrow> producer_cb_inner data timestamp (sk_video k);
     (_, s) \<leftarrow> freenect_set_video_buffer d buf (sy_lib sy);
     Some (sy\<lparr>sy_kinects := (sy_kinects sy)(i \<mapsto> k\<lparr>sk_video := ring\<rparr>), sy_lib := s\<rparr>)
   }"

definition depth_producer_cb :: "nat \<Rightarrow> ptr \<Rightarrow> u32 \<Rightarrow> sync \<Rightarrow> sync option" where
  "depth_producer_cb d data timestamp sy = do {
     dev \<leftarrow> st_devs (sy_lib sy) d;
     i \<leftarrow> dv_user_data dev;
     k \<leftarrow> sy_kinects sy i;
     (buf, ring) \<leftarrow> producer_cb_inner data timestamp (sk_depth k);
     (_, s) \<leftarrow> freenect_set_depth_buffer d buf (sy_lib sy);
     Some (sy\<lparr>sy_kinects := (sy_kinects sy)(i \<mapsto> k\<lparr>sk_depth := ring\<rparr>), sy_lib := s\<rparr>)
   }"

text \<open>
  The events that a call of the library adds, the newest first. A packet calls the frame callback at
  most once and as its last action, so that the callback can be run after the packet.
\<close>

definition new_events :: "st \<Rightarrow> st \<Rightarrow> io list" where
  "new_events s s' = take (length (st_io s') - length (st_io s)) (st_io s')"

definition call_client :: "io \<Rightarrow> sync \<Rightarrow> sync option" where
  "call_client ev sy =
     (case ev of
        IO_depth_cb cb d data timestamp \<Rightarrow>
          if cb = DEPTH_PRODUCER_CB then depth_producer_cb d data timestamp sy else Some sy
      | IO_video_cb cb d data timestamp \<Rightarrow>
          if cb = VIDEO_PRODUCER_CB then video_producer_cb d data timestamp sy else Some sy
      | _ \<Rightarrow> Some sy)"

definition deliver :: "(st \<Rightarrow> st option) \<Rightarrow> sync \<Rightarrow> sync option" where
  "deliver process sy = do {
     s \<leftarrow> process (sy_lib sy);
     fold_opt call_client (rev (new_events (sy_lib sy) s)) (sy\<lparr>sy_lib := s\<rparr>)
   }"

text \<open>
  Any other call of the library. The frames of the other stream that complete while a stream is being
  stopped are outside of this model: \<open>None\<close>.
\<close>

definition is_frame :: "io \<Rightarrow> bool" where
  "is_frame ev = (case ev of IO_depth_cb _ _ _ _ \<Rightarrow> True | IO_video_cb _ _ _ _ \<Rightarrow> True | _ \<Rightarrow> False)"

definition frames_of :: "st \<Rightarrow> io list" where
  "frames_of s = filter is_frame (st_io s)"

definition lib_call :: "(st \<Rightarrow> ('a \<times> st) option) \<Rightarrow> sync \<Rightarrow> ('a \<times> sync) option" where
  "lib_call f sy = do {
     (r, s) \<leftarrow> f (sy_lib sy);
     if frames_of s \<noteq> frames_of (sy_lib sy) then None else Some (r, sy\<lparr>sy_lib := s\<rparr>)
   }"

definition lib_do :: "(st \<Rightarrow> st option) \<Rightarrow> sync \<Rightarrow> sync option" where
  "lib_do f sy = do { s \<leftarrow> f (sy_lib sy); Some (sy\<lparr>sy_lib := s\<rparr>) }"

section \<open>The thread\<close>

text \<open>freenect_process_events with the callbacks run where the library calls them.\<close>

definition sync_iso_callback :: "env \<Rightarrow> completion \<Rightarrow> sync \<Rightarrow> sync option" where
  "sync_iso_callback E xfer sy = do {
     let d = cp_dev xfer; let k = cp_strm xfer;
     dev \<leftarrow> st_devs (sy_lib sy) d;
     let strm = dev_isoc k dev;
     if \<not> is_dead strm \<and> cp_status xfer = Xfer_completed
     then do {
       cb \<leftarrow> is_cb strm;
       sy \<leftarrow> fold_opt (\<lambda>pkt. deliver (run_iso_cb cb d pkt)) (take (nat (is_pkts strm)) (cp_packets xfer)) sy;
       lib_do (resubmit E d k (cp_xfer xfer)) sy
     }
     else lib_do (iso_callback E xfer) sy
   }"

definition sync_process_events :: "env \<Rightarrow> sync \<Rightarrow> (int \<times> sync) option" where
  "sync_process_events E sy =
     (let s = emit (IO_handle_events (cx_usb_ctx (st_ctx (sy_lib sy)))) (sy_lib sy);
          (res, xfers) = e_events E (st_io s)
      in do {
        sy \<leftarrow> fold_opt (sync_iso_callback E) xfers (sy\<lparr>sy_lib := s\<rparr>);
        lib_call (check_devices E (cx_first (st_ctx (sy_lib sy))) res) sy
      })"

text \<open>The end of the thread: every kinect is stopped, closed and freed, then the context.\<close>

definition end_kinect :: "env \<Rightarrow> nat \<Rightarrow> sync \<Rightarrow> sync option" where
  "end_kinect E i sy =
     (case sy_kinects sy i of
        None \<Rightarrow> Some sy
      | Some k \<Rightarrow> do {
          (_, sy) \<leftarrow> lib_call (freenect_stop_video E (sk_dev k)) sy;
          (_, sy) \<leftarrow> lib_call (freenect_stop_depth E (sk_dev k)) sy;
          sy \<leftarrow> lib_do (freenect_set_user (sk_dev k) None) sy;
          (_, sy) \<leftarrow> lib_call (freenect_close_device E (sk_dev k)) sy;
          (_, h) \<leftarrow> free_buffer_ring (sk_video k) (st_heap (sy_lib sy));
          (_, h) \<leftarrow> free_buffer_ring (sk_depth k) h;
          Some (sy\<lparr>sy_kinects := (sy_kinects sy)(i := None), sy_lib := (sy_lib sy)\<lparr>st_heap := h\<rparr>\<rparr>)
        })"

definition end_thread :: "env \<Rightarrow> sync \<Rightarrow> sync option" where
  "end_thread E sy = do {
     sy \<leftarrow> fold_opt (end_kinect E) [0..<64] sy;
     (_, sy) \<leftarrow> lib_call (freenect_shutdown E) sy;
     Some (sy\<lparr>sy_ctx := False, sy_thread := Some False\<rparr>)
   }"

text \<open>One round of the loop of the thread.\<close>

definition loop_round :: "env \<Rightarrow> sync \<Rightarrow> sync option" where
  "loop_round E sy =
     (if \<not> sy_thread_running sy then end_thread E sy
      else if \<not> sy_ctx sy then None
      else do {
        (res, sy) \<leftarrow> sync_process_events E sy;
        if res \<ge> 0 then Some sy else end_thread E sy
      })"

definition init_thread :: "env \<Rightarrow> sync \<Rightarrow> (int \<times> sync) option" where
  "init_thread E sy =
     (let sy = sy\<lparr>sy_thread_running := True\<rparr>;
          ((ret, live), s) = freenect_init E None (sy_lib sy);
          sy = sy\<lparr>sy_ctx := live, sy_lib := s\<rparr>
      in if ret \<noteq> 0 then Some (ret, sy)
         else let s = freenect_select_subdevices (FREENECT_DEVICE_MOTOR OR FREENECT_DEVICE_CAMERA) (sy_lib sy);
                  (ret, s) = io_int E IO_thread_create s
              in Some (ret, sy\<lparr>sy_thread := (if ret = 0 then Some True else sy_thread sy), sy_lib := s\<rparr>))"

text \<open>Joining the thread, which ends first when it still runs; without a thread it is undefined.\<close>

definition join_thread :: "env \<Rightarrow> sync \<Rightarrow> sync option" where
  "join_thread E sy = do {
     running \<leftarrow> sy_thread sy;
     sy \<leftarrow> (if running then end_thread E sy else Some sy);
     Some (sy\<lparr>sy_thread := None, sy_lib := emit IO_thread_join (sy_lib sy)\<rparr>)
   }"

section \<open>Setting up a kinect\<close>

definition change_video_format ::
    "env \<Rightarrow> nat \<Rightarrow> freenect_resolution \<Rightarrow> freenect_video_format \<Rightarrow> sync \<Rightarrow> (int \<times> sync) option" where
  "change_video_format E i res fmt sy = do {
     k \<leftarrow> sy_kinects sy i;
     (_, sy) \<leftarrow> lib_call (freenect_stop_video E (sk_dev k)) sy;
     (ring, h) \<leftarrow> free_buffer_ring (sk_video k) (st_heap (sy_lib sy));
     (r, ring, h) \<leftarrow> alloc_buffer_ring_video res fmt ring h;
     let sy = sy\<lparr>sy_kinects := (sy_kinects sy)(i \<mapsto> k\<lparr>sk_video := ring\<rparr>), sy_lib := (sy_lib sy)\<lparr>st_heap := h\<rparr>\<rparr>;
     if r \<noteq> 0 then Some (-1, sy)
     else do {
       mode \<leftarrow> freenect_find_video_mode res fmt;
       (_, sy) \<leftarrow> lib_call (freenect_set_video_mode E (sk_dev k) mode) sy;
       (_, sy) \<leftarrow> lib_call (freenect_set_video_buffer (sk_dev k) (br_bufs ring ! 2)) sy;
       (_, sy) \<leftarrow> lib_call (freenect_start_video E (sk_dev k)) sy;
       Some (0, sy)
     }
   }"

definition change_depth_format ::
    "env \<Rightarrow> nat \<Rightarrow> freenect_resolution \<Rightarrow> freenect_depth_format \<Rightarrow> sync \<Rightarrow> (int \<times> sync) option" where
  "change_depth_format E i res fmt sy = do {
     k \<leftarrow> sy_kinects sy i;
     (_, sy) \<leftarrow> lib_call (freenect_stop_depth E (sk_dev k)) sy;
     (ring, h) \<leftarrow> free_buffer_ring (sk_depth k) (st_heap (sy_lib sy));
     (r, ring, h) \<leftarrow> alloc_buffer_ring_depth res fmt ring h;
     let sy = sy\<lparr>sy_kinects := (sy_kinects sy)(i \<mapsto> k\<lparr>sk_depth := ring\<rparr>), sy_lib := (sy_lib sy)\<lparr>st_heap := h\<rparr>\<rparr>;
     if r \<noteq> 0 then Some (-1, sy)
     else do {
       mode \<leftarrow> freenect_find_depth_mode res fmt;
       (_, sy) \<leftarrow> lib_call (freenect_set_depth_mode (sk_dev k) mode) sy;
       (_, sy) \<leftarrow> lib_call (freenect_set_depth_buffer (sk_dev k) (br_bufs ring ! 2)) sy;
       (_, sy) \<leftarrow> lib_call (freenect_start_depth E (sk_dev k)) sy;
       Some (0, sy)
     }
   }"

text \<open>The new kinect; its timestamps and valid flags are whatever malloc left.\<close>

definition fresh_ring :: "u8 \<Rightarrow> buffer_ring" where
  "fresh_ring fill = \<lparr>br_bufs = [None, None, None], br_timestamp = of_le32 fill fill fill fill, br_valid = (fill \<noteq> 0),
     br_fmt = -1, br_res = -1\<rparr>"

definition alloc_kinect :: "env \<Rightarrow> int \<Rightarrow> sync \<Rightarrow> (sync_kinect option \<times> sync) option" where
  "alloc_kinect E index sy =
     (if \<not> sy_ctx sy \<or> \<not> e_alloc E (st_io (sy_lib sy)) then None
      else do {
        ((r, p), sy) \<leftarrow> lib_call (freenect_open_device E index) sy;
        if r < 0 then Some (None, sy)
        else do {
          d \<leftarrow> p;
          sy \<leftarrow> lib_do (freenect_set_video_callback d (Some VIDEO_PRODUCER_CB)) sy;
          sy \<leftarrow> lib_do (freenect_set_depth_callback d (Some DEPTH_PRODUCER_CB)) sy;
          let ring = fresh_ring (hp_fill (st_heap (sy_lib sy)));
          Some (Some \<lparr>sk_dev = d, sk_video = ring, sk_depth = ring\<rparr>, sy)
        }
      })"

datatype sync_fmt = Fmt_video freenect_video_format | Fmt_depth freenect_depth_format

fun fmt_val :: "sync_fmt \<Rightarrow> int" where
  "fmt_val (Fmt_video f) = uint (video_format_val f)"
| "fmt_val (Fmt_depth f) = uint (depth_format_val f)"

fun ring_of :: "sync_fmt \<Rightarrow> sync_kinect \<Rightarrow> buffer_ring" where
  "ring_of (Fmt_video f) k = sk_video k"
| "ring_of (Fmt_depth f) k = sk_depth k"

fun change_format :: "env \<Rightarrow> nat \<Rightarrow> freenect_resolution \<Rightarrow> sync_fmt \<Rightarrow> sync \<Rightarrow> (int \<times> sync) option" where
  "change_format E i res (Fmt_video f) sy = change_video_format E i res f sy"
| "change_format E i res (Fmt_depth f) sy = change_depth_format E i res f sy"

definition needs_format :: "freenect_resolution \<Rightarrow> sync_fmt \<Rightarrow> buffer_ring \<Rightarrow> bool" where
  "needs_format res fmt buf \<longleftrightarrow> br_fmt buf \<noteq> fmt_val fmt \<or> br_res buf \<noteq> uint (resolution_val res)"

text \<open>The result of changing the format is ignored.\<close>

definition setup_kinect :: "env \<Rightarrow> nat \<Rightarrow> freenect_resolution \<Rightarrow> sync_fmt \<Rightarrow> sync \<Rightarrow> (int \<times> sync) option" where
  "setup_kinect E i res fmt sy = do {
     let prev = sy_thread_running sy;
     (ret, sy) \<leftarrow> (if \<not> prev then init_thread E sy else Some (0, sy));
     if ret \<noteq> 0 then Some (ret, sy)
     else do {
       (k, sy) \<leftarrow> (case sy_kinects sy i of None \<Rightarrow> alloc_kinect E (int i) sy | Some k \<Rightarrow> Some (Some k, sy));
       case k of
         None \<Rightarrow>
           if \<not> prev then do { sy \<leftarrow> join_thread E (sy\<lparr>sy_thread_running := False\<rparr>); Some (-1, sy) } else Some (-1, sy)
       | Some k \<Rightarrow> do {
           sy \<leftarrow> lib_do (freenect_set_user (sk_dev k) (Some i)) (sy\<lparr>sy_kinects := (sy_kinects sy)(i \<mapsto> k)\<rparr>);
           sy \<leftarrow> (if needs_format res fmt (ring_of fmt k) then map_option snd (change_format E i res fmt sy) else Some sy);
           Some (0, sy)
         }
     }
   }"

section \<open>The functions of the client\<close>

datatype sync_result = Ret int | Ret_frame ptr u32 | Waiting

text \<open>Whether the ring of the kinect can be waited for.\<close>

definition get_frame ::
    "env \<Rightarrow> int \<Rightarrow> freenect_resolution \<Rightarrow> sync_fmt \<Rightarrow> sync \<Rightarrow> (bool \<times> sync) option" where
  "get_frame E index res fmt sy =
     (if index < 0 \<or> index \<ge> MAX_KINECTS then Some (False, sy)
      else do {
        let i = nat index;
        (ret, sy) \<leftarrow> (if \<not> sy_thread_running sy \<or>
              (case sy_kinects sy i of None \<Rightarrow> True | Some k \<Rightarrow> needs_format res fmt (ring_of fmt k))
           then setup_kinect E i res fmt sy else Some (0, sy));
        Some (ret = 0, sy)
      })"

definition freenect_sync_get_video_with_res ::
    "env \<Rightarrow> int \<Rightarrow> freenect_resolution \<Rightarrow> freenect_video_format \<Rightarrow> sync \<Rightarrow> (sync_result \<times> sync) option" where
  "freenect_sync_get_video_with_res E index res fmt sy = do {
     (ok, sy) \<leftarrow> get_frame E index res (Fmt_video fmt) sy;
     if \<not> ok then Some (Ret (-1), sy)
     else do {
       k \<leftarrow> sy_kinects sy (nat index);
       Some (case sync_get (sk_video k) of
               None \<Rightarrow> (Waiting, sy)
             | Some ((data, ts), ring) \<Rightarrow>
                 (Ret_frame data ts, sy\<lparr>sy_kinects := (sy_kinects sy)(nat index \<mapsto> k\<lparr>sk_video := ring\<rparr>)\<rparr>))
     }
   }"

definition freenect_sync_get_depth_with_res ::
    "env \<Rightarrow> int \<Rightarrow> freenect_resolution \<Rightarrow> freenect_depth_format \<Rightarrow> sync \<Rightarrow> (sync_result \<times> sync) option" where
  "freenect_sync_get_depth_with_res E index res fmt sy = do {
     (ok, sy) \<leftarrow> get_frame E index res (Fmt_depth fmt) sy;
     if \<not> ok then Some (Ret (-1), sy)
     else do {
       k \<leftarrow> sy_kinects sy (nat index);
       Some (case sync_get (sk_depth k) of
               None \<Rightarrow> (Waiting, sy)
             | Some ((data, ts), ring) \<Rightarrow>
                 (Ret_frame data ts, sy\<lparr>sy_kinects := (sy_kinects sy)(nat index \<mapsto> k\<lparr>sk_depth := ring\<rparr>)\<rparr>))
     }
   }"

definition freenect_sync_get_video :: "env \<Rightarrow> int \<Rightarrow> freenect_video_format \<Rightarrow> sync \<Rightarrow> (sync_result \<times> sync) option" where
  "freenect_sync_get_video E index fmt sy = freenect_sync_get_video_with_res E index FREENECT_RESOLUTION_MEDIUM fmt sy"

definition freenect_sync_get_depth :: "env \<Rightarrow> int \<Rightarrow> freenect_depth_format \<Rightarrow> sync \<Rightarrow> (sync_result \<times> sync) option" where
  "freenect_sync_get_depth E index fmt sy = freenect_sync_get_depth_with_res E index FREENECT_RESOLUTION_MEDIUM fmt sy"

definition runloop_enter :: "env \<Rightarrow> int \<Rightarrow> sync \<Rightarrow> (int \<times> sync) option" where
  "runloop_enter E index sy =
     (if index < 0 \<or> index \<ge> MAX_KINECTS then Some (-1, sy)
      else if \<not> sy_thread_running sy \<or> sy_kinects sy (nat index) = None
      then do {
        (ret, sy) \<leftarrow> setup_kinect E (nat index) FREENECT_RESOLUTION_MEDIUM (Fmt_depth FREENECT_DEPTH_11BIT) sy;
        Some (if ret \<noteq> 0 then -1 else 0, sy)
      }
      else Some (0, sy))"

text \<open>The last three of the client's functions enter the loop, make one call and leave it.\<close>

definition in_runloop :: "env \<Rightarrow> int \<Rightarrow> (nat \<Rightarrow> sync \<Rightarrow> ('a \<times> sync) option) \<Rightarrow> sync \<Rightarrow> ((int \<times> 'a option) \<times> sync) option" where
  "in_runloop E index f sy = do {
     (ret, sy) \<leftarrow> runloop_enter E index sy;
     if ret \<noteq> 0 then Some ((-1, None), sy)
     else do {
       k \<leftarrow> sy_kinects sy (nat index);
       (r, sy) \<leftarrow> f (sk_dev k) sy;
       Some ((0, Some r), sy)
     }
   }"

definition freenect_sync_get_tilt_state :: "env \<Rightarrow> int \<Rightarrow> sync \<Rightarrow> ((int \<times> freenect_raw_tilt_state option) \<times> sync) option" where
  "freenect_sync_get_tilt_state E index =
     in_runloop E index (\<lambda>d sy. do {
       (_, sy) \<leftarrow> lib_call (freenect_update_tilt_state E d) sy;
       state \<leftarrow> freenect_get_tilt_state d (sy_lib sy);
       Some (state, sy)
     })"

definition freenect_sync_set_tilt_degs :: "env \<Rightarrow> int \<Rightarrow> int \<Rightarrow> sync \<Rightarrow> ((int \<times> int option) \<times> sync) option" where
  "freenect_sync_set_tilt_degs E angle index =
     in_runloop E index (\<lambda>d. lib_call (freenect_set_tilt_degs E d (D_num (real_of_int angle))))"

definition freenect_sync_set_led :: "env \<Rightarrow> freenect_led_options \<Rightarrow> int \<Rightarrow> sync \<Rightarrow> ((int \<times> int option) \<times> sync) option" where
  "freenect_sync_set_led E led index = in_runloop E index (\<lambda>d. lib_call (freenect_set_led E d led))"

definition freenect_sync_camera_to_world ::
    "env \<Rightarrow> int \<Rightarrow> int \<Rightarrow> int \<Rightarrow> int \<Rightarrow> sync \<Rightarrow> ((int \<times> (real \<times> real) option) \<times> sync) option" where
  "freenect_sync_camera_to_world E cx cy wz index =
     in_runloop E index (\<lambda>d sy. do {
       dev \<leftarrow> st_devs (sy_lib sy) d;
       w \<leftarrow> freenect_camera_to_world E dev cx cy wz;
       Some (w, sy)
     })"

definition freenect_sync_stop :: "env \<Rightarrow> sync \<Rightarrow> sync option" where
  "freenect_sync_stop E sy =
     (if sy_thread_running sy then join_thread E (sy\<lparr>sy_thread_running := False\<rparr>) else Some sy)"

end
