(* ===== verification/SyncRing.thy ===== *)
theory SyncRing
  imports Sync
begin

text \<open>
  The rings of the synchronous wrapper: what a packet, the callbacks and the client do to the three
  buffers of a stream. The interface \<open>frame_source\<close> states what the wrapper needs of a frame stream of
  the library; it holds for the depth stream and for the video stream.
\<close>

section \<open>What a packet does to the memory and to the client\<close>

lemma depth_convert_same:
  assumes "depth_convert dev h = Some h'"
  shows "same_blocks (ps_proc_buf (dv_depth dev)) h h'"
  using assms
  by (cases "dv_depth_format dev")
    (auto simp: depth_convert_def Let_def same_blocks_refl split: Option.bind_splits dest: mem_write_same_blocks)

lemma video_convert_same:
  assumes "video_convert dev h = Some h'"
  shows "same_blocks (ps_proc_buf (dv_video dev)) h h'"
  using assms
  by (cases "dv_video_format dev")
    (auto simp: video_convert_def Let_def same_blocks_refl split: Option.bind_splits dest: mem_write_same_blocks)

text \<open>The blocks that may change: those of the raw and of the processed frame.\<close>

definition same_outside :: "ptr list \<Rightarrow> heap \<Rightarrow> heap \<Rightarrow> bool" where
  "same_outside ps h h' \<longleftrightarrow> (\<forall>a. Some a \<notin> set ps \<longrightarrow> hp_blocks h' a = hp_blocks h a)"

lemma same_outside_refl [simp]: "same_outside ps h h"
  by (simp add: same_outside_def)

lemma same_outside_trans: "same_outside ps h h' \<Longrightarrow> same_outside ps h' h'' \<Longrightarrow> same_outside ps h h''"
  by (simp add: same_outside_def)

lemma same_blocks_outside: "same_blocks p h h' \<Longrightarrow> p \<in> set ps \<Longrightarrow> same_outside ps h h'"
  by (auto simp: same_blocks_def same_outside_def)

text \<open>The events of a packet: chunks, and then at most one frame.\<close>

definition packet_events :: "(ptr \<Rightarrow> u32 \<Rightarrow> io) option \<Rightarrow> ptr \<Rightarrow> io list \<Rightarrow> bool" where
  "packet_events frame proc evs \<longleftrightarrow>
     list_all (\<lambda>ev. \<not> is_frame ev) evs \<or>
     (\<exists>f ts evs'. frame = Some f \<and> evs = f proc ts # evs' \<and> list_all (\<lambda>ev. \<not> is_frame ev) evs')"

lemma chunk_events: "\<exists>evs. st_io (chunk_event cb u c s) = evs @ st_io s \<and> list_all (\<lambda>ev. \<not> is_frame ev) evs"
  by (auto simp: chunk_event_def emit_def is_frame_def split: option.splits
      intro: exI [of _ "[]"] exI [of _ "[IO_chunk_cb a b c' d e f]" for a b c' d e f])

lemma depth_process_effect:
  assumes dev: "st_devs s d = Some dev" and inv: "depth_inv dev (st_heap s)" and run: "depth_process d pkt s = Some s'"
  shows "same_outside [ps_raw_buf (dv_depth dev), ps_proc_buf (dv_depth dev)] (st_heap s) (st_heap s') \<and>
    (\<exists>evs. st_io s' = evs @ st_io s \<and>
      packet_events (map_option (\<lambda>c. IO_depth_cb c d) (dv_depth_cb dev)) (ps_proc_buf (dv_depth dev)) evs)"
proof (cases "pkt = [] \<or> \<not> ps_running (dv_depth dev)")
  case True
  then have "depth_process d pkt s = Some s" using dev by (auto simp: depth_process_def)
  then have "s' = s" using run by simp
  then show ?thesis by (simp add: packet_events_def)
next
  case False
  obtain r strm h1 c where p: "stream_process (dv_depth dev) pkt (dv_depth_chunk_cb dev \<noteq> None) (st_heap s) = Some (r, strm, h1, c)"
    and g: "geom strm = geom (dv_depth dev)" and sb: "same_blocks (ps_raw_buf (dv_depth dev)) (st_heap s) h1"
    by (rule stream_process_safe_aux [OF depth_inv_wf [OF inv]])
  have proc: "ps_proc_buf strm = ps_proc_buf (dv_depth dev)" using g by (simp add: geom_def)
  let ?ps = "[ps_raw_buf (dv_depth dev), ps_proc_buf (dv_depth dev)]"
  let ?dev = "dev\<lparr>dv_depth := strm\<rparr>"
  let ?s1 = "chunk_event (dv_depth_chunk_cb dev) (dv_user_data dev) c (set_dev d ?dev (s\<lparr>st_heap := h1\<rparr>))"
  obtain evs where evs: "st_io ?s1 = evs @ st_io s" "list_all (\<lambda>ev. \<not> is_frame ev) evs"
    using chunk_events [of "dv_depth_chunk_cb dev" "dv_user_data dev" c "set_dev d ?dev (s\<lparr>st_heap := h1\<rparr>)"] by auto
  have o1: "same_outside ?ps (st_heap s) h1" using sb by (rule same_blocks_outside) simp
  show ?thesis
  proof (cases "r = 0")
    case True
    then have "s' = ?s1" using dev False p run by (simp add: depth_process_def)
    then show ?thesis using o1 evs by (auto simp: packet_events_def)
  next
    case r: False
    obtain h2 where h2: "depth_convert ?dev h1 = Some h2"
      and s': "s' = (case dv_depth_cb dev of None \<Rightarrow> ?s1\<lparr>st_heap := h2\<rparr>
        | Some cb \<Rightarrow> emit (IO_depth_cb cb d (ps_proc_buf strm) (ps_timestamp strm)) (?s1\<lparr>st_heap := h2\<rparr>))"
      using dev False p r run by (auto simp: depth_process_def Let_def split: Option.bind_splits)
    have "same_outside ?ps h1 h2" using depth_convert_same [OF h2] proc by (intro same_blocks_outside) auto
    then have "same_outside ?ps (st_heap s) (st_heap s')"
      using o1 same_outside_trans s' by (auto split: option.split)
    moreover have "\<exists>evs. st_io s' = evs @ st_io s \<and>
        packet_events (map_option (\<lambda>c. IO_depth_cb c d) (dv_depth_cb dev)) (ps_proc_buf (dv_depth dev)) evs"
      using evs s' proc by (cases "dv_depth_cb dev") (auto simp: packet_events_def emit_def)
    ultimately show ?thesis by blast
  qed
qed

lemma video_process_effect:
  assumes dev: "st_devs s d = Some dev" and inv: "video_inv dev (st_heap s)" and run: "video_process d pkt s = Some s'"
  shows "same_outside [ps_raw_buf (dv_video dev), ps_proc_buf (dv_video dev)] (st_heap s) (st_heap s') \<and>
    (\<exists>evs. st_io s' = evs @ st_io s \<and>
      packet_events (map_option (\<lambda>c. IO_video_cb c d) (dv_video_cb dev)) (ps_proc_buf (dv_video dev)) evs)"
proof (cases "pkt = [] \<or> \<not> ps_running (dv_video dev)")
  case True
  then have "video_process d pkt s = Some s" using dev by (auto simp: video_process_def)
  then have "s' = s" using run by simp
  then show ?thesis by (simp add: packet_events_def)
next
  case False
  obtain r strm h1 c where p: "stream_process (dv_video dev) pkt (dv_video_chunk_cb dev \<noteq> None) (st_heap s) = Some (r, strm, h1, c)"
    and g: "geom strm = geom (dv_video dev)" and sb: "same_blocks (ps_raw_buf (dv_video dev)) (st_heap s) h1"
    by (rule stream_process_safe_aux [OF video_inv_wf [OF inv]])
  have proc: "ps_proc_buf strm = ps_proc_buf (dv_video dev)" using g by (simp add: geom_def)
  let ?ps = "[ps_raw_buf (dv_video dev), ps_proc_buf (dv_video dev)]"
  let ?dev = "dev\<lparr>dv_video := strm\<rparr>"
  let ?s1 = "chunk_event (dv_video_chunk_cb dev) (dv_user_data dev) c (set_dev d ?dev (s\<lparr>st_heap := h1\<rparr>))"
  obtain evs where evs: "st_io ?s1 = evs @ st_io s" "list_all (\<lambda>ev. \<not> is_frame ev) evs"
    using chunk_events [of "dv_video_chunk_cb dev" "dv_user_data dev" c "set_dev d ?dev (s\<lparr>st_heap := h1\<rparr>)"] by auto
  have o1: "same_outside ?ps (st_heap s) h1" using sb by (rule same_blocks_outside) simp
  show ?thesis
  proof (cases "r = 0")
    case True
    then have "s' = ?s1" using dev False p run by (simp add: video_process_def)
    then show ?thesis using o1 evs by (auto simp: packet_events_def)
  next
    case r: False
    obtain h2 where h2: "video_convert ?dev h1 = Some h2"
      and s': "s' = (case dv_video_cb dev of None \<Rightarrow> ?s1\<lparr>st_heap := h2\<rparr>
        | Some cb \<Rightarrow> emit (IO_video_cb cb d (ps_proc_buf strm) (ps_timestamp strm)) (?s1\<lparr>st_heap := h2\<rparr>))"
      using dev False p r run by (auto simp: video_process_def Let_def split: Option.bind_splits)
    have "same_outside ?ps h1 h2" using video_convert_same [OF h2] proc by (intro same_blocks_outside) auto
    then have "same_outside ?ps (st_heap s) (st_heap s')"
      using o1 same_outside_trans s' by (auto split: option.split)
    moreover have "\<exists>evs. st_io s' = evs @ st_io s \<and>
        packet_events (map_option (\<lambda>c. IO_video_cb c d) (dv_video_cb dev)) (ps_proc_buf (dv_video dev)) evs"
      using evs s' proc by (cases "dv_video_cb dev") (auto simp: packet_events_def emit_def)
    ultimately show ?thesis by blast
  qed
qed

section \<open>Another buffer of the same size\<close>

text \<open>What stream_setbuf makes of a running stream.\<close>

definition with_buffer :: "nat \<Rightarrow> packet_stream \<Rightarrow> packet_stream" where
  "with_buffer b strm = strm\<lparr>ps_usr_buf := Some b, ps_proc_buf := Some b,
     ps_raw_buf := (if ps_split_bufs strm then ps_raw_buf strm else Some b)\<rparr>"

lemma setbuf_running: "ps_running strm \<Longrightarrow> stream_setbuf strm (Some b) = (0, with_buffer b strm)"
  by (simp add: stream_setbuf_def with_buffer_def)

definition same_size :: "nat \<Rightarrow> ptr \<Rightarrow> heap \<Rightarrow> bool" where
  "same_size b p h \<longleftrightarrow> map_option length (hp_blocks h b) = map_option length (mem_block p h)"

lemma wf_stream_with_buffer:
  assumes "wf_stream strm h" and "same_size b (ps_proc_buf strm) h"
    and "\<not> ps_split_bufs strm \<longrightarrow> ps_raw_buf strm = ps_proc_buf strm"
  shows "wf_stream (with_buffer b strm) h"
  using assms by (auto simp: wf_stream_def wf_geom_def wf_buf_def with_buffer_def same_size_def)

lemma bufs_ok_with_buffer:
  assumes "bufs_ok strm r p h" and "same_size b (ps_proc_buf strm) h"
    and "\<not> ps_split_bufs strm \<longrightarrow> ps_raw_buf strm = ps_proc_buf strm" and "ps_split_bufs strm \<longrightarrow> ps_raw_buf strm \<noteq> Some b"
  shows "bufs_ok (with_buffer b strm) r p h"
  using assms wf_stream_with_buffer [OF _ assms(2,3)]
  by (auto simp: bufs_ok_def with_buffer_def same_size_def)

lemma depth_inv_with_buffer:
  assumes "depth_inv dev h" and "same_size b (ps_proc_buf (dv_depth dev)) h"
    and "\<not> ps_split_bufs (dv_depth dev) \<longrightarrow> ps_raw_buf (dv_depth dev) = ps_proc_buf (dv_depth dev)"
    and "ps_split_bufs (dv_depth dev) \<longrightarrow> ps_raw_buf (dv_depth dev) \<noteq> Some b"
  shows "depth_inv (dev\<lparr>dv_depth := with_buffer b (dv_depth dev)\<rparr>) h"
  using assms(1) bufs_ok_with_buffer [OF _ assms(2-4)] wf_stream_with_buffer [OF _ assms(2,3)]
  by (auto simp: depth_inv_def split: freenect_depth_format.splits)

lemma video_inv_with_buffer:
  assumes "video_inv dev h" and "same_size b (ps_proc_buf (dv_video dev)) h"
    and "\<not> ps_split_bufs (dv_video dev) \<longrightarrow> ps_raw_buf (dv_video dev) = ps_proc_buf (dv_video dev)"
    and "ps_split_bufs (dv_video dev) \<longrightarrow> ps_raw_buf (dv_video dev) \<noteq> Some b"
  shows "video_inv (dev\<lparr>dv_video := with_buffer b (dv_video dev)\<rparr>) h"
  using assms(1) bufs_ok_with_buffer [OF _ assms(2-4)] wf_stream_with_buffer [OF _ assms(2,3)]
  by (auto simp: video_inv_def Let_def freenect_get_current_video_mode_def
      split: freenect_video_format.splits option.splits)

section \<open>The interface of a frame stream\<close>

text \<open>
  The ring of kinect \<open>i\<close> is in order: three different buffers of one size, the last of which is the
  one that the running stream fills, and the callback of the stream is the producer.
\<close>

definition channel_ok ::
    "(freenect_device \<Rightarrow> packet_stream) \<Rightarrow> (freenect_device \<Rightarrow> heap \<Rightarrow> bool) \<Rightarrow> (freenect_device \<Rightarrow> nat option) \<Rightarrow> nat \<Rightarrow>
     (sync_kinect \<Rightarrow> buffer_ring) \<Rightarrow> nat \<Rightarrow> sync \<Rightarrow> bool" where
  "channel_ok get ok cb producer_id ring i sy \<longleftrightarrow>
     (\<exists>k dev b0 b1 b2 n. sy_kinects sy i = Some k \<and> st_devs (sy_lib sy) (sk_dev k) = Some dev \<and>
       dv_user_data dev = Some i \<and> cb dev = Some producer_id \<and> ps_running (get dev) \<and> ok dev (st_heap (sy_lib sy)) \<and>
       br_bufs (ring k) = [Some b0, Some b1, Some b2] \<and> distinct [b0, b1, b2] \<and>
       (\<forall>b \<in> {b0, b1, b2}. map_option length (hp_blocks (st_heap (sy_lib sy)) b) = Some n) \<and>
       ps_proc_buf (get dev) = Some b2 \<and>
       (if ps_split_bufs (get dev) then ps_raw_buf (get dev) \<notin> {Some b0, Some b1, Some b2}
        else ps_raw_buf (get dev) = Some b2))"

text \<open>What the client holds, and the frame that waits for it with its timestamp.\<close>

definition held :: "buffer_ring \<Rightarrow> heap \<Rightarrow> u8 list option" where
  "held ring h = mem_block (br_bufs ring ! 0) h"

definition mail :: "buffer_ring \<Rightarrow> heap \<Rightarrow> (u8 list \<times> u32) option" where
  "mail ring h =
     (if br_valid ring then map_option (\<lambda>blk. (blk, br_timestamp ring)) (mem_block (br_bufs ring ! 1) h) else None)"

lemma no_frames_call: "list_all (\<lambda>ev. \<not> is_frame ev) evs \<Longrightarrow> fold_opt call_client (rev evs) sy = Some sy"
proof (induction evs)
  case (Cons ev evs)
  then have "call_client ev sy = Some sy" by (simp add: call_client_def is_frame_def split: io.splits)
  with Cons show ?case by (simp add: fold_opt_append)
qed simp

lemma new_events_append: "st_io s' = evs @ st_io s \<Longrightarrow> new_events s s' = evs"
  by (simp add: new_events_def)

text \<open>
  The frame that a run of the library from \<open>s\<close> to \<open>s'\<close> completed: what is in the buffer that the last
  frame callback was given, and its timestamp.
\<close>

type_synonym frame = "u8 list \<times> u32"

fun frame_event :: "heap \<Rightarrow> io \<Rightarrow> frame option" where
  "frame_event h (IO_depth_cb cb d data ts) = map_option (\<lambda>blk. (blk, ts)) (mem_block data h)"
| "frame_event h (IO_video_cb cb d data ts) = map_option (\<lambda>blk. (blk, ts)) (mem_block data h)"
| "frame_event h _ = None"

definition frame_completed :: "st \<Rightarrow> st \<Rightarrow> frame option" where
  "frame_completed s s' =
     (case filter is_frame (new_events s s') of [] \<Rightarrow> None | ev # _ \<Rightarrow> frame_event (st_heap s') ev)"

text \<open>
  A packet for the stream, or the client taking a frame; a client that would wait changes nothing.
  What is seen of a step: the frame that the library completed with the packet, or the frame that the
  client got, \<open>None\<close> when it has to wait.
\<close>

datatype ring_action = Packet "u8 list" | Take

datatype ring_event = Completed "frame option" | Got "frame option"

fun ring_step ::
    "(nat \<Rightarrow> u8 list \<Rightarrow> st \<Rightarrow> st option) \<Rightarrow> (sync_kinect \<Rightarrow> buffer_ring) \<Rightarrow> (buffer_ring \<Rightarrow> sync_kinect \<Rightarrow> sync_kinect) \<Rightarrow>
     nat \<Rightarrow> ring_action \<Rightarrow> sync \<Rightarrow> (ring_event \<times> sync) option" where
  "ring_step process ring put_ring i (Packet pkt) sy = do {
     k \<leftarrow> sy_kinects sy i;
     s \<leftarrow> process (sk_dev k) pkt (sy_lib sy);
     sy' \<leftarrow> deliver (process (sk_dev k) pkt) sy;
     Some (Completed (frame_completed (sy_lib sy) s), sy')
   }"
| "ring_step process ring put_ring i Take sy = do {
     k \<leftarrow> sy_kinects sy i;
     Some (case sync_get (ring k) of
             None \<Rightarrow> (Got None, sy)
           | Some ((data, ts), r) \<Rightarrow>
               (Got (map_option (\<lambda>blk. (blk, ts)) (mem_block data (st_heap (sy_lib sy)))),
                sy\<lparr>sy_kinects := (sy_kinects sy)(i \<mapsto> put_ring r k)\<rparr>))
   }"

primrec ring_run ::
    "(nat \<Rightarrow> u8 list \<Rightarrow> st \<Rightarrow> st option) \<Rightarrow> (sync_kinect \<Rightarrow> buffer_ring) \<Rightarrow> (buffer_ring \<Rightarrow> sync_kinect \<Rightarrow> sync_kinect) \<Rightarrow>
     nat \<Rightarrow> ring_action list \<Rightarrow> sync \<Rightarrow> (ring_event list \<times> sync) option" where
  "ring_run process ring put_ring i [] sy = Some ([], sy)"
| "ring_run process ring put_ring i (act # acts) sy = do {
     (ev, sy) \<leftarrow> ring_step process ring put_ring i act sy;
     (evs, sy) \<leftarrow> ring_run process ring put_ring i acts sy;
     Some (ev # evs, sy)
   }"

text \<open>
  The contract of a ring: the block that the client holds, and a mailbox for one frame. A frame that
  the library completes replaces the one in the box. The client gets the frame in the box, which
  empties it, and only while the box is empty has to wait; every other behaviour is refused.
\<close>

type_synonym mailbox = "u8 list option \<times> frame option"

fun mailbox_step :: "ring_event \<Rightarrow> mailbox \<Rightarrow> mailbox option" where
  "mailbox_step (Completed None) (h, m) = Some (h, m)"
| "mailbox_step (Completed (Some f)) (h, m) = Some (h, Some f)"
| "mailbox_step (Got None) (h, None) = Some (h, None)"
| "mailbox_step (Got (Some f)) (h, Some f') = (if f = f' then Some (Some (fst f), None) else None)"
| "mailbox_step (Got None) (h, Some f) = None"
| "mailbox_step (Got (Some f)) (h, None) = None"

definition mailbox_of :: "(sync_kinect \<Rightarrow> buffer_ring) \<Rightarrow> nat \<Rightarrow> sync \<Rightarrow> mailbox" where
  "mailbox_of ring i sy =
     (case sy_kinects sy i of
        None \<Rightarrow> (None, None)
      | Some k \<Rightarrow> (held (ring k) (st_heap (sy_lib sy)), mail (ring k) (st_heap (sy_lib sy))))"

locale frame_source =
  fixes process :: "nat \<Rightarrow> u8 list \<Rightarrow> st \<Rightarrow> st option"
    and set_buffer :: "nat \<Rightarrow> ptr \<Rightarrow> st \<Rightarrow> (int \<times> st) option"
    and get :: "freenect_device \<Rightarrow> packet_stream"
    and put :: "packet_stream \<Rightarrow> freenect_device \<Rightarrow> freenect_device"
    and ok :: "freenect_device \<Rightarrow> heap \<Rightarrow> bool"
    and cb :: "freenect_device \<Rightarrow> nat option"
    and frame :: "nat \<Rightarrow> nat \<Rightarrow> ptr \<Rightarrow> u32 \<Rightarrow> io"
    and producer_id :: nat
    and producer :: "nat \<Rightarrow> ptr \<Rightarrow> u32 \<Rightarrow> sync \<Rightarrow> sync option"
    and ring :: "sync_kinect \<Rightarrow> buffer_ring"
    and put_ring :: "buffer_ring \<Rightarrow> sync_kinect \<Rightarrow> sync_kinect"
  assumes get_put: "get (put x dev) = x"
    and put_put: "put x (put y dev) = put x dev"
    and put_keeps: "cb (put x dev) = cb dev" "dv_user_data (put x dev) = dv_user_data dev"
    and ring_put: "ring (put_ring r k) = r" "sk_dev (put_ring r k) = sk_dev k"
    and process_ok: "st_devs s d = Some dev \<Longrightarrow> ok dev (st_heap s) \<Longrightarrow>
      \<exists>s' strm. process d pkt s = Some s' \<and> st_devs s' = (st_devs s)(d \<mapsto> put strm dev) \<and>
        geom strm = geom (get dev) \<and> ok (put strm dev) (st_heap s') \<and> same_lengths (st_heap s) (st_heap s')"
    and process_effect: "st_devs s d = Some dev \<Longrightarrow> ok dev (st_heap s) \<Longrightarrow> process d pkt s = Some s' \<Longrightarrow>
      same_outside [ps_raw_buf (get dev), ps_proc_buf (get dev)] (st_heap s) (st_heap s') \<and>
      (\<exists>evs. st_io s' = evs @ st_io s \<and> packet_events (map_option (\<lambda>c. frame c d) (cb dev)) (ps_proc_buf (get dev)) evs)"
    and set_buffer_eq: "st_devs s d = Some dev \<Longrightarrow> ps_running (get dev) \<Longrightarrow>
      set_buffer d (Some b) s = Some (0, set_dev d (put (with_buffer b (get dev)) dev) s)"
    and ok_with_buffer: "ok dev h \<Longrightarrow> same_size b (ps_proc_buf (get dev)) h \<Longrightarrow>
      (\<not> ps_split_bufs (get dev) \<longrightarrow> ps_raw_buf (get dev) = ps_proc_buf (get dev)) \<Longrightarrow>
      (ps_split_bufs (get dev) \<longrightarrow> ps_raw_buf (get dev) \<noteq> Some b) \<Longrightarrow> ok (put (with_buffer b (get dev)) dev) h"
    and producer_eq: "producer d data ts sy = do {
      dev \<leftarrow> st_devs (sy_lib sy) d;
      i \<leftarrow> dv_user_data dev;
      k \<leftarrow> sy_kinects sy i;
      (buf, r) \<leftarrow> producer_cb_inner data ts (ring k);
      (_, s) \<leftarrow> set_buffer d buf (sy_lib sy);
      Some (sy\<lparr>sy_kinects := (sy_kinects sy)(i \<mapsto> put_ring r k), sy_lib := s\<rparr>)
    }"
    and client: "call_client (frame producer_id d data ts) sy = producer d data ts sy"
    and frame_frame: "is_frame (frame c d data ts)" "frame_event h (frame c d data ts) = map_option (\<lambda>blk. (blk, ts)) (mem_block data h)"
begin

abbreviation channel :: "nat \<Rightarrow> sync \<Rightarrow> bool" where
  "channel \<equiv> channel_ok get ok cb producer_id ring"

lemma channelI:
  assumes "sy_kinects sy i = Some k" and "st_devs (sy_lib sy) (sk_dev k) = Some dev"
    and "dv_user_data dev = Some i \<and> cb dev = Some producer_id \<and> ps_running (get dev) \<and> ok dev (st_heap (sy_lib sy))"
    and "br_bufs (ring k) = [Some b0, Some b1, Some b2]" and "distinct [b0, b1, b2]"
    and "\<forall>b \<in> {b0, b1, b2}. map_option length (hp_blocks (st_heap (sy_lib sy)) b) = Some n"
    and "ps_proc_buf (get dev) = Some b2"
    and "if ps_split_bufs (get dev) then ps_raw_buf (get dev) \<notin> {Some b0, Some b1, Some b2} else ps_raw_buf (get dev) = Some b2"
  shows "channel i sy"
  unfolding channel_ok_def using assms by blast

lemma deliver_ok:
  assumes ch: "channel i sy" and k: "sy_kinects sy i = Some k"
  shows "\<exists>sy' k'. deliver (process (sk_dev k) pkt) sy = Some sy' \<and> sy_kinects sy' = (sy_kinects sy)(i \<mapsto> k') \<and>
    channel i sy' \<and> held (ring k') (st_heap (sy_lib sy')) = held (ring k) (st_heap (sy_lib sy)) \<and>
    (\<exists>s. process (sk_dev k) pkt (sy_lib sy) = Some s \<and> mail (ring k') (st_heap (sy_lib sy')) =
      (case frame_completed (sy_lib sy) s of None \<Rightarrow> mail (ring k) (st_heap (sy_lib sy)) | Some f \<Rightarrow> Some f))"
proof -
  let ?d = "sk_dev k"
  from ch k obtain dev b0 b1 b2 n where dev: "st_devs (sy_lib sy) ?d = Some dev" "dv_user_data dev = Some i"
      "cb dev = Some producer_id" "ps_running (get dev)" "ok dev (st_heap (sy_lib sy))"
    and bufs: "br_bufs (ring k) = [Some b0, Some b1, Some b2]" "distinct [b0, b1, b2]"
      "\<forall>b \<in> {b0, b1, b2}. map_option length (hp_blocks (st_heap (sy_lib sy)) b) = Some n"
    and strm: "ps_proc_buf (get dev) = Some b2"
      "if ps_split_bufs (get dev) then ps_raw_buf (get dev) \<notin> {Some b0, Some b1, Some b2} else ps_raw_buf (get dev) = Some b2"
    unfolding channel_ok_def by auto
  obtain s' strm' where p: "process ?d pkt (sy_lib sy) = Some s'" "st_devs s' = (st_devs (sy_lib sy))(?d \<mapsto> put strm' dev)"
    "geom strm' = geom (get dev)" "ok (put strm' dev) (st_heap s')" "same_lengths (st_heap (sy_lib sy)) (st_heap s')"
    using process_ok [OF dev(1,5)] by blast
  have geo: "ps_proc_buf strm' = Some b2" "ps_split_bufs strm' = ps_split_bufs (get dev)"
    "ps_raw_buf strm' = ps_raw_buf (get dev)" "ps_running strm'"
    using p(3) strm(1) dev(4) by (auto simp: geom_def)
  from process_effect [OF dev(1,5) p(1)] obtain evs where
    out: "same_outside [ps_raw_buf (get dev), Some b2] (st_heap (sy_lib sy)) (st_heap s')" and
    evs: "st_io s' = evs @ st_io (sy_lib sy)" "packet_events (Some (frame producer_id ?d)) (Some b2) evs"
    using strm(1) dev(3) by auto
  have raw: "ps_raw_buf (get dev) \<noteq> Some b0" "ps_raw_buf (get dev) \<noteq> Some b1"
    using strm(2) bufs(2) by (auto split: if_splits)
  have same: "hp_blocks (st_heap s') b0 = hp_blocks (st_heap (sy_lib sy)) b0"
    "hp_blocks (st_heap s') b1 = hp_blocks (st_heap (sy_lib sy)) b1"
    using out raw bufs(2) by (auto simp: same_outside_def)
  have len: "\<forall>b \<in> {b0, b1, b2}. map_option length (hp_blocks (st_heap s') b) = Some n"
    using bufs(3) p(5) by (simp add: same_lengths_def)
  have dev': "st_devs s' ?d = Some (put strm' dev)" using p(2) by simp
  have split': "if ps_split_bufs strm' then ps_raw_buf strm' \<notin> {Some b0, Some b1, Some b2} else ps_raw_buf strm' = Some b2"
    using strm(2) geo by (auto split: if_splits)
  from evs(2) consider (quiet) "list_all (\<lambda>ev. \<not> is_frame ev) evs"
    | (frame) ts evs' where "evs = frame producer_id ?d (Some b2) ts # evs'" "list_all (\<lambda>ev. \<not> is_frame ev) evs'"
    unfolding packet_events_def by auto
  then show ?thesis
  proof cases
    case quiet
    let ?sy = "sy\<lparr>sy_lib := s'\<rparr>"
    have "deliver (process ?d pkt) sy = Some ?sy"
      using p(1) no_frames_call [OF quiet] by (simp add: deliver_def new_events_append [OF evs(1)])
    moreover have "channel i ?sy"
      by (rule channelI [of _ _ k "put strm' dev" b0 b1 b2 n])
        (use k dev' dev bufs(1,2) len p(4) split' geo in \<open>auto simp: get_put put_keeps split: if_splits\<close>)
    moreover have "held (ring k) (st_heap s') = held (ring k) (st_heap (sy_lib sy))"
      "mail (ring k) (st_heap s') = mail (ring k) (st_heap (sy_lib sy))"
      using bufs(1) same by (simp_all add: held_def mail_def)
    moreover have "frame_completed (sy_lib sy) s' = None"
      using quiet by (auto simp: frame_completed_def new_events_append [OF evs(1)] list_all_iff split: list.split dest!: filter_eq_ConsD)
    ultimately show ?thesis using k p(1) by (intro exI [of _ ?sy] exI [of _ k]) auto
  next
    case frame
    let ?r = "(ring k)\<lparr>br_bufs := [Some b0, Some b2, Some b1], br_timestamp := ts, br_valid := True\<rparr>"
    let ?dev = "put (with_buffer b1 strm') (put strm' dev)"
    let ?sy = "sy\<lparr>sy_kinects := (sy_kinects sy)(i \<mapsto> put_ring ?r k), sy_lib := set_dev ?d ?dev s'\<rparr>"
    have inner: "producer_cb_inner (Some b2) ts (ring k) = Some (Some b1, ?r)"
      using bufs(1) by (simp add: producer_cb_inner_def)
    have sb: "set_buffer ?d (Some b1) s' = Some (0, set_dev ?d ?dev s')"
      using set_buffer_eq [OF dev', of b1] geo(4) by (simp add: get_put)
    have prod: "producer ?d (Some b2) ts (sy\<lparr>sy_lib := s'\<rparr>) = Some ?sy"
      unfolding producer_eq using dev' dev(2) k inner sb by (simp add: put_keeps)
    have "fold_opt call_client (rev evs) (sy\<lparr>sy_lib := s'\<rparr>) = Some ?sy"
      using no_frames_call [OF frame(2)] prod frame(1) by (simp add: fold_opt_append client)
    then have "deliver (process ?d pkt) sy = Some ?sy"
      using p(1) by (simp add: deliver_def new_events_append [OF evs(1)])
    moreover have "channel i ?sy"
    proof -
      have "ok ?dev (st_heap s')"
        using ok_with_buffer [OF p(4), of b1] len split' geo bufs(2) by (auto simp: get_put same_size_def split: if_splits)
      then show ?thesis
        by (intro channelI [of _ _ "put_ring ?r k" ?dev b0 b2 b1 n])
          (use k dev bufs(2) len split' geo in \<open>auto simp: get_put put_keeps ring_put with_buffer_def split: if_splits\<close>)
    qed
    moreover have "held ?r (st_heap s') = held (ring k) (st_heap (sy_lib sy))"
      using bufs(1) same by (simp add: held_def)
    moreover obtain blk where blk: "hp_blocks (st_heap s') b2 = Some blk" using len by auto
    moreover have "frame_completed (sy_lib sy) s' = Some (blk, ts)"
      using blk by (simp add: frame_completed_def new_events_append [OF evs(1)] frame(1) frame_frame)
    ultimately show ?thesis using p(1) bufs(1)
      by (intro exI [of _ ?sy] exI [of _ "put_ring ?r k"]) (simp add: ring_put mail_def)
  qed
qed

lemma get_ok:
  assumes ch: "channel i sy" and k: "sy_kinects sy i = Some k"
  shows "case sync_get (ring k) of
      None \<Rightarrow> mail (ring k) (st_heap (sy_lib sy)) = None
    | Some ((data, ts), r) \<Rightarrow> channel i (sy\<lparr>sy_kinects := (sy_kinects sy)(i \<mapsto> put_ring r k)\<rparr>) \<and>
        mail r (st_heap (sy_lib sy)) = None \<and>
        (\<exists>blk. mem_block data (st_heap (sy_lib sy)) = Some blk \<and> mail (ring k) (st_heap (sy_lib sy)) = Some (blk, ts) \<and>
          held r (st_heap (sy_lib sy)) = Some blk)"
proof -
  from ch k obtain dev b0 b1 b2 n where dev: "st_devs (sy_lib sy) (sk_dev k) = Some dev" "dv_user_data dev = Some i"
      "cb dev = Some producer_id" "ps_running (get dev)" "ok dev (st_heap (sy_lib sy))"
    and bufs: "br_bufs (ring k) = [Some b0, Some b1, Some b2]" "distinct [b0, b1, b2]"
      "\<forall>b \<in> {b0, b1, b2}. map_option length (hp_blocks (st_heap (sy_lib sy)) b) = Some n"
    and strm: "ps_proc_buf (get dev) = Some b2"
      "if ps_split_bufs (get dev) then ps_raw_buf (get dev) \<notin> {Some b0, Some b1, Some b2} else ps_raw_buf (get dev) = Some b2"
    unfolding channel_ok_def by auto
  show ?thesis
  proof (cases "br_valid (ring k)")
    case True
    let ?r = "(ring k)\<lparr>br_bufs := [Some b1, Some b0, Some b2], br_valid := False\<rparr>"
    have "sync_get (ring k) = Some ((Some b1, br_timestamp (ring k)), ?r)"
      using True bufs(1) by (simp add: sync_get_def)
    moreover have "channel i (sy\<lparr>sy_kinects := (sy_kinects sy)(i \<mapsto> put_ring ?r k)\<rparr>)"
      by (intro channelI [of _ _ "put_ring ?r k" dev b1 b0 b2 n])
        (use dev bufs(2,3) strm in \<open>auto simp: ring_put split: if_splits\<close>)
    moreover obtain blk where "hp_blocks (st_heap (sy_lib sy)) b1 = Some blk" using bufs(3) by auto
    ultimately show ?thesis using True bufs(1) by (simp add: mail_def held_def)
  next
    case False
    then show ?thesis using bufs(1) by (simp add: sync_get_def mail_def)
  qed
qed

lemma channel_kinect: "channel i sy \<Longrightarrow> \<exists>k. sy_kinects sy i = Some k"
  unfolding channel_ok_def by blast

lemma step_refines:
  assumes ch: "channel i sy"
  shows "\<exists>ev sy'. ring_step process ring put_ring i act sy = Some (ev, sy') \<and> channel i sy' \<and>
    mailbox_step ev (mailbox_of ring i sy) = Some (mailbox_of ring i sy')"
proof -
  obtain k where k: "sy_kinects sy i = Some k" using channel_kinect [OF ch] by blast
  show ?thesis
  proof (cases act)
    case (Packet pkt)
    from deliver_ok [OF ch k, of pkt] obtain sy' k' s where d: "deliver (process (sk_dev k) pkt) sy = Some sy'"
      "sy_kinects sy' = (sy_kinects sy)(i \<mapsto> k')" "channel i sy'"
      "held (ring k') (st_heap (sy_lib sy')) = held (ring k) (st_heap (sy_lib sy))"
      "process (sk_dev k) pkt (sy_lib sy) = Some s"
      "mail (ring k') (st_heap (sy_lib sy')) =
        (case frame_completed (sy_lib sy) s of None \<Rightarrow> mail (ring k) (st_heap (sy_lib sy)) | Some f \<Rightarrow> Some f)" by blast
    have "mailbox_step (Completed (frame_completed (sy_lib sy) s)) (mailbox_of ring i sy) = Some (mailbox_of ring i sy')"
      using d(2,4,6) k by (cases "frame_completed (sy_lib sy) s") (simp_all add: mailbox_of_def)
    with d(1,3,5) k Packet show ?thesis by simp
  next
    case Take
    show ?thesis
    proof (cases "sync_get (ring k)")
      case None
      with get_ok [OF ch k] have "mail (ring k) (st_heap (sy_lib sy)) = None" by simp
      with None Take k ch show ?thesis by (simp add: mailbox_of_def)
    next
      case (Some x)
      then obtain data ts r where x: "sync_get (ring k) = Some ((data, ts), r)" by (cases x) auto
      let ?sy = "sy\<lparr>sy_kinects := (sy_kinects sy)(i \<mapsto> put_ring r k)\<rparr>"
      from get_ok [OF ch k] x obtain blk where g: "channel i ?sy" "mail (ring k) (st_heap (sy_lib sy)) = Some (blk, ts)"
        "mail r (st_heap (sy_lib sy)) = None" "held r (st_heap (sy_lib sy)) = Some blk"
        "mem_block data (st_heap (sy_lib sy)) = Some blk"
        by auto
      have "mailbox_step (Got (Some (blk, ts))) (mailbox_of ring i sy) = Some (mailbox_of ring i ?sy)"
        using k g by (simp add: mailbox_of_def ring_put)
      with Take k g(1,5) x show ?thesis by simp
    qed
  qed
qed

lemma run_refines:
  assumes "channel i sy"
  shows "\<exists>evs sy'. ring_run process ring put_ring i acts sy = Some (evs, sy') \<and> channel i sy' \<and>
    fold_opt mailbox_step evs (mailbox_of ring i sy) = Some (mailbox_of ring i sy')"
  using assms
proof (induction acts arbitrary: sy)
  case (Cons act acts)
  from step_refines [OF Cons.prems, of act] obtain ev s1 where s1: "ring_step process ring put_ring i act sy = Some (ev, s1)"
    "channel i s1" "mailbox_step ev (mailbox_of ring i sy) = Some (mailbox_of ring i s1)" by blast
  from Cons.IH [OF s1(2)] s1(1,3) show ?case by auto
qed simp

end

interpretation depth_ring: frame_source depth_process freenect_set_depth_buffer dv_depth "\<lambda>x dev. dev\<lparr>dv_depth := x\<rparr>"
    depth_inv dv_depth_cb IO_depth_cb DEPTH_PRODUCER_CB depth_producer_cb sk_depth "\<lambda>r k. k\<lparr>sk_depth := r\<rparr>"
proof (unfold_locales, goal_cases)
  case (7 s d dev pkt)
  then show ?case using depth_process_ok by blast
next
  case (8 s d dev pkt s')
  then show ?case by (rule depth_process_effect)
next
  case (10 dev h b)
  then show ?case by (rule depth_inv_with_buffer)
qed (simp_all add: freenect_set_depth_buffer_def setbuf_running depth_producer_cb_def call_client_def is_frame_def)

interpretation video_ring: frame_source video_process freenect_set_video_buffer dv_video "\<lambda>x dev. dev\<lparr>dv_video := x\<rparr>"
    video_inv dv_video_cb IO_video_cb VIDEO_PRODUCER_CB video_producer_cb sk_video "\<lambda>r k. k\<lparr>sk_video := r\<rparr>"
proof (unfold_locales, goal_cases)
  case (7 s d dev pkt)
  then show ?case using video_process_ok by blast
next
  case (8 s d dev pkt s')
  then show ?case by (rule video_process_effect)
next
  case (10 dev h b)
  then show ?case by (rule video_inv_with_buffer)
qed (simp_all add: freenect_set_video_buffer_def setbuf_running video_producer_cb_def call_client_def is_frame_def)

section \<open>Properties of the rings\<close>

abbreviation depth_channel :: "nat \<Rightarrow> sync \<Rightarrow> bool" where
  "depth_channel \<equiv> channel_ok dv_depth depth_inv dv_depth_cb DEPTH_PRODUCER_CB sk_depth"

abbreviation video_channel :: "nat \<Rightarrow> sync \<Rightarrow> bool" where
  "video_channel \<equiv> channel_ok dv_video video_inv dv_video_cb VIDEO_PRODUCER_CB sk_video"

text \<open>
  A packet for a kinect whose depth ring is in order is always processed: the assertion of the
  producer holds and nothing leaves the buffers. Whatever the packet is, the buffer that the client
  got from its last call keeps its contents, and the frame that waits for it is the old one, or the one
  that the library completed with this packet.
\<close>

theorem sync_depth_packet_safe:
  assumes "depth_channel i sy" and "sy_kinects sy i = Some k"
  shows "\<exists>sy' k'. deliver (depth_process (sk_dev k) pkt) sy = Some sy' \<and> sy_kinects sy' = (sy_kinects sy)(i \<mapsto> k') \<and>
    depth_channel i sy' \<and> held (sk_depth k') (st_heap (sy_lib sy')) = held (sk_depth k) (st_heap (sy_lib sy)) \<and>
    (\<exists>s. depth_process (sk_dev k) pkt (sy_lib sy) = Some s \<and> mail (sk_depth k') (st_heap (sy_lib sy')) =
      (case frame_completed (sy_lib sy) s of None \<Rightarrow> mail (sk_depth k) (st_heap (sy_lib sy)) | Some f \<Rightarrow> Some f))"
  using assms by (rule depth_ring.deliver_ok)

text \<open>
  C5. The ring of the video stream implements a mailbox for one frame. Any sequence of packets and of
  calls of the client runs to its end and keeps the ring in order. Its frames and results are those of
  the mailbox: a frame that the library completes, with the bytes and the timestamp that the library
  gave it, replaces the waiting one; the client gets exactly the waiting frame, once, and waits only
  when there is none; and the bytes that it holds change only when it takes the next frame.
\<close>

theorem sync_video_refines_mailbox:
  assumes "video_channel i sy"
  shows "\<exists>evs sy'. ring_run video_process sk_video (\<lambda>r k. k\<lparr>sk_video := r\<rparr>) i acts sy = Some (evs, sy') \<and>
    video_channel i sy' \<and> fold_opt mailbox_step evs (mailbox_of sk_video i sy) = Some (mailbox_of sk_video i sy')"
  using assms by (rule video_ring.run_refines)

section \<open>Witnesses\<close>

text \<open>A kinect with both streams running into rings of their own.\<close>

definition ring_dev :: freenect_device where
  "ring_dev = live_device\<lparr>dv_user_data := Some 0, dv_depth_cb := Some DEPTH_PRODUCER_CB, dv_video_cb := Some VIDEO_PRODUCER_CB\<rparr>"

definition ring_heap :: heap where
  "ring_heap = \<lparr>hp_blocks = [0 \<mapsto> replicate 422400 0, 1 \<mapsto> replicate 614400 0, 2 \<mapsto> replicate 307200 0,
      3 \<mapsto> replicate 921600 0, 4 \<mapsto> replicate 614400 0, 5 \<mapsto> replicate 614400 0,
      6 \<mapsto> replicate 921600 0, 7 \<mapsto> replicate 921600 0], hp_next = 8, hp_avail = 10000000, hp_fill = 0\<rparr>"

definition ring_kinect :: sync_kinect where
  "ring_kinect = \<lparr>sk_dev = 0,
     sk_video = \<lparr>br_bufs = [Some 6, Some 7, Some 3], br_timestamp = 0, br_valid = False, br_fmt = 0, br_res = 1\<rparr>,
     sk_depth = \<lparr>br_bufs = [Some 4, Some 5, Some 1], br_timestamp = 0, br_valid = False, br_fmt = 0, br_res = 1\<rparr>\<rparr>"

definition ring_sync :: sync where
  "ring_sync = \<lparr>sy_kinects = [0 \<mapsto> ring_kinect], sy_ctx = True, sy_thread_running = True, sy_thread = Some True,
     sy_lib = live_state\<lparr>st_heap := ring_heap, st_devs := [0 \<mapsto> ring_dev]\<rparr>\<rparr>"

lemma ring_depth_inv: "depth_inv ring_dev ring_heap"
  by (simp add: depth_inv_def ring_dev_def live_device_def zero_device_def ring_heap_def bufs_ok_def wf_stream_def
      wf_geom_def wf_buf_def live_stream_def zero_packet_stream_def)

lemma ring_video_inv: "video_inv ring_dev ring_heap"
proof -
  have m: "freenect_get_current_video_mode ring_dev = Some (supported_video_modes ! 1)"
    by (simp add: freenect_get_current_video_mode_def ring_dev_def live_device_def zero_device_def
        freenect_find_video_mode_def supported_video_modes_def mode_row_def MAKE_RESERVED_def)
  have wh: "nat (fm_width (supported_video_modes ! 1) * fm_height (supported_video_modes ! 1)) = 307200"
    by (simp add: supported_video_modes_def mode_row_def)
  have f: "dv_video_format ring_dev = FREENECT_VIDEO_RGB" by (simp add: ring_dev_def live_device_def zero_device_def)
  have "bufs_ok (dv_video ring_dev) 307200 (3 * 307200) ring_heap"
    by (simp add: ring_dev_def live_device_def zero_device_def ring_heap_def bufs_ok_def wf_stream_def
        wf_geom_def wf_buf_def live_stream_def zero_packet_stream_def)
  then show ?thesis by (simp only: video_inv_def m f wh Let_def option.case freenect_video_format.case)
qed

lemma ring_sync_simps:
  "sy_kinects ring_sync 0 = Some ring_kinect" "st_devs (sy_lib ring_sync) 0 = Some ring_dev" "sk_dev ring_kinect = 0"
  "st_heap (sy_lib ring_sync) = ring_heap"
  by (simp_all add: ring_sync_def ring_kinect_def)

lemma ring_depth_channel: "depth_channel 0 ring_sync"
  by (rule depth_ring.channelI [of _ _ ring_kinect ring_dev 4 5 1 614400])
    (use ring_depth_inv in \<open>simp_all add: ring_sync_simps\<close>,
     simp_all add: ring_dev_def ring_kinect_def ring_heap_def live_device_def zero_device_def live_stream_def zero_packet_stream_def)

lemma ring_video_channel: "video_channel 0 ring_sync"
  by (rule video_ring.channelI [of _ _ ring_kinect ring_dev 6 7 3 921600])
    (use ring_video_inv in \<open>simp_all add: ring_sync_simps\<close>,
     simp_all add: ring_dev_def ring_kinect_def ring_heap_def live_device_def zero_device_def live_stream_def zero_packet_stream_def)

theorem sync_depth_packet_safe_witness:
  "\<exists>sy' k'. deliver (depth_process 0 [0x52, 0x42, 0, 0x71]) ring_sync = Some sy' \<and> sy_kinects sy' 0 = Some k' \<and>
    depth_channel 0 sy' \<and> held (sk_depth k') (st_heap (sy_lib sy')) = Some (replicate 614400 0)"
proof -
  have "held (sk_depth ring_kinect) (st_heap (sy_lib ring_sync)) = Some (replicate 614400 0)"
    by (simp add: held_def ring_sync_simps) (simp add: ring_kinect_def ring_heap_def)
  with sync_depth_packet_safe [OF ring_depth_channel ring_sync_simps(1), of "[0x52, 0x42, 0, 0x71]"] show ?thesis
    unfolding ring_sync_simps(3) by auto
qed

theorem sync_video_refines_mailbox_witness:
  "\<exists>evs sy'. ring_run video_process sk_video (\<lambda>r k. k\<lparr>sk_video := r\<rparr>) 0
      [Packet [0x52, 0x42, 0, 0x81], Take, Packet []] ring_sync = Some (evs, sy') \<and> video_channel 0 sy' \<and>
    fold_opt mailbox_step evs (Some (replicate 921600 0), None) = Some (mailbox_of sk_video 0 sy')"
proof -
  have "mailbox_of sk_video 0 ring_sync = (Some (replicate 921600 0), None)"
    by (simp add: mailbox_of_def held_def mail_def ring_sync_simps) (simp add: ring_kinect_def ring_heap_def)
  with sync_video_refines_mailbox [OF ring_video_channel, of "[Packet [0x52, 0x42, 0, 0x81], Take, Packet []]"] show ?thesis
    by metis
qed

end
