(* ===== verification/SyncSetup.thy ===== *)
theory SyncSetup
  imports SyncRing
begin

text \<open>
  Setting up and ending the synchronous wrapper: a depth format that is listed puts the ring in order,
  and what happens on the error paths that the wrapper does not check.
\<close>

section \<open>Calls that complete no frame\<close>

named_theorems keeps_frames \<open>functions that emit no frame\<close>

lemma frames_simps [simp]:
  "\<not> is_frame ev \<Longrightarrow> frames_of (emit ev s) = frames_of s"
  "frames_of (set_dev d dev s) = frames_of s"
  "frames_of (s\<lparr>st_heap := h\<rparr>) = frames_of s"
  by (simp_all add: frames_of_def emit_def)

lemma is_frame_simps [simp]:
  "\<not> is_frame (IO_control h a b v i bs n)" "\<not> is_frame (IO_usleep t)" "\<not> is_frame (IO_alloc_transfer m)"
  "\<not> is_frame (IO_submit d k j)" "\<not> is_frame (IO_max_iso_packet_size h ep)"
  by (simp_all add: is_frame_def)

lemma after_polls_frames [simp]: "frames_of (after_polls cam n s) = frames_of s"
  by (induction n arbitrary: s) simp_all

lemma await_reply_frames [keeps_frames]: "await_reply E cam s = Some (r, s') \<Longrightarrow> frames_of s' = frames_of s"
  by (drule await_reply_SomeD) auto

lemma send_cmd_frames [keeps_frames]: "send_cmd E d cmd buf n s = Some (r, s') \<Longrightarrow> frames_of s' = frames_of s"
  by (auto simp: send_cmd_def fnusb_control_def Let_def split: Option.bind_splits if_splits option.splits
      dest!: await_reply_frames)

lemma write_register_frames [keeps_frames]: "write_register E d reg v s = Some (r, s') \<Longrightarrow> frames_of s' = frames_of s"
  by (auto simp: write_register_def split: Option.bind_splits if_splits dest!: send_cmd_frames)

lemma fold_frames:
  assumes "\<And>x s s'. f x s = Some s' \<Longrightarrow> frames_of s' = frames_of s"
  shows "fold_opt f xs s = Some s' \<Longrightarrow> frames_of s' = frames_of s"
  by (induction xs arbitrary: s) (auto dest: assms split: Option.bind_splits)

lemma write_regs_frames [keeps_frames]: "write_regs E d regs s = Some s' \<Longrightarrow> frames_of s' = frames_of s"
  unfolding write_regs_def by (erule fold_frames [rotated]) (auto dest: keeps_frames)

lemma upd_isoc_frames [keeps_frames]: "upd_isoc d k f s = Some s' \<Longrightarrow> frames_of s' = frames_of s"
  by (auto simp: upd_isoc_def split: Option.bind_splits)

lemma start_xfer_frames: "start_xfer E d k pkts i s = Some s' \<Longrightarrow> frames_of s' = frames_of s"
  by (auto simp: start_xfer_def io_int_def Let_def split: Option.bind_splits if_splits dest!: keeps_frames)

lemma fold_start_frames [keeps_frames]: "fold_opt (start_xfer E d k pkts) is s = Some s' \<Longrightarrow> frames_of s' = frames_of s"
  by (erule fold_frames [rotated]) (rule start_xfer_frames)

lemma start_iso_frames [keeps_frames]:
  "fnusb_start_iso E d k cb ep xfers pkts len s = Some (r, s') \<Longrightarrow> frames_of s' = frames_of s"
  by (auto simp: fnusb_start_iso_def split: Option.bind_splits prod.splits dest!: keeps_frames)

lemma start_depth_frames [keeps_frames]: "freenect_start_depth E d s = Some (r, s') \<Longrightarrow> frames_of s' = frames_of s"
  by (auto simp: freenect_start_depth_def depth_run_def fnusb_get_max_iso_packet_size_def io_int_def Let_def
      split: Option.bind_splits if_splits prod.splits dest!: keeps_frames)

lemma lib_call_quiet:
  "f (sy_lib sy) = Some (r, s) \<Longrightarrow> frames_of s = frames_of (sy_lib sy) \<Longrightarrow> lib_call f sy = Some (r, sy\<lparr>sy_lib := s\<rparr>)"
  by (simp add: lib_call_def)

section \<open>Allocating a ring\<close>

lemma alloc_bufs_grows:
  "alloc_bufs n sz h = (ps, h') \<Longrightarrow> grows h0 qs h \<Longrightarrow> grows h0 (ps @ qs) h'"
proof (induction n arbitrary: ps h qs)
  case (Suc n)
  obtain p h1 where m: "malloc sz h = (p, h1)" by fastforce
  from Suc.prems(1) m obtain ps1 where a: "alloc_bufs n sz h1 = (ps1, h')" and ps: "ps = p # ps1"
    by (auto split: prod.splits)
  have "grows h0 (p # qs) h1" by (rule grows_malloc [OF Suc.prems(2) m])
  from Suc.IH [OF a this] have "grows h0 (ps1 @ p # qs) h'" .
  then show ?case unfolding ps by (rule grows_mset [rotated]) simp
qed simp

text \<open>
  Allocating a depth ring and freeing it again leaves the memory as it was, also when some of the
  three allocations fail.
\<close>

theorem depth_ring_roundtrip:
  assumes wf: "heap_wf h" and alloc: "alloc_buffer_ring_depth res fmt buf h = Some (0, ring, h1)"
  shows "\<exists>h2. free_buffer_ring ring h1 = Some (no_ring, h2) \<and> hp_blocks h2 = hp_blocks h \<and> \<not> br_valid ring"
proof -
  from alloc have "(\<exists>n. alloc_bufs 3 n h = (br_bufs ring, h1)) \<and> \<not> br_valid ring"
    by (auto simp: alloc_buffer_ring_depth_def split: if_split_asm Option.bind_split_asm prod.split_asm)
  then obtain n where a: "alloc_bufs 3 n h = (br_bufs ring, h1)" and v: "\<not> br_valid ring" by blast
  have g: "grows h (br_bufs ring) h1" using alloc_bufs_grows [OF a grows_refl [OF wf]] by simp
  from owned_mfree_all [OF grows_owned [OF g]] obtain h2 where
    "fold_opt mfree (br_bufs ring) h1 = Some h2" "hp_blocks h2 = without (br_bufs ring) (hp_blocks h1)" by blast
  with g v show ?thesis by (auto simp: free_buffer_ring_def grows_def)
qed

section \<open>Starting a stream with its ring\<close>

lemma alloc_three:
  assumes wf: "heap_wf h" and n: "3 * n \<le> hp_avail h"
  shows "\<exists>b0 b1 b2 h'. alloc_bufs 3 n h = ([Some b0, Some b1, Some b2], h') \<and> distinct [b0, b1, b2] \<and> heap_wf h' \<and>
    hp_avail h' = hp_avail h - 3 * n \<and> (\<forall>b \<in> {b0, b1, b2}. hp_blocks h' b = Some (replicate n (hp_fill h)))"
proof -
  have "n \<le> hp_avail h" "n \<le> hp_avail h - n" "n \<le> hp_avail h - n - n" using n by auto
  then show ?thesis using wf
    by (auto simp: alloc_bufs.simps numeral_3_eq_3 malloc_def heap_wf_def)
qed

lemma grows_old:
  assumes "grows h0 ps h" and "hp_blocks h0 b = Some blk"
  shows "hp_blocks h b = Some blk \<and> Some b \<notin> set ps"
  using assms by (auto simp: grows_def without_def fun_eq_iff split: if_splits dest!: spec [of _ b])

text \<open>The frame size of the modes of the table.\<close>

definition depth_frame_size :: "freenect_depth_format \<Rightarrow> nat" where
  "depth_frame_size fmt = (case fmt of FREENECT_DEPTH_11BIT_PACKED \<Rightarrow> 422400
     | FREENECT_DEPTH_10BIT_PACKED \<Rightarrow> 384000 | _ \<Rightarrow> 614400)"

lemma depth_frame_size_le: "0 < depth_frame_size fmt" "depth_frame_size fmt \<le> 614400"
  by (cases fmt; simp add: depth_frame_size_def)+

lemma depth_mode_medium:
  assumes "fmt \<noteq> FREENECT_DEPTH_DUMMY"
  shows "\<exists>mode. freenect_find_depth_mode FREENECT_RESOLUTION_MEDIUM fmt = Some mode \<and>
    fm_bytes mode = int (depth_frame_size fmt) \<and> set_depth_mode_check mode = Some (FREENECT_RESOLUTION_MEDIUM, fmt)"
  using assms
  by (cases fmt)
    (auto simp: freenect_find_depth_mode_def supported_depth_modes_def mode_row_def MAKE_RESERVED_def Let_def
      set_depth_mode_check_def RESERVED_TO_RESOLUTION_def RESERVED_TO_FORMAT_def resolution_of_def depth_format_of_def
      depth_frame_size_def)

lemma depth_sizes_frame:
  assumes "dv_depth_resolution dev = FREENECT_RESOLUTION_MEDIUM" and "dv_depth_format dev \<noteq> FREENECT_DEPTH_DUMMY"
  shows "\<forall>rlen plen. depth_sizes dev = Some (rlen, plen) \<longrightarrow> plen \<le> int (depth_frame_size (dv_depth_format dev))"
  using depth_sizes_medium [OF assms] assms(2)
  by (auto simp: depth_frame_size_def split: freenect_depth_format.splits)

text \<open>
  C22. The first request for depth frames of a kinect whose camera answers puts its ring in order, in
  each of the six formats that the wrapper lists: after change_depth_format the stream runs into the
  last of three new buffers of the frame's size and the producer is its callback, which is what the
  packets and the client rely on afterwards. Registered depth needs a calibration that can be used
  (\<open>registration_ok\<close>).
\<close>

theorem change_depth_format_channel:
  assumes k: "sy_kinects sy i = Some k" "br_bufs (sk_depth k) = [None, None, None]"
    and dev: "st_devs (sy_lib sy) (sk_dev k) = Some dev" "\<not> ps_running (dv_depth dev)"
      "dv_user_data dev = Some i" "dv_depth_cb dev = Some DEPTH_PRODUCER_CB"
    and fmt: "fmt \<noteq> FREENECT_DEPTH_DUMMY"
    and reg: "fmt = FREENECT_DEPTH_REGISTERED \<longrightarrow> registration_ok (dv_registration (freenect_init_registration E dev))"
    and mem: "heap_wf (st_heap (sy_lib sy))" "2880000 \<le> hp_avail (st_heap (sy_lib sy))"
    and cam: "ud_dev (dv_usb_cam dev) \<noteq> None" "answers E (dv_usb_cam dev)" "\<forall>h. e_alloc E h"
  shows "\<exists>sy'. change_depth_format E i FREENECT_RESOLUTION_MEDIUM fmt sy = Some (0, sy') \<and> depth_channel i sy'"
proof -
  let ?d = "sk_dev k" and ?n = "depth_frame_size fmt"
  obtain mode where mode: "freenect_find_depth_mode FREENECT_RESOLUTION_MEDIUM fmt = Some mode" "fm_bytes mode = int ?n"
    "set_depth_mode_check mode = Some (FREENECT_RESOLUTION_MEDIUM, fmt)" using depth_mode_medium [OF fmt] by blast
  from alloc_three [OF mem(1), of ?n] mem(2) depth_frame_size_le(2) [of fmt] obtain b0 b1 b2 h where
    a: "alloc_bufs 3 ?n (st_heap (sy_lib sy)) = ([Some b0, Some b1, Some b2], h)" "distinct [b0, b1, b2]" "heap_wf h"
      "hp_avail h = hp_avail (st_heap (sy_lib sy)) - 3 * ?n"
      "\<forall>b \<in> {b0, b1, b2}. hp_blocks h b = Some (replicate ?n (hp_fill (st_heap (sy_lib sy))))"
    by fastforce
  let ?ring = "\<lparr>br_bufs = [Some b0, Some b1, Some b2], br_timestamp = 0, br_valid = False,
    br_fmt = uint (depth_format_val fmt), br_res = uint (resolution_val FREENECT_RESOLUTION_MEDIUM)\<rparr>"
  let ?s0 = "(sy_lib sy)\<lparr>st_heap := h\<rparr>"
  let ?k = "k\<lparr>sk_depth := ?ring\<rparr>"
  let ?dev = "dev\<lparr>dv_depth_format := fmt, dv_depth_resolution := FREENECT_RESOLUTION_MEDIUM,
    dv_depth := (dv_depth dev)\<lparr>ps_usr_buf := Some b2\<rparr>\<rparr>"
  let ?s1 = "set_dev ?d (dev\<lparr>dv_depth_format := fmt, dv_depth_resolution := FREENECT_RESOLUTION_MEDIUM\<rparr>) ?s0"
  let ?s2 = "set_dev ?d ?dev ?s1"
  have s2: "st_devs ?s2 ?d = Some ?dev" "st_heap ?s2 = h" by simp_all
  have sm: "start_mem (dv_depth ?dev) (int ?n) 1036800 (st_heap ?s2)"
    using a mem(2) depth_frame_size_le(2) [of fmt] by (simp add: start_mem_def)
  have sz: "\<forall>rlen plen. depth_sizes ?dev = Some (rlen, plen) \<longrightarrow> plen \<le> int ?n"
    using depth_sizes_frame [of ?dev] fmt by simp
  have c: "\<not> ps_running (dv_depth ?dev)" "dv_depth_resolution ?dev = FREENECT_RESOLUTION_MEDIUM"
    "dv_depth_format ?dev \<noteq> FREENECT_DEPTH_DUMMY"
    "dv_depth_format ?dev = FREENECT_DEPTH_REGISTERED \<longrightarrow> registration_ok (dv_registration (freenect_init_registration E ?dev))"
    "ud_dev (dv_usb_cam ?dev) \<noteq> None" "answers E (dv_usb_cam ?dev)"
    using dev(2) fmt cam reg by (auto simp: freenect_init_registration_def)
  from freenect_start_depth_ok [OF s2(1) c(1-4) sm sz c(5,6) cam(3)] obtain s3 dev' where
    3: "freenect_start_depth E ?d ?s2 = Some (0, s3)" "st_devs s3 = (st_devs ?s2)(?d \<mapsto> dev')"
      "ps_running (dv_depth dev')" "depth_inv dev' (st_heap s3)" "grows (st_heap ?s2) (depth_ptrs dev') (st_heap s3)"
      "ps_usr_buf (dv_depth ?dev) \<noteq> None \<longrightarrow> ps_proc_buf (dv_depth dev') = ps_usr_buf (dv_depth ?dev)"
      "\<not> ps_split_bufs (dv_depth dev') \<longrightarrow> ps_raw_buf (dv_depth dev') = ps_proc_buf (dv_depth dev')"
      "dv_user_data dev' = dv_user_data ?dev" "dv_depth_cb dev' = dv_depth_cb ?dev" by blast
  have proc: "ps_proc_buf (dv_depth dev') = Some b2" using 3(6) by simp
  have grown: "grows h (depth_ptrs dev') (st_heap s3)" using 3(5) by simp
  let ?sy0 = "sy\<lparr>sy_kinects := (sy_kinects sy)(i \<mapsto> ?k), sy_lib := ?s0\<rparr>"
  let ?sy3 = "?sy0\<lparr>sy_lib := s3\<rparr>"
  have "lib_call (freenect_stop_depth E ?d) sy = Some (-1, sy)"
    using dev by (simp add: lib_call_def freenect_stop_depth_def)
  moreover have "free_buffer_ring (sk_depth k) (st_heap (sy_lib sy)) = Some (no_ring, st_heap (sy_lib sy))"
    using k(2) by (simp add: free_buffer_ring_def mfree_def)
  moreover have "alloc_buffer_ring_depth FREENECT_RESOLUTION_MEDIUM fmt no_ring (st_heap (sy_lib sy)) = Some (0, ?ring, h)"
    using fmt mode a(1) by (cases fmt) (auto simp: alloc_buffer_ring_depth_def)
  moreover have "lib_call (freenect_set_depth_mode ?d mode) ?sy0 = Some (0, ?sy0\<lparr>sy_lib := ?s1\<rparr>)"
    by (rule lib_call_quiet) (use dev(1,2) mode(3) in \<open>simp_all add: freenect_set_depth_mode_def\<close>)
  moreover have "lib_call (freenect_set_depth_buffer ?d (Some b2)) (?sy0\<lparr>sy_lib := ?s1\<rparr>) = Some (0, ?sy0\<lparr>sy_lib := ?s2\<rparr>)"
    by (subst lib_call_quiet [of _ _ 0 ?s2]) (use dev(2) in \<open>simp_all add: freenect_set_depth_buffer_def stream_setbuf_def\<close>)
  moreover have "lib_call (freenect_start_depth E ?d) (?sy0\<lparr>sy_lib := ?s2\<rparr>) = Some (0, ?sy3)"
    by (subst lib_call_quiet [of _ _ 0 s3]) (use 3(1) start_depth_frames [OF 3(1)] in simp_all)
  ultimately have run: "change_depth_format E i FREENECT_RESOLUTION_MEDIUM fmt sy = Some (0, ?sy3)"
    using k(1) mode(1) by (simp add: change_depth_format_def)
  have old: "hp_blocks (st_heap s3) b = Some (replicate ?n (hp_fill (st_heap (sy_lib sy)))) \<and> Some b \<notin> set (depth_ptrs dev')"
    if "b \<in> {b0, b1, b2}" for b using grows_old [OF grown] a(5) that by blast
  have raw: "ps_split_bufs (dv_depth dev') \<Longrightarrow> ps_raw_buf (dv_depth dev') \<notin> {Some b0, Some b1, Some b2}"
    using old [of b0] old [of b1] old [of b2] by (auto simp: stream_ptrs_def)
  have "depth_channel i ?sy3"
    by (rule depth_ring.channelI [of _ _ ?k dev' b0 b1 b2 ?n])
      (use 3(2,3,4,7,8,9) proc dev a(2) old raw in \<open>auto split: if_splits\<close>)
  with run show ?thesis by blast
qed

section \<open>The error paths\<close>

text \<open>
  C37. A video format that the wrapper does not list, the two YUV formats among them, makes
  freenect_sync_get_video_with_res wait for ever: setup_kinect ignores that the ring could not be
  allocated, the video stream stays stopped, and no packet can make a frame valid.
\<close>

theorem sync_unlisted_format_waits:
  assumes "0 \<le> index" and "index < MAX_KINECTS" and "sy_thread_running sy" and k: "sy_kinects sy (nat index) = Some k"
    and dev: "st_devs (sy_lib sy) (sk_dev k) = Some dev" "\<not> ps_running (dv_video dev)"
    and own: "owned (br_bufs (sk_video k)) (st_heap (sy_lib sy))"
    and fmt: "fmt \<in> {FREENECT_VIDEO_YUV_RGB, FREENECT_VIDEO_YUV_RAW, FREENECT_VIDEO_DUMMY}"
    and new: "br_fmt (sk_video k) \<noteq> uint (video_format_val fmt)"
  shows "\<exists>sy'. freenect_sync_get_video_with_res E index res fmt sy = Some (Waiting, sy') \<and>
    (\<forall>pkts. fold_opt (\<lambda>pkt. deliver (video_process (sk_dev k) pkt)) pkts sy' = Some sy') \<and>
    sy_kinects sy' = (sy_kinects sy)(nat index \<mapsto> k\<lparr>sk_video := no_ring\<rparr>)"
proof -
  let ?i = "nat index"
  let ?s1 = "set_dev (sk_dev k) (dev\<lparr>dv_user_data := Some ?i\<rparr>) (sy_lib sy)"
  let ?sy1 = "sy\<lparr>sy_kinects := (sy_kinects sy)(?i \<mapsto> k), sy_lib := ?s1\<rparr>"
  have d1: "st_devs ?s1 (sk_dev k) = Some (dev\<lparr>dv_user_data := Some ?i\<rparr>)" by simp
  obtain h where h: "fold_opt mfree (br_bufs (sk_video k)) (st_heap (sy_lib sy)) = Some h"
    using owned_mfree_all [OF own] by blast
  let ?sy2 = "?sy1\<lparr>sy_kinects := (sy_kinects ?sy1)(?i \<mapsto> k\<lparr>sk_video := no_ring\<rparr>), sy_lib := ?s1\<lparr>st_heap := h\<rparr>\<rparr>"
  have stop: "lib_call (freenect_stop_video E (sk_dev k)) ?sy1 = Some (-1, ?sy1)"
    using dev d1 by (simp add: lib_call_def freenect_stop_video_def)
  have alloc: "alloc_buffer_ring_video res fmt ring x = Some (-1, ring, x)" for ring x
    using fmt by (auto simp: alloc_buffer_ring_video_def)
  have change: "change_video_format E ?i res fmt ?sy1 = Some (-1, ?sy2)"
    using stop h by (simp add: change_video_format_def free_buffer_ring_def alloc)
  have set_up: "setup_kinect E ?i res (Fmt_video fmt) sy = Some (0, ?sy2)"
    using assms(3) k dev(1) new change
    by (simp add: setup_kinect_def lib_do_def freenect_set_user_def needs_format_def)
  have "needs_format res (Fmt_video fmt) (sk_video k)" using new by (simp add: needs_format_def)
  then have get_f: "get_frame E index res (Fmt_video fmt) sy = Some (True, ?sy2)"
    using assms(1-3) k set_up by (simp add: get_frame_def Let_def)
  have "sync_get no_ring = None" by (simp add: sync_get_def no_ring_def)
  then have run: "freenect_sync_get_video_with_res E index res fmt sy = Some (Waiting, ?sy2)"
    using get_f by (simp add: freenect_sync_get_video_with_res_def)
  obtain sy2 where sy2: "sy2 = ?sy2" by blast
  have quiet: "deliver (video_process (sk_dev k) pkt) sy2 = Some sy2" for pkt
    using dev(2) by (simp add: sy2 deliver_def video_process_def new_events_def)
  have "fold_opt (\<lambda>pkt. deliver (video_process (sk_dev k) pkt)) pkts sy2 = Some sy2" for pkts
    by (induction pkts) (simp_all add: quiet)
  moreover have "sy_kinects sy2 = (sy_kinects sy)(nat index \<mapsto> k\<lparr>sk_video := no_ring\<rparr>)"
    by (simp add: sy2)
  ultimately show ?thesis using run unfolding sy2 [symmetric] by blast
qed

lemma lib_call_kinects:
  "lib_call f sy = Some (r, sy') \<Longrightarrow> sy_kinects sy' = sy_kinects sy \<and> sy_thread_running sy' = sy_thread_running sy"
  by (auto simp: lib_call_def split: Option.bind_splits if_splits)

lemma lib_do_kinects:
  "lib_do f sy = Some sy' \<Longrightarrow> sy_kinects sy' = sy_kinects sy \<and> sy_thread_running sy' = sy_thread_running sy"
  by (auto simp: lib_do_def split: Option.bind_splits)

lemma end_kinect_kinects:
  "end_kinect E i sy = Some sy' \<Longrightarrow> sy_kinects sy' = (sy_kinects sy)(i := None) \<and> sy_thread_running sy' = sy_thread_running sy"
  by (auto simp: end_kinect_def split: option.splits Option.bind_splits dest!: lib_call_kinects lib_do_kinects)

lemma end_kinects:
  "fold_opt (end_kinect E) is sy = Some sy' \<Longrightarrow>
   (\<forall>i \<in> set is. sy_kinects sy' i = None) \<and> (\<forall>i. sy_kinects sy i = None \<longrightarrow> sy_kinects sy' i = None) \<and>
   sy_thread_running sy' = sy_thread_running sy"
proof (induction "is" arbitrary: sy)
  case (Cons i "is")
  then obtain s1 where 1: "end_kinect E i sy = Some s1" "fold_opt (end_kinect E) is s1 = Some sy'"
    by (auto split: Option.bind_splits)
  from Cons.IH [OF 1(2)] end_kinect_kinects [OF 1(1)] show ?case by auto
qed simp

text \<open>
  C38. When the event loop fails, for instance because the device was unplugged, the thread frees the
  context and ends, but \<open>thread_running\<close> stays set: every later setup_kinect uses the context that was
  freed, and has no defined result.
\<close>

theorem sync_loop_end_undefined:
  assumes run: "sy_thread_running sy" "sy_ctx sy" "sync_process_events E sy = Some (res, sy1)" "res < 0"
    and "loop_round E sy = Some sy'" and "sy_thread_running sy1" and "i < 64"
  shows "sy_thread_running sy' \<and> sy_kinects sy' i = None \<and> setup_kinect E' i res' fmt sy' = None"
proof -
  have e: "end_thread E sy1 = Some sy'" using assms by (simp add: loop_round_def)
  then obtain s2 s3 r where 2: "fold_opt (end_kinect E) [0..<64] sy1 = Some s2" "lib_call (freenect_shutdown E) s2 = Some (r, s3)"
    "sy' = s3\<lparr>sy_ctx := False, sy_thread := Some False\<rparr>"
    by (auto simp: end_thread_def split: Option.bind_splits)
  from end_kinects [OF 2(1)] \<open>i < 64\<close> have "sy_kinects s2 i = None" "sy_thread_running s2 = sy_thread_running sy1"
    by auto
  then have "sy_kinects sy' i = None" "sy_thread_running sy'" "\<not> sy_ctx sy'"
    using lib_call_kinects [OF 2(2)] 2(3) assms(6) by auto
  then show ?thesis by (simp add: setup_kinect_def alloc_kinect_def)
qed

text \<open>
  A library that cannot be initialised leaves \<open>thread_running\<close> set without a thread: the first call
  returns the error, and the next one for any kinect uses a context that does not exist.
\<close>

theorem sync_init_failure_sticks:
  assumes "\<not> sy_thread_running sy" and "e_alloc E (st_io (sy_lib sy))" and "e_int E (IO_usb_init # st_io (sy_lib sy)) < 0"
    and "\<And>i. sy_kinects sy i = None"
  shows "\<exists>sy'. setup_kinect E i res fmt sy = Some (e_int E (IO_usb_init # st_io (sy_lib sy)), sy') \<and>
    sy_thread_running sy' \<and> setup_kinect E' j res' fmt' sy' = None"
  using assms
  by (simp add: setup_kinect_def init_thread_def freenect_init_def fnusb_init_def io_int_def Let_def alloc_kinect_def)

section \<open>Witnesses\<close>

text \<open>A kinect that is open, with no stream running yet.\<close>

definition open_sync :: "freenect_device \<Rightarrow> sync" where
  "open_sync dev = \<lparr>sy_kinects = [0 \<mapsto> \<lparr>sk_dev = 0, sk_video = no_ring, sk_depth = no_ring\<rparr>], sy_ctx = True,
     sy_thread_running = True, sy_thread = Some True, sy_lib = dev_state dev\<rparr>"

lemma open_sync_simps [simp]:
  "sy_kinects (open_sync dev) 0 = Some \<lparr>sk_dev = 0, sk_video = no_ring, sk_depth = no_ring\<rparr>"
  "sy_lib (open_sync dev) = dev_state dev" "sy_thread_running (open_sync dev)" "sy_ctx (open_sync dev)"
  by (simp_all add: open_sync_def)

abbreviation kinect_dev :: freenect_device where
  "kinect_dev \<equiv> depth_dev\<lparr>dv_user_data := Some 0, dv_depth_cb := Some DEPTH_PRODUCER_CB, dv_video_cb := Some VIDEO_PRODUCER_CB\<rparr>"

theorem depth_ring_roundtrip_witness:
  "\<exists>ring h1 h2. alloc_buffer_ring_depth FREENECT_RESOLUTION_MEDIUM FREENECT_DEPTH_11BIT no_ring (st_heap live_state) = Some (0, ring, h1) \<and>
    free_buffer_ring ring h1 = Some (no_ring, h2) \<and> hp_blocks h2 = hp_blocks (st_heap live_state) \<and> br_bufs ring \<noteq> [None, None, None]"
proof -
  have wf: "heap_wf (st_heap live_state)" by (simp add: heap_wf_def live_state_def)
  obtain mode where mode: "freenect_find_depth_mode FREENECT_RESOLUTION_MEDIUM FREENECT_DEPTH_11BIT = Some mode" "fm_bytes mode = 614400"
    using depth_mode_medium [of FREENECT_DEPTH_11BIT] by (auto simp: depth_frame_size_def)
  from alloc_three [OF wf, of 614400] obtain b0 b1 b2 h1 where
    "alloc_bufs 3 614400 (st_heap live_state) = ([Some b0, Some b1, Some b2], h1)"
    by (auto simp: live_state_def)
  with mode obtain ring where r: "alloc_buffer_ring_depth FREENECT_RESOLUTION_MEDIUM FREENECT_DEPTH_11BIT no_ring (st_heap live_state) = Some (0, ring, h1)"
    "br_bufs ring = [Some b0, Some b1, Some b2]"
    by (simp add: alloc_buffer_ring_depth_def)
  from depth_ring_roundtrip [OF wf r(1)] r show ?thesis by auto
qed

theorem change_depth_format_channel_witness:
  "\<exists>sy'. change_depth_format camera_env 0 FREENECT_RESOLUTION_MEDIUM FREENECT_DEPTH_MM (open_sync kinect_dev) = Some (0, sy') \<and>
     depth_channel 0 sy'"
  by (rule change_depth_format_channel [where k = "\<lparr>sk_dev = 0, sk_video = no_ring, sk_depth = no_ring\<rparr>" and dev = kinect_dev])
    (simp_all add: no_ring_def camera_env_answers camera_env_alloc zero_device_def zero_packet_stream_def)

theorem sync_unlisted_format_waits_witness:
  "\<exists>sy'. freenect_sync_get_video_with_res camera_env 0 FREENECT_RESOLUTION_MEDIUM FREENECT_VIDEO_YUV_RGB (open_sync kinect_dev) =
      Some (Waiting, sy')"
  using sync_unlisted_format_waits [of 0 "open_sync kinect_dev" "\<lparr>sk_dev = 0, sk_video = no_ring, sk_depth = no_ring\<rparr>" kinect_dev
      FREENECT_VIDEO_YUV_RGB camera_env FREENECT_RESOLUTION_MEDIUM]
  by (simp add: no_ring_def zero_device_def zero_packet_stream_def) blast

text \<open>A wrapper that runs without a kinect, and one that has not been started.\<close>

definition bare_sync :: "bool \<Rightarrow> sync" where
  "bare_sync running = \<lparr>sy_kinects = (\<lambda>_. None), sy_ctx = running, sy_thread_running = running,
     sy_thread = (if running then Some True else None), sy_lib = example_state\<rparr>"

lemma end_bare: "(\<And>i. sy_kinects sy i = None) \<Longrightarrow> fold_opt (end_kinect E) is sy = Some sy"
  by (induction "is") (simp_all add: end_kinect_def)

theorem sync_loop_end_undefined_witness:
  "\<exists>sy'. loop_round (quiet_env\<lparr>e_events := \<lambda>_. (-4, [])\<rparr>) (bare_sync True) = Some sy' \<and> sy_thread_running sy' \<and>
     setup_kinect quiet_env 0 FREENECT_RESOLUTION_MEDIUM (Fmt_depth FREENECT_DEPTH_11BIT) sy' = None"
proof -
  let ?E = "quiet_env\<lparr>e_events := \<lambda>_. (-4, [])\<rparr>"
  let ?s = "emit (IO_handle_events None) example_state"
  let ?sy = "(bare_sync True)\<lparr>sy_lib := ?s\<rparr>"
  have 1: "sync_process_events ?E (bare_sync True) = Some (-4, ?sy)"
    by (simp add: sync_process_events_def bare_sync_def example_state_def zero_context_def lib_call_def emit_def
        check_devices.simps)
  have "close_all ?E ?s = Some ?s" by (subst close_all.simps) (simp add: example_state_def zero_context_def emit_def)
  then have "lib_call (freenect_shutdown ?E) ?sy = Some (0, ?sy)"
    by (simp add: freenect_shutdown_def fnusb_shutdown_def lib_call_def example_state_def zero_context_def emit_def)
  then have "end_thread ?E ?sy = Some (?sy\<lparr>sy_ctx := False, sy_thread := Some False\<rparr>)"
    by (simp add: end_thread_def end_bare bare_sync_def)
  then have 2: "loop_round ?E (bare_sync True) = Some (?sy\<lparr>sy_ctx := False, sy_thread := Some False\<rparr>)"
    using 1 by (simp add: loop_round_def) (simp add: bare_sync_def)
  have "sy_thread_running (bare_sync True)" "sy_ctx (bare_sync True)" "sy_thread_running ?sy"
    by (simp_all add: bare_sync_def)
  from sync_loop_end_undefined [OF this(1,2) 1 _ 2 this(3), of 0] 2 show ?thesis by auto
qed

theorem sync_init_failure_sticks_witness:
  "\<exists>sy'. setup_kinect (quiet_env\<lparr>e_int := \<lambda>_. -99\<rparr>) 0 FREENECT_RESOLUTION_MEDIUM (Fmt_depth FREENECT_DEPTH_11BIT) (bare_sync False) =
      Some (-99, sy') \<and> sy_thread_running sy' \<and>
     setup_kinect quiet_env 0 FREENECT_RESOLUTION_MEDIUM (Fmt_depth FREENECT_DEPTH_11BIT) sy' = None"
  using sync_init_failure_sticks [of "bare_sync False" "quiet_env\<lparr>e_int := \<lambda>_. -99\<rparr>" 0 FREENECT_RESOLUTION_MEDIUM
      "Fmt_depth FREENECT_DEPTH_11BIT" quiet_env 0 FREENECT_RESOLUTION_MEDIUM "Fmt_depth FREENECT_DEPTH_11BIT"]
  by (simp add: bare_sync_def quiet_env_def)

end
