(* ===== verification/Runloop.thy ===== *)
theory Runloop
  imports Sync
begin

text \<open>
  The locks of the synchronous wrapper: how the thread of the event loop and the clients share
  \<open>runloop_lock\<close> (wrappers/c_sync/libfreenect_sync.c). A client announces itself in
  \<open>pending_runloop_tasks\<close> before it takes the lock and signs off after it has released it; the loop
  waits on a condition variable until nobody is announced before it takes the lock again.

  The model has one action per critical step of a thread, any number of clients and one loop. The
  start is the moment at which init_thread has created the thread. Two threads of the loop at a time,
  which the failure path of setup_kinect can leave behind when another client enters between its
  unlocking and its joining, are outside of this model.
\<close>

section \<open>Threads and locks\<close>

text \<open>Where a client stands in the inc, lock, task, unlock, dec of runloop_enter and runloop_exit.\<close>

datatype client_pc = C_outside | C_inc | C_inc_locked | C_want | C_inside | C_dec | C_dec_locked

text \<open>
  Where the loop stands: waiting for zero, waiting for the lock, about to read the flag, in
  process_events, ending.
\<close>

datatype loop_pc = L_wait | L_check | L_asleep | L_want | L_test | L_events | L_ending | L_ended

datatype actor = Client nat | Loop

record runloop =
  rl_pending :: int
  rl_pending_lock :: "actor option"
  rl_runloop_lock :: "actor option"
  rl_thread_running :: bool
  rl_clients :: "client_pc list"
  rl_loop :: loop_pc
  rl_assert_failed :: bool

definition move_client :: "nat \<Rightarrow> client_pc \<Rightarrow> runloop \<Rightarrow> runloop" where
  "move_client i pc s = s\<lparr>rl_clients := (rl_clients s)[i := pc]\<rparr>"

section \<open>The steps\<close>

text \<open>pthread_cond_signal: the loop, if it sleeps, goes on to take the lock again.\<close>

definition signal_loop :: "runloop \<Rightarrow> runloop" where
  "signal_loop s = (if rl_loop s = L_asleep then s\<lparr>rl_loop := L_wait\<rparr> else s)"

definition pending_runloop_tasks_inc :: "runloop \<Rightarrow> runloop" where
  "pending_runloop_tasks_inc s =
     s\<lparr>rl_assert_failed := (rl_assert_failed s \<or> \<not> rl_pending s \<ge> 0), rl_pending := rl_pending s + 1,
       rl_pending_lock := None\<rparr>"

definition pending_runloop_tasks_dec :: "runloop \<Rightarrow> runloop" where
  "pending_runloop_tasks_dec s =
     (let n = rl_pending s - 1;
          s = s\<lparr>rl_pending := n, rl_assert_failed := (rl_assert_failed s \<or> \<not> n \<ge> 0)\<rparr>;
          s = (if n = 0 then signal_loop s else s)
      in s\<lparr>rl_pending_lock := None\<rparr>)"

text \<open>The next step of a client; \<open>None\<close> while it is blocked.\<close>

definition client_step :: "nat \<Rightarrow> runloop \<Rightarrow> runloop option" where
  "client_step i s =
     (if i \<ge> length (rl_clients s) then None
      else case rl_clients s ! i of
        C_outside \<Rightarrow> Some (move_client i C_inc s)
      | C_inc \<Rightarrow> if rl_pending_lock s \<noteq> None then None
                else Some (move_client i C_inc_locked (s\<lparr>rl_pending_lock := Some (Client i)\<rparr>))
      | C_inc_locked \<Rightarrow> Some (move_client i C_want (pending_runloop_tasks_inc s))
      | C_want \<Rightarrow> if rl_runloop_lock s \<noteq> None then None
                 else Some (move_client i C_inside (s\<lparr>rl_runloop_lock := Some (Client i)\<rparr>))
      | C_inside \<Rightarrow> Some (move_client i C_dec (s\<lparr>rl_runloop_lock := None\<rparr>))
      | C_dec \<Rightarrow> if rl_pending_lock s \<noteq> None then None
                else Some (move_client i C_dec_locked (s\<lparr>rl_pending_lock := Some (Client i)\<rparr>))
      | C_dec_locked \<Rightarrow> Some (move_client i C_outside (pending_runloop_tasks_dec s)))"

text \<open>
  The next step of the loop. The flag is read before freenect_process_events is called; \<open>ok\<close> tells
  whether that call, which ends with the step from \<open>L_events\<close>, succeeds.
\<close>

definition loop_step :: "bool \<Rightarrow> runloop \<Rightarrow> runloop option" where
  "loop_step ok s =
     (case rl_loop s of
        L_wait \<Rightarrow> if rl_pending_lock s \<noteq> None then None else Some (s\<lparr>rl_pending_lock := Some Loop, rl_loop := L_check\<rparr>)
      | L_check \<Rightarrow> Some (s\<lparr>rl_pending_lock := None, rl_loop := (if rl_pending s \<noteq> 0 then L_asleep else L_want)\<rparr>)
      | L_asleep \<Rightarrow> None
      | L_want \<Rightarrow> if rl_runloop_lock s \<noteq> None then None else Some (s\<lparr>rl_runloop_lock := Some Loop, rl_loop := L_test\<rparr>)
      | L_test \<Rightarrow> Some (s\<lparr>rl_loop := (if rl_thread_running s then L_events else L_ending)\<rparr>)
      | L_events \<Rightarrow> if ok then Some (s\<lparr>rl_runloop_lock := None, rl_loop := L_wait\<rparr>)
                   else Some (s\<lparr>rl_loop := L_ending\<rparr>)
      | L_ending \<Rightarrow> Some (s\<lparr>rl_runloop_lock := None, rl_loop := L_ended\<rparr>)
      | L_ended \<Rightarrow> None)"

text \<open>
  The actions: a step of a client or of the loop, a wake-up of the condition variable without a
  signal, and the assignment of freenect_sync_stop, which takes no lock.
\<close>

datatype rl_action = Client_step nat | Loop_step bool | Spurious | Stop

fun rl_step :: "rl_action \<Rightarrow> runloop \<Rightarrow> runloop option" where
  "rl_step (Client_step i) s = client_step i s"
| "rl_step (Loop_step ok) s = loop_step ok s"
| "rl_step Spurious s = (if rl_loop s = L_asleep then Some (signal_loop s) else None)"
| "rl_step Stop s = Some (s\<lparr>rl_thread_running := False\<rparr>)"

text \<open>After pthread_create: the first client is inside its task, the others have not called.\<close>

definition rl_start :: "nat \<Rightarrow> runloop" where
  "rl_start n = \<lparr>rl_pending = 1, rl_pending_lock = None, rl_runloop_lock = Some (Client 0), rl_thread_running = True,
     rl_clients = C_inside # replicate n C_outside, rl_loop = L_wait, rl_assert_failed = False\<rparr>"

inductive rl_reachable :: "runloop \<Rightarrow> bool" where
  start: "rl_reachable (rl_start n)"
| step: "rl_reachable s \<Longrightarrow> rl_step a s = Some s' \<Longrightarrow> rl_reachable s'"

section \<open>The invariant\<close>

definition announced :: "client_pc \<Rightarrow> bool" where
  "announced pc \<longleftrightarrow> pc \<in> {C_want, C_inside, C_dec, C_dec_locked}"

definition at_client :: "runloop \<Rightarrow> nat \<Rightarrow> client_pc set \<Rightarrow> bool" where
  "at_client s i pcs \<longleftrightarrow> i < length (rl_clients s) \<and> rl_clients s ! i \<in> pcs"

definition rl_inv :: "runloop \<Rightarrow> bool" where
  "rl_inv s \<longleftrightarrow>
     rl_pending s = int (length (filter announced (rl_clients s))) \<and> \<not> rl_assert_failed s \<and>
     (\<forall>i. rl_pending_lock s = Some (Client i) \<longleftrightarrow> at_client s i {C_inc_locked, C_dec_locked}) \<and>
     (rl_pending_lock s = Some Loop \<longleftrightarrow> rl_loop s = L_check) \<and>
     (\<forall>i. rl_runloop_lock s = Some (Client i) \<longleftrightarrow> at_client s i {C_inside}) \<and>
     (rl_runloop_lock s = Some Loop \<longleftrightarrow> rl_loop s \<in> {L_test, L_events, L_ending}) \<and>
     (rl_loop s = L_asleep \<longrightarrow> rl_pending s \<noteq> 0)"

lemma move_client_simps [simp]:
  "rl_pending (move_client i pc s) = rl_pending s" "rl_pending_lock (move_client i pc s) = rl_pending_lock s"
  "rl_runloop_lock (move_client i pc s) = rl_runloop_lock s" "rl_loop (move_client i pc s) = rl_loop s"
  "rl_assert_failed (move_client i pc s) = rl_assert_failed s" "rl_thread_running (move_client i pc s) = rl_thread_running s"
  "rl_clients (move_client i pc s) = (rl_clients s)[i := pc]"
  by (simp_all add: move_client_def)

lemma pending_clients [simp]:
  "rl_clients (signal_loop s) = rl_clients s" "rl_clients (pending_runloop_tasks_inc s) = rl_clients s"
  "rl_clients (pending_runloop_tasks_dec s) = rl_clients s"
  by (simp_all add: signal_loop_def pending_runloop_tasks_inc_def pending_runloop_tasks_dec_def Let_def)

lemma at_client_simps [simp]:
  "at_client (s\<lparr>rl_pending_lock := l\<rparr>) j pcs = at_client s j pcs"
  "at_client (s\<lparr>rl_runloop_lock := l\<rparr>) j pcs = at_client s j pcs"
  "at_client (s\<lparr>rl_loop := pc\<rparr>) j pcs = at_client s j pcs"
  "at_client (s\<lparr>rl_pending := n\<rparr>) j pcs = at_client s j pcs"
  "at_client (s\<lparr>rl_assert_failed := b\<rparr>) j pcs = at_client s j pcs"
  "at_client (s\<lparr>rl_thread_running := b\<rparr>) j pcs = at_client s j pcs"
  by (simp_all add: at_client_def)

lemma at_client_move [simp]:
  "i < length (rl_clients s) \<Longrightarrow> at_client (move_client i pc s) j pcs \<longleftrightarrow> (if j = i then pc \<in> pcs else at_client s j pcs)"
  by (auto simp: at_client_def nth_list_update)

lemma at_client_pending [simp]:
  "at_client (pending_runloop_tasks_inc s) j pcs = at_client s j pcs"
  "at_client (pending_runloop_tasks_dec s) j pcs = at_client s j pcs"
  by (simp_all add: at_client_def)

lemma count_update:
  "i < length xs \<Longrightarrow> length (filter P (xs[i := y])) + of_bool (P (xs ! i)) = length (filter P xs) + of_bool (P y)"
proof (induction xs arbitrary: i)
  case (Cons x xs)
  show ?case
  proof (cases i)
    case (Suc k)
    with Cons have "length (filter P (xs[k := y])) + of_bool (P (xs ! k)) = length (filter P xs) + of_bool (P y)" by simp
    with Suc show ?thesis by (cases "P x") simp_all
  qed simp
qed simp

lemma count_pos: "i < length xs \<Longrightarrow> P (xs ! i) \<Longrightarrow> 0 < length (filter P xs)"
  by (metis filter_empty_conv length_greater_0_conv nth_mem)

fun client_next :: "client_pc \<Rightarrow> client_pc" where
  "client_next C_outside = C_inc"
| "client_next C_inc = C_inc_locked"
| "client_next C_inc_locked = C_want"
| "client_next C_want = C_inside"
| "client_next C_inside = C_dec"
| "client_next C_dec = C_dec_locked"
| "client_next C_dec_locked = C_outside"

lemma client_step_clients:
  "client_step i s = Some s' \<Longrightarrow> rl_clients s' = (rl_clients s)[i := client_next (rl_clients s ! i)]"
  by (cases "rl_clients s ! i") (auto simp: client_step_def split: if_splits)

lemma client_step_inv:
  assumes inv: "rl_inv s" and step: "client_step i s = Some s'"
  shows "rl_inv s'"
proof -
  have i: "i < length (rl_clients s)" using step by (simp add: client_step_def split: if_splits)
  have here: "at_client s i pcs \<longleftrightarrow> rl_clients s ! i \<in> pcs" for pcs using i by (simp add: at_client_def)
  let ?pc = "rl_clients s ! i"
  define pc where "pc = client_next ?pc"
  have pc: "rl_clients s' = (rl_clients s)[i := pc]" unfolding pc_def by (rule client_step_clients [OF step])
  have count: "int (length (filter announced ((rl_clients s)[i := pc]))) + of_bool (announced (rl_clients s ! i)) =
      int (length (filter announced (rl_clients s))) + of_bool (announced pc)"
    using arg_cong [OF count_update [OF i, of announced pc], of int] unfolding pc by simp
  have pos: "announced (rl_clients s ! i) \<Longrightarrow> 0 < length (filter announced (rl_clients s))"
    by (rule count_pos [OF i])
  have pc_eq: "rl_clients s' ! i = pc" using pc i by simp
  have old: "rl_pending s = int (length (filter announced (rl_clients s)))" "\<not> rl_assert_failed s"
    "rl_loop s = L_asleep \<longrightarrow> rl_pending s \<noteq> 0"
    "\<And>j. rl_pending_lock s = Some (Client j) \<longleftrightarrow> at_client s j {C_inc_locked, C_dec_locked}"
    "rl_pending_lock s = Some Loop \<longleftrightarrow> rl_loop s = L_check"
    "\<And>j. rl_runloop_lock s = Some (Client j) \<longleftrightarrow> at_client s j {C_inside}"
    "rl_runloop_lock s = Some Loop \<longleftrightarrow> rl_loop s \<in> {L_test, L_events, L_ending}"
    using inv unfolding rl_inv_def by blast+
  note locks = old(4,6) [symmetric]
  have mine: "rl_pending_lock s = Some (Client i) \<longleftrightarrow> rl_clients s ! i \<in> {C_inc_locked, C_dec_locked}"
    "rl_runloop_lock s = Some (Client i) \<longleftrightarrow> rl_clients s ! i = C_inside"
    using old(4,6) here by simp_all
  note rest = old(1-3,5,7) mine
  show ?thesis
  proof (cases "rl_clients s ! i")
    case C_outside
    then have s': "s' = move_client i C_inc s" using step i by (simp add: client_step_def)
    have "pc = C_inc" using C_outside by (simp add: pc_def)
    with C_outside s' count rest show ?thesis by (simp add: rl_inv_def i announced_def locks)
  next
    case C_inc
    then have s': "s' = move_client i C_inc_locked (s\<lparr>rl_pending_lock := Some (Client i)\<rparr>)" "rl_pending_lock s = None"
      using step i by (simp_all add: client_step_def split: if_splits)
    have "pc = C_inc_locked" using C_inc by (simp add: pc_def)
    with C_inc s' count rest show ?thesis by (simp add: rl_inv_def i announced_def locks)
  next
    case C_inc_locked
    then have s': "s' = move_client i C_want (pending_runloop_tasks_inc s)" using step i by (simp add: client_step_def)
    have "pc = C_want" using C_inc_locked by (simp add: pc_def)
    moreover have "rl_pending_lock s = Some (Client i)" using old(4) here C_inc_locked by simp
    ultimately show ?thesis using C_inc_locked s' count rest
      by (auto simp: rl_inv_def i announced_def locks pending_runloop_tasks_inc_def)
  next
    case C_want
    then have s': "s' = move_client i C_inside (s\<lparr>rl_runloop_lock := Some (Client i)\<rparr>)" "rl_runloop_lock s = None"
      using step i by (simp_all add: client_step_def split: if_splits)
    have "pc = C_inside" using C_want by (simp add: pc_def)
    with C_want s' count rest show ?thesis by (simp add: rl_inv_def i announced_def locks)
  next
    case C_inside
    then have s': "s' = move_client i C_dec (s\<lparr>rl_runloop_lock := None\<rparr>)" using step i by (simp add: client_step_def)
    have "pc = C_dec" using C_inside by (simp add: pc_def)
    moreover have "rl_runloop_lock s = Some (Client i)" using old(6) here C_inside by simp
    ultimately show ?thesis using C_inside s' count rest by (auto simp: rl_inv_def i announced_def locks)
  next
    case C_dec
    then have s': "s' = move_client i C_dec_locked (s\<lparr>rl_pending_lock := Some (Client i)\<rparr>)" "rl_pending_lock s = None"
      using step i by (simp_all add: client_step_def split: if_splits)
    have "pc = C_dec_locked" using C_dec by (simp add: pc_def)
    with C_dec s' count rest show ?thesis by (simp add: rl_inv_def i announced_def locks)
  next
    case C_dec_locked
    then have s': "s' = move_client i C_outside (pending_runloop_tasks_dec s)" using step i by (simp add: client_step_def)
    have "pc = C_outside" using C_dec_locked by (simp add: pc_def)
    moreover have "rl_pending_lock s = Some (Client i)" using old(4) here C_dec_locked by simp
    moreover have "0 < length (filter announced (rl_clients s))" using pos C_dec_locked by (simp add: announced_def)
    ultimately show ?thesis using C_dec_locked s' count rest
      by (auto simp: rl_inv_def i announced_def locks pending_runloop_tasks_dec_def signal_loop_def Let_def)
  qed
qed

lemma loop_step_inv: "rl_inv s \<Longrightarrow> loop_step ok s = Some s' \<Longrightarrow> rl_inv s'"
  by (cases "rl_loop s"; simp add: loop_step_def split: if_splits; clarsimp; fastforce simp: rl_inv_def)

lemma rl_step_inv: "rl_inv s \<Longrightarrow> rl_step a s = Some s' \<Longrightarrow> rl_inv s'"
proof (cases a)
  case Spurious
  then show "rl_inv s \<Longrightarrow> rl_step a s = Some s' \<Longrightarrow> rl_inv s'"
    by (auto simp: rl_inv_def signal_loop_def split: if_splits)
next
  case Stop
  then show "rl_inv s \<Longrightarrow> rl_step a s = Some s' \<Longrightarrow> rl_inv s'"
    by (auto simp: rl_inv_def)
qed (auto dest: client_step_inv loop_step_inv)

lemma rl_start_inv: "rl_inv (rl_start n)"
proof -
  have "at_client (rl_start n) i pcs \<longleftrightarrow> i \<le> n \<and> (if i = 0 then C_inside else C_outside) \<in> pcs" for i pcs
    by (cases i) (auto simp: at_client_def rl_start_def)
  then show ?thesis by (auto simp: rl_inv_def rl_start_def announced_def split: if_splits)
qed

lemma rl_reachable_inv: "rl_reachable s \<Longrightarrow> rl_inv s"
  by (induction rule: rl_reachable.induct) (auto intro: rl_start_inv rl_step_inv)

section \<open>What the locks achieve\<close>

text \<open>The threads that are in a section guarded by \<open>runloop_lock\<close>.\<close>

definition in_section :: "runloop \<Rightarrow> actor set" where
  "in_section s = {Client i | i. at_client s i {C_inside}} \<union> (if rl_loop s \<in> {L_test, L_events, L_ending} then {Loop} else {})"

text \<open>
  C6. In every reachable state, with any number of clients, at most one thread is in a section guarded
  by runloop_lock, so that no client calls the library while it handles events; the counter equals the
  number of announced clients; no assertion on the counter has failed; and the loop never sleeps while
  nobody is announced (no wake-up is lost).
\<close>

theorem runloop_safe:
  assumes "rl_reachable s"
  shows "(\<forall>a b. a \<in> in_section s \<and> b \<in> in_section s \<longrightarrow> a = b) \<and>
    rl_pending s = int (length (filter announced (rl_clients s))) \<and> \<not> rl_assert_failed s \<and>
    \<not> (rl_loop s = L_asleep \<and> rl_pending s = 0)"
proof -
  have inv: "rl_inv s" by (rule rl_reachable_inv [OF assms])
  have "a \<in> in_section s \<Longrightarrow> rl_runloop_lock s = Some a" for a
    using inv unfolding rl_inv_def in_section_def by (auto split: if_splits)
  then have "\<forall>a b. a \<in> in_section s \<and> b \<in> in_section s \<longrightarrow> a = b" by (metis option.inject)
  with inv show ?thesis unfolding rl_inv_def by blast
qed

text \<open>The next steps of the threads that are on their way: no new call, no stray wake-up.\<close>

fun pushes :: "runloop \<Rightarrow> rl_action \<Rightarrow> bool" where
  "pushes s (Client_step i) \<longleftrightarrow> \<not> at_client s i {C_outside}"
| "pushes s (Loop_step ok) \<longleftrightarrow> True"
| "pushes s a \<longleftrightarrow> False"

definition all_done :: "runloop \<Rightarrow> bool" where
  "all_done s \<longleftrightarrow> set (rl_clients s) \<subseteq> {C_outside} \<and> rl_loop s = L_ended"

lemma client_moves:
  assumes "i < length (rl_clients s)" and "rl_clients s ! i \<in> {C_inc, C_dec} \<Longrightarrow> rl_pending_lock s = None"
    and "rl_clients s ! i = C_want \<Longrightarrow> rl_runloop_lock s = None"
  shows "\<exists>s'. client_step i s = Some s'"
  using assms by (cases "rl_clients s ! i") (simp_all add: client_step_def)

lemma loop_moves:
  assumes "rl_loop s \<notin> {L_asleep, L_ended}" and "rl_loop s = L_wait \<Longrightarrow> rl_pending_lock s = None"
    and "rl_loop s = L_want \<Longrightarrow> rl_runloop_lock s = None"
  shows "\<exists>s'. loop_step ok s = Some s'"
  using assms by (cases "rl_loop s") (simp_all add: loop_step_def)

lemma some_push:
  assumes inv: "rl_inv s" and busy: "\<not> all_done s"
  shows "\<exists>a s'. pushes s a \<and> rl_step a s = Some s'"
proof (rule ccontr)
  assume stuck: "\<not> ?thesis"
  then have stuck_client: "client_step i s = None" if "i < length (rl_clients s)" "rl_clients s ! i \<noteq> C_outside" for i
    using that by (metis at_client_def pushes.simps(1) rl_step.simps(1) not_Some_eq singletonD)
  have stuck_loop: "loop_step ok s = None" for ok
    using stuck by (metis pushes.simps(2) rl_step.simps(2) not_Some_eq)
  have pl: "rl_pending_lock s = None"
  proof (cases "rl_pending_lock s")
    case (Some a)
    show ?thesis
    proof (cases a)
      case (Client i)
      then have "i < length (rl_clients s)" "rl_clients s ! i \<in> {C_inc_locked, C_dec_locked}"
        using inv Some by (auto simp: rl_inv_def at_client_def)
      then show ?thesis using stuck_client [of i] client_moves [of i s] by auto
    next
      case Loop
      then have "rl_loop s = L_check" using inv Some by (simp add: rl_inv_def)
      then show ?thesis using stuck_loop loop_moves [of s] by auto
    qed
  qed
  have rl: "rl_runloop_lock s = None"
  proof (cases "rl_runloop_lock s")
    case (Some a)
    show ?thesis
    proof (cases a)
      case (Client i)
      then have "i < length (rl_clients s)" "rl_clients s ! i = C_inside" using inv Some by (auto simp: rl_inv_def at_client_def)
      then show ?thesis using stuck_client [of i] client_moves [of i s] by auto
    next
      case Loop
      then have "rl_loop s \<in> {L_test, L_events, L_ending}" using inv Some by (simp add: rl_inv_def)
      then show ?thesis using stuck_loop loop_moves [of s] by auto
    qed
  qed
  have out: "set (rl_clients s) \<subseteq> {C_outside}"
    using stuck_client client_moves [of _ s] pl rl by (force simp: in_set_conv_nth)
  then have "filter announced (rl_clients s) = []" by (auto simp: filter_empty_conv announced_def)
  then have "rl_pending s = 0" using inv by (simp add: rl_inv_def)
  then have "rl_loop s \<noteq> L_asleep" using inv by (simp add: rl_inv_def)
  moreover have "rl_loop s \<in> {L_asleep, L_ended}"
    using loop_moves [of s True] stuck_loop [of True] pl rl by fastforce
  ultimately show False using busy out by (simp add: all_done_def)
qed

text \<open>A bound on the steps that remain once the loop is told to end and nobody calls any more.\<close>

fun client_rank :: "client_pc \<Rightarrow> nat" where
  "client_rank C_outside = 0"
| "client_rank C_inc = 8"
| "client_rank C_inc_locked = 7"
| "client_rank C_want = 6"
| "client_rank C_inside = 5"
| "client_rank C_dec = 4"
| "client_rank C_dec_locked = 3"

fun loop_rank :: "loop_pc \<Rightarrow> nat" where
  "loop_rank L_wait = 5"
| "loop_rank L_check = 4"
| "loop_rank L_asleep = 3"
| "loop_rank L_want = 3"
| "loop_rank L_test = 2"
| "loop_rank L_events = 6"
| "loop_rank L_ending = 1"
| "loop_rank L_ended = 0"

definition rl_rank :: "runloop \<Rightarrow> nat" where
  "rl_rank s = sum_list (map client_rank (rl_clients s)) + loop_rank (rl_loop s)"

lemma rank_update:
  "i < length xs \<Longrightarrow> sum_list (map client_rank (xs[i := y])) + client_rank (xs ! i) =
     sum_list (map client_rank xs) + client_rank y"
proof (induction xs arbitrary: i)
  case (Cons x xs)
  show ?case
  proof (cases i)
    case (Suc k)
    with Cons have "sum_list (map client_rank (xs[k := y])) + client_rank (xs ! k) = sum_list (map client_rank xs) + client_rank y"
      by simp
    with Suc show ?thesis by simp
  qed simp
qed simp

lemma push_rank:
  assumes step: "rl_step a s = Some s'" and "pushes s a" and stop: "\<not> rl_thread_running s"
  shows "rl_rank s' < rl_rank s \<and> \<not> rl_thread_running s'"
proof (cases a)
  case (Client_step i)
  then have st: "client_step i s = Some s'" and pc: "rl_clients s ! i \<noteq> C_outside"
    using assms by (auto simp: at_client_def client_step_def split: if_splits)
  have i: "i < length (rl_clients s)" using st by (simp add: client_step_def split: if_splits)
  have l: "loop_rank (rl_loop s') \<le> loop_rank (rl_loop s) + (if rl_clients s ! i = C_dec_locked then 2 else 0)"
    and r: "rl_thread_running s' = rl_thread_running s"
    using st pc by (cases "rl_clients s ! i"; auto simp: client_step_def pending_runloop_tasks_inc_def
        pending_runloop_tasks_dec_def signal_loop_def Let_def split: if_splits)+
  have "client_rank (client_next (rl_clients s ! i)) + (if rl_clients s ! i = C_dec_locked then 2 else 0) < client_rank (rl_clients s ! i)"
    using pc by (cases "rl_clients s ! i") simp_all
  then show ?thesis using l r stop rank_update [OF i, of "client_next (rl_clients s ! i)"] client_step_clients [OF st]
    by (simp add: rl_rank_def)
next
  case (Loop_step ok)
  then show ?thesis using step stop
    by (cases "rl_loop s") (auto simp: loop_step_def rl_rank_def split: if_splits)
qed (use assms in simp_all)

text \<open>Runs whose actions all push.\<close>

inductive pushed :: "runloop \<Rightarrow> nat \<Rightarrow> runloop \<Rightarrow> bool" where
  stay: "pushed s 0 s"
| go: "pushes s a \<Longrightarrow> rl_step a s = Some s1 \<Longrightarrow> pushed s1 n s2 \<Longrightarrow> pushed s (Suc n) s2"

lemma pushed_rank: "pushed s n s' \<Longrightarrow> \<not> rl_thread_running s \<Longrightarrow> n + rl_rank s' \<le> rl_rank s \<and> \<not> rl_thread_running s'"
  by (induction rule: pushed.induct) (use push_rank in fastforce)+

lemma pushed_reachable: "pushed s n s' \<Longrightarrow> rl_reachable s \<Longrightarrow> rl_reachable s'"
  by (induction rule: pushed.induct) (auto intro: rl_reachable.step)

lemma rank_bound: "rl_rank s \<le> 8 * length (rl_clients s) + 6"
proof -
  have "client_rank pc \<le> 8" for pc by (cases pc) simp_all
  then have "sum_list (map client_rank xs) \<le> 8 * length xs" for xs
    by (induction xs) (auto intro: add_mono)
  moreover have "loop_rank pc \<le> 6" for pc by (cases pc) simp_all
  ultimately show ?thesis unfolding rl_rank_def by (rule add_mono)
qed

text \<open>
  C14. freenect_sync_stop returns: once the loop is told to end and nobody calls any more, there is
  no deadlock and no livelock. Every run of the threads that are on their way has at most 8 steps per
  client and 6 of the loop, which may be inside process_events and goes round once more, and as long
  as a client is on its way or the thread has not ended, one of them can go on; so the thread that
  pthread_join waits for ends.
\<close>

theorem runloop_stops:
  assumes "rl_reachable s" and "\<not> rl_thread_running s" and "pushed s n s'"
  shows "n \<le> 8 * length (rl_clients s) + 6 \<and> (all_done s' \<or> (\<exists>s''. pushed s' 1 s''))"
proof -
  have "n \<le> 8 * length (rl_clients s) + 6"
    using pushed_rank [OF assms(3,2)] rank_bound [of s] by linarith
  moreover have "rl_inv s'" by (rule rl_reachable_inv [OF pushed_reachable [OF assms(3,1)]])
  then have "all_done s' \<or> (\<exists>s''. pushed s' 1 s'')"
    using some_push [of s'] by (metis One_nat_def pushed.intros)
  ultimately show ?thesis by blast
qed

text \<open>Runs during which client \<open>i\<close> stays announced, with the number of rounds that the loop begins.\<close>

inductive waiting_run :: "nat \<Rightarrow> runloop \<Rightarrow> nat \<Rightarrow> runloop \<Rightarrow> bool" for i where
  stay: "at_client s i (Collect announced) \<Longrightarrow> waiting_run i s 0 s"
| round: "at_client s i (Collect announced) \<Longrightarrow> rl_step a s = Some s1 \<Longrightarrow> rl_loop s = L_test \<Longrightarrow> rl_loop s1 = L_events \<Longrightarrow>
    waiting_run i s1 n s2 \<Longrightarrow> waiting_run i s (Suc n) s2"
| other: "at_client s i (Collect announced) \<Longrightarrow> rl_step a s = Some s1 \<Longrightarrow> \<not> (rl_loop s = L_test \<and> rl_loop s1 = L_events) \<Longrightarrow>
    waiting_run i s1 n s2 \<Longrightarrow> waiting_run i s n s2"

lemma announced_pending: "rl_inv s \<Longrightarrow> at_client s i (Collect announced) \<Longrightarrow> rl_pending s \<noteq> 0"
  using count_pos [of i "rl_clients s" announced] by (auto simp: rl_inv_def at_client_def)

lemma to_want: "rl_step a s = Some s1 \<Longrightarrow> rl_loop s1 \<in> {L_want, L_test} \<Longrightarrow> rl_loop s \<in> {L_want, L_test} \<or> rl_pending s = 0"
  by (cases a) (auto simp: client_step_def loop_step_def pending_runloop_tasks_inc_def pending_runloop_tasks_dec_def
      signal_loop_def Let_def split: if_splits client_pc.splits loop_pc.splits)

lemma waiting_rounds:
  "waiting_run i s n s' \<Longrightarrow> rl_inv s \<Longrightarrow> n \<le> (if rl_loop s \<in> {L_want, L_test} then 1 else 0)"
proof (induction rule: waiting_run.induct)
  case (round s a s1 n s2)
  then have "n \<le> 0" using rl_step_inv by fastforce
  with round.hyps(3) show ?case by simp
next
  case (other s a s1 n s2)
  then have "n \<le> (if rl_loop s1 \<in> {L_want, L_test} then 1 else 0)" using rl_step_inv by blast
  then show ?case using to_want [OF other.hyps(2)] announced_pending [OF other.prems other.hyps(1)]
    by (auto split: if_splits)
qed simp

text \<open>
  C29. The loop lets the clients in: from the moment a client has announced itself until it signs off
  again, whatever the other clients and the scheduler do, the loop begins at most one more round of
  event handling.
\<close>

theorem runloop_lets_clients_in:
  assumes "rl_reachable s" and "waiting_run i s n s'"
  shows "n \<le> 1"
  using waiting_rounds [OF assms(2) rl_reachable_inv [OF assms(1)]] by (auto split: if_splits)

section \<open>Witnesses\<close>

lemma reachable_run: "rl_reachable s \<Longrightarrow> fold_opt rl_step acts s = Some s' \<Longrightarrow> rl_reachable s'"
  by (induction acts arbitrary: s) (auto split: Option.bind_splits intro: rl_reachable.step)

text \<open>The first client leaves, the loop handles events and a second client announces itself.\<close>

definition busy_acts :: "rl_action list" where
  "busy_acts = [Client_step 0, Client_step 0, Client_step 0, Loop_step True, Loop_step True, Client_step 1, Client_step 1,
     Client_step 1, Loop_step True]"

definition busy_state :: runloop where
  "busy_state = \<lparr>rl_pending = 1, rl_pending_lock = None, rl_runloop_lock = Some Loop, rl_thread_running = True,
     rl_clients = [C_outside, C_want], rl_loop = L_test, rl_assert_failed = False\<rparr>"

lemma busy_run: "fold_opt rl_step busy_acts (rl_start 1) = Some busy_state"
  by (simp add: busy_acts_def busy_state_def rl_start_def client_step_def loop_step_def move_client_def
      pending_runloop_tasks_inc_def pending_runloop_tasks_dec_def signal_loop_def Let_def)

lemma busy_reachable: "rl_reachable busy_state"
  by (rule reachable_run [OF rl_reachable.start busy_run])

theorem runloop_safe_witness: "in_section busy_state = {Loop} \<and> rl_pending busy_state = 1 \<and> \<not> rl_assert_failed busy_state"
proof -
  have "\<not> at_client busy_state j {C_inside}" for j
    by (cases j) (auto simp: at_client_def busy_state_def)
  then have "in_section busy_state = {Loop}" by (simp add: in_section_def busy_state_def)
  moreover have "length (filter announced (rl_clients busy_state)) = 1" by (simp add: busy_state_def announced_def)
  ultimately show ?thesis using runloop_safe [OF busy_reachable] by simp
qed

theorem runloop_lets_clients_in_witness:
  "\<exists>s'. waiting_run 1 busy_state 1 s' \<and> (1::nat) \<le> 1"
proof -
  let ?s1 = "busy_state\<lparr>rl_loop := L_events\<rparr>"
  have a: "at_client busy_state 1 (Collect announced)" "at_client ?s1 1 (Collect announced)"
    by (simp_all add: at_client_def busy_state_def announced_def)
  have "rl_step (Loop_step True) busy_state = Some ?s1" by (simp add: loop_step_def busy_state_def)
  from waiting_run.round [OF a(1) this _ _ waiting_run.stay [OF a(2)]]
  have w: "waiting_run 1 busy_state 1 ?s1" by (simp add: busy_state_def)
  with runloop_lets_clients_in [OF busy_reachable w] show ?thesis by auto
qed

theorem runloop_stops_witness:
  "\<exists>s'. pushed (busy_state\<lparr>rl_thread_running := False\<rparr>) 1 s' \<and> (\<exists>s''. pushed s' 1 s'')"
proof -
  let ?s = "busy_state\<lparr>rl_thread_running := False\<rparr>"
  let ?s1 = "?s\<lparr>rl_loop := L_ending\<rparr>"
  have r: "rl_reachable ?s" by (rule rl_reachable.step [OF busy_reachable, of Stop]) simp
  have p: "pushed ?s 1 ?s1"
    unfolding One_nat_def
    by (rule pushed.go [of _ "Loop_step True", OF _ _ pushed.stay]) (simp_all add: loop_step_def busy_state_def)
  have "\<not> all_done ?s1" by (simp add: all_done_def)
  with runloop_stops [OF r _ p] p show ?thesis by auto
qed

end
