(* ===== verification/Fakenect.thy ===== *)
theory Fakenect
  imports Frames Tilt
begin

text \<open>
  The fake library (fakenect/fakenect.c), which has the interface of libfreenect and plays back a
  directory that the record utility has written: INDEX.txt has one file name per line, the name says
  what the file holds and when it was recorded.

  Times are in microseconds; what gettimeofday delivers has that grain, and the doubles of the code
  hold such a number exactly up to the rounding of their last bit. printf and scanf are modelled for
  the formats that occur: the decimal numbers that \<open>%f\<close> and \<open>%u\<close> print are read back, any
  other input of \<open>%lf\<close> and \<open>%u\<close> has no defined result here. The program ends with exit as a
  value, \<open>Exit\<close>. Small strings are always allocated.
\<close>

section \<open>Text\<close>

abbreviation newline :: char where "newline \<equiv> CHR 0x0A"

definition bytes_of :: "string \<Rightarrow> u8 list" where
  "bytes_of = map of_char"

definition text_of :: "u8 list \<Rightarrow> string" where
  "text_of = map (\<lambda>b. char_of (unat b))"

definition is_digit :: "char \<Rightarrow> bool" where
  "is_digit c \<longleftrightarrow> 48 \<le> (of_char c :: nat) \<and> of_char c \<le> (57 :: nat)"

definition digit_val :: "char \<Rightarrow> nat" where
  "digit_val c = of_char c - 48"

definition digit_char :: "nat \<Rightarrow> char" where
  "digit_char n = char_of (48 + n)"

definition nat_of_digits :: "string \<Rightarrow> nat" where
  "nat_of_digits = foldl (\<lambda>n c. 10 * n + digit_val c) 0"

text \<open>A number at the start of the text, and the rest.\<close>

definition scan_u :: "string \<Rightarrow> (nat \<times> string) option" where
  "scan_u s =
     (let ds = takeWhile is_digit s
      in if ds = [] \<or> nat_of_digits ds \<ge> 2 ^ 32 then None else Some (nat_of_digits ds, dropWhile is_digit s))"

definition scan_lf :: "string \<Rightarrow> (int \<times> string) option" where
  "scan_lf s =
     (let sec = takeWhile is_digit s
      in case dropWhile is_digit s of
           c # rest \<Rightarrow>
             if sec \<noteq> [] \<and> c = CHR ''.'' \<and> length (takeWhile is_digit rest) = 6
             then Some (int (nat_of_digits sec) * 1000000 + int (nat_of_digits (takeWhile is_digit rest)), dropWhile is_digit rest)
             else None
         | [] \<Rightarrow> None)"

text \<open>sscanf with "%c-%lf-%u-%*s"; what follows the third number does not matter.\<close>

definition scan_name :: "string \<Rightarrow> (char \<times> int \<times> nat) option" where
  "scan_name line =
     (case line of
        type # dash # rest \<Rightarrow>
          if dash \<noteq> CHR ''-'' then None
          else do {
            (time, rest) \<leftarrow> scan_lf rest;
            if rest = [] \<or> hd rest \<noteq> CHR ''-'' then None
            else do { (timestamp, _) \<leftarrow> scan_u (tl rest); Some (type, time, timestamp) }
          }
      | _ \<Rightarrow> None)"

section \<open>The state\<close>

text \<open>
  What the fake library does to the outside: the frames it hands to the client, with what the buffer
  holds at that moment, and the time it spends.
\<close>

datatype fake_io =
  FK_depth_cb nat ptr "u8 list" u32
| FK_video_cb nat ptr "u8 list" u32
| FK_sleep int | FK_usleep int
| FK_get_time

datatype json = JNumber real | JObject "(string \<times> json) list" | JOther

text \<open>The outside: the files, the clock, the environment variables and the parser of JSON files.\<close>

record fake_env =
  fe_env :: env
  fe_files :: "string \<rightharpoonup> u8 list"
  fe_time :: "fake_io list \<Rightarrow> int"
  fe_getenv :: "string \<Rightarrow> string option"
  fe_json :: "string \<Rightarrow> json option"

record fake =
  fk_dev :: freenect_device
  fk_cur_depth_cb :: "nat option"
  fk_cur_video_cb :: "nat option"
  fk_input_path :: string
  fk_index_fp :: "string option"
  fk_state :: "u8 list"
  fk_ir_brightness :: u16
  fk_already_warned :: bool
  fk_playback_prev_time :: int
  fk_record_prev_time :: int
  fk_user_depth_buf :: ptr
  fk_user_video_buf :: ptr
  fk_depth_running :: bool
  fk_rgb_running :: bool
  fk_user_ptr :: "nat option"
  fk_loop_playback :: bool
  fk_video_mode :: freenect_frame_mode
  fk_depth_mode :: freenect_frame_mode
  fk_default_video_back :: ptr
  fk_default_depth_back :: ptr
  fk_heap :: heap
  fk_io :: "fake_io list"

datatype 'a outcome = Return 'a | Exit int

definition fake_emit :: "fake_io \<Rightarrow> fake \<Rightarrow> fake" where
  "fake_emit ev fk = fk\<lparr>fk_io := ev # fk_io fk\<rparr>"

definition get_time :: "fake_env \<Rightarrow> fake \<Rightarrow> int \<times> fake" where
  "get_time F fk = (let fk = fake_emit FK_get_time fk in (fe_time F (fk_io fk), fk))"

definition sleep_highres :: "int \<Rightarrow> fake \<Rightarrow> fake" where
  "sleep_highres tm fk =
     (if tm > 0 then fake_emit (FK_usleep (tm mod 1000000)) (fake_emit (FK_sleep (tm div 1000000)) fk) else fk)"

section \<open>The modes\<close>

definition rgb_video_mode :: freenect_frame_mode where
  "rgb_video_mode = mode_row FREENECT_RESOLUTION_MEDIUM (video_format_val FREENECT_VIDEO_RGB) (640*480*3) 640 480 24 0 30"

definition yuv_video_mode :: freenect_frame_mode where
  "yuv_video_mode = mode_row FREENECT_RESOLUTION_MEDIUM (video_format_val FREENECT_VIDEO_YUV_RAW) (640*480*2) 640 480 16 0 15"

definition depth_11_mode :: freenect_frame_mode where
  "depth_11_mode = mode_row FREENECT_RESOLUTION_MEDIUM (depth_format_val FREENECT_DEPTH_11BIT) (640*480*2) 640 480 11 5 30"

definition depth_registered_mode :: freenect_frame_mode where
  "depth_registered_mode =
     mode_row FREENECT_RESOLUTION_MEDIUM (depth_format_val FREENECT_DEPTH_REGISTERED) (640*480*2) 640 480 16 0 30"

definition depth_mm_mode :: freenect_frame_mode where
  "depth_mm_mode = mode_row FREENECT_RESOLUTION_MEDIUM (depth_format_val FREENECT_DEPTH_MM) (640*480*2) 640 480 16 0 30"

text \<open>A failed assertion is \<open>None\<close>.\<close>

definition fakenect_find_video_mode :: "freenect_resolution \<Rightarrow> freenect_video_format \<Rightarrow> freenect_frame_mode option" where
  "fakenect_find_video_mode res fmt =
     (if res \<noteq> FREENECT_RESOLUTION_MEDIUM then None
      else case fmt of
        FREENECT_VIDEO_RGB \<Rightarrow> Some rgb_video_mode
      | FREENECT_VIDEO_YUV_RAW \<Rightarrow> Some yuv_video_mode
      | _ \<Rightarrow> None)"

definition fakenect_find_depth_mode :: "freenect_resolution \<Rightarrow> freenect_depth_format \<Rightarrow> freenect_frame_mode option" where
  "fakenect_find_depth_mode res fmt =
     (if res \<noteq> FREENECT_RESOLUTION_MEDIUM then None
      else case fmt of
        FREENECT_DEPTH_11BIT \<Rightarrow> Some depth_11_mode
      | FREENECT_DEPTH_REGISTERED \<Rightarrow> Some depth_registered_mode
      | FREENECT_DEPTH_MM \<Rightarrow> Some depth_mm_mode
      | _ \<Rightarrow> None)"

definition fakenect_get_video_mode_count :: int where
  "fakenect_get_video_mode_count = 1"

definition fakenect_get_depth_mode_count :: int where
  "fakenect_get_depth_mode_count = 3"

text \<open>The invalid mode of the last branch is \<open>None\<close>.\<close>

definition fakenect_get_video_mode :: "int \<Rightarrow> freenect_frame_mode option" where
  "fakenect_get_video_mode mode_num =
     (if mode_num = 0 then Some rgb_video_mode else if mode_num = 1 then Some yuv_video_mode else None)"

definition fakenect_get_depth_mode :: "int \<Rightarrow> freenect_frame_mode option" where
  "fakenect_get_depth_mode mode_num =
     (if mode_num = 0 then Some depth_11_mode else if mode_num = 1 then Some depth_mm_mode
      else if mode_num = 2 then Some depth_registered_mode else None)"

section \<open>Reading the index\<close>

text \<open>The next line, \<open>None\<close> when it is empty or the file has ended, and the rest of the file.\<close>

definition one_line :: "string \<Rightarrow> string option \<times> string" where
  "one_line fp =
     (let out = takeWhile (\<lambda>c. c \<noteq> newline) fp
      in (if out = [] then None else Some out, drop (length out + 1) fp))"

datatype parsed = Failed | Parsed char int nat "u8 list"

definition parse_line :: "fake_env \<Rightarrow> fake \<Rightarrow> (parsed outcome \<times> fake) option" where
  "parse_line F fk = do {
     fp \<leftarrow> fk_index_fp fk;
     let (line, fp) = one_line fp;
     let fk = fk\<lparr>fk_index_fp := Some fp\<rparr>;
     case line of
       None \<Rightarrow> Some (Return Failed, fk)
     | Some chars \<Rightarrow>
         let line = takeWhile (\<lambda>c. c \<noteq> CHR 0x00) chars
         in case fe_files F (fk_input_path fk @ ''/'' @ line) of
              None \<Rightarrow> Some (Exit 1, fk)
            | Some data \<Rightarrow>
                if data = [] then Some (Return Failed, fk)
                else do { (type, time, timestamp) \<leftarrow> scan_name line; Some (Return (Parsed type time timestamp data), fk) }
   }"

definition open_index :: "fake_env \<Rightarrow> fake \<Rightarrow> unit outcome \<times> fake" where
  "open_index F fk =
     (case fe_files F (fk_input_path fk @ ''/INDEX.txt'') of
        None \<Rightarrow> (Exit 1, fk)
      | Some bs \<Rightarrow> (Return (), fk\<lparr>fk_index_fp := Some (text_of bs)\<rparr>))"

definition close_index :: "fake \<Rightarrow> fake" where
  "close_index fk = fk\<lparr>fk_index_fp := None, fk_record_prev_time := 0, fk_playback_prev_time := 0\<rparr>"

text \<open>strchr on a block that need not hold a zero byte: running off its end is \<open>None\<close>.\<close>

fun skip_line :: "u8 list \<Rightarrow> u8 list outcome option" where
  "skip_line [] = None"
| "skip_line (b # str) = (if b = 10 then Some (Return str) else if b = 0 then Some (Exit 1) else skip_line str)"

section \<open>Converting a video frame\<close>

text \<open>A conversion of a float to uint8_t that does not fit is undefined.\<close>

definition to_uint8 :: "real \<Rightarrow> u8 option" where
  "to_uint8 x = (if 0 \<le> ctrunc x \<and> ctrunc x \<le> 255 then Some (word_of_int (ctrunc x)) else None)"

definition luma :: "env \<Rightarrow> real \<Rightarrow> real \<Rightarrow> real \<Rightarrow> real" where
  "luma E r g b =
     (let rnd = e_rndf E
      in rnd (rnd (rnd (rnd (rnd 0.257 * r) + rnd (rnd 0.504 * g)) + rnd (rnd 0.098 * b)) + 16))"

definition chroma_u :: "env \<Rightarrow> real \<Rightarrow> real \<Rightarrow> real \<Rightarrow> real" where
  "chroma_u E r g b =
     (let rnd = e_rndf E
      in rnd (rnd (rnd (- rnd (rnd 0.148 * r) - rnd (rnd 0.291 * g)) + rnd (rnd 0.439 * b)) + 128))"

definition chroma_v :: "env \<Rightarrow> real \<Rightarrow> real \<Rightarrow> real \<Rightarrow> real" where
  "chroma_v E r g b =
     (let rnd = e_rndf E
      in rnd (rnd (rnd (rnd (rnd 0.439 * r) - rnd (rnd 0.368 * g)) - rnd (rnd 0.071 * b)) + 128))"

definition rgb_pair_to_uyvy :: "env \<Rightarrow> u8 \<times> u8 \<times> u8 \<Rightarrow> u8 \<times> u8 \<times> u8 \<Rightarrow> u8 list option" where
  "rgb_pair_to_uyvy E rgb0 rgb1 =
     (let (r0, g0, b0) = rgb0; (r1, g1, b1) = rgb1;
          real_of = (\<lambda>w :: u8. real (unat w));
          y0 = luma E (real_of r0) (real_of g0) (real_of b0);
          u0 = chroma_u E (real_of r0) (real_of g0) (real_of b0);
          v0 = chroma_v E (real_of r0) (real_of g0) (real_of b0);
          y1 = luma E (real_of r1) (real_of g1) (real_of b1);
          u1 = chroma_u E (real_of r1) (real_of g1) (real_of b1);
          v1 = chroma_v E (real_of r1) (real_of g1) (real_of b1)
      in do {
        p0 \<leftarrow> to_uint8 (e_rndf E (e_rndf E (u0 + u1) / 2));
        p1 \<leftarrow> to_uint8 y0;
        p2 \<leftarrow> to_uint8 (e_rndf E (e_rndf E (v0 + v1) / 2));
        p3 \<leftarrow> to_uint8 y1;
        Some [p0, p1, p2, p3]
      })"

definition rgb_at :: "u8 list \<Rightarrow> nat \<Rightarrow> (u8 \<times> u8 \<times> u8) option" where
  "rgb_at bs pos = do {
     r \<leftarrow> lookup bs (3 * pos);
     g \<leftarrow> lookup bs (3 * pos + 1);
     b \<leftarrow> lookup bs (3 * pos + 2);
     Some (r, g, b)
   }"

text \<open>The loop over the columns advances by 2.\<close>

definition convert_rgb_to_uyvy :: "env \<Rightarrow> u8 list \<Rightarrow> ptr \<Rightarrow> freenect_frame_mode \<Rightarrow> heap \<Rightarrow> heap option" where
  "convert_rgb_to_uyvy E rgb_buffer yuv_buffer mode h =
     (let w = nat (fm_width mode); hgt = nat (fm_height mode)
      in fold_opt (\<lambda>y. fold_opt (\<lambda>x2 h. do {
             let pos = y * w + 2 * x2;
             rgb0 \<leftarrow> rgb_at rgb_buffer pos;
             rgb1 \<leftarrow> rgb_at rgb_buffer (pos + 1);
             uyvy \<leftarrow> rgb_pair_to_uyvy E rgb0 rgb1;
             mem_write yuv_buffer (int (2 * pos)) uyvy h
           }) [0..<(w + 1) div 2]) [0..<hgt] h)"

section \<open>Playing back\<close>

text \<open>The words of a frame in the order of the host.\<close>

definition words_of :: "u8 list \<Rightarrow> u16 list" where
  "words_of bs = map (\<lambda>i. get16 bs (2 * i)) [0..<length bs div 2]"

definition memcpy_from :: "ptr \<Rightarrow> u8 list \<Rightarrow> int \<Rightarrow> heap \<Rightarrow> heap option" where
  "memcpy_from dst src n h = (if n < 0 \<or> nat n > length src then None else mem_write dst 0 (take (nat n) src) h)"

definition depth_frame :: "fake_env \<Rightarrow> nat \<Rightarrow> nat \<Rightarrow> u8 list \<Rightarrow> fake \<Rightarrow> (unit outcome \<times> fake) option" where
  "depth_frame F cb timestamp data fk =
     (let mode = fk_depth_mode fk
      in do {
        skipped \<leftarrow> skip_line data;
        case skipped of
          Exit n \<Rightarrow> Some (Exit n, fk)
        | Return cur_depth \<Rightarrow> do {
            let depth_buffer = (if fk_user_depth_buf fk \<noteq> None then fk_user_depth_buf fk else fk_default_depth_back fk);
            h \<leftarrow> (if fm_format mode = depth_format_val FREENECT_DEPTH_11BIT
                  then memcpy_from depth_buffer cur_depth (fm_bytes mode) (fk_heap fk)
                  else if fm_format mode = depth_format_val FREENECT_DEPTH_REGISTERED
                  then do { ws \<leftarrow> freenect_apply_registration_unpacked (dv_registration (fk_dev fk)) (words_of cur_depth);
                            mem_write depth_buffer 0 (u16_bytes ws) (fk_heap fk) }
                  else if fm_format mode = depth_format_val FREENECT_DEPTH_MM
                  then do { ws \<leftarrow> freenect_apply_depth_unpacked_to_mm (dv_registration (fk_dev fk)) (words_of cur_depth);
                            mem_write depth_buffer 0 (u16_bytes ws) (fk_heap fk) }
                  else None);
            blk \<leftarrow> mem_block depth_buffer h;
            Some (Return (), fake_emit (FK_depth_cb cb depth_buffer blk (of_nat timestamp)) (fk\<lparr>fk_heap := h\<rparr>))
          }
      })"

definition video_frame :: "fake_env \<Rightarrow> nat \<Rightarrow> nat \<Rightarrow> u8 list \<Rightarrow> fake \<Rightarrow> (unit outcome \<times> fake) option" where
  "video_frame F cb timestamp data fk = do {
     skipped \<leftarrow> skip_line data;
     case skipped of
       Exit n \<Rightarrow> Some (Exit n, fk)
     | Return cur_video \<Rightarrow> do {
         let video_buffer = (if fk_user_video_buf fk \<noteq> None then fk_user_video_buf fk else fk_default_video_back fk);
         let mode = fk_video_mode fk;
         h \<leftarrow> (if fm_format mode = video_format_val FREENECT_VIDEO_RGB
               then memcpy_from video_buffer cur_video (fm_bytes mode) (fk_heap fk)
               else if fm_format mode = video_format_val FREENECT_VIDEO_YUV_RAW
               then convert_rgb_to_uyvy (fe_env F) cur_video video_buffer mode (fk_heap fk)
               else None);
         blk \<leftarrow> mem_block video_buffer h;
         Some (Return (), fake_emit (FK_video_cb cb video_buffer blk (of_nat timestamp)) (fk\<lparr>fk_heap := h\<rparr>))
       }
   }"

abbreviation sizeof_tilt_state :: nat where "sizeof_tilt_state \<equiv> 12"

definition play_item :: "fake_env \<Rightarrow> char \<Rightarrow> nat \<Rightarrow> u8 list \<Rightarrow> fake \<Rightarrow> (unit outcome \<times> fake) option" where
  "play_item F type timestamp data fk =
     (if type = CHR ''d'' then
        (case fk_cur_depth_cb fk of
           Some cb \<Rightarrow> if fk_depth_running fk then depth_frame F cb timestamp data fk else Some (Return (), fk)
         | None \<Rightarrow> Some (Return (), fk))
      else if type = CHR ''r'' then
        (case fk_cur_video_cb fk of
           Some cb \<Rightarrow> if fk_rgb_running fk then video_frame F cb timestamp data fk else Some (Return (), fk)
         | None \<Rightarrow> Some (Return (), fk))
      else if type = CHR ''a'' then
        Some (Return (), if length data = sizeof_tilt_state then fk\<lparr>fk_state := data\<rparr> else fk\<lparr>fk_already_warned := True\<rparr>)
      else Some (Return (), fk))"

text \<open>Sleeping for what is left of the pause between this item and the one before in the recording.\<close>

definition catch_up :: "fake_env \<Rightarrow> int \<Rightarrow> fake \<Rightarrow> fake" where
  "catch_up F record_cur_time fk =
     (if fk_record_prev_time fk \<noteq> 0 \<and> fk_playback_prev_time fk \<noteq> 0
      then let (now, fk) = get_time F fk
           in sleep_highres ((record_cur_time - fk_record_prev_time fk) - (now - fk_playback_prev_time fk)) fk
      else fk)"

definition fakenect_process_events :: "fake_env \<Rightarrow> fake \<Rightarrow> (int outcome \<times> fake) option" where
  "fakenect_process_events F fk = do {
     let (opened, fk) = (if fk_index_fp fk = None then open_index F fk else (Return (), fk));
     case opened of
       Exit n \<Rightarrow> Some (Exit n, fk)
     | Return _ \<Rightarrow> do {
         (line, fk) \<leftarrow> parse_line F fk;
         case line of
           Exit n \<Rightarrow> Some (Exit n, fk)
         | Return Failed \<Rightarrow> Some (if fk_loop_playback fk then (Return 0, close_index fk) else (Return (-1), fk))
         | Return (Parsed type record_cur_time timestamp data) \<Rightarrow> do {
             (done, fk) \<leftarrow> play_item F type timestamp data
               ((catch_up F record_cur_time fk)\<lparr>fk_record_prev_time := record_cur_time\<rparr>);
             case done of
               Exit n \<Rightarrow> Some (Exit n, fk)
             | Return _ \<Rightarrow> let (now, fk) = get_time F fk in Some (Return 0, fk\<lparr>fk_playback_prev_time := now\<rparr>)
           }
       }
   }"

definition fakenect_process_events_timeout :: "fake_env \<Rightarrow> fake \<Rightarrow> (int outcome \<times> fake) option" where
  "fakenect_process_events_timeout F fk = fakenect_process_events F fk"

section \<open>The rest of the interface\<close>

definition fakenect_get_tilt_state :: "fake \<Rightarrow> freenect_raw_tilt_state" where
  "fakenect_get_tilt_state fk =
     \<lparr>ts_accelerometer_x = get16 (fk_state fk) 0, ts_accelerometer_y = get16 (fk_state fk) 2,
      ts_accelerometer_z = get16 (fk_state fk) 4, ts_tilt_angle = fk_state fk ! 6, ts_tilt_status = fk_state fk ! 8\<rparr>"

definition fakenect_get_tilt_degs :: "freenect_raw_tilt_state \<Rightarrow> real" where
  "fakenect_get_tilt_degs state = real_of_int (sint (ts_tilt_angle state)) / 2"

definition fakenect_get_tilt_status :: "freenect_raw_tilt_state \<Rightarrow> u8" where
  "fakenect_get_tilt_status state = ts_tilt_status state"

definition fakenect_get_mks_accel :: "env \<Rightarrow> freenect_raw_tilt_state \<Rightarrow> real \<times> real \<times> real" where
  "fakenect_get_mks_accel E state =
     (let mks = (\<lambda>v :: u16. e_rnd E (e_rnd E (real_of_int (sint v) / 819) * 9.80665))
      in (mks (ts_accelerometer_x state), mks (ts_accelerometer_y state), mks (ts_accelerometer_z state)))"

definition fakenect_set_depth_callback :: "nat option \<Rightarrow> fake \<Rightarrow> fake" where
  "fakenect_set_depth_callback cb fk = fk\<lparr>fk_cur_depth_cb := cb\<rparr>"

definition fakenect_set_video_callback :: "nat option \<Rightarrow> fake \<Rightarrow> fake" where
  "fakenect_set_video_callback cb fk = fk\<lparr>fk_cur_video_cb := cb\<rparr>"

definition fakenect_set_video_mode :: "freenect_frame_mode \<Rightarrow> fake \<Rightarrow> int \<times> fake" where
  "fakenect_set_video_mode mode fk = (0, fk\<lparr>fk_video_mode := mode\<rparr>)"

definition fakenect_set_depth_mode :: "freenect_frame_mode \<Rightarrow> fake \<Rightarrow> int \<times> fake" where
  "fakenect_set_depth_mode mode fk = (0, fk\<lparr>fk_depth_mode := mode\<rparr>)"

definition fakenect_set_depth_buffer :: "ptr \<Rightarrow> fake \<Rightarrow> int \<times> fake" where
  "fakenect_set_depth_buffer buf fk = (0, fk\<lparr>fk_user_depth_buf := buf\<rparr>)"

definition fakenect_set_video_buffer :: "ptr \<Rightarrow> fake \<Rightarrow> int \<times> fake" where
  "fakenect_set_video_buffer buf fk = (0, fk\<lparr>fk_user_video_buf := buf\<rparr>)"

definition fakenect_set_user :: "nat option \<Rightarrow> fake \<Rightarrow> fake" where
  "fakenect_set_user user fk = fk\<lparr>fk_user_ptr := user\<rparr>"

definition fakenect_start_depth :: "fake \<Rightarrow> int \<times> fake" where
  "fakenect_start_depth fk = (0, fk\<lparr>fk_depth_running := True\<rparr>)"

definition fakenect_start_video :: "fake \<Rightarrow> int \<times> fake" where
  "fakenect_start_video fk = (0, fk\<lparr>fk_rgb_running := True\<rparr>)"

definition fakenect_stop_depth :: "fake \<Rightarrow> int \<times> fake" where
  "fakenect_stop_depth fk = (0, fk\<lparr>fk_depth_running := False\<rparr>)"

definition fakenect_stop_video :: "fake \<Rightarrow> int \<times> fake" where
  "fakenect_stop_video fk = (0, fk\<lparr>fk_rgb_running := False\<rparr>)"

definition fakenect_set_ir_brightness :: "u16 \<Rightarrow> fake \<Rightarrow> int \<times> fake" where
  "fakenect_set_ir_brightness brightness fk = (0, fk\<lparr>fk_ir_brightness := brightness mod 50\<rparr>)"

definition fakenect_shutdown :: "fake \<Rightarrow> (int \<times> fake) option" where
  "fakenect_shutdown fk = do {
     h \<leftarrow> mfree (fk_default_video_back fk) (fk_heap fk);
     h \<leftarrow> mfree (fk_default_depth_back fk) h;
     Some (0, fk\<lparr>fk_heap := h\<rparr>)
   }"

text \<open>The one device is \<open>fake_dev\<close>; the functions that do nothing report success.\<close>

definition fakenect_num_devices :: int where
  "fakenect_num_devices = 1"

definition fakenect_open_device :: "int \<Rightarrow> fake \<Rightarrow> int \<times> freenect_device" where
  "fakenect_open_device index fk = (0, fk_dev fk)"

definition fakenect_open_device_by_camera_serial :: "u8 list \<Rightarrow> fake \<Rightarrow> int \<times> freenect_device" where
  "fakenect_open_device_by_camera_serial camera_serial fk = (0, fk_dev fk)"

definition fakenect_supported_subdevices :: u32 where
  "fakenect_supported_subdevices = 0x01 OR 0x02"

definition fakenect_select_subdevices :: "u32 \<Rightarrow> fake \<Rightarrow> fake" where
  "fakenect_select_subdevices subdevs fk = fk"

definition fakenect_get_current_video_mode :: "fake \<Rightarrow> freenect_frame_mode" where
  "fakenect_get_current_video_mode fk = fk_video_mode fk"

definition fakenect_get_current_depth_mode :: "fake \<Rightarrow> freenect_frame_mode" where
  "fakenect_get_current_depth_mode fk = fk_depth_mode fk"

definition fakenect_get_user :: "fake \<Rightarrow> nat option" where
  "fakenect_get_user fk = fk_user_ptr fk"

definition fakenect_set_video_format :: "freenect_video_format \<Rightarrow> int option" where
  "fakenect_set_video_format fmt = (if fmt \<in> {FREENECT_VIDEO_RGB, FREENECT_VIDEO_YUV_RAW} then Some 0 else None)"

definition fakenect_set_depth_format :: "freenect_depth_format \<Rightarrow> int option" where
  "fakenect_set_depth_format fmt = (if fmt = FREENECT_DEPTH_11BIT then Some 0 else None)"

definition fakenect_get_ir_brightness :: "fake \<Rightarrow> int" where
  "fakenect_get_ir_brightness fk = uint (fk_ir_brightness fk)"

definition fakenect_close_device :: "fake \<Rightarrow> int \<times> fake" where
  "fakenect_close_device fk = (0, fk)"

definition fakenect_set_tilt_degs :: "real \<Rightarrow> fake \<Rightarrow> int \<times> fake" where
  "fakenect_set_tilt_degs angle fk = (0, fk)"

definition fakenect_set_led :: "freenect_led_options \<Rightarrow> fake \<Rightarrow> int \<times> fake" where
  "fakenect_set_led option fk = (0, fk)"

definition fakenect_update_tilt_state :: "fake \<Rightarrow> int \<times> fake" where
  "fakenect_update_tilt_state fk = (0, fk)"

section \<open>Starting\<close>

text \<open>json_object_get_object and json_object_get_number: NULL and 0 when there is no such member.\<close>

definition json_member :: "json option \<Rightarrow> string \<Rightarrow> json option" where
  "json_member js name = (case js of Some (JObject ms) \<Rightarrow> map_of ms name | _ \<Rightarrow> None)"

definition json_object_get_object :: "json option \<Rightarrow> string \<Rightarrow> json option" where
  "json_object_get_object js name =
     (case json_member js name of Some (JObject ms) \<Rightarrow> Some (JObject ms) | _ \<Rightarrow> None)"

definition json_object_get_number :: "json option \<Rightarrow> string \<Rightarrow> real" where
  "json_object_get_number js name = (case json_member js name of Some (JNumber x) \<Rightarrow> x | _ \<Rightarrow> 0)"

text \<open>The struct members that the code does not assign keep their value.\<close>

definition read_device_info :: "fake_env \<Rightarrow> string \<Rightarrow> freenect_device \<Rightarrow> freenect_device" where
  "read_device_info F input_path dev =
     (case fe_json F (input_path @ ''/device.json'') of
        None \<Rightarrow> dev
      | Some doc \<Rightarrow>
          let E = fe_env F; js = Some doc;
              reg_info = json_object_get_object js ''reg_info'';
              pad_info = json_object_get_object reg_info ''pad_info'';
              zp_info = json_object_get_object reg_info ''zero_plane_info'';
              num = (\<lambda>name. word_of_int (to_int32 E (json_object_get_number reg_info name)));
              pad = (\<lambda>name. to_uint16 E (json_object_get_number pad_info name));
              zpn = (\<lambda>name. e_rndf E (json_object_get_number zp_info name));
              reg = dv_registration dev
          in freenect_init_registration E (dev\<lparr>dv_registration := reg\<lparr>
               rg_reg_info := (rg_reg_info reg)\<lparr>
                 ri_ax := num ''ax'', ri_bx := num ''bx'', ri_cx := num ''cx'', ri_dx := num ''dx'',
                 ri_ay := num ''ay'', ri_by := num ''by'', ri_cy := num ''cy'', ri_dy := num ''dy'',
                 ri_dx_start := num ''dx_start'', ri_dy_start := num ''dy_start'',
                 ri_dx_beta_start := num ''dx_beta_start'', ri_dy_beta_start := num ''dy_beta_start'',
                 ri_dx_beta_inc := num ''dx_beta_inc'', ri_dy_beta_inc := num ''dy_beta_inc'',
                 ri_dxdx_start := num ''dxdx_start'', ri_dxdy_start := num ''dxdy_start'',
                 ri_dydx_start := num ''dydx_start'', ri_dydy_start := num ''dydy_start'',
                 ri_dxdxdx_start := num ''dxdxdx_start'', ri_dydxdx_start := num ''dydxdx_start'',
                 ri_dxdxdy_start := num ''dxdxdy_start'', ri_dydxdy_start := num ''dydxdy_start'',
                 ri_dydydx_start := num ''dydydx_start'', ri_dydydy_start := num ''dydydy_start''\<rparr>,
               rg_reg_pad_info := \<lparr>rp_start_lines = pad ''start_lines'', rp_end_lines = pad ''end_lines'',
                 rp_cropping_lines = pad ''cropping_lines''\<rparr>,
               rg_zero_plane_info := \<lparr>zp_dcmos_emitter_dist = zpn ''dcmos_emitter_distance'',
                 zp_dcmos_rcmos_dist = zpn ''dcmos_rcmos_distance'', zp_reference_distance = zpn ''reference_distance'',
                 zp_reference_pixel_size = zpn ''reference_pixel_size''\<rparr>,
               rg_const_shift := json_object_get_number js ''const_shift''\<rparr>\<rparr>))"

definition lower :: "char \<Rightarrow> char" where
  "lower c = (let n = of_char c :: nat in if 65 \<le> n \<and> n \<le> 90 then char_of (n + 32) else c)"

definition loops :: "string option \<Rightarrow> bool \<Rightarrow> bool" where
  "loops var loop_playback =
     (case var of
        None \<Rightarrow> loop_playback
      | Some v \<Rightarrow> if map lower v \<in> {''0'', ''false'', ''no'', ''off''} then False else loop_playback)"

definition fakenect_init :: "fake_env \<Rightarrow> fake \<Rightarrow> int outcome \<times> fake" where
  "fakenect_init F fk =
     (case fe_getenv F ''FAKENECT_PATH'' of
        None \<Rightarrow> (Exit 1, fk)
      | Some path \<Rightarrow>
          let (vb, h) = malloc (640*480*3) (fk_heap fk);
              (db, h) = malloc (640*480*2) h
          in (Return 0, fk\<lparr>fk_input_path := path, fk_loop_playback := loops (fe_getenv F ''FAKENECT_LOOP'') (fk_loop_playback fk),
                fk_dev := read_device_info F path (fk_dev fk), fk_video_mode := rgb_video_mode, fk_depth_mode := depth_11_mode,
                fk_default_video_back := vb, fk_default_depth_back := db, fk_heap := h\<rparr>))"

end
