(* ===== verification/Recorder.thy ===== *)
theory Recorder
  imports Fakenect
begin

text \<open>
  The record utility (fakenect/record.c): it writes what the callbacks of the library deliver into the
  directory that the fake library plays back. The libfreenect calls of its main loop are those of the
  other theories; here is what it does with their results.

  A file that is open for writing is its path; what is written is in the file at once.
\<close>

section \<open>Printing\<close>

text \<open>The decimal digits that \<open>%u\<close> prints, and the six digits of the fraction of \<open>%f\<close>.\<close>

fun print_u :: "nat \<Rightarrow> string" where
  "print_u n = (if n < 10 then [digit_char n] else print_u (n div 10) @ [digit_char (n mod 10)])"

declare print_u.simps [simp del]

definition print_fraction :: "nat \<Rightarrow> string" where
  "print_fraction n = map (\<lambda>k. digit_char (n div 10 ^ k mod 10)) [5, 4, 3, 2, 1, 0]"

definition print_f :: "nat \<Rightarrow> string" where
  "print_f time = print_u (time div 1000000) @ ''.'' @ print_fraction (time mod 1000000)"

section \<open>The files\<close>

record recorder =
  rc_out_dir :: string
  rc_files :: "string \<rightharpoonup> u8 list"
  rc_index_fp :: "string option"
  rc_last_timestamp :: u32

definition append_file :: "string \<Rightarrow> u8 list \<Rightarrow> recorder \<Rightarrow> recorder option" where
  "append_file path bs rc = do {
     old \<leftarrow> rc_files rc path;
     Some (rc\<lparr>rc_files := (rc_files rc)(path \<mapsto> old @ bs)\<rparr>)
   }"

abbreviation index_path :: "recorder \<Rightarrow> string" where
  "index_path rc \<equiv> rc_out_dir rc @ ''/INDEX.txt''"

text \<open>open_index; \<open>can_write\<close> says which files can be opened for writing.\<close>

definition record_open_index :: "(string \<Rightarrow> bool) \<Rightarrow> string \<Rightarrow> recorder \<Rightarrow> string option \<times> recorder" where
  "record_open_index can_write fn rc =
     (if rc_files rc fn \<noteq> None \<or> \<not> can_write fn then (None, rc)
      else (Some fn, rc\<lparr>rc_files := (rc_files rc)(fn \<mapsto> [])\<rparr>))"

definition dump_name :: "char \<Rightarrow> nat \<Rightarrow> u32 \<Rightarrow> string \<Rightarrow> string" where
  "dump_name type cur_time timestamp extension =
     type # ''-'' @ print_f cur_time @ ''-'' @ print_u (unat timestamp) @ ''.'' @ extension"

text \<open>The buffer of the two names has 50 bytes more than the directory; a longer name overflows it.\<close>

definition open_dump ::
    "(string \<Rightarrow> bool) \<Rightarrow> char \<Rightarrow> nat \<Rightarrow> u32 \<Rightarrow> string \<Rightarrow> recorder \<Rightarrow> (string outcome \<times> recorder) option" where
  "open_dump can_write type cur_time timestamp extension rc = do {
     let fn = dump_name type cur_time timestamp extension;
     let path = rc_out_dir rc @ ''/'' @ fn;
     if length path + 1 > length (rc_out_dir rc) + 50 then None
     else do {
       index \<leftarrow> rc_index_fp rc;
       rc \<leftarrow> append_file index (bytes_of (fn @ [newline])) rc;
       Some (if can_write path then (Return path, rc\<lparr>rc_files := (rc_files rc)(path \<mapsto> [])\<rparr>) else (Exit 1, rc))
     }
   }"

definition depth_header :: string where
  "depth_header = ''P5 640 480 65535'' @ [newline]"

definition rgb_header :: string where
  "rgb_header = ''P6 640 480 255'' @ [newline]"

definition dump_depth :: "string \<Rightarrow> u8 list \<Rightarrow> recorder \<Rightarrow> recorder option" where
  "dump_depth fp data rc = append_file fp (bytes_of depth_header @ data) rc"

definition dump_rgb :: "string \<Rightarrow> u8 list \<Rightarrow> recorder \<Rightarrow> recorder option" where
  "dump_rgb fp data rc = append_file fp (bytes_of rgb_header @ data) rc"

text \<open>\<open>data_size\<close> bytes are read from the block \<open>data\<close>; \<open>now\<close> is the result of get_time.\<close>

definition dump ::
    "(string \<Rightarrow> bool) \<Rightarrow> nat \<Rightarrow> char \<Rightarrow> u32 \<Rightarrow> u8 list \<Rightarrow> nat \<Rightarrow> recorder \<Rightarrow> (unit outcome \<times> recorder) option" where
  "dump can_write now type timestamp data data_size rc = do {
     let rc = rc\<lparr>rc_last_timestamp := timestamp\<rparr>;
     if type \<notin> set ''dra'' then Some (Return (), rc)
     else if data_size > length data then None
     else do {
       (fp, rc) \<leftarrow> open_dump can_write type now timestamp
          (if type = CHR ''d'' then ''pgm'' else if type = CHR ''r'' then ''ppm'' else ''dump'') rc;
       case fp of
         Exit n \<Rightarrow> Some (Exit n, rc)
       | Return fp \<Rightarrow> do {
           let bytes = take data_size data;
           rc \<leftarrow> (if type = CHR ''d'' then dump_depth fp bytes rc
                 else if type = CHR ''r'' then dump_rgb fp bytes rc else append_file fp bytes rc);
           Some (Return (), rc)
         }
     }
   }"

section \<open>The callbacks\<close>

definition depth_cb ::
    "(string \<Rightarrow> bool) \<Rightarrow> nat \<Rightarrow> freenect_frame_mode \<Rightarrow> u8 list \<Rightarrow> u32 \<Rightarrow> recorder \<Rightarrow> (unit outcome \<times> recorder) option" where
  "depth_cb can_write now mode depth timestamp rc = dump can_write now CHR ''d'' timestamp depth (nat (fm_bytes mode)) rc"

definition rgb_cb ::
    "(string \<Rightarrow> bool) \<Rightarrow> nat \<Rightarrow> freenect_frame_mode \<Rightarrow> u8 list \<Rightarrow> u32 \<Rightarrow> recorder \<Rightarrow> (unit outcome \<times> recorder) option" where
  "rgb_cb can_write now mode rgb timestamp rc = dump can_write now CHR ''r'' timestamp rgb (nat (fm_bytes mode)) rc"

text \<open>The struct in memory, with one byte of padding before the status.\<close>

definition tilt_state_bytes :: "u8 \<Rightarrow> freenect_raw_tilt_state \<Rightarrow> u8 list" where
  "tilt_state_bytes padding st =
     le16 (ts_accelerometer_x st) @ le16 (ts_accelerometer_y st) @ le16 (ts_accelerometer_z st) @
     [ts_tilt_angle st, padding] @ le32 (ucast (ts_tilt_status st))"

text \<open>\<open>st\<close> is the state that freenect_get_tilt_state returns after the update.\<close>

definition snapshot_accel ::
    "(string \<Rightarrow> bool) \<Rightarrow> nat \<Rightarrow> u8 \<Rightarrow> freenect_raw_tilt_state \<Rightarrow> recorder \<Rightarrow> (unit outcome \<times> recorder) option" where
  "snapshot_accel can_write now padding st rc =
     (if rc_last_timestamp rc = 0 then Some (Return (), rc)
      else dump can_write now CHR ''a'' (rc_last_timestamp rc) (tilt_state_bytes padding st) sizeof_tilt_state rc)"

section \<open>The streams for ffmpeg\<close>

text \<open>
  The bytes that are written to the pipe. dump_ffmpeg_pad16 takes \<open>data_size\<close>, a number of bytes, for
  a number of 16-bit words, and advances by two words.
\<close>

definition dump_ffmpeg_24 :: "u8 list \<Rightarrow> nat \<Rightarrow> u8 list option" where
  "dump_ffmpeg_24 data data_size = (if data_size > length data then None else Some (take data_size data))"

definition pad16_word :: "u8 list \<Rightarrow> nat \<Rightarrow> u8 list option" where
  "pad16_word data i = do {
     lo \<leftarrow> lookup data (2 * i);
     hi \<leftarrow> lookup data (2 * i + 1);
     Some [lo, hi, 0]
   }"

definition dump_ffmpeg_pad16 :: "u8 list \<Rightarrow> nat \<Rightarrow> u8 list option" where
  "dump_ffmpeg_pad16 data data_size =
     fold_opt (\<lambda>k out. do { bs \<leftarrow> pad16_word data (2 * k); Some (out @ bs) }) [0..<(data_size + 1) div 2] []"

section \<open>The description of the device\<close>

text \<open>The members of the three inner objects.\<close>

definition json_int32 :: "string \<Rightarrow> u32 \<Rightarrow> string \<times> json" where
  "json_int32 name w = (name, JNumber (real_of_int (sint w)))"

definition json_uint16 :: "string \<Rightarrow> u16 \<Rightarrow> string \<times> json" where
  "json_uint16 name w = (name, JNumber (real (unat w)))"

definition pad_info_members :: "freenect_reg_pad_info \<Rightarrow> (string \<times> json) list" where
  "pad_info_members rp =
     [json_uint16 ''start_lines'' (rp_start_lines rp), json_uint16 ''end_lines'' (rp_end_lines rp),
      json_uint16 ''cropping_lines'' (rp_cropping_lines rp)]"

definition zp_info_members :: "freenect_zero_plane_info \<Rightarrow> (string \<times> json) list" where
  "zp_info_members zp =
     [(''dcmos_emitter_distance'', JNumber (zp_dcmos_emitter_dist zp)),
      (''dcmos_rcmos_distance'', JNumber (zp_dcmos_rcmos_dist zp)),
      (''reference_distance'', JNumber (zp_reference_distance zp)),
      (''reference_pixel_size'', JNumber (zp_reference_pixel_size zp))]"

definition reg_info_members :: "freenect_registration \<Rightarrow> (string \<times> json) list" where
  "reg_info_members reg =
     (let ri = rg_reg_info reg; num = json_int32
      in [num ''ax'' (ri_ax ri), num ''bx'' (ri_bx ri), num ''cx'' (ri_cx ri), num ''dx'' (ri_dx ri),
          num ''ay'' (ri_ay ri), num ''by'' (ri_by ri), num ''cy'' (ri_cy ri), num ''dy'' (ri_dy ri),
          num ''dx_start'' (ri_dx_start ri), num ''dy_start'' (ri_dy_start ri),
          num ''dx_beta_start'' (ri_dx_beta_start ri), num ''dy_beta_start'' (ri_dy_beta_start ri),
          num ''dx_beta_inc'' (ri_dx_beta_inc ri), num ''dy_beta_inc'' (ri_dy_beta_inc ri),
          num ''dxdx_start'' (ri_dxdx_start ri), num ''dxdy_start'' (ri_dxdy_start ri),
          num ''dydx_start'' (ri_dydx_start ri), num ''dydy_start'' (ri_dydy_start ri),
          num ''dxdxdx_start'' (ri_dxdxdx_start ri), num ''dydxdx_start'' (ri_dydxdx_start ri),
          num ''dxdxdy_start'' (ri_dxdxdy_start ri), num ''dydxdy_start'' (ri_dydxdy_start ri),
          num ''dydydx_start'' (ri_dydydx_start ri), num ''dydydy_start'' (ri_dydydy_start ri),
          (''pad_info'', JObject (pad_info_members (rg_reg_pad_info reg))),
          (''zero_plane_info'', JObject (zp_info_members (rg_zero_plane_info reg)))])"

definition write_device_info :: "freenect_device \<Rightarrow> json" where
  "write_device_info dev =
     JObject [(''reg_info'', JObject (reg_info_members (dv_registration dev))),
              (''const_shift'', JNumber (rg_const_shift (dv_registration dev)))]"

end
