(* ===== verification/Playback.thy ===== *)
theory Playback
  imports Recorder
begin

text \<open>
  Recording and playing back: what the record utility writes is what the fake library delivers.
\<close>

section \<open>Numbers\<close>

lemma digit_char_digit: "n < 10 \<Longrightarrow> is_digit (digit_char n)"
  by (simp add: is_digit_def digit_char_def)

lemma digit_val_char: "n < 10 \<Longrightarrow> digit_val (digit_char n) = n"
  by (simp add: digit_val_def digit_char_def)

lemma nat_of_digits_snoc: "nat_of_digits (ds @ [c]) = 10 * nat_of_digits ds + digit_val c"
  by (simp add: nat_of_digits_def)

lemma nat_of_digits_print_u [simp]: "nat_of_digits (print_u n) = n"
proof (induction n rule: print_u.induct)
  case (1 n)
  then show ?case
    by (subst print_u.simps) (simp add: nat_of_digits_snoc digit_val_char, simp add: nat_of_digits_def digit_val_char)
qed

lemma print_u_digits: "c \<in> set (print_u n) \<Longrightarrow> is_digit c"
proof (induction n rule: print_u.induct)
  case (1 n)
  then show ?case by (subst (asm) (2) print_u.simps) (auto simp: digit_char_digit split: if_splits)
qed

lemma print_u_not_Nil [simp]: "print_u n \<noteq> []"
  by (subst print_u.simps) simp

lemma length_print_u: "n < 10 ^ k \<Longrightarrow> 0 < k \<Longrightarrow> length (print_u n) \<le> k"
proof (induction n arbitrary: k rule: print_u.induct)
  case (1 n)
  show ?case
  proof (cases "n < 10")
    case True
    then show ?thesis using 1(3) by (subst print_u.simps) simp
  next
    case False
    then obtain j where k: "k = Suc j" "0 < j" using 1(2,3) by (cases k; cases "k - 1") auto
    have "n div 10 < 10 ^ j" using 1(2) k(1) by (simp add: less_mult_imp_div_less mult.commute)
    with 1(1) False k have "length (print_u (n div 10)) \<le> j" by blast
    then show ?thesis using False k(1) by (subst print_u.simps) simp
  qed
qed

lemma print_fraction_digits: "c \<in> set (print_fraction n) \<Longrightarrow> is_digit c"
  by (auto simp: print_fraction_def digit_char_digit)

lemma length_print_fraction [simp]: "length (print_fraction n) = 6"
  by (simp add: print_fraction_def)

lemma nat_of_digits_print_fraction:
  assumes "n < 1000000"
  shows "nat_of_digits (print_fraction n) = n"
proof -
  have step: "10 * (n div (10 * m)) + n div m mod 10 = n div m" for m
    using mult_div_mod_eq [of 10 "n div m"] by (simp add: div_mult2_eq mult.commute)
  have "n div 100000 < 10" using assms by (simp add: less_mult_imp_div_less)
  then have "n div 100000 mod 10 = n div 100000" "digit_val (digit_char (n div 100000)) = n div 100000"
    by (simp_all add: digit_val_char)
  then show ?thesis
    using step [of 10000] step [of 1000] step [of 100] step [of 10] step [of 1]
    by (simp add: print_fraction_def nat_of_digits_def digit_val_char)
qed

lemma takeWhile_digits:
  assumes "\<And>c. c \<in> set ds \<Longrightarrow> is_digit c" and "\<not> is_digit c"
  shows "takeWhile is_digit (ds @ c # rest) = ds" and "dropWhile is_digit (ds @ c # rest) = c # rest"
  using assms by (simp_all add: takeWhile_append2 dropWhile_append2)

lemma scan_u_print: "n < 2 ^ 32 \<Longrightarrow> \<not> is_digit c \<Longrightarrow> scan_u (print_u n @ c # rest) = Some (n, c # rest)"
  by (simp add: scan_u_def takeWhile_digits print_u_digits)

lemma scan_lf_print:
  assumes "\<not> is_digit c"
  shows "scan_lf (print_f time @ c # rest) = Some (int time, c # rest)"
proof -
  have dot: "\<not> is_digit CHR ''.''" by (simp add: is_digit_def)
  have "int (time div 1000000) * 1000000 + int (time mod 1000000) = int time"
    using div_mult_mod_eq [of time 1000000] by (metis of_nat_add of_nat_mult of_nat_numeral)
  then show ?thesis
    by (simp add: scan_lf_def print_f_def takeWhile_digits [OF print_u_digits dot] takeWhile_digits [OF print_fraction_digits assms]
        nat_of_digits_print_fraction)
qed

lemma scan_dump_name [simp]: "scan_name (dump_name type time timestamp ext) = Some (type, int time, unat timestamp)"
proof -
  have "\<not> is_digit CHR ''-''" "\<not> is_digit CHR ''.''" by (simp_all add: is_digit_def)
  moreover have "unat timestamp < 2 ^ 32" using unsigned_less [of timestamp, where 'a = nat] by simp
  ultimately show ?thesis by (simp add: scan_name_def dump_name_def scan_lf_print scan_u_print)
qed

lemma dump_name_inject:
  "dump_name type time timestamp ext = dump_name type' time' timestamp' ext' \<Longrightarrow>
   type = type' \<and> time = time' \<and> timestamp = timestamp'"
  using scan_dump_name [of type time timestamp ext] scan_dump_name [of type' time' timestamp' ext'] by (auto simp: word_unat_eq_iff)

lemma text_of_bytes_of [simp]: "text_of (bytes_of s) = s"
proof -
  have "char_of (unat (of_char c :: u8)) = c" for c
  proof -
    have e: "(of_char c :: u8) = of_nat (of_char c)" by (rule of_nat_of_char [symmetric])
    have "unat (of_char c :: u8) = of_char c mod 256" by (subst e) (simp add: unat_of_nat)
    then show ?thesis by simp
  qed
  then show ?thesis by (induction s) (simp_all add: text_of_def bytes_of_def)
qed

section \<open>What a recording leaves on disk\<close>

text \<open>An item: its type, the time at which it was recorded, its timestamp and its data.\<close>

type_synonym item = "char \<times> nat \<times> u32 \<times> u8 list"

definition extension_of :: "char \<Rightarrow> string" where
  "extension_of type = (if type = CHR ''d'' then ''pgm'' else if type = CHR ''r'' then ''ppm'' else ''dump'')"

definition header_of :: "char \<Rightarrow> string" where
  "header_of type = (if type = CHR ''d'' then depth_header else if type = CHR ''r'' then rgb_header else [])"

fun item_name :: "item \<Rightarrow> string" where
  "item_name (type, time, timestamp, data) = dump_name type time timestamp (extension_of type)"

fun item_file :: "item \<Rightarrow> u8 list" where
  "item_file (type, time, timestamp, data) = bytes_of (header_of type) @ data"

fun item_key :: "item \<Rightarrow> char \<times> nat \<times> u32" where
  "item_key (type, time, timestamp, data) = (type, time, timestamp)"

text \<open>What the recorder writes: frames of 640x480 and states of the motor.\<close>

fun item_ok :: "item \<Rightarrow> bool" where
  "item_ok (type, time, timestamp, data) \<longleftrightarrow>
     time < 10 ^ 20 \<and>
     (type = CHR ''d'' \<and> length data = 614400 \<or> type = CHR ''r'' \<and> length data = 921600 \<or>
      type = CHR ''a'' \<and> length data = sizeof_tilt_state)"

definition record_items :: "(string \<Rightarrow> bool) \<Rightarrow> item list \<Rightarrow> recorder \<Rightarrow> recorder option" where
  "record_items can_write =
     fold_opt (\<lambda>(type, time, timestamp, data) rc. do {
       (r, rc) \<leftarrow> dump can_write time type timestamp data (length data) rc;
       case r of Return _ \<Rightarrow> Some rc | Exit _ \<Rightarrow> None
     })"

lemma item_name_key: "item_name i = item_name j \<Longrightarrow> item_key i = item_key j"
  by (cases i; cases j) (auto dest: dump_name_inject)

lemma length_item_name:
  assumes "item_ok i"
  shows "length (item_name i) \<le> 48"
proof -
  obtain type time timestamp data where i: "i = (type, time, timestamp, data)" by (cases i)
  have "time div 1000000 < 10 ^ 14" using assms by (simp add: i less_mult_imp_div_less)
  then have "length (print_u (time div 1000000)) \<le> 14" by (rule length_print_u) simp
  moreover have "unat timestamp < 10 ^ 10" using unsigned_less [of timestamp, where 'a = nat] by simp
  then have "length (print_u (unat timestamp)) \<le> 10" by (rule length_print_u) simp
  ultimately show ?thesis by (simp add: i dump_name_def print_f_def extension_of_def)
qed

lemma item_path_not_index: "item_ok i \<Longrightarrow> dir @ ''/'' @ item_name i \<noteq> dir @ ''/INDEX.txt''"
  by (cases i) (auto simp: dump_name_def)

lemma dump_item:
  assumes ok: "item_ok i" and i: "i = (type, time, timestamp, data)" and cw: "\<forall>p. can_write p"
    and fp: "rc_index_fp rc = Some (index_path rc)" and idx: "rc_files rc (index_path rc) = Some old"
  shows "\<exists>rc'. dump can_write time type timestamp data (length data) rc = Some (Return (), rc') \<and>
    rc_out_dir rc' = rc_out_dir rc \<and> rc_index_fp rc' = rc_index_fp rc \<and>
    rc_files rc' = (rc_files rc)(index_path rc \<mapsto> old @ bytes_of (item_name i @ [newline]),
      rc_out_dir rc @ ''/'' @ item_name i \<mapsto> item_file i)"
proof -
  have len: "\<not> length (rc_out_dir rc @ ''/'' @ item_name i) + 1 > length (rc_out_dir rc) + 50"
    using length_item_name [OF ok] by simp
  have ne: "rc_out_dir rc @ CHR ''/'' # item_name i \<noteq> rc_out_dir rc @ ''/INDEX.txt''"
    using item_path_not_index [OF ok, of "rc_out_dir rc"] by simp
  from ok have "type = CHR ''d'' \<or> type = CHR ''r'' \<or> type = CHR ''a''" by (auto simp: i)
  then show ?thesis
    using len cw fp idx ne
    by (elim disjE) (simp_all add: i dump_def open_dump_def append_file_def dump_depth_def dump_rgb_def
        extension_of_def header_of_def bytes_of_def fun_upd_twist Let_def)
qed

lemma record_items_files:
  assumes "\<forall>i \<in> set items. item_ok i" and "distinct (map item_key items)" and "\<forall>p. can_write p"
    and "rc_index_fp rc = Some (index_path rc)" and "rc_files rc (index_path rc) = Some old"
  shows "\<exists>rc'. record_items can_write items rc = Some rc' \<and> rc_out_dir rc' = rc_out_dir rc \<and>
    rc_files rc' (index_path rc) = Some (old @ bytes_of (concat (map (\<lambda>i. item_name i @ [newline]) items))) \<and>
    (\<forall>i \<in> set items. rc_files rc' (rc_out_dir rc @ ''/'' @ item_name i) = Some (item_file i)) \<and>
    (\<forall>p. p \<noteq> index_path rc \<and> (\<forall>i \<in> set items. p \<noteq> rc_out_dir rc @ ''/'' @ item_name i) \<longrightarrow> rc_files rc' p = rc_files rc p)"
  using assms
proof (induction items arbitrary: rc old)
  case Nil
  then show ?case by (simp add: record_items_def bytes_of_def)
next
  case (Cons i items)
  obtain type time timestamp data where i: "i = (type, time, timestamp, data)" by (cases i)
  have ok: "item_ok i" using Cons.prems(1) by simp
  from dump_item [OF ok i Cons.prems(3,4,5)] obtain rc1 where
    1: "dump can_write time type timestamp data (length data) rc = Some (Return (), rc1)" "rc_out_dir rc1 = rc_out_dir rc"
      "rc_index_fp rc1 = rc_index_fp rc"
      "rc_files rc1 = (rc_files rc)(index_path rc \<mapsto> old @ bytes_of (item_name i @ [newline]),
        rc_out_dir rc @ ''/'' @ item_name i \<mapsto> item_file i)" by blast
  have ne: "rc_out_dir rc @ ''/'' @ item_name i \<noteq> index_path rc" by (rule item_path_not_index [OF ok])
  have oks: "\<forall>i \<in> set items. item_ok i" "distinct (map item_key items)" using Cons.prems(1,2) by simp_all
  have "rc_files rc1 (index_path rc1) = Some (old @ bytes_of (item_name i @ [newline]))" using 1(2,4) ne by simp
  moreover have "rc_index_fp rc1 = Some (index_path rc1)" using 1(2,3) Cons.prems(4) by simp
  ultimately obtain rc2 where
    2: "record_items can_write items rc1 = Some rc2" "rc_out_dir rc2 = rc_out_dir rc1"
      "rc_files rc2 (index_path rc1) = Some ((old @ bytes_of (item_name i @ [newline])) @
        bytes_of (concat (map (\<lambda>i. item_name i @ [newline]) items)))"
      "\<forall>j \<in> set items. rc_files rc2 (rc_out_dir rc1 @ ''/'' @ item_name j) = Some (item_file j)"
      "\<forall>p. p \<noteq> index_path rc1 \<and> (\<forall>j \<in> set items. p \<noteq> rc_out_dir rc1 @ ''/'' @ item_name j) \<longrightarrow> rc_files rc2 p = rc_files rc1 p"
    using Cons.IH [OF oks Cons.prems(3), of rc1 "old @ bytes_of (item_name i @ [newline])"] by blast
  have run: "record_items can_write (i # items) rc = Some rc2"
    using 1(1) 2(1) by (simp add: record_items_def i)
  have new: "item_name i \<noteq> item_name j" if "j \<in> set items" for j
    using Cons.prems(2) that item_name_key [of i j] by (auto simp: image_iff)
  have "rc_files rc2 (rc_out_dir rc @ ''/'' @ item_name i) = rc_files rc1 (rc_out_dir rc @ ''/'' @ item_name i)"
    using 2(5) 1(2) ne new by simp
  then have mine: "rc_files rc2 (rc_out_dir rc @ ''/'' @ item_name i) = Some (item_file i)" using 1(4) by simp
  have rest: "rc_files rc2 p = rc_files rc p"
    if "p \<noteq> index_path rc" "\<forall>j \<in> set (i # items). p \<noteq> rc_out_dir rc @ ''/'' @ item_name j" for p
    using that 2(5) 1(2,4) by simp
  have idx: "rc_files rc2 (index_path rc) = Some (old @ bytes_of (concat (map (\<lambda>i. item_name i @ [newline]) (i # items))))"
    using 2(3) 1(2) by (simp add: bytes_of_def)
  show ?case using run 1(2) 2(2,4) mine rest idx by (intro exI [of _ rc2]) simp
qed

section \<open>Playing one item\<close>

text \<open>
  The fake library as a client uses it: both streams run into the two default buffers of the size of a
  frame, in the modes that freenect_init sets.
\<close>

definition playing :: "nat \<Rightarrow> nat \<Rightarrow> fake \<Rightarrow> bool" where
  "playing dcb vcb fk \<longleftrightarrow>
     fk_cur_depth_cb fk = Some dcb \<and> fk_cur_video_cb fk = Some vcb \<and> fk_depth_running fk \<and> fk_rgb_running fk \<and>
     fk_depth_mode fk = depth_11_mode \<and> fk_video_mode fk = rgb_video_mode \<and>
     fk_user_depth_buf fk = None \<and> fk_user_video_buf fk = None \<and>
     map_option length (mem_block (fk_default_depth_back fk) (fk_heap fk)) = Some 614400 \<and>
     map_option length (mem_block (fk_default_video_back fk) (fk_heap fk)) = Some 921600"

text \<open>What the client sees of an item, and the state of the motor afterwards.\<close>

fun shown :: "nat \<Rightarrow> nat \<Rightarrow> fake \<Rightarrow> item \<Rightarrow> fake_io list" where
  "shown dcb vcb fk (type, time, timestamp, data) =
     (if type = CHR ''d'' then [FK_depth_cb dcb (fk_default_depth_back fk) data timestamp]
      else if type = CHR ''r'' then [FK_video_cb vcb (fk_default_video_back fk) data timestamp] else [])"

fun motor_after :: "item \<Rightarrow> u8 list \<Rightarrow> u8 list" where
  "motor_after (type, time, timestamp, data) st = (if type = CHR ''a'' then data else st)"

fun is_shown :: "fake_io \<Rightarrow> bool" where
  "is_shown (FK_depth_cb cb p blk ts) \<longleftrightarrow> True"
| "is_shown (FK_video_cb cb p blk ts) \<longleftrightarrow> True"
| "is_shown ev \<longleftrightarrow> False"

lemma skip_header [simp]:
  "skip_line (bytes_of depth_header @ data) = Some (Return data)"
  "skip_line (bytes_of rgb_header @ data) = Some (Return data)"
  by (simp_all add: depth_header_def rgb_header_def bytes_of_def)

lemma memcpy_whole:
  assumes "map_option length (mem_block p h) = Some n" and "length bs = n"
  shows "\<exists>h'. memcpy_from p bs (int n) h = Some h' \<and> mem_block p h' = Some bs \<and>
    (\<forall>q. map_option length (mem_block q h') = map_option length (mem_block q h))"
proof -
  obtain a blk where a: "p = Some a" "hp_blocks h a = Some blk" "length blk = n"
    using assms(1) by (cases p) auto
  have "blit 0 bs blk = bs" using a(3) assms(2) by (simp add: blit_def)
  then have "memcpy_from p bs (int n) h = Some (h\<lparr>hp_blocks := (hp_blocks h)(a \<mapsto> bs)\<rparr>)"
    using a assms(2) by (simp add: memcpy_from_def mem_write_ok)
  moreover have "map_option length (mem_block q (h\<lparr>hp_blocks := (hp_blocks h)(a \<mapsto> bs)\<rparr>)) = map_option length (mem_block q h)" for q
    using a assms(2) by (cases q) auto
  ultimately show ?thesis using a(1) by (intro exI [of _ "h\<lparr>hp_blocks := (hp_blocks h)(a \<mapsto> bs)\<rparr>"]) simp
qed

text \<open>The part of the state that playing an item does not change.\<close>

definition keeps :: "fake \<Rightarrow> fake \<Rightarrow> bool" where
  "keeps fk fk' \<longleftrightarrow>
     fk_default_depth_back fk' = fk_default_depth_back fk \<and> fk_default_video_back fk' = fk_default_video_back fk \<and>
     fk_input_path fk' = fk_input_path fk \<and> fk_index_fp fk' = fk_index_fp fk \<and> fk_loop_playback fk' = fk_loop_playback fk"

lemma play_item_ok:
  assumes p: "playing dcb vcb fk" and ok: "item_ok i" and i: "i = (type, time, timestamp, data)"
  shows "\<exists>fk'. play_item F type (unat timestamp) (item_file i) fk = Some (Return (), fk') \<and> playing dcb vcb fk' \<and> keeps fk fk' \<and>
    fk_io fk' = shown dcb vcb fk i @ fk_io fk \<and> fk_state fk' = motor_after i (fk_state fk)"
proof -
  from ok consider (d) "type = CHR ''d''" "length data = 614400" | (r) "type = CHR ''r''" "length data = 921600"
    | (a) "type = CHR ''a''" "length data = sizeof_tilt_state" by (auto simp: i)
  then show ?thesis
  proof cases
    case d
    from memcpy_whole [of "fk_default_depth_back fk" "fk_heap fk" 614400 data] p d(2) obtain h where
      h: "memcpy_from (fk_default_depth_back fk) data 614400 (fk_heap fk) = Some h"
        "mem_block (fk_default_depth_back fk) h = Some data"
        "\<forall>q. map_option length (mem_block q h) = map_option length (mem_block q (fk_heap fk))"
      by (auto simp: playing_def)
    have "fm_format depth_11_mode = depth_format_val FREENECT_DEPTH_11BIT" "fm_bytes depth_11_mode = 614400"
      by (simp_all add: depth_11_mode_def mode_row_def)
    moreover have "map_option length (mem_block (fk_default_video_back fk) h) = Some 921600" using h(3) p by (simp add: playing_def)
    ultimately show ?thesis using p d h(1,2)
      by (simp add: play_item_def i header_of_def depth_frame_def playing_def Let_def keeps_def fake_emit_def)
  next
    case r
    from memcpy_whole [of "fk_default_video_back fk" "fk_heap fk" 921600 data] p r(2) obtain h where
      h: "memcpy_from (fk_default_video_back fk) data 921600 (fk_heap fk) = Some h"
        "mem_block (fk_default_video_back fk) h = Some data"
        "\<forall>q. map_option length (mem_block q h) = map_option length (mem_block q (fk_heap fk))"
      by (auto simp: playing_def)
    have "fm_format rgb_video_mode = video_format_val FREENECT_VIDEO_RGB" "fm_bytes rgb_video_mode = 921600"
      by (simp_all add: rgb_video_mode_def mode_row_def)
    moreover have "map_option length (mem_block (fk_default_depth_back fk) h) = Some 614400" using h(3) p by (simp add: playing_def)
    ultimately show ?thesis using p r h(1,2)
      by (simp add: play_item_def i header_of_def video_frame_def playing_def Let_def keeps_def fake_emit_def)
  next
    case a
    with p show ?thesis
      by (simp add: play_item_def i header_of_def bytes_of_def playing_def keeps_def)
  qed
qed

lemma playing_simps [simp]:
  "playing dcb vcb (fk\<lparr>fk_index_fp := x\<rparr>) = playing dcb vcb fk"
  "playing dcb vcb (fk\<lparr>fk_record_prev_time := t\<rparr>) = playing dcb vcb fk"
  "playing dcb vcb (fk\<lparr>fk_playback_prev_time := t\<rparr>) = playing dcb vcb fk"
  "playing dcb vcb (fk\<lparr>fk_io := evs\<rparr>) = playing dcb vcb fk"
  by (simp_all add: playing_def)

lemma item_name_chars:
  assumes "item_ok i" and "c \<in> set (item_name i)"
  shows "c \<noteq> newline \<and> c \<noteq> CHR 0x00"
proof -
  obtain type time timestamp data where i: "i = (type, time, timestamp, data)" by (cases i)
  have "is_digit x \<Longrightarrow> x \<noteq> newline \<and> x \<noteq> CHR 0x00" for x by (auto simp: is_digit_def)
  then show ?thesis using assms print_u_digits print_fraction_digits
    by (fastforce simp: i dump_name_def print_f_def extension_of_def split: if_splits)
qed

lemma parse_item:
  assumes ok: "item_ok i" and i: "i = (type, time, timestamp, data)"
    and fp: "fk_index_fp fk = Some (item_name i @ newline # rest)"
    and fl: "fe_files F (fk_input_path fk @ ''/'' @ item_name i) = Some (item_file i)"
  shows "parse_line F fk = Some (Return (Parsed type (int time) (unat timestamp) (item_file i)), fk\<lparr>fk_index_fp := Some rest\<rparr>)"
proof -
  have line: "takeWhile (\<lambda>c. c \<noteq> newline) (item_name i @ newline # rest) = item_name i"
    "takeWhile (\<lambda>c. c \<noteq> CHR 0x00) (item_name i) = item_name i"
    using item_name_chars [OF ok] by (simp_all add: takeWhile_append2 takeWhile_eq_all_conv)
  have "item_name i \<noteq> []" by (simp add: i dump_name_def)
  moreover have "item_file i \<noteq> []" using ok by (auto simp: i)
  moreover have "scan_name (item_name i) = Some (type, int time, unat timestamp)" by (simp add: i)
  ultimately have "one_line (item_name i @ newline # rest) = (Some (item_name i), rest)"
    unfolding one_line_def Let_def line(1) by simp
  with \<open>item_file i \<noteq> []\<close> \<open>scan_name (item_name i) = _\<close> show ?thesis using fp fl by (simp add: parse_line_def Let_def line(2))
qed

lemma catch_up_waits:
  "\<exists>evs. catch_up F t fk = fk\<lparr>fk_io := evs\<rparr> \<and> filter is_shown evs = filter is_shown (fk_io fk)"
proof (cases "fk_record_prev_time fk \<noteq> 0 \<and> fk_playback_prev_time fk \<noteq> 0")
  case True
  define tm where "tm = (t - fk_record_prev_time fk) - (fe_time F (FK_get_time # fk_io fk) - fk_playback_prev_time fk)"
  let ?evs = "(if tm > 0 then [FK_usleep (tm mod 1000000), FK_sleep (tm div 1000000)] else []) @ FK_get_time # fk_io fk"
  have "catch_up F t fk = sleep_highres tm (fk\<lparr>fk_io := FK_get_time # fk_io fk\<rparr>)"
    using True by (simp add: catch_up_def get_time_def fake_emit_def tm_def)
  then have "catch_up F t fk = fk\<lparr>fk_io := ?evs\<rparr>" by (simp add: sleep_highres_def fake_emit_def)
  then show ?thesis by (intro exI [of _ ?evs]) simp
next
  case False
  then show ?thesis unfolding catch_up_def by (intro exI [of _ "fk_io fk"]) auto
qed

lemma process_events_plays_aux:
  assumes p: "playing dcb vcb fk" and ok: "item_ok i"
    and fp: "fk_index_fp fk = Some (item_name i @ newline # rest)"
    and fl: "fe_files F (fk_input_path fk @ ''/'' @ item_name i) = Some (item_file i)"
  shows "\<exists>fk'. fakenect_process_events F fk = Some (Return 0, fk') \<and> playing dcb vcb fk' \<and> keeps (fk\<lparr>fk_index_fp := Some rest\<rparr>) fk' \<and>
    filter is_shown (fk_io fk') = shown dcb vcb fk i @ filter is_shown (fk_io fk) \<and>
    fk_state fk' = motor_after i (fk_state fk)"
proof -
  obtain type time timestamp data where i: "i = (type, time, timestamp, data)" by (cases i)
  let ?fk1 = "fk\<lparr>fk_index_fp := Some rest\<rparr>"
  let ?fk2 = "catch_up F (int time) ?fk1"
  obtain evs where evs: "?fk2 = ?fk1\<lparr>fk_io := evs\<rparr>" "filter is_shown evs = filter is_shown (fk_io fk)"
    using catch_up_waits [of F "int time" ?fk1] by auto
  let ?fk3 = "?fk2\<lparr>fk_record_prev_time := int time\<rparr>"
  have "playing dcb vcb ?fk3" using p by (simp add: evs(1))
  from play_item_ok [OF this ok i] obtain fk4 where
    4: "play_item F type (unat timestamp) (item_file i) ?fk3 = Some (Return (), fk4)" "playing dcb vcb fk4" "keeps ?fk3 fk4"
      "fk_io fk4 = shown dcb vcb ?fk3 i @ fk_io ?fk3" "fk_state fk4 = motor_after i (fk_state ?fk3)" by blast
  let ?fk5 = "fk4\<lparr>fk_io := FK_get_time # fk_io fk4, fk_playback_prev_time := fe_time F (FK_get_time # fk_io fk4)\<rparr>"
  have "fakenect_process_events F fk = Some (Return 0, ?fk5)"
    using fp parse_item [OF ok i fp fl] 4(1)
    by (simp add: fakenect_process_events_def get_time_def fake_emit_def)
  moreover have "shown dcb vcb ?fk3 i = shown dcb vcb fk i" "filter is_shown (shown dcb vcb fk i) = shown dcb vcb fk i"
    by (simp_all add: i evs(1))
  moreover have "keeps ?fk1 ?fk5" using 4(3) by (simp add: keeps_def evs(1))
  ultimately show ?thesis using 4(2,4,5) evs by (intro exI [of _ ?fk5]) simp
qed

text \<open>
  One call of the fake library's freenect_process_events. When the next line of the index names a
  recorded item, the call returns 0 after it has handed exactly the recorded frame, with its
  timestamp, to the client, or has taken over the recorded state of the motor; and it has gone on
  by one line.
\<close>

theorem process_events_plays:
  assumes p: "playing dcb vcb fk" and ok: "item_ok i"
    and fp: "fk_index_fp fk = Some (item_name i @ newline # rest)"
    and fl: "fe_files F (fk_input_path fk @ ''/'' @ item_name i) = Some (item_file i)"
  shows "\<exists>fk'. fakenect_process_events F fk = Some (Return 0, fk') \<and> playing dcb vcb fk' \<and> keeps (fk\<lparr>fk_index_fp := Some rest\<rparr>) fk' \<and>
    filter is_shown (fk_io fk') = shown dcb vcb fk i @ filter is_shown (fk_io fk) \<and>
    fk_state fk' = motor_after i (fk_state fk)"
  using assms by (rule process_events_plays_aux)

section \<open>Playing a recording\<close>

text \<open>A client that calls freenect_process_events as long as it returns 0, \<open>n\<close> times.\<close>

primrec play_events :: "nat \<Rightarrow> fake_env \<Rightarrow> fake \<Rightarrow> fake option" where
  "play_events 0 F fk = Some fk"
| "play_events (Suc n) F fk = do {
     (r, fk) \<leftarrow> fakenect_process_events F fk;
     if r = Return 0 then play_events n F fk else None
   }"

abbreviation index_text :: "item list \<Rightarrow> string" where
  "index_text items \<equiv> concat (map (\<lambda>i. item_name i @ [newline]) items)"

lemma keepsD:
  assumes "keeps fk fk'"
  shows "fk_input_path fk' = fk_input_path fk" and "fk_index_fp fk' = fk_index_fp fk"
    and "fk_loop_playback fk' = fk_loop_playback fk" and "shown dcb vcb fk' = shown dcb vcb fk"
proof -
  show "shown dcb vcb fk' = shown dcb vcb fk"
  proof (rule ext)
    show "shown dcb vcb fk' i = shown dcb vcb fk i" for i using assms by (cases i) (simp add: keeps_def)
  qed
qed (use assms in \<open>simp_all add: keeps_def\<close>)

lemma shown_index [simp]: "shown dcb vcb (fk\<lparr>fk_index_fp := x\<rparr>) = shown dcb vcb fk"
proof (rule ext)
  show "shown dcb vcb (fk\<lparr>fk_index_fp := x\<rparr>) i = shown dcb vcb fk i" for i by (cases i) simp
qed

lemma play_items:
  assumes "playing dcb vcb fk" and "\<forall>i \<in> set items. item_ok i" and "fk_index_fp fk = Some (index_text items @ rest)"
    and "\<forall>i \<in> set items. fe_files F (fk_input_path fk @ ''/'' @ item_name i) = Some (item_file i)"
  shows "\<exists>fk'. play_events (length items) F fk = Some fk' \<and> playing dcb vcb fk' \<and> fk_index_fp fk' = Some rest \<and>
    fk_loop_playback fk' = fk_loop_playback fk \<and> fk_input_path fk' = fk_input_path fk \<and>
    rev (filter is_shown (fk_io fk')) = rev (filter is_shown (fk_io fk)) @ concat (map (shown dcb vcb fk) items) \<and>
    fk_state fk' = fold motor_after items (fk_state fk)"
  using assms
proof (induction items arbitrary: fk)
  case (Cons i items)
  have ok: "item_ok i" and fp: "fk_index_fp fk = Some (item_name i @ newline # (index_text items @ rest))"
    and fl: "fe_files F (fk_input_path fk @ ''/'' @ item_name i) = Some (item_file i)"
    using Cons.prems(2-4) by simp_all
  from process_events_plays_aux [OF Cons.prems(1) ok fp fl] obtain fk1 where
    1: "fakenect_process_events F fk = Some (Return 0, fk1)" "playing dcb vcb fk1"
      "keeps (fk\<lparr>fk_index_fp := Some (index_text items @ rest)\<rparr>) fk1"
      "filter is_shown (fk_io fk1) = shown dcb vcb fk i @ filter is_shown (fk_io fk)"
      "fk_state fk1 = motor_after i (fk_state fk)" by blast
  note k = keepsD [OF 1(3)]
  have same: "shown dcb vcb fk1 = shown dcb vcb fk"
    using k(4) [of dcb vcb] by simp
  have sr: "rev (shown dcb vcb fk i) = shown dcb vcb fk i" by (cases i) simp
  have "fk_index_fp fk1 = Some (index_text items @ rest)" using k(2) by simp
  moreover have "\<forall>j \<in> set items. fe_files F (fk_input_path fk1 @ ''/'' @ item_name j) = Some (item_file j)"
    using Cons.prems(4) k(1) by simp
  ultimately obtain fk2 where 2: "play_events (length items) F fk1 = Some fk2" "playing dcb vcb fk2"
      "fk_index_fp fk2 = Some rest" "fk_loop_playback fk2 = fk_loop_playback fk1" "fk_input_path fk2 = fk_input_path fk1"
      "rev (filter is_shown (fk_io fk2)) = rev (filter is_shown (fk_io fk1)) @ concat (map (shown dcb vcb fk1) items)"
      "fk_state fk2 = fold motor_after items (fk_state fk1)"
    using Cons.IH [OF 1(2)] Cons.prems(2) by auto
  show ?case using 1 2 k(1,3) sr by (intro exI [of _ fk2]) (simp add: same)
qed simp

lemma process_events_opens:
  assumes "fk_index_fp fk = None" and "fe_files F (fk_input_path fk @ ''/INDEX.txt'') = Some bs"
  shows "fakenect_process_events F fk = fakenect_process_events F (fk\<lparr>fk_index_fp := Some (text_of bs)\<rparr>)"
  using assms by (simp add: fakenect_process_events_def open_index_def)

text \<open>
  What is recorded is what is played. When the record utility writes any sequence of frames and
  motor states, no two of the same type, time and timestamp, into a new directory, a client of the
  fake library on that directory is handed exactly the recorded frames with their timestamps, in
  order, one item per call, and sees the motor state recorded last.
\<close>

theorem record_then_play:
  assumes "\<forall>i \<in> set items. item_ok i" and "distinct (map item_key items)" and "\<forall>p. can_write p"
    and "rc_index_fp rc = Some (index_path rc)" and "rc_files rc (index_path rc) = Some []"
    and "record_items can_write items rc = Some rc'"
    and "fe_files F = rc_files rc'" and "playing dcb vcb fk" and "fk_index_fp fk = None" and "fk_input_path fk = rc_out_dir rc"
  shows "\<exists>fk'. play_events (length items) F fk = Some fk' \<and> playing dcb vcb fk' \<and>
    rev (filter is_shown (fk_io fk')) = rev (filter is_shown (fk_io fk)) @ concat (map (shown dcb vcb fk) items) \<and>
    fk_state fk' = fold motor_after items (fk_state fk)"
proof -
  from record_items_files [OF assms(1-5)] assms(6) have
    files: "rc_files rc' (index_path rc) = Some (bytes_of (index_text items))"
      "\<forall>i \<in> set items. rc_files rc' (rc_out_dir rc @ ''/'' @ item_name i) = Some (item_file i)" by auto
  let ?fk = "fk\<lparr>fk_index_fp := Some (index_text items)\<rparr>"
  from play_items [of dcb vcb ?fk items "[]" F] assms(1,7,8,10) files(2) obtain fk' where
    fk': "play_events (length items) F ?fk = Some fk'" "playing dcb vcb fk'"
      "rev (filter is_shown (fk_io fk')) = rev (filter is_shown (fk_io fk)) @ concat (map (shown dcb vcb fk) items)"
      "fk_state fk' = fold motor_after items (fk_state fk)" by auto
  show ?thesis
  proof (cases items)
    case Nil
    then show ?thesis using assms(8) by simp
  next
    case (Cons i js)
    have "fakenect_process_events F fk = fakenect_process_events F ?fk"
      using process_events_opens [of fk F] assms(7,9,10) files(1) by simp
    with fk' Cons show ?thesis by simp
  qed
qed

text \<open>
  The end of the playback, and an empty line. When no characters are left on the line, because the
  index has ended or because the line is empty, the call delivers nothing: with looping it returns 0
  and the next call starts over at the beginning of the index; without looping it returns -1. Items
  that follow an empty line are therefore never played with looping.
\<close>

theorem playback_ends:
  assumes "fk_index_fp fk = Some fp" and "fp = [] \<or> hd fp = newline"
    and "fe_files F (fk_input_path fk @ ''/INDEX.txt'') = Some bs"
  shows "\<exists>fk'. fakenect_process_events F fk = Some (Return (if fk_loop_playback fk then 0 else -1), fk') \<and> fk_io fk' = fk_io fk \<and>
    (fk_loop_playback fk \<longrightarrow>
      fakenect_process_events F fk' = fakenect_process_events F (fk'\<lparr>fk_index_fp := Some (text_of bs)\<rparr>))"
proof -
  have "one_line fp = (None, drop 1 fp)" using assms(2) by (cases fp) (auto simp: one_line_def)
  then have run: "fakenect_process_events F fk =
      Some (if fk_loop_playback fk then (Return 0, close_index (fk\<lparr>fk_index_fp := Some (drop 1 fp)\<rparr>))
            else (Return (-1), fk\<lparr>fk_index_fp := Some (drop 1 fp)\<rparr>))"
    using assms(1) by (simp add: fakenect_process_events_def parse_line_def)
  show ?thesis
  proof (cases "fk_loop_playback fk")
    case True
    let ?fk = "close_index (fk\<lparr>fk_index_fp := Some (drop 1 fp)\<rparr>)"
    have "fakenect_process_events F ?fk = fakenect_process_events F (?fk\<lparr>fk_index_fp := Some (text_of bs)\<rparr>)"
      by (rule process_events_opens) (use assms(3) in \<open>simp_all add: close_index_def\<close>)
    then show ?thesis using run True by (intro exI [of _ ?fk]) (simp add: close_index_def)
  next
    case False
    then show ?thesis using run by simp
  qed
qed

section \<open>Witnesses\<close>

text \<open>An environment that rounds nothing and a recording of one motor state and one depth frame.\<close>

definition demo_items :: "item list" where
  "demo_items = [(CHR ''a'', 1300000000123456, 7, replicate 12 1), (CHR ''d'', 1300000000200000, 8, replicate 614400 5)]"

definition demo_recorder :: recorder where
  "demo_recorder = \<lparr>rc_out_dir = ''out'', rc_files = [''out/INDEX.txt'' \<mapsto> []], rc_index_fp = Some ''out/INDEX.txt'',
     rc_last_timestamp = 0\<rparr>"

definition demo_env :: "(string \<rightharpoonup> u8 list) \<Rightarrow> fake_env" where
  "demo_env files = \<lparr>fe_env = quiet_env, fe_files = files, fe_time = (\<lambda>_. 0), fe_getenv = (\<lambda>_. Some ''out''), fe_json = (\<lambda>_. None)\<rparr>"

definition demo_fake :: fake where
  "demo_fake = \<lparr>fk_dev = zero_device, fk_cur_depth_cb = Some 2, fk_cur_video_cb = Some 1, fk_input_path = ''out'', fk_index_fp = None,
     fk_state = replicate 12 0, fk_ir_brightness = 25, fk_already_warned = False, fk_playback_prev_time = 0, fk_record_prev_time = 0,
     fk_user_depth_buf = None, fk_user_video_buf = None, fk_depth_running = True, fk_rgb_running = True, fk_user_ptr = None,
     fk_loop_playback = True, fk_video_mode = rgb_video_mode, fk_depth_mode = depth_11_mode, fk_default_video_back = Some 0,
     fk_default_depth_back = Some 1,
     fk_heap = \<lparr>hp_blocks = [0 \<mapsto> replicate 921600 0, 1 \<mapsto> replicate 614400 0], hp_next = 2, hp_avail = 0, hp_fill = 0\<rparr>, fk_io = []\<rparr>"

lemma demo_playing: "playing 2 1 demo_fake"
  by (simp add: playing_def demo_fake_def)

theorem record_then_play_witness:
  "\<exists>rc' fk'. record_items (\<lambda>_. True) demo_items demo_recorder = Some rc' \<and>
    play_events 2 (demo_env (rc_files rc')) demo_fake = Some fk' \<and>
    filter is_shown (fk_io fk') = [FK_depth_cb 2 (Some 1) (replicate 614400 5) 8] \<and> fk_state fk' = replicate 12 1"
proof -
  have items: "\<forall>i \<in> set demo_items. item_ok i" "distinct (map item_key demo_items)" by (simp_all add: demo_items_def)
  have rc: "rc_index_fp demo_recorder = Some (index_path demo_recorder)" "rc_files demo_recorder (index_path demo_recorder) = Some []"
    by (simp_all add: demo_recorder_def)
  obtain rc' where run: "record_items (\<lambda>_. True) demo_items demo_recorder = Some rc'"
    using record_items_files [OF items _ rc, of "\<lambda>_. True"] by auto
  have fk: "fk_index_fp demo_fake = None" "fk_input_path demo_fake = rc_out_dir demo_recorder"
    by (simp_all add: demo_fake_def demo_recorder_def)
  have "fe_files (demo_env (rc_files rc')) = rc_files rc'" by (simp add: demo_env_def)
  from record_then_play [OF items _ rc run this demo_playing fk] obtain fk' where
    fk': "play_events (length demo_items) (demo_env (rc_files rc')) demo_fake = Some fk'"
      "rev (filter is_shown (fk_io fk')) = rev (filter is_shown (fk_io demo_fake)) @ concat (map (shown 2 1 demo_fake) demo_items)"
      "fk_state fk' = fold motor_after demo_items (fk_state demo_fake)" by auto
  have "concat (map (shown 2 1 demo_fake) demo_items) = [FK_depth_cb 2 (Some 1) (replicate 614400 5) 8]"
    "fk_io demo_fake = []" "length demo_items = 2"
    by (simp_all add: demo_items_def demo_fake_def)
  moreover have "fold motor_after demo_items (fk_state demo_fake) = replicate 12 1" by (simp add: demo_items_def)
  ultimately show ?thesis using run fk' by (auto simp: rev_eq_Cons_iff)
qed

theorem process_events_plays_witness:
  "\<exists>fk'. fakenect_process_events
      ((demo_env [''out/'' @ item_name (hd demo_items) \<mapsto> item_file (hd demo_items)])\<lparr>fe_time := \<lambda>_. 5\<rparr>)
      (demo_fake\<lparr>fk_index_fp := Some (item_name (hd demo_items) @ newline # ''next'')\<rparr>) = Some (Return 0, fk') \<and>
    fk_state fk' = replicate 12 1 \<and> fk_index_fp fk' = Some ''next''"
proof -
  let ?i = "hd demo_items"
  let ?fk = "demo_fake\<lparr>fk_index_fp := Some (item_name ?i @ newline # ''next'')\<rparr>"
  let ?F = "(demo_env [''out/'' @ item_name ?i \<mapsto> item_file ?i])\<lparr>fe_time := \<lambda>_. 5\<rparr>"
  have ok: "item_ok ?i" "motor_after ?i (fk_state ?fk) = replicate 12 1" by (simp_all add: demo_items_def)
  have "fk_input_path ?fk = ''out''" by (simp add: demo_fake_def)
  then have "fe_files ?F (fk_input_path ?fk @ ''/'' @ item_name ?i) = Some (item_file ?i)" by (simp add: demo_env_def)
  from process_events_plays [OF _ ok(1) _ this, of 2 1 "''next''"] demo_playing ok(2) show ?thesis
    by (auto simp: keeps_def)
qed

theorem playback_ends_witness:
  "\<exists>fk'. fakenect_process_events (demo_env [''out/INDEX.txt'' \<mapsto> bytes_of ''x''])
      (demo_fake\<lparr>fk_index_fp := Some (newline # ''never-played'')\<rparr>) = Some (Return 0, fk') \<and> fk_io fk' = []"
proof -
  let ?fk = "demo_fake\<lparr>fk_index_fp := Some (newline # ''never-played'')\<rparr>"
  have "fe_files (demo_env [''out/INDEX.txt'' \<mapsto> bytes_of ''x'']) (fk_input_path ?fk @ ''/INDEX.txt'') = Some (bytes_of ''x'')"
    by (simp add: demo_env_def demo_fake_def)
  from playback_ends [OF _ _ this, of "newline # ''never-played''"] show ?thesis by (auto simp: demo_fake_def)
qed

end
