(* ===== verification/Recording.thy ===== *)
theory Recording
  imports Playback
begin

text \<open>
  The other files of a recording: the description of the device, the streams for ffmpeg, and the
  conversion of the recorded video into the YUV format on playback.
\<close>

section \<open>The description of the device\<close>

lemma to_int32_sint [simp]: "word_of_int (to_int32 E (signed w)) = (w :: u32)"
proof -
  have b: "- (2 ^ 31) \<le> sint w" "sint w < 2 ^ 31" using sint_greater_eq [of w] sint_less [of w] by simp_all
  have "ctrunc (signed w) = sint w" using ctrunc_of_int [of "sint w"] by simp
  then show ?thesis using b by (simp add: to_int32_def)
qed

lemma to_uint16_unat [simp]: "to_uint16 E (unsigned w) = (w :: u16)"
proof -
  have "ctrunc (unsigned w) = uint w" using ctrunc_of_int [of "uint w"] by simp
  moreover have "uint w < 2 ^ 16" using unsigned_less [of w, where 'a = int] by simp
  ultimately show ?thesis by (simp add: to_uint16_def)
qed

text \<open>The parameters of the registration that the tables depend on.\<close>

definition used_parameters :: "freenect_reg_info \<Rightarrow> freenect_reg_info" where
  "used_parameters ri = ri\<lparr>ri_dx_center := 0, ri_rollout_blank := 0, ri_rollout_size := 0, ri_back_comp1 := 0, ri_back_comp2 := 0\<rparr>"

lemma used_parameters_table:
  "freenect_init_registration_table E (used_parameters ri) = freenect_init_registration_table E ri"
proof -
  have start: "dxdy_start (used_parameters ri) = dxdy_start ri" by (simp add: used_parameters_def dxdy_start_def)
  have step: "dxdy_row_step (used_parameters ri) = dxdy_row_step ri"
    by (intro ext) (simp add: used_parameters_def dxdy_row_step_def)
  have "ri_ax (used_parameters ri) = ri_ax ri" "ri_ay (used_parameters ri) = ri_ay ri" by (simp_all add: used_parameters_def)
  then have "dxdy_rows E (used_parameters ri) w n r = dxdy_rows E ri w n r" for w n r
    by (induction n arbitrary: r) (simp_all add: step)
  then show ?thesis by (simp add: freenect_init_registration_table_def freenect_create_dxdy_tables_def start)
qed

text \<open>What is found under each name.\<close>

abbreviation obj_num :: "(string \<times> json) list \<Rightarrow> string \<Rightarrow> real" where
  "obj_num ms \<equiv> json_object_get_number (Some (JObject ms))"

lemma get_number_Cons:
  "obj_num ((n, JNumber x) # ms) name = (if n = name then x else obj_num ms name)"
  by (simp add: json_object_get_number_def json_member_def)

lemma pad_info_lookup [simp]:
  "obj_num (pad_info_members rp) ''start_lines'' = unsigned (rp_start_lines rp)"
  "obj_num (pad_info_members rp) ''end_lines'' = unsigned (rp_end_lines rp)"
  "obj_num (pad_info_members rp) ''cropping_lines'' = unsigned (rp_cropping_lines rp)"
  by (simp_all add: pad_info_members_def json_uint16_def get_number_Cons)

lemma zp_info_lookup [simp]:
  "obj_num (zp_info_members zp) ''dcmos_emitter_distance'' = zp_dcmos_emitter_dist zp"
  "obj_num (zp_info_members zp) ''dcmos_rcmos_distance'' = zp_dcmos_rcmos_dist zp"
  "obj_num (zp_info_members zp) ''reference_distance'' = zp_reference_distance zp"
  "obj_num (zp_info_members zp) ''reference_pixel_size'' = zp_reference_pixel_size zp"
  by (simp_all add: zp_info_members_def get_number_Cons)

lemma reg_info_lookup [simp]:
  "obj_num (reg_info_members reg) ''ax'' = signed (ri_ax (rg_reg_info reg))"
  "obj_num (reg_info_members reg) ''bx'' = signed (ri_bx (rg_reg_info reg))"
  "obj_num (reg_info_members reg) ''cx'' = signed (ri_cx (rg_reg_info reg))"
  "obj_num (reg_info_members reg) ''dx'' = signed (ri_dx (rg_reg_info reg))"
  "obj_num (reg_info_members reg) ''ay'' = signed (ri_ay (rg_reg_info reg))"
  "obj_num (reg_info_members reg) ''by'' = signed (ri_by (rg_reg_info reg))"
  "obj_num (reg_info_members reg) ''cy'' = signed (ri_cy (rg_reg_info reg))"
  "obj_num (reg_info_members reg) ''dy'' = signed (ri_dy (rg_reg_info reg))"
  "obj_num (reg_info_members reg) ''dx_start'' = signed (ri_dx_start (rg_reg_info reg))"
  "obj_num (reg_info_members reg) ''dy_start'' = signed (ri_dy_start (rg_reg_info reg))"
  "obj_num (reg_info_members reg) ''dx_beta_start'' = signed (ri_dx_beta_start (rg_reg_info reg))"
  "obj_num (reg_info_members reg) ''dy_beta_start'' = signed (ri_dy_beta_start (rg_reg_info reg))"
  "obj_num (reg_info_members reg) ''dx_beta_inc'' = signed (ri_dx_beta_inc (rg_reg_info reg))"
  "obj_num (reg_info_members reg) ''dy_beta_inc'' = signed (ri_dy_beta_inc (rg_reg_info reg))"
  "obj_num (reg_info_members reg) ''dxdx_start'' = signed (ri_dxdx_start (rg_reg_info reg))"
  "obj_num (reg_info_members reg) ''dxdy_start'' = signed (ri_dxdy_start (rg_reg_info reg))"
  "obj_num (reg_info_members reg) ''dydx_start'' = signed (ri_dydx_start (rg_reg_info reg))"
  "obj_num (reg_info_members reg) ''dydy_start'' = signed (ri_dydy_start (rg_reg_info reg))"
  "obj_num (reg_info_members reg) ''dxdxdx_start'' = signed (ri_dxdxdx_start (rg_reg_info reg))"
  "obj_num (reg_info_members reg) ''dydxdx_start'' = signed (ri_dydxdx_start (rg_reg_info reg))"
  "obj_num (reg_info_members reg) ''dxdxdy_start'' = signed (ri_dxdxdy_start (rg_reg_info reg))"
  "obj_num (reg_info_members reg) ''dydxdy_start'' = signed (ri_dydxdy_start (rg_reg_info reg))"
  "obj_num (reg_info_members reg) ''dydydx_start'' = signed (ri_dydydx_start (rg_reg_info reg))"
  "obj_num (reg_info_members reg) ''dydydy_start'' = signed (ri_dydydy_start (rg_reg_info reg))"
  by (simp_all add: reg_info_members_def json_int32_def get_number_Cons Let_def)

lemma inner_objects [simp]:
  "json_object_get_object (Some (write_device_info dev)) ''reg_info'' = Some (JObject (reg_info_members (dv_registration dev)))"
  "json_object_get_object (Some (JObject (reg_info_members reg))) ''pad_info'' = Some (JObject (pad_info_members (rg_reg_pad_info reg)))"
  "json_object_get_object (Some (JObject (reg_info_members reg))) ''zero_plane_info'' =
     Some (JObject (zp_info_members (rg_zero_plane_info reg)))"
  "json_object_get_number (Some (write_device_info dev)) ''const_shift'' = rg_const_shift (dv_registration dev)"
  by (simp_all add: json_object_get_object_def json_object_get_number_def json_member_def write_device_info_def
      reg_info_members_def json_int32_def Let_def)

lemma complete_tables_simps:
  "rg_reg_info (complete_tables E reg) = rg_reg_info reg"
  "rg_zero_plane_info (complete_tables E reg) = rg_zero_plane_info reg"
  "rg_const_shift (complete_tables E reg) = rg_const_shift reg"
  by (simp_all add: complete_tables_def)

text \<open>
  C25. The description of the device survives the recording. A fake device that reads the device.json
  that the record utility wrote for a camera computes the same registration tables as the camera: the
  parameters of the registration that are used, the padding, the zero plane and the constant shift
  agree. The single precision numbers of the zero plane are taken to be read as they were written.
\<close>

theorem device_info_roundtrip:
  assumes js: "fe_json F (path @ ''/device.json'') = Some (write_device_info dev0)"
    and floats: "\<forall>x \<in> {zp_dcmos_emitter_dist zp, zp_dcmos_rcmos_dist zp, zp_reference_distance zp, zp_reference_pixel_size zp}.
      e_rndf (fe_env F) x = x" "zp = rg_zero_plane_info (dv_registration dev0)"
  shows "\<exists>reg. reg = dv_registration (read_device_info F path dev) \<and>
    used_parameters (rg_reg_info reg) = used_parameters (rg_reg_info (dv_registration dev0)) \<and>
    rg_reg_pad_info reg = rg_reg_pad_info (dv_registration dev0) \<and>
    rg_zero_plane_info reg = rg_zero_plane_info (dv_registration dev0) \<and>
    rg_const_shift reg = rg_const_shift (dv_registration dev0) \<and>
    rg_raw_to_mm_shift reg = rg_raw_to_mm_shift (dv_registration (freenect_init_registration (fe_env F) dev0)) \<and>
    rg_depth_to_rgb_shift reg = rg_depth_to_rgb_shift (dv_registration (freenect_init_registration (fe_env F) dev0)) \<and>
    rg_registration_table reg = rg_registration_table (dv_registration (freenect_init_registration (fe_env F) dev0))"
proof -
  let ?new = "dv_registration (read_device_info F path dev)" and ?old = "dv_registration dev0"
  have zp: "rg_zero_plane_info ?new = rg_zero_plane_info ?old"
    using js floats by (simp add: read_device_info_def freenect_init_registration_def complete_tables_def freenect_destroy_registration_def Let_def)
  have rp: "rg_reg_pad_info ?new = rg_reg_pad_info ?old"
    using js by (simp add: read_device_info_def freenect_init_registration_def complete_tables_def freenect_destroy_registration_def Let_def)
  have cs: "rg_const_shift ?new = rg_const_shift ?old"
    using js by (simp add: read_device_info_def freenect_init_registration_def complete_tables_def freenect_destroy_registration_def Let_def)
  have ri: "used_parameters (rg_reg_info ?new) = used_parameters (rg_reg_info ?old)"
    using js by (simp add: used_parameters_def read_device_info_def freenect_init_registration_def complete_tables_def freenect_destroy_registration_def Let_def)
  obtain reg where reg: "?new = complete_tables (fe_env F) reg"
    using js by (auto simp: read_device_info_def freenect_init_registration_def Let_def)
  have "freenect_raw_to_mm (fe_env F) i reg = freenect_raw_to_mm (fe_env F) i (freenect_destroy_registration ?old)" for i
    using zp cs reg by (simp add: freenect_raw_to_mm_def complete_tables_def freenect_destroy_registration_def)
  then have "raw_to_mm_table (fe_env F) reg = raw_to_mm_table (fe_env F) (freenect_destroy_registration ?old)"
    by (simp add: raw_to_mm_table_def)
  moreover have "freenect_init_registration_table (fe_env F) (rg_reg_info reg) = freenect_init_registration_table (fe_env F) (rg_reg_info ?old)"
    using ri reg used_parameters_table [of "fe_env F"] by (metis complete_tables_simps(1))
  ultimately show ?thesis using zp rp cs ri reg
    by (intro exI [of _ ?new]) (simp add: complete_tables_def freenect_init_registration_def freenect_destroy_registration_def)
qed

section \<open>The streams for ffmpeg\<close>

text \<open>
  C39. Recording depth for ffmpeg reads outside of the frame: dump_ffmpeg_pad16 takes the size of the
  frame in bytes for a number of 16-bit words, so that it has no defined result for any frame.
\<close>

theorem dump_ffmpeg_pad16_overruns:
  assumes "data_size = length data" and "3 < data_size"
  shows "dump_ffmpeg_pad16 data data_size = None"
proof -
  let ?k = "(data_size + 1) div 2 - 1"
  have "pad16_word data (2 * ?k) = None" using assms by (auto simp: pad16_word_def lookup_def)
  moreover have "?k \<in> set [0..<(data_size + 1) div 2]" using assms(2) by auto
  ultimately show ?thesis unfolding dump_ffmpeg_pad16_def by (intro fold_opt_None [of ?k]) simp_all
qed

theorem dump_ffmpeg_pad16_overruns_witness: "dump_ffmpeg_pad16 (replicate 614400 0) 614400 = None"
  by (rule dump_ffmpeg_pad16_overruns) simp_all

section \<open>Converting the video\<close>

text \<open>A rounding that is precise to a thousandth, which single precision is by far in this range.\<close>

definition near :: "(real \<Rightarrow> real) \<Rightarrow> bool" where
  "near r \<longleftrightarrow> (\<forall>x. \<bar>x\<bar> \<le> 1000 \<longrightarrow> \<bar>r x - x\<bar> \<le> 1 / 1000)"

lemma nearD: "near r \<Longrightarrow> \<bar>x\<bar> \<le> 1000 \<Longrightarrow> x - 1 / 1000 \<le> r x \<and> r x \<le> x + 1 / 1000"
  unfolding near_def by (drule spec [of _ x], drule mp, assumption, unfold abs_le_iff, linarith)

lemma near_product:
  assumes r: "near r" and "0 \<le> k" "k \<le> 1" and x: "0 \<le> x" "x \<le> 255"
  shows "k * x - 256 / 1000 \<le> r (r k * x) \<and> r (r k * x) \<le> k * x + 256 / 1000"
proof -
  have k: "k - 1 / 1000 \<le> r k" "r k \<le> k + 1 / 1000" using nearD [OF r, of k] assms(2,3) by auto
  have "(k - 1 / 1000) * x \<le> r k * x" "r k * x \<le> (k + 1 / 1000) * x"
    using k x(1) by (auto intro: mult_right_mono)
  then have b: "k * x - 255 / 1000 \<le> r k * x" "r k * x \<le> k * x + 255 / 1000"
    using x(2) by (simp_all add: left_diff_distrib distrib_right)
  have "0 \<le> k * x" "k * x \<le> 255" using assms mult_left_le_one_le [of x k] by auto
  then have "\<bar>r k * x\<bar> \<le> 1000" using b by (simp add: abs_le_iff)
  from nearD [OF r this] b show ?thesis by linarith
qed

lemma product_range:
  assumes "0 \<le> (k :: real)" and "0 \<le> x" "x \<le> 255"
  shows "0 \<le> k * x \<and> k * x \<le> 255 * k"
  using assms mult_left_mono [of x 255 k] by (simp add: mult.commute)

lemma luma_range:
  assumes r: "near (e_rndf E)" and x: "0 \<le> x" "x \<le> 255" "0 \<le> y" "y \<le> 255" "0 \<le> z" "z \<le> 255"
  shows "0 \<le> luma E x y z \<and> luma E x y z \<le> 255"
proof -
  let ?r = "e_rndf E"
  define a b c where "a = ?r (?r 0.257 * x)" and "b = ?r (?r 0.504 * y)" and "c = ?r (?r 0.098 * z)"
  have abc: "- 0.256 \<le> a" "a \<le> 66" "- 0.256 \<le> b" "b \<le> 129" "- 0.256 \<le> c" "c \<le> 26"
    using near_product [OF r, of "0.257" x] near_product [OF r, of "0.504" y] near_product [OF r, of "0.098" z]
      product_range [of "0.257" x] product_range [of "0.504" y] product_range [of "0.098" z] x
    by (simp_all add: a_def b_def c_def)
  define s where "s = ?r (a + b)"
  have s: "a + b - 1 / 1000 \<le> s" "s \<le> a + b + 1 / 1000" using nearD [OF r, of "a + b"] abc by (simp_all add: s_def abs_le_iff)
  define t where "t = ?r (s + c)"
  have t: "s + c - 1 / 1000 \<le> t" "t \<le> s + c + 1 / 1000" using nearD [OF r, of "s + c"] abc s by (simp_all add: t_def abs_le_iff)
  have "luma E x y z = ?r (t + 16)" by (simp add: luma_def a_def b_def c_def s_def t_def Let_def)
  moreover have "t + 16 - 1 / 1000 \<le> ?r (t + 16) \<and> ?r (t + 16) \<le> t + 16 + 1 / 1000"
    by (rule nearD [OF r]) (use abc s t in \<open>simp add: abs_le_iff\<close>)
  ultimately show ?thesis using abc s t by auto
qed

lemma chroma_u_range:
  assumes r: "near (e_rndf E)" and x: "0 \<le> x" "x \<le> 255" "0 \<le> y" "y \<le> 255" "0 \<le> z" "z \<le> 255"
  shows "1 \<le> chroma_u E x y z \<and> chroma_u E x y z \<le> 254"
proof -
  let ?r = "e_rndf E"
  define a b c where "a = ?r (?r 0.148 * x)" and "b = ?r (?r 0.291 * y)" and "c = ?r (?r 0.439 * z)"
  have abc: "- 0.256 \<le> a" "a \<le> 38" "- 0.256 \<le> b" "b \<le> 75" "- 0.256 \<le> c" "c \<le> 113"
    using near_product [OF r, of "0.148" x] near_product [OF r, of "0.291" y] near_product [OF r, of "0.439" z]
      product_range [of "0.148" x] product_range [of "0.291" y] product_range [of "0.439" z] x
    by (simp_all add: a_def b_def c_def)
  define s where "s = ?r (- a - b)"
  have s: "- a - b - 1 / 1000 \<le> s" "s \<le> - a - b + 1 / 1000" using nearD [OF r, of "- a - b"] abc by (simp_all add: s_def abs_le_iff)
  define t where "t = ?r (s + c)"
  have t: "s + c - 1 / 1000 \<le> t" "t \<le> s + c + 1 / 1000" using nearD [OF r, of "s + c"] abc s by (simp_all add: t_def abs_le_iff)
  have "chroma_u E x y z = ?r (t + 128)" by (simp add: chroma_u_def a_def b_def c_def s_def t_def Let_def)
  moreover have "t + 128 - 1 / 1000 \<le> ?r (t + 128) \<and> ?r (t + 128) \<le> t + 128 + 1 / 1000"
    by (rule nearD [OF r]) (use abc s t in \<open>simp add: abs_le_iff\<close>)
  ultimately show ?thesis using abc s t by auto
qed

lemma chroma_v_range:
  assumes r: "near (e_rndf E)" and x: "0 \<le> x" "x \<le> 255" "0 \<le> y" "y \<le> 255" "0 \<le> z" "z \<le> 255"
  shows "1 \<le> chroma_v E x y z \<and> chroma_v E x y z \<le> 254"
proof -
  let ?r = "e_rndf E"
  define a b c where "a = ?r (?r 0.439 * x)" and "b = ?r (?r 0.368 * y)" and "c = ?r (?r 0.071 * z)"
  have abc: "- 0.256 \<le> a" "a \<le> 113" "- 0.256 \<le> b" "b \<le> 95" "- 0.256 \<le> c" "c \<le> 19"
    using near_product [OF r, of "0.439" x] near_product [OF r, of "0.368" y] near_product [OF r, of "0.071" z]
      product_range [of "0.439" x] product_range [of "0.368" y] product_range [of "0.071" z] x
    by (simp_all add: a_def b_def c_def)
  define s where "s = ?r (a - b)"
  have s: "a - b - 1 / 1000 \<le> s" "s \<le> a - b + 1 / 1000" using nearD [OF r, of "a - b"] abc by (simp_all add: s_def abs_le_iff)
  define t where "t = ?r (s - c)"
  have t: "s - c - 1 / 1000 \<le> t" "t \<le> s - c + 1 / 1000" using nearD [OF r, of "s - c"] abc s by (simp_all add: t_def abs_le_iff)
  have "chroma_v E x y z = ?r (t + 128)" by (simp add: chroma_v_def a_def b_def c_def s_def t_def Let_def)
  moreover have "t + 128 - 1 / 1000 \<le> ?r (t + 128) \<and> ?r (t + 128) \<le> t + 128 + 1 / 1000"
    by (rule nearD [OF r]) (use abc s t in \<open>simp add: abs_le_iff\<close>)
  ultimately show ?thesis using abc s t by auto
qed

lemma to_uint8_ok: "0 \<le> x \<Longrightarrow> x \<le> 255 \<Longrightarrow> \<exists>w. to_uint8 x = Some w"
  using ctrunc_bounds [of 0 x 255] by (simp add: to_uint8_def)

lemma rgb_pair_ok:
  assumes r: "near (e_rndf E)"
  shows "\<exists>bs. rgb_pair_to_uyvy E rgb0 rgb1 = Some bs \<and> length bs = 4"
proof -
  obtain r0 g0 b0 where p0: "rgb0 = (r0, g0, b0)" by (cases rgb0)
  obtain r1 g1 b1 where p1: "rgb1 = (r1, g1, b1)" by (cases rgb1)
  have byte: "0 \<le> real (unat w)" "real (unat w) \<le> 255" for w :: u8
  proof -
    have "unat w \<le> 255" using unsigned_less [of w, where 'a = nat] by simp
    then have "real (unat w) \<le> real 255" by (rule of_nat_mono)
    then show "real (unat w) \<le> 255" by simp
    show "0 \<le> real (unat w)" by (rule of_nat_0_le_iff)
  qed
  have half: "\<exists>w. to_uint8 (e_rndf E (e_rndf E (u + v) / 2)) = Some w" if "1 \<le> u" "u \<le> 254" "1 \<le> v" "v \<le> 254" for u v
  proof -
    have s: "u + v - 1 / 1000 \<le> e_rndf E (u + v) \<and> e_rndf E (u + v) \<le> u + v + 1 / 1000"
      by (rule nearD [OF r]) (use that in \<open>simp add: abs_le_iff\<close>)
    have "e_rndf E (u + v) / 2 - 1 / 1000 \<le> e_rndf E (e_rndf E (u + v) / 2) \<and>
        e_rndf E (e_rndf E (u + v) / 2) \<le> e_rndf E (u + v) / 2 + 1 / 1000"
      by (rule nearD [OF r]) (use that s in \<open>simp add: abs_le_iff\<close>)
    then show ?thesis by (intro to_uint8_ok) (use that s in linarith)+
  qed
  note ranges = luma_range [OF r] chroma_u_range [OF r] chroma_v_range [OF r]
  obtain w1 w3 where "to_uint8 (luma E (real (unat r0)) (real (unat g0)) (real (unat b0))) = Some w1"
    "to_uint8 (luma E (real (unat r1)) (real (unat g1)) (real (unat b1))) = Some w3"
    using to_uint8_ok ranges(1) byte by meson
  moreover obtain w0 where "to_uint8 (e_rndf E (e_rndf E (chroma_u E (real (unat r0)) (real (unat g0)) (real (unat b0)) +
      chroma_u E (real (unat r1)) (real (unat g1)) (real (unat b1))) / 2)) = Some w0"
    using half ranges(2) byte by meson
  moreover obtain w2 where "to_uint8 (e_rndf E (e_rndf E (chroma_v E (real (unat r0)) (real (unat g0)) (real (unat b0)) +
      chroma_v E (real (unat r1)) (real (unat g1)) (real (unat b1))) / 2)) = Some w2"
    using half ranges(3) byte by meson
  ultimately show ?thesis by (simp add: rgb_pair_to_uyvy_def p0 p1)
qed

text \<open>The four bytes of pair \<open>j\<close> of pixels, and a block of which the first \<open>k\<close> pairs are converted.\<close>

definition uyvy_of :: "env \<Rightarrow> u8 list \<Rightarrow> nat \<Rightarrow> u8 list option" where
  "uyvy_of E rgb j = do { rgb0 \<leftarrow> rgb_at rgb (2 * j); rgb1 \<leftarrow> rgb_at rgb (2 * j + 1); rgb_pair_to_uyvy E rgb0 rgb1 }"

definition converted :: "env \<Rightarrow> u8 list \<Rightarrow> nat \<Rightarrow> u8 list \<Rightarrow> u8 list \<Rightarrow> bool" where
  "converted E rgb k blk0 blk \<longleftrightarrow>
     blk = concat (map (\<lambda>j. the (uyvy_of E rgb j)) [0..<k]) @ drop (4 * k) blk0 \<and>
     (\<forall>j < k. \<exists>bs. uyvy_of E rgb j = Some bs \<and> length bs = 4)"

lemma converted_length:
  assumes "converted E rgb k blk0 blk" and "4 * k \<le> length blk0"
  shows "length (concat (map (\<lambda>j. the (uyvy_of E rgb j)) [0..<k])) = 4 * k" and "length blk = length blk0"
proof -
  have "length (concat (map (\<lambda>j. the (uyvy_of E rgb j)) [0..<k])) = 4 * k"
    if "\<forall>j < k. \<exists>bs. uyvy_of E rgb j = Some bs \<and> length bs = 4" for k
    using that by (induction k) (auto simp: less_Suc_eq)
  with assms show "length (concat (map (\<lambda>j. the (uyvy_of E rgb j)) [0..<k])) = 4 * k" "length blk = length blk0"
    by (auto simp: converted_def)
qed

lemma convert_pair:
  assumes c: "converted E rgb k blk0 blk" and u: "uyvy_of E rgb k = Some bs" "length bs = 4" and n: "4 * k + 4 \<le> length blk0"
  shows "converted E rgb (Suc k) blk0 (blit (4 * k) bs blk)"
proof -
  have len: "length (concat (map (\<lambda>j. the (uyvy_of E rgb j)) [0..<k])) = 4 * k"
    using converted_length(1) [OF c] n by simp
  then have "blit (4 * k) bs blk = concat (map (\<lambda>j. the (uyvy_of E rgb j)) [0..<k]) @ bs @ drop (4 * k + 4) blk0"
    using c u(2) by (simp add: blit_def converted_def add.commute)
  then show ?thesis using c u by (auto simp: converted_def less_Suc_eq add.commute)
qed

text \<open>
  C33. The YUV conversion of the playback. For every RGB frame of 640x480, into a buffer of the size of
  the YUV mode, each of the conversions from float to a byte is in range and every read and write
  stays inside the two frames. The whole frame is filled: for each of the 153600 pairs of pixels the
  buffer holds the four bytes U, Y, V, Y of that pair, in order; what lies behind the frame and every
  other block of the memory is as it was.
\<close>

theorem convert_rgb_to_uyvy_safe:
  assumes r: "near (e_rndf E)" and src: "length rgb = 640 * 480 * 3"
    and dst: "mem_block p h = Some blk" "nat (fm_bytes yuv_video_mode) \<le> length blk"
  shows "\<exists>h' uyvy. convert_rgb_to_uyvy E rgb p yuv_video_mode h = Some h' \<and>
    mem_block p h' = Some (concat uyvy @ drop 614400 blk) \<and> length uyvy = 153600 \<and>
    (\<forall>j < 153600. \<exists>rgb0 rgb1. rgb_at rgb (2 * j) = Some rgb0 \<and> rgb_at rgb (2 * j + 1) = Some rgb1 \<and>
       rgb_pair_to_uyvy E rgb0 rgb1 = Some (uyvy ! j) \<and> length (uyvy ! j) = 4) \<and>
    (\<forall>a. p \<noteq> Some a \<longrightarrow> hp_blocks h' a = hp_blocks h a)"
proof -
  have mode: "nat (fm_width yuv_video_mode) = 640" "nat (fm_height yuv_video_mode) = 480" "614400 \<le> length blk"
    using dst(2) by (simp_all add: yuv_video_mode_def mode_row_def)
  obtain b where b: "p = Some b" "hp_blocks h b = Some blk" using dst(1) by (cases p) (auto simp: mem_block_def)
  let ?I = "\<lambda>k h'. (\<exists>blk'. hp_blocks h' b = Some blk' \<and> converted E rgb k blk blk') \<and> (\<forall>a. a \<noteq> b \<longrightarrow> hp_blocks h' a = hp_blocks h a)"
  let ?f = "\<lambda>y x2 h. do { let pos = y * 640 + 2 * x2; rgb0 \<leftarrow> rgb_at rgb pos; rgb1 \<leftarrow> rgb_at rgb (pos + 1);
      uyvy \<leftarrow> rgb_pair_to_uyvy E rgb0 rgb1; mem_write p (int (2 * pos)) uyvy h }"
  have step: "\<exists>h'. ?f y x2 h1 = Some h' \<and> ?I (320 * y + Suc x2) h'" if "y < 480" "x2 < 320" "?I (320 * y + x2) h1" for y x2 h1
  proof -
    let ?k = "320 * y + x2"
    note inv = that(3)
    have k: "?k < 153600" "y * 640 + 2 * x2 = 2 * ?k" using that by simp_all
    then obtain p0 p1 where px: "rgb_at rgb (2 * ?k) = Some p0" "rgb_at rgb (2 * ?k + 1) = Some p1"
      using src by (simp add: rgb_at_def lookup_def)
    obtain bs where bs: "rgb_pair_to_uyvy E p0 p1 = Some bs" "length bs = 4" using rgb_pair_ok [OF r] by blast
    then have u: "uyvy_of E rgb ?k = Some bs" using px by (simp add: uyvy_of_def)
    obtain blk1 where h1: "hp_blocks h1 b = Some blk1" "converted E rgb ?k blk blk1" "\<forall>a. a \<noteq> b \<longrightarrow> hp_blocks h1 a = hp_blocks h a"
      using inv by blast
    have "4 * m + 4 \<le> 614400" if "m < 153600" for m :: nat using that by simp
    from this [OF k(1)] mode(3) have n: "4 * ?k + 4 \<le> length blk" by (rule order_trans)
    have "length blk1 = length blk" using converted_length(2) [OF h1(2)] n by simp
    have off: "nat (int (2 * (2 * ?k))) = 4 * ?k" by (simp only: nat_int)
    have "mem_write p (int (2 * (2 * ?k))) bs h1 = Some (h1\<lparr>hp_blocks := (hp_blocks h1)(b \<mapsto> blit (4 * ?k) bs blk1)\<rparr>)"
      unfolding mem_write_def b(1) h1(1) option.case off using n bs(2) \<open>length blk1 = length blk\<close> by simp
    then have "?f y x2 h1 = Some (h1\<lparr>hp_blocks := (hp_blocks h1)(b \<mapsto> blit (4 * ?k) bs blk1)\<rparr>)"
      unfolding k(2) Let_def by (simp only: px bs(1) bind.bind_lunit)
    moreover have "converted E rgb (320 * y + Suc x2) blk (blit (4 * ?k) bs blk1)"
      using convert_pair [OF h1(2) u bs(2) n] by simp
    ultimately show ?thesis using h1(3) by auto
  qed
  have row: "\<exists>h'. fold_opt (?f y) [0..<320] h1 = Some h' \<and> ?I (320 * Suc y) h'" if "y < 480" "?I (320 * y) h1" for y h1
  proof -
    have "\<exists>h'. fold_opt (?f y) [0..<320] h1 = Some h' \<and> ?I (320 * y + 320) h'"
      by (rule fold_opt_upt [where I = "\<lambda>x2. ?I (320 * y + x2)"]) (use step [OF that(1)] that(2) in simp_all)
    then show ?thesis by (simp only: mult_Suc_right add.commute)
  qed
  have "?I (320 * 0) h" using b(2) by (simp add: converted_def)
  then have "\<exists>h'. fold_opt (\<lambda>y. fold_opt (?f y) [0..<320]) [0..<480] h = Some h' \<and> ?I (320 * 480) h'"
    by (intro fold_opt_upt [where I = "\<lambda>y. ?I (320 * y)"]) (use row in simp_all)
  then obtain h' blk' where h': "fold_opt (\<lambda>y. fold_opt (?f y) [0..<320]) [0..<480] h = Some h'"
    "hp_blocks h' b = Some blk'" "converted E rgb 153600 blk blk'" "\<forall>a. a \<noteq> b \<longrightarrow> hp_blocks h' a = hp_blocks h a" by auto
  let ?uyvy = "map (\<lambda>j. the (uyvy_of E rgb j)) [0..<153600]"
  have "\<exists>rgb0 rgb1. rgb_at rgb (2 * j) = Some rgb0 \<and> rgb_at rgb (2 * j + 1) = Some rgb1 \<and>
      rgb_pair_to_uyvy E rgb0 rgb1 = Some (?uyvy ! j) \<and> length (?uyvy ! j) = 4" if j: "j < 153600" for j
  proof -
    obtain bs where "uyvy_of E rgb j = Some bs" "length bs = 4" using h'(3) j unfolding converted_def by blast
    moreover have "?uyvy ! j = the (uyvy_of E rgb j)" using j by simp
    ultimately show ?thesis by (auto simp: uyvy_of_def split: Option.bind_splits)
  qed
  moreover have "convert_rgb_to_uyvy E rgb p yuv_video_mode h = Some h'"
    using h'(1) unfolding convert_rgb_to_uyvy_def mode Let_def by simp
  moreover have "mem_block p h' = Some (concat ?uyvy @ drop 614400 blk)"
    using h'(2,3) by (simp add: mem_block_def b(1) converted_def)
  moreover have "length ?uyvy = 153600" by simp
  moreover have "\<forall>a. p \<noteq> Some a \<longrightarrow> hp_blocks h' a = hp_blocks h a" using h'(4) b(1) by simp
  ultimately show ?thesis by (intro exI [of _ h'] exI [of _ ?uyvy] conjI) simp_all
qed

section \<open>Witnesses\<close>

theorem device_info_roundtrip_witness:
  "rg_registration_table (dv_registration (read_device_info
      ((demo_env Map.empty)\<lparr>fe_json := \<lambda>_. Some (write_device_info live_device)\<rparr>) ''out'' zero_device)) =
    rg_registration_table (dv_registration (freenect_init_registration quiet_env live_device))"
proof -
  let ?F = "(demo_env Map.empty)\<lparr>fe_json := \<lambda>_. Some (write_device_info live_device)\<rparr>"
  have "fe_json ?F (''out'' @ ''/device.json'') = Some (write_device_info live_device)" by simp
  moreover have "fe_env ?F = quiet_env" by (simp add: demo_env_def)
  ultimately show ?thesis
    using device_info_roundtrip [of ?F "''out''" live_device "rg_zero_plane_info (dv_registration live_device)" zero_device]
    by (simp add: quiet_env_def)
qed

theorem convert_rgb_to_uyvy_safe_witness:
  "\<exists>h' uyvy. convert_rgb_to_uyvy quiet_env (replicate 921600 200) (Some 1) yuv_video_mode (fk_heap demo_fake) = Some h' \<and>
    mem_block (Some 1) h' = Some (concat uyvy) \<and> length uyvy = 153600"
proof -
  have near: "near (e_rndf quiet_env)" and src: "length (replicate 921600 (200 :: u8)) = 640 * 480 * 3"
    by (simp_all add: near_def quiet_env_def)
  have blk: "mem_block (Some 1) (fk_heap demo_fake) = Some (replicate 614400 0)" by (simp add: demo_fake_def mem_block_def)
  have n: "nat (fm_bytes yuv_video_mode) \<le> length (replicate 614400 (0 :: u8))" by (simp add: yuv_video_mode_def mode_row_def)
  from convert_rgb_to_uyvy_safe [OF near src blk n] show ?thesis by auto
qed

end
