(* ===== verification/RecordMain.thy ===== *)
theory RecordMain
  imports Playback
begin

text \<open>
  The record program as a whole (main, init and the callbacks of fakenect/record.c): its arguments, its
  two modes, the loop over the events of the library and the files it leaves. The library is given by
  what it does in one run: the results of opening, the rounds of the event loop until the signal
  arrives, each with its result and the frames it delivers, and the frames that are delivered while the
  streams are being stopped. All runs that the signal ends are of this form.
\<close>

section \<open>The arguments\<close>

record rec_options =
  op_out_dir :: "string option"
  op_use_ffmpeg :: bool
  op_ffmpeg_opts :: "string option"

text \<open>usage prints a text and ends the program with exit(0).\<close>

fun parse_args :: "string list \<Rightarrow> rec_options \<Rightarrow> rec_options outcome" where
  "parse_args [] opts = Return opts"
| "parse_args (a # args) opts =
     (if a = ''-ffmpeg'' then parse_args args (opts\<lparr>op_use_ffmpeg := True\<rparr>)
      else if a = ''-ffmpeg-opts''
      then (case args of [] \<Rightarrow> Return opts | v # args \<Rightarrow> parse_args args (opts\<lparr>op_ffmpeg_opts := Some v\<rparr>))
      else if a = ''-h'' then Exit 0
      else parse_args args (opts\<lparr>op_out_dir := Some a\<rparr>))"

section \<open>The pipes to ffmpeg\<close>

text \<open>
  What the operating system allows: the files that can be written, the commands for which popen gives a
  pipe, and the text of a JSON document.
\<close>

record rec_world =
  rw_can_write :: "string \<Rightarrow> bool"
  rw_can_run :: "string \<Rightarrow> bool"
  rw_json_text :: "json \<Rightarrow> u8 list"

text \<open>The two pipes, with what was written to them; \<open>None\<close> while they are not open.\<close>

record rec_pipes =
  rp_depth_stream :: "u8 list option"
  rp_rgb_stream :: "u8 list option"

definition ffmpeg_command :: "string option \<Rightarrow> string \<Rightarrow> string" where
  "ffmpeg_command ffmpeg_opts output_filename =
     take 1023 (''ffmpeg -pix_fmt rgb24 -s 640x480 -f rawvideo -i /dev/stdin '' @
       (case ffmpeg_opts of None \<Rightarrow> ''-aspect 4:3 -r 20 -vcodec msmpeg4 -b 30000k'' | Some v \<Rightarrow> v) @ '' '' @ output_filename)"

definition open_ffmpeg :: "rec_world \<Rightarrow> string option \<Rightarrow> string \<Rightarrow> u8 list outcome" where
  "open_ffmpeg W ffmpeg_opts output_filename =
     (if rw_can_run W (ffmpeg_command ffmpeg_opts output_filename) then Return [] else Exit 1)"

definition init_ffmpeg_streams :: "rec_world \<Rightarrow> rec_options \<Rightarrow> string \<Rightarrow> rec_pipes \<Rightarrow> unit outcome \<times> rec_pipes" where
  "init_ffmpeg_streams W opts out_dir pipes =
     (case open_ffmpeg W (op_ffmpeg_opts opts) (out_dir @ ''-depth.avi'') of
        Exit n \<Rightarrow> (Exit n, pipes)
      | Return d \<Rightarrow>
          let pipes = pipes\<lparr>rp_depth_stream := Some d\<rparr>
          in case open_ffmpeg W (op_ffmpeg_opts opts) (out_dir @ ''-rgb.avi'') of
               Exit n \<Rightarrow> (Exit n, pipes)
             | Return v \<Rightarrow> (Return (), pipes\<lparr>rp_rgb_stream := Some v\<rparr>))"

text \<open>The callbacks of this mode; both write the letter of a depth frame into the index.\<close>

definition ffmpeg_index :: "nat \<Rightarrow> u32 \<Rightarrow> recorder \<Rightarrow> recorder option" where
  "ffmpeg_index now timestamp rc = do {
     index \<leftarrow> rc_index_fp rc;
     append_file index (bytes_of (''d-'' @ print_f now @ ''-'' @ print_u (unat timestamp) @ [newline])) rc
   }"

definition depth_cb_ffmpeg :: "nat \<Rightarrow> u8 list \<Rightarrow> u32 \<Rightarrow> recorder \<times> rec_pipes \<Rightarrow> (recorder \<times> rec_pipes) option" where
  "depth_cb_ffmpeg now depth timestamp = (\<lambda>(rc, pipes). do {
     rc \<leftarrow> ffmpeg_index now timestamp rc;
     old \<leftarrow> rp_depth_stream pipes;
     mode \<leftarrow> freenect_find_depth_mode FREENECT_RESOLUTION_MEDIUM FREENECT_DEPTH_11BIT;
     bs \<leftarrow> dump_ffmpeg_pad16 depth (nat (fm_bytes mode));
     Some (rc, pipes\<lparr>rp_depth_stream := Some (old @ bs)\<rparr>)
   })"

definition rgb_cb_ffmpeg ::
    "nat \<Rightarrow> freenect_frame_mode \<Rightarrow> u8 list \<Rightarrow> u32 \<Rightarrow> recorder \<times> rec_pipes \<Rightarrow> (recorder \<times> rec_pipes) option" where
  "rgb_cb_ffmpeg now mode rgb timestamp = (\<lambda>(rc, pipes). do {
     rc \<leftarrow> ffmpeg_index now timestamp rc;
     old \<leftarrow> rp_rgb_stream pipes;
     bs \<leftarrow> dump_ffmpeg_24 rgb (nat (fm_bytes mode));
     Some (rc, pipes\<lparr>rp_rgb_stream := Some (old @ bs)\<rparr>)
   })"

section \<open>A run of the library\<close>

text \<open>
  A frame that the library delivers: its stream, the time at which the callback runs, its timestamp and
  the block that the callback gets. A round is a call of freenect_process_events with the frames in it,
  and what the snapshot of the motor after it reads.
\<close>

type_synonym frame_call = "char \<times> nat \<times> u32 \<times> u8 list"

record rec_round =
  rr_result :: int
  rr_frames :: "frame_call list"
  rr_time :: nat
  rr_tilt :: freenect_raw_tilt_state
  rr_padding :: u8

record rec_lib =
  ll_init :: int
  ll_open :: int
  ll_dev :: freenect_device
  ll_depth_mode :: freenect_frame_mode
  ll_video_mode :: freenect_frame_mode
  ll_rounds :: "rec_round list"
  ll_stopping :: "frame_call list"

text \<open>The callbacks that init has registered, on one frame.\<close>

definition frame_callback ::
    "rec_world \<Rightarrow> rec_lib \<Rightarrow> bool \<Rightarrow> frame_call \<Rightarrow> recorder \<times> rec_pipes \<Rightarrow> (unit outcome \<times> recorder \<times> rec_pipes) option" where
  "frame_callback W L use_ffmpeg = (\<lambda>(strm, now, timestamp, data) (rc, pipes).
     if use_ffmpeg
     then map_option (\<lambda>s. (Return (), s))
       (if strm = CHR ''d'' then depth_cb_ffmpeg now data timestamp (rc, pipes)
        else rgb_cb_ffmpeg now (ll_video_mode L) data timestamp (rc, pipes))
     else map_option (\<lambda>(r, rc). (r, rc, pipes))
       (if strm = CHR ''d'' then depth_cb (rw_can_write W) now (ll_depth_mode L) data timestamp rc
        else rgb_cb (rw_can_write W) now (ll_video_mode L) data timestamp rc))"

primrec frame_callbacks ::
    "rec_world \<Rightarrow> rec_lib \<Rightarrow> bool \<Rightarrow> frame_call list \<Rightarrow> recorder \<times> rec_pipes \<Rightarrow>
     (unit outcome \<times> recorder \<times> rec_pipes) option" where
  "frame_callbacks W L use_ffmpeg [] s = Some (Return (), s)"
| "frame_callbacks W L use_ffmpeg (f # fs) s = do {
     (r, s) \<leftarrow> frame_callback W L use_ffmpeg f s;
     case r of Exit n \<Rightarrow> Some (Exit n, s) | Return _ \<Rightarrow> frame_callbacks W L use_ffmpeg fs s
   }"

text \<open>The loop of init; the list ends when the signal has cleared \<open>running\<close>.\<close>

primrec event_loop ::
    "rec_world \<Rightarrow> rec_lib \<Rightarrow> bool \<Rightarrow> rec_round list \<Rightarrow> recorder \<times> rec_pipes \<Rightarrow>
     (unit outcome \<times> recorder \<times> rec_pipes) option" where
  "event_loop W L use_ffmpeg [] s = Some (Return (), s)"
| "event_loop W L use_ffmpeg (r # rounds) s = do {
     (done, s) \<leftarrow> frame_callbacks W L use_ffmpeg (rr_frames r) s;
     case done of
       Exit n \<Rightarrow> Some (Exit n, s)
     | Return _ \<Rightarrow>
         if rr_result r < 0 then Some (Return (), s)
         else do {
           (done, rc) \<leftarrow> snapshot_accel (rw_can_write W) (rr_time r) (rr_padding r) (rr_tilt r) (fst s);
           case done of
             Exit n \<Rightarrow> Some (Exit n, rc, snd s)
           | Return _ \<Rightarrow> event_loop W L use_ffmpeg rounds (rc, snd s)
         }
   }"

text \<open>The name of the description is cut off by the buffer of 512 bytes; when it cannot be written, it is left out.\<close>

definition write_device_json :: "rec_world \<Rightarrow> rec_lib \<Rightarrow> recorder \<Rightarrow> recorder" where
  "write_device_json W L rc =
     (let fn = take 511 (rc_out_dir rc @ ''/device.json'')
      in if rw_can_write W fn
         then rc\<lparr>rc_files := (rc_files rc)(fn \<mapsto> rw_json_text W (write_device_info (ll_dev L)))\<rparr> else rc)"

text \<open>
  init. The modes it sets are those in \<open>ll_depth_mode\<close> and \<open>ll_video_mode\<close>; the results of the calls that
  set the modes, start and stop the streams and close the device are not looked at.
\<close>

definition record_init ::
    "rec_world \<Rightarrow> rec_lib \<Rightarrow> rec_options \<Rightarrow> recorder \<times> rec_pipes \<Rightarrow> (unit outcome \<times> recorder \<times> rec_pipes) option" where
  "record_init W L opts s =
     (if ll_init L \<noteq> 0 \<or> ll_open L \<noteq> 0 then Some (Return (), s)
      else
        let (rc, pipes) = s; rc = write_device_json W L rc;
            (done, pipes) = (if op_use_ffmpeg opts then init_ffmpeg_streams W opts (rc_out_dir rc) pipes else (Return (), pipes))
        in case done of
             Exit n \<Rightarrow> Some (Exit n, rc, pipes)
           | Return _ \<Rightarrow> do {
               (done, s) \<leftarrow> event_loop W L (op_use_ffmpeg opts) (ll_rounds L) (rc, pipes);
               case done of
                 Exit n \<Rightarrow> Some (Exit n, s)
               | Return _ \<Rightarrow> frame_callbacks W L (op_use_ffmpeg opts) (ll_stopping L) s
             })"

section \<open>The program\<close>

definition no_pipes :: rec_pipes where
  "no_pipes = \<lparr>rp_depth_stream = None, rp_rgb_stream = None\<rparr>"

text \<open>
  With ffmpeg the index is created before the program looks for the video files. Without it, a missing
  index pointer is handed to fclose: \<open>None\<close>.
\<close>

definition main_ffmpeg ::
    "rec_world \<Rightarrow> rec_lib \<Rightarrow> rec_options \<Rightarrow> recorder \<Rightarrow> (int outcome \<times> recorder \<times> rec_pipes) option" where
  "main_ffmpeg W L opts rc =
     (let (index, rc) = record_open_index (rw_can_write W) (rc_out_dir rc @ ''-index.txt'') rc; rc = rc\<lparr>rc_index_fp := index\<rparr>
      in if index = None then Some (Return 1, rc, no_pipes)
         else if rc_files rc (rc_out_dir rc @ ''-depth.avi'') \<noteq> None \<or> rc_files rc (rc_out_dir rc @ ''-rgb.avi'') \<noteq> None
         then Some (Exit 1, rc, no_pipes)
         else do {
           (done, rc, pipes) \<leftarrow> record_init W L opts (rc, no_pipes);
           Some (case done of Exit n \<Rightarrow> (Exit n, rc, pipes) | Return _ \<Rightarrow> (Return 0, rc\<lparr>rc_index_fp := None\<rparr>, pipes))
         })"

definition main_directory ::
    "rec_world \<Rightarrow> rec_lib \<Rightarrow> rec_options \<Rightarrow> recorder \<Rightarrow> (int outcome \<times> recorder \<times> rec_pipes) option" where
  "main_directory W L opts rc =
     (let (index, rc) = record_open_index (rw_can_write W) (index_path rc) rc; rc = rc\<lparr>rc_index_fp := index\<rparr>
      in if index = None then None
         else do {
           (done, rc, pipes) \<leftarrow> record_init W L opts (rc, no_pipes);
           Some (case done of Exit n \<Rightarrow> (Exit n, rc, pipes) | Return _ \<Rightarrow> (Return 0, rc\<lparr>rc_index_fp := None\<rparr>, pipes))
         })"

definition record_main ::
    "rec_world \<Rightarrow> rec_lib \<Rightarrow> string list \<Rightarrow> (string \<rightharpoonup> u8 list) \<Rightarrow> (int outcome \<times> recorder \<times> rec_pipes) option" where
  "record_main W L args files =
     (let rc = \<lambda>dir. \<lparr>rc_out_dir = dir, rc_files = files, rc_index_fp = None, rc_last_timestamp = 0\<rparr>
      in case parse_args args \<lparr>op_out_dir = None, op_use_ffmpeg = False, op_ffmpeg_opts = None\<rparr> of
           Exit n \<Rightarrow> Some (Exit n, rc [], no_pipes)
         | Return opts \<Rightarrow>
             (case op_out_dir opts of
                None \<Rightarrow> Some (Exit 0, rc [], no_pipes)
              | Some dir \<Rightarrow> if op_use_ffmpeg opts then main_ffmpeg W L opts (rc dir) else main_directory W L opts (rc dir)))"

section \<open>What a run records\<close>

text \<open>The items of a frame, of the rounds that are left when the last timestamp is \<open>t\<close>, and of a whole run.\<close>

fun frame_item :: "rec_lib \<Rightarrow> frame_call \<Rightarrow> item" where
  "frame_item L (strm, now, timestamp, data) =
     (strm, now, timestamp, take (nat (fm_bytes (if strm = CHR ''d'' then ll_depth_mode L else ll_video_mode L))) data)"

primrec last_stamp :: "frame_call list \<Rightarrow> u32 \<Rightarrow> u32" where
  "last_stamp [] t = t"
| "last_stamp (f # fs) t = last_stamp fs (fst (snd (snd f)))"

primrec round_items :: "rec_lib \<Rightarrow> u32 \<Rightarrow> rec_round list \<Rightarrow> item list" where
  "round_items L t [] = []"
| "round_items L t (r # rounds) =
     (let t' = last_stamp (rr_frames r) t
      in map (frame_item L) (rr_frames r) @
         (if rr_result r < 0 then []
          else (if t' = 0 then [] else [(CHR ''a'', rr_time r, t', tilt_state_bytes (rr_padding r) (rr_tilt r))]) @
               round_items L t' rounds))"

definition run_items :: "rec_lib \<Rightarrow> item list" where
  "run_items L = round_items L 0 (ll_rounds L) @ map (frame_item L) (ll_stopping L)"

text \<open>The library delivers frames of its two streams that have the size of the current mode.\<close>

fun whole_frame :: "rec_lib \<Rightarrow> frame_call \<Rightarrow> bool" where
  "whole_frame L (strm, now, timestamp, data) \<longleftrightarrow> strm \<in> {CHR ''d'', CHR ''r''} \<and>
     nat (fm_bytes (if strm = CHR ''d'' then ll_depth_mode L else ll_video_mode L)) \<le> length data"

definition whole_frames :: "rec_lib \<Rightarrow> bool" where
  "whole_frames L \<longleftrightarrow> (\<forall>r \<in> set (ll_rounds L). \<forall>f \<in> set (rr_frames r). whole_frame L f) \<and> (\<forall>f \<in> set (ll_stopping L). whole_frame L f)"

lemma dump_take:
  assumes "n \<le> length data"
  shows "dump cw now strm timestamp data n rc = dump cw now strm timestamp (take n data) (length (take n data)) rc"
proof -
  have "length (take n data) = n" using assms by simp
  then show ?thesis using assms by (simp only: dump_def Let_def not_less [symmetric] take_take min.idem) simp
qed

lemma dump_last: "dump cw now strm timestamp data n rc = Some (r, rc') \<Longrightarrow> rc_last_timestamp rc' = timestamp"
  by (auto simp: dump_def open_dump_def dump_depth_def dump_rgb_def append_file_def Let_def
      split: Option.bind_splits if_splits outcome.splits)

lemma record_items_Cons:
  "record_items cw ((strm, now, timestamp, data) # items) rc = Some rc' \<longleftrightarrow>
     (\<exists>rc1. dump cw now strm timestamp data (length data) rc = Some (Return (), rc1) \<and> record_items cw items rc1 = Some rc')"
  by (auto simp: record_items_def split: Option.bind_splits outcome.splits)

lemma record_items_append:
  "record_items cw (xs @ ys) rc = Some rc' \<longleftrightarrow> (\<exists>rc1. record_items cw xs rc = Some rc1 \<and> record_items cw ys rc1 = Some rc')"
  by (auto simp: record_items_def fold_opt_append split: Option.bind_splits)

lemma callbacks_record:
  assumes "\<forall>f \<in> set fs. whole_frame L f" and "record_items (rw_can_write W) (map (frame_item L) fs) rc = Some rc'"
  shows "frame_callbacks W L False fs (rc, pipes) = Some (Return (), rc', pipes) \<and>
    rc_last_timestamp rc' = last_stamp fs (rc_last_timestamp rc)"
  using assms
proof (induction fs arbitrary: rc)
  case Nil
  then show ?case by (simp add: record_items_def)
next
  case (Cons f fs)
  obtain strm now timestamp data where f: "f = (strm, now, timestamp, data)" by (cases f)
  from Cons.prems(1) have whole: "whole_frame L (strm, now, timestamp, data)" by (simp add: f)
  obtain rc1 where 1: "dump (rw_can_write W) now strm timestamp
      (take (nat (fm_bytes (if strm = CHR ''d'' then ll_depth_mode L else ll_video_mode L))) data)
      (length (take (nat (fm_bytes (if strm = CHR ''d'' then ll_depth_mode L else ll_video_mode L))) data)) rc = Some (Return (), rc1)"
    "record_items (rw_can_write W) (map (frame_item L) fs) rc1 = Some rc'"
    using Cons.prems(2) unfolding f list.map frame_item.simps record_items_Cons by blast
  have "dump (rw_can_write W) now strm timestamp data
      (nat (fm_bytes (if strm = CHR ''d'' then ll_depth_mode L else ll_video_mode L))) rc = Some (Return (), rc1)"
    using dump_take [of "nat (fm_bytes (if strm = CHR ''d'' then ll_depth_mode L else ll_video_mode L))" data] whole 1(1) by simp
  then have "frame_callback W L False f (rc, pipes) = Some (Return (), rc1, pipes)"
    using whole by (auto simp: frame_callback_def f depth_cb_def rgb_cb_def)
  moreover have "rc_last_timestamp rc1 = timestamp" by (rule dump_last [OF 1(1)])
  ultimately show ?case using Cons.IH [OF _ 1(2)] Cons.prems(1) by (simp add: f)
qed

lemma loop_record:
  assumes "\<forall>r \<in> set rounds. \<forall>f \<in> set (rr_frames r). whole_frame L f"
    and "record_items (rw_can_write W) (round_items L (rc_last_timestamp rc) rounds) rc = Some rc'"
  shows "event_loop W L False rounds (rc, pipes) = Some (Return (), rc', pipes)"
  using assms
proof (induction rounds arbitrary: rc)
  case Nil
  then show ?case by (simp add: record_items_def)
next
  case (Cons r rounds)
  let ?t = "last_stamp (rr_frames r) (rc_last_timestamp rc)"
  from Cons.prems(2) obtain rc1 where
    1: "record_items (rw_can_write W) (map (frame_item L) (rr_frames r)) rc = Some rc1"
      "record_items (rw_can_write W) (if rr_result r < 0 then []
          else (if ?t = 0 then [] else [(CHR ''a'', rr_time r, ?t, tilt_state_bytes (rr_padding r) (rr_tilt r))]) @
               round_items L ?t rounds) rc1 = Some rc'"
    by (auto simp: Let_def record_items_append)
  have cb: "frame_callbacks W L False (rr_frames r) (rc, pipes) = Some (Return (), rc1, pipes)" "rc_last_timestamp rc1 = ?t"
    using callbacks_record [OF _ 1(1)] Cons.prems(1) by auto
  have len: "length (tilt_state_bytes (rr_padding r) (rr_tilt r)) = sizeof_tilt_state" by (simp add: tilt_state_bytes_def)
  show ?case
  proof (cases "rr_result r < 0")
    case True
    then show ?thesis using cb 1(2) by (simp add: record_items_def)
  next
    case False
    show ?thesis
    proof (cases "?t = 0")
      case True
      then have "event_loop W L False rounds (rc1, pipes) = Some (Return (), rc', pipes)"
        using Cons.IH [of rc1] Cons.prems(1) 1(2) False cb(2) by simp
      then show ?thesis using cb False True by (simp add: snapshot_accel_def)
    next
      case t: False
      then obtain rc2 where
        2: "dump (rw_can_write W) (rr_time r) CHR ''a'' ?t (tilt_state_bytes (rr_padding r) (rr_tilt r)) sizeof_tilt_state rc1 =
            Some (Return (), rc2)" "record_items (rw_can_write W) (round_items L ?t rounds) rc2 = Some rc'"
        using 1(2) False len by (auto simp: record_items_Cons)
      have "rc_last_timestamp rc2 = ?t" by (rule dump_last [OF 2(1)])
      then have "event_loop W L False rounds (rc2, pipes) = Some (Return (), rc', pipes)"
        using Cons.IH [of rc2] Cons.prems(1) 2(2) by simp
      then show ?thesis using cb False t 2(1) by (simp add: snapshot_accel_def)
    qed
  qed
qed

lemma init_record:
  assumes "ll_init L = 0" "ll_open L = 0" and "\<not> op_use_ffmpeg opts" and "whole_frames L" and "rc_last_timestamp rc = 0"
    and "record_items (rw_can_write W) (run_items L) (write_device_json W L rc) = Some rc'"
  shows "record_init W L opts (rc, pipes) = Some (Return (), rc', pipes)"
proof -
  have "rc_last_timestamp (write_device_json W L rc) = 0" using assms(5) by (simp add: write_device_json_def Let_def)
  with assms(6) obtain rc1 where
    1: "record_items (rw_can_write W) (round_items L (rc_last_timestamp (write_device_json W L rc)) (ll_rounds L))
         (write_device_json W L rc) = Some rc1"
      "record_items (rw_can_write W) (map (frame_item L) (ll_stopping L)) rc1 = Some rc'"
    by (auto simp: run_items_def record_items_append)
  have "event_loop W L False (ll_rounds L) (write_device_json W L rc, pipes) = Some (Return (), rc1, pipes)"
    using loop_record [OF _ 1(1)] assms(4) by (simp add: whole_frames_def)
  moreover have "frame_callbacks W L False (ll_stopping L) (rc1, pipes) = Some (Return (), rc', pipes)"
    using callbacks_record [OF _ 1(2)] assms(4) by (simp add: whole_frames_def)
  ultimately show ?thesis using assms(1-3) by (simp add: record_init_def)
qed

lemma description_path:
  assumes "length dir < 500"
  shows "take 511 (dir @ ''/device.json'') = dir @ ''/device.json''" and "dir @ ''/device.json'' \<noteq> dir @ ''/INDEX.txt''"
    and "item_ok i \<Longrightarrow> dir @ ''/device.json'' \<noteq> dir @ ''/'' @ item_name i"
  using assms by (cases i; simp add: dump_name_def)+

text \<open>
  C8. The record program and the fake library. When record is called with a new directory, opens the
  camera and runs until the signal, it ends with 0 and leaves the description of the device and a
  recording that a client of the fake library is played back exactly: every frame that the library
  delivered, in the rounds of the loop and while the streams were being stopped, with its timestamp and
  in order, and the states of the motor that were read in between. It is assumed that the library
  delivers whole frames (\<open>whole_frames\<close>), that the items are what the recorder writes, at times below
  10^20 (\<open>item_ok\<close>), and that no two of them have the same type, time and timestamp (\<open>item_key\<close>): the names
  of the files are made of these, so that the second would overwrite the first.
\<close>

theorem record_program_then_play:
  assumes args: "parse_args args \<lparr>op_out_dir = None, op_use_ffmpeg = False, op_ffmpeg_opts = None\<rparr> = Return opts"
      "op_out_dir opts = Some dir" "\<not> op_use_ffmpeg opts" "length dir < 500"
    and new: "files (dir @ ''/INDEX.txt'') = None" and cw: "\<forall>p. rw_can_write W p"
    and lib: "ll_init L = 0" "ll_open L = 0" "whole_frames L"
    and items: "\<forall>i \<in> set (run_items L). item_ok i" "distinct (map item_key (run_items L))"
    and fake: "playing dcb vcb fk" "fk_index_fp fk = None" "fk_input_path fk = dir"
  shows "\<exists>rc. record_main W L args files = Some (Return 0, rc, no_pipes) \<and>
    rc_files rc (dir @ ''/device.json'') = Some (rw_json_text W (write_device_info (ll_dev L))) \<and>
    (\<forall>F. fe_files F = rc_files rc \<longrightarrow>
      (\<exists>fk'. play_events (length (run_items L)) F fk = Some fk' \<and>
        rev (filter is_shown (fk_io fk')) = rev (filter is_shown (fk_io fk)) @ concat (map (shown dcb vcb fk) (run_items L)) \<and>
        fk_state fk' = fold motor_after (run_items L) (fk_state fk)))"
proof -
  let ?rc0 = "\<lparr>rc_out_dir = dir, rc_files = files, rc_index_fp = None, rc_last_timestamp = 0\<rparr>"
  let ?rc1 = "?rc0\<lparr>rc_files := files(dir @ ''/INDEX.txt'' \<mapsto> []), rc_index_fp := Some (dir @ ''/INDEX.txt'')\<rparr>"
  let ?rc2 = "write_device_json W L ?rc1"
  note path = description_path [OF args(4)]
  have rc2: "rc_out_dir ?rc2 = dir" "rc_index_fp ?rc2 = Some (index_path ?rc2)" "rc_files ?rc2 (index_path ?rc2) = Some []"
    "rc_files ?rc2 (dir @ ''/device.json'') = Some (rw_json_text W (write_device_info (ll_dev L)))"
    using path cw by (simp_all add: write_device_json_def Let_def)
  from record_items_files [OF items cw rc2(2,3)] obtain rc3 where
    3: "record_items (rw_can_write W) (run_items L) ?rc2 = Some rc3" "rc_out_dir rc3 = dir"
      "\<forall>p. p \<noteq> index_path ?rc2 \<and> (\<forall>i \<in> set (run_items L). p \<noteq> rc_out_dir ?rc2 @ ''/'' @ item_name i) \<longrightarrow>
         rc_files rc3 p = rc_files ?rc2 p"
    using rc2(1) by auto
  have "record_init W L opts (?rc1, no_pipes) = Some (Return (), rc3, no_pipes)"
    by (rule init_record [OF lib(1,2) args(3) lib(3) _ 3(1)]) simp
  then have run: "record_main W L args files = Some (Return 0, rc3\<lparr>rc_index_fp := None\<rparr>, no_pipes)"
    using args(1-3) new cw by (simp add: record_main_def main_directory_def record_open_index_def)
  have "\<forall>i \<in> set (run_items L). dir @ ''/device.json'' \<noteq> dir @ ''/'' @ item_name i" using path(3) items(1) by blast
  with path(2) 3(3) rc2(1,4) have "rc_files rc3 (dir @ ''/device.json'') = Some (rw_json_text W (write_device_info (ll_dev L)))"
    by simp
  moreover have "\<exists>fk'. play_events (length (run_items L)) F fk = Some fk' \<and>
      rev (filter is_shown (fk_io fk')) = rev (filter is_shown (fk_io fk)) @ concat (map (shown dcb vcb fk) (run_items L)) \<and>
      fk_state fk' = fold motor_after (run_items L) (fk_state fk)" if "fe_files F = rc_files rc3" for F
  proof -
    have "fk_input_path fk = rc_out_dir ?rc2" using fake(3) rc2(1) by simp
    from record_then_play [OF items cw rc2(2,3) 3(1) that fake(1,2) this] show ?thesis by blast
  qed
  ultimately show ?thesis using run by simp
qed

section \<open>Refusals\<close>

text \<open>
  A directory that has an index already: the message is printed, and then the program closes the index
  file that it has not got.
\<close>

theorem record_existing_index_undefined:
  assumes "parse_args args \<lparr>op_out_dir = None, op_use_ffmpeg = False, op_ffmpeg_opts = None\<rparr> = Return opts"
    and "op_out_dir opts = Some dir" and "\<not> op_use_ffmpeg opts" and "files (dir @ ''/INDEX.txt'') \<noteq> None"
  shows "record_main W L args files = None"
  using assms by (simp add: record_main_def main_directory_def record_open_index_def)

text \<open>
  A target whose video file exists is refused, but the index that was created before stays, so that the
  next call is refused for the index, even when the video file has been taken away.
\<close>

theorem record_refusal_leaves_index:
  assumes "parse_args args \<lparr>op_out_dir = None, op_use_ffmpeg = False, op_ffmpeg_opts = None\<rparr> = Return opts"
    and "op_out_dir opts = Some dir" and "op_use_ffmpeg opts" and "rw_can_write W (dir @ ''-index.txt'')"
    and "files (dir @ ''-index.txt'') = None" and "files (dir @ ''-depth.avi'') \<noteq> None"
  shows "\<exists>rc. record_main W L args files = Some (Exit 1, rc, no_pipes) \<and>
    (\<exists>rc'. record_main W L args ((rc_files rc)(dir @ ''-depth.avi'' := None)) = Some (Return 1, rc', no_pipes))"
  using assms by (simp add: record_main_def main_ffmpeg_def record_open_index_def)

section \<open>An example\<close>

definition one_frame_lib :: rec_lib where
  "one_frame_lib = \<lparr>ll_init = 0, ll_open = 0, ll_dev = zero_device, ll_depth_mode = depth_11_mode, ll_video_mode = rgb_video_mode,
     ll_rounds = [\<lparr>rr_result = 0, rr_frames = [(CHR ''d'', 1300000000200000, 8, replicate 614400 5)], rr_time = 1300000000300000,
       rr_tilt = zero_tilt_state, rr_padding = 0\<rparr>],
     ll_stopping = []\<rparr>"

definition open_world :: rec_world where
  "open_world = \<lparr>rw_can_write = \<lambda>_. True, rw_can_run = \<lambda>_. True, rw_json_text = \<lambda>_. []\<rparr>"

theorem record_program_then_play_witness:
  "\<exists>rc fk'. record_main open_world one_frame_lib [''out''] Map.empty = Some (Return 0, rc, no_pipes) \<and>
     play_events 2 (demo_env (rc_files rc)) demo_fake = Some fk' \<and>
     filter is_shown (fk_io fk') = [FK_depth_cb 2 (Some 1) (replicate 614400 5) 8]"
proof -
  let ?opts = "\<lparr>op_out_dir = Some ''out'', op_use_ffmpeg = False, op_ffmpeg_opts = None\<rparr>"
  have args: "parse_args [''out''] \<lparr>op_out_dir = None, op_use_ffmpeg = False, op_ffmpeg_opts = None\<rparr> = Return ?opts"
    "op_out_dir ?opts = Some ''out''" "\<not> op_use_ffmpeg ?opts" "length ''out'' < 500" by simp_all
  have new: "(Map.empty :: string \<rightharpoonup> u8 list) (''out'' @ ''/INDEX.txt'') = None" and cw: "\<forall>p. rw_can_write open_world p"
    by (simp_all add: open_world_def)
  have bytes: "fm_bytes (ll_depth_mode one_frame_lib) = 614400" by (simp add: one_frame_lib_def depth_11_mode_def mode_row_def)
  have lib: "ll_init one_frame_lib = 0" "ll_open one_frame_lib = 0" "whole_frames one_frame_lib"
    using bytes by (simp_all add: one_frame_lib_def whole_frames_def)
  have items: "run_items one_frame_lib = [(CHR ''d'', 1300000000200000, 8, replicate 614400 5),
      (CHR ''a'', 1300000000300000, 8, tilt_state_bytes 0 zero_tilt_state)]"
    using bytes by (simp add: run_items_def one_frame_lib_def)
  then have ok: "\<forall>i \<in> set (run_items one_frame_lib). item_ok i" "distinct (map item_key (run_items one_frame_lib))"
    by (simp_all add: tilt_state_bytes_def)
  have fk: "fk_index_fp demo_fake = None" "fk_input_path demo_fake = ''out''" by (simp_all add: demo_fake_def)
  obtain rc where rc: "record_main open_world one_frame_lib [''out''] Map.empty = Some (Return 0, rc, no_pipes)"
    "\<forall>F. fe_files F = rc_files rc \<longrightarrow> (\<exists>fk'. play_events (length (run_items one_frame_lib)) F demo_fake = Some fk' \<and>
      rev (filter is_shown (fk_io fk')) = rev (filter is_shown (fk_io demo_fake)) @
        concat (map (shown 2 1 demo_fake) (run_items one_frame_lib)) \<and>
      fk_state fk' = fold motor_after (run_items one_frame_lib) (fk_state demo_fake))"
    using record_program_then_play [OF args new cw lib ok demo_playing fk] by blast
  have "fe_files (demo_env (rc_files rc)) = rc_files rc" by (simp add: demo_env_def)
  with rc(2) obtain fk' where fk': "play_events (length (run_items one_frame_lib)) (demo_env (rc_files rc)) demo_fake = Some fk'"
    "rev (filter is_shown (fk_io fk')) = rev (filter is_shown (fk_io demo_fake)) @
        concat (map (shown 2 1 demo_fake) (run_items one_frame_lib))" by blast
  have "concat (map (shown 2 1 demo_fake) (run_items one_frame_lib)) = [FK_depth_cb 2 (Some 1) (replicate 614400 5) 8]"
    "fk_io demo_fake = []" "length (run_items one_frame_lib) = 2"
    unfolding items by (simp_all add: demo_fake_def)
  with rc(1) fk' show ?thesis by (auto simp: rev_eq_Cons_iff)
qed

end
