(* ===== verification/Spec2Isabelle.thy ===== *)
theory Spec2Isabelle
  imports Audio Session Lifetime Loader Tilt SyncSetup Runloop Recording RecordMain
begin

text \<open>
  A verification library for libfreenect, the driver of the Kinect.

  The program. The library (src/) opens the USB devices of a Kinect through libusb, keeps them in
  the list of a context, sends commands to the camera, the motor and the audio device, and starts
  isochronous streams. Inside \<open>freenect_process_events\<close> libusb calls a completion callback for every
  transfer; it hands the packets to the camera and audio callbacks, which assemble frames and blocks
  of samples, convert them and call the client. On top of it stand a synchronous wrapper
  (wrappers/c_sync), which runs the events in a thread of its own and hands out the latest frame,
  and beside it a pair of tools (fakenect): a recorder, and a library with the same interface that
  plays a recording.

  How the code is modelled. All operations work on one state \<open>st\<close> (theory Types): the context, the
  store of devices, the heap of byte blocks, the transfers and the history of what crossed the border
  of the library (calls of libusb and of the client). What libusb, the allocator, the file system and
  the clock answer is a parameter \<open>env\<close>, a function of that history; every theorem holds for all
  answers unless it says which. A function of the code that can have no defined continuation (an
  access outside of an object, NULL, freed memory, a loop that never ends) returns an \<open>option\<close>, and
  \<open>None\<close> is exactly that; so \<open>f x = Some y\<close> says that the code returned and stayed inside its objects.
  Error codes are the integers of the code. Integers have their width (Word), except for the \<open>int\<close> of
  results and sizes, whose range does not matter. Floating point numbers are reals, with a rounding
  after every operation that is a parameter; the angle of the tilt motor, which the code compares before
  it converts it, is \<open>c_double\<close>, with the infinities and NaN. Log messages are left out.

  The parts, in the order of the theories:
  \<^item> Prelude, Types, Heap_Own: words and bytes, the heap (malloc, free, blocks, ownership of
    pointers and the growth of memory), the structs and enumerations of include/libfreenect.h,
    src/freenect_internal.h, src/usb_libusb10.h and include/libfreenect_registration.h, the state.
  \<^item> Stream (src/cameras.c): \<open>stream_process\<close> cut at its comments, the life cycle of a stream's
    buffers. Lemmas: an invariant that no packet can break, and the assembly of a frame.
  \<^item> Unpack, Color, Frames (src/cameras.c): the unpackers against slices of the bit stream, the Bayer
    shift buffers against a reference demosaicing (which the formulas of the comment exceed by at most
    one), \<open>depth_process\<close> and \<open>video_process\<close> with their
    invariants \<open>depth_inv\<close> and \<open>video_inv\<close>.
  \<^item> Modes (src/cameras.c): the tables of modes; the interface \<open>mode_table\<close>, interpreted on both.
  \<^item> Registration (src/registration.c): the tables, the z-buffer and the inverse mapping against
    references that do not depend on the order of the loops.
  \<^item> Control (src/flags.c): \<open>send_cmd\<close>, whose result is a function of the bytes that were polled; the
    registers and the flags; what a command may change.
  \<^item> Tilt (src/tilt.c), AudioCb and Audio (src/audio.c), Loader (src/loader.c): motor and LED, the two
    audio callbacks and the audio streams, the firmware upload against a machine that is the loader
    on the device.
  \<^item> Iso (src/usb_libusb10.c): isochronous transfers as an abstract pool (\<open>pool_step\<close>), whose steps
    are labelled by what happens to the transfer (kept, refused, retired), and which the completion
    callback refines, submissions included; stopping a stream as a descent (\<open>drain_order\<close>). The
    progress that libusb has to make is \<open>delivers\<close> for a stream that is alone and \<open>faithful\<close> (Client) with
    other streams running: only submitted streams are reported, and while a stream is being drained it
    cannot happen for ever that none of its completions is reported.
  \<^item> Camera, Session (src/cameras.c): the camera operations; the interface \<open>frame_stream\<close> of the two
    streams, in which starting, running and stopping are treated once; the sequence of registers and
    commands that reach the camera, and what a session allocates.
  \<^item> Usb, Links, Core (src/usb_libusb10.c, src/core.c): finding and opening devices; which operations
    leave the list of devices alone; which ones sleep; the context, with its linked list refined to a list of devices
    (\<open>device_list\<close>).
  \<^item> Client, Lifetime: the calls of a client of one open camera as a datatype, run in any order and with
    the event loop in between; one invariant, kept by every call and every completion (\<open>client_inv\<close>), from
    which \<open>client_calls_safe\<close> follows; that one stream can be stopped while the other runs
    (\<open>fnusb_stop_iso_returns\<close>, \<open>freenect_camera_teardown_leaves_video\<close>); and a whole session, from freenect_open_device on a context without
    devices to freenect_shutdown (\<open>session_safe\<close>). What opening the USB devices leaves alone is in Links.
  \<^item> Sync, SyncRing, SyncSetup, Runloop (wrappers/c_sync/libfreenect_sync.c): the wrapper with critical
    sections as single steps; the interface \<open>frame_source\<close>, in which the ring of three buffers refines
    a mailbox for one frame, a deterministic machine whose events carry the bytes and the timestamps; the set-up and its error paths; and, step by step and for any number of
    clients, the mutex, the condition variable and the counter (\<open>rl_reachable\<close>).
  \<^item> Fakenect, Recorder, Playback, Recording, RecordMain (fakenect/fakenect.c, fakenect/record.c):
    playing and recording, that one is the inverse of the other, and the record program from its
    arguments to the files it leaves. The library that the program runs on is given by the rounds of
    events of one run, which the signal ends; the operating system by the files it lets be written.

  Loops. Loops over data are structural recursion. The loops that wait for the outside world
  (the reply of a command, the events that drain a stream, the pages of a file) or follow the
  pointers of the list are \<open>partial_function (option)\<close>, so that going on for ever is \<open>None\<close>; that they
  return is stated as such, with the answers that make them return (\<open>await_reply_returns_iff\<close>,
  \<open>fnusb_stop_iso_returns\<close>, \<open>freenect_shutdown_closes_all\<close>). The wait of the synchronous wrapper for a
  frame is the result \<open>Waiting\<close>, after which the call is made again when the ring has a frame. The
  loop that waits for the audio device to come back has the ten tries of the code. No definition has
  fuel.

  Assumptions. The build is the libusb-1.0 one on Linux, on a little endian host; the audio
  firmware is given by the client or found in a file. A struct is allocated when
  \<open>e_alloc\<close> says so; buffers come from the heap, whose size is part of the state; short-lived strings
  are always allocated. There is one context. The client calls the interface from one thread, except
  through the synchronous wrapper. Printing and reading of numbers (fakenect) covers the formats that
  the recorder writes. JSON documents are a parameter, given as a tree.

  Not modelled. Vendored code (fakenect/parson.c, the headers of OpenNI2), the C++ glue
  (OpenNI2-FreenectDriver, wrappers/cpp, wrappers/opencv) and the other bindings, which forward to the
  C interface; platform/windows, an emulation of libusb in C++; the examples, which display what the
  interface delivers; src/fwfetcher.py, which runs at build time. Two clients of the synchronous wrapper
  that race while the thread is started or ended are outside of Sync (there a call is one step) and of
  Runloop (which starts with a running loop).
\<close>

end
